(* ===== verification/Prelude.thy ===== *)
theory Prelude
  imports Complex_Main "HOL-Library.State_Monad" "HOL-Library.Monad_Syntax"
    "HOL-Library.Char_ord" "HOL-Library.List_Lexorder" "HOL-Library.Product_Lexorder"
begin

section \<open>Prelude: effects, tables, strings and machine integers\<close>

text \<open>
  What every component shares.

  \<^item> Go code with effects is modelled in the state monad of \<^theory_text>\<open>HOL-Library.State_Monad\<close>:
    a call \<open>x, err := f(...)\<close> is \<open>x \<leftarrow> f ...\<close>, and an \<open>error\<close> result is a value of a sum type
    (\<open>Inl\<close> is the error).
  \<^item> \<open>state_io_rel R m\<close> (from the library) says that every run of \<open>m\<close> relates its initial and
    its final state by \<open>R\<close>. The locale \<open>step_rel\<close> collects how such a relation composes, so that a
    property of every store write becomes a property of whole handlers.
  \<^item> SQL tables are lists of rows; \<open>sql_update\<close> and \<open>sql_delete\<close> are the two statements the code
    uses, with the number of rows affected, and \<open>sql_find\<close> is a lookup by key.
  \<^item> The parts of Go's \<open>strings\<close> package and of its 64-bit integers that the components use.
\<close>

named_theorems io_intros \<open>composition rules for state_io_rel\<close>
named_theorems store_defs \<open>definitions of the store operations\<close>

subsection \<open>The state monad\<close>

type_synonym ('s, 'a) action = "('s, 'a) state"

abbreviation ret :: "'a \<Rightarrow> ('s, 'a) action" where
  "ret \<equiv> State_Monad.return"

abbreviation getS :: "('s, 's) action" where
  "getS \<equiv> State_Monad.get"

abbreviation putS :: "'s \<Rightarrow> ('s, unit) action" where
  "putS \<equiv> State_Monad.set"

definition modify :: "('s \<Rightarrow> 's) \<Rightarrow> ('s, unit) action" where
  "modify f = State (\<lambda>s. ((), f s))"

definition reader :: "('s \<Rightarrow> 'a) \<Rightarrow> ('s, 'a) action" where
  "reader f = State (\<lambda>s. (f s, s))"

lemma run_modify [simp]: "run_state (modify f) s = ((), f s)"
  by (simp add: modify_def)

lemma run_reader [simp]: "run_state (reader f) s = (f s, s)"
  by (simp add: reader_def)

text \<open>A \<open>for\<close> loop over a slice whose body cannot leave the loop.\<close>

fun forEach :: "('x \<Rightarrow> ('s, unit) action) \<Rightarrow> 'x list \<Rightarrow> ('s, unit) action" where
  "forEach f [] = ret ()"
| "forEach f (x # xs) = do { _ \<leftarrow> f x; forEach f xs }"

text \<open>How a relation between the state before and the state after a call composes.\<close>

locale step_rel =
  fixes R :: "'s \<Rightarrow> 's \<Rightarrow> bool"
  assumes step_refl: "R s s"
    and step_trans: "R s t \<Longrightarrow> R t u \<Longrightarrow> R s u"
begin

lemma io_return [io_intros]: "state_io_rel R (ret x)"
  by (simp add: state_io_rel_def step_refl)

lemma io_reader [io_intros]: "state_io_rel R (reader f)"
  by (simp add: state_io_rel_def step_refl)

lemma io_bind [io_intros]:
  assumes "state_io_rel R m" and "\<And>x. state_io_rel R (f x)"
  shows "state_io_rel R (State_Monad.bind m f)"
  using assms by (auto simp: state_io_rel_def split: prod.splits) (metis snd_conv step_trans)

lemma io_if [io_intros]:
  assumes "b \<Longrightarrow> state_io_rel R m" and "\<not> b \<Longrightarrow> state_io_rel R n"
  shows "state_io_rel R (if b then m else n)"
  using assms by simp

lemma io_case_option [io_intros]:
  assumes "state_io_rel R m" and "\<And>x. state_io_rel R (n x)"
  shows "state_io_rel R (case v of None \<Rightarrow> m | Some x \<Rightarrow> n x)"
  using assms by (cases v) simp_all

lemma io_case_sum [io_intros]:
  assumes "\<And>e. state_io_rel R (m e)" and "\<And>x. state_io_rel R (n x)"
  shows "state_io_rel R (case v of Inl e \<Rightarrow> m e | Inr x \<Rightarrow> n x)"
  using assms by (cases v) simp_all

lemma io_case_prod [io_intros]:
  assumes "\<And>a b. state_io_rel R (m a b)"
  shows "state_io_rel R (case p of (a, b) \<Rightarrow> m a b)"
  using assms by (cases p) simp

lemma io_forEach [io_intros]:
  assumes "\<And>x. state_io_rel R (f x)"
  shows "state_io_rel R (forEach f xs)"
  by (induction xs) (auto intro!: io_intros assms)

end

subsection \<open>Tables\<close>

definition sql_update :: "('r \<Rightarrow> bool) \<Rightarrow> ('r \<Rightarrow> 'r) \<Rightarrow> 'r list \<Rightarrow> 'r list \<times> nat" where
  "sql_update p f rows = (map (\<lambda>r. if p r then f r else r) rows, length (filter p rows))"

definition sql_delete :: "('r \<Rightarrow> bool) \<Rightarrow> 'r list \<Rightarrow> 'r list \<times> nat" where
  "sql_delete p rows = (filter (\<lambda>r. \<not> p r) rows, length (filter p rows))"

definition sql_find :: "('r \<Rightarrow> bool) \<Rightarrow> 'r list \<Rightarrow> 'r option" where
  "sql_find p rows = List.find p rows"

lemma fst_sql_update [simp]: "fst (sql_update p f rows) = map (\<lambda>r. if p r then f r else r) rows"
  by (simp add: sql_update_def)

lemma snd_sql_update [simp]: "snd (sql_update p f rows) = length (filter p rows)"
  by (simp add: sql_update_def)

lemma sql_find_None_iff: "sql_find p rows = None \<longleftrightarrow> (\<forall>r \<in> set rows. \<not> p r)"
  by (auto simp: sql_find_def find_None_iff)

lemma sql_find_SomeD: "sql_find p rows = Some r \<Longrightarrow> r \<in> set rows \<and> p r"
  by (auto simp: sql_find_def find_Some_iff)

lemma sql_find_affected:
  "sql_find p rows = Some r \<Longrightarrow> q r \<Longrightarrow> length (filter q rows) \<noteq> 0"
  using sql_find_SomeD [of p rows r] by (auto simp: filter_empty_conv)

lemma sql_find_map:
  assumes "\<And>r. p (f r) = p r"
  shows "sql_find p (map f rows) = map_option f (sql_find p rows)"
  using assms by (induction rows) (auto simp: sql_find_def)

lemma sql_find_distinct:
  assumes "distinct (map k rows)" and "r \<in> set rows"
  shows "sql_find (\<lambda>x. k x = k r) rows = Some r"
  using assms by (induction rows) (auto simp: sql_find_def)

lemma filter_key_distinct:
  assumes "distinct (map k rows)"
  shows "length (filter (\<lambda>x. k x = i \<and> q x) rows) \<le> 1"
  using assms by (induction rows) (auto simp: filter_empty_conv image_iff)

subsection \<open>Strings\<close>

definition HasPrefix :: "string \<Rightarrow> string \<Rightarrow> bool" where
  "HasPrefix s p \<longleftrightarrow> take (length p) s = p"

definition TrimPrefix :: "string \<Rightarrow> string \<Rightarrow> string" where
  "TrimPrefix s p = (if HasPrefix s p then drop (length p) s else s)"

text \<open>\<open>strings.TrimRight\<close> with a one-character cut set.\<close>

definition TrimRight1 :: "string \<Rightarrow> char \<Rightarrow> string" where
  "TrimRight1 s c = rev (dropWhile (\<lambda>x. x = c) (rev s))"

text \<open>\<open>strings.Cut\<close> with a one-character separator: before, after, found.\<close>

definition Cut1 :: "string \<Rightarrow> char \<Rightarrow> string \<times> string \<times> bool" where
  "Cut1 s c = (if c \<in> set s
     then (takeWhile (\<lambda>x. x \<noteq> c) s, tl (dropWhile (\<lambda>x. x \<noteq> c) s), True)
     else (s, [], False))"

lemma HasPrefix_append [simp]: "HasPrefix (p @ s) p"
  by (simp add: HasPrefix_def)

lemma HasPrefix_iff: "HasPrefix s p \<longleftrightarrow> (\<exists>t. s = p @ t)"
  by (metis HasPrefix_def HasPrefix_append append_take_drop_id)

lemma TrimPrefix_append [simp]: "TrimPrefix (p @ s) p = s"
  by (simp add: TrimPrefix_def)

lemma Cut1_append:
  assumes "c \<notin> set a"
  shows "Cut1 (a @ c # b) c = (a, b, True)"
proof -
  have "takeWhile (\<lambda>x. x \<noteq> c) (a @ c # b) = a" and "dropWhile (\<lambda>x. x \<noteq> c) (a @ c # b) = c # b"
    using assms by (induction a) auto
  then show ?thesis by (simp add: Cut1_def)
qed

subsection \<open>64-bit signed integers\<close>

text \<open>Go's \<open>int64\<close> arithmetic wraps around; \<open>wrap64\<close> is the value a result is reduced to.\<close>

definition wrap64 :: "int \<Rightarrow> int" where
  "wrap64 x = (x + 2 ^ 63) mod 2 ^ 64 - 2 ^ 63"

definition int64 :: "int \<Rightarrow> bool" where
  "int64 x \<longleftrightarrow> - (2 ^ 63) \<le> x \<and> x < 2 ^ 63"

lemma wrap64_id [simp]: "int64 x \<Longrightarrow> wrap64 x = x"
  by (simp add: wrap64_def int64_def)

lemma int64_wrap64 [simp]: "int64 (wrap64 x)"
proof -
  have "0 \<le> (x + 2 ^ 63) mod 2 ^ 64" and "(x + 2 ^ 63) mod 2 ^ 64 < (2 ^ 64 :: int)"
    by (rule pos_mod_sign, simp) (rule pos_mod_bound, simp)
  then show ?thesis by (simp add: wrap64_def int64_def)
qed

subsection \<open>Decimal integers: \<open>strconv\<close>\<close>

definition digit_val :: "char \<Rightarrow> nat option" where
  "digit_val c = (if 48 \<le> (of_char c :: nat) \<and> (of_char c :: nat) \<le> 57
     then Some ((of_char c :: nat) - 48) else None)"

fun parse_digits :: "nat \<Rightarrow> string \<Rightarrow> nat option" where
  "parse_digits acc [] = Some acc"
| "parse_digits acc (c # cs) = (case digit_val c of None \<Rightarrow> None | Some d \<Rightarrow> parse_digits (acc * 10 + d) cs)"

definition parse_nat :: "string \<Rightarrow> nat option" where
  "parse_nat s = (if s = [] then None else parse_digits 0 s)"

text \<open>\<open>strconv.ParseInt(s, 10, 64)\<close>: an optional sign, at least one digit, and a value in range.\<close>

definition ParseInt64 :: "string \<Rightarrow> int option" where
  "ParseInt64 s = (case s of
      [] \<Rightarrow> None
    | c # cs \<Rightarrow>
        (case (if c = CHR ''-'' then map_option (\<lambda>n. - int n) (parse_nat cs)
               else if c = CHR ''+'' then map_option int (parse_nat cs)
               else map_option int (parse_nat s)) of
           None \<Rightarrow> None
         | Some n \<Rightarrow> (if int64 n then Some n else None)))"

definition digit_char :: "nat \<Rightarrow> char" where
  "digit_char d = char_of (48 + d)"

fun format_nat :: "nat \<Rightarrow> string" where
  "format_nat n = (if n < 10 then [digit_char n] else format_nat (n div 10) @ [digit_char (n mod 10)])"

declare format_nat.simps [simp del]

definition Itoa :: "int \<Rightarrow> string" where
  "Itoa n = (if n < 0 then CHR ''-'' # format_nat (nat (- n)) else format_nat (nat n))"

lemma digit_val_char [simp]: "d < 10 \<Longrightarrow> digit_val (digit_char d) = Some d"
  by (simp add: digit_val_def digit_char_def)

lemma digit_char_not_sign: "d < 10 \<Longrightarrow> digit_char d \<noteq> CHR ''-'' \<and> digit_char d \<noteq> CHR ''+''"
proof -
  assume "d < 10"
  then have "digit_val (digit_char d) \<noteq> None" by simp
  then show ?thesis by (auto simp: digit_val_def)
qed

lemma parse_digits_append:
  "parse_digits acc (xs @ ys) = (case parse_digits acc xs of None \<Rightarrow> None | Some a \<Rightarrow> parse_digits a ys)"
  by (induction xs arbitrary: acc) (auto split: option.splits)

lemma parse_format_nat: "parse_digits 0 (format_nat n) = Some n"
proof (induction n rule: format_nat.induct)
  case (1 n)
  show ?case
  proof (cases "n < 10")
    case True
    then show ?thesis by (simp add: format_nat.simps [of n])
  next
    case False
    with 1 show ?thesis
      by (simp add: format_nat.simps [of n] parse_digits_append mult.commute [of _ 10])
  qed
qed

lemma format_nat_nonempty [simp]: "format_nat n \<noteq> []"
  by (subst format_nat.simps) simp

lemma format_nat_hd: "\<exists>d cs. format_nat n = digit_char d # cs \<and> d < 10"
proof (induction n rule: format_nat.induct)
  case (1 n)
  show ?case
  proof (cases "n < 10")
    case True
    then show ?thesis by (subst format_nat.simps) auto
  next
    case False
    with 1 obtain d cs where "format_nat (n div 10) = digit_char d # cs" and "d < 10" by auto
    with False show ?thesis by (subst format_nat.simps) auto
  qed
qed

lemma ParseInt64_Itoa: "int64 n \<Longrightarrow> ParseInt64 (Itoa n) = Some n"
proof (cases "n < 0")
  case True
  moreover assume "int64 n"
  ultimately show ?thesis
    by (simp add: ParseInt64_def Itoa_def parse_nat_def parse_format_nat)
next
  case False
  moreover assume "int64 n"
  moreover obtain d cs where "format_nat (nat n) = digit_char d # cs" and "d < 10"
    using format_nat_hd by blast
  ultimately show ?thesis
    using digit_char_not_sign [of d] parse_format_nat [of "nat n"]
    by (simp add: ParseInt64_def Itoa_def parse_nat_def)
qed

lemma ParseInt64_range: "ParseInt64 s = Some n \<Longrightarrow> int64 n"
  by (auto simp: ParseInt64_def split: list.splits option.splits if_splits)

end
