(* ===== verification/TaskState.thy ===== *)
theory TaskState
  imports Prelude
begin

section \<open>The task state machine\<close>

text \<open>
  The ten states of \<open>tasks.state\<close> (\<open>src/internal/engine/engine.go\<close>, \<open>TaskState\<close>, and
  \<open>src/internal/store/tasks.go\<close>, \<open>taskStates\<close>), the edge table \<open>taskTransitions\<close> with the universal
  targets, and \<open>transitionLegal\<close>. The lemmas describe the whole graph: which states are terminal, which
  states the post-processing states are entered from, and what is reachable.
\<close>

datatype task_state =
    StateQueued | StateDownloading | StateSeeding | StatePaused | StateChecking
  | StateExtracting | StateMoving | StateCompleted | StateError | StateRemoved

text \<open>The storage form of a state, the strings of the Go constants.\<close>

fun state_str :: "task_state \<Rightarrow> string" where
  "state_str StateQueued = ''queued''"
| "state_str StateDownloading = ''downloading''"
| "state_str StateSeeding = ''seeding''"
| "state_str StatePaused = ''paused''"
| "state_str StateChecking = ''checking''"
| "state_str StateExtracting = ''extracting''"
| "state_str StateMoving = ''moving''"
| "state_str StateCompleted = ''completed''"
| "state_str StateError = ''error''"
| "state_str StateRemoved = ''removed''"

definition taskStates :: "task_state list" where
  "taskStates = [StateQueued, StateDownloading, StateChecking, StatePaused, StateSeeding,
     StateCompleted, StateExtracting, StateMoving, StateError, StateRemoved]"

text \<open>The row of a state in the edge table; \<open>removed\<close> has none.\<close>

fun taskTransitions :: "task_state \<Rightarrow> task_state list" where
  "taskTransitions StateQueued = [StateDownloading, StateChecking, StateSeeding, StateCompleted]"
| "taskTransitions StateDownloading = [StateQueued, StateChecking, StateSeeding, StateCompleted]"
| "taskTransitions StateChecking = [StateQueued, StateDownloading, StateSeeding, StateCompleted]"
| "taskTransitions StatePaused =
     [StateQueued, StateDownloading, StateChecking, StateSeeding, StateCompleted]"
| "taskTransitions StateSeeding =
     [StateQueued, StateDownloading, StateChecking, StateCompleted, StateExtracting, StateMoving]"
| "taskTransitions StateCompleted = [StateChecking, StateSeeding, StateExtracting, StateMoving]"
| "taskTransitions StateExtracting = [StateMoving, StateCompleted]"
| "taskTransitions StateMoving = [StateCompleted, StateSeeding]"
| "taskTransitions StateError = [StateQueued, StateCompleted]"
| "taskTransitions StateRemoved = []"

definition universalTransitionTargets :: "task_state list" where
  "universalTransitionTargets = [StatePaused, StateError, StateRemoved]"

definition transitionLegal :: "task_state \<Rightarrow> task_state \<Rightarrow> bool" where
  "transitionLegal from next \<longleftrightarrow>
     (if from = StateRemoved \<or> from = next then False
      else if next \<in> set universalTransitionTargets then True
      else next \<in> set (taskTransitions from))"

definition transitionEventLevel :: "task_state \<Rightarrow> string" where
  "transitionEventLevel next = (if next = StateError then ''error'' else ''info'')"

lemma state_str_inject [simp]: "state_str s = state_str t \<longleftrightarrow> s = t"
  by (cases s; cases t) simp_all

lemma set_taskStates: "set taskStates = UNIV"
  by (auto simp: taskStates_def intro: task_state.exhaust)

lemma not_legal_self [simp]: "\<not> transitionLegal s s"
  by (simp add: transitionLegal_def)

lemma not_legal_from_removed [simp]: "\<not> transitionLegal StateRemoved s"
  by (simp add: transitionLegal_def)

lemma legal_universal [simp]:
  "transitionLegal s StatePaused \<longleftrightarrow> s \<noteq> StateRemoved \<and> s \<noteq> StatePaused"
  "transitionLegal s StateError \<longleftrightarrow> s \<noteq> StateRemoved \<and> s \<noteq> StateError"
  "transitionLegal s StateRemoved \<longleftrightarrow> s \<noteq> StateRemoved"
  by (auto simp: transitionLegal_def universalTransitionTargets_def)

lemma legal_to_queued:
  "transitionLegal s StateQueued \<longleftrightarrow>
     s \<in> {StateDownloading, StateChecking, StatePaused, StateSeeding, StateError}"
  by (cases s) (simp_all add: transitionLegal_def universalTransitionTargets_def)

lemma legal_to_downloading:
  "transitionLegal s StateDownloading \<longleftrightarrow>
     s \<in> {StateQueued, StateChecking, StatePaused, StateSeeding}"
  by (cases s) (simp_all add: transitionLegal_def universalTransitionTargets_def)

lemma legal_to_extracting:
  "transitionLegal s StateExtracting \<longleftrightarrow> s \<in> {StateSeeding, StateCompleted}"
  by (cases s) (simp_all add: transitionLegal_def universalTransitionTargets_def)

lemma legal_to_moving:
  "transitionLegal s StateMoving \<longleftrightarrow> s \<in> {StateSeeding, StateCompleted, StateExtracting}"
  by (cases s) (simp_all add: transitionLegal_def universalTransitionTargets_def)

text \<open>A task history is a path of the graph; \<open>legal_path\<close> is its reflexive transitive closure.\<close>

abbreviation legal_path :: "task_state \<Rightarrow> task_state \<Rightarrow> bool" where
  "legal_path \<equiv> transitionLegal\<^sup>*\<^sup>*"

lemma legal_path_from_removed: "legal_path StateRemoved s \<Longrightarrow> s = StateRemoved"
  by (induction rule: rtranclp_induct) simp_all

lemma legal_path_queued_all: "legal_path StateQueued t"
proof -
  have step: "legal_path StateQueued s" if "transitionLegal StateQueued s" for s
    using that by blast
  have sd: "legal_path StateQueued StateSeeding"
    by (rule step) (simp add: transitionLegal_def)
  have "legal_path StateQueued StateExtracting" and "legal_path StateQueued StateMoving"
    by (rule rtranclp.rtrancl_into_rtrancl [OF sd], simp add: transitionLegal_def
        universalTransitionTargets_def)+
  then show ?thesis
    by (cases t) (auto intro!: step simp: transitionLegal_def universalTransitionTargets_def)
qed

lemma legal_path_to_queued: "s \<noteq> StateRemoved \<Longrightarrow> legal_path s StateQueued"
proof -
  assume "s \<noteq> StateRemoved"
  then have "legal_path s StatePaused"
    by (cases "s = StatePaused") auto
  moreover have "transitionLegal StatePaused StateQueued"
    by (simp add: legal_to_queued)
  ultimately show ?thesis
    by (rule rtranclp.rtrancl_into_rtrancl)
qed

text \<open>
  Exactly the removed state is final: from every other state every state of the machine can be
  reached by legal transitions, so no task is ever stuck, and from removed nothing else can.
\<close>

theorem legal_path_iff: "legal_path s t = (if s = StateRemoved then t = StateRemoved else True)"
  using legal_path_from_removed legal_path_queued_all legal_path_to_queued
  by (metis rtranclp.rtrancl_refl rtranclp_trans)

end
