(* ===== verification/Selection.thy ===== *)
theory Selection
  imports Prelude "HOL-Library.AList"
begin

section \<open>File selections and their JSON documents\<close>

text \<open>
  \<open>SelectionIntent\<close>, \<open>DecodeSelectionIntent\<close> and the encoder of \<open>SetSelectionIntent\<close>
  (\<open>src/internal/store/tasks.go\<close>): the document of the column \<open>tasks.select_files\<close>.
  A stored text is represented by what \<open>encoding/json\<close> reads from it: \<open>NoJson\<close> for a text that is not
  JSON, \<open>Json v\<close> for the value of a text that is. \<open>unmarshal_intent\<close> is \<open>json.Unmarshal\<close> into the two
  fields of the struct: keys match in any letter case, a \<open>null\<close> leaves a field nil, an unknown key is
  ignored, and a value of the wrong shape or an integer that does not fit is an error.
\<close>

datatype json =
    JNull | JBool bool | JInt int | JFloat rat | JStr string | JArr "json list"
  | JObj "(string \<times> json) list"

datatype json_text = NoJson string | Json json

record selection_intent =
  si_Indices :: "int list"
  si_Priorities :: "(int \<times> int) list"

text \<open>ASCII case folding of object keys.\<close>

definition lower :: "char \<Rightarrow> char" where
  "lower c = (if 65 \<le> (of_char c :: nat) \<and> (of_char c :: nat) \<le> 90 then char_of ((of_char c :: nat) + 32) else c)"

definition EqualFold :: "string \<Rightarrow> string \<Rightarrow> bool" where
  "EqualFold a b \<longleftrightarrow> map lower a = map lower b"

fun json_int :: "json \<Rightarrow> int option" where
  "json_int (JInt n) = (if int64 n then Some n else None)"
| "json_int _ = None"

fun all_some :: "'a option list \<Rightarrow> 'a list option" where
  "all_some [] = Some []"
| "all_some (x # xs) = (case x of None \<Rightarrow> None | Some a \<Rightarrow> map_option ((#) a) (all_some xs))"

text \<open>An element \<open>null\<close> of a list or a map leaves the zero value.\<close>

definition json_int_or_zero :: "json \<Rightarrow> int option" where
  "json_int_or_zero v = (if v = JNull then Some 0 else json_int v)"

fun unmarshal_ints :: "json \<Rightarrow> int list option option" where
  "unmarshal_ints JNull = Some None"
| "unmarshal_ints (JArr vs) = map_option Some (all_some (map json_int_or_zero vs))"
| "unmarshal_ints _ = None"

text \<open>
  Decoding into a map updates it entry by entry, so a later entry for a key wins; the association list
  holds the newest entry first. A repeated field decodes into what the earlier one left.
\<close>

fun unmarshal_int_map :: "(int \<times> int) list option \<Rightarrow> json \<Rightarrow> (int \<times> int) list option option" where
  "unmarshal_int_map old JNull = Some None"
| "unmarshal_int_map old (JObj kvs) =
     map_option (\<lambda>es. Some (rev es @ (case old of None \<Rightarrow> [] | Some xs \<Rightarrow> xs)))
     (all_some (map (\<lambda>(k, v). case (ParseInt64 k, json_int_or_zero v) of
        (Some i, Some n) \<Rightarrow> Some (i, n) | _ \<Rightarrow> None) kvs))"
| "unmarshal_int_map old _ = None"

type_synonym raw_intent = "int list option \<times> (int \<times> int) list option"

fun unmarshal_fields :: "(string \<times> json) list \<Rightarrow> raw_intent \<Rightarrow> raw_intent option" where
  "unmarshal_fields [] st = Some st"
| "unmarshal_fields ((k, v) # kvs) (i, p) =
     (if EqualFold ''indices'' k
      then (case unmarshal_ints v of None \<Rightarrow> None | Some i' \<Rightarrow> unmarshal_fields kvs (i', p))
      else if EqualFold ''priorities'' k
      then (case unmarshal_int_map p v of None \<Rightarrow> None | Some p' \<Rightarrow> unmarshal_fields kvs (i, p'))
      else unmarshal_fields kvs (i, p))"

fun unmarshal_intent :: "json_text \<Rightarrow> raw_intent option" where
  "unmarshal_intent (NoJson _) = None"
| "unmarshal_intent (Json JNull) = Some (None, None)"
| "unmarshal_intent (Json (JObj kvs)) = unmarshal_fields kvs (None, None)"
| "unmarshal_intent (Json _) = None"

definition valid_priority :: "int \<times> int \<Rightarrow> bool" where
  "valid_priority e \<longleftrightarrow> \<not> (fst e < 0 \<or> (snd e \<noteq> 0 \<and> snd e \<noteq> 1 \<and> snd e \<noteq> 6 \<and> snd e \<noteq> 7))"

definition DecodeSelectionIntent :: "json_text \<Rightarrow> selection_intent option" where
  "DecodeSelectionIntent raw = (case unmarshal_intent raw of
      None \<Rightarrow> None
    | Some (i, p) \<Rightarrow>
        let indices = (case i of None \<Rightarrow> [] | Some xs \<Rightarrow> xs);
            priorities = (case p of None \<Rightarrow> [] | Some es \<Rightarrow> AList.clearjunk es) in
        if list_ex (\<lambda>idx. idx < 0) indices then None
        else if list_ex (\<lambda>e. \<not> valid_priority e) priorities then None
        else Some \<lparr>si_Indices = indices, si_Priorities = priorities\<rparr>)"

text \<open>\<open>json.Marshal\<close> of the struct: the keys of a map are written in string order.\<close>

definition encodeIntent :: "selection_intent \<Rightarrow> json_text" where
  "encodeIntent sel = Json (JObj [
     (''indices'', JArr (map JInt (si_Indices sel))),
     (''priorities'', JObj (sort_key fst (map (\<lambda>(k, v). (Itoa k, JInt v)) (si_Priorities sel))))])"

text \<open>The empty column and the absent column carry no selection.\<close>

definition decodeSelectionIntent :: "json_text option \<Rightarrow> (unit + selection_intent option)" where
  "decodeSelectionIntent raw = (case raw of
      None \<Rightarrow> Inr None
    | Some t \<Rightarrow> if t = NoJson '''' then Inr None
        else (case DecodeSelectionIntent t of None \<Rightarrow> Inl () | Some sel \<Rightarrow> Inr (Some sel)))"

subsection \<open>Round trip\<close>

text \<open>A selection the store accepts: indices and keys are non-negative integers, priorities known.\<close>

definition valid_intent :: "selection_intent \<Rightarrow> bool" where
  "valid_intent sel \<longleftrightarrow>
     list_all (\<lambda>i. 0 \<le> i \<and> int64 i) (si_Indices sel) \<and>
     list_all (\<lambda>e. valid_priority e \<and> int64 (fst e)) (si_Priorities sel) \<and>
     distinct (map fst (si_Priorities sel))"

lemma all_some_map_Some: "(\<And>x. x \<in> set xs \<Longrightarrow> f x = Some (g x)) \<Longrightarrow> all_some (map f xs) = Some (map g xs)"
  by (induction xs) auto

lemma EqualFold_refl [simp]: "EqualFold a a"
  by (simp add: EqualFold_def)

lemma indices_not_priorities [simp]: "\<not> EqualFold ''indices'' ''priorities''"
  by (auto simp: EqualFold_def dest: arg_cong [where f = length])

lemma valid_priority_int64: "valid_priority e \<Longrightarrow> int64 (snd e)"
  by (auto simp: valid_priority_def int64_def)

lemma unmarshal_ints_encoded:
  "list_all (\<lambda>i. 0 \<le> i \<and> int64 i) xs \<Longrightarrow> unmarshal_ints (JArr (map JInt xs)) = Some (Some xs)"
  by (induction xs) (auto simp: json_int_or_zero_def o_def)

lemma unmarshal_map_encoded:
  assumes "list_all (\<lambda>e. valid_priority e \<and> int64 (fst e)) ps"
  shows "\<exists>es. unmarshal_int_map None (JObj (sort_key fst (map (\<lambda>(k, v). (Itoa k, JInt v)) ps))) = Some (Some es)
    \<and> set es = set ps \<and> length es = length ps"
proof -
  let ?kvs = "sort_key fst (map (\<lambda>(k, v). (Itoa k, JInt v)) ps)"
  define g where "g = (\<lambda>(k, v). (the (ParseInt64 k), case v of JInt n \<Rightarrow> n))"
  let ?f = "\<lambda>(k, v). case (ParseInt64 k, json_int_or_zero v) of (Some i, Some n) \<Rightarrow> Some (i, n) | _ \<Rightarrow> None"
  have dec: "?f e = Some (g e)" if "e \<in> set ?kvs" for e
    using that assms valid_priority_int64
    by (auto simp: list_all_iff ParseInt64_Itoa json_int_or_zero_def g_def)
  have "set (map g ?kvs) = set ps"
    using assms by (force simp: list_all_iff ParseInt64_Itoa g_def image_iff)
  moreover have "all_some (map ?f ?kvs) = Some (map g ?kvs)"
    using dec by (rule all_some_map_Some)
  ultimately show ?thesis
    by (intro exI [of _ "rev (map g ?kvs)"]) simp
qed

lemma distinct_length_set:
  assumes "distinct (map fst ps)" and "set es = set ps" and "length es = length ps"
  shows "distinct (map fst es)"
proof -
  have "card (set (map fst es)) = card (set (map fst ps))"
    using assms(2) by simp
  also have "\<dots> = length (map fst es)"
    using assms(1,3) by (metis distinct_card length_map)
  finally show ?thesis by (rule card_distinct)
qed

lemma decode_encode_raw:
  assumes "valid_intent sel"
  obtains es where "DecodeSelectionIntent (encodeIntent sel) = Some \<lparr>si_Indices = si_Indices sel, si_Priorities = es\<rparr>"
    and "map_of es = map_of (si_Priorities sel)"
proof -
  from assms have ind: "list_all (\<lambda>i. 0 \<le> i \<and> int64 i) (si_Indices sel)"
    and pri: "list_all (\<lambda>e. valid_priority e \<and> int64 (fst e)) (si_Priorities sel)"
    and dist: "distinct (map fst (si_Priorities sel))"
    by (auto simp: valid_intent_def)
  obtain es where es: "unmarshal_int_map None
      (JObj (sort_key fst (map (\<lambda>(k, v). (Itoa k, JInt v)) (si_Priorities sel)))) = Some (Some es)"
    and set_es: "set es = set (si_Priorities sel)" and len: "length es = length (si_Priorities sel)"
    using unmarshal_map_encoded [OF pri] by blast
  have d: "distinct (map fst es)"
    using distinct_length_set [OF dist set_es len] .
  then have cj: "AList.clearjunk es = es"
    by (rule distinct_clearjunk_id)
  have un: "unmarshal_intent (encodeIntent sel) = Some (Some (si_Indices sel), Some es)"
    using es unmarshal_ints_encoded [OF ind]
    by (simp only: encodeIntent_def unmarshal_intent.simps unmarshal_fields.simps EqualFold_refl
        indices_not_priorities if_True if_False option.case)
  have "DecodeSelectionIntent (encodeIntent sel) = Some \<lparr>si_Indices = si_Indices sel, si_Priorities = es\<rparr>"
    using un ind pri set_es cj
    by (auto simp: DecodeSelectionIntent_def list_ex_iff list_all_iff)
  moreover have "map_of es = map_of (si_Priorities sel)"
    using d dist set_es by (metis map_of_inject_set)
  ultimately show ?thesis by (rule that)
qed

text \<open>
  The document the store writes for a file selection decodes to the same selection: the same list of
  file indices, and the same priority for every file.
\<close>

theorem selection_roundtrip:
  assumes "valid_intent sel"
  shows "\<exists>sel'. decodeSelectionIntent (Some (encodeIntent sel)) = Inr (Some sel') \<and>
    si_Indices sel' = si_Indices sel \<and> map_of (si_Priorities sel') = map_of (si_Priorities sel)"
  by (rule decode_encode_raw [OF assms]) (auto simp: decodeSelectionIntent_def encodeIntent_def)

theorem selection_roundtrip_witness:
  "valid_intent \<lparr>si_Indices = [2, 0], si_Priorities = [(0, 1), (2, 7)]\<rparr> \<and>
   (\<exists>sel'. decodeSelectionIntent (Some (encodeIntent \<lparr>si_Indices = [2, 0], si_Priorities = [(0, 1), (2, 7)]\<rparr>))
      = Inr (Some sel') \<and> si_Indices sel' = [2, 0] \<and> map_of (si_Priorities sel') = map_of [(0, 1), (2, 7)])"
proof -
  let ?sel = "\<lparr>si_Indices = [2, 0], si_Priorities = [(0, 1), (2, 7)]\<rparr> :: selection_intent"
  have v: "valid_intent ?sel"
    by (simp add: valid_intent_def valid_priority_def int64_def)
  show ?thesis
    using v selection_roundtrip [OF v] by simp
qed

end
