(* ===== verification/TaskStore.thy ===== *)
theory TaskStore
  imports TaskState Selection
begin

section \<open>The task store\<close>

text \<open>
  \<open>src/internal/store/tasks.go\<close>, \<open>events.go\<close> and the task tables of \<open>migrations/\<close>.
  The tables are lists of rows. Every query constant of the source is a definition on a table, and every
  method of \<open>TaskStore\<close> is an action that runs its queries in a transaction.

  \<^item> Time is \<open>s_now\<close> (Unix milliseconds). The database is outside the program: each call consumes one
    entry of the schedule \<open>s_sched\<close>, which says how much time passes and whether the call works
    (\<open>FaultNone\<close>), fails with nothing written (\<open>FaultBefore\<close>), or reports an error although its
    transaction was committed (\<open>FaultAmbiguous\<close>). An exhausted schedule means no faults. Theorems quantify
    over every schedule.
  \<^item> A transaction that ends in an early return is rolled back, and so is one whose result violates a
    constraint of the schema (primary keys, the partial unique indexes, foreign keys and the error-code
    vocabulary): \<open>constraints_ok\<close>.
  \<^item> ULIDs come from a third-party package: \<open>s_ulid\<close> is the sequence of strings it returns.
  \<^item> SQL integers are unbounded here, and column values that are only copied (JSON documents, ratios)
    are kept as they are.
\<close>

subsection \<open>Rows\<close>

record task =
  t_id :: string
  t_engine :: string
  t_engine_ref :: "string option"
  t_source_kind :: string
  t_source_uri :: "string option"
  t_source_display_uri :: "string option"
  t_name :: string
  t_infohash_v1 :: "string option"
  t_infohash_v2 :: "string option"
  t_state :: task_state
  t_error_code :: "string option"
  t_error_message :: "string option"
  t_destination :: string
  t_content_path :: "string option"
  t_category_id :: "string option"
  t_total_bytes :: "int option"
  t_completed_bytes :: int
  t_uploaded_bytes :: int
  t_download_rate :: int
  t_upload_rate :: int
  t_eta_seconds :: "int option"
  t_sequential :: int
  t_queue_position :: "int option"
  t_select_files :: "json_text option"
  t_dl_limit :: int
  t_ul_limit :: int
  t_ratio_limit :: "rat option"
  t_seeding_time_limit :: "int option"
  t_unzip_progress :: "int option"
  t_admission_pending :: int
  t_added_at :: int
  t_started_at :: "int option"
  t_completed_at :: "int option"
  t_created_at :: int
  t_updated_at :: int

datatype event_detail =
    DeletedData (dd_files: int) (dd_bytes: int)
  | EngineHandle string string

record task_event =
  ev_id :: string
  ev_task_id :: string
  ev_at :: int
  ev_level :: string
  ev_code :: string
  ev_message :: string
  ev_detail :: "event_detail option"
  ev_created_at :: int
  ev_updated_at :: int

record task_file =
  tf_id :: string
  tf_task_id :: string
  tf_file_index :: int
  tf_path :: string
  tf_size_bytes :: int
  tf_completed_bytes :: int
  tf_selected :: int
  tf_priority :: "int option"
  tf_created_at :: int
  tf_updated_at :: int

record tracker =
  tr_url :: string
  tr_status :: string
  tr_update_timer_seconds :: "int option"
  tr_seeds :: "int option"
  tr_peers :: "int option"
  tr_message :: string

record tracker_row = tracker +
  tr_id :: string
  tr_task_id :: string
  tr_created_at :: int
  tr_updated_at :: int

subsection \<open>Database, clock, schedule\<close>

datatype db_fault = FaultNone | FaultBefore | FaultAmbiguous

record store =
  s_tasks :: "task list"
  s_events :: "task_event list"
  s_files :: "task_file list"
  s_trackers :: "tracker_row list"
  s_now :: int
  s_sched :: "(db_fault \<times> nat) list"
  s_ulid :: "nat \<Rightarrow> string"
  s_nid :: nat
  s_hook :: bool
  s_hooked :: "string list"

datatype store_error =
    SErrNotFound | SErrIllegalTransition | SErrTransitionConflict | SErrDB | SErrInput | SErrStaleCursor

type_synonym ('z, 'a) store_action = "('z store_scheme, store_error + 'a) action"

definition taskErrorCodes :: "string list" where
  "taskErrorCodes =
    [''broken_link'', ''destination_not_exist'', ''destination_denied'',
     ''disk_full'', ''quota_reached'', ''timeout'',
     ''exceed_max_file_system_size'', ''exceed_max_destination_size'',
     ''exceed_max_temp_size'', ''encrypted_name_too_long'',
     ''name_too_long'', ''torrent_duplicate'', ''file_not_exist'',
     ''required_premium_account'', ''not_supported_type'',
     ''try_it_later'', ''task_encryption'', ''missing_python'',
     ''private_video'', ''ftp_encryption_not_supported_type'',
     ''extract_failed'', ''extract_failed_wrong_password'',
     ''extract_failed_invalid_archive'', ''extract_failed_quota_reached'',
     ''extract_failed_disk_full'', ''unknown'',
     ''ssrf_blocked'', ''path_rejected'', ''engine_unavailable'',
     ''unsupported_scheme'', ''concurrency_limit'', ''js_runtime_missing'']"

text \<open>The constraints of the schema: \<open>live_keys\<close> is the content of one partial unique index.\<close>

definition live_keys :: "(task \<Rightarrow> 'k option) \<Rightarrow> task list \<Rightarrow> 'k list" where
  "live_keys k rows = List.map_filter (\<lambda>r. if t_state r = StateRemoved then None else k r) rows"

definition engine_handle :: "task \<Rightarrow> (string \<times> string) option" where
  "engine_handle r = map_option (Pair (t_engine r)) (t_engine_ref r)"

definition constraints_ok :: "'z store_scheme \<Rightarrow> bool" where
  "constraints_ok s \<longleftrightarrow>
     distinct (map t_id (s_tasks s)) \<and>
     distinct (live_keys engine_handle (s_tasks s)) \<and>
     distinct (live_keys t_infohash_v1 (s_tasks s)) \<and>
     distinct (live_keys t_infohash_v2 (s_tasks s)) \<and>
     list_all (\<lambda>r. case t_error_code r of None \<Rightarrow> True | Some c \<Rightarrow> c \<in> set taskErrorCodes) (s_tasks s) \<and>
     list_all (\<lambda>e. ev_task_id e \<in> set (map t_id (s_tasks s))) (s_events s) \<and>
     distinct (map ev_id (s_events s)) \<and>
     list_all (\<lambda>f. tf_task_id f \<in> set (map t_id (s_tasks s))) (s_files s) \<and>
     distinct (map (\<lambda>f. (tf_task_id f, tf_file_index f)) (s_files s)) \<and>
     distinct (map tf_id (s_files s)) \<and>
     list_all (\<lambda>r. tr_task_id r \<in> set (map t_id (s_tasks s))) (s_trackers s) \<and>
     distinct (map (\<lambda>r. (tr_task_id r, tr_url r)) (s_trackers s)) \<and>
     distinct (map tr_id (s_trackers s))"

text \<open>One step of the schedule: time passes and the database decides.\<close>

definition tick :: "('z store_scheme, db_fault) action" where
  "tick = State (\<lambda>s. case s_sched s of
      [] \<Rightarrow> (FaultNone, s)
    | (f, dt) # rest \<Rightarrow> (f, s\<lparr>s_sched := rest, s_now := s_now s + int dt\<rparr>))"

text \<open>The result of a transaction body: committed with a value, or left by an early return.\<close>

datatype 'a tx_result = Commit 'a | Rollback "store_error + 'a"

definition tx :: "('z store_scheme \<Rightarrow> 'a tx_result \<times> 'z store_scheme) \<Rightarrow> ('z, 'a) store_action" where
  "tx body = do {
     f \<leftarrow> tick;
     if f = FaultBefore then ret (Inl SErrDB)
     else State (\<lambda>s. case body s of
         (Rollback r, _) \<Rightarrow> (r, s)
       | (Commit a, s') \<Rightarrow>
           if \<not> constraints_ok s' then (Inl SErrDB, s)
           else ((if f = FaultAmbiguous then Inl SErrDB else Inr a), s'))
   }"

text \<open>A query that only reads.\<close>

definition query :: "('z store_scheme \<Rightarrow> store_error + 'a) \<Rightarrow> ('z, 'a) store_action" where
  "query q = do {
     f \<leftarrow> tick;
     if f = FaultNone then reader q else ret (Inl SErrDB)
   }"

definition NewID :: "string \<Rightarrow> 'z store_scheme \<Rightarrow> string \<times> 'z store_scheme" where
  "NewID prefix s = (prefix @ s_ulid s (s_nid s), s\<lparr>s_nid := Suc (s_nid s)\<rparr>)"

subsection \<open>Events\<close>

definition CodeTaskCreated :: string where "CodeTaskCreated = ''task.created''"
definition CodeTaskPaused :: string where "CodeTaskPaused = ''task.paused''"
definition CodeTaskResumed :: string where "CodeTaskResumed = ''task.resumed''"
definition CodeTaskRemoved :: string where "CodeTaskRemoved = ''task.removed''"
definition CodeTaskDataDeleted :: string where "CodeTaskDataDeleted = ''task.data_deleted''"
definition CodeEngineAccepted :: string where "CodeEngineAccepted = ''engine.accepted''"
definition CodeEngineRejected :: string where "CodeEngineRejected = ''engine.rejected''"
definition CodeEngineUnavailable :: string where "CodeEngineUnavailable = ''engine.unavailable''"
definition CodeTaskSchedulePaused :: string where "CodeTaskSchedulePaused = ''task.schedule.paused''"
definition CodeTaskScheduleResumed :: string where "CodeTaskScheduleResumed = ''task.schedule.resumed''"

definition eventLevels :: "string list" where
  "eventLevels = [''info'', ''warn'', ''error'']"

definition insertTaskEvent ::
  "string \<Rightarrow> string \<Rightarrow> string \<Rightarrow> string \<Rightarrow> event_detail option \<Rightarrow> int \<Rightarrow> 'z store_scheme \<Rightarrow> 'z store_scheme" where
  "insertTaskEvent taskID level code message detail now s =
     (let (eid, s1) = NewID ''evt_'' s in
      s1\<lparr>s_events := s_events s1 @
        [\<lparr>ev_id = eid, ev_task_id = taskID, ev_at = now, ev_level = level, ev_code = code,
          ev_message = message, ev_detail = detail, ev_created_at = now, ev_updated_at = now\<rparr>]\<rparr>)"

definition AppendEvent ::
  "string \<Rightarrow> string \<Rightarrow> string \<Rightarrow> string \<Rightarrow> event_detail option \<Rightarrow> ('z, unit) store_action" where
  "AppendEvent taskID level code message detail =
     (if level \<notin> set eventLevels then ret (Inl SErrInput)
      else tx (\<lambda>s. (Commit (), insertTaskEvent taskID level code message detail (s_now s) s)))"

subsection \<open>Queries\<close>

text \<open>Each definition is one SQL statement: the rows it matches and what it writes.\<close>

definition queryGetTask :: "string \<Rightarrow> task list \<Rightarrow> task option" where
  "queryGetTask tid rows = sql_find (\<lambda>r. t_id r = tid) rows"

definition queryTaskState :: "string \<Rightarrow> task list \<Rightarrow> task_state option" where
  "queryTaskState tid rows = map_option t_state (queryGetTask tid rows)"

record progress =
  p_TotalBytes :: "int option"
  p_CompletedBytes :: int
  p_UploadedBytes :: int
  p_DownloadRate :: int
  p_UploadRate :: int
  p_ETASeconds :: "int option"

definition queryUpdateTaskProgress :: "progress \<Rightarrow> int \<Rightarrow> string \<Rightarrow> task list \<Rightarrow> task list \<times> nat" where
  "queryUpdateTaskProgress p now tid = sql_update (\<lambda>r. t_id r = tid)
     (\<lambda>r. r\<lparr>t_total_bytes := p_TotalBytes p, t_completed_bytes := p_CompletedBytes p,
       t_uploaded_bytes := p_UploadedBytes p, t_download_rate := p_DownloadRate p,
       t_upload_rate := p_UploadRate p, t_eta_seconds := p_ETASeconds p, t_updated_at := now\<rparr>)"

definition querySetTaskEngineRef :: "string \<Rightarrow> int \<Rightarrow> string \<Rightarrow> task list \<Rightarrow> task list \<times> nat" where
  "querySetTaskEngineRef ref now tid = sql_update
     (\<lambda>r. t_id r = tid \<and> (t_engine_ref r = None \<or> t_engine_ref r \<noteq> Some ref))
     (\<lambda>r. r\<lparr>t_engine_ref := Some ref, t_updated_at := now\<rparr>)"

definition queryTransitionTask ::
  "task_state \<Rightarrow> int \<Rightarrow> string \<Rightarrow> task_state \<Rightarrow> task list \<Rightarrow> task list \<times> nat" where
  "queryTransitionTask next now tid current = sql_update
     (\<lambda>r. t_id r = tid \<and> t_state r = current)
     (\<lambda>r. r\<lparr>t_state := next, t_admission_pending := 0, t_updated_at := now\<rparr>)"

definition queryMarkTaskRemoved :: "int \<Rightarrow> string \<Rightarrow> task_state \<Rightarrow> task list \<Rightarrow> task list \<times> nat" where
  "queryMarkTaskRemoved now tid current = sql_update
     (\<lambda>r. t_id r = tid \<and> t_state r = current)
     (\<lambda>r. r\<lparr>t_state := StateRemoved, t_engine_ref := None, t_download_rate := 0, t_upload_rate := 0,
       t_eta_seconds := None, t_queue_position := None, t_admission_pending := 0, t_updated_at := now\<rparr>)"

text \<open>The counted set of the concurrency limits, shared by the next two queries.\<close>

definition countedStates :: "task_state list" where
  "countedStates = [StateDownloading, StateChecking, StateExtracting, StateMoving]"

definition counted :: "task \<Rightarrow> bool" where
  "counted r \<longleftrightarrow> t_state r \<in> set countedStates \<or> (t_state r = StateQueued \<and> t_admission_pending r \<noteq> 0)"

definition queryCountActive :: "task list \<Rightarrow> (string \<times> nat) list" where
  "queryCountActive rows =
     map (\<lambda>e. (e, length (filter (\<lambda>r. t_engine r = e) (filter counted rows))))
       (remdups (map t_engine (filter counted rows)))"

definition row_remaining :: "task \<Rightarrow> int" where
  "row_remaining r = max ((case t_total_bytes r of None \<Rightarrow> 0 | Some n \<Rightarrow> n) - t_completed_bytes r) 0"

definition querySumRemainingByDestination :: "task list \<Rightarrow> (string \<times> int) list" where
  "querySumRemainingByDestination rows =
     map (\<lambda>d. (d, sum_list (map row_remaining (filter (\<lambda>r. t_destination r = d) (filter counted rows)))))
       (remdups (map t_destination (filter counted rows)))"

definition holdCodes :: "string list" where
  "holdCodes = [''disk_full'', ''concurrency_limit'']"

definition has_hold_code :: "task \<Rightarrow> bool" where
  "has_hold_code r \<longleftrightarrow> (case t_error_code r of None \<Rightarrow> False | Some c \<Rightarrow> c \<in> set holdCodes)"

definition clear_code :: "int \<Rightarrow> task \<Rightarrow> task" where
  "clear_code now r = r\<lparr>t_error_code := None, t_error_message := None, t_updated_at := now\<rparr>"

definition queryClearTaskErrorCodeUnlessPaused :: "int \<Rightarrow> string \<Rightarrow> task list \<Rightarrow> task list \<times> nat" where
  "queryClearTaskErrorCodeUnlessPaused now tid = sql_update
     (\<lambda>r. t_id r = tid \<and> t_state r \<noteq> StatePaused \<and> has_hold_code r) (clear_code now)"

definition queryClearPausedTaskHoldCode :: "int \<Rightarrow> string \<Rightarrow> task list \<Rightarrow> task list \<times> nat" where
  "queryClearPausedTaskHoldCode now tid = sql_update
     (\<lambda>r. t_id r = tid \<and> t_state r = StatePaused \<and> has_hold_code r) (clear_code now)"

definition queryPauseTaskWithCode ::
  "string option \<Rightarrow> string option \<Rightarrow> int \<Rightarrow> string \<Rightarrow> task_state list \<Rightarrow> task list \<Rightarrow> task list \<times> nat" where
  "queryPauseTaskWithCode code msg now tid from = sql_update
     (\<lambda>r. t_id r = tid \<and> t_state r \<in> set from)
     (\<lambda>r. r\<lparr>t_state := StatePaused, t_error_code := code, t_error_message := msg,
        t_admission_pending := 0, t_updated_at := now\<rparr>)"

definition querySetTaskErrorCodeIfState ::
  "string option \<Rightarrow> string option \<Rightarrow> int \<Rightarrow> string \<Rightarrow> task_state \<Rightarrow> task list \<Rightarrow> task list \<times> nat" where
  "querySetTaskErrorCodeIfState code msg now tid st = sql_update
     (\<lambda>r. t_id r = tid \<and> t_state r = st \<and> (t_error_code r \<noteq> code \<or> t_error_message r \<noteq> msg))
     (\<lambda>r. r\<lparr>t_error_code := code, t_error_message := msg, t_updated_at := now\<rparr>)"

definition is_parked_disk_full :: "task \<Rightarrow> bool" where
  "is_parked_disk_full r \<longleftrightarrow> t_state r = StatePaused \<and> t_error_code r = Some ''disk_full''"

text \<open>The self-assignment \<open>SET error_code = error_code\<close>; \<open>RETURNING id\<close> is the affected count.\<close>

definition queryClaimParkedDiskFull :: "string \<Rightarrow> task list \<Rightarrow> task list \<times> nat" where
  "queryClaimParkedDiskFull tid = sql_update
     (\<lambda>r. t_id r = tid \<and> is_parked_disk_full r) (\<lambda>r. r\<lparr>t_error_code := t_error_code r\<rparr>)"

definition queryMarkAdmissionPending :: "int \<Rightarrow> string \<Rightarrow> task list \<Rightarrow> task list \<times> nat" where
  "queryMarkAdmissionPending now tid = sql_update
     (\<lambda>r. t_id r = tid \<and> t_state r = StateQueued \<and> t_admission_pending r = 0)
     (\<lambda>r. r\<lparr>t_admission_pending := 1, t_updated_at := now\<rparr>)"

definition queryScheduleParkTask :: "int \<Rightarrow> string \<Rightarrow> task_state list \<Rightarrow> task list \<Rightarrow> task list \<times> nat" where
  "queryScheduleParkTask now tid from = sql_update
     (\<lambda>r. t_id r = tid \<and> t_state r \<in> set from)
     (\<lambda>r. r\<lparr>t_state := StatePaused, t_admission_pending := 0, t_updated_at := now\<rparr>)"

text \<open>Process order (FR-095): oldest \<open>added_at\<close> first, the id as the tiebreak.\<close>

definition is_candidate :: "task \<Rightarrow> bool" where
  "is_candidate r \<longleftrightarrow> t_state r = StateQueued \<or> is_parked_disk_full r"

definition querySelectQueuedCandidates :: "task list \<Rightarrow> task list" where
  "querySelectQueuedCandidates rows = sort_key (\<lambda>r. (t_added_at r, t_id r)) (filter is_candidate rows)"

definition queryListNonTerminalByEngine :: "string \<Rightarrow> task list \<Rightarrow> task list" where
  "queryListNonTerminalByEngine e rows = filter (\<lambda>r. t_engine r = e \<and> t_engine_ref r \<noteq> None \<and>
     t_state r \<notin> {StateCompleted, StateRemoved, StateError}) rows"

definition queryQueueMembers :: "task list \<Rightarrow> string list" where
  "queryQueueMembers rows =
     map t_id (sort_key (\<lambda>r. (the (t_queue_position r), t_id r)) (filter (\<lambda>r. t_queue_position r \<noteq> None) rows))"

definition querySetQueuePosition :: "int \<Rightarrow> int \<Rightarrow> string \<Rightarrow> task list \<Rightarrow> task list \<times> nat" where
  "querySetQueuePosition pos now tid = sql_update (\<lambda>r. t_id r = tid)
     (\<lambda>r. r\<lparr>t_queue_position := Some pos, t_updated_at := now\<rparr>)"

text \<open>The membership-changing codes of the schedule's parked set, and the newest such event.\<close>

definition parkCodes :: "string list" where
  "parkCodes = [CodeTaskSchedulePaused, CodeTaskPaused, CodeTaskResumed, CodeTaskScheduleResumed]"

definition lastParkCode :: "string \<Rightarrow> task_event list \<Rightarrow> string option" where
  "lastParkCode tid evs =
     (case sort_key (\<lambda>e. (ev_at e, ev_id e))
        (filter (\<lambda>e. ev_task_id e = tid \<and> ev_code e \<in> set parkCodes) evs) of
        [] \<Rightarrow> None
      | es \<Rightarrow> Some (ev_code (last es)))"

definition queryListScheduleParked :: "'z store_scheme \<Rightarrow> string list" where
  "queryListScheduleParked s = map t_id (filter (\<lambda>r. t_state r = StatePaused \<and>
      lastParkCode (t_id r) (s_events s) = Some CodeTaskSchedulePaused) (s_tasks s))"

definition querySetTaskExtractProgress :: "int \<Rightarrow> int \<Rightarrow> string \<Rightarrow> task list \<Rightarrow> task list \<times> nat" where
  "querySetTaskExtractProgress percent now tid = sql_update
     (\<lambda>r. t_id r = tid \<and> t_state r = StateExtracting)
     (\<lambda>r. r\<lparr>t_unzip_progress := Some percent, t_updated_at := now\<rparr>)"

definition querySetTaskErrorCode ::
  "string option \<Rightarrow> string option \<Rightarrow> int \<Rightarrow> string \<Rightarrow> task list \<Rightarrow> task list \<times> nat" where
  "querySetTaskErrorCode code msg now tid = sql_update (\<lambda>r. t_id r = tid)
     (\<lambda>r. r\<lparr>t_error_code := code, t_error_message := msg, t_updated_at := now\<rparr>)"

subsection \<open>Creation and reading\<close>

definition nullableText :: "string \<Rightarrow> string option" where
  "nullableText v = (if v = '''' then None else Some v)"

definition textOrEmpty :: "string option \<Rightarrow> string" where
  "textOrEmpty p = (case p of None \<Rightarrow> '''' | Some v \<Rightarrow> v)"

text \<open>
  A row as its creator hands it over; \<open>prepareNewTask\<close> fills the generated defaults. The creator may
  leave the id and the state empty: \<open>nt_state\<close> is the state as a string.
\<close>

definition state_of_str :: "string \<Rightarrow> task_state option" where
  "state_of_str v = List.find (\<lambda>s. state_str s = v) taskStates"

definition prepareNewTask ::
  "string \<Rightarrow> task \<Rightarrow> 'z store_scheme \<Rightarrow> (store_error + task) \<times> 'z store_scheme" where
  "prepareNewTask st t s =
     (let (tid, s1) = (if t_id t = '''' then NewID ''tsk_'' s else (t_id t, s)) in
      case (if st = '''' then Some StateQueued else state_of_str st) of
        None \<Rightarrow> (Inl SErrInput, s1)
      | Some st' \<Rightarrow> (Inr (t\<lparr>t_id := tid, t_state := st', t_added_at := s_now s,
            t_created_at := s_now s, t_updated_at := s_now s\<rparr>), s1))"

definition insertTaskRow :: "task \<Rightarrow> 'z store_scheme \<Rightarrow> 'z store_scheme" where
  "insertTaskRow t s = s\<lparr>s_tasks := s_tasks s @
     [t\<lparr>t_dl_limit := 0, t_ul_limit := 0, t_ratio_limit := None, t_seeding_time_limit := None,
        t_unzip_progress := None, t_admission_pending := 0\<rparr>]\<rparr>"

definition Create :: "string \<Rightarrow> task \<Rightarrow> ('z, task) store_action" where
  "Create st t = tx (\<lambda>s. case prepareNewTask st t s of
       (Inl e, _) \<Rightarrow> (Rollback (Inl e), s)
     | (Inr t', s1) \<Rightarrow> (Commit t', insertTaskRow t' s1))"

definition CreateLogged :: "string \<Rightarrow> task \<Rightarrow> ('z, task) store_action" where
  "CreateLogged st t = tx (\<lambda>s. case prepareNewTask st t s of
       (Inl e, _) \<Rightarrow> (Rollback (Inl e), s)
     | (Inr t', s1) \<Rightarrow> (Commit t',
         insertTaskEvent (t_id t') ''info'' CodeTaskCreated ''created by user request'' None
           (t_created_at t') (insertTaskRow t' s1)))"

definition GetTask :: "string \<Rightarrow> ('z, task) store_action" where
  "GetTask tid = query (\<lambda>s. case queryGetTask tid (s_tasks s) of
       None \<Rightarrow> Inl SErrNotFound | Some r \<Rightarrow> Inr r)"

record reconcilable =
  rc_ID :: string
  rc_EngineRef :: string
  rc_State :: task_state
  rc_SourceURI :: "string option"
  rc_InfohashV1 :: "string option"
  rc_Destination :: string
  rc_SelectFiles :: "json_text option"
  rc_DLLimit :: int
  rc_ULLimit :: int

definition reconcilable_of :: "task \<Rightarrow> reconcilable" where
  "reconcilable_of r = \<lparr>rc_ID = t_id r, rc_EngineRef = textOrEmpty (t_engine_ref r), rc_State = t_state r,
     rc_SourceURI = t_source_uri r, rc_InfohashV1 = t_infohash_v1 r, rc_Destination = t_destination r,
     rc_SelectFiles = t_select_files r, rc_DLLimit = t_dl_limit r, rc_ULLimit = t_ul_limit r\<rparr>"

text \<open>The map of \<open>ListNonTerminalByEngine\<close> as an association list: a later row wins, as in the Go map.\<close>

definition ListNonTerminalByEngine :: "string \<Rightarrow> ('z, (string \<times> reconcilable) list) store_action" where
  "ListNonTerminalByEngine e = query (\<lambda>s. Inr
     (map (\<lambda>r. (rc_EngineRef r, r))
       (map reconcilable_of (rev (queryListNonTerminalByEngine e (s_tasks s))))))"

record candidate =
  c_ID :: string
  c_Engine :: string
  c_EngineRef :: "string option"
  c_SourceURI :: "string option"
  c_InfohashV1 :: "string option"
  c_Destination :: string
  c_SelectFiles :: "json_text option"
  c_DLLimit :: int
  c_ULLimit :: int
  c_AdmissionPending :: int
  c_State :: task_state
  c_TotalBytes :: "int option"
  c_CompletedBytes :: int

definition candidate_of :: "task \<Rightarrow> candidate" where
  "candidate_of r = \<lparr>c_ID = t_id r, c_Engine = t_engine r, c_EngineRef = t_engine_ref r,
     c_SourceURI = t_source_uri r, c_InfohashV1 = t_infohash_v1 r, c_Destination = t_destination r,
     c_SelectFiles = t_select_files r, c_DLLimit = t_dl_limit r, c_ULLimit = t_ul_limit r,
     c_AdmissionPending = t_admission_pending r, c_State = t_state r,
     c_TotalBytes = t_total_bytes r, c_CompletedBytes = t_completed_bytes r\<rparr>"

record active_counts =
  ac_Total :: nat
  ac_ByEngine :: "string \<Rightarrow> nat"

definition Reserve :: "string \<Rightarrow> active_counts \<Rightarrow> active_counts" where
  "Reserve e c = c\<lparr>ac_Total := Suc (ac_Total c),
     ac_ByEngine := (ac_ByEngine c)(e := Suc (ac_ByEngine c e))\<rparr>"

definition CountActive :: "('z, active_counts) store_action" where
  "CountActive = query (\<lambda>s. Inr (let rows = queryCountActive (s_tasks s) in
     \<lparr>ac_Total = sum_list (map snd rows),
      ac_ByEngine = (\<lambda>e. case map_of rows e of None \<Rightarrow> 0 | Some n \<Rightarrow> n)\<rparr>))"

definition SelectQueuedCandidates :: "int \<Rightarrow> ('z, candidate list) store_action" where
  "SelectQueuedCandidates limit = query (\<lambda>s. Inr
     (let rows = map candidate_of (querySelectQueuedCandidates (s_tasks s)) in
      if 0 < limit then take (nat limit) rows else rows))"

definition SumRemainingByDestination :: "('z, (string \<times> int) list) store_action" where
  "SumRemainingByDestination = query (\<lambda>s. Inr
     (filter (\<lambda>(d, n). 0 < n) (querySumRemainingByDestination (s_tasks s))))"

subsection \<open>Guarded writes\<close>

definition SetErrorCodeIfState :: "string \<Rightarrow> task_state \<Rightarrow> string \<Rightarrow> string \<Rightarrow> ('z, unit) store_action" where
  "SetErrorCodeIfState tid expectedState errorCode message0 =
     (let message = (if errorCode = '''' then '''' else message0);
          codeValue = nullableText errorCode; messageValue = nullableText message in
      tx (\<lambda>s. case queryGetTask tid (s_tasks s) of
          None \<Rightarrow> (Rollback (Inl SErrNotFound), s)
        | Some current \<Rightarrow>
            if t_state current \<noteq> expectedState then (Rollback (Inr ()), s)
            else let (rows, affected) =
                   querySetTaskErrorCodeIfState codeValue messageValue (s_now s) tid expectedState (s_tasks s) in
              if affected = 0 then
                (if textOrEmpty (t_error_code current) = errorCode \<and>
                    textOrEmpty (t_error_message current) = message
                 then (Rollback (Inr ()), s)
                 else (Rollback (Inl SErrTransitionConflict), s))
              else (Commit (), s\<lparr>s_tasks := rows\<rparr>)))"

record coded_pause =
  cp_EventCode :: string
  cp_EventMessage :: string
  cp_ErrorCode :: string
  cp_ErrorMessage :: string
  cp_FromStates :: "task_state list"

definition PauseWithCode :: "string \<Rightarrow> coded_pause \<Rightarrow> ('z, unit) store_action" where
  "PauseWithCode tid p =
     (if cp_ErrorCode p = '''' then ret (Inl SErrInput)
      else if cp_EventCode p = '''' then ret (Inl SErrInput)
      else if cp_FromStates p = [] then ret (Inl SErrInput)
      else tx (\<lambda>s. case queryTaskState tid (s_tasks s) of
          None \<Rightarrow> (Rollback (Inl SErrNotFound), s)
        | Some current \<Rightarrow>
            if current \<notin> set (cp_FromStates p) then (Rollback (Inl SErrTransitionConflict), s)
            else if \<not> transitionLegal current StatePaused then (Rollback (Inl SErrIllegalTransition), s)
            else let now = s_now s; (rows, affected) =
                   queryPauseTaskWithCode (nullableText (cp_ErrorCode p)) (nullableText (cp_ErrorMessage p))
                     now tid (cp_FromStates p) (s_tasks s) in
              if affected = 0 then (Rollback (Inl SErrTransitionConflict), s)
              else (Commit (), insertTaskEvent tid ''info'' (cp_EventCode p) (cp_EventMessage p) None now
                     (s\<lparr>s_tasks := rows\<rparr>))))"

definition ClearHoldCode :: "string \<Rightarrow> ('z, unit) store_action" where
  "ClearHoldCode tid = tx (\<lambda>s.
     let (rows, affected) = queryClearTaskErrorCodeUnlessPaused (s_now s) tid (s_tasks s) in
     if 0 < affected then (Commit (), s\<lparr>s_tasks := rows\<rparr>)
     else case queryTaskState tid (s_tasks s) of
         None \<Rightarrow> (Rollback (Inl SErrNotFound), s)
       | Some _ \<Rightarrow> (Commit (), s))"

definition ClaimParkedDiskFull :: "string \<Rightarrow> ('z, bool) store_action" where
  "ClaimParkedDiskFull tid = tx (\<lambda>s.
     let (rows, affected) = queryClaimParkedDiskFull tid (s_tasks s) in
     if affected = 0 then
       (case queryTaskState tid (s_tasks s) of
          None \<Rightarrow> (Rollback (Inl SErrNotFound), s)
        | Some _ \<Rightarrow> (Rollback (Inr False), s))
     else (Commit True, s\<lparr>s_tasks := rows\<rparr>))"

definition MarkAdmissionPending :: "string \<Rightarrow> ('z, bool) store_action" where
  "MarkAdmissionPending tid = tx (\<lambda>s.
     let (rows, affected) = queryMarkAdmissionPending (s_now s) tid (s_tasks s) in
     if affected = 0 then
       (case queryGetTask tid (s_tasks s) of
          None \<Rightarrow> (Rollback (Inl SErrNotFound), s)
        | Some current \<Rightarrow>
            (Rollback (Inr (t_state current = StateQueued \<and> t_admission_pending current \<noteq> 0)), s))
     else (Commit True, s\<lparr>s_tasks := rows\<rparr>))"

definition ClearPausedHoldCode :: "string \<Rightarrow> ('z, bool) store_action" where
  "ClearPausedHoldCode tid = tx (\<lambda>s.
     let (rows, affected) = queryClearPausedTaskHoldCode (s_now s) tid (s_tasks s) in
     if 0 < affected then (Commit True, s\<lparr>s_tasks := rows\<rparr>)
     else case queryTaskState tid (s_tasks s) of
         None \<Rightarrow> (Rollback (Inl SErrNotFound), s)
       | Some _ \<Rightarrow> (Commit False, s))"

definition UpdateProgress :: "string \<Rightarrow> progress \<Rightarrow> ('z, unit) store_action" where
  "UpdateProgress tid p = tx (\<lambda>s.
     let (rows, affected) = queryUpdateTaskProgress p (s_now s) tid (s_tasks s) in
     if affected = 0 then (Rollback (Inl SErrNotFound), s)
     else (Commit (), s\<lparr>s_tasks := rows\<rparr>))"

definition SetEngineRef :: "string \<Rightarrow> string \<Rightarrow> ('z, unit) store_action" where
  "SetEngineRef tid engineRef =
     (if engineRef = '''' then ret (Inl SErrInput)
      else tx (\<lambda>s. case queryGetTask tid (s_tasks s) of
          None \<Rightarrow> (Rollback (Inl SErrNotFound), s)
        | Some current \<Rightarrow>
            let now = s_now s; (rows, affected) = querySetTaskEngineRef engineRef now tid (s_tasks s) in
            if affected = 0 then
              (if t_engine_ref current = Some engineRef then (Rollback (Inr ()), s)
               else (Rollback (Inl SErrNotFound), s))
            else (Commit (),
              if affected = 1
              then insertTaskEvent tid ''info'' CodeEngineAccepted ''engine accepted the task'' None now
                     (s\<lparr>s_tasks := rows\<rparr>)
              else s\<lparr>s_tasks := rows\<rparr>)))"

text \<open>The completion hook runs after the commit, only when the commit was reported.\<close>

definition fireCompleted :: "string \<Rightarrow> ('z store_scheme, unit) action" where
  "fireCompleted tid = modify (\<lambda>s. if s_hook s then s\<lparr>s_hooked := s_hooked s @ [tid]\<rparr> else s)"

definition SetCompletedHook :: "bool \<Rightarrow> ('z store_scheme, unit) action" where
  "SetCompletedHook h = modify (\<lambda>s. s\<lparr>s_hook := h\<rparr>)"

definition Transition :: "string \<Rightarrow> task_state \<Rightarrow> string \<Rightarrow> string \<Rightarrow> ('z, unit) store_action" where
  "Transition tid next code message = do {
     r \<leftarrow> tx (\<lambda>s. case queryTaskState tid (s_tasks s) of
          None \<Rightarrow> (Rollback (Inl SErrNotFound), s)
        | Some current \<Rightarrow>
            if \<not> transitionLegal current next then (Rollback (Inl SErrIllegalTransition), s)
            else let now = s_now s; (rows, affected) = queryTransitionTask next now tid current (s_tasks s) in
              if affected = 0 then (Rollback (Inl SErrTransitionConflict), s)
              else (Commit (), insertTaskEvent tid (transitionEventLevel next) code message None now
                     (s\<lparr>s_tasks := rows\<rparr>)));
     case r of
       Inl e \<Rightarrow> ret (Inl e)
     | Inr _ \<Rightarrow> (if next = StateCompleted
         then do { _ \<leftarrow> fireCompleted tid; ret (Inr ()) } else ret (Inr ()))
   }"

definition MarkRemoved :: "string \<Rightarrow> event_detail option \<Rightarrow> ('z, unit) store_action" where
  "MarkRemoved tid data = tx (\<lambda>s. case queryTaskState tid (s_tasks s) of
       None \<Rightarrow> (Rollback (Inl SErrNotFound), s)
     | Some current \<Rightarrow>
         if \<not> transitionLegal current StateRemoved then (Rollback (Inl SErrIllegalTransition), s)
         else let now = s_now s; (rows, affected) = queryMarkTaskRemoved now tid current (s_tasks s) in
           if affected = 0 then (Rollback (Inl SErrTransitionConflict), s)
           else let s1 = insertTaskEvent tid ''info'' CodeTaskRemoved ''removed by user request'' None now
                      (s\<lparr>s_tasks := rows\<rparr>) in
             (Commit (), case data of None \<Rightarrow> s1
                | Some d \<Rightarrow> insertTaskEvent tid ''warn'' CodeTaskDataDeleted
                    ''downloaded data deleted by user request'' (Some d) now s1))"

subsection \<open>Patches, queue order, files and trackers\<close>

record task_patch =
  tp_Name :: "string option"
  tp_CategoryID :: "string option"
  tp_DLLimit :: "int option"
  tp_ULLimit :: "int option"
  tp_RatioLimit :: "rat option"
  tp_SeedingTimeLimit :: "int option"
  tp_Sequential :: "bool option"

definition TaskPatch_Empty :: "task_patch \<Rightarrow> bool" where
  "TaskPatch_Empty p \<longleftrightarrow> tp_Name p = None \<and> tp_CategoryID p = None \<and> tp_DLLimit p = None \<and>
     tp_ULLimit p = None \<and> tp_RatioLimit p = None \<and> tp_SeedingTimeLimit p = None \<and> tp_Sequential p = None"

definition boolToInt :: "bool \<Rightarrow> int" where
  "boolToInt b = (if b then 1 else 0)"

text \<open>A column is written exactly when the patch carries it.\<close>

definition apply_patch :: "task_patch \<Rightarrow> int \<Rightarrow> task \<Rightarrow> task" where
  "apply_patch p now r =
     (let r1 = (case tp_Name p of None \<Rightarrow> r | Some v \<Rightarrow> r\<lparr>t_name := v\<rparr>);
          r2 = (case tp_CategoryID p of None \<Rightarrow> r1 | Some v \<Rightarrow> r1\<lparr>t_category_id := Some v\<rparr>);
          r3 = (case tp_DLLimit p of None \<Rightarrow> r2 | Some v \<Rightarrow> r2\<lparr>t_dl_limit := v\<rparr>);
          r4 = (case tp_ULLimit p of None \<Rightarrow> r3 | Some v \<Rightarrow> r3\<lparr>t_ul_limit := v\<rparr>);
          r5 = (case tp_RatioLimit p of None \<Rightarrow> r4 | Some v \<Rightarrow> r4\<lparr>t_ratio_limit := Some v\<rparr>);
          r6 = (case tp_SeedingTimeLimit p of None \<Rightarrow> r5 | Some v \<Rightarrow> r5\<lparr>t_seeding_time_limit := Some v\<rparr>);
          r7 = (case tp_Sequential p of None \<Rightarrow> r6 | Some v \<Rightarrow> r6\<lparr>t_sequential := boolToInt v\<rparr>)
      in r7\<lparr>t_updated_at := now\<rparr>)"

definition UpdateTask :: "string \<Rightarrow> task_patch \<Rightarrow> ('z, unit) store_action" where
  "UpdateTask tid p =
     (if TaskPatch_Empty p then ret (Inl SErrInput)
      else tx (\<lambda>s. let (rows, affected) = sql_update (\<lambda>r. t_id r = tid) (apply_patch p (s_now s)) (s_tasks s) in
        if affected = 0 then (Rollback (Inl SErrNotFound), s) else (Commit (), s\<lparr>s_tasks := rows\<rparr>)))"

datatype queue_move = QueueMoveTop | QueueMoveUp | QueueMoveDown | QueueMoveBottom

definition stablePartition :: "('a \<Rightarrow> bool) \<Rightarrow> 'a list \<Rightarrow> 'a list" where
  "stablePartition keep order = filter keep order @ filter (\<lambda>x. \<not> keep x) order"

definition swap :: "nat \<Rightarrow> nat \<Rightarrow> 'a list \<Rightarrow> 'a list" where
  "swap i j xs = xs[i := xs ! j, j := xs ! i]"

text \<open>The loop \<open>for i := 1; i < len(next); i++\<close>; the counter starts at the given index.\<close>

function move_up :: "('a \<Rightarrow> bool) \<Rightarrow> nat \<Rightarrow> 'a list \<Rightarrow> 'a list" where
  "move_up sel i xs = (if i < length xs
     then move_up sel (Suc i) (if sel (xs ! i) \<and> \<not> sel (xs ! (i - 1)) then swap (i - 1) i xs else xs)
     else xs)"
  by pat_completeness auto
termination
  by (relation "measure (\<lambda>(sel, i, xs). length xs - i)") (auto simp: swap_def)

declare move_up.simps [simp del]

text \<open>The loop \<open>for i := len(next) - 2; i >= 0; i--\<close>: \<open>n\<close> is \<open>i + 1\<close>, the iterations left.\<close>

fun move_down :: "('a \<Rightarrow> bool) \<Rightarrow> nat \<Rightarrow> 'a list \<Rightarrow> 'a list" where
  "move_down sel 0 xs = xs"
| "move_down sel (Suc i) xs =
     move_down sel i (if sel (xs ! i) \<and> \<not> sel (xs ! Suc i) then swap i (Suc i) xs else xs)"

fun reorderQueueMembers :: "'a list \<Rightarrow> ('a \<Rightarrow> bool) \<Rightarrow> queue_move \<Rightarrow> 'a list" where
  "reorderQueueMembers order sel QueueMoveTop = stablePartition sel order"
| "reorderQueueMembers order sel QueueMoveBottom = stablePartition (\<lambda>x. \<not> sel x) order"
| "reorderQueueMembers order sel QueueMoveUp = move_up sel 1 order"
| "reorderQueueMembers order sel QueueMoveDown = move_down sel (length order - 1) order"

fun write_positions :: "int \<Rightarrow> int \<Rightarrow> string list \<Rightarrow> task list \<Rightarrow> task list" where
  "write_positions pos now [] rows = rows"
| "write_positions pos now (tid # ids) rows =
     write_positions (pos + 1) now ids (fst (querySetQueuePosition pos now tid rows))"

definition ReorderQueue :: "string list \<Rightarrow> queue_move \<Rightarrow> ('z, string list) store_action" where
  "ReorderQueue ids move = tx (\<lambda>s.
     let order = queryQueueMembers (s_tasks s);
         rows = write_positions 1 (s_now s) (reorderQueueMembers order (\<lambda>x. x \<in> set ids) move) (s_tasks s)
     in (Commit (filter (\<lambda>x. x \<notin> set order) ids), s\<lparr>s_tasks := rows\<rparr>))"

definition ListFiles :: "string \<Rightarrow> ('z, task_file list) store_action" where
  "ListFiles taskID = query (\<lambda>s. Inr
     (sort_key tf_file_index (filter (\<lambda>f. tf_task_id f = taskID) (s_files s))))"

definition fileIndices :: "task_file list \<Rightarrow> int list" where
  "fileIndices files = map tf_file_index files"

definition queryUpsertTaskFile :: "string \<Rightarrow> task_file \<Rightarrow> int \<Rightarrow> 'z store_scheme \<Rightarrow> 'z store_scheme" where
  "queryUpsertTaskFile taskID file now s =
     (let (fid, s1) = NewID ''tfi_'' s;
          conflict = (\<lambda>f. tf_task_id f = taskID \<and> tf_file_index f = tf_file_index file) in
      if list_ex conflict (s_files s1)
      then s1\<lparr>s_files := fst (sql_update conflict
        (\<lambda>f. f\<lparr>tf_path := tf_path file, tf_size_bytes := tf_size_bytes file,
           tf_completed_bytes := tf_completed_bytes file, tf_selected := tf_selected file,
           tf_priority := tf_priority file, tf_updated_at := now\<rparr>) (s_files s1))\<rparr>
      else s1\<lparr>s_files := s_files s1 @ [file\<lparr>tf_id := fid, tf_task_id := taskID,
        tf_created_at := now, tf_updated_at := now\<rparr>]\<rparr>)"

definition queryDeleteUnlistedTaskFiles :: "string \<Rightarrow> int list \<Rightarrow> task_file list \<Rightarrow> task_file list \<times> nat" where
  "queryDeleteUnlistedTaskFiles taskID indices =
     sql_delete (\<lambda>f. tf_task_id f = taskID \<and> tf_file_index f \<notin> set indices)"

definition UpsertFiles :: "string \<Rightarrow> task_file list \<Rightarrow> ('z, unit) store_action" where
  "UpsertFiles taskID files = tx (\<lambda>s.
     let s1 = fold (\<lambda>file s'. queryUpsertTaskFile taskID file (s_now s) s') files s in
     (Commit (), s1\<lparr>s_files := fst (queryDeleteUnlistedTaskFiles taskID (fileIndices files) (s_files s1))\<rparr>))"

record task_file_selection =
  fs_Selected :: int
  fs_Priority :: "int option"

definition queryUpdateTaskFileSelection ::
  "task_file_selection \<Rightarrow> int \<Rightarrow> string \<Rightarrow> int \<Rightarrow> task_file list \<Rightarrow> task_file list \<times> nat" where
  "queryUpdateTaskFileSelection sel now taskID idx = sql_update
     (\<lambda>f. tf_task_id f = taskID \<and> tf_file_index f = idx)
     (\<lambda>f. f\<lparr>tf_selected := fs_Selected sel, tf_priority := fs_Priority sel, tf_updated_at := now\<rparr>)"

text \<open>The ascending walk over the selection map; an index with no row ends it.\<close>

fun update_selection ::
  "(int \<times> task_file_selection) list \<Rightarrow> int \<Rightarrow> string \<Rightarrow> task_file list \<Rightarrow> task_file list option" where
  "update_selection [] now taskID rows = Some rows"
| "update_selection ((idx, sel) # rest) now taskID rows =
     (let (rows', affected) = queryUpdateTaskFileSelection sel now taskID idx rows in
      if affected = 0 then None else update_selection rest now taskID rows')"

definition UpdateFileSelection :: "string \<Rightarrow> (int \<times> task_file_selection) list \<Rightarrow> ('z, unit) store_action" where
  "UpdateFileSelection taskID sel =
     (if sel = [] then ret (Inl SErrInput)
      else tx (\<lambda>s. case update_selection (sort_key fst sel) (s_now s) taskID (s_files s) of
          None \<Rightarrow> (Rollback (Inl SErrNotFound), s)
        | Some rows \<Rightarrow> (Commit (), s\<lparr>s_files := rows\<rparr>)))"

definition SelectionIntentFromFiles :: "task_file list \<Rightarrow> selection_intent" where
  "SelectionIntentFromFiles files =
     \<lparr>si_Indices = map tf_file_index (filter (\<lambda>f. tf_selected f = 1) files),
      si_Priorities = AList.clearjunk (rev (List.map_filter
        (\<lambda>f. map_option (Pair (tf_file_index f)) (tf_priority f)) files))\<rparr>"

definition SetSelectionIntent :: "string \<Rightarrow> selection_intent option \<Rightarrow> ('z, unit) store_action" where
  "SetSelectionIntent taskID sel = tx (\<lambda>s. (Commit (),
     s\<lparr>s_tasks := fst (sql_update (\<lambda>r. t_id r = taskID)
        (\<lambda>r. r\<lparr>t_select_files := map_option encodeIntent sel, t_updated_at := s_now s\<rparr>) (s_tasks s))\<rparr>))"

fun insert_trackers ::
  "string \<Rightarrow> int \<Rightarrow> string list \<Rightarrow> tracker list \<Rightarrow> 'z store_scheme \<Rightarrow> 'z store_scheme" where
  "insert_trackers taskID now seen [] s = s"
| "insert_trackers taskID now seen (row # rows) s =
     (if tr_url row \<in> set seen then insert_trackers taskID now seen rows s
      else let (rid, s1) = NewID ''ttr_'' s in
        insert_trackers taskID now (tr_url row # seen) rows
          (s1\<lparr>s_trackers := s_trackers s1 @
            [tracker.extend row \<lparr>tr_id = rid, tr_task_id = taskID, tr_created_at = now, tr_updated_at = now\<rparr>]\<rparr>))"

definition ReplaceTrackers :: "string \<Rightarrow> tracker list \<Rightarrow> ('z, unit) store_action" where
  "ReplaceTrackers taskID rows = tx (\<lambda>s. (Commit (),
     insert_trackers taskID (s_now s) [] rows
       (s\<lparr>s_trackers := fst (sql_delete (\<lambda>r. tr_task_id r = taskID) (s_trackers s))\<rparr>)))"

subsection \<open>Extraction, the schedule park, deletion\<close>

definition SetExtractProgress :: "string \<Rightarrow> int \<Rightarrow> ('z, unit) store_action" where
  "SetExtractProgress taskID percent =
     (if percent < 0 \<or> 100 < percent then ret (Inl SErrInput)
      else tx (\<lambda>s. let (rows, affected) = querySetTaskExtractProgress percent (s_now s) taskID (s_tasks s) in
        if affected = 0 then (Rollback (Inl SErrNotFound), s) else (Commit (), s\<lparr>s_tasks := rows\<rparr>)))"

text \<open>The panic on an unknown code is \<open>None\<close>.\<close>

definition SetErrorCode :: "string \<Rightarrow> string \<Rightarrow> string \<Rightarrow> ('z, unit) store_action option" where
  "SetErrorCode taskID code message =
     (if code \<notin> set taskErrorCodes then None
      else Some (tx (\<lambda>s. let (rows, affected) =
           querySetTaskErrorCode (Some code) (nullableText message) (s_now s) taskID (s_tasks s) in
        if affected = 0 then (Rollback (Inl SErrNotFound), s) else (Commit (), s\<lparr>s_tasks := rows\<rparr>))))"

definition scheduleParkSources :: "task_state list" where
  "scheduleParkSources = [StateDownloading, StateChecking, StateQueued]"

definition ScheduleParked :: "string \<Rightarrow> ('z, unit) store_action" where
  "ScheduleParked taskID = tx (\<lambda>s. case queryTaskState taskID (s_tasks s) of
       None \<Rightarrow> (Rollback (Inl SErrNotFound), s)
     | Some current \<Rightarrow>
         if current \<notin> set scheduleParkSources then (Rollback (Inl SErrTransitionConflict), s)
         else let now = s_now s; (rows, affected) =
                queryScheduleParkTask now taskID scheduleParkSources (s_tasks s) in
           if affected = 0 then (Rollback (Inl SErrTransitionConflict), s)
           else (Commit (), insertTaskEvent taskID ''info'' CodeTaskSchedulePaused
                  ''paused by the download schedule'' None now (s\<lparr>s_tasks := rows\<rparr>)))"

definition ListScheduleParked :: "('z, string list) store_action" where
  "ListScheduleParked = query (\<lambda>s. Inr (queryListScheduleParked s))"

text \<open>\<open>DELETE FROM tasks\<close> with the cascades of the foreign keys.\<close>

definition DeleteTask :: "string \<Rightarrow> ('z, unit) store_action" where
  "DeleteTask tid = tx (\<lambda>s.
     let (rows, affected) = sql_delete (\<lambda>r. t_id r = tid) (s_tasks s) in
     if affected = 0 then (Rollback (Inl SErrNotFound), s)
     else (Commit (), s\<lparr>s_tasks := rows,
        s_events := filter (\<lambda>e. ev_task_id e \<noteq> tid) (s_events s),
        s_files := filter (\<lambda>f. tf_task_id f \<noteq> tid) (s_files s),
        s_trackers := filter (\<lambda>r. tr_task_id r \<noteq> tid) (s_trackers s)\<rparr>))"

end
