(* ===== verification/StoreLaws.thy ===== *)
theory StoreLaws
  imports TaskStore
begin

section \<open>What the store promises its callers\<close>

text \<open>
  \<open>task_write tid s s'\<close> is the contract of every committed write of the task store: it changes
  only rows whose id is \<open>tid\<close>, keeps their identity columns, moves a state only along a legal
  transition, never moves a state without appending an event for the task, only ever appends to the event
  log, and sets the admission mark only on queued rows.
  The locale \<open>store_rel\<close> is the interface the engine package works against: a relation \<open>R\<close> between
  store states that holds for the passing of time and for every committed write to a task the predicate
  \<open>P\<close> allows. It proves once that every store method keeps such a relation; the components that call
  the store inherit it, and each interpretation (schema constraints, the audit trail, the admission mark,
  the frame of a single task) instantiates the whole stack.
\<close>

lemma insertTaskEvent_fields [simp]:
  "s_tasks (insertTaskEvent tid l c m d now s) = s_tasks s"
  "s_hook (insertTaskEvent tid l c m d now s) = s_hook s"
  "s_hooked (insertTaskEvent tid l c m d now s) = s_hooked s"
  "s_now (insertTaskEvent tid l c m d now s) = s_now s"
  "s_sched (insertTaskEvent tid l c m d now s) = s_sched s"
  "s_files (insertTaskEvent tid l c m d now s) = s_files s"
  by (simp_all add: insertTaskEvent_def NewID_def)

subsection \<open>The contract of a write\<close>

definition row_step :: "bool \<Rightarrow> task \<Rightarrow> task \<Rightarrow> bool" where
  "row_step logged r r' \<longleftrightarrow>
     t_id r' = t_id r \<and> t_engine r' = t_engine r \<and> t_destination r' = t_destination r \<and>
     t_source_uri r' = t_source_uri r \<and> t_infohash_v1 r' = t_infohash_v1 r \<and>
     t_infohash_v2 r' = t_infohash_v2 r \<and> t_added_at r' = t_added_at r \<and>
     (t_state r' = t_state r \<or> (transitionLegal (t_state r) (t_state r') \<and> logged)) \<and>
     (t_admission_pending r' \<noteq> 0 \<longrightarrow> t_state r' = StateQueued \<or>
        (t_state r' = t_state r \<and> t_admission_pending r' = t_admission_pending r))"

definition task_write :: "string \<Rightarrow> 'z store_scheme \<Rightarrow> 'z store_scheme \<Rightarrow> bool" where
  "task_write tid s s' \<longleftrightarrow> (\<exists>f evs n.
     s' = s\<lparr>s_tasks := map (\<lambda>r. if t_id r = tid then f r else r) (s_tasks s),
            s_events := s_events s @ evs, s_nid := n\<rparr> \<and>
     (\<forall>e \<in> set evs. ev_task_id e = tid) \<and>
     (\<forall>r \<in> set (s_tasks s). t_id r = tid \<longrightarrow> row_step (evs \<noteq> []) r (f r)))"

lemma row_step_refl [simp]: "row_step b r r"
  by (simp add: row_step_def)

lemma task_writeI:
  assumes "rows = map (\<lambda>r. if t_id r = tid then f r else r) (s_tasks s)"
    and "\<And>r. r \<in> set (s_tasks s) \<Longrightarrow> t_id r = tid \<Longrightarrow> row_step (evs \<noteq> []) r (f r)"
    and "\<And>e. e \<in> set evs \<Longrightarrow> ev_task_id e = tid"
    and "s' = s\<lparr>s_tasks := rows, s_events := s_events s @ evs, s_nid := n\<rparr>"
  shows "task_write tid s s'"
  using assms unfolding task_write_def by blast

text \<open>The two shapes of a write: an unlogged column update, and an update with one event.\<close>

lemma task_write_columns:
  assumes "\<And>r. r \<in> set (s_tasks s) \<Longrightarrow> t_id r = tid \<Longrightarrow> q r \<Longrightarrow> row_step False r (f r)"
  shows "task_write tid s (s\<lparr>s_tasks := fst (sql_update (\<lambda>r. t_id r = tid \<and> q r) f (s_tasks s))\<rparr>)"
  by (rule task_writeI [where f = "\<lambda>r. if q r then f r else r" and evs = "[]" and n = "s_nid s"])
    (auto simp: assms)

lemma task_write_logged:
  assumes "\<And>r. r \<in> set (s_tasks s) \<Longrightarrow> t_id r = tid \<Longrightarrow> q r \<Longrightarrow> row_step True r (f r)"
  shows "task_write tid s (insertTaskEvent tid level code message detail now
    (s\<lparr>s_tasks := fst (sql_update (\<lambda>r. t_id r = tid \<and> q r) f (s_tasks s))\<rparr>))"
  by (rule task_writeI [where f = "\<lambda>r. if q r then f r else r" and n = "Suc (s_nid s)" and
        evs = "[\<lparr>ev_id = ''evt_'' @ s_ulid s (s_nid s), ev_task_id = tid, ev_at = now, ev_level = level,
          ev_code = code, ev_message = message, ev_detail = detail, ev_created_at = now, ev_updated_at = now\<rparr>]"])
    (auto simp: assms insertTaskEvent_def NewID_def)

lemma task_write_event: "task_write tid s (insertTaskEvent tid level code message detail now s)"
  by (rule task_writeI [where f = "\<lambda>r. r" and n = "Suc (s_nid s)" and
        evs = "[\<lparr>ev_id = ''evt_'' @ s_ulid s (s_nid s), ev_task_id = tid, ev_at = now, ev_level = level,
          ev_code = code, ev_message = message, ev_detail = detail, ev_created_at = now, ev_updated_at = now\<rparr>]"])
    (auto simp: insertTaskEvent_def NewID_def)

lemma task_write_refl: "task_write tid s s"
  by (rule task_writeI [where f = "\<lambda>r. r" and n = "s_nid s" and evs = "[]"]) auto

lemma map_same_key: "map (\<lambda>x. if k x = i then x else x) rows = rows"
  by simp

text \<open>The rows a two-statement body writes: a write followed by an event of the same task.\<close>

lemma task_write_then_event:
  assumes "task_write tid s s1"
  shows "task_write tid s (insertTaskEvent tid level code message detail now s1)"
proof -
  from assms obtain f evs n where s1: "s1 = s\<lparr>s_tasks := map (\<lambda>r. if t_id r = tid then f r else r) (s_tasks s),
      s_events := s_events s @ evs, s_nid := n\<rparr>"
    and ev: "\<forall>e \<in> set evs. ev_task_id e = tid"
    and st: "\<forall>r \<in> set (s_tasks s). t_id r = tid \<longrightarrow> row_step (evs \<noteq> []) r (f r)"
    unfolding task_write_def by blast
  have weaken: "row_step b r r' \<Longrightarrow> row_step True r r'" for b r r'
    by (auto simp: row_step_def)
  show ?thesis
    by (rule task_writeI [where f = f and n = "Suc n" and
        evs = "evs @ [\<lparr>ev_id = ''evt_'' @ s_ulid s n, ev_task_id = tid, ev_at = now, ev_level = level,
          ev_code = code, ev_message = message, ev_detail = detail, ev_created_at = now, ev_updated_at = now\<rparr>]"])
      (use ev st in \<open>auto simp: s1 insertTaskEvent_def NewID_def intro: weaken\<close>)
qed

lemmas task_write_columns_all = task_write_columns [where q = "\<lambda>_. True", unfolded simp_thms]
lemmas task_write_logged_all = task_write_logged [where q = "\<lambda>_. True", unfolded simp_thms]

subsection \<open>Every query keeps the contract\<close>

named_theorems write_intros \<open>which statements are task writes\<close>

lemmas write_base [write_intros] = task_write_refl task_write_event

lemma write_Transition [write_intros]:
  "transitionLegal current next \<Longrightarrow> task_write tid s (insertTaskEvent tid level code message detail now
     (s\<lparr>s_tasks := fst (queryTransitionTask next now' tid current (s_tasks s))\<rparr>))"
  unfolding queryTransitionTask_def by (rule task_write_logged) (simp add: row_step_def)

lemma write_MarkRemoved [write_intros]:
  "transitionLegal current StateRemoved \<Longrightarrow> task_write tid s (insertTaskEvent tid level code message detail now
     (s\<lparr>s_tasks := fst (queryMarkTaskRemoved now' tid current (s_tasks s))\<rparr>))"
  unfolding queryMarkTaskRemoved_def by (rule task_write_logged) (auto simp: row_step_def)

lemmas write_MarkRemoved_data [write_intros] = task_write_then_event [OF write_MarkRemoved]

lemma write_PauseWithCode [write_intros]:
  "StatePaused \<notin> set from \<Longrightarrow> StateRemoved \<notin> set from \<Longrightarrow>
   task_write tid s (insertTaskEvent tid level code message detail now
     (s\<lparr>s_tasks := fst (queryPauseTaskWithCode ec em now' tid from (s_tasks s))\<rparr>))"
  unfolding queryPauseTaskWithCode_def by (rule task_write_logged) (auto simp: row_step_def)

lemma write_SchedulePark [write_intros]:
  "task_write tid s (insertTaskEvent tid level code message detail now
     (s\<lparr>s_tasks := fst (queryScheduleParkTask now' tid scheduleParkSources (s_tasks s))\<rparr>))"
  unfolding queryScheduleParkTask_def
  by (rule task_write_logged) (auto simp: row_step_def scheduleParkSources_def)

lemma write_SetEngineRef [write_intros]:
  "task_write tid s (insertTaskEvent tid level code message detail now
     (s\<lparr>s_tasks := fst (querySetTaskEngineRef ref now' tid (s_tasks s))\<rparr>))"
  "task_write tid s (s\<lparr>s_tasks := fst (querySetTaskEngineRef ref now' tid (s_tasks s))\<rparr>)"
  unfolding querySetTaskEngineRef_def
  by (rule task_write_logged task_write_columns, simp add: row_step_def)+

lemma write_columns [write_intros]:
  "task_write tid s (s\<lparr>s_tasks := fst (queryUpdateTaskProgress p now tid (s_tasks s))\<rparr>)"
  "task_write tid s (s\<lparr>s_tasks := fst (queryClearTaskErrorCodeUnlessPaused now tid (s_tasks s))\<rparr>)"
  "task_write tid s (s\<lparr>s_tasks := fst (queryClearPausedTaskHoldCode now tid (s_tasks s))\<rparr>)"
  "task_write tid s (s\<lparr>s_tasks := fst (querySetTaskErrorCodeIfState c m now tid st (s_tasks s))\<rparr>)"
  "task_write tid s (s\<lparr>s_tasks := fst (queryClaimParkedDiskFull tid (s_tasks s))\<rparr>)"
  "task_write tid s (s\<lparr>s_tasks := fst (queryMarkAdmissionPending now tid (s_tasks s))\<rparr>)"
  "task_write tid s (s\<lparr>s_tasks := fst (querySetTaskErrorCode c m now tid (s_tasks s))\<rparr>)"
  "task_write tid s (s\<lparr>s_tasks := fst (querySetTaskExtractProgress pc now tid (s_tasks s))\<rparr>)"
  unfolding queryUpdateTaskProgress_def queryClearTaskErrorCodeUnlessPaused_def
    queryClearPausedTaskHoldCode_def querySetTaskErrorCodeIfState_def queryClaimParkedDiskFull_def
    queryMarkAdmissionPending_def querySetTaskErrorCode_def querySetTaskExtractProgress_def clear_code_def
  by (rule task_write_columns task_write_columns_all, simp add: row_step_def)+

lemma write_patch [write_intros]:
  "task_write tid s (s\<lparr>s_tasks := fst (sql_update (\<lambda>r. t_id r = tid) (apply_patch p now) (s_tasks s))\<rparr>)"
  by (rule task_write_columns_all) (auto simp: row_step_def apply_patch_def Let_def split: option.splits)

lemma write_selection [write_intros]:
  "task_write tid s (s\<lparr>s_tasks := fst (sql_update (\<lambda>r. t_id r = tid)
     (\<lambda>r. r\<lparr>t_select_files := d, t_updated_at := now\<rparr>) (s_tasks s))\<rparr>)"
  by (rule task_write_columns_all) (simp add: row_step_def)

subsection \<open>The store interface\<close>

lemmas op_splits = option.splits if_splits prod.splits

text \<open>The part every reading call needs: time passes, and the completion hook runs.\<close>

locale clock_rel = step_rel R
  for R :: "'z store_scheme \<Rightarrow> 'z store_scheme \<Rightarrow> bool" +
  assumes R_clock: "R s (s\<lparr>s_sched := xs, s_now := n\<rparr>)"
    and R_hook: "R s (s\<lparr>s_hooked := hs\<rparr>)"
begin

lemma io_tick [io_intros]: "state_io_rel R tick"
proof (rule state_io_relI)
  fix a and s s' :: "'z store_scheme" assume "run_state tick s = (a, s')"
  then show "R s s'"
    by (cases "s_sched s") (auto simp: tick_def step_refl R_clock)
qed

lemma io_query [io_intros]: "state_io_rel R (query q)"
  unfolding query_def by (intro io_intros)

lemma io_tx:
  assumes "\<And>s a s'. body s = (Commit a, s') \<Longrightarrow> constraints_ok s' \<Longrightarrow> R s s'"
  shows "state_io_rel R (tx body)"
proof -
  have "state_io_rel R (State (\<lambda>s. case body s of
         (Rollback r, _) \<Rightarrow> (r, s)
       | (Commit a, s') \<Rightarrow>
           if \<not> constraints_ok s' then (Inl SErrDB, s)
           else ((if f = FaultAmbiguous then Inl SErrDB else Inr a), s')))" for f
    using assms by (auto simp: state_io_rel_def step_refl split: prod.splits tx_result.splits)
  then show ?thesis
    unfolding tx_def by (intro io_intros)
qed

lemma io_fireCompleted [io_intros]: "state_io_rel R (fireCompleted tid)"
  by (auto simp: state_io_rel_def fireCompleted_def step_refl R_hook)

lemma io_GetTask [io_intros]: "state_io_rel R (GetTask tid)"
  unfolding GetTask_def by (rule io_query)

lemma io_reads [io_intros]:
  "state_io_rel R CountActive"
  "state_io_rel R (SelectQueuedCandidates limit)"
  "state_io_rel R SumRemainingByDestination"
  "state_io_rel R (ListNonTerminalByEngine e)"
  "state_io_rel R ListScheduleParked"
  "state_io_rel R (ListFiles tid)"
  unfolding CountActive_def SelectQueuedCandidates_def SumRemainingByDestination_def
    ListNonTerminalByEngine_def ListScheduleParked_def ListFiles_def
  by (rule io_query)+

end

locale store_rel = clock_rel R
  for R :: "'z store_scheme \<Rightarrow> 'z store_scheme \<Rightarrow> bool" +
  fixes P :: "string \<Rightarrow> bool"
  assumes R_write: "P tid \<Longrightarrow> task_write tid s s' \<Longrightarrow> constraints_ok s' \<Longrightarrow> R s s'"
begin

lemma io_tx_write:
  assumes "P tid" and "\<And>s a s'. body s = (Commit a, s') \<Longrightarrow> task_write tid s s'"
  shows "state_io_rel R (tx body)"
  by (rule io_tx) (use assms in \<open>blast intro: R_write\<close>)

lemma io_AppendEvent [io_intros]: "P tid \<Longrightarrow> state_io_rel R (AppendEvent tid level code message detail)"
  unfolding AppendEvent_def by (intro io_intros io_tx_write [where tid = tid]) (auto intro: write_intros)

lemma io_SetErrorCodeIfState [io_intros]:
  "P tid \<Longrightarrow> state_io_rel R (SetErrorCodeIfState tid st code message)"
  unfolding SetErrorCodeIfState_def Let_def case_prod_beta
  by (rule io_tx_write [where tid = tid]) (auto intro: write_intros split: op_splits)

lemma io_PauseWithCode [io_intros]:
  "P tid \<Longrightarrow> StatePaused \<notin> set (cp_FromStates p) \<Longrightarrow> StateRemoved \<notin> set (cp_FromStates p) \<Longrightarrow>
   state_io_rel R (PauseWithCode tid p)"
  unfolding PauseWithCode_def Let_def case_prod_beta
  by (intro io_intros io_tx_write [where tid = tid]) (auto intro: write_intros split: op_splits)

lemma io_ClearHoldCode [io_intros]: "P tid \<Longrightarrow> state_io_rel R (ClearHoldCode tid)"
  unfolding ClearHoldCode_def Let_def case_prod_beta
  by (rule io_tx_write [where tid = tid]) (auto intro: write_intros split: op_splits)

lemma io_ClearPausedHoldCode [io_intros]: "P tid \<Longrightarrow> state_io_rel R (ClearPausedHoldCode tid)"
  unfolding ClearPausedHoldCode_def Let_def case_prod_beta
  by (rule io_tx_write [where tid = tid]) (auto intro: write_intros split: op_splits)

lemma io_ClaimParkedDiskFull [io_intros]: "P tid \<Longrightarrow> state_io_rel R (ClaimParkedDiskFull tid)"
  unfolding ClaimParkedDiskFull_def Let_def case_prod_beta
  by (rule io_tx_write [where tid = tid]) (auto intro: write_intros split: op_splits)

lemma io_MarkAdmissionPending [io_intros]: "P tid \<Longrightarrow> state_io_rel R (MarkAdmissionPending tid)"
  unfolding MarkAdmissionPending_def Let_def case_prod_beta
  by (rule io_tx_write [where tid = tid]) (auto intro: write_intros split: op_splits)

lemma io_UpdateProgress [io_intros]: "P tid \<Longrightarrow> state_io_rel R (UpdateProgress tid p)"
  unfolding UpdateProgress_def Let_def case_prod_beta
  by (rule io_tx_write [where tid = tid]) (auto intro: write_intros split: op_splits)

lemma io_SetEngineRef [io_intros]: "P tid \<Longrightarrow> state_io_rel R (SetEngineRef tid ref)"
  unfolding SetEngineRef_def Let_def case_prod_beta
  by (intro io_intros io_tx_write [where tid = tid]) (auto intro: write_intros split: op_splits)

lemma io_Transition [io_intros]: "P tid \<Longrightarrow> state_io_rel R (Transition tid next code message)"
  unfolding Transition_def Let_def case_prod_beta
  by (intro io_intros io_tx_write [where tid = tid]) (auto intro: write_intros split: op_splits)

lemma io_MarkRemoved [io_intros]: "P tid \<Longrightarrow> state_io_rel R (MarkRemoved tid data)"
  unfolding MarkRemoved_def Let_def case_prod_beta
  by (rule io_tx_write [where tid = tid]) (auto intro: write_intros split: op_splits)

lemma io_UpdateTask [io_intros]: "P tid \<Longrightarrow> state_io_rel R (UpdateTask tid p)"
  unfolding UpdateTask_def Let_def case_prod_beta
  by (intro io_intros io_tx_write [where tid = tid]) (auto intro: write_intros simp del: fst_sql_update split: op_splits)

lemma io_SetSelectionIntent [io_intros]: "P tid \<Longrightarrow> state_io_rel R (SetSelectionIntent tid sel)"
  unfolding SetSelectionIntent_def
  by (rule io_tx_write [where tid = tid]) (auto intro: write_intros simp del: fst_sql_update)

lemma io_SetExtractProgress [io_intros]: "P tid \<Longrightarrow> state_io_rel R (SetExtractProgress tid pc)"
  unfolding SetExtractProgress_def Let_def case_prod_beta
  by (intro io_intros io_tx_write [where tid = tid]) (auto intro: write_intros split: op_splits)

lemma io_SetErrorCode:
  "P tid \<Longrightarrow> SetErrorCode tid code message = Some m \<Longrightarrow> state_io_rel R m"
  unfolding SetErrorCode_def Let_def case_prod_beta
  by (auto intro!: io_tx_write [where tid = tid] intro: write_intros split: op_splits)

lemma io_ScheduleParked [io_intros]: "P tid \<Longrightarrow> state_io_rel R (ScheduleParked tid)"
  unfolding ScheduleParked_def Let_def case_prod_beta
  by (rule io_tx_write [where tid = tid]) (auto intro: write_intros split: op_splits)

end

subsection \<open>Interpretations\<close>

text \<open>The schema constraints.\<close>

definition keeps_constraints :: "'z store_scheme \<Rightarrow> 'z store_scheme \<Rightarrow> bool" where
  "keeps_constraints s s' \<longleftrightarrow> (constraints_ok s \<longrightarrow> constraints_ok s')"

interpretation constraints: store_rel keeps_constraints "\<lambda>_. True"
  by unfold_locales (auto simp: keeps_constraints_def constraints_ok_def)

text \<open>
  The audit trail: rows are neither created nor dropped, the log only grows, and a task has moved along
  edges of the transition table, with an event of its own for every edge. (Reachability alone says nothing:
  the table connects every two live states. It is the number of edges that the new events bound.)
\<close>

definition audited :: "task_event list \<Rightarrow> task \<Rightarrow> task \<Rightarrow> bool" where
  "audited evs r r' \<longleftrightarrow> t_id r' = t_id r \<and>
     (\<exists>n \<le> length (filter (\<lambda>e. ev_task_id e = t_id r) evs). (transitionLegal ^^ n) (t_state r) (t_state r'))"

definition audit_trail :: "'z store_scheme \<Rightarrow> 'z store_scheme \<Rightarrow> bool" where
  "audit_trail s s' \<longleftrightarrow> (\<exists>evs. s_events s' = s_events s @ evs \<and>
     list_all2 (audited evs) (s_tasks s) (s_tasks s'))"

lemma audited_refl: "audited evs r r"
  unfolding audited_def by (auto intro: exI [of _ 0])

lemma audited_same: "t_id r' = t_id r \<Longrightarrow> t_state r' = t_state r \<Longrightarrow> audited evs r r'"
  unfolding audited_def by (auto intro: exI [of _ 0])

lemma audited_trans:
  assumes "audited a r r'" and "audited b r' r''"
  shows "audited (a @ b) r r''"
proof -
  obtain n m where n: "n \<le> length (filter (\<lambda>e. ev_task_id e = t_id r) a)" "(transitionLegal ^^ n) (t_state r) (t_state r')"
    and m: "m \<le> length (filter (\<lambda>e. ev_task_id e = t_id r) b)" "(transitionLegal ^^ m) (t_state r') (t_state r'')"
    using assms unfolding audited_def by auto
  have "(transitionLegal ^^ (n + m)) (t_state r) (t_state r'')"
    unfolding relpowp_add using n(2) m(2) by (rule relcomppI)
  moreover have "n + m \<le> length (filter (\<lambda>e. ev_task_id e = t_id r) (a @ b))" using n(1) m(1) by simp
  ultimately show ?thesis using assms unfolding audited_def by auto
qed

text \<open>One logged write takes one edge.\<close>

lemma audited_step:
  assumes "row_step (evs \<noteq> []) r r'" and "\<forall>e \<in> set evs. ev_task_id e = t_id r"
  shows "audited evs r r'"
proof (cases "t_state r' = t_state r")
  case True
  with assms show ?thesis by (intro audited_same) (simp_all add: row_step_def)
next
  case False
  with assms(1) have "transitionLegal (t_state r) (t_state r')" "evs \<noteq> []" "t_id r' = t_id r" by (auto simp: row_step_def)
  moreover from assms(2) have "filter (\<lambda>e. ev_task_id e = t_id r) evs = evs" by (simp add: filter_id_conv)
  ultimately show ?thesis unfolding audited_def by (intro conjI exI [of _ 1]) (auto simp: Suc_le_eq)
qed

lemma audit_trail_write:
  assumes "task_write tid s s'"
  shows "audit_trail s s'"
proof -
  from assms obtain f evs n where s': "s' = s\<lparr>s_tasks := map (\<lambda>r. if t_id r = tid then f r else r) (s_tasks s),
      s_events := s_events s @ evs, s_nid := n\<rparr>"
    and ev: "\<forall>e \<in> set evs. ev_task_id e = tid"
    and st: "\<forall>r \<in> set (s_tasks s). t_id r = tid \<longrightarrow> row_step (evs \<noteq> []) r (f r)"
    unfolding task_write_def by blast
  have "audited evs r (f r)" if "r \<in> set (s_tasks s)" "t_id r = tid" for r
    using that st ev by (intro audited_step) auto
  then have "list_all2 (audited evs) (s_tasks s) (map (\<lambda>r. if t_id r = tid then f r else r) (s_tasks s))"
    unfolding list.rel_map by (intro list.rel_refl_strong) (auto intro: audited_refl)
  then show ?thesis
    by (auto simp: audit_trail_def s')
qed

lemma audit_trail_refl: "s_events s' = s_events s \<Longrightarrow> s_tasks s' = s_tasks s \<Longrightarrow> audit_trail s s'"
  unfolding audit_trail_def by (intro exI [of _ "[]"]) (auto intro: list.rel_refl audited_refl)

lemma audit_trail_trans:
  assumes "audit_trail s t" and "audit_trail t u"
  shows "audit_trail s u"
proof -
  from assms obtain a b where "s_events t = s_events s @ a" "s_events u = s_events t @ b"
    and l: "list_all2 (audited a) (s_tasks s) (s_tasks t)" "list_all2 (audited b) (s_tasks t) (s_tasks u)"
    unfolding audit_trail_def by blast
  moreover have "list_all2 (audited (a @ b)) (s_tasks s) (s_tasks u)"
    using audited_trans by (rule list_all2_trans) (use l in auto)
  ultimately show ?thesis
    unfolding audit_trail_def by (intro exI [of _ "a @ b"]) simp
qed

interpretation audit: store_rel audit_trail "\<lambda>_. True"
  by unfold_locales (auto intro: audit_trail_refl audit_trail_trans audit_trail_write)

text \<open>The admission mark stands on queued rows only.\<close>

definition mark_on_queued :: "'z store_scheme \<Rightarrow> bool" where
  "mark_on_queued s \<longleftrightarrow> (\<forall>r \<in> set (s_tasks s). t_admission_pending r \<noteq> 0 \<longrightarrow> t_state r = StateQueued)"

definition keeps_mark :: "'z store_scheme \<Rightarrow> 'z store_scheme \<Rightarrow> bool" where
  "keeps_mark s s' \<longleftrightarrow> (mark_on_queued s \<longrightarrow> mark_on_queued s')"

lemma mark_write:
  assumes "task_write tid s s'" and "mark_on_queued s"
  shows "mark_on_queued s'"
proof -
  from assms(1) obtain f evs n where s': "s' = s\<lparr>s_tasks := map (\<lambda>r. if t_id r = tid then f r else r) (s_tasks s),
      s_events := s_events s @ evs, s_nid := n\<rparr>"
    and st: "\<forall>r \<in> set (s_tasks s). t_id r = tid \<longrightarrow> row_step (evs \<noteq> []) r (f r)"
    unfolding task_write_def by blast
  have "t_state (f r) = StateQueued"
    if "r \<in> set (s_tasks s)" "t_id r = tid" "t_admission_pending (f r) \<noteq> 0" for r
    using st that assms(2) by (auto simp: row_step_def mark_on_queued_def)
  with assms(2) show ?thesis
    by (auto simp: mark_on_queued_def s')
qed

interpretation mark: store_rel keeps_mark "\<lambda>_. True"
  by unfold_locales (auto simp: keeps_mark_def intro: mark_write, auto simp: mark_on_queued_def)

text \<open>The frame of one task: a write to any other task leaves its row as it is.\<close>

definition same_row :: "string \<Rightarrow> 'z store_scheme \<Rightarrow> 'z store_scheme \<Rightarrow> bool" where
  "same_row x s s' \<longleftrightarrow> filter (\<lambda>r. t_id r = x) (s_tasks s') = filter (\<lambda>r. t_id r = x) (s_tasks s)"

lemma filter_other_row:
  "x \<noteq> tid \<Longrightarrow> (\<And>r. r \<in> set rows \<Longrightarrow> t_id r = tid \<Longrightarrow> t_id (f r) = tid) \<Longrightarrow>
   filter (\<lambda>r. t_id r = x) (map (\<lambda>r. if t_id r = tid then f r else r) rows) = filter (\<lambda>r. t_id r = x) rows"
  by (induction rows) auto

interpretation frame: store_rel "same_row x" "\<lambda>t. t \<noteq> x" for x
  by unfold_locales
    (auto simp: same_row_def task_write_def row_step_def intro!: filter_other_row)

subsection \<open>Transitions on every branch\<close>

lemma distinct_map_filter_mono:
  assumes "\<And>x. x \<in> set xs \<Longrightarrow> f x = None \<or> f x = h x" and "distinct (List.map_filter h xs)"
  shows "distinct (List.map_filter f xs)"
proof -
  have "set (List.map_filter f xs) \<subseteq> set (List.map_filter h xs) \<and> distinct (List.map_filter f xs)"
    using assms
  proof (induction xs)
    case (Cons x xs)
    then have IH: "set (List.map_filter f xs) \<subseteq> set (List.map_filter h xs)"
        "distinct (List.map_filter f xs)"
      by (auto simp: map_filter_simps split: option.splits)
    from Cons.prems(1) [of x] consider "f x = None" | y where "f x = Some y" "h x = Some y"
      by (cases "f x") auto
    then show ?case
      using IH Cons.prems(2) by cases (auto simp: map_filter_simps split: option.splits)
  qed (simp add: map_filter_simps)
  then show ?thesis ..
qed

lemma live_keys_mono:
  assumes "\<And>r. r \<in> set rows \<Longrightarrow> t_state (g r) = StateRemoved \<or> (t_state r \<noteq> StateRemoved \<and> k (g r) = k r)"
    and "distinct (live_keys k rows)"
  shows "distinct (live_keys k (map g rows))"
proof -
  have eq: "live_keys k (map g rows) =
      List.map_filter (\<lambda>r. if t_state (g r) = StateRemoved then None else k (g r)) rows"
    by (simp add: live_keys_def List.map_filter_def filter_map o_def)
  show ?thesis
    unfolding eq by (rule distinct_map_filter_mono [OF _ assms(2)[unfolded live_keys_def]])
      (use assms(1) in force)
qed

lemma constraints_ok_rows:
  assumes "constraints_ok s"
    and "\<And>r. r \<in> set (s_tasks s) \<Longrightarrow> t_state (g r) = StateRemoved \<or> (t_state r \<noteq> StateRemoved \<and>
        t_engine_ref (g r) = t_engine_ref r)"
    and "\<And>r. r \<in> set (s_tasks s) \<Longrightarrow> t_id (g r) = t_id r \<and> t_engine (g r) = t_engine r \<and>
        t_infohash_v1 (g r) = t_infohash_v1 r \<and> t_infohash_v2 (g r) = t_infohash_v2 r \<and>
        (t_error_code (g r) = t_error_code r \<or> t_error_code (g r) \<in> insert None (Some ` set taskErrorCodes))"
  shows "constraints_ok (s\<lparr>s_tasks := map g (s_tasks s)\<rparr>)"
proof -
  have ids: "map t_id (map g (s_tasks s)) = map t_id (s_tasks s)"
    using assms(3) by simp
  have codes: "list_all (\<lambda>r. case t_error_code r of None \<Rightarrow> True | Some c \<Rightarrow> c \<in> set taskErrorCodes)
      (map g (s_tasks s))"
    using assms(1,3) by (fastforce simp: constraints_ok_def list_all_iff split: option.splits)
  have handle: "distinct (live_keys engine_handle (map g (s_tasks s)))"
    by (rule live_keys_mono)
      (use assms in \<open>force simp: constraints_ok_def engine_handle_def\<close>)+
  have hashes: "distinct (live_keys t_infohash_v1 (map g (s_tasks s)))"
    "distinct (live_keys t_infohash_v2 (map g (s_tasks s)))"
    by (rule live_keys_mono, use assms in \<open>force simp: constraints_ok_def\<close>,
        use assms in \<open>simp add: constraints_ok_def\<close>)+
  from ids have "set (map t_id (map g (s_tasks s))) = set (map t_id (s_tasks s))"
    by (rule arg_cong)
  moreover have "distinct (map t_id (map g (s_tasks s)))"
    unfolding ids using assms(1) by (simp add: constraints_ok_def)
  ultimately show ?thesis
    using assms(1) codes handle hashes by (simp add: constraints_ok_def)
qed

text \<open>The next generated event id is not in use: what the ULID package promises of its ids.\<close>

definition fresh_event_id :: "'z store_scheme \<Rightarrow> bool" where
  "fresh_event_id s \<longleftrightarrow> ''evt_'' @ s_ulid s (s_nid s) \<notin> ev_id ` set (s_events s)"

lemma constraints_ok_event:
  "constraints_ok s \<Longrightarrow> fresh_event_id s \<Longrightarrow> tid \<in> set (map t_id (s_tasks s)) \<Longrightarrow>
   constraints_ok (insertTaskEvent tid level code message detail now s)"
  by (auto simp: constraints_ok_def insertTaskEvent_def NewID_def fresh_event_id_def)

end
