(* ===== verification/StoreProps.thy ===== *)
theory StoreProps
  imports StoreLaws "HOL-Library.Multiset"
begin

section \<open>Properties of the task store\<close>

text \<open>
  The behaviour of single methods on every branch, and what holds over every sequence of store calls
  from any number of callers, with any schedule of database faults.
\<close>

subsection \<open>Sequences of calls\<close>

text \<open>One call of a store method that writes an existing task.\<close>

datatype store_op =
    OpTransition string task_state string string
  | OpMarkRemoved string "event_detail option"
  | OpPauseDiskFull string string string string string
  | OpScheduleParked string
  | OpSetEngineRef string string
  | OpUpdateProgress string progress
  | OpSetErrorCodeIfState string task_state string string
  | OpClearHoldCode string
  | OpClearPausedHoldCode string
  | OpClaimParkedDiskFull string
  | OpMarkAdmissionPending string
  | OpUpdateTask string task_patch
  | OpSetSelectionIntent string "selection_intent option"
  | OpSetExtractProgress string int
  | OpAppendEvent string string string string "event_detail option"

fun run_op :: "store_op \<Rightarrow> ('z store_scheme, unit) action" where
  "run_op (OpTransition tid next code msg) = do { _ \<leftarrow> Transition tid next code msg; ret () }"
| "run_op (OpMarkRemoved tid d) = do { _ \<leftarrow> MarkRemoved tid d; ret () }"
| "run_op (OpPauseDiskFull tid ec em c m) = do { _ \<leftarrow> PauseWithCode tid
     \<lparr>cp_EventCode = ec, cp_EventMessage = em, cp_ErrorCode = c, cp_ErrorMessage = m,
      cp_FromStates = countedStates\<rparr>; ret () }"
| "run_op (OpScheduleParked tid) = do { _ \<leftarrow> ScheduleParked tid; ret () }"
| "run_op (OpSetEngineRef tid ref) = do { _ \<leftarrow> SetEngineRef tid ref; ret () }"
| "run_op (OpUpdateProgress tid p) = do { _ \<leftarrow> UpdateProgress tid p; ret () }"
| "run_op (OpSetErrorCodeIfState tid st c m) = do { _ \<leftarrow> SetErrorCodeIfState tid st c m; ret () }"
| "run_op (OpClearHoldCode tid) = do { _ \<leftarrow> ClearHoldCode tid; ret () }"
| "run_op (OpClearPausedHoldCode tid) = do { _ \<leftarrow> ClearPausedHoldCode tid; ret () }"
| "run_op (OpClaimParkedDiskFull tid) = do { _ \<leftarrow> ClaimParkedDiskFull tid; ret () }"
| "run_op (OpMarkAdmissionPending tid) = do { _ \<leftarrow> MarkAdmissionPending tid; ret () }"
| "run_op (OpUpdateTask tid p) = do { _ \<leftarrow> UpdateTask tid p; ret () }"
| "run_op (OpSetSelectionIntent tid sel) = do { _ \<leftarrow> SetSelectionIntent tid sel; ret () }"
| "run_op (OpSetExtractProgress tid pc) = do { _ \<leftarrow> SetExtractProgress tid pc; ret () }"
| "run_op (OpAppendEvent tid l c m d) = do { _ \<leftarrow> AppendEvent tid l c m d; ret () }"

abbreviation run_ops :: "store_op list \<Rightarrow> ('z store_scheme, unit) action" where
  "run_ops \<equiv> forEach run_op"

fun op_target :: "store_op \<Rightarrow> string" where
  "op_target (OpTransition tid _ _ _) = tid"
| "op_target (OpMarkRemoved tid _) = tid"
| "op_target (OpPauseDiskFull tid _ _ _ _) = tid"
| "op_target (OpScheduleParked tid) = tid"
| "op_target (OpSetEngineRef tid _) = tid"
| "op_target (OpUpdateProgress tid _) = tid"
| "op_target (OpSetErrorCodeIfState tid _ _ _) = tid"
| "op_target (OpClearHoldCode tid) = tid"
| "op_target (OpClearPausedHoldCode tid) = tid"
| "op_target (OpClaimParkedDiskFull tid) = tid"
| "op_target (OpMarkAdmissionPending tid) = tid"
| "op_target (OpUpdateTask tid _) = tid"
| "op_target (OpSetSelectionIntent tid _) = tid"
| "op_target (OpSetExtractProgress tid _) = tid"
| "op_target (OpAppendEvent tid _ _ _ _) = tid"

context store_rel
begin

lemma io_run_op: "P (op_target c) \<Longrightarrow> state_io_rel R (run_op c)"
  by (cases c) (auto intro!: io_intros simp: countedStates_def)

lemma io_run_ops: "(\<And>c. c \<in> set cs \<Longrightarrow> P (op_target c)) \<Longrightarrow> state_io_rel R (run_ops cs)"
  by (induction cs) (auto intro!: io_intros intro: io_run_op)

end


text \<open>
  The ownership mark of the admission pass never outlives the queued state: after any sequence of
  store calls, only queued rows carry it if that was so before.
\<close>

theorem store_mark_on_queued: "keeps_mark s (snd (run_state (run_ops cs) s))"
  by (rule mark.io_run_ops [unfolded state_io_rel_def, rule_format]) simp

subsection \<open>Transitions\<close>

text \<open>The state after the clock of one successful call.\<close>

definition after_tick :: "nat \<Rightarrow> (db_fault \<times> nat) list \<Rightarrow> 'z store_scheme \<Rightarrow> 'z store_scheme" where
  "after_tick dt rest s = s\<lparr>s_sched := rest, s_now := s_now s + int dt\<rparr>"

lemma run_tx_ok:
  assumes "s_sched s = (FaultNone, dt) # rest"
  shows "run_state (tx body) s = (let s0 = after_tick dt rest s in case body s0 of
     (Rollback r, _) \<Rightarrow> (r, s0)
   | (Commit a, s') \<Rightarrow> if constraints_ok s' then (Inr a, s') else (Inl SErrDB, s0))"
  using assms by (simp add: tx_def tick_def after_tick_def Let_def split: prod.splits tx_result.splits)

lemma run_query_ok:
  assumes "s_sched s = (FaultNone, dt) # rest"
  shows "run_state (query q) s = (q (after_tick dt rest s), after_tick dt rest s)"
  using assms by (simp add: query_def tick_def after_tick_def)

lemma tick_cases:
  obtains f dt rest where "run_state tick s = (f, after_tick dt rest s)"
proof (cases "s_sched s")
  case Nil
  then have "run_state tick s = (FaultNone, after_tick 0 [] s)"
    by (simp add: tick_def after_tick_def)
  then show thesis by (rule that)
next
  case (Cons c cs)
  then have "run_state tick s = (fst c, after_tick (snd c) cs s)"
    by (cases c) (simp add: tick_def after_tick_def)
  then show thesis by (rule that)
qed

lemma run_tx_tick:
  assumes "run_state tick s = (f, s0)"
  shows "run_state (tx body) s = (if f = FaultBefore then (Inl SErrDB, s0) else case body s0 of
     (Rollback r, _) \<Rightarrow> (r, s0)
   | (Commit a, s') \<Rightarrow> if \<not> constraints_ok s' then (Inl SErrDB, s0)
       else ((if f = FaultAmbiguous then Inl SErrDB else Inr a), s'))"
  using assms by (simp add: tx_def split: prod.splits tx_result.splits)

lemma constraints_ok_after_tick [simp]: "constraints_ok (after_tick dt rest s) = constraints_ok s"
  by (simp add: constraints_ok_def after_tick_def)

lemma tables_after_tick [simp]:
  "s_tasks (after_tick dt rest s) = s_tasks s" "s_events (after_tick dt rest s) = s_events s"
  "s_files (after_tick dt rest s) = s_files s" "s_hook (after_tick dt rest s) = s_hook s"
  "s_hooked (after_tick dt rest s) = s_hooked s" "s_now (after_tick dt rest s) = s_now s + int dt"
  by (simp_all add: after_tick_def)

lemma queryTaskState_SomeD:
  assumes "queryTaskState tid rows = Some st"
  obtains r where "r \<in> set rows" "t_id r = tid" "t_state r = st"
  using assms sql_find_SomeD unfolding queryTaskState_def queryGetTask_def by fastforce

lemma fresh_event_id_after_tick [simp]: "fresh_event_id (after_tick dt rest s) = fresh_event_id s"
  by (simp add: fresh_event_id_def after_tick_def)

lemma fresh_event_id_rows [simp]: "fresh_event_id (s\<lparr>s_tasks := rows\<rparr>) = fresh_event_id s"
  by (simp add: fresh_event_id_def)

lemma constraints_ok_transition:
  assumes "constraints_ok s" and "fresh_event_id s" and "queryTaskState tid (s_tasks s) = Some current"
    and "transitionLegal current next"
  shows "constraints_ok (insertTaskEvent tid level code message detail now
    (s\<lparr>s_tasks := fst (queryTransitionTask next now' tid current (s_tasks s))\<rparr>))"
proof -
  obtain r where r: "r \<in> set (s_tasks s)" "t_id r = tid"
    using assms(3) by (rule queryTaskState_SomeD)
  have "constraints_ok (s\<lparr>s_tasks := fst (queryTransitionTask next now' tid current (s_tasks s))\<rparr>)"
    using assms(4) unfolding queryTransitionTask_def fst_sql_update
    by (intro constraints_ok_rows [OF assms(1)]) (auto simp: engine_handle_def)
  then show ?thesis
    by (rule constraints_ok_event) (use r assms(2) in \<open>force simp: queryTransitionTask_def\<close>)+
qed

lemma transition_affected:
  "queryTaskState tid rows = Some current \<Longrightarrow> snd (queryTransitionTask next now tid current rows) \<noteq> 0"
  unfolding queryTransitionTask_def by (auto elim!: queryTaskState_SomeD simp: filter_empty_conv)

lemma Transition_run:
  assumes "s_sched s = (FaultNone, dt) # rest" and "constraints_ok s" and "fresh_event_id s"
  shows "run_state (Transition tid next code message) s =
    (let s0 = after_tick dt rest s in
     case queryTaskState tid (s_tasks s) of
       None \<Rightarrow> (Inl SErrNotFound, s0)
     | Some current \<Rightarrow>
         if \<not> transitionLegal current next then (Inl SErrIllegalTransition, s0)
         else (Inr (), let s1 = insertTaskEvent tid (transitionEventLevel next) code message None (s_now s0)
                 (s0\<lparr>s_tasks := fst (queryTransitionTask next (s_now s0) tid current (s_tasks s))\<rparr>) in
           if next = StateCompleted \<and> s_hook s then s1\<lparr>s_hooked := s_hooked s @ [tid]\<rparr> else s1))"
proof (cases "queryTaskState tid (s_tasks s)")
  case None
  then show ?thesis by (simp add: Transition_def run_tx_ok [OF assms(1)] Let_def)
next
  case (Some current)
  show ?thesis
  proof (cases "transitionLegal current next")
    case True
    have "constraints_ok (insertTaskEvent tid level code message None now
      ((after_tick dt rest s)\<lparr>s_tasks := fst (queryTransitionTask next now tid current (s_tasks s))\<rparr>))"
      for level now
      using constraints_ok_transition [of "after_tick dt rest s"] assms(2,3) Some True by simp
    moreover have "snd (queryTransitionTask next now tid current (s_tasks s)) \<noteq> 0" for now
      by (rule transition_affected [OF Some])
    ultimately show ?thesis
      using Some True
      by (simp add: Transition_def run_tx_ok [OF assms(1)] Let_def case_prod_beta fireCompleted_def
          del: snd_sql_update fst_sql_update neq0_conv)
  next
    case False
    with Some show ?thesis by (simp add: Transition_def run_tx_ok [OF assms(1)] Let_def)
  qed
qed

text \<open>What the row and the log look like after a committed transition of the row \<open>r\<close>.\<close>

definition moved_to :: "string \<Rightarrow> task_state \<Rightarrow> string \<Rightarrow> string \<Rightarrow> task \<Rightarrow> 'z store_scheme \<Rightarrow> 'z store_scheme \<Rightarrow> bool" where
  "moved_to tid next code message r s s' \<longleftrightarrow>
     r \<in> set (s_tasks s) \<and> t_id r = tid \<and> transitionLegal (t_state r) next \<and>
     s_tasks s' = map (\<lambda>x. if t_id x = tid
        then r\<lparr>t_state := next, t_admission_pending := 0, t_updated_at := s_now s'\<rparr> else x) (s_tasks s) \<and>
     s_events s' = s_events s @
        [\<lparr>ev_id = ''evt_'' @ s_ulid s (s_nid s), ev_task_id = tid, ev_at = s_now s',
          ev_level = transitionEventLevel next, ev_code = code, ev_message = message, ev_detail = None,
          ev_created_at = s_now s', ev_updated_at = s_now s'\<rparr>]"

lemma constraints_ok_ids: "constraints_ok s \<Longrightarrow> distinct (map t_id (s_tasks s))"
  by (simp add: constraints_ok_def)

lemma same_id_same_row:
  "distinct (map t_id rows) \<Longrightarrow> r \<in> set rows \<Longrightarrow> x \<in> set rows \<Longrightarrow> t_id x = t_id r \<Longrightarrow> x = r"
  by (auto simp: distinct_map dest: inj_onD)

lemma transition_body_moved:
  assumes "constraints_ok s" and r: "r \<in> set (s_tasks s)" "t_id r = tid" and "transitionLegal (t_state r) next"
  shows "moved_to tid next code message r s
    (insertTaskEvent tid (transitionEventLevel next) code message None (s_now s)
      (s\<lparr>s_tasks := fst (queryTransitionTask next (s_now s) tid (t_state r) (s_tasks s))\<rparr>))"
proof -
  have "x = r" if "x \<in> set (s_tasks s)" "t_id x = tid" for x
    using same_id_same_row [OF constraints_ok_ids [OF assms(1)] r(1) that(1)] that(2) r(2) by simp
  then have "map (\<lambda>x. if t_id x = tid \<and> t_state x = t_state r
        then x\<lparr>t_state := next, t_admission_pending := 0, t_updated_at := s_now s\<rparr> else x) (s_tasks s) =
      map (\<lambda>x. if t_id x = tid
        then r\<lparr>t_state := next, t_admission_pending := 0, t_updated_at := s_now s\<rparr> else x) (s_tasks s)"
    by (intro map_cong refl) (metis (full_types))
  with assms show ?thesis
    by (simp add: moved_to_def insertTaskEvent_def NewID_def queryTransitionTask_def)
qed

lemma moved_to_after_tick [simp]:
  "moved_to tid next code message r (after_tick dt rest s) s' = moved_to tid next code message r s s'"
  by (simp add: moved_to_def after_tick_def)

lemma transition_tick_moved:
  assumes "constraints_ok s" and "r \<in> set (s_tasks s)" "t_id r = tid" and "transitionLegal (t_state r) next"
  shows "moved_to tid next code message r s
    (insertTaskEvent tid (transitionEventLevel next) code message None (s_now s + int dt)
      ((after_tick dt rest s)\<lparr>s_tasks :=
         fst (queryTransitionTask next (s_now s + int dt) tid (t_state r) (s_tasks s))\<rparr>))"
  using transition_body_moved [of "after_tick dt rest s" r] assms by simp

lemma queryTaskState_row:
  "distinct (map t_id (s_tasks s)) \<Longrightarrow> r \<in> set (s_tasks s) \<Longrightarrow> queryTaskState (t_id r) (s_tasks s) = Some (t_state r)"
  by (simp add: queryTaskState_def queryGetTask_def sql_find_distinct)

lemma queryTaskState_None: "queryTaskState tid rows = None \<longleftrightarrow> tid \<notin> t_id ` set rows"
  by (auto simp: queryTaskState_def queryGetTask_def sql_find_None_iff)

lemma moved_to_hooked [simp]:
  "moved_to tid next code message r s (s'\<lparr>s_hooked := h\<rparr>) = moved_to tid next code message r s s'"
  by (simp add: moved_to_def cong: if_cong)

text \<open>
  C32. A transition whose database call works answers on every branch as the caller expects: an unknown id
  is not found, an edge outside the table is refused, and both leave every table as it was; a legal edge
  moves exactly that row to the new state, drops the admission mark, stamps the time, appends exactly one
  event at the level of the target state, and runs the completion hook exactly when the target is
  completed and a hook is installed.
\<close>

theorem Transition_correct:
  assumes "s_sched s = (FaultNone, dt) # rest" and "constraints_ok s" and "fresh_event_id s"
  shows "case run_state (Transition tid next code message) s of (res, s') \<Rightarrow>
    (tid \<notin> t_id ` set (s_tasks s) \<longrightarrow> res = Inl SErrNotFound \<and> s' = after_tick dt rest s) \<and>
    (\<forall>r \<in> set (s_tasks s). t_id r = tid \<longrightarrow>
       (if transitionLegal (t_state r) next
        then res = Inr () \<and> moved_to tid next code message r s s' \<and>
          s_hooked s' = s_hooked s @ (if next = StateCompleted \<and> s_hook s then [tid] else [])
        else res = Inl SErrIllegalTransition \<and> s' = after_tick dt rest s))"
proof -
  have ids: "distinct (map t_id (s_tasks s))"
    using assms(2) by (rule constraints_ok_ids)
  have missing: "run_state (Transition tid next code message) s = (Inl SErrNotFound, after_tick dt rest s)"
    if "tid \<notin> t_id ` set (s_tasks s)"
    using that by (simp add: Transition_run [OF assms] Let_def queryTaskState_None [THEN iffD2])
  have found: "run_state (Transition tid next code message) s = (res, s') \<Longrightarrow>
      (if transitionLegal (t_state r) next
       then res = Inr () \<and> moved_to tid next code message r s s' \<and>
         s_hooked s' = s_hooked s @ (if next = StateCompleted \<and> s_hook s then [tid] else [])
       else res = Inl SErrIllegalTransition \<and> s' = after_tick dt rest s)"
    if r: "r \<in> set (s_tasks s)" "t_id r = tid" for r res s'
    using queryTaskState_row [OF ids r(1)] transition_tick_moved [OF assms(2) r] r(2)
    by (auto simp: Transition_run [OF assms] Let_def split: if_splits)
  show ?thesis
    using missing found by (auto split: prod.split)
qed

text \<open>A concrete row and a concrete store, the inputs of the witnesses.\<close>

definition demo_task :: "string \<Rightarrow> task_state \<Rightarrow> task" where
  "demo_task tid st = \<lparr>t_id = tid, t_engine = ''aria2'', t_engine_ref = None, t_source_kind = ''uri'',
     t_source_uri = Some ''http://h/f'', t_source_display_uri = None, t_name = ''f'', t_infohash_v1 = None,
     t_infohash_v2 = None, t_state = st, t_error_code = None, t_error_message = None,
     t_destination = ''/data'', t_content_path = None, t_category_id = None, t_total_bytes = Some 10,
     t_completed_bytes = 0, t_uploaded_bytes = 0, t_download_rate = 0, t_upload_rate = 0,
     t_eta_seconds = None, t_sequential = 0, t_queue_position = None, t_select_files = None,
     t_dl_limit = 0, t_ul_limit = 0, t_ratio_limit = None, t_seeding_time_limit = None,
     t_unzip_progress = None, t_admission_pending = 0, t_added_at = 1, t_started_at = None,
     t_completed_at = None, t_created_at = 1, t_updated_at = 1\<rparr>"

definition demo_store :: "task list \<Rightarrow> (db_fault \<times> nat) list \<Rightarrow> store" where
  "demo_store rows sched = \<lparr>s_tasks = rows, s_events = [], s_files = [], s_trackers = [], s_now = 100,
     s_sched = sched, s_ulid = (\<lambda>n. replicate n (CHR ''x'')), s_nid = 0, s_hook = True, s_hooked = []\<rparr>"

lemmas demo_simps = demo_task_def demo_store_def constraints_ok_def live_keys_def engine_handle_def
  List.map_filter_simps fresh_event_id_def

lemma demo_store_fields:
  "s_tasks (demo_store rows sched) = rows" "s_hooked (demo_store rows sched) = []"
  "s_events (demo_store rows sched) = []" "s_sched (demo_store rows sched) = sched"
  by (simp_all add: demo_store_def)

theorem Transition_correct_witness:
  "s_events (snd (run_state (Transition ''t1'' StateCompleted ''c'' ''m'')
     (demo_store [demo_task ''t1'' StateDownloading] [(FaultNone, 5)]))) \<noteq> [] \<and>
   s_hooked (snd (run_state (Transition ''t1'' StateCompleted ''c'' ''m'')
     (demo_store [demo_task ''t1'' StateDownloading] [(FaultNone, 5)]))) = [''t1'']"
  using Transition_correct [of "demo_store [demo_task ''t1'' StateDownloading] [(FaultNone, 5)]" 5 "[]"
      "''t1''" StateCompleted "''c''" "''m''"]
  by (simp add: demo_simps case_prod_beta transitionLegal_def moved_to_def universalTransitionTargets_def)

text \<open>
  C33. A transition is atomic under every fault of the database. Whatever happens to the call, either the
  rows, the log and the hook are as before and the caller is told of a failure, or exactly one legal move
  with its event is committed. A caller that is told of success can rely on the move; a caller that is
  told of a database failure may find it committed, and then the completion hook has not run.
\<close>

theorem Transition_atomic:
  assumes "constraints_ok s"
  shows "case run_state (Transition tid next code message) s of (res, s') \<Rightarrow>
    (res \<noteq> Inr () \<and> s_tasks s' = s_tasks s \<and> s_events s' = s_events s \<and> s_hooked s' = s_hooked s) \<or>
    ((\<exists>r. moved_to tid next code message r s s') \<and>
       (res = Inr () \<and> s_hooked s' = s_hooked s @ (if next = StateCompleted \<and> s_hook s then [tid] else []) \<or>
        res = Inl SErrDB \<and> s_hooked s' = s_hooked s))"
proof -
  obtain f dt rest where t: "run_state tick s = (f, after_tick dt rest s)"
    by (rule tick_cases)
  show ?thesis
  proof (cases "queryTaskState tid (s_tasks s)")
    case None
    with t show ?thesis
      by (cases f) (simp_all add: Transition_def run_tx_tick [OF t] Let_def)
  next
    case (Some st)
    then obtain r where r: "r \<in> set (s_tasks s)" "t_id r = tid" "t_state r = st"
      by (rule queryTaskState_SomeD)
    show ?thesis
    proof (cases "transitionLegal st next")
      case True
      note moved = transition_tick_moved [OF assms r(1,2), of "next" code message dt rest, unfolded r(3), OF True]
      from Some True show ?thesis
        using transition_affected [OF Some, of "next" "s_now s + int dt"] moved
        by (cases f) (auto simp: Transition_def run_tx_tick [OF t] Let_def case_prod_beta fireCompleted_def
            simp del: snd_sql_update fst_sql_update)
    next
      case False
      with Some t show ?thesis
        by (cases f) (simp_all add: Transition_def run_tx_tick [OF t] Let_def)
    qed
  qed
qed

theorem Transition_atomic_witness:
  "case run_state (Transition ''t1'' StateCompleted ''c'' ''m'')
     (demo_store [demo_task ''t1'' StateDownloading] [(FaultAmbiguous, 5)]) of (res, s') \<Rightarrow>
   res = Inl SErrDB \<and> map t_state (s_tasks s') = [StateCompleted] \<and> s_hooked s' = []"
proof -
  let ?s = "demo_store [demo_task ''t1'' StateDownloading] [(FaultAmbiguous, 5)]"
  have "constraints_ok ?s"
    by (simp add: demo_simps)
  moreover have "map t_state (s_tasks (snd (run_state (Transition ''t1'' StateCompleted ''c'' ''m'') ?s))) =
      [StateCompleted]" "fst (run_state (Transition ''t1'' StateCompleted ''c'' ''m'') ?s) = Inl SErrDB"
    by (simp_all add: Transition_def tx_def tick_def demo_simps transitionLegal_def queryTaskState_def
        queryGetTask_def sql_find_def queryTransitionTask_def sql_update_def insertTaskEvent_def NewID_def)
  ultimately show ?thesis
    using Transition_atomic [of ?s "''t1''" StateCompleted "''c''" "''m''"]
    by (auto simp: case_prod_beta demo_store_fields)
qed

subsection \<open>Compare-and-set writes\<close>

text \<open>
  A hold stamp is a compare-and-set on the state the caller read: whatever the database does, a row
  that is no longer in the expected state keeps its columns, a row in that state gets exactly the code and
  message (or keeps its columns when the call fails), no other row is touched and no event is written.
\<close>

theorem SetErrorCodeIfState_guarded:
  "case run_state (SetErrorCodeIfState tid expected code message) s of (res, s') \<Rightarrow>
     s_events s' = s_events s \<and>
     (s_tasks s' = s_tasks s \<or>
      s_tasks s' = map (\<lambda>r. if t_id r = tid \<and> t_state r = expected \<and>
           \<not> (t_error_code r = nullableText code \<and>
              t_error_message r = nullableText (if code = '''' then '''' else message))
         then r\<lparr>t_error_code := nullableText code,
                t_error_message := nullableText (if code = '''' then '''' else message),
                t_updated_at := s_now s'\<rparr> else r) (s_tasks s))"
proof -
  obtain f dt rest where t: "run_state tick s = (f, after_tick dt rest s)"
    by (rule tick_cases)
  show ?thesis
    by (cases f; simp add: SetErrorCodeIfState_def run_tx_tick [OF t] Let_def case_prod_beta
        querySetTaskErrorCodeIfState_def split: option.split cong: if_cong)
qed

subsection \<open>What the admission pass reads\<close>

lemma group_count:
  "sum_list (map (\<lambda>e. length (filter (\<lambda>r. k r = e) xs)) (remdups (map k xs))) = length xs"
proof -
  have "sum_list (map (\<lambda>e. length (filter (\<lambda>r. k r = e) xs)) (remdups (map k xs))) =
      (\<Sum>e \<in> set (map k xs). card {i. i < length xs \<and> k (xs ! i) = e})"
    by (subst sum_list_distinct_conv_sum_set) (simp_all add: length_filter_conv_card)
  also have "\<dots> = card (\<Union>e \<in> set (map k xs). {i. i < length xs \<and> k (xs ! i) = e})"
    by (rule card_UN_disjoint [symmetric]) auto
  also have "(\<Union>e \<in> set (map k xs). {i. i < length xs \<and> k (xs ! i) = e}) = {..< length xs}"
    by (auto intro!: bexI [OF refl nth_mem])
  finally show ?thesis by simp
qed

lemma map_of_group:
  "map_of (map (\<lambda>e. (e, g e)) (remdups ks)) e = (if e \<in> set ks then Some (g e) else None)"
  by (simp add: map_of_map_restrict restrict_map_def)

lemma CountActive_total: "sum_list (map snd (queryCountActive rows)) = length (filter counted rows)"
  using group_count [of t_engine "filter counted rows"]
  by (simp add: queryCountActive_def o_def del: filter_filter)

lemma CountActive_engine:
  "(case map_of (queryCountActive rows) e of None \<Rightarrow> 0 | Some n \<Rightarrow> n) =
     length (filter (\<lambda>r. counted r \<and> t_engine r = e) rows)"
  unfolding queryCountActive_def map_of_group by (auto simp: filter_empty_conv conj_commute)

text \<open>
  The counts the concurrency limits are checked against are exact: the total is the number of rows
  in a counted state or queued under the pass's ownership mark, the count of an engine is the number of
  those rows on that engine (zero for an engine with none), and seeding rows are in neither.
\<close>

theorem CountActive_correct:
  assumes "s_sched s = (FaultNone, dt) # rest"
  shows "\<exists>c. fst (run_state CountActive s) = Inr c \<and>
    ac_Total c = length (filter counted (s_tasks s)) \<and>
    (\<forall>e. ac_ByEngine c e = length (filter (\<lambda>r. counted r \<and> t_engine r = e) (s_tasks s))) \<and>
    ac_Total c + length (filter (\<lambda>r. t_state r = StateSeeding) (s_tasks s)) \<le> length (s_tasks s)"
proof -
  have "length (filter counted rows) + length (filter (\<lambda>r. t_state r = StateSeeding) rows) \<le> length rows" for rows
    by (induction rows) (auto simp: counted_def countedStates_def)
  then show ?thesis
    by (simp add: CountActive_def run_query_ok [OF assms] Let_def CountActive_total CountActive_engine)
qed

theorem CountActive_correct_witness:
  "\<exists>c. fst (run_state CountActive (demo_store [demo_task ''t1'' StateDownloading, demo_task ''t2'' StateSeeding]
     [(FaultNone, 5)])) = Inr c \<and> ac_Total c = 1"
  using CountActive_correct [of "demo_store [demo_task ''t1'' StateDownloading, demo_task ''t2'' StateSeeding]
     [(FaultNone, 5)]" 5 "[]"]
  by (auto simp: demo_simps counted_def countedStates_def)

end
