(* ===== verification/StoreLists.thy ===== *)
theory StoreLists
  imports StoreProps
begin

section \<open>Ordered collections of the task store\<close>

text \<open>
  The queue order (\<open>ReorderQueue\<close> and \<open>reorderQueueMembers\<close> of \<open>src/internal/store/tasks.go\<close>), the file
  list of a task (\<open>UpsertFiles\<close>, \<open>ListFiles\<close>) and the paged event history (\<open>ListEvents\<close> of
  \<open>src/internal/store/events.go\<close>). The two index loops of the queue moves are shown equal to a structural
  reference function; the positions a reorder writes read back as the order it computed; a file list that
  is stored is the list that is read; and the pages of the event history, walked by their cursors, are the
  whole history once.
\<close>

subsection \<open>Queue moves\<close>

text \<open>One bubbling pass: a selected element overtakes an unselected one directly before it.\<close>

fun bubble :: "('a \<Rightarrow> bool) \<Rightarrow> 'a list \<Rightarrow> 'a list" where
  "bubble sel [] = []"
| "bubble sel [x] = [x]"
| "bubble sel (x # y # ys) = (if sel y \<and> \<not> sel x then y # bubble sel (x # ys) else x # bubble sel (y # ys))"

lemma swap_adjacent: "swap (length pre) (Suc (length pre)) (pre @ x # y # ys) = pre @ y # x # ys"
  by (simp add: swap_def list_update_append nth_append)

lemma move_up_bubble: "move_up sel (Suc (length pre)) (pre @ x # ys) = pre @ bubble sel (x # ys)"
proof (induction ys arbitrary: pre x)
  case Nil
  show ?case by (subst move_up.simps) simp
next
  case (Cons y ys)
  have nth: "(pre @ x # y # ys) ! Suc (length pre) = y" "(pre @ x # y # ys) ! length pre = x"
    by (simp_all add: nth_append)
  have "move_up sel (Suc (length pre)) (pre @ x # y # ys) = move_up sel (Suc (Suc (length pre)))
      (if sel y \<and> \<not> sel x then (pre @ [y]) @ x # ys else (pre @ [x]) @ y # ys)"
    by (subst move_up.simps) (simp add: nth swap_adjacent)
  then show ?case
    using Cons.IH [of "pre @ [y]" x] Cons.IH [of "pre @ [x]" y] by simp
qed

lemma move_down_bubble: "move_down sel (length zs) (zs @ x # post) = rev (bubble sel (x # rev zs)) @ post"
proof (induction zs arbitrary: x post rule: rev_induct)
  case (snoc z zs)
  have nth: "(zs @ z # x # post) ! Suc (length zs) = x" "(zs @ z # x # post) ! length zs = z"
    by (simp_all add: nth_append)
  have "move_down sel (length (zs @ [z])) ((zs @ [z]) @ x # post) = move_down sel (length zs)
      (if sel z \<and> \<not> sel x then zs @ x # z # post else zs @ z # x # post)"
    by (simp add: nth swap_adjacent)
  then show ?case
    using snoc.IH [of x "z # post"] snoc.IH [of z "x # post"] by simp
qed simp

lemma reorder_up: "reorderQueueMembers order sel QueueMoveUp = bubble sel order"
  using move_up_bubble [of sel "[]"] by (cases order) (simp_all add: move_up.simps)

lemma reorder_down: "reorderQueueMembers order sel QueueMoveDown = rev (bubble sel (rev order))"
proof (cases order rule: rev_cases)
  case (snoc zs x)
  then show ?thesis
    using move_down_bubble [of sel zs x "[]"] by simp
qed simp

lemma mset_bubble: "mset (bubble sel xs) = mset xs"
  by (induction sel xs rule: bubble.induct) auto

lemma filter_bubble: "filter sel (bubble sel xs) = filter sel xs \<and>
    filter (\<lambda>x. \<not> sel x) (bubble sel xs) = filter (\<lambda>x. \<not> sel x) xs"
  by (induction sel xs rule: bubble.induct) auto

lemma filter_bubble_rev:
  "filter sel (rev (bubble sel (rev xs))) = filter sel xs"
  "filter (\<lambda>x. \<not> sel x) (rev (bubble sel (rev xs))) = filter (\<lambda>x. \<not> sel x) xs"
  using filter_bubble [of sel "rev xs"] by (simp_all flip: rev_filter)

lemma mset_reorder: "mset (reorderQueueMembers order sel move) = mset order"
  by (cases move) (simp_all add: reorder_up reorder_down mset_bubble stablePartition_def
      del: reorderQueueMembers.simps(3,4))

text \<open>
  A queue move never loses, invents or duplicates a task, keeps the order among the moved tasks and
  the order among the others, and is what its name says: the index loops of up and down are the
  structural bubbling pass and its mirror image, top and bottom put the moved tasks first and last.
\<close>

theorem reorderQueueMembers_correct:
  "mset (reorderQueueMembers order sel move) = mset order \<and>
   filter sel (reorderQueueMembers order sel move) = filter sel order \<and>
   filter (\<lambda>x. \<not> sel x) (reorderQueueMembers order sel move) = filter (\<lambda>x. \<not> sel x) order \<and>
   reorderQueueMembers order sel move = (case move of
      QueueMoveTop \<Rightarrow> filter sel order @ filter (\<lambda>x. \<not> sel x) order
    | QueueMoveBottom \<Rightarrow> filter (\<lambda>x. \<not> sel x) order @ filter sel order
    | QueueMoveUp \<Rightarrow> bubble sel order
    | QueueMoveDown \<Rightarrow> rev (bubble sel (rev order)))"
  using mset_reorder [of order sel move] filter_bubble [of sel order] filter_bubble_rev [of sel order]
  by (cases move) (simp_all add: reorder_up reorder_down stablePartition_def
      del: reorderQueueMembers.simps(3,4))

subsection \<open>The positions a reorder writes\<close>

fun find_pos :: "int \<Rightarrow> 'a list \<Rightarrow> 'a \<Rightarrow> int option" where
  "find_pos p [] x = None"
| "find_pos p (y # ys) x = (if x = y then Some p else find_pos (p + 1) ys x)"

definition set_pos :: "(string \<Rightarrow> int option) \<Rightarrow> int \<Rightarrow> task \<Rightarrow> task" where
  "set_pos g now r = (case g (t_id r) of None \<Rightarrow> r
     | Some p \<Rightarrow> r\<lparr>t_queue_position := Some p, t_updated_at := now\<rparr>)"

lemma t_id_set_pos [simp]: "t_id (set_pos g now r) = t_id r"
  by (simp add: set_pos_def split: option.split)

lemma find_pos_None: "find_pos p xs x = None \<longleftrightarrow> x \<notin> set xs"
  by (induction xs arbitrary: p) auto

lemma find_pos_nth: "distinct xs \<Longrightarrow> k < length xs \<Longrightarrow> find_pos p xs (xs ! k) = Some (p + int k)"
  by (induction xs arbitrary: p k) (auto simp: nth_Cons' all_set_conv_all_nth)

lemma write_positions_map:
  "distinct ids \<Longrightarrow> write_positions p now ids rows = map (set_pos (find_pos p ids) now) rows"
proof (induction ids arbitrary: p rows)
  case Nil
  then show ?case by (simp add: set_pos_def)
next
  case (Cons x xs)
  then have "x \<notin> set xs" by simp
  then have "find_pos q xs x = None" for q
    by (simp add: find_pos_None)
  then show ?case
    using Cons by (auto simp: querySetQueuePosition_def set_pos_def split: option.split)
qed

lemma members_set: "set (queryQueueMembers rows) = t_id ` {r \<in> set rows. t_queue_position r \<noteq> None}"
  by (auto simp: queryQueueMembers_def)

lemma members_distinct: "distinct (map t_id rows) \<Longrightarrow> distinct (queryQueueMembers rows)"
  by (auto simp: queryQueueMembers_def distinct_map filter_empty_conv intro: inj_on_subset)

text \<open>Members whose positions follow a given list are read back in the order of that list.\<close>

lemma members_read_back:
  assumes "distinct (map t_id rows)" and "distinct new"
    and "set new = t_id ` {r \<in> set rows. t_queue_position r \<noteq> None}"
    and "\<And>r. r \<in> set rows \<Longrightarrow> t_id r \<in> set new \<Longrightarrow> t_queue_position r = find_pos p new (t_id r)"
  shows "queryQueueMembers rows = new"
proof -
  let ?key = "\<lambda>r. (the (t_queue_position r), t_id r)"
  let ?mem = "filter (\<lambda>r. t_queue_position r \<noteq> None) rows"
  define row where "row = (\<lambda>i. the (queryGetTask i rows))"
  have row: "row (t_id r) = r" if "r \<in> set rows" for r
    using sql_find_distinct [OF assms(1) that] by (simp add: row_def queryGetTask_def)
  have new: "row i \<in> set ?mem" "t_id (row i) = i" if "i \<in> set new" for i
    using that assms(3) row by auto
  have pos: "t_queue_position (row (new ! k)) = Some (p + int k)" if "k < length new" for k
    using that new assms(4) [of "row (new ! k)"] find_pos_nth [OF assms(2), of k p] by simp
  have "sorted (map ?key (map row new))"
    by (auto simp: sorted_iff_nth_mono_less pos less_eq_prod_def)
  moreover have "inj_on ?key (set rows)"
    using assms(1) by (auto simp: distinct_map inj_on_def)
  moreover have "set (map row new) = set ?mem"
    using new row assms(3) by (auto simp: image_iff)
  moreover have "distinct (map row new)"
    using new(2) assms(2) by (auto simp: distinct_map inj_on_def) metis
  moreover have "distinct ?mem" "set ?mem \<subseteq> set rows"
    using assms(1) by (auto simp: distinct_map)
  ultimately have "sort_key ?key ?mem = map row new"
    by (intro map_sorted_distinct_set_unique [where f = ?key])
      (auto simp: distinct_map intro!: comp_inj_on elim: inj_on_subset)
  then have "queryQueueMembers rows = map t_id (map row new)"
    by (simp add: queryQueueMembers_def)
  also have "\<dots> = new"
    using new(2) by (simp add: map_idI)
  finally show ?thesis .
qed

lemma member_iff:
  assumes "distinct (map t_id rows)" and "set new = set (queryQueueMembers rows)" and "r \<in> set rows"
  shows "t_id r \<in> set new \<longleftrightarrow> t_queue_position r \<noteq> None"
proof
  assume "t_id r \<in> set new"
  then obtain x where "x \<in> set rows" "t_queue_position x \<noteq> None" "t_id x = t_id r"
    by (auto simp: assms(2) members_set)
  then show "t_queue_position r \<noteq> None"
    using same_id_same_row [OF assms(1,3)] by blast
qed (use assms(2,3) in \<open>auto simp: members_set\<close>)

lemma t_queue_position_set_pos:
  "t_queue_position (set_pos (find_pos p new) now r) =
     (if t_id r \<in> set new then find_pos p new (t_id r) else t_queue_position r)"
  using find_pos_None [of p new "t_id r"] by (auto simp: set_pos_def split: option.split)

lemma set_pos_outside: "t_id r \<notin> set new \<Longrightarrow> set_pos (find_pos p new) now r = r"
  using find_pos_None [of p new "t_id r"] by (simp add: set_pos_def)

lemma set_pos_member:
  assumes "distinct (map t_id rows)" and "set new = set (queryQueueMembers rows)" and "r \<in> set rows"
  shows "t_queue_position (set_pos (find_pos p new) now r) = None \<longleftrightarrow> t_queue_position r = None"
  using member_iff [OF assms] find_pos_None [of p new "t_id r"] by (auto simp: t_queue_position_set_pos)

lemma write_positions_read_back:
  assumes "distinct (map t_id rows)" and "mset new = mset (queryQueueMembers rows)"
  shows "queryQueueMembers (write_positions p now new rows) = new"
proof -
  have new: "distinct new" "set new = set (queryQueueMembers rows)"
    using assms(2) members_distinct [OF assms(1)] mset_eq_imp_distinct_iff mset_eq_setD by blast+
  have ids: "map t_id (map (set_pos (find_pos p new) now) rows) = map t_id rows"
    by simp
  have "{r \<in> set (map (set_pos (find_pos p new) now) rows). t_queue_position r \<noteq> None} =
      set_pos (find_pos p new) now ` {r \<in> set rows. t_queue_position r \<noteq> None}"
    unfolding set_map Compr_image_eq
    by (intro arg_cong [where f = "image _"] Collect_cong conj_cong refl arg_cong [where f = Not]
        set_pos_member [OF assms(1) new(2)])
  then have members: "set new =
      t_id ` {r \<in> set (map (set_pos (find_pos p new) now) rows). t_queue_position r \<noteq> None}"
    by (simp only: image_image t_id_set_pos new(2) members_set)
  have pos: "t_queue_position r = find_pos p new (t_id r)"
    if "r \<in> set (map (set_pos (find_pos p new) now) rows)" "t_id r \<in> set new" for r
    using that by (auto simp: t_queue_position_set_pos)
  show ?thesis
    unfolding write_positions_map [OF new(1)]
    by (rule members_read_back [OF _ new(1) members pos]) (simp_all add: o_def assms(1))
qed

lemma constraints_ok_positions:
  assumes "constraints_ok s" and "distinct new"
  shows "constraints_ok (s\<lparr>s_tasks := write_positions p now new (s_tasks s)\<rparr>)"
  unfolding write_positions_map [OF assms(2)]
  by (rule constraints_ok_rows [OF assms(1)]) (auto simp: set_pos_def split: option.split)

text \<open>
  A successful queue reorder is read back as the order it computed: afterwards the queue, read by
  position, is exactly the reordered member list, the positions are dense from one in that order, no row
  outside the queue is touched, and the answer is the requested ids that are not in the queue.
\<close>

theorem ReorderQueue_correct:
  assumes "s_sched s = (FaultNone, dt) # rest" and "constraints_ok s"
  shows "\<exists>s'. run_state (ReorderQueue ids move) s =
      (Inr (filter (\<lambda>x. x \<notin> set (queryQueueMembers (s_tasks s))) ids), s') \<and>
    queryQueueMembers (s_tasks s') =
      reorderQueueMembers (queryQueueMembers (s_tasks s)) (\<lambda>x. x \<in> set ids) move \<and>
    (\<forall>k < length (queryQueueMembers (s_tasks s')). \<forall>r \<in> set (s_tasks s').
       t_id r = queryQueueMembers (s_tasks s') ! k \<longrightarrow> t_queue_position r = Some (int k + 1)) \<and>
    filter (\<lambda>r. t_queue_position r = None) (s_tasks s') = filter (\<lambda>r. t_queue_position r = None) (s_tasks s)"
proof -
  let ?old = "queryQueueMembers (s_tasks s)"
  let ?new = "reorderQueueMembers ?old (\<lambda>x. x \<in> set ids) move"
  let ?now = "s_now s + int dt"
  let ?rows = "write_positions 1 ?now ?new (s_tasks s)"
  have ids: "distinct (map t_id (s_tasks s))"
    using assms(2) by (rule constraints_ok_ids)
  have new: "distinct ?new" "set ?new = set ?old"
    using mset_reorder [of ?old] members_distinct [OF ids]
    by (metis mset_eq_imp_distinct_iff) (metis mset_reorder set_mset_mset)
  have result: "run_state (ReorderQueue ids move) s =
      (Inr (filter (\<lambda>x. x \<notin> set ?old) ids), (after_tick dt rest s)\<lparr>s_tasks := ?rows\<rparr>)"
    using constraints_ok_positions [of "after_tick dt rest s" ?new] assms(2) new(1)
    by (simp add: ReorderQueue_def run_tx_ok [OF assms(1)] Let_def)
  have read: "queryQueueMembers ?rows = ?new"
    by (rule write_positions_read_back [OF ids]) (rule mset_reorder)
  have pos: "t_queue_position r = Some (int k + 1)"
    if "k < length ?new" "r \<in> set ?rows" "t_id r = ?new ! k" for k r
    using that find_pos_nth [OF new(1) that(1), of 1]
    by (auto simp: write_positions_map [OF new(1)] set_pos_def split: option.splits)
  note mem = member_iff [OF ids new(2)]
  have "filter (\<lambda>r. t_queue_position r = None) ?rows = map (set_pos (find_pos 1 ?new) ?now)
      (filter (\<lambda>r. t_queue_position r = None) (s_tasks s))"
    unfolding write_positions_map [OF new(1)] filter_map o_def
    by (rule arg_cong [OF filter_cong [OF refl]]) (rule set_pos_member [OF ids new(2)])
  also have "\<dots> = filter (\<lambda>r. t_queue_position r = None) (s_tasks s)"
    by (rule map_idI) (use mem in \<open>auto intro!: set_pos_outside\<close>)
  finally have frame: "filter (\<lambda>r. t_queue_position r = None) ?rows =
      filter (\<lambda>r. t_queue_position r = None) (s_tasks s)" .
  show ?thesis
    unfolding result using read pos frame by simp
qed

theorem ReorderQueue_correct_witness:
  "queryQueueMembers (s_tasks (snd (run_state (ReorderQueue [''b'', ''x''] QueueMoveUp)
     (demo_store [(demo_task ''a'' StateQueued)\<lparr>t_queue_position := Some 4\<rparr>,
                  (demo_task ''b'' StateQueued)\<lparr>t_queue_position := Some 7\<rparr>] [(FaultNone, 5)])))) = [''b'', ''a'']"
proof -
  let ?s = "demo_store [(demo_task ''a'' StateQueued)\<lparr>t_queue_position := Some 4\<rparr>,
                  (demo_task ''b'' StateQueued)\<lparr>t_queue_position := Some 7\<rparr>] [(FaultNone, 5)]"
  have "queryQueueMembers (s_tasks ?s) = [''a'', ''b'']"
    by (simp add: queryQueueMembers_def demo_store_def demo_task_def)
  moreover have "bubble (\<lambda>x. x \<in> set [''b'', ''x'']) [''a'', ''b''] = [''b'', ''a'']"
    by simp
  ultimately show ?thesis
    using ReorderQueue_correct [of ?s 5 "[]" "[''b'', ''x'']" QueueMoveUp]
    by (auto simp: demo_simps reorder_up simp del: reorderQueueMembers.simps)
qed

subsection \<open>The file list of a task\<close>

text \<open>The columns of a file row that its engine listing determines.\<close>

definition file_columns :: "task_file \<Rightarrow> int \<times> string \<times> int \<times> int \<times> int \<times> int option" where
  "file_columns f = (tf_file_index f, tf_path f, tf_size_bytes f, tf_completed_bytes f, tf_selected f, tf_priority f)"

definition files_of :: "string \<Rightarrow> task_file list \<Rightarrow> task_file list" where
  "files_of tid fs = filter (\<lambda>f. tf_task_id f = tid) fs"

text \<open>The file table as a map from index to columns, the view a caller has of one task's files.\<close>

definition file_map :: "string \<Rightarrow> task_file list \<Rightarrow> int \<Rightarrow> (int \<times> string \<times> int \<times> int \<times> int \<times> int option) option" where
  "file_map tid fs i = map_option file_columns (List.find (\<lambda>f. tf_task_id f = tid \<and> tf_file_index f = i) fs)"

abbreviation same_file :: "string \<Rightarrow> int \<Rightarrow> task_file \<Rightarrow> bool" where
  "same_file tid i f \<equiv> tf_task_id f = tid \<and> tf_file_index f = i"

lemma file_map_Cons:
  "file_map tid (f # fs) i = (if same_file tid i f then Some (file_columns f) else file_map tid fs i)"
  by (simp add: file_map_def)

lemma file_map_Nil [simp]: "file_map tid [] i = None"
  by (simp add: file_map_def)

lemma file_map_None: "file_map tid fs i = None \<longleftrightarrow> \<not> list_ex (same_file tid i) fs"
  by (induction fs) (auto simp: file_map_Cons)

lemma file_map_append:
  "file_map tid (fs @ gs) i = (case file_map tid fs i of None \<Rightarrow> file_map tid gs i | Some c \<Rightarrow> Some c)"
  by (induction fs) (auto simp: file_map_Cons)

lemma file_map_update:
  assumes "\<And>x. same_file tid j x \<Longrightarrow> tf_task_id (g x) = tid \<and> tf_file_index (g x) = j \<and> file_columns (g x) = c"
  shows "file_map tid (map (\<lambda>x. if same_file tid j x then g x else x) fs) i =
    (if i = j \<and> list_ex (same_file tid j) fs then Some c else file_map tid fs i)"
  using assms by (induction fs) (auto simp: file_map_Cons)

lemma file_map_upsert:
  "file_map tid (s_files (queryUpsertTaskFile tid f now s)) =
     (file_map tid (s_files s))(tf_file_index f \<mapsto> file_columns f)"
proof (rule ext)
  fix i
  let ?c = "same_file tid (tf_file_index f)"
  have "file_map tid (map (\<lambda>x. if ?c x then x\<lparr>tf_path := tf_path f, tf_size_bytes := tf_size_bytes f,
           tf_completed_bytes := tf_completed_bytes f, tf_selected := tf_selected f,
           tf_priority := tf_priority f, tf_updated_at := now\<rparr> else x) (s_files s)) i =
      (if i = tf_file_index f \<and> list_ex ?c (s_files s) then Some (file_columns f) else file_map tid (s_files s) i)"
    by (rule file_map_update) (simp add: file_columns_def)
  moreover have "file_map tid (s_files s @ [f\<lparr>tf_id := fid, tf_task_id := tid,
        tf_created_at := now, tf_updated_at := now\<rparr>]) i =
      (if i = tf_file_index f then Some (file_columns f) else file_map tid (s_files s) i)"
    if "\<not> list_ex ?c (s_files s)" for fid
    using that file_map_None [of tid "s_files s" "tf_file_index f"]
    by (auto simp: file_map_append file_map_Cons file_columns_def split: option.split)
  ultimately show "file_map tid (s_files (queryUpsertTaskFile tid f now s)) i =
      ((file_map tid (s_files s))(tf_file_index f \<mapsto> file_columns f)) i"
    by (cases "i = tf_file_index f"; cases "list_ex ?c (s_files s)")
      (simp_all add: queryUpsertTaskFile_def NewID_def Let_def)
qed

lemma file_map_upserts:
  "file_map tid (s_files (fold (\<lambda>file s'. queryUpsertTaskFile tid file now s') files s)) =
     file_map tid (s_files s) ++ map_of (rev (map (\<lambda>f. (tf_file_index f, file_columns f)) files))"
  by (induction files arbitrary: s) (auto simp: file_map_upsert)

lemma file_map_filter_unlisted:
  "file_map tid (filter (\<lambda>f. tf_task_id f = tid \<longrightarrow> tf_file_index f \<in> I) fs) i =
     (if i \<in> I then file_map tid fs i else None)"
  by (induction fs) (auto simp: file_map_Cons)

lemma file_map_stored:
  assumes "run_state (UpsertFiles tid files) s = (Inr (), s')"
  shows "file_map tid (s_files s') = map_of (rev (map (\<lambda>f. (tf_file_index f, file_columns f)) files)) \<and>
    constraints_ok s'"
proof -
  obtain f dt rest where t: "run_state tick s = (f, after_tick dt rest s)"
    by (rule tick_cases)
  let ?fold = "fold (\<lambda>file s'. queryUpsertTaskFile tid file (s_now s + int dt) s') files (after_tick dt rest s)"
  let ?listed = "map_of (rev (map (\<lambda>f. (tf_file_index f, file_columns f)) files))"
  have stored: "s_files s' = fst (queryDeleteUnlistedTaskFiles tid (fileIndices files) (s_files ?fold))"
    and ok: "constraints_ok s'"
    using assms by (auto simp: UpsertFiles_def run_tx_tick [OF t] Let_def split: if_splits)
  have listed: "set (fileIndices files) = dom ?listed"
    by (auto simp: dom_map_of_conv_image_fst fileIndices_def image_iff)
  have del: "file_map tid (fst (queryDeleteUnlistedTaskFiles tid (fileIndices files) (s_files ?fold))) i =
      (if i \<in> set (fileIndices files) then (file_map tid (s_files s) ++ ?listed) i else None)" for i
    by (simp add: queryDeleteUnlistedTaskFiles_def sql_delete_def file_map_filter_unlisted file_map_upserts)
  have absorb: "(if i \<in> dom g then (h ++ g) i else None) = g i" for i g and h :: "int \<Rightarrow> 'x option"
    by (auto simp: map_add_def split: option.split)
  have "file_map tid (s_files s') i = ?listed i" for i
    unfolding stored del listed by (rule absorb)
  with ok show ?thesis by auto
qed

text \<open>A table whose (task, index) pairs are distinct is determined by its map.\<close>

lemma file_map_set:
  assumes "distinct (map (\<lambda>f. (tf_task_id f, tf_file_index f)) fs)"
  shows "file_map tid fs i = Some c \<longleftrightarrow> (\<exists>f \<in> set (files_of tid fs). tf_file_index f = i \<and> file_columns f = c)"
  using assms by (induction fs) (auto simp: file_map_Cons files_of_def image_iff)

lemma fst_file_columns [simp]: "fst (file_columns f) = tf_file_index f"
  by (simp add: file_columns_def)

text \<open>
  Storing a task's file list and reading it back gives the list: whatever the table held before,
  after a successful \<open>UpsertFiles\<close> a successful \<open>ListFiles\<close> returns exactly the given files, each with its
  path, sizes, selection and priority, in ascending index order; rows of files the engine no longer
  lists are gone.
\<close>

theorem files_roundtrip:
  assumes "run_state (UpsertFiles tid files) s = (Inr (), s')"
    and "distinct (map tf_file_index files)"
    and "run_state (ListFiles tid) s' = (Inr listed, s'')"
  shows "map file_columns listed = sort_key fst (map file_columns files)"
proof -
  have m: "file_map tid (s_files s') = map_of (rev (map (\<lambda>f. (tf_file_index f, file_columns f)) files))"
    and "constraints_ok s'"
    using file_map_stored [OF assms(1)] by simp_all
  then have d: "distinct (map (\<lambda>f. (tf_task_id f, tf_file_index f)) (s_files s'))"
    by (simp add: constraints_ok_def)
  obtain f dt rest where t: "run_state tick s' = (f, after_tick dt rest s')"
    by (rule tick_cases)
  have listed: "listed = sort_key tf_file_index (files_of tid (s_files s'))"
    using assms(3) by (simp add: ListFiles_def query_def t files_of_def split: if_splits)
  have given: "file_map tid (s_files s') i = Some c \<longleftrightarrow>
      (\<exists>f \<in> set files. tf_file_index f = i \<and> file_columns f = c)" for i c
    unfolding m using assms(2) by (subst map_of_eq_Some_iff) (auto simp: o_def rev_map [symmetric])
  have "(\<exists>f \<in> set (files_of tid (s_files s')). file_columns f = c) \<longleftrightarrow> (\<exists>f \<in> set files. file_columns f = c)" for c
    using file_map_set [OF d, of tid "fst c" c] given [of "fst c" c] fst_file_columns by metis
  then have "set (map file_columns listed) = set (map file_columns files)"
    unfolding listed set_map set_sort image_def by (auto simp: eq_commute)
  moreover have "distinct (map fst (map file_columns listed))"
    using d unfolding listed by (auto simp: o_def files_of_def distinct_map inj_on_def)
  moreover have "sorted (map fst (map file_columns listed))"
    by (simp add: listed o_def)
  moreover have "distinct (map fst (sort_key fst (map file_columns files)))"
    using assms(2) mset_eq_imp_distinct_iff [of "map fst (sort_key fst (map file_columns files))"
        "map fst (map file_columns files)"] by (simp add: o_def multiset.map_comp)
  moreover have "inj_on fst (set (map file_columns files))"
    using assms(2) by (auto simp: distinct_map inj_on_def)
  ultimately show ?thesis
    by (intro map_sorted_distinct_set_unique [where f = fst]) simp_all
qed

definition demo_file :: "int \<Rightarrow> string \<Rightarrow> task_file" where
  "demo_file i p = \<lparr>tf_id = '''', tf_task_id = '''', tf_file_index = i, tf_path = p, tf_size_bytes = 4,
     tf_completed_bytes = 1, tf_selected = 1, tf_priority = Some 6, tf_created_at = 0, tf_updated_at = 0\<rparr>"

theorem files_roundtrip_witness:
  "\<exists>s' s'' listed.
     run_state (UpsertFiles ''a'' [demo_file 1 ''y'', demo_file 0 ''x'']) (demo_store [demo_task ''a'' StateQueued] []) = (Inr (), s') \<and>
     run_state (ListFiles ''a'') s' = (Inr listed, s'') \<and>
     map file_columns listed = [file_columns (demo_file 0 ''x''), file_columns (demo_file 1 ''y'')]"
proof -
  let ?s = "demo_store [demo_task ''a'' StateQueued] []"
  let ?fs = "[demo_file 1 ''y'', demo_file 0 ''x'']"
  have run: "fst (run_state (UpsertFiles ''a'' ?fs) ?s) = Inr () \<and>
      s_sched (snd (run_state (UpsertFiles ''a'' ?fs) ?s)) = []"
    by code_simp
  then have up: "run_state (UpsertFiles ''a'' ?fs) ?s = (Inr (), snd (run_state (UpsertFiles ''a'' ?fs) ?s))"
    by (simp add: prod_eq_iff)
  from run obtain listed s'' where li: "run_state (ListFiles ''a'') (snd (run_state (UpsertFiles ''a'' ?fs) ?s)) = (Inr listed, s'')"
    by (simp add: ListFiles_def query_def tick_def)
  have "map file_columns listed = sort_key fst (map file_columns ?fs)"
    by (rule files_roundtrip [OF up _ li]) (simp add: demo_file_def)
  with up li show ?thesis
    by (auto simp: demo_file_def file_columns_def)
qed

subsection \<open>The paged event history\<close>

text \<open>
  A page token is represented by what the codec reads from it: nothing, a text that is no token, or the
  (at, id) pair of the last event of the page that issued it.
\<close>

datatype page_token = NoToken | BadToken string | PageToken int string

definition taskListDefaultLimit :: int where "taskListDefaultLimit = 100"
definition taskListMaxLimit :: int where "taskListMaxLimit = 500"

fun decodeEventCursor :: "page_token \<Rightarrow> store_error + (int \<times> string)" where
  "decodeEventCursor NoToken = Inl SErrStaleCursor"
| "decodeEventCursor (BadToken _) = Inl SErrStaleCursor"
| "decodeEventCursor (PageToken a eid) = (if eid = '''' then Inl SErrStaleCursor else Inr (a, eid))"

definition event_key :: "task_event \<Rightarrow> int \<times> string" where
  "event_key e = (ev_at e, ev_id e)"

definition queryListTaskEvents :: "string \<Rightarrow> nat \<Rightarrow> task_event list \<Rightarrow> task_event list" where
  "queryListTaskEvents tid n evs = take n (rev (sort_key event_key (filter (\<lambda>e. ev_task_id e = tid) evs)))"

definition queryListTaskEventsBefore :: "string \<Rightarrow> int \<times> string \<Rightarrow> nat \<Rightarrow> task_event list \<Rightarrow> task_event list" where
  "queryListTaskEventsBefore tid c n evs = take n (rev (sort_key event_key (filter (\<lambda>e. ev_task_id e = tid \<and>
     (ev_at e < fst c \<or> (ev_at e = fst c \<and> ev_id e < snd c))) evs)))"

definition queryCountTaskEvents :: "string \<Rightarrow> task_event list \<Rightarrow> nat" where
  "queryCountTaskEvents tid evs = length (filter (\<lambda>e. ev_task_id e = tid) evs)"

definition ListEvents :: "string \<Rightarrow> int \<Rightarrow> page_token \<Rightarrow> ('z, task_event list \<times> page_token \<times> nat) store_action" where
  "ListEvents taskID limit0 cursor =
     (let limit = (if limit0 = 0 then taskListDefaultLimit else limit0) in
      if limit < 1 \<or> taskListMaxLimit < limit then ret (Inl SErrInput)
      else case (if cursor = NoToken then Inr (0, '''') else decodeEventCursor cursor) of
          Inl e \<Rightarrow> ret (Inl e)
        | Inr page \<Rightarrow> do {
            t \<leftarrow> query (\<lambda>s. Inr (queryCountTaskEvents taskID (s_events s)));
            case t of Inl e \<Rightarrow> ret (Inl e) | Inr cnt \<Rightarrow> do {
              es \<leftarrow> query (\<lambda>s. Inr (if cursor = NoToken
                 then queryListTaskEvents taskID (nat limit + 1) (s_events s)
                 else queryListTaskEventsBefore taskID page (nat limit + 1) (s_events s)));
              case es of Inl e \<Rightarrow> ret (Inl e) | Inr events \<Rightarrow>
                ret (Inr (if length events \<le> nat limit then (events, NoToken, cnt)
                  else let page_events = take (nat limit) events; l = last page_events in
                    (page_events, PageToken (ev_at l) (ev_id l), cnt)))
            }
          })"

text \<open>A client that follows the tokens until the last page; \<open>None\<close> is a page that failed or no fuel.\<close>

fun walk_events :: "nat \<Rightarrow> string \<Rightarrow> int \<Rightarrow> page_token \<Rightarrow> 'z store_scheme \<Rightarrow> task_event list option" where
  "walk_events 0 tid limit tok s = None"
| "walk_events (Suc n) tid limit tok s = (case run_state (ListEvents tid limit tok) s of
      (Inl _, _) \<Rightarrow> None
    | (Inr (es, tok', _), s') \<Rightarrow> if tok' = NoToken then Some es
        else map_option ((@) es) (walk_events n tid limit tok' s'))"

text \<open>The history of a task, newest first, and the token that stands before its \<open>k\<close>-th event.\<close>

definition history :: "string \<Rightarrow> 'z store_scheme \<Rightarrow> task_event list" where
  "history tid s = rev (sort_key event_key (filter (\<lambda>e. ev_task_id e = tid) (s_events s)))"

definition token_at :: "task_event list \<Rightarrow> nat \<Rightarrow> page_token" where
  "token_at h k = (if k = 0 then NoToken else PageToken (ev_at (h ! (k - 1))) (ev_id (h ! (k - 1))))"

lemma history_descending:
  assumes "distinct (map ev_id (s_events s))"
  shows "sorted_wrt (\<lambda>a b. event_key b < event_key a) (history tid s)"
proof -
  have "distinct (map event_key (filter (\<lambda>e. ev_task_id e = tid) (s_events s)))"
    using assms by (auto simp: event_key_def distinct_map inj_on_def)
  then have "distinct (map event_key (sort_key event_key (filter (\<lambda>e. ev_task_id e = tid) (s_events s))))"
    by (metis mset_eq_imp_distinct_iff mset_map mset_sort)
  then have "sorted_wrt (<) (map event_key (sort_key event_key (filter (\<lambda>e. ev_task_id e = tid) (s_events s))))"
    by (simp add: strict_sorted_iff)
  then show ?thesis
    by (simp add: history_def sorted_wrt_rev sorted_wrt_map)
qed

lemma filter_below_nth:
  assumes "sorted_wrt (\<lambda>a b. f b < f a) xs" and "0 < k" "k \<le> length xs"
  shows "filter (\<lambda>x. f x < (f (xs ! (k - 1)) :: 'k :: linorder)) xs = drop k xs"
proof -
  have "f (xs ! (k - 1)) \<le> f (xs ! i)" if "i < k" for i
    using assms that by (cases "i = k - 1") (auto simp: sorted_wrt_iff_nth_less intro!: less_imp_le)
  then have "filter (\<lambda>x. f x < f (xs ! (k - 1))) (take k xs) = []"
    using assms(3) by (auto simp: filter_empty_conv in_set_conv_nth not_less)
  moreover have "filter (\<lambda>x. f x < f (xs ! (k - 1))) (drop k xs) = drop k xs"
    using assms by (auto simp: filter_id_conv in_set_conv_nth sorted_wrt_iff_nth_less)
  ultimately show ?thesis
    by (metis append_Nil append_take_drop_id filter_append)
qed

lemma before_token:
  assumes "distinct (map ev_id (s_events s))" and "0 < k" "k \<le> length (history tid s)"
    and "l = history tid s ! (k - 1)"
  shows "queryListTaskEventsBefore tid (ev_at l, ev_id l) n (s_events s) = take n (drop k (history tid s))"
proof -
  have key: "ev_at e < ev_at l \<or> (ev_at e = ev_at l \<and> ev_id e < ev_id l) \<longleftrightarrow> event_key e < event_key l" for e
    by (auto simp: event_key_def less_prod_def)
  have "rev (sort_key event_key (filter (\<lambda>e. ev_task_id e = tid \<and>
      (ev_at e < ev_at l \<or> (ev_at e = ev_at l \<and> ev_id e < ev_id l))) (s_events s))) =
      filter (\<lambda>e. event_key e < event_key l) (history tid s)"
    unfolding key history_def by (simp add: filter_sort flip: rev_filter)
  then show ?thesis
    using filter_below_nth [OF history_descending [OF assms(1)] assms(2,3)] assms(4)
    by (simp add: queryListTaskEventsBefore_def)
qed

lemma ListEvents_page:
  assumes "distinct (map ev_id (s_events s))" and "s_sched s = []" and "1 \<le> limit" "limit \<le> taskListMaxLimit"
    and "\<forall>e \<in> set (s_events s). ev_id e \<noteq> ''''" and "k \<le> length (history tid s)"
  shows "run_state (ListEvents tid limit (token_at (history tid s) k)) s =
    (Inr (take (nat limit) (drop k (history tid s)),
      if length (history tid s) - k \<le> nat limit then NoToken else token_at (history tid s) (k + nat limit),
      length (filter (\<lambda>e. ev_task_id e = tid) (s_events s))), s)"
proof -
  let ?h = "history tid s"
  have q: "run_state (query f) s = (f s, s)" for f :: "'a store_scheme \<Rightarrow> store_error + 'x"
    using assms(2) by (simp add: query_def tick_def)
  have ids: "ev_id (?h ! (k - 1)) \<noteq> ''''" if "0 < k"
  proof -
    have "?h ! (k - 1) \<in> set ?h"
      using that assms(6) by (intro nth_mem) simp
    then show ?thesis
      using assms(5) by (auto simp: history_def)
  qed
  have page: "last (take (nat limit) (drop k ?h)) = ?h ! (k + nat limit - 1)" if "nat limit < length ?h - k"
    using that assms(3) by (subst last_conv_nth) (auto simp: nat_0_iff)
  have first: "queryListTaskEvents tid n (s_events s) = take n ?h" for n
    by (simp add: queryListTaskEvents_def history_def)
  have "(if token_at ?h k = NoToken then queryListTaskEvents tid n (s_events s)
      else queryListTaskEventsBefore tid (ev_at (?h ! (k - 1)), ev_id (?h ! (k - 1))) n (s_events s)) =
      take n (drop k ?h)" for n
    using before_token [OF assms(1) _ assms(6) refl] first by (simp add: token_at_def)
  then show ?thesis
    using assms(3,4) ids page
    by (cases "k = 0") (auto simp: ListEvents_def q token_at_def Let_def queryCountTaskEvents_def min_def nat_0_iff)
qed

lemma walk_events_from:
  assumes "distinct (map ev_id (s_events s))" and "s_sched s = []" and "1 \<le> limit" "limit \<le> taskListMaxLimit"
    and "\<forall>e \<in> set (s_events s). ev_id e \<noteq> ''''" and "k \<le> length (history tid s)"
    and "length (history tid s) - k < n"
  shows "walk_events n tid limit (token_at (history tid s) k) s = Some (drop k (history tid s))"
  using assms(6,7)
proof (induction n arbitrary: k)
  case (Suc n)
  note page = ListEvents_page [OF assms(1-5) Suc.prems(1)]
  show ?case
  proof (cases "length (history tid s) - k \<le> nat limit")
    case True
    then show ?thesis by (simp add: page)
  next
    case False
    then have "walk_events n tid limit (token_at (history tid s) (k + nat limit)) s =
        Some (drop (k + nat limit) (history tid s))"
      using assms(3) Suc.prems by (intro Suc.IH) auto
    moreover have "token_at (history tid s) (k + nat limit) \<noteq> NoToken"
      using assms(3) by (simp add: token_at_def)
    ultimately show ?thesis
      using False by (simp add: page) (metis add.commute append_take_drop_id drop_drop)
  qed
qed simp

text \<open>
  Walking the event pages of a task by their tokens, at any page size in the allowed range, ends and
  returns the whole history of the task, newest first, every event once: the keyset predicate neither
  misses nor repeats an event, also where several share a millisecond.
\<close>

theorem ListEvents_walk_complete:
  assumes "constraints_ok s" and "s_sched s = []" and "1 \<le> limit" and "limit \<le> taskListMaxLimit"
    and "\<forall>e \<in> set (s_events s). ev_id e \<noteq> ''''"
  shows "walk_events (Suc (length (s_events s))) tid limit NoToken s =
    Some (rev (sort_key event_key (filter (\<lambda>e. ev_task_id e = tid) (s_events s))))"
proof -
  have "distinct (map ev_id (s_events s))"
    using assms(1) by (simp add: constraints_ok_def)
  moreover have "length (history tid s) < Suc (length (s_events s))"
    by (simp add: history_def less_Suc_eq_le length_filter_le)
  ultimately show ?thesis
    using walk_events_from [of s limit 0 tid "Suc (length (s_events s))"] assms(2-5)
    by (simp add: token_at_def history_def)
qed

definition demo_event :: "string \<Rightarrow> int \<Rightarrow> task_event" where
  "demo_event eid a = \<lparr>ev_id = eid, ev_task_id = ''a'', ev_at = a, ev_level = ''info'', ev_code = ''c'',
     ev_message = ''m'', ev_detail = None, ev_created_at = a, ev_updated_at = a\<rparr>"

theorem ListEvents_walk_complete_witness:
  "map_option (map ev_id) (walk_events 4 ''a'' 1 NoToken
     ((demo_store [demo_task ''a'' StateQueued] [])
       \<lparr>s_events := [demo_event ''e2'' 7, demo_event ''e1'' 7, demo_event ''e3'' 9]\<rparr>)) =
   Some [''e3'', ''e2'', ''e1'']"
proof -
  let ?s = "(demo_store [demo_task ''a'' StateQueued] [])
       \<lparr>s_events := [demo_event ''e2'' 7, demo_event ''e1'' 7, demo_event ''e3'' 9]\<rparr>"
  have ok: "constraints_ok ?s" "s_sched ?s = []" "(1::int) \<le> 1" "1 \<le> taskListMaxLimit"
      "\<forall>e \<in> set (s_events ?s). ev_id e \<noteq> ''''" "Suc (length (s_events ?s)) = 4"
    by code_simp+
  have ids: "map ev_id (rev (sort_key event_key (filter (\<lambda>e. ev_task_id e = ''a'') (s_events ?s)))) =
      [''e3'', ''e2'', ''e1'']"
    by code_simp
  have "walk_events 4 ''a'' 1 NoToken ?s =
      Some (rev (sort_key event_key (filter (\<lambda>e. ev_task_id e = ''a'') (s_events ?s))))"
    using ListEvents_walk_complete [OF ok(1-5), of "''a''"] unfolding ok(6) .
  then show ?thesis
    by (simp only: option.map ids)
qed

subsection \<open>The set of tasks the schedule parked\<close>

text \<open>The newest membership event decides; an event with the greatest (at, id) is the newest.\<close>

lemma insort_key_snoc: "f x \<le> f y \<Longrightarrow> insort_key f x (zs @ [y]) = insort_key f x zs @ [y]"
  by (induction zs) auto

lemma sort_key_snoc_greatest:
  "(\<And>x. x \<in> set xs \<Longrightarrow> f x < (f y :: 'k :: linorder)) \<Longrightarrow> sort_key f (xs @ [y]) = sort_key f xs @ [y]"
  by (induction xs) (auto simp: insort_key_snoc less_imp_le)

lemma lastParkCode_snoc:
  assumes "ev_task_id e = tid" and "ev_code e \<in> set parkCodes"
    and "\<And>x. x \<in> set evs \<Longrightarrow> ev_task_id x = tid \<Longrightarrow> event_key x < event_key e"
  shows "lastParkCode tid (evs @ [e]) = Some (ev_code e)"
proof -
  have "sort_key event_key (filter (\<lambda>x. ev_task_id x = tid \<and> ev_code x \<in> set parkCodes) evs @ [e]) =
      sort_key event_key (filter (\<lambda>x. ev_task_id x = tid \<and> ev_code x \<in> set parkCodes) evs) @ [e]"
    by (rule sort_key_snoc_greatest) (use assms(3) in auto)
  then show ?thesis
    using assms(1,2) unfolding lastParkCode_def event_key_def [abs_def, symmetric]
    by (auto split: list.split dest: arg_cong [where f = last])
qed

text \<open>The event a call appends when it has the newest key of the task's events.\<close>

definition newest_event :: "string \<Rightarrow> 'z store_scheme \<Rightarrow> 'z store_scheme \<Rightarrow> bool" where
  "newest_event tid s s' \<longleftrightarrow> (\<forall>e \<in> set (s_events s). ev_task_id e = tid \<longrightarrow>
     event_key e < (s_now s', ''evt_'' @ s_ulid s (s_nid s)))"

lemma lastParkCode_inserted:
  assumes "code \<in> set parkCodes" and "s_events s = evs"
    and "\<forall>e \<in> set evs. ev_task_id e = tid \<longrightarrow> event_key e < (now, ''evt_'' @ s_ulid s (s_nid s))"
  shows "lastParkCode tid (s_events (insertTaskEvent tid level code message detail now s)) = Some code"
  using assms by (simp add: insertTaskEvent_def NewID_def lastParkCode_snoc event_key_def)

text \<open>
  A task the download schedule parks is found again by the schedule: after a successful
  \<open>ScheduleParked\<close> the row is paused and, when the new event is the newest of its task, the list of
  schedule-parked tasks contains it; the park is refused for every state outside downloading, checking and
  queued.
\<close>

theorem ScheduleParked_listed:
  assumes "run_state (ScheduleParked tid) s = (Inr (), s')" and "newest_event tid s s'"
  shows "tid \<in> set (queryListScheduleParked s') \<and>
    queryTaskState tid (s_tasks s) \<in> Some ` set scheduleParkSources \<and>
    queryTaskState tid (s_tasks s') = Some StatePaused"
proof -
  obtain f dt rest where t: "run_state tick s = (f, after_tick dt rest s)"
    by (rule tick_cases)
  let ?rows = "fst (queryScheduleParkTask (s_now s + int dt) tid scheduleParkSources (s_tasks s))"
  obtain st where st: "queryTaskState tid (s_tasks s) = Some st" "st \<in> set scheduleParkSources"
    and s': "s' = insertTaskEvent tid ''info'' CodeTaskSchedulePaused ''paused by the download schedule'' None
      (s_now s + int dt) ((after_tick dt rest s)\<lparr>s_tasks := ?rows\<rparr>)" and ok: "constraints_ok s'"
    using assms(1) by (auto simp: ScheduleParked_def run_tx_tick [OF t] Let_def case_prod_beta
        split: if_splits option.splits)
  obtain r where r: "r \<in> set (s_tasks s)" "t_id r = tid" "t_state r = st"
    using st(1) by (rule queryTaskState_SomeD)
  then have r': "r\<lparr>t_state := StatePaused, t_admission_pending := 0, t_updated_at := s_now s + int dt\<rparr> \<in> set (s_tasks s')"
    using st(2) by (auto simp: s' queryScheduleParkTask_def image_iff)
  then have "queryTaskState tid (s_tasks s') = Some StatePaused"
    using queryTaskState_row [OF constraints_ok_ids [OF ok] r'] r(2) by simp
  moreover have "lastParkCode tid (s_events s') = Some CodeTaskSchedulePaused"
    unfolding s' using assms(2)
    by (intro lastParkCode_inserted) (auto simp: parkCodes_def newest_event_def s' after_tick_def)
  moreover from this have "tid \<in> set (queryListScheduleParked s')"
    unfolding queryListScheduleParked_def set_map set_filter
    by (intro rev_image_eqI [of "r\<lparr>t_state := StatePaused, t_admission_pending := 0, t_updated_at := s_now s + int dt\<rparr>"])
      (use r' r(2) in auto)
  ultimately show ?thesis
    using st by simp
qed

theorem ScheduleParked_listed_witness:
  "\<exists>s'. run_state (ScheduleParked ''a'') (demo_store [demo_task ''a'' StateDownloading] []) = (Inr (), s') \<and>
     queryListScheduleParked s' = [''a'']"
proof -
  let ?s = "demo_store [demo_task ''a'' StateDownloading] []"
  let ?s' = "snd (run_state (ScheduleParked ''a'') ?s)"
  have "fst (run_state (ScheduleParked ''a'') ?s) = Inr ()"
    by code_simp
  then have run: "run_state (ScheduleParked ''a'') ?s = (Inr (), ?s')"
    by (simp add: prod_eq_iff)
  have "newest_event ''a'' ?s ?s'"
    by (simp add: newest_event_def demo_store_def)
  then have "''a'' \<in> set (queryListScheduleParked ?s')"
    using ScheduleParked_listed [OF run] by blast
  moreover have "length (queryListScheduleParked ?s') \<le> 1"
    by code_simp
  ultimately have "queryListScheduleParked ?s' = [''a'']"
    by (cases "queryListScheduleParked ?s'") auto
  with run show ?thesis by blast
qed

end
