(* ===== verification/TaskLease.thy ===== *)
theory TaskLease
  imports Prelude
begin

section \<open>The task-operation lease\<close>

text \<open>
  The lease table of \<open>src/internal/engine/registry.go\<close>: \<open>AcquireTaskOp\<close>, \<open>releaseTaskOp\<close>,
  \<open>removeWaiter\<close> and \<open>mintTokenLocked\<close>. Every operation is one critical section under the registry's
  mutex, so it is one step. Entries are heap objects with an identity of their own (\<open>lr_heap\<close>, an address is
  an index), because a release closure keeps the entry it was created with while the table may hold
  another one for the same task. A waiter is its token; \<open>lr_won\<close> is the flag the handoff sets, and
  \<open>lr_ended\<close> are the waiters whose context has ended.

  The inductive relation \<open>lease_step\<close> interleaves any number of goroutines; the invariant gives mutual
  exclusion, no lost wake-up, no stranded lease and an empty table when nobody is left.
\<close>

datatype task_op_mode = TaskOpTry | TaskOpWait

record task_op_entry =
  te_holder :: "nat option"
  te_waiters :: "nat list"

record lease_reg =
  lr_leases :: "string \<Rightarrow> nat option"
  lr_heap :: "task_op_entry list"
  lr_nextToken :: nat
  lr_won :: "nat list"
  lr_ended :: "nat list"

text \<open>The answers of \<open>AcquireTaskOp\<close> at its first critical section.\<close>

datatype acquire_result =
    Acquired nat nat  \<comment> \<open>the entry and the token of the release closure\<close>
  | Busy
  | Parked nat nat

definition NewRegistry :: lease_reg where
  "NewRegistry = \<lparr>lr_leases = (\<lambda>_. None), lr_heap = [], lr_nextToken = 0, lr_won = [], lr_ended = []\<rparr>"

definition entry_at :: "lease_reg \<Rightarrow> nat \<Rightarrow> task_op_entry" where
  "entry_at r a = lr_heap r ! a"

definition set_entry :: "nat \<Rightarrow> task_op_entry \<Rightarrow> lease_reg \<Rightarrow> lease_reg" where
  "set_entry a e r = r\<lparr>lr_heap := (lr_heap r)[a := e]\<rparr>"

definition mintTokenLocked :: "lease_reg \<Rightarrow> nat \<times> lease_reg" where
  "mintTokenLocked r = (Suc (lr_nextToken r), r\<lparr>lr_nextToken := Suc (lr_nextToken r)\<rparr>)"

text \<open>The entry of a task, created lazily.\<close>

definition ensure_entry :: "string \<Rightarrow> lease_reg \<Rightarrow> nat \<times> lease_reg" where
  "ensure_entry tid r = (case lr_leases r tid of
      Some a \<Rightarrow> (a, r)
    | None \<Rightarrow> (length (lr_heap r), r\<lparr>lr_heap := lr_heap r @ [\<lparr>te_holder = None, te_waiters = []\<rparr>],
        lr_leases := (lr_leases r)(tid \<mapsto> length (lr_heap r))\<rparr>))"

definition AcquireTaskOp :: "string \<Rightarrow> task_op_mode \<Rightarrow> lease_reg \<Rightarrow> acquire_result \<times> lease_reg" where
  "AcquireTaskOp tid mode r0 =
     (let (a, r) = ensure_entry tid r0; e = entry_at r a in
      if te_holder e = None then
        (let (t, r1) = mintTokenLocked r in (Acquired a t, set_entry a (e\<lparr>te_holder := Some t\<rparr>) r1))
      else if mode = TaskOpTry then (Busy, r)
      else (let (t, r1) = mintTokenLocked r in
        (Parked a t, set_entry a (e\<lparr>te_waiters := te_waiters e @ [t]\<rparr>) r1)))"

text \<open>The handoff loop: waiters whose context has ended are dropped, the first live one is granted.\<close>

fun handoff :: "nat list \<Rightarrow> nat list \<Rightarrow> (nat \<times> nat list) option" where
  "handoff ended [] = None"
| "handoff ended (w # ws) = (if w \<in> set ended then handoff ended ws else Some (w, ws))"

definition releaseTaskOp :: "string \<Rightarrow> nat \<Rightarrow> nat \<Rightarrow> lease_reg \<Rightarrow> lease_reg" where
  "releaseTaskOp tid a t r =
     (let e = entry_at r a in
      if te_holder e \<noteq> Some t then r
      else case handoff (lr_ended r) (te_waiters e) of
          Some (w, ws) \<Rightarrow> (set_entry a (e\<lparr>te_holder := Some w, te_waiters := ws\<rparr>) r)\<lparr>lr_won := w # lr_won r\<rparr>
        | None \<Rightarrow> (let r1 = set_entry a (e\<lparr>te_holder := None, te_waiters := []\<rparr>) r in
            if lr_leases r1 tid = Some a then r1\<lparr>lr_leases := (lr_leases r1)(tid := None)\<rparr> else r1))"

definition removeWaiter :: "nat \<Rightarrow> nat \<Rightarrow> lease_reg \<Rightarrow> lease_reg" where
  "removeWaiter a t r = (let e = entry_at r a in set_entry a (e\<lparr>te_waiters := remove1 t (te_waiters e)\<rparr>) r)"

text \<open>
  The branch \<open>case <-ctx.Done()\<close> of a parked acquisition: \<open>True\<close> when the handoff had already won and the
  lease is returned, \<open>False\<close> for the answer \<open>ctx.Err()\<close>.
\<close>

definition cancelWait :: "nat \<Rightarrow> nat \<Rightarrow> lease_reg \<Rightarrow> bool \<times> lease_reg" where
  "cancelWait a t r = (if t \<in> set (lr_won r) then (True, r) else (False, removeWaiter a t r))"

subsection \<open>Goroutines\<close>

datatype client =
    Holding string nat   \<comment> \<open>returned from \<open>AcquireTaskOp\<close> with a release closure\<close>
  | Waiting string nat   \<comment> \<open>parked in the \<open>select\<close>\<close>
  | Finished string nat  \<comment> \<open>called its release at least once\<close>

type_synonym lease_sys = "lease_reg \<times> (nat \<Rightarrow> client option)"

inductive lease_step :: "lease_sys \<Rightarrow> lease_sys \<Rightarrow> bool" where
  acquire: "AcquireTaskOp tid mode r = (Acquired a t, r') \<Longrightarrow> lease_step (r, cs) (r', cs(t \<mapsto> Holding tid a))"
| busy: "AcquireTaskOp tid mode r = (Busy, r') \<Longrightarrow> lease_step (r, cs) (r', cs)"
| park: "AcquireTaskOp tid mode r = (Parked a t, r') \<Longrightarrow> lease_step (r, cs) (r', cs(t \<mapsto> Waiting tid a))"
| wake: "cs t = Some (Waiting tid a) \<Longrightarrow> t \<in> set (lr_won r) \<Longrightarrow> lease_step (r, cs) (r, cs(t \<mapsto> Holding tid a))"
| ctx_ends: "cs t = Some (Waiting tid a) \<Longrightarrow> lease_step (r, cs) (r\<lparr>lr_ended := t # lr_ended r\<rparr>, cs)"
| cancel_won: "cs t = Some (Waiting tid a) \<Longrightarrow> t \<in> set (lr_ended r) \<Longrightarrow> cancelWait a t r = (True, r') \<Longrightarrow>
    lease_step (r, cs) (r', cs(t \<mapsto> Holding tid a))"
| cancel_err: "cs t = Some (Waiting tid a) \<Longrightarrow> t \<in> set (lr_ended r) \<Longrightarrow> cancelWait a t r = (False, r') \<Longrightarrow>
    lease_step (r, cs) (r', cs(t := None))"
| release: "cs t = Some (Holding tid a) \<Longrightarrow> lease_step (r, cs) (releaseTaskOp tid a t r, cs(t \<mapsto> Finished tid a))"
| release_again: "cs t = Some (Finished tid a) \<Longrightarrow> lease_step (r, cs) (releaseTaskOp tid a t r, cs)"

definition initial_sys :: lease_sys where
  "initial_sys = (NewRegistry, \<lambda>_. None)"

abbreviation lease_reachable :: "lease_sys \<Rightarrow> bool" where
  "lease_reachable \<equiv> lease_step\<^sup>*\<^sup>* initial_sys"

inductive_cases lease_stepE: "lease_step (r, cs) c'"

subsection \<open>The invariant\<close>

text \<open>A token owns an entry when its goroutine has the lease or has been granted it and not yet woken.\<close>

definition owns :: "lease_reg \<Rightarrow> (nat \<Rightarrow> client option) \<Rightarrow> string \<Rightarrow> nat \<Rightarrow> nat \<Rightarrow> bool" where
  "owns r cs tid a t \<longleftrightarrow> cs t = Some (Holding tid a) \<or> (cs t = Some (Waiting tid a) \<and> t \<in> set (lr_won r))"

fun client_entry :: "client \<Rightarrow> nat" where
  "client_entry (Holding _ a) = a"
| "client_entry (Waiting _ a) = a"
| "client_entry (Finished _ a) = a"

definition table_owned :: "lease_sys \<Rightarrow> bool" where
  "table_owned = (\<lambda>(r, cs). \<forall>tid a. lr_leases r tid = Some a \<longrightarrow>
     a < length (lr_heap r) \<and> (\<exists>t. te_holder (entry_at r a) = Some t \<and> owns r cs tid a t))"

definition unlisted_empty :: "lease_sys \<Rightarrow> bool" where
  "unlisted_empty = (\<lambda>(r, cs). \<forall>a < length (lr_heap r). (\<forall>tid. lr_leases r tid \<noteq> Some a) \<longrightarrow>
     te_holder (entry_at r a) = None \<and> te_waiters (entry_at r a) = [])"

definition owner_holds :: "lease_sys \<Rightarrow> bool" where
  "owner_holds = (\<lambda>(r, cs). \<forall>tid a t. owns r cs tid a t \<longrightarrow>
     lr_leases r tid = Some a \<and> te_holder (entry_at r a) = Some t)"

definition waiters_parked :: "lease_sys \<Rightarrow> bool" where
  "waiters_parked = (\<lambda>(r, cs). \<forall>a < length (lr_heap r). distinct (te_waiters (entry_at r a)) \<and>
     (\<forall>w \<in> set (te_waiters (entry_at r a)). w \<notin> set (lr_won r) \<and>
        (\<exists>tid. cs w = Some (Waiting tid a) \<and> lr_leases r tid = Some a)))"

definition parked_waits :: "lease_sys \<Rightarrow> bool" where
  "parked_waits = (\<lambda>(r, cs). \<forall>t tid a. cs t = Some (Waiting tid a) \<longrightarrow> t \<notin> set (lr_won r) \<longrightarrow>
     t \<in> set (te_waiters (entry_at r a)) \<or> t \<in> set (lr_ended r))"

definition tokens_used :: "lease_sys \<Rightarrow> bool" where
  "tokens_used = (\<lambda>(r, cs). (\<forall>t c. cs t = Some c \<longrightarrow> t \<le> lr_nextToken r \<and> client_entry c < length (lr_heap r)) \<and>
     (\<forall>t \<in> set (lr_won r) \<union> set (lr_ended r). t \<le> lr_nextToken r))"

definition lease_inv :: "lease_sys \<Rightarrow> bool" where
  "lease_inv s \<longleftrightarrow> table_owned s \<and> unlisted_empty s \<and> owner_holds s \<and> waiters_parked s \<and> parked_waits s \<and> tokens_used s"

lemmas lease_inv_defs = table_owned_def unlisted_empty_def owner_holds_def waiters_parked_def
  parked_waits_def tokens_used_def

lemma entry_at_set_entry [simp]:
  "a < length (lr_heap r) \<Longrightarrow> entry_at (set_entry a e r) b = (if b = a then e else entry_at r b)"
  by (simp add: entry_at_def set_entry_def nth_list_update)

lemma set_entry_fields [simp]:
  "lr_leases (set_entry a e r) = lr_leases r" "length (lr_heap (set_entry a e r)) = length (lr_heap r)"
  "lr_nextToken (set_entry a e r) = lr_nextToken r" "lr_won (set_entry a e r) = lr_won r"
  "lr_ended (set_entry a e r) = lr_ended r"
  by (simp_all add: set_entry_def)

lemma entry_at_other_fields [simp]:
  "entry_at (r\<lparr>lr_leases := l\<rparr>) b = entry_at r b" "entry_at (r\<lparr>lr_nextToken := n\<rparr>) b = entry_at r b"
  "entry_at (r\<lparr>lr_won := w\<rparr>) b = entry_at r b" "entry_at (r\<lparr>lr_ended := x\<rparr>) b = entry_at r b"
  by (simp_all add: entry_at_def)

lemma handoff_Some:
  "handoff ended ws = Some (w, ws') \<Longrightarrow> \<exists>pre. ws = pre @ w # ws' \<and> set pre \<subseteq> set ended \<and> w \<notin> set ended"
proof (induction ws)
  case (Cons x xs)
  show ?case
  proof (cases "x \<in> set ended")
    case True
    with Cons obtain pre where "xs = pre @ w # ws'" "set pre \<subseteq> set ended" "w \<notin> set ended"
      by auto
    with True show ?thesis
      by (intro exI [of _ "x # pre"]) simp
  qed (use Cons.prems in \<open>auto intro: exI [of _ "[]"]\<close>)
qed simp

lemma handoff_None: "handoff ended ws = None \<Longrightarrow> set ws \<subseteq> set ended"
  by (induction ws) (auto split: if_splits)

lemma inv_initial: "lease_inv initial_sys"
  by (simp add: lease_inv_def lease_inv_defs initial_sys_def NewRegistry_def owns_def)

lemma inv_listed:
  assumes "lease_inv (r, cs)" and "lr_leases r tid = Some a"
  obtains t where "a < length (lr_heap r)" "te_holder (entry_at r a) = Some t" "owns r cs tid a t"
  using assms unfolding lease_inv_def table_owned_def by auto

lemma owns_unique: "owns r cs tid a t \<Longrightarrow> owns r cs tid' a' t \<Longrightarrow> tid' = tid \<and> a' = a"
  by (auto simp: owns_def)

lemma inv_entry_tid:
  assumes "lease_inv (r, cs)" and "lr_leases r tid = Some a" and "lr_leases r tid' = Some a"
  shows "tid' = tid"
proof -
  obtain t where "te_holder (entry_at r a) = Some t" "owns r cs tid a t"
    using assms(1,2) by (rule inv_listed)
  moreover obtain t' where "te_holder (entry_at r a) = Some t'" "owns r cs tid' a t'"
    using assms(1,3) by (rule inv_listed)
  ultimately show ?thesis
    using owns_unique by auto
qed

lemma inv_owner:
  assumes "lease_inv (r, cs)" and "owns r cs tid a t"
  shows "lr_leases r tid = Some a \<and> te_holder (entry_at r a) = Some t \<and> a < length (lr_heap r)"
proof -
  have "lr_leases r tid = Some a \<and> te_holder (entry_at r a) = Some t"
    using assms by (auto simp: lease_inv_def owner_holds_def)
  moreover from this have "a < length (lr_heap r)"
    using assms(1) by (auto elim: inv_listed)
  ultimately show ?thesis by simp
qed

lemma inv_unlisted:
  "lease_inv (r, cs) \<Longrightarrow> a < length (lr_heap r) \<Longrightarrow> (\<And>tid. lr_leases r tid \<noteq> Some a) \<Longrightarrow>
   te_holder (entry_at r a) = None \<and> te_waiters (entry_at r a) = []"
  by (simp add: lease_inv_def unlisted_empty_def)

lemma inv_waiters:
  assumes "lease_inv (r, cs)" and "a < length (lr_heap r)"
  shows "distinct (te_waiters (entry_at r a))"
    and "w \<in> set (te_waiters (entry_at r a)) \<Longrightarrow>
      w \<notin> set (lr_won r) \<and> (\<exists>tid. cs w = Some (Waiting tid a) \<and> lr_leases r tid = Some a)"
  using assms by (simp_all add: lease_inv_def waiters_parked_def)

lemma inv_parked:
  "lease_inv (r, cs) \<Longrightarrow> cs t = Some (Waiting tid a) \<Longrightarrow> t \<notin> set (lr_won r) \<Longrightarrow>
   t \<in> set (te_waiters (entry_at r a)) \<or> t \<in> set (lr_ended r)"
  by (auto simp: lease_inv_def parked_waits_def)

lemma inv_used:
  assumes "lease_inv (r, cs)"
  shows "cs t = Some c \<Longrightarrow> t \<le> lr_nextToken r" and "cs t = Some c \<Longrightarrow> client_entry c < length (lr_heap r)"
    and "t \<in> set (lr_won r) \<Longrightarrow> t \<le> lr_nextToken r" and "t \<in> set (lr_ended r) \<Longrightarrow> t \<le> lr_nextToken r"
  using assms by (auto simp: lease_inv_def tokens_used_def)

lemma lease_invI:
  assumes "\<And>tid a. lr_leases r tid = Some a \<Longrightarrow>
      a < length (lr_heap r) \<and> (\<exists>t. te_holder (entry_at r a) = Some t \<and> owns r cs tid a t)"
    and "\<And>a. a < length (lr_heap r) \<Longrightarrow> \<forall>tid. lr_leases r tid \<noteq> Some a \<Longrightarrow>
      te_holder (entry_at r a) = None \<and> te_waiters (entry_at r a) = []"
    and "\<And>tid a t. owns r cs tid a t \<Longrightarrow> lr_leases r tid = Some a \<and> te_holder (entry_at r a) = Some t"
    and "\<And>a. a < length (lr_heap r) \<Longrightarrow> distinct (te_waiters (entry_at r a))"
    and "\<And>a w. a < length (lr_heap r) \<Longrightarrow> w \<in> set (te_waiters (entry_at r a)) \<Longrightarrow>
      w \<notin> set (lr_won r) \<and> (\<exists>tid. cs w = Some (Waiting tid a) \<and> lr_leases r tid = Some a)"
    and "\<And>t tid a. cs t = Some (Waiting tid a) \<Longrightarrow> t \<notin> set (lr_won r) \<Longrightarrow>
      t \<in> set (te_waiters (entry_at r a)) \<or> t \<in> set (lr_ended r)"
    and "\<And>t c. cs t = Some c \<Longrightarrow> t \<le> lr_nextToken r \<and> client_entry c < length (lr_heap r)"
    and "\<And>t. t \<in> set (lr_won r) \<or> t \<in> set (lr_ended r) \<Longrightarrow> t \<le> lr_nextToken r"
  shows "lease_inv (r, cs)"
  using assms by (simp add: lease_inv_def lease_inv_defs)

lemma inv_fresh:
  assumes "lease_inv (r, cs)"
  shows "cs (Suc (lr_nextToken r)) = None" "Suc (lr_nextToken r) \<notin> set (lr_won r)"
    "Suc (lr_nextToken r) \<notin> set (lr_ended r)"
proof -
  note used = inv_used [OF assms]
  show "cs (Suc (lr_nextToken r)) = None"
    using used(1) [of "Suc (lr_nextToken r)"] by (cases "cs (Suc (lr_nextToken r))") auto
  show "Suc (lr_nextToken r) \<notin> set (lr_won r)" "Suc (lr_nextToken r) \<notin> set (lr_ended r)"
    using used(3,4) [of "Suc (lr_nextToken r)"] by auto
qed

text \<open>A holder is an owner: the converse, by which a second release finds another token in place.\<close>

lemma inv_holder:
  assumes "lease_inv (r, cs)" and "a < length (lr_heap r)" and "te_holder (entry_at r a) = Some t"
  obtains tid where "lr_leases r tid = Some a" "owns r cs tid a t"
proof -
  have "\<exists>tid. lr_leases r tid = Some a"
    using assms by (force simp: lease_inv_def unlisted_empty_def)
  then obtain tid where "lr_leases r tid = Some a" ..
  moreover from this obtain t' where "te_holder (entry_at r a) = Some t'" "owns r cs tid a t'"
    using assms(1) by (auto elim: inv_listed)
  ultimately show thesis
    using assms(3) that by auto
qed

text \<open>The three answers of an acquisition in a state of the invariant.\<close>

lemma acquire_cases:
  assumes "lease_inv (r, cs)" and "AcquireTaskOp tid mode r = (res, r')"
  obtains
    (free) "lr_leases r tid = None" "res = Acquired (length (lr_heap r)) (Suc (lr_nextToken r))"
      "r' = r\<lparr>lr_heap := lr_heap r @ [\<lparr>te_holder = Some (Suc (lr_nextToken r)), te_waiters = []\<rparr>],
        lr_leases := (lr_leases r)(tid \<mapsto> length (lr_heap r)), lr_nextToken := Suc (lr_nextToken r)\<rparr>"
  | (held) a where "lr_leases r tid = Some a" "mode = TaskOpTry" "res = Busy" "r' = r"
  | (queue) a where "lr_leases r tid = Some a" "mode = TaskOpWait" "res = Parked a (Suc (lr_nextToken r))"
      "r' = set_entry a ((entry_at r a)\<lparr>te_waiters := te_waiters (entry_at r a) @ [Suc (lr_nextToken r)]\<rparr>)
        (r\<lparr>lr_nextToken := Suc (lr_nextToken r)\<rparr>)"
proof (cases "lr_leases r tid")
  case None
  then show thesis
    using assms(2) by (intro free)
      (auto simp: AcquireTaskOp_def ensure_entry_def mintTokenLocked_def set_entry_def entry_at_def)
next
  case (Some a)
  then have "te_holder (entry_at r a) \<noteq> None"
    using assms(1) by (auto simp: lease_inv_def table_owned_def)
  then show thesis
    using assms(2) Some
    by (cases mode) (auto simp: AcquireTaskOp_def ensure_entry_def mintTokenLocked_def Let_def intro: held queue)
qed

lemma inv_free:
  assumes inv: "lease_inv (r, cs)" and free: "lr_leases r tid = None"
  shows "lease_inv (r\<lparr>lr_heap := lr_heap r @ [\<lparr>te_holder = Some (Suc (lr_nextToken r)), te_waiters = []\<rparr>],
      lr_leases := (lr_leases r)(tid \<mapsto> length (lr_heap r)), lr_nextToken := Suc (lr_nextToken r)\<rparr>,
      cs(Suc (lr_nextToken r) \<mapsto> Holding tid (length (lr_heap r))))"
    (is "lease_inv (?r, ?cs)")
proof -
  let ?t = "Suc (lr_nextToken r)" and ?n = "length (lr_heap r)"
  note fresh = inv_fresh [OF inv]
  define r' where "r' = ?r"
  have fields: "lr_leases r' = (lr_leases r)(tid \<mapsto> ?n)" "length (lr_heap r') = Suc ?n" "lr_nextToken r' = ?t"
    "lr_won r' = lr_won r" "lr_ended r' = lr_ended r"
    by (simp_all add: r'_def)
  have ent: "entry_at r' b = (if b < ?n then entry_at r b else \<lparr>te_holder = Some ?t, te_waiters = []\<rparr>)"
    if "b < Suc ?n" for b
    using that by (auto simp: r'_def entry_at_def nth_append)
  have owns: "owns r' ?cs tid' a t \<longleftrightarrow> (if t = ?t then tid' = tid \<and> a = ?n else owns r cs tid' a t)" for tid' a t
    using fresh by (auto simp: owns_def fields)
  have owned: "t \<noteq> ?t \<and> a < ?n \<and> tid' \<noteq> tid" if "owns r cs tid' a t" for tid' a t
    using that fresh free inv_owner [OF inv that] by (auto simp: owns_def)
  have "lease_inv (r', ?cs)"
  proof (rule lease_invI)
    fix tid' a assume a: "lr_leases r' tid' = Some a"
    show "a < length (lr_heap r') \<and> (\<exists>t. te_holder (entry_at r' a) = Some t \<and> owns r' ?cs tid' a t)"
    proof (cases "tid' = tid")
      case True
      with a show ?thesis by (auto simp: fields ent owns)
    next
      case False
      with a obtain t where "a < ?n" "te_holder (entry_at r a) = Some t" "owns r cs tid' a t"
        using inv by (auto simp: fields elim: inv_listed)
      with owned [of tid' a t] show ?thesis
        by (intro conjI exI [of _ t]) (simp_all add: fields ent owns)
    qed
  next
    fix a assume "a < length (lr_heap r')" and no: "\<forall>tid'. lr_leases r' tid' \<noteq> Some a"
    from spec [OF no, of tid] have "a \<noteq> ?n" by (simp add: fields)
    moreover have "lr_leases r tid' \<noteq> Some a" for tid'
      using spec [OF no, of tid'] free by (auto simp: fields split: if_splits)
    ultimately show "te_holder (entry_at r' a) = None \<and> te_waiters (entry_at r' a) = []"
      using inv_unlisted [OF inv, of a] \<open>a < length (lr_heap r')\<close> by (simp add: fields ent)
  next
    fix tid' a t assume "owns r' ?cs tid' a t"
    then show "lr_leases r' tid' = Some a \<and> te_holder (entry_at r' a) = Some t"
      using owned [of tid' a t] inv_owner [OF inv, of tid' a t] by (cases "t = ?t") (simp_all add: fields owns ent)
  next
    fix a assume "a < length (lr_heap r')"
    then show "distinct (te_waiters (entry_at r' a))"
      using inv_waiters(1) [OF inv, of a] by (auto simp: fields ent)
  next
    fix a w assume a: "a < length (lr_heap r')" and "w \<in> set (te_waiters (entry_at r' a))"
    then have "a < ?n" "w \<in> set (te_waiters (entry_at r a))" by (auto simp: fields ent split: if_splits)
    then obtain tid' where "w \<notin> set (lr_won r)" "cs w = Some (Waiting tid' a)" "lr_leases r tid' = Some a"
      using inv_waiters(2) [OF inv] by blast
    with fresh(1) free show "w \<notin> set (lr_won r') \<and> (\<exists>tid. ?cs w = Some (Waiting tid a) \<and> lr_leases r' tid = Some a)"
      by (intro conjI exI [of _ tid']) (auto simp: fields)
  next
    fix t tid' a assume "?cs t = Some (Waiting tid' a)" "t \<notin> set (lr_won r')"
    then show "t \<in> set (te_waiters (entry_at r' a)) \<or> t \<in> set (lr_ended r')"
      using inv_parked [OF inv, of t tid' a] inv_used(2) [OF inv, of t] by (auto simp: fields ent split: if_splits)
  next
    fix t c assume "?cs t = Some c"
    then show "t \<le> lr_nextToken r' \<and> client_entry c < length (lr_heap r')"
      using inv_used(1,2) [OF inv, of t c] by (auto simp: fields split: if_splits)
  qed (use inv_used(3,4) [OF inv] in \<open>auto simp: fields intro: le_SucI\<close>)
  then show ?thesis by (simp add: r'_def)
qed

lemma inv_park:
  assumes inv: "lease_inv (r, cs)" and held: "lr_leases r tid = Some a"
  shows "lease_inv (set_entry a ((entry_at r a)\<lparr>te_waiters := te_waiters (entry_at r a) @ [Suc (lr_nextToken r)]\<rparr>)
        (r\<lparr>lr_nextToken := Suc (lr_nextToken r)\<rparr>), cs(Suc (lr_nextToken r) \<mapsto> Waiting tid a))"
    (is "lease_inv (?r, ?cs)")
proof -
  let ?t = "Suc (lr_nextToken r)"
  note fresh = inv_fresh [OF inv]
  have a: "a < length (lr_heap r)"
    using inv held by (rule inv_listed)
  define r' where "r' = ?r"
  have fields: "lr_leases r' = lr_leases r" "length (lr_heap r') = length (lr_heap r)" "lr_nextToken r' = ?t"
    "lr_won r' = lr_won r" "lr_ended r' = lr_ended r"
    by (simp_all add: r'_def)
  have holder: "te_holder (entry_at r' b) = te_holder (entry_at r b)" for b
    using a by (simp add: r'_def)
  have waiters: "te_waiters (entry_at r' b) = te_waiters (entry_at r b) @ (if b = a then [?t] else [])" for b
    using a by (simp add: r'_def)
  have owns: "owns r' ?cs tid' b t \<longleftrightarrow> owns r cs tid' b t" for tid' b t
    using fresh by (auto simp: owns_def fields)
  have wt: "w \<noteq> ?t" if "b < length (lr_heap r)" "w \<in> set (te_waiters (entry_at r b))" for w b
    using inv_waiters(2) [OF inv that] fresh(1) by auto
  have "lease_inv (r', ?cs)"
  proof (rule lease_invI)
    fix tid' b assume "lr_leases r' tid' = Some b"
    then show "b < length (lr_heap r') \<and> (\<exists>t. te_holder (entry_at r' b) = Some t \<and> owns r' ?cs tid' b t)"
      using inv by (auto simp: fields holder owns elim: inv_listed)
  next
    fix b assume "b < length (lr_heap r')" and no: "\<forall>tid'. lr_leases r' tid' \<noteq> Some b"
    then show "te_holder (entry_at r' b) = None \<and> te_waiters (entry_at r' b) = []"
      using inv_unlisted [OF inv, of b] held by (auto simp: fields holder waiters)
  next
    fix tid' b t assume "owns r' ?cs tid' b t"
    then show "lr_leases r' tid' = Some b \<and> te_holder (entry_at r' b) = Some t"
      using inv_owner [OF inv, of tid' b t] by (simp add: owns fields holder)
  next
    fix b assume "b < length (lr_heap r')"
    then show "distinct (te_waiters (entry_at r' b))"
      using inv_waiters(1) [OF inv, of b] wt [of b] by (auto simp: waiters fields)
  next
    fix b w assume b: "b < length (lr_heap r')" and w: "w \<in> set (te_waiters (entry_at r' b))"
    show "w \<notin> set (lr_won r') \<and> (\<exists>tid. ?cs w = Some (Waiting tid b) \<and> lr_leases r' tid = Some b)"
    proof (cases "w \<in> set (te_waiters (entry_at r b))")
      case True
      then show ?thesis
        using inv_waiters(2) [OF inv, of b w] wt [of b w] b by (auto simp: fields)
    next
      case False
      with w have "b = a" "w = ?t"
        by (auto simp: waiters split: if_splits)
      with fresh(2) held show ?thesis by (auto simp: fields)
    qed
  next
    fix t tid' b assume "?cs t = Some (Waiting tid' b)" "t \<notin> set (lr_won r')"
    then show "t \<in> set (te_waiters (entry_at r' b)) \<or> t \<in> set (lr_ended r')"
      using inv_parked [OF inv, of t tid' b] by (cases "t = ?t") (auto simp: fields waiters)
  next
    fix t c assume "?cs t = Some c"
    then show "t \<le> lr_nextToken r' \<and> client_entry c < length (lr_heap r')"
      using inv_used(1,2) [OF inv, of t c] a by (cases "t = ?t") (auto simp: fields)
  qed (use inv_used(3,4) [OF inv] in \<open>auto simp: fields intro: le_SucI\<close>)
  then show ?thesis by (simp add: r'_def)
qed

lemma inv_wake:
  assumes inv: "lease_inv (r, cs)" and "cs t = Some (Waiting tid a)" "t \<in> set (lr_won r)"
  shows "lease_inv (r, cs(t \<mapsto> Holding tid a))"
proof -
  have owns: "owns r (cs(t \<mapsto> Holding tid a)) tid' b u \<longleftrightarrow> owns r cs tid' b u" for tid' b u
    using assms(2,3) by (auto simp: owns_def)
  show ?thesis
  proof (rule lease_invI)
    fix tid' b assume "lr_leases r tid' = Some b"
    then show "b < length (lr_heap r) \<and> (\<exists>u. te_holder (entry_at r b) = Some u \<and> owns r (cs(t \<mapsto> Holding tid a)) tid' b u)"
      using inv by (auto simp: owns elim: inv_listed)
  next
    fix b w assume "b < length (lr_heap r)" "w \<in> set (te_waiters (entry_at r b))"
    then show "w \<notin> set (lr_won r) \<and> (\<exists>tid'. (cs(t \<mapsto> Holding tid a)) w = Some (Waiting tid' b) \<and> lr_leases r tid' = Some b)"
      using inv_waiters(2) [OF inv, of b w] assms(3) by auto
  next
    fix u tid' b assume "(cs(t \<mapsto> Holding tid a)) u = Some (Waiting tid' b)" "u \<notin> set (lr_won r)"
    then show "u \<in> set (te_waiters (entry_at r b)) \<or> u \<in> set (lr_ended r)"
      using inv_parked [OF inv, of u tid' b] assms(3) by (auto split: if_splits)
  next
    fix u c assume "(cs(t \<mapsto> Holding tid a)) u = Some c"
    then show "u \<le> lr_nextToken r \<and> client_entry c < length (lr_heap r)"
      using inv_used(1,2) [OF inv, of u] inv_used(1,2) [OF inv assms(2)] by (auto split: if_splits)
  qed (use inv_unlisted [OF inv] inv_owner [OF inv] inv_waiters(1) [OF inv] inv_used(3,4) [OF inv] in \<open>auto simp: owns\<close>)
qed

lemma inv_ctx_ends:
  assumes inv: "lease_inv (r, cs)" and "cs t = Some (Waiting tid a)"
  shows "lease_inv (r\<lparr>lr_ended := t # lr_ended r\<rparr>, cs)"
proof -
  have owns: "owns (r\<lparr>lr_ended := t # lr_ended r\<rparr>) cs tid' b u \<longleftrightarrow> owns r cs tid' b u" for tid' b u
    by (simp add: owns_def)
  show ?thesis
  proof (rule lease_invI)
    fix tid' b assume "lr_leases (r\<lparr>lr_ended := t # lr_ended r\<rparr>) tid' = Some b"
    then show "b < length (lr_heap (r\<lparr>lr_ended := t # lr_ended r\<rparr>)) \<and>
        (\<exists>u. te_holder (entry_at (r\<lparr>lr_ended := t # lr_ended r\<rparr>) b) = Some u \<and>
          owns (r\<lparr>lr_ended := t # lr_ended r\<rparr>) cs tid' b u)"
      using inv by (auto simp: owns elim: inv_listed)
  next
    fix u tid' b assume "cs u = Some (Waiting tid' b)" "u \<notin> set (lr_won (r\<lparr>lr_ended := t # lr_ended r\<rparr>))"
    then show "u \<in> set (te_waiters (entry_at (r\<lparr>lr_ended := t # lr_ended r\<rparr>) b)) \<or>
        u \<in> set (lr_ended (r\<lparr>lr_ended := t # lr_ended r\<rparr>))"
      using inv_parked [OF inv, of u tid' b] by auto
  qed (use inv_unlisted [OF inv] inv_owner [OF inv] inv_waiters [OF inv] inv_used [OF inv]
      inv_used(1) [OF inv assms(2)] in \<open>auto simp: owns\<close>)
qed

lemma inv_cancel:
  assumes inv: "lease_inv (r, cs)" and t: "cs t = Some (Waiting tid a)" and "t \<notin> set (lr_won r)"
  shows "lease_inv (removeWaiter a t r, cs(t := None))"
proof -
  define r' where "r' = removeWaiter a t r"
  have a: "a < length (lr_heap r)"
    using inv_used(2) [OF inv t] by simp
  have fields: "lr_leases r' = lr_leases r" "length (lr_heap r') = length (lr_heap r)"
    "lr_nextToken r' = lr_nextToken r" "lr_won r' = lr_won r" "lr_ended r' = lr_ended r"
    by (simp_all add: r'_def removeWaiter_def Let_def)
  have holder: "te_holder (entry_at r' b) = te_holder (entry_at r b)" for b
    using a by (simp add: r'_def removeWaiter_def Let_def)
  have waiters: "te_waiters (entry_at r' b) = (if b = a then remove1 t (te_waiters (entry_at r b)) else te_waiters (entry_at r b))" for b
    using a by (simp add: r'_def removeWaiter_def Let_def)
  have owns: "owns r' (cs(t := None)) tid' b u \<longleftrightarrow> owns r cs tid' b u" for tid' b u
    using t assms(3) by (auto simp: owns_def fields)
  have "lease_inv (r', cs(t := None))"
  proof (rule lease_invI)
    fix tid' b assume "lr_leases r' tid' = Some b"
    then show "b < length (lr_heap r') \<and> (\<exists>u. te_holder (entry_at r' b) = Some u \<and> owns r' (cs(t := None)) tid' b u)"
      using inv by (auto simp: fields holder owns elim: inv_listed)
  next
    fix b w assume b: "b < length (lr_heap r')" "w \<in> set (te_waiters (entry_at r' b))"
    then have w: "w \<in> set (te_waiters (entry_at r b))"
      using inv_waiters(1) [OF inv, of b] by (auto simp: fields waiters split: if_splits)
    have "w \<noteq> t"
    proof
      assume "w = t"
      with w inv_waiters(2) [OF inv, of b w] b(1) t have "b = a" by (auto simp: fields)
      with b inv_waiters(1) [OF inv a] \<open>w = t\<close> show False by (simp add: waiters)
    qed
    then show "w \<notin> set (lr_won r') \<and> (\<exists>tid'. (cs(t := None)) w = Some (Waiting tid' b) \<and> lr_leases r' tid' = Some b)"
      using inv_waiters(2) [OF inv _ w] b(1) by (simp add: fields)
  next
    fix u tid' b assume "(cs(t := None)) u = Some (Waiting tid' b)" "u \<notin> set (lr_won r')"
    then show "u \<in> set (te_waiters (entry_at r' b)) \<or> u \<in> set (lr_ended r')"
      using inv_parked [OF inv, of u tid' b] by (auto simp: fields waiters split: if_splits)
  next
    fix b assume "b < length (lr_heap r')" "\<forall>tid'. lr_leases r' tid' \<noteq> Some b"
    then show "te_holder (entry_at r' b) = None \<and> te_waiters (entry_at r' b) = []"
      using inv_unlisted [OF inv, of b] by (auto simp: fields holder waiters)
  qed (use inv_owner [OF inv] inv_waiters(1) [OF inv] inv_used [OF inv]
      in \<open>auto simp: owns fields holder waiters split: if_splits\<close>)
  then show ?thesis by (simp add: r'_def)
qed

lemma inv_release_handoff:
  assumes inv: "lease_inv (r, cs)" and t: "cs t = Some (Holding tid a)"
    and h: "handoff (lr_ended r) (te_waiters (entry_at r a)) = Some (w, ws)"
  shows "lease_inv ((set_entry a ((entry_at r a)\<lparr>te_holder := Some w, te_waiters := ws\<rparr>) r)\<lparr>lr_won := w # lr_won r\<rparr>,
    cs(t \<mapsto> Finished tid a))" (is "lease_inv (?r, ?cs)")
proof -
  have own: "lr_leases r tid = Some a" "te_holder (entry_at r a) = Some t" "a < length (lr_heap r)"
    using inv_owner [OF inv, of tid a t] t by (auto simp: owns_def)
  obtain pre where pre: "te_waiters (entry_at r a) = pre @ w # ws" "set pre \<subseteq> set (lr_ended r)"
    using handoff_Some [OF h] by blast
  have w: "w \<notin> set (lr_won r)" "cs w = Some (Waiting tid a)" "w \<noteq> t" "w \<notin> set ws"
    using inv_waiters(1) [OF inv own(3)] inv_waiters(2) [OF inv own(3), of w] inv_entry_tid [OF inv own(1)] pre(1) t by auto
  define r' where "r' = ?r"
  have fields: "lr_leases r' = lr_leases r" "length (lr_heap r') = length (lr_heap r)"
    "lr_nextToken r' = lr_nextToken r" "lr_won r' = w # lr_won r" "lr_ended r' = lr_ended r"
    by (simp_all add: r'_def)
  have ent: "entry_at r' b = (if b = a then (entry_at r a)\<lparr>te_holder := Some w, te_waiters := ws\<rparr> else entry_at r b)" for b
    using own(3) by (simp add: r'_def)
  have owns: "owns r' ?cs tid' b u \<longleftrightarrow> (if u = w then tid' = tid \<and> b = a else u \<noteq> t \<and> owns r cs tid' b u)" for tid' b u
    using w t by (auto simp: owns_def fields)
  have other: "b \<noteq> a" if "owns r cs tid' b u" "u \<noteq> t" for tid' b u
    using inv_owner [OF inv that(1)] own(2) that(2) by auto
  have "lease_inv (r', ?cs)"
  proof (rule lease_invI)
    fix tid' b assume b: "lr_leases r' tid' = Some b"
    show "b < length (lr_heap r') \<and> (\<exists>u. te_holder (entry_at r' b) = Some u \<and> owns r' ?cs tid' b u)"
    proof (cases "b = a")
      case True
      with b own(1) inv_entry_tid [OF inv own(1)] have "tid' = tid" by (simp add: fields)
      with True own(3) show ?thesis by (simp add: fields ent owns)
    next
      case False
      from b obtain u where u: "b < length (lr_heap r)" "te_holder (entry_at r b) = Some u" "owns r cs tid' b u"
        using inv by (auto simp: fields elim: inv_listed)
      have "u \<noteq> w" "u \<noteq> t"
        using u(3) w t False by (auto simp: owns_def)
      with u False show ?thesis by (simp add: fields ent owns)
    qed
  next
    fix tid' b u assume "owns r' ?cs tid' b u"
    then show "lr_leases r' tid' = Some b \<and> te_holder (entry_at r' b) = Some u"
      using own(1) inv_owner [OF inv, of tid' b u] other [of tid' b u] by (simp add: owns fields ent split: if_splits)
  next
    fix b v assume b: "b < length (lr_heap r')" "v \<in> set (te_waiters (entry_at r' b))"
    then have v: "v \<in> set (te_waiters (entry_at r b))" "b = a \<Longrightarrow> v \<in> set ws"
      using pre(1) by (auto simp: ent split: if_splits)
    have old: "v \<notin> set (lr_won r)" "\<exists>tid'. cs v = Some (Waiting tid' b) \<and> lr_leases r tid' = Some b"
      using inv_waiters(2) [OF inv _ v(1)] b(1) by (simp_all add: fields)
    have "v \<noteq> w"
      using old(2) w(2,4) v(2) by auto
    with old t show "v \<notin> set (lr_won r') \<and> (\<exists>tid'. ?cs v = Some (Waiting tid' b) \<and> lr_leases r' tid' = Some b)"
      by (auto simp: fields)
  next
    fix u tid' b assume u: "?cs u = Some (Waiting tid' b)" "u \<notin> set (lr_won r')"
    then have "cs u = Some (Waiting tid' b)" "u \<notin> set (lr_won r)" "u \<noteq> w"
      by (auto simp: fields split: if_splits)
    then show "u \<in> set (te_waiters (entry_at r' b)) \<or> u \<in> set (lr_ended r')"
      using inv_parked [OF inv, of u tid' b] pre by (auto simp: fields ent)
  next
    fix b assume "b < length (lr_heap r')" "\<forall>tid'. lr_leases r' tid' \<noteq> Some b"
    then show "te_holder (entry_at r' b) = None \<and> te_waiters (entry_at r' b) = []"
      using inv_unlisted [OF inv, of b] own(1) by (auto simp: fields ent)
  next
    fix b assume "b < length (lr_heap r')"
    then show "distinct (te_waiters (entry_at r' b))"
      using inv_waiters(1) [OF inv, of b] pre(1) by (auto simp: fields ent)
  next
    fix u c assume "?cs u = Some c"
    then show "u \<le> lr_nextToken r' \<and> client_entry c < length (lr_heap r')"
      using inv_used(1,2) [OF inv, of u] inv_used(1,2) [OF inv t] by (auto simp: fields split: if_splits)
  qed (use inv_used(3,4) [OF inv] inv_used(1) [OF inv w(2)] in \<open>auto simp: fields\<close>)
  then show ?thesis by (simp add: r'_def)
qed

lemma inv_release_last:
  assumes inv: "lease_inv (r, cs)" and t: "cs t = Some (Holding tid a)"
    and h: "handoff (lr_ended r) (te_waiters (entry_at r a)) = None"
  shows "lease_inv ((set_entry a ((entry_at r a)\<lparr>te_holder := None, te_waiters := []\<rparr>) r)
      \<lparr>lr_leases := (lr_leases r)(tid := None)\<rparr>, cs(t \<mapsto> Finished tid a))" (is "lease_inv (?r, ?cs)")
proof -
  have own: "lr_leases r tid = Some a" "te_holder (entry_at r a) = Some t" "a < length (lr_heap r)"
    using inv_owner [OF inv, of tid a t] t by (auto simp: owns_def)
  note ended = handoff_None [OF h]
  define r' where "r' = ?r"
  have fields: "lr_leases r' = (lr_leases r)(tid := None)" "length (lr_heap r') = length (lr_heap r)"
    "lr_nextToken r' = lr_nextToken r" "lr_won r' = lr_won r" "lr_ended r' = lr_ended r"
    by (simp_all add: r'_def)
  have ent: "entry_at r' b = (if b = a then (entry_at r a)\<lparr>te_holder := None, te_waiters := []\<rparr> else entry_at r b)" for b
    using own(3) by (simp add: r'_def)
  have owns: "owns r' ?cs tid' b u \<longleftrightarrow> u \<noteq> t \<and> owns r cs tid' b u" for tid' b u
    using t by (auto simp: owns_def fields)
  have other: "b \<noteq> a \<and> tid' \<noteq> tid" if "owns r cs tid' b u" "u \<noteq> t" for tid' b u
    using inv_owner [OF inv that(1)] own that(2) by auto
  have listed: "b \<noteq> a \<and> tid' \<noteq> tid" if "lr_leases r' tid' = Some b" for tid' b
    using that inv_entry_tid [OF inv own(1), of tid'] by (cases "tid' = tid") (auto simp: fields)
  have "lease_inv (r', ?cs)"
  proof (rule lease_invI)
    fix tid' b assume b: "lr_leases r' tid' = Some b"
    from b listed [OF b] have "lr_leases r tid' = Some b" by (simp add: fields)
    with inv obtain u where u: "b < length (lr_heap r)" "te_holder (entry_at r b) = Some u" "owns r cs tid' b u"
      by (rule inv_listed)
    have "u \<noteq> t"
      using u(3) t listed [OF b] by (auto simp: owns_def)
    with u listed [OF b] show "b < length (lr_heap r') \<and> (\<exists>u. te_holder (entry_at r' b) = Some u \<and> owns r' ?cs tid' b u)"
      by (simp add: fields ent owns)
  next
    fix tid' b u assume "owns r' ?cs tid' b u"
    then show "lr_leases r' tid' = Some b \<and> te_holder (entry_at r' b) = Some u"
      using inv_owner [OF inv, of tid' b u] other [of tid' b u] by (simp add: owns fields ent)
  next
    fix b v assume b: "b < length (lr_heap r')" "v \<in> set (te_waiters (entry_at r' b))"
    then have v: "v \<in> set (te_waiters (entry_at r b))" "b \<noteq> a"
      by (auto simp: ent split: if_splits)
    obtain tid' where "v \<notin> set (lr_won r)" "cs v = Some (Waiting tid' b)" "lr_leases r tid' = Some b"
      using inv_waiters(2) [OF inv _ v(1)] b(1) by (auto simp: fields)
    moreover from this v(2) own(1) have "tid' \<noteq> tid" by auto
    ultimately show "v \<notin> set (lr_won r') \<and> (\<exists>tid'. ?cs v = Some (Waiting tid' b) \<and> lr_leases r' tid' = Some b)"
      using t by (intro conjI exI [of _ tid']) (auto simp: fields)
  next
    fix u tid' b assume "?cs u = Some (Waiting tid' b)" "u \<notin> set (lr_won r')"
    then have "cs u = Some (Waiting tid' b)" "u \<notin> set (lr_won r)"
      by (auto simp: fields split: if_splits)
    then show "u \<in> set (te_waiters (entry_at r' b)) \<or> u \<in> set (lr_ended r')"
      using inv_parked [OF inv, of u tid' b] ended by (auto simp: fields ent)
  next
    fix b assume b: "b < length (lr_heap r')" and no: "\<forall>tid'. lr_leases r' tid' \<noteq> Some b"
    have "lr_leases r tid' \<noteq> Some b" if "b \<noteq> a" for tid'
      using spec [OF no, of tid'] own(1) that by (auto simp: fields split: if_splits)
    then show "te_holder (entry_at r' b) = None \<and> te_waiters (entry_at r' b) = []"
      using inv_unlisted [OF inv, of b] b by (auto simp: fields ent)
  next
    fix b assume "b < length (lr_heap r')"
    then show "distinct (te_waiters (entry_at r' b))"
      using inv_waiters(1) [OF inv, of b] by (auto simp: fields ent)
  next
    fix u c assume "?cs u = Some c"
    then show "u \<le> lr_nextToken r' \<and> client_entry c < length (lr_heap r')"
      using inv_used(1,2) [OF inv, of u] inv_used(1,2) [OF inv t] by (auto simp: fields split: if_splits)
  qed (use inv_used(3,4) [OF inv] in \<open>auto simp: fields\<close>)
  then show ?thesis by (simp add: r'_def)
qed

text \<open>A release by a token that is not the holder changes nothing: the second call of a closure.\<close>

lemma release_finished:
  assumes inv: "lease_inv (r, cs)" and t: "cs t = Some (Finished tid a)"
  shows "releaseTaskOp tid a t r = r"
proof -
  have "a < length (lr_heap r)"
    using inv_used(2) [OF inv t] by simp
  then have "te_holder (entry_at r a) \<noteq> Some t"
    using inv t by (auto simp: owns_def elim!: inv_holder)
  then show ?thesis
    by (simp add: releaseTaskOp_def)
qed

lemma release_holding:
  assumes inv: "lease_inv (r, cs)" and t: "cs t = Some (Holding tid a)"
  shows "lease_inv (releaseTaskOp tid a t r, cs(t \<mapsto> Finished tid a))"
proof -
  have own: "lr_leases r tid = Some a" "te_holder (entry_at r a) = Some t"
    using inv_owner [OF inv, of tid a t] t by (auto simp: owns_def)
  show ?thesis
    using inv_release_last [OF inv t] inv_release_handoff [OF inv t] own
    by (cases "handoff (lr_ended r) (te_waiters (entry_at r a))") (auto simp: releaseTaskOp_def Let_def)
qed

lemma inv_step: "lease_step c c' \<Longrightarrow> lease_inv c \<Longrightarrow> lease_inv c'"
proof (induction rule: lease_step.induct)
  case (acquire tid mode r a t r' cs)
  from acquire(2,1) show ?case by (rule acquire_cases) (use acquire(2) in \<open>auto intro: inv_free\<close>)
next
  case (busy tid mode r r' cs)
  from busy(2,1) show ?case by (rule acquire_cases) (use busy in auto)
next
  case (park tid mode r a t r' cs)
  from park(2,1) show ?case by (rule acquire_cases) (use park in \<open>auto intro: inv_park\<close>)
next
  case (cancel_won cs t tid a r r')
  then show ?case by (auto simp: cancelWait_def intro: inv_wake split: if_splits)
next
  case (cancel_err cs t tid a r r')
  then show ?case by (auto simp: cancelWait_def intro: inv_cancel split: if_splits)
qed (auto intro: inv_wake inv_ctx_ends release_holding simp: release_finished)

lemma inv_reachable: "lease_reachable c \<Longrightarrow> lease_inv c"
  by (induction rule: rtranclp_induct) (auto intro: inv_initial inv_step)

subsection \<open>Guarantees\<close>

text \<open>
  C4. Operations on one task exclude each other: in every reachable state of any number of goroutines,
  with acquisitions in both modes, cancellations racing handoffs and repeated releases, at most one
  acquisition owns the lease of a task, whether its goroutine holds it or was granted it and has not woken
  yet, and it is the holder on record in the one entry that the table lists for the task.
\<close>

theorem lease_mutual_exclusion:
  assumes "lease_reachable (r, cs)"
    and "cs t = Some (Holding tid a) \<or> cs t = Some (Waiting tid a) \<and> t \<in> set (lr_won r)"
    and "cs u = Some (Holding tid b) \<or> cs u = Some (Waiting tid b) \<and> u \<in> set (lr_won r)"
  shows "t = u \<and> a = b \<and> lr_leases r tid = Some a \<and> te_holder (entry_at r a) = Some t"
  using inv_owner [OF inv_reachable [OF assms(1)], of tid a t] inv_owner [OF inv_reachable [OF assms(1)], of tid b u]
    assms(2,3) by (simp add: owns_def)

text \<open>
  C31. No waiter is lost and the queue is served in order: while a parked acquisition's context lives,
  it stands in the queue of an entry that has an owner, and when that owner releases, ownership passes at
  once to the oldest waiter whose context has not ended, with only ended ones skipped before it; no
  waiter is ever granted twice.
\<close>

theorem lease_handoff:
  assumes "lease_reachable (r, cs)" and "cs t = Some (Waiting tid a)"
    and "t \<notin> set (lr_won r)" and "t \<notin> set (lr_ended r)"
  shows "\<exists>u. owns r cs tid a u \<and> u \<noteq> t \<and>
    (cs u = Some (Holding tid a) \<longrightarrow>
      (\<exists>skipped w ws. te_waiters (entry_at r a) = skipped @ w # ws \<and> t \<in> set (w # ws) \<and>
        set skipped \<subseteq> set (lr_ended r) \<and> w \<notin> set (lr_ended r) \<and> w \<notin> set (lr_won r) \<and>
        te_holder (entry_at (releaseTaskOp tid a u r) a) = Some w \<and>
        w \<in> set (lr_won (releaseTaskOp tid a u r))))"
proof -
  note inv = inv_reachable [OF assms(1)]
  have q: "t \<in> set (te_waiters (entry_at r a))"
    using inv_parked [OF inv assms(2,3)] assms(4) by simp
  have a: "a < length (lr_heap r)"
    using inv_used(2) [OF inv assms(2)] by simp
  have listed: "lr_leases r tid = Some a"
    using inv_waiters(2) [OF inv a q] assms(2) by auto
  then obtain u where u: "te_holder (entry_at r a) = Some u" "owns r cs tid a u"
    using inv by (auto elim: inv_listed)
  have "u \<noteq> t"
    using u(2) assms(2,3) by (auto simp: owns_def)
  moreover have "\<exists>skipped w ws. te_waiters (entry_at r a) = skipped @ w # ws \<and> t \<in> set (w # ws) \<and>
        set skipped \<subseteq> set (lr_ended r) \<and> w \<notin> set (lr_ended r) \<and> w \<notin> set (lr_won r) \<and>
        te_holder (entry_at (releaseTaskOp tid a u r) a) = Some w \<and>
        w \<in> set (lr_won (releaseTaskOp tid a u r))"
  proof (cases "handoff (lr_ended r) (te_waiters (entry_at r a))")
    case None
    then show ?thesis
      using handoff_None [OF None] q assms(4) by auto
  next
    case (Some p)
    obtain w ws where p: "p = (w, ws)" by (cases p)
    from handoff_Some [OF Some [unfolded p]] obtain skipped where s: "te_waiters (entry_at r a) = skipped @ w # ws"
      "set skipped \<subseteq> set (lr_ended r)" "w \<notin> set (lr_ended r)" by blast
    moreover have "t \<in> set (w # ws)"
      using q s assms(4) by auto
    moreover have "w \<notin> set (lr_won r)"
      using inv_waiters(2) [OF inv a, of w] s(1) by simp
    ultimately show ?thesis
      using u(1) a Some p by (intro exI [of _ skipped] exI [of _ w] exI [of _ ws]) (simp add: releaseTaskOp_def)
  qed
  ultimately show ?thesis
    using u(2) by blast
qed

text \<open>
  The lease table does not grow: a task that no goroutine holds or waits for has no entry, so its
  next acquisition succeeds at once; and calling a release closure again changes nothing.
\<close>

theorem lease_table_clean:
  assumes "lease_reachable (r, cs)"
    and "\<forall>t a. cs t \<noteq> Some (Holding tid a) \<and> cs t \<noteq> Some (Waiting tid a)"
  shows "lr_leases r tid = None \<and> (\<exists>a t. fst (AcquireTaskOp tid TaskOpTry r) = Acquired a t) \<and>
    (\<forall>t a tid'. cs t = Some (Finished tid' a) \<longrightarrow> releaseTaskOp tid' a t r = r)"
proof -
  note inv = inv_reachable [OF assms(1)]
  have free: "lr_leases r tid = None"
  proof (rule ccontr)
    assume "lr_leases r tid \<noteq> None"
    then obtain a where "lr_leases r tid = Some a" by blast
    with inv obtain u where "owns r cs tid a u" by (rule inv_listed)
    with assms(2) show False by (auto simp: owns_def)
  qed
  moreover have "\<exists>a t. fst (AcquireTaskOp tid TaskOpTry r) = Acquired a t"
    using acquire_cases [OF inv surjective_pairing] free by (metis option.distinct(1))
  ultimately show ?thesis
    using release_finished [OF inv] by blast
qed

text \<open>A concrete history: one goroutine holds the lease of a task and another waits for it.\<close>

definition demo_lease :: lease_sys where
  "demo_lease = (snd (AcquireTaskOp ''a'' TaskOpWait (snd (AcquireTaskOp ''a'' TaskOpTry NewRegistry))),
     [1 \<mapsto> Holding ''a'' 0, 2 \<mapsto> Waiting ''a'' 0])"

lemma demo_lease_reachable: "lease_reachable demo_lease"
proof -
  let ?r1 = "snd (AcquireTaskOp ''a'' TaskOpTry NewRegistry)"
  have "lease_step initial_sys (?r1, [1 \<mapsto> Holding ''a'' 0])"
    unfolding initial_sys_def
    by (rule lease_step.acquire [of "''a''" TaskOpTry])
      (simp add: AcquireTaskOp_def NewRegistry_def ensure_entry_def entry_at_def mintTokenLocked_def Let_def)
  moreover have "lease_step (?r1, [1 \<mapsto> Holding ''a'' 0]) demo_lease"
    unfolding demo_lease_def
    by (rule lease_step.park [of "''a''" TaskOpWait])
      (simp add: AcquireTaskOp_def NewRegistry_def ensure_entry_def entry_at_def mintTokenLocked_def Let_def set_entry_def)
  ultimately show ?thesis by (meson converse_rtranclp_into_rtranclp r_into_rtranclp)
qed

theorem lease_mutual_exclusion_witness: "{u. \<exists>b. snd demo_lease u = Some (Holding ''a'' b)} = {1}"
proof (rule set_eqI, rule iffI)
  fix u
  assume "u \<in> {u. \<exists>b. snd demo_lease u = Some (Holding ''a'' b)}"
  then obtain b where "snd demo_lease u = Some (Holding ''a'' b)" by blast
  moreover have "snd demo_lease 1 = Some (Holding ''a'' 0)"
    by (simp add: demo_lease_def)
  ultimately show "u \<in> {1}"
    using lease_mutual_exclusion [of "fst demo_lease" "snd demo_lease" 1 "''a''" 0 u b] demo_lease_reachable by auto
qed (simp add: demo_lease_def)

theorem lease_handoff_witness: "\<exists>u. owns (fst demo_lease) (snd demo_lease) ''a'' 0 u \<and> u \<noteq> 2"
  using lease_handoff [of "fst demo_lease" "snd demo_lease" 2 "''a''" 0] demo_lease_reachable
  by (auto simp: demo_lease_def AcquireTaskOp_def NewRegistry_def ensure_entry_def entry_at_def
      mintTokenLocked_def Let_def set_entry_def)

theorem lease_table_clean_witness: "lr_leases (fst demo_lease) ''b'' = None"
  using lease_table_clean [of "fst demo_lease" "snd demo_lease" "''b''"] demo_lease_reachable
  by (simp add: demo_lease_def)

end
