(* ===== verification/EngineApi.thy ===== *)
theory EngineApi
  imports StoreLists TaskLease
begin

section \<open>Engines, and the world the engine package runs in\<close>

text \<open>
  The types of \<open>src/internal/engine/engine.go\<close>, and what the admission pass and the reconciler share
  (\<open>applyPersistedIntent\<close>, the request builders, the handle forms).

  An engine is a daemon outside the program: the record \<open>engine\<close> holds, for each method of the interface,
  a function from the daemons' state to an answer and the next state. It is an argument of every definition
  that calls an engine, and the theorems quantify over it. The world of a call is the store extended by the
  daemons' state, the trace of the engine calls with their answers, the lease table and the deadline of the
  context (\<open>None\<close>: never cancelled). Time passes in engine calls too, by \<open>eng_took\<close>.
  The file system belongs to the daemons' state, and an unlink is an entry of the same trace.
  The last three methods are the optional interfaces \<open>tagMutator\<close>, \<open>sequentialEngine\<close> and
  \<open>recheckable\<close>, which an adapter may lack.
\<close>

datatype capability =
    CapHTTP | CapFTP | CapSFTP | CapBitTorrent | CapMagnet | CapMetalink | CapMediaSite | CapNZB
  | CapPerFileSelect | CapPerFilePriority | CapCategories | CapTags | CapSequential | CapSetLocation
  | CapRename | CapShareLimits | CapSearch | CapRSSRules | CapBTV2 | CapPushEvents

text \<open>The errors a caller tells apart with \<open>errors.Is\<close>; any other error is its text.\<close>

datatype eng_error = ErrNotFound | ErrUnavailable | ErrNotSupported | EngError string

record add_request =
  ar_URIs :: "string list"
  ar_Blob :: string
  ar_BlobKind :: string
  ar_SaveDir :: string
  ar_Filename :: string
  ar_Category :: string
  ar_Tags :: "string list"
  ar_StartPaused :: bool
  ar_Sequential :: bool
  ar_SelectFiles :: "int list option"
  ar_Extra :: "(string \<times> string) list"

record file_entry =
  fe_Index :: int
  fe_Path :: string
  fe_Size :: int
  fe_Completed :: int
  fe_Selected :: bool
  fe_Priority :: "int option"

record task_info =
  ti_ID :: string
  ti_Engine :: string
  ti_Name :: string
  ti_State :: task_state
  ti_TotalBytes :: "int option"
  ti_CompletedBytes :: int
  ti_UploadedBytes :: int
  ti_DownloadRate :: int
  ti_UploadRate :: int
  ti_ETASeconds :: "int option"
  ti_SaveDir :: string
  ti_ContentPath :: string
  ti_ErrorCode :: string
  ti_ErrorMessage :: string
  ti_InfohashV1 :: string
  ti_InfohashV2 :: string

record 'e engine =
  eng_Capabilities :: "capability list"
  eng_Add :: "add_request \<Rightarrow> 'e \<Rightarrow> (eng_error + string) \<times> 'e"
  eng_List :: "'e \<Rightarrow> (eng_error + task_info list) \<times> 'e"
  eng_Get :: "string \<Rightarrow> 'e \<Rightarrow> (eng_error + task_info) \<times> 'e"
  eng_Files :: "string \<Rightarrow> 'e \<Rightarrow> (eng_error + file_entry list) \<times> 'e"
  eng_Pause :: "string \<Rightarrow> 'e \<Rightarrow> (eng_error + unit) \<times> 'e"
  eng_Resume :: "string \<Rightarrow> 'e \<Rightarrow> (eng_error + unit) \<times> 'e"
  eng_Remove :: "string \<Rightarrow> 'e \<Rightarrow> (eng_error + unit) \<times> 'e"
  eng_SetFiles :: "string \<Rightarrow> int list \<Rightarrow> (int \<times> int) list option \<Rightarrow> 'e \<Rightarrow> (eng_error + unit) \<times> 'e"
  eng_SetRateLimits :: "string \<Rightarrow> int option \<Rightarrow> int option \<Rightarrow> 'e \<Rightarrow> (eng_error + unit) \<times> 'e"
  eng_SetLocation :: "string \<Rightarrow> string \<Rightarrow> 'e \<Rightarrow> (eng_error + unit) \<times> 'e"
  eng_SetCategory :: "string \<Rightarrow> string \<Rightarrow> 'e \<Rightarrow> (eng_error + unit) \<times> 'e"
  eng_SetShareLimits :: "string \<Rightarrow> rat option \<Rightarrow> int option \<Rightarrow> 'e \<Rightarrow> (eng_error + unit) \<times> 'e"
  eng_SetTags :: "(string \<Rightarrow> string list \<Rightarrow> 'e \<Rightarrow> (eng_error + unit) \<times> 'e) option"
  eng_SetSequential :: "(string \<Rightarrow> bool \<Rightarrow> 'e \<Rightarrow> (eng_error + unit) \<times> 'e) option"
  eng_Recheck :: "(string \<Rightarrow> 'e \<Rightarrow> (eng_error + unit) \<times> 'e) option"
  eng_took :: "'e \<Rightarrow> nat"

datatype engine_call =
    CallAdd add_request | CallList | CallGet string | CallFiles string | CallPause string
  | CallResume string | CallRemove string
  | CallSetFiles string "int list" "(int \<times> int) list option"
  | CallSetRateLimits string "int option" "int option"
  | CallSetLocation string string | CallSetCategory string string
  | CallSetShareLimits string "rat option" "int option"
  | CallSetTags string "string list" | CallSetSequential string bool | CallRecheck string
  | CallUnlink string

type_synonym call_entry = "engine_call \<times> (eng_error + string)"

record 'e world = store +
  w_eng :: 'e
  w_calls :: "call_entry list"
  w_lease :: lease_reg
  w_deadline :: "int option"

text \<open>The registry's engine map; an engine the composition root did not register is \<open>None\<close>.\<close>

type_synonym 'e engines = "string \<Rightarrow> 'e engine option"

subsection \<open>Calls\<close>

text \<open>One engine call: the daemon answers and changes, the call is recorded, time passes.\<close>

definition ecall ::
  "engine_call \<Rightarrow> ('a \<Rightarrow> string) \<Rightarrow> ('e \<Rightarrow> nat) \<Rightarrow> ('e \<Rightarrow> (eng_error + 'a) \<times> 'e) \<Rightarrow>
   (('e, 'z) world_scheme, eng_error + 'a) action" where
  "ecall c shown took f = State (\<lambda>w. let (res, e') = f (w_eng w) in
     (res, w\<lparr>w_eng := e', w_calls := w_calls w @ [(c, map_sum (\<lambda>x. x) shown res)],
        s_now := s_now w + int (took e')\<rparr>))"

definition no_text :: "'a \<Rightarrow> string" where "no_text _ = ''''"

definition e_Add :: "'e engine \<Rightarrow> add_request \<Rightarrow> (('e, 'z) world_scheme, eng_error + string) action" where
  "e_Add e req = ecall (CallAdd req) (\<lambda>x. x) (eng_took e) (eng_Add e req)"

definition e_List :: "'e engine \<Rightarrow> (('e, 'z) world_scheme, eng_error + task_info list) action" where
  "e_List e = ecall CallList no_text (eng_took e) (eng_List e)"

definition e_Get :: "'e engine \<Rightarrow> string \<Rightarrow> (('e, 'z) world_scheme, eng_error + task_info) action" where
  "e_Get e h = ecall (CallGet h) no_text (eng_took e) (eng_Get e h)"

definition e_Files :: "'e engine \<Rightarrow> string \<Rightarrow> (('e, 'z) world_scheme, eng_error + file_entry list) action" where
  "e_Files e h = ecall (CallFiles h) no_text (eng_took e) (eng_Files e h)"

definition e_Pause :: "'e engine \<Rightarrow> string \<Rightarrow> (('e, 'z) world_scheme, eng_error + unit) action" where
  "e_Pause e h = ecall (CallPause h) no_text (eng_took e) (eng_Pause e h)"

definition e_Resume :: "'e engine \<Rightarrow> string \<Rightarrow> (('e, 'z) world_scheme, eng_error + unit) action" where
  "e_Resume e h = ecall (CallResume h) no_text (eng_took e) (eng_Resume e h)"

definition e_Remove :: "'e engine \<Rightarrow> string \<Rightarrow> (('e, 'z) world_scheme, eng_error + unit) action" where
  "e_Remove e h = ecall (CallRemove h) no_text (eng_took e) (eng_Remove e h)"

definition e_SetFiles ::
  "'e engine \<Rightarrow> string \<Rightarrow> int list \<Rightarrow> (int \<times> int) list option \<Rightarrow> (('e, 'z) world_scheme, eng_error + unit) action" where
  "e_SetFiles e h sel pr = ecall (CallSetFiles h sel pr) no_text (eng_took e) (eng_SetFiles e h sel pr)"

definition e_SetRateLimits ::
  "'e engine \<Rightarrow> string \<Rightarrow> int option \<Rightarrow> int option \<Rightarrow> (('e, 'z) world_scheme, eng_error + unit) action" where
  "e_SetRateLimits e h down up = ecall (CallSetRateLimits h down up) no_text (eng_took e) (eng_SetRateLimits e h down up)"

definition e_SetLocation :: "'e engine \<Rightarrow> string \<Rightarrow> string \<Rightarrow> (('e, 'z) world_scheme, eng_error + unit) action" where
  "e_SetLocation e h path = ecall (CallSetLocation h path) no_text (eng_took e) (eng_SetLocation e h path)"

definition e_SetCategory :: "'e engine \<Rightarrow> string \<Rightarrow> string \<Rightarrow> (('e, 'z) world_scheme, eng_error + unit) action" where
  "e_SetCategory e h cat = ecall (CallSetCategory h cat) no_text (eng_took e) (eng_SetCategory e h cat)"

definition e_SetShareLimits ::
  "'e engine \<Rightarrow> string \<Rightarrow> rat option \<Rightarrow> int option \<Rightarrow> (('e, 'z) world_scheme, eng_error + unit) action" where
  "e_SetShareLimits e h ratio secs =
     ecall (CallSetShareLimits h ratio secs) no_text (eng_took e) (eng_SetShareLimits e h ratio secs)"

text \<open>A call of an optional method, given as the method.\<close>

definition e_optional ::
  "'e engine \<Rightarrow> engine_call \<Rightarrow> ('e \<Rightarrow> (eng_error + unit) \<times> 'e) \<Rightarrow> (('e, 'z) world_scheme, eng_error + unit) action" where
  "e_optional e c f = ecall c no_text (eng_took e) f"

lemmas e_defs = e_Add_def e_List_def e_Get_def e_Files_def e_Pause_def e_Resume_def e_Remove_def
  e_SetFiles_def e_SetRateLimits_def e_SetLocation_def e_SetCategory_def e_SetShareLimits_def e_optional_def

text \<open>\<open>ctx.Err() != nil\<close>.\<close>

definition ctx_done :: "('e, 'z) world_scheme \<Rightarrow> bool" where
  "ctx_done w \<longleftrightarrow> (case w_deadline w of None \<Rightarrow> False | Some d \<Rightarrow> d \<le> s_now w)"

text \<open>The try mode of the lease as the pass and the sweep use it: \<open>None\<close> is the busy answer.\<close>

definition tryLease :: "string \<Rightarrow> (('e, 'z) world_scheme, (nat \<times> nat) option) action" where
  "tryLease tid = State (\<lambda>w. case AcquireTaskOp tid TaskOpTry (w_lease w) of
      (Acquired a t, r) \<Rightarrow> (Some (a, t), w\<lparr>w_lease := r\<rparr>)
    | (_, r) \<Rightarrow> (None, w\<lparr>w_lease := r\<rparr>))"

definition releaseLease :: "string \<Rightarrow> nat \<times> nat \<Rightarrow> (('e, 'z) world_scheme, unit) action" where
  "releaseLease tid l = modify (\<lambda>w. w\<lparr>w_lease := releaseTaskOp tid (fst l) (snd l) (w_lease w)\<rparr>)"

subsection \<open>Handles and requests\<close>

definition namespacedHandle :: "string \<Rightarrow> string \<Rightarrow> string" where
  "namespacedHandle engineName ref = engineName @ '':'' @ ref"

definition bareHandle :: "string \<Rightarrow> string \<Rightarrow> string" where
  "bareHandle engineName hid = TrimPrefix hid (engineName @ '':'')"

lemma bareHandle_namespacedHandle [simp]: "bareHandle e (namespacedHandle e ref) = ref"
  by (simp add: bareHandle_def namespacedHandle_def TrimPrefix_def HasPrefix_def)

definition magnetInfohashPrefix :: string where
  "magnetInfohashPrefix = ''magnet:?xt=urn:btih:''"

definition resumeExtra :: "(string \<times> string) list" where
  "resumeExtra = [(''continue'', ''true'')]"

definition empty_request :: add_request where
  "empty_request = \<lparr>ar_URIs = [], ar_Blob = '''', ar_BlobKind = '''', ar_SaveDir = '''', ar_Filename = '''',
     ar_Category = '''', ar_Tags = [], ar_StartPaused = False, ar_Sequential = False, ar_SelectFiles = None,
     ar_Extra = []\<rparr>"

definition admissionRequest :: "candidate \<Rightarrow> selection_intent option \<Rightarrow> add_request option" where
  "admissionRequest cand sel =
     (let selectFiles = map_option si_Indices sel;
          startPaused = (sel \<noteq> None \<or> 0 < c_DLLimit cand \<or> 0 < c_ULLimit cand);
          req = empty_request\<lparr>ar_SaveDir := c_Destination cand, ar_SelectFiles := selectFiles,
            ar_StartPaused := startPaused, ar_Extra := resumeExtra\<rparr> in
      if textOrEmpty (c_SourceURI cand) \<noteq> '''' then Some (req\<lparr>ar_URIs := [textOrEmpty (c_SourceURI cand)]\<rparr>)
      else if textOrEmpty (c_InfohashV1 cand) \<noteq> ''''
      then Some (req\<lparr>ar_URIs := [magnetInfohashPrefix @ textOrEmpty (c_InfohashV1 cand)]\<rparr>)
      else None)"

definition resubmitRequest :: "reconcilable \<Rightarrow> selection_intent option \<Rightarrow> add_request option" where
  "resubmitRequest tsk sel =
     (let selectFiles = map_option si_Indices sel;
          startPaused = (sel \<noteq> None \<or> 0 < rc_DLLimit tsk \<or> 0 < rc_ULLimit tsk);
          req = empty_request\<lparr>ar_SaveDir := rc_Destination tsk, ar_SelectFiles := selectFiles,
            ar_StartPaused := startPaused, ar_Extra := resumeExtra\<rparr> in
      if textOrEmpty (rc_SourceURI tsk) \<noteq> '''' then Some (req\<lparr>ar_URIs := [textOrEmpty (rc_SourceURI tsk)]\<rparr>)
      else if textOrEmpty (rc_InfohashV1 tsk) \<noteq> ''''
      then Some (req\<lparr>ar_URIs := [magnetInfohashPrefix @ textOrEmpty (rc_InfohashV1 tsk)]\<rparr>)
      else None)"

subsection \<open>The persisted intent\<close>

text \<open>
  What a release can end with: an engine error (however wrapped), the wait for a file listing, an
  incomplete release, a failed store write, nothing to submit.
\<close>

datatype adm_error =
    AEngine eng_error | ASelectionPending | AReleaseIncomplete | AStoreWrite store_error | ANoSubmission

definition applyPersistedRateLimits ::
  "'e engine \<Rightarrow> string \<Rightarrow> int \<Rightarrow> int \<Rightarrow> (('e, 'z) world_scheme, adm_error + unit) action" where
  "applyPersistedRateLimits e handle dlLimit ulLimit =
     (let down = (if 0 < dlLimit then Some dlLimit else None);
          up = (if 0 < ulLimit then Some ulLimit else None) in
      if down = None \<and> up = None then ret (Inr ())
      else do {
        r \<leftarrow> e_SetRateLimits e handle down up;
        ret (case r of Inr _ \<Rightarrow> Inr () | Inl err \<Rightarrow> if err = ErrNotSupported then Inr () else Inl (AEngine err))
      })"

definition applyPersistedSelection ::
  "'e engine \<Rightarrow> string \<Rightarrow> selection_intent option \<Rightarrow> (('e, 'z) world_scheme, adm_error + unit) action" where
  "applyPersistedSelection e handle sel = (case sel of
      None \<Rightarrow> ret (Inr ())
    | Some si \<Rightarrow>
        if CapPerFileSelect \<notin> set (eng_Capabilities e) then ret (Inr ())
        else do {
          let priorities = (if CapPerFilePriority \<in> set (eng_Capabilities e) then Some (si_Priorities si) else None);
          r \<leftarrow> e_SetFiles e handle (si_Indices si) priorities;
          case r of
            Inr _ \<Rightarrow> ret (Inr ())
          | Inl err \<Rightarrow> do {
              fs \<leftarrow> e_Files e handle;
              case fs of
                Inl filesErr \<Rightarrow>
                  if filesErr = ErrNotFound then ret (Inl ASelectionPending)
                  else do { _ \<leftarrow> e_Pause e handle; ret (Inl (AEngine filesErr)) }
              | Inr entries \<Rightarrow>
                  ret (Inl (if entries = [] then ASelectionPending else AEngine err))
            }
        })"

definition applyPersistedIntent ::
  "'e engine \<Rightarrow> string \<Rightarrow> int \<Rightarrow> int \<Rightarrow> selection_intent option \<Rightarrow> (('e, 'z) world_scheme, adm_error + unit) action" where
  "applyPersistedIntent e handle dlLimit ulLimit sel = do {
     r \<leftarrow> applyPersistedRateLimits e handle dlLimit ulLimit;
     case r of Inl err \<Rightarrow> ret (Inl err) | Inr _ \<Rightarrow> applyPersistedSelection e handle sel
   }"

subsection \<open>The interface the engine package works against\<close>

text \<open>
  A relation of the store interface that engine calls and the lease table keep too: what it promises
  of every store write, it promises of everything the engine package does.
\<close>

locale lease_rel = clock_rel R
  for R :: "('e, 'z) world_scheme \<Rightarrow> ('e, 'z) world_scheme \<Rightarrow> bool" +
  assumes R_lease: "R w (w\<lparr>w_lease := l\<rparr>)"
begin

lemma io_tryLease [io_intros]: "state_io_rel R (tryLease tid)"
  by (auto simp: state_io_rel_def tryLease_def R_lease split: prod.splits acquire_result.splits)

lemma io_releaseLease [io_intros]: "state_io_rel R (releaseLease tid l)"
  by (auto simp: state_io_rel_def releaseLease_def R_lease)

end

locale engine_rel = lease_rel R + store_rel R P
  for R :: "('e, 'z) world_scheme \<Rightarrow> ('e, 'z) world_scheme \<Rightarrow> bool" and P :: "string \<Rightarrow> bool" +
  assumes R_engine: "R w (w\<lparr>w_eng := e', w_calls := cs, s_now := n\<rparr>)"
begin

lemma io_ecall [io_intros]: "state_io_rel R (ecall c shown took f)"
  by (auto simp: state_io_rel_def ecall_def Let_def R_engine split: prod.splits)

lemma io_engine [io_intros]:
  "state_io_rel R (e_Add e req)" "state_io_rel R (e_List e)" "state_io_rel R (e_Get e h)"
  "state_io_rel R (e_Files e h)" "state_io_rel R (e_Pause e h)" "state_io_rel R (e_Resume e h)"
  "state_io_rel R (e_Remove e h)" "state_io_rel R (e_SetFiles e h sel pr)"
  "state_io_rel R (e_SetRateLimits e h down up)" "state_io_rel R (e_SetLocation e h path)"
  "state_io_rel R (e_SetCategory e h cat)" "state_io_rel R (e_SetShareLimits e h ratio secs)"
  "state_io_rel R (e_optional e c f)"
  by (simp_all add: e_defs io_ecall)

lemma io_applyPersistedRateLimits [io_intros]: "state_io_rel R (applyPersistedRateLimits e h d u)"
  unfolding applyPersistedRateLimits_def Let_def by (intro io_intros)

lemma io_applyPersistedSelection [io_intros]: "state_io_rel R (applyPersistedSelection e h sel)"
  unfolding applyPersistedSelection_def Let_def by (intro io_intros)

lemma io_applyPersistedIntent [io_intros]: "state_io_rel R (applyPersistedIntent e h d u sel)"
  unfolding applyPersistedIntent_def by (intro io_intros)

end

interpretation w_constraints: engine_rel keeps_constraints "\<lambda>_. True"
  by unfold_locales (auto simp: keeps_constraints_def constraints_ok_def)

interpretation w_audit: engine_rel audit_trail "\<lambda>_. True"
  by unfold_locales (auto intro: audit_trail_refl)

interpretation w_mark: engine_rel keeps_mark "\<lambda>_. True"
  by unfold_locales (auto simp: keeps_mark_def mark_on_queued_def)

interpretation w_frame: engine_rel "same_row x" "\<lambda>t. t \<noteq> x" for x
  by unfold_locales (auto simp: same_row_def)

text \<open>The engine calls of a run are added at the end of the trace.\<close>

definition calls_extend :: "('e, 'z) world_scheme \<Rightarrow> ('e, 'z) world_scheme \<Rightarrow> bool" where
  "calls_extend w w' \<longleftrightarrow> (\<exists>cs. w_calls w' = w_calls w @ cs)"

end
