(* ===== verification/DiskSpace.thy ===== *)
theory DiskSpace
  imports Prelude "HOL-Library.Word" "HOL-Library.Multiset"
begin

section \<open>Disk-space accounting\<close>

text \<open>
  \<open>src/internal/fsx/space.go\<close> (\<open>Floor\<close>, \<open>FreeSpace\<close>, \<open>FilesystemID\<close>, \<open>existingAncestor\<close>,
  \<open>Reservation.Admits\<close>) and the root lookup of \<open>src/internal/engine/admission.go\<close> (\<open>rootOf\<close>,
  \<open>withinRoot\<close>), with \<open>filepath.Clean\<close> and \<open>filepath.Dir\<close> as far as they are used.
  The kernel is outside the program: the answers of \<open>stat\<close> and \<open>statfs\<close> are a parameter, the record
  \<open>disk\<close>. Go's \<open>int64\<close> arithmetic is written with its wrap-around (\<open>wrap64\<close>), \<open>uint64\<close> is \<open>64 word\<close>.
\<close>

subsection \<open>Paths\<close>

fun split_path :: "string \<Rightarrow> string list" where
  "split_path [] = [[]]"
| "split_path (c # cs) = (if c = CHR ''/'' then [] # split_path cs
     else (case split_path cs of [] \<Rightarrow> [[c]] | p # ps \<Rightarrow> (c # p) # ps))"

fun join_path :: "string list \<Rightarrow> string" where
  "join_path [] = []"
| "join_path [p] = p"
| "join_path (p # ps) = p @ CHR ''/'' # join_path ps"

text \<open>The element walk of \<open>filepath.Clean\<close>: the stack of kept elements is in reverse order.\<close>

fun clean_walk :: "bool \<Rightarrow> string list \<Rightarrow> string list \<Rightarrow> string list" where
  "clean_walk rooted acc [] = rev acc"
| "clean_walk rooted acc (c # cs) =
     (if c = '''' \<or> c = ''.'' then clean_walk rooted acc cs
      else if c = ''..'' then
        (case acc of
           [] \<Rightarrow> if rooted then clean_walk rooted [] cs else clean_walk rooted [''..''] cs
         | a # as \<Rightarrow> if a = ''..'' then clean_walk rooted (''..'' # acc) cs else clean_walk rooted as cs)
      else clean_walk rooted (c # acc) cs)"

definition IsAbs :: "string \<Rightarrow> bool" where
  "IsAbs p \<longleftrightarrow> HasPrefix p ''/''"

definition Clean :: "string \<Rightarrow> string" where
  "Clean p = (let out = join_path (clean_walk (IsAbs p) [] (split_path p)) in
     if IsAbs p then CHR ''/'' # out else if out = '''' then ''.'' else out)"

text \<open>The path up to and including its last separator.\<close>

definition dir_part :: "string \<Rightarrow> string" where
  "dir_part p = rev (dropWhile (\<lambda>c. c \<noteq> CHR ''/'') (rev p))"

definition Dir :: "string \<Rightarrow> string" where
  "Dir p = Clean (dir_part p)"

definition weight :: "string list \<Rightarrow> nat" where
  "weight ps = sum_list (map (\<lambda>p. Suc (length p)) ps)"

lemma weight_simps [simp]: "weight [] = 0" "weight (p # ps) = Suc (length p) + weight ps"
  "weight (ps @ qs) = weight ps + weight qs" "weight (rev ps) = weight ps"
  by (simp_all add: weight_def rev_map [symmetric])

lemma split_path_not_Nil [simp]: "split_path p \<noteq> []"
  by (induction p) (auto split: list.split)

lemma weight_split_path: "weight (split_path p) = Suc (length p)"
proof (induction p)
  case (Cons c cs)
  then show ?case by (cases "split_path cs") auto
qed simp

lemma length_join_path: "length (join_path ps) = weight ps - 1"
proof (induction ps rule: join_path.induct)
  case (3 p q qs)
  then show ?case by simp
qed simp_all

lemma weight_clean_walk: "weight (clean_walk b acc cs) \<le> weight acc + weight cs"
proof (induction b acc cs rule: clean_walk.induct)
  case (2 b acc c cs)
  then show ?case
    by (cases acc) (auto split: if_splits)
qed simp

lemma clean_walk_snoc_Nil: "clean_walk b acc (cs @ [[]]) = clean_walk b acc cs"
  by (induction b acc cs rule: clean_walk.induct) (auto split: list.split)

lemma split_path_rooted: "split_path (CHR ''/'' # p) = [] # split_path p"
  by simp

lemma split_path_snoc: "split_path (p @ [CHR ''/'']) = split_path p @ [[]]"
  by (induction p) (auto split: list.split simp: append_eq_Cons_conv)

lemma IsAbs_iff: "IsAbs p \<longleftrightarrow> (\<exists>q. p = CHR ''/'' # q)"
  by (cases p) (auto simp: IsAbs_def HasPrefix_def)

text \<open>The parent of an absolute path other than the root is shorter.\<close>

lemma length_Clean_dir:
  assumes "IsAbs (p @ [CHR ''/''])"
  shows "length (Clean (p @ [CHR ''/''])) \<le> max 1 (length p)"
proof (cases p)
  case Nil
  then show ?thesis by (simp add: Clean_def Let_def IsAbs_iff)
next
  case (Cons c q)
  with assms have q: "p = CHR ''/'' # q" by (simp add: IsAbs_iff)
  have "length (join_path (clean_walk True [] (split_path (p @ [CHR ''/''])))) \<le> length q"
    using weight_clean_walk [of True "[]" "split_path q"] weight_split_path [of q]
    unfolding q by (simp add: split_path_snoc clean_walk_snoc_Nil length_join_path)
  with assms q show ?thesis
    by (simp add: Clean_def Let_def)
qed

lemma dir_part_abs:
  assumes "IsAbs p"
  obtains q where "dir_part p = q @ [CHR ''/'']" "IsAbs (q @ [CHR ''/''])" "length q < length p"
proof -
  obtain r where r: "p = CHR ''/'' # r" using assms by (auto simp: IsAbs_iff)
  let ?d = "dropWhile (\<lambda>c. c \<noteq> CHR ''/'') (rev p)"
  have ne: "?d \<noteq> []" by (auto simp: r dropWhile_eq_Nil_conv)
  then have hd: "hd ?d = CHR ''/''" using hd_dropWhile [OF ne] by simp
  have eq: "dir_part p = rev (tl ?d) @ [CHR ''/'']"
    unfolding dir_part_def using ne hd by (metis list.collapse rev.simps(2))
  have len: "length ?d \<le> length p" by (metis length_dropWhile_le length_rev)
  have "\<exists>s. p = dir_part p @ s"
    unfolding dir_part_def by (metis rev_append rev_rev_ident takeWhile_dropWhile_id)
  moreover have "dir_part p \<noteq> []"
    by (simp add: eq)
  ultimately have "IsAbs (dir_part p)"
    using r by (cases "dir_part p") (auto simp: IsAbs_iff)
  moreover have "length (tl ?d) < length p"
    using len ne by (cases ?d) auto
  ultimately show thesis
    using eq by (intro that [of "rev (tl ?d)"]) simp_all
qed

lemma length_Dir:
  assumes "IsAbs p" and "p \<noteq> ''/''"
  shows "length (Dir p) < length p"
proof -
  obtain q where q: "dir_part p = q @ [CHR ''/'']" "IsAbs (q @ [CHR ''/''])" "length q < length p"
    using assms(1) by (rule dir_part_abs)
  have "1 < length p"
    using assms by (cases p) (auto simp: IsAbs_iff)
  with length_Clean_dir [OF q(2)] q(1,3) show ?thesis
    by (simp add: Dir_def)
qed

lemma IsAbs_Dir:
  assumes "IsAbs p"
  shows "IsAbs (Dir p)"
proof -
  obtain q where "dir_part p = q @ [CHR ''/'']" "IsAbs (q @ [CHR ''/''])"
    using assms by (rule dir_part_abs)
  then show ?thesis
    by (simp add: Dir_def Clean_def Let_def) (simp add: IsAbs_iff)
qed

subsection \<open>The kernel's answers\<close>

datatype stat_answer =
    StatDir nat       \<comment> \<open>a directory on the device\<close>
  | StatFile nat      \<comment> \<open>anything else that exists\<close>
  | StatNotExist      \<comment> \<open>ENOENT or ENOTDIR\<close>
  | StatFailed        \<comment> \<open>any other error\<close>

record statfs_t =
  st_Frsize :: int
  st_Bsize :: int
  st_Bavail :: "64 word"
  st_Blocks :: "64 word"

record disk =
  os_Stat :: "string \<Rightarrow> stat_answer"
  os_Statfs :: "string \<Rightarrow> statfs_t option"

record space =
  sp_FreeBytes :: int
  sp_TotalBytes :: int

datatype fsx_error = FsxRelative | FsxNotDir | FsxStat | FsxNoAncestor | FsxNegative | FsxOverflow

text \<open>
  The climb; the loop ends because the parent of an absolute path other than the root is shorter. The
  path is absolute (\<open>existingAncestor\<close> checked it, and \<open>Dir\<close> keeps it so), so the branch for a relative
  path is never taken.
\<close>

function climb :: "disk \<Rightarrow> string \<Rightarrow> fsx_error + string" where
  "climb d current = (case os_Stat d current of
      StatDir _ \<Rightarrow> Inr current
    | StatFile _ \<Rightarrow> Inl FsxNotDir
    | StatFailed \<Rightarrow> Inl FsxStat
    | StatNotExist \<Rightarrow>
        if current = ''/'' then Inl FsxNoAncestor
        else if \<not> IsAbs current then Inl FsxNoAncestor
        else if Dir current = current then Inl FsxNoAncestor
        else climb d (Dir current))"
  by pat_completeness auto
termination
  by (relation "measure (\<lambda>(d, p). length p)") (auto intro: length_Dir)

declare climb.simps [simp del]

definition existingAncestor :: "disk \<Rightarrow> string \<Rightarrow> fsx_error + string" where
  "existingAncestor d path = (if \<not> IsAbs path then Inl FsxRelative else climb d path)"

definition FreeSpace :: "disk \<Rightarrow> string \<Rightarrow> fsx_error + space" where
  "FreeSpace d path = (case existingAncestor d path of
      Inl e \<Rightarrow> Inl e
    | Inr actual \<Rightarrow> (case os_Statfs d actual of
        None \<Rightarrow> Inl FsxStat
      | Some st \<Rightarrow>
          let frsize = (if st_Frsize st = 0 then st_Bsize st else st_Frsize st);
              maxInt64 = (2 ^ 63 - 1 :: 64 word) in
          if frsize < 0 then Inl FsxNegative
          else if 0 < frsize \<and> (maxInt64 div word_of_int frsize < st_Bavail st \<or>
                                maxInt64 div word_of_int frsize < st_Blocks st) then Inl FsxOverflow
          else Inr \<lparr>sp_FreeBytes = wrap64 (sint (st_Bavail st) * frsize),
                    sp_TotalBytes = wrap64 (sint (st_Blocks st) * frsize)\<rparr>))"

definition FilesystemID :: "disk \<Rightarrow> string \<Rightarrow> fsx_error + string" where
  "FilesystemID d path = (case existingAncestor d path of
      Inl e \<Rightarrow> Inl e
    | Inr actual \<Rightarrow> (case os_Stat d actual of
        StatDir dev \<Rightarrow> Inr (''dev:'' @ format_nat dev)
      | StatFile dev \<Rightarrow> Inr (''dev:'' @ format_nat dev)
      | _ \<Rightarrow> Inl FsxStat))"

definition DefaultMinFreeBytes :: int where
  "DefaultMinFreeBytes = 2147483648"

text \<open>The scan over the map in any iteration order: the pair is \<open>(floor, match)\<close>.\<close>

fun floor_scan :: "string \<Rightarrow> (string \<times> int) list \<Rightarrow> int \<times> bool \<Rightarrow> int \<times> bool" where
  "floor_scan cleaned [] st = st"
| "floor_scan cleaned ((key, value) # rest) (fl, mat) =
     floor_scan cleaned rest
       (if 0 \<le> value \<and> Clean key = cleaned \<and> (\<not> mat \<or> fl < value) then (value, True) else (fl, mat))"

definition Floor :: "(string \<times> int) list \<Rightarrow> string \<Rightarrow> int" where
  "Floor minFree rt = (case floor_scan (Clean rt) minFree (0, False) of
     (fl, mat) \<Rightarrow> if mat then fl else DefaultMinFreeBytes)"

record reservation =
  rv_FilesystemID :: string
  rv_FreeBytes :: int
  rv_CommittedBytes :: int
  rv_MinFreeBytes :: int

definition Admits :: "reservation \<Rightarrow> int \<Rightarrow> bool" where
  "Admits r remaining =
     (if rv_FreeBytes r < 0 \<or> rv_CommittedBytes r < 0 \<or> rv_MinFreeBytes r < 0 \<or> remaining < 0 then False
      else let available = rv_FreeBytes r in
        if available < rv_MinFreeBytes r then False
        else let available = wrap64 (available - rv_MinFreeBytes r) in
          if available < rv_CommittedBytes r then False
          else let available = wrap64 (available - rv_CommittedBytes r) in remaining \<le> available)"

definition withinRoot :: "string \<Rightarrow> string \<Rightarrow> bool" where
  "withinRoot path rt = (if rt = ''/'' then HasPrefix path ''/''
     else path = rt \<or> HasPrefix path (rt @ ''/''))"

definition trim_root :: "string \<Rightarrow> string" where
  "trim_root rt = (let trimmed = TrimRight1 rt (CHR ''/'') in if trimmed = '''' then ''/'' else trimmed)"

fun rootOf_loop :: "string \<Rightarrow> string list \<Rightarrow> string \<Rightarrow> string" where
  "rootOf_loop destination [] best = best"
| "rootOf_loop destination (rt # roots) best =
     rootOf_loop destination roots
       (if length best < length (trim_root rt) \<and> withinRoot destination (trim_root rt)
        then trim_root rt else best)"

definition rootOf :: "string list \<Rightarrow> string \<Rightarrow> string" where
  "rootOf roots destination = rootOf_loop destination roots ''''"

subsection \<open>Properties\<close>

text \<open>
  The reservation gate computes the inequality it documents: for 64-bit inputs no intermediate
  result wraps around, a task is admitted exactly when free space less the committed bytes less the floor
  covers its remaining bytes, and any negative input admits nothing.
\<close>

theorem Admits_correct:
  assumes "int64 (rv_FreeBytes r)" "int64 (rv_CommittedBytes r)" "int64 (rv_MinFreeBytes r)" "int64 remaining"
  shows "Admits r remaining \<longleftrightarrow>
    0 \<le> rv_FreeBytes r \<and> 0 \<le> rv_CommittedBytes r \<and> 0 \<le> rv_MinFreeBytes r \<and> 0 \<le> remaining \<and>
    remaining \<le> rv_FreeBytes r - rv_CommittedBytes r - rv_MinFreeBytes r"
proof -
  have "wrap64 (x - y) = x - y" if "0 \<le> x" "0 \<le> y" "int64 x" "int64 y" for x y
    using that by (intro wrap64_id) (auto simp: int64_def)
  moreover have "int64 (x - y)" if "0 \<le> x" "0 \<le> y" "int64 x" "int64 y" for x y
    using that by (auto simp: int64_def)
  ultimately show ?thesis
    using assms by (auto simp: Admits_def Let_def)
qed

theorem Admits_correct_witness:
  "Admits \<lparr>rv_FilesystemID = ''dev:1'', rv_FreeBytes = 9223372036854775807, rv_CommittedBytes = 5,
     rv_MinFreeBytes = 2\<rparr> 9223372036854775800"
  using Admits_correct [of "\<lparr>rv_FilesystemID = ''dev:1'', rv_FreeBytes = 9223372036854775807,
     rv_CommittedBytes = 5, rv_MinFreeBytes = 2\<rparr>" 9223372036854775800]
  by (simp add: int64_def)

lemma sint_small: "uint (b :: 64 word) < 2 ^ 63 \<Longrightarrow> sint b = uint b"
  unfolding sint_uint using signed_take_bit_int_eq_self [of 63 "uint b"] uint_ge_0 [of b] by simp

lemma int_div_less_iff:
  assumes "0 < (f::int)"
  shows "m div f < b \<longleftrightarrow> m < b * f"
proof
  assume "m div f < b"
  then have "(m div f + 1) * f \<le> b * f"
    using assms by (intro mult_right_mono) simp_all
  moreover have "m < (m div f + 1) * f"
    using div_mult_mod_eq [of m f] pos_mod_bound [OF assms, of m] unfolding distrib_right mult_1 by linarith
  ultimately show "m < b * f" by simp
next
  assume m: "m < b * f"
  show "m div f < b"
  proof (rule ccontr)
    assume "\<not> m div f < b"
    then have "b * f \<le> m div f * f"
      using assms by (intro mult_right_mono) simp_all
    moreover have "m div f * f \<le> m"
      using div_mult_mod_eq [of m f] pos_mod_sign [OF assms, of m] by linarith
    ultimately show False using m by simp
  qed
qed

lemma div_word_less:
  assumes "0 < f" "f < 2 ^ 63"
  shows "(2 ^ 63 - 1 :: 64 word) div word_of_int f < b \<longleftrightarrow> 2 ^ 63 - 1 < uint b * f"
proof -
  have f: "uint (word_of_int f :: 64 word) = f"
    using assms by (simp add: uint_word_of_int)
  have m: "uint (2 ^ 63 - 1 :: 64 word) = 2 ^ 63 - 1"
    by simp
  have "(2 ^ 63 - 1 :: 64 word) div word_of_int f < b \<longleftrightarrow> (2 ^ 63 - 1) div f < uint b"
    by (simp only: word_less_def uint_div_distrib f m)
  also have "\<dots> \<longleftrightarrow> 2 ^ 63 - 1 < uint b * f"
    by (rule int_div_less_iff [OF assms(1)])
  finally show ?thesis .
qed

text \<open>The fragment size \<open>FreeSpace\<close> multiplies by: the block size where the fragment size is zero.\<close>

definition frag_size :: "statfs_t \<Rightarrow> int" where
  "frag_size st = (if st_Frsize st = 0 then st_Bsize st else st_Frsize st)"

lemma wrap64_product:
  assumes "0 \<le> f" "f < 2 ^ 63" "f = 0 \<or> uint b * f \<le> 2 ^ 63 - 1"
  shows "wrap64 (sint (b :: 64 word) * f) = uint b * f"
proof (cases "f = 0")
  case True
  then show ?thesis by (simp add: wrap64_def)
next
  case False
  with assms have f: "1 \<le> f" and p: "uint b * f \<le> 2 ^ 63 - 1" by auto
  have "uint b * 1 \<le> uint b * f"
    using f by (intro mult_left_mono) simp_all
  with p have "sint b = uint b"
    by (intro sint_small) simp
  moreover have "0 \<le> uint b * f"
    using f by simp
  then have "int64 (uint b * f)"
    using p by (simp add: int64_def)
  ultimately show ?thesis by simp
qed

text \<open>
  A free-space answer is exact or an error: for every statfs answer of the kernel, also the absurd
  ones a broken mount gives, \<open>FreeSpace\<close> returns the true products of block counts and fragment size, and
  it reports an overflow exactly when a product does not fit in a signed 64-bit integer; a wrapped guess
  is never returned.
\<close>

theorem FreeSpace_exact:
  assumes "existingAncestor d path = Inr actual" and "os_Statfs d actual = Some st"
    and "int64 (st_Frsize st)" "int64 (st_Bsize st)"
  shows "FreeSpace d path =
    (if frag_size st < 0 then Inl FsxNegative
     else if uint (st_Bavail st) * frag_size st > 2 ^ 63 - 1 \<or> uint (st_Blocks st) * frag_size st > 2 ^ 63 - 1
     then Inl FsxOverflow
     else Inr \<lparr>sp_FreeBytes = uint (st_Bavail st) * frag_size st, sp_TotalBytes = uint (st_Blocks st) * frag_size st\<rparr>)"
proof -
  let ?f = "frag_size st"
  have f63: "?f < 2 ^ 63"
    using assms(3,4) by (simp add: frag_size_def int64_def)
  consider "?f < 0" | "?f = 0" | "0 < ?f" by linarith
  then show ?thesis
  proof cases
    case 3
    note div_word_less [OF 3 f63, simplified, simp]
    show ?thesis
      using assms(1,2) 3 f63 wrap64_product [of ?f "st_Bavail st"] wrap64_product [of ?f "st_Blocks st"]
      unfolding FreeSpace_def frag_size_def [symmetric] Let_def by (simp add: frag_size_def [symmetric])
  qed (use assms(1,2) in \<open>auto simp: FreeSpace_def frag_size_def [symmetric] Let_def wrap64_def\<close>)
qed

definition demo_disk :: disk where
  "demo_disk = \<lparr>os_Stat = (\<lambda>p. if p = ''/data'' \<or> p = ''/'' then StatDir 7 else StatNotExist),
     os_Statfs = (\<lambda>p. Some \<lparr>st_Frsize = 4096, st_Bsize = 512, st_Bavail = 10, st_Blocks = 20\<rparr>)\<rparr>"

lemma demo_ancestor: "existingAncestor demo_disk ''/data/a'' = Inr ''/data''"
  by (simp add: existingAncestor_def climb.simps demo_disk_def IsAbs_def HasPrefix_def Dir_def dir_part_def Clean_def)

theorem FreeSpace_exact_witness:
  "FreeSpace demo_disk ''/data/a'' = Inr \<lparr>sp_FreeBytes = 40960, sp_TotalBytes = 81920\<rparr>"
  using FreeSpace_exact [OF demo_ancestor, of "\<lparr>st_Frsize = 4096, st_Bsize = 512, st_Bavail = 10, st_Blocks = 20\<rparr>"]
  by (simp add: demo_disk_def int64_def frag_size_def)

lemma Dir_root: "Dir ''/'' = ''/''"
  by (simp add: Dir_def dir_part_def Clean_def IsAbs_def HasPrefix_def)

lemma climb_Inr:
  assumes "climb d p = Inr a"
  shows "\<exists>n dev. a = (Dir ^^ n) p \<and> os_Stat d a = StatDir dev \<and> (\<forall>k < n. os_Stat d ((Dir ^^ k) p) = StatNotExist)"
  using assms
proof (induction d p rule: climb.induct)
  case (1 d p)
  show ?case
  proof (cases "os_Stat d p")
    case (StatDir dev)
    with "1.prems" have "a = p" by (simp add: climb.simps)
    with StatDir show ?thesis
      by (simp add: exI [of _ dev] exI [of _ "0::nat"])
  next
    case StatNotExist
    with "1.prems" have c: "p \<noteq> ''/''" "IsAbs p" "Dir p \<noteq> p" "climb d (Dir p) = Inr a"
      by (simp_all add: climb.simps [of d p] split: if_splits)
    then obtain n dev where n: "a = (Dir ^^ n) (Dir p)" "os_Stat d a = StatDir dev"
        "\<forall>k < n. os_Stat d ((Dir ^^ k) (Dir p)) = StatNotExist"
      using "1.IH" StatNotExist by blast
    have "os_Stat d ((Dir ^^ k) p) = StatNotExist" if "k < Suc n" for k
      using that n(3) StatNotExist by (cases k) (simp_all add: funpow_swap1)
    with n(1,2) show ?thesis
      by (intro exI [of _ "Suc n"] exI [of _ dev]) (simp add: funpow_swap1)
  qed (use "1.prems" in \<open>simp_all add: climb.simps\<close>)
qed

lemma climb_found:
  "IsAbs p \<Longrightarrow> os_Stat d ((Dir ^^ n) p) = StatDir dev \<Longrightarrow> \<forall>k < n. os_Stat d ((Dir ^^ k) p) = StatNotExist \<Longrightarrow>
   climb d p = Inr ((Dir ^^ n) p)"
proof (induction n arbitrary: p)
  case (Suc n)
  have now: "os_Stat d p = StatNotExist"
    using Suc.prems(3) by auto
  have stay: "(Dir ^^ m) p = p" if "Dir p = p" for m
    using that by (induction m) auto
  have "Dir p \<noteq> p"
    using now Suc.prems(2) stay [of "Suc n"] by (auto simp del: funpow.simps)
  moreover have "p \<noteq> ''/''"
    using calculation Dir_root by auto
  moreover have "climb d (Dir p) = Inr ((Dir ^^ n) (Dir p))"
    using Suc.prems by (intro Suc.IH IsAbs_Dir) (auto simp: funpow_swap1 dest: spec [of _ "Suc _"])
  ultimately show ?case
    using now Suc.prems(1) by (simp add: climb.simps [of d p] funpow_swap1)
qed (simp add: climb.simps)

text \<open>
  The climb to the nearest existing ancestor finds exactly that: it always ends, and it returns a
  path precisely when that path is a directory reached by taking parents and every path before it on the
  way is reported missing; a file in the way or an unreadable path is an error, never somebody else's
  space.
\<close>

theorem existingAncestor_correct:
  "existingAncestor d path = Inr a \<longleftrightarrow>
    IsAbs path \<and> (\<exists>n dev. a = (Dir ^^ n) path \<and> os_Stat d a = StatDir dev \<and>
      list_all (\<lambda>k. os_Stat d ((Dir ^^ k) path) = StatNotExist) [0..<n])"
proof -
  have all: "list_all Q [0..<n] \<longleftrightarrow> (\<forall>k < n. Q k)" for Q n
    by (auto simp: list_all_iff)
  have "climb d path = Inr a \<longleftrightarrow> (\<exists>n dev. a = (Dir ^^ n) path \<and> os_Stat d a = StatDir dev \<and>
      (\<forall>k < n. os_Stat d ((Dir ^^ k) path) = StatNotExist))" if "IsAbs path"
    using climb_Inr [of d path a] climb_found [OF that, of d] by blast
  then show ?thesis
    by (auto simp: existingAncestor_def all)
qed

text \<open>The values of the entries that name a root.\<close>

definition floors_of :: "(string \<times> int) list \<Rightarrow> string \<Rightarrow> int set" where
  "floors_of minFree rt = {v. \<exists>k. (k, v) \<in> set minFree \<and> 0 \<le> v \<and> Clean k = Clean rt}"

lemma finite_floors_of: "finite (floors_of m rt)"
  by (rule finite_subset [of _ "snd ` set m"]) (force simp: floors_of_def)+

lemma floors_of_Cons:
  "floors_of ((k, v) # m) rt = (if 0 \<le> v \<and> Clean k = Clean rt then insert v (floors_of m rt) else floors_of m rt)"
  by (auto simp: floors_of_def)

lemma floor_scan_eq:
  "floor_scan (Clean rt) m (fl, mat) =
     (if mat then (Max (insert fl (floors_of m rt)), True)
      else if floors_of m rt = {} then (fl, False) else (Max (floors_of m rt), True))"
proof (induction m arbitrary: fl mat)
  case Nil
  then show ?case by (simp add: floors_of_def)
next
  case (Cons e m)
  obtain k v where e: "e = (k, v)" by (cases e)
  have "fl < v \<Longrightarrow> Max (insert fl (insert v A)) = Max (insert v A)" if "finite A" for A :: "int set"
    using that by (cases "A = {}") (auto simp: max_def)
  moreover have "\<not> fl < v \<Longrightarrow> Max (insert fl (insert v A)) = Max (insert fl A)" if "finite A" for A :: "int set"
    using that by (cases "A = {}") (auto simp: max_def)
  ultimately show ?case
    using finite_floors_of [of m rt] by (auto simp: e Cons.IH floors_of_Cons)
qed

text \<open>
  The floor of a root does not depend on the iteration order of the settings map nor on the
  spelling of its keys: it is the largest non-negative value of the entries whose key cleans to the root,
  an explicit zero included, and the two-gigabyte default exactly when there is none.
\<close>

theorem Floor_correct:
  "Floor minFree rt = (if floors_of minFree rt = {} then DefaultMinFreeBytes else Max (floors_of minFree rt))"
  by (simp add: Floor_def floor_scan_eq)

lemma rootOf_loop_correct:
  "best = '''' \<or> withinRoot dest best \<Longrightarrow>
   (let b = rootOf_loop dest roots best in
     (b = best \<or> (b \<in> trim_root ` set roots \<and> withinRoot dest b)) \<and> length best \<le> length b \<and>
     (\<forall>r \<in> set roots. withinRoot dest (trim_root r) \<longrightarrow> length (trim_root r) \<le> length b))"
proof (induction roots arbitrary: best)
  case (Cons r rs)
  show ?case
  proof (cases "length best < length (trim_root r) \<and> withinRoot dest (trim_root r)")
    case True
    with Cons.IH [of "trim_root r"] show ?thesis by (auto simp: Let_def)
  next
    case False
    with Cons.IH [OF Cons.prems] show ?thesis by (auto simp: Let_def)
  qed
qed simp

lemma trim_root_not_empty: "trim_root r \<noteq> ''''"
  by (simp add: trim_root_def Let_def)

text \<open>
  The root of a destination is the innermost configured root that owns it by whole path segments:
  no owning root is longer, and the answer is empty exactly when no root owns the destination.
\<close>

theorem rootOf_correct:
  "(if \<exists>r \<in> set roots. withinRoot dest (trim_root r)
    then rootOf roots dest \<in> trim_root ` set roots \<and> withinRoot dest (rootOf roots dest) \<and>
      Max (length ` {x \<in> trim_root ` set roots. withinRoot dest x}) = length (rootOf roots dest)
    else rootOf roots dest = '''')"
proof -
  let ?b = "rootOf roots dest"
  have b: "?b = '''' \<or> (?b \<in> trim_root ` set roots \<and> withinRoot dest ?b)"
    "\<forall>r \<in> set roots. withinRoot dest (trim_root r) \<longrightarrow> length (trim_root r) \<le> length ?b"
    using rootOf_loop_correct [of "''''" dest roots] by (auto simp: rootOf_def Let_def)
  show ?thesis
  proof (cases "\<exists>r \<in> set roots. withinRoot dest (trim_root r)")
    case True
    then have own: "?b \<in> trim_root ` set roots" "withinRoot dest ?b"
      using b trim_root_not_empty by (fastforce, fastforce)
    then have "Max (length ` {x \<in> trim_root ` set roots. withinRoot dest x}) = length ?b"
      by (intro Max_eqI) (use b(2) in auto)
    with True own show ?thesis by simp
  next
    case False
    with b(1) show ?thesis by auto
  qed
qed

end
