(* ===== verification/Admission.thy ===== *)
theory Admission
  imports EngineApi DiskSpace
begin

section \<open>The admission controller\<close>

text \<open>
  \<open>src/internal/engine/admission.go\<close>: the pass that decides alone which queued task reaches an engine.
  \<open>Pass\<close> reads the counts, the candidates and the reservations once, then walks the candidates; each is
  processed under its task-operation lease: revalidated, gated by the two limits and by the space
  reservation, and released by \<open>release\<close>, which talks to the engine.

  \<^item> The parameters: \<open>engines\<close> (the registered engines), \<open>d\<close> (the kernel's file-system answers) and
    \<open>env\<close>, what other goroutines do to the world before the i-th candidate is looked at. The source's walk
    is the one for some \<open>env\<close>; theorems hold for every one.
  \<^item> Log lines are not modelled. The detached contexts of the compensating calls only change deadlines.
\<close>

definition ErrorCodeConcurrencyLimit :: string where "ErrorCodeConcurrencyLimit = ''concurrency_limit''"
definition ErrorCodeDiskFull :: string where "ErrorCodeDiskFull = ''disk_full''"

record limits =
  l_MaxActiveTotal :: int
  l_MaxActivePerEngine :: int

record policy =
  p_Limits :: limits
  p_MinFree :: "(string \<times> int) list"
  p_Roots :: "string list"

definition Blocked :: "limits \<Rightarrow> active_counts \<Rightarrow> string \<Rightarrow> bool \<times> string" where
  "Blocked l c engineName =
     (if 0 < l_MaxActiveTotal l \<and> l_MaxActiveTotal l \<le> int (ac_Total c) then
        (True, Itoa (int (ac_Total c)) @ '' of '' @ Itoa (l_MaxActiveTotal l) @ '' slots in use'')
      else if 0 < l_MaxActivePerEngine l \<and> l_MaxActivePerEngine l \<le> int (ac_ByEngine c engineName) then
        (True, Itoa (int (ac_ByEngine c engineName)) @ '' of '' @ Itoa (l_MaxActivePerEngine l) @ '' '' @
           engineName @ '' slots in use'')
      else (False, ''''))"

definition candidateStillCurrent :: "candidate \<Rightarrow> task \<Rightarrow> bool" where
  "candidateStillCurrent cand current =
     (if c_State cand = StatePaused
      then t_state current = StatePaused \<and> t_error_code current = Some ErrorCodeDiskFull
      else t_state current = StateQueued)"

subsection \<open>The space gate\<close>

record space_gate =
  g_policy :: policy
  g_commits :: "string \<Rightarrow> int"
  g_ids :: "string \<Rightarrow> string option"
  g_spaces :: "string \<Rightarrow> space option"
  g_unreadable :: "string \<Rightarrow> bool"

text \<open>The empty text is the cached miss.\<close>

definition filesystemOf :: "disk \<Rightarrow> string \<Rightarrow> space_gate \<Rightarrow> string option \<times> space_gate" where
  "filesystemOf d destination g = (case g_ids g destination of
      Some fsID \<Rightarrow> (if fsID = '''' then None else Some fsID, g)
    | None \<Rightarrow> (case FilesystemID d destination of
        Inl _ \<Rightarrow> (None, g\<lparr>g_ids := (g_ids g)(destination \<mapsto> '''')\<rparr>)
      | Inr fsID \<Rightarrow> (Some fsID, g\<lparr>g_ids := (g_ids g)(destination \<mapsto> fsID)\<rparr>)))"

definition add_commit :: "string \<Rightarrow> int \<Rightarrow> space_gate \<Rightarrow> space_gate" where
  "add_commit fsID n g = g\<lparr>g_commits := (g_commits g)(fsID := wrap64 (g_commits g fsID + n))\<rparr>"

fun fold_destinations :: "disk \<Rightarrow> (string \<times> int) list \<Rightarrow> space_gate \<Rightarrow> space_gate" where
  "fold_destinations d [] g = g"
| "fold_destinations d ((destination, remaining) # rest) g =
     (case filesystemOf d destination g of
        (None, g') \<Rightarrow> fold_destinations d rest g'
      | (Some fsID, g') \<Rightarrow> fold_destinations d rest (add_commit fsID remaining g'))"

definition spaceGate :: "disk \<Rightarrow> policy \<Rightarrow> (('e, 'z) world_scheme, store_error + space_gate) action" where
  "spaceGate d p = do {
     r \<leftarrow> SumRemainingByDestination;
     case r of
       Inl e \<Rightarrow> ret (Inl e)
     | Inr perDestination \<Rightarrow> ret (Inr (fold_destinations d perDestination
         \<lparr>g_policy = p, g_commits = (\<lambda>_. 0), g_ids = (\<lambda>_. None), g_spaces = (\<lambda>_. None), g_unreadable = (\<lambda>_. False)\<rparr>))
   }"

definition make_reservation :: "string \<Rightarrow> space \<Rightarrow> string \<Rightarrow> space_gate \<Rightarrow> reservation" where
  "make_reservation fsID sp destination g =
     \<lparr>rv_FilesystemID = fsID, rv_FreeBytes = sp_FreeBytes sp, rv_CommittedBytes = g_commits g fsID,
      rv_MinFreeBytes = Floor (p_MinFree (g_policy g)) (rootOf (p_Roots (g_policy g)) destination)\<rparr>"

definition reservation_of :: "disk \<Rightarrow> string \<Rightarrow> space_gate \<Rightarrow> reservation option \<times> space_gate" where
  "reservation_of d destination g = (case filesystemOf d destination g of
      (None, g1) \<Rightarrow> (None, g1)
    | (Some fsID, g1) \<Rightarrow>
        if g_unreadable g1 fsID then (None, g1)
        else (case g_spaces g1 fsID of
            Some sp \<Rightarrow> (Some (make_reservation fsID sp destination g1), g1)
          | None \<Rightarrow> (case FreeSpace d destination of
              Inl _ \<Rightarrow> (None, g1\<lparr>g_unreadable := (g_unreadable g1)(fsID := True)\<rparr>)
            | Inr sp \<Rightarrow> let g2 = g1\<lparr>g_spaces := (g_spaces g1)(fsID \<mapsto> sp)\<rparr> in
                (Some (make_reservation fsID sp destination g2), g2))))"

definition remainingBytes :: "candidate \<Rightarrow> int" where
  "remainingBytes cand = (case c_TotalBytes cand of
      None \<Rightarrow> 0
    | Some n \<Rightarrow> (let remaining = wrap64 (n - c_CompletedBytes cand) in if 0 < remaining then remaining else 0))"

definition holdMessage :: string where
  "holdMessage = ''not enough free space beside the committed bytes and the floor; the task starts once space returns''"

definition diskFullMessage :: string where
  "diskFullMessage = ''no space left on device; the task resumes once space returns''"

definition pauseDiskFullEventMessage :: string where
  "pauseDiskFullEventMessage = ''paused by the disk-space guard: no space left on device''"

definition holds :: "disk \<Rightarrow> candidate \<Rightarrow> space_gate \<Rightarrow> (bool \<times> string) \<times> space_gate" where
  "holds d cand g = (case reservation_of d (c_Destination cand) g of
      (None, g') \<Rightarrow> ((False, ''''), g')
    | (Some rv, g') \<Rightarrow> (if Admits rv (remainingBytes cand) then (False, '''') else (True, holdMessage), g'))"

definition holdsParked :: "disk \<Rightarrow> candidate \<Rightarrow> space_gate \<Rightarrow> (bool \<times> string) \<times> space_gate" where
  "holdsParked d cand g = (case reservation_of d (c_Destination cand) g of
      (None, g') \<Rightarrow> ((True, diskFullMessage), g')
    | (Some rv, g') \<Rightarrow> (if Admits rv (remainingBytes cand) then (False, '''') else (True, diskFullMessage), g'))"

definition commit_candidate :: "disk \<Rightarrow> candidate \<Rightarrow> space_gate \<Rightarrow> space_gate" where
  "commit_candidate d cand g = (case filesystemOf d (c_Destination cand) g of
      (None, g') \<Rightarrow> g'
    | (Some fsID, g') \<Rightarrow> add_commit fsID (remainingBytes cand) g')"

subsection \<open>Writes of the pass\<close>

definition stampHeld :: "candidate \<Rightarrow> string \<Rightarrow> string \<Rightarrow> (('e, 'z) world_scheme, unit) action" where
  "stampHeld cand code message = do {
     _ \<leftarrow> SetErrorCodeIfState (c_ID cand) (c_State cand) code message; ret ()
   }"

definition clearHoldCode :: "string \<Rightarrow> (('e, 'z) world_scheme, unit) action" where
  "clearHoldCode tid = do { _ \<leftarrow> ClearHoldCode tid; ret () }"

definition clearStaleStamp :: "string \<Rightarrow> (('e, 'z) world_scheme, unit) action" where
  "clearStaleStamp tid = clearHoldCode tid"

definition markReleased :: "string \<Rightarrow> (('e, 'z) world_scheme, store_error + unit) action" where
  "markReleased tid = do {
     r \<leftarrow> Transition tid StateDownloading CodeTaskResumed ''released by the admission pass'';
     case r of
       Inl e \<Rightarrow> ret (Inl e)
     | Inr _ \<Rightarrow> do { _ \<leftarrow> clearHoldCode tid; ret (Inr ()) }
   }"

definition requeuePendingSelection :: "candidate \<Rightarrow> (('e, 'z) world_scheme, bool) action" where
  "requeuePendingSelection cand = do {
     q \<leftarrow> (if c_State cand = StatePaused
        then Transition (c_ID cand) StateQueued CodeTaskResumed
          ''file selection waits for the engine's file listing; requeued for retry''
        else ret (Inr ()));
     case q of
       Inl _ \<Rightarrow> ret False
     | Inr _ \<Rightarrow> do {
         m \<leftarrow> MarkAdmissionPending (c_ID cand);
         ret (case m of Inl _ \<Rightarrow> False | Inr marked \<Rightarrow> marked)
       }
   }"

definition markAdmissionPending :: "string \<Rightarrow> (('e, 'z) world_scheme, store_error + bool) action" where
  "markAdmissionPending tid = do {
     m \<leftarrow> MarkAdmissionPending tid;
     ret (case m of Inl e \<Rightarrow> if e = SErrNotFound then Inr False else Inl e | Inr marked \<Rightarrow> Inr marked)
   }"

definition stopUnownedTransfer :: "'e engine \<Rightarrow> string \<Rightarrow> (('e, 'z) world_scheme, unit) action" where
  "stopUnownedTransfer e handle = do { _ \<leftarrow> e_Pause e handle; ret () }"

definition resumeForMetadata :: "'e engine \<Rightarrow> string \<Rightarrow> (('e, 'z) world_scheme, unit) action" where
  "resumeForMetadata e handle = do { _ \<leftarrow> e_Resume e handle; ret () }"

definition removeStrandedTransfer :: "'e engine \<Rightarrow> string \<Rightarrow> (('e, 'z) world_scheme, unit) action" where
  "removeStrandedTransfer e newID = do { _ \<leftarrow> e_Remove e newID; ret () }"

text \<open>
  A failed release write over a running transfer: record the ownership, and stop the transfer when even
  that fails and nothing durable owns it.
\<close>

definition own_or_stop :: "'e engine \<Rightarrow> candidate \<Rightarrow> string \<Rightarrow> (('e, 'z) world_scheme, unit) action" where
  "own_or_stop e cand handle = do {
     m \<leftarrow> markAdmissionPending (c_ID cand);
     case m of
       Inl _ \<Rightarrow> if c_State cand = StateQueued \<and> c_AdmissionPending cand = 0
         then stopUnownedTransfer e handle else ret ()
     | Inr _ \<Rightarrow> ret ()
   }"

subsection \<open>The release\<close>

definition quoted :: "string \<Rightarrow> string" where
  "quoted v = CHR 0x22 # v @ [CHR 0x22]"

definition stopped_result_error :: "candidate \<Rightarrow> string \<Rightarrow> task_info \<Rightarrow> eng_error" where
  "stopped_result_error cand handle info =
     EngError (''engine '' @ quoted (c_Engine cand) @ '' holds a stopped result for '' @ quoted handle @ '': '' @
       ti_ErrorCode info @ '' '' @ ti_ErrorMessage info)"

text \<open>The resume path of a candidate with a handle; \<open>None\<close> falls through to \<open>Add\<close>.\<close>

definition resume_running :: "'e engine \<Rightarrow> candidate \<Rightarrow> selection_intent option \<Rightarrow> string \<Rightarrow>
  (('e, 'z) world_scheme, (adm_error + unit) option) action" where
  "resume_running e cand sel handle = do {
     intent \<leftarrow> applyPersistedIntent e handle (c_DLLimit cand) (c_ULLimit cand) sel;
     case intent of
       Inr _ \<Rightarrow> do {
         r \<leftarrow> e_Resume e handle;
         case r of
           Inl err \<Rightarrow> ret (if err = ErrNotFound then None else Some (Inl (AEngine err)))
         | Inr _ \<Rightarrow> do {
             m \<leftarrow> markReleased (c_ID cand);
             case m of
               Inl err \<Rightarrow> do { _ \<leftarrow> own_or_stop e cand handle; ret (Some (Inl (AStoreWrite err))) }
             | Inr _ \<Rightarrow> ret (Some (Inr ()))
           }
       }
     | Inl err \<Rightarrow>
         if err = AEngine ErrNotFound then ret None
         else if err = ASelectionPending then do {
           q \<leftarrow> requeuePendingSelection cand;
           _ \<leftarrow> (if q then resumeForMetadata e handle else ret ());
           ret (Some (Inl ASelectionPending))
         }
         else ret (Some (Inl err))
   }"

definition resume_path :: "'e engine \<Rightarrow> candidate \<Rightarrow> selection_intent option \<Rightarrow> string \<Rightarrow>
  (('e, 'z) world_scheme, (adm_error + unit) option) action" where
  "resume_path e cand sel ref = do {
     let handle = namespacedHandle (c_Engine cand) ref;
     g \<leftarrow> e_Get e handle;
     case g of
       Inl err \<Rightarrow> ret (if err = ErrNotFound then None else Some (Inl (AEngine err)))
     | Inr info \<Rightarrow>
         if ti_State info = StateError then
           ret (if ti_ErrorCode info \<noteq> ErrorCodeDiskFull
             then Some (Inl (AEngine (stopped_result_error cand handle info))) else None)
         else if sel \<noteq> None \<and> ti_State info = StateDownloading then do {
           p \<leftarrow> e_Pause e handle;
           case p of
             Inl err \<Rightarrow> ret (if err = ErrNotFound then None else Some (Inl (AEngine err)))
           | Inr _ \<Rightarrow> resume_running e cand sel handle
         }
         else resume_running e cand sel handle
   }"

text \<open>Which failures of the intent on a fresh transfer are a wait rather than a refusal.\<close>

definition intent_waits :: "adm_error \<Rightarrow> bool" where
  "intent_waits err \<longleftrightarrow> err = ASelectionPending \<or> err = AEngine ErrUnavailable \<or> err = AEngine ErrNotFound"

definition add_path :: "'e engine \<Rightarrow> candidate \<Rightarrow> selection_intent option \<Rightarrow> (('e, 'z) world_scheme, adm_error + unit) action" where
  "add_path e cand sel = (case admissionRequest cand sel of
      None \<Rightarrow> ret (Inl ANoSubmission)
    | Some req \<Rightarrow> do {
        a \<leftarrow> e_Add e req;
        case a of
          Inl err \<Rightarrow> ret (Inl (AEngine err))
        | Inr newID \<Rightarrow> do {
            intent \<leftarrow> applyPersistedIntent e newID (c_DLLimit cand) (c_ULLimit cand) sel;
            case intent of
              Inl err \<Rightarrow>
                if \<not> intent_waits err then do {
                  _ \<leftarrow> removeStrandedTransfer e newID; ret (Inl err)
                }
                else do {
                  s \<leftarrow> SetEngineRef (c_ID cand) (bareHandle (c_Engine cand) newID);
                  case s of
                    Inl serr \<Rightarrow> do { _ \<leftarrow> removeStrandedTransfer e newID; ret (Inl (AStoreWrite serr)) }
                  | Inr _ \<Rightarrow>
                      if err = ASelectionPending then do {
                        q \<leftarrow> requeuePendingSelection cand;
                        _ \<leftarrow> (if q then resumeForMetadata e newID else ret ());
                        ret (Inl ASelectionPending)
                      }
                      else ret (Inl AReleaseIncomplete)
                }
            | Inr _ \<Rightarrow> do {
                s \<leftarrow> SetEngineRef (c_ID cand) (bareHandle (c_Engine cand) newID);
                case s of
                  Inl serr \<Rightarrow> do { _ \<leftarrow> removeStrandedTransfer e newID; ret (Inl (AStoreWrite serr)) }
                | Inr _ \<Rightarrow> do {
                    st \<leftarrow> (if ar_StartPaused req then e_Resume e newID else ret (Inr ()));
                    case st of
                      Inl _ \<Rightarrow> ret (Inl AReleaseIncomplete)
                    | Inr _ \<Rightarrow> do {
                        m \<leftarrow> markReleased (c_ID cand);
                        case m of
                          Inl err \<Rightarrow> do { _ \<leftarrow> own_or_stop e cand newID; ret (Inl (AStoreWrite err)) }
                        | Inr _ \<Rightarrow> ret (Inr ())
                      }
                  }
              }
          }
      })"

definition release :: "'e engines \<Rightarrow> candidate \<Rightarrow> (('e, 'z) world_scheme, adm_error + unit) action" where
  "release engines cand = (case engines (c_Engine cand) of
      None \<Rightarrow> ret (Inl (AEngine ErrUnavailable))
    | Some e \<Rightarrow> do {
        let sel = (case decodeSelectionIntent (c_SelectFiles cand) of Inl _ \<Rightarrow> None | Inr s \<Rightarrow> s);
        case c_EngineRef cand of
          None \<Rightarrow> add_path e cand sel
        | Some ref \<Rightarrow> do {
            r \<leftarrow> resume_path e cand sel ref;
            case r of Some res \<Rightarrow> ret res | None \<Rightarrow> add_path e cand sel
          }
      })"

fun eng_error_text :: "eng_error \<Rightarrow> string" where
  "eng_error_text ErrNotFound = ''engine: task not found''"
| "eng_error_text ErrUnavailable = ''engine: daemon unreachable or session refused''"
| "eng_error_text ErrNotSupported = ''engine: capability not supported''"
| "eng_error_text (EngError v) = v"

definition releaseFailed :: "candidate \<Rightarrow> adm_error \<Rightarrow> (('e, 'z) world_scheme, unit) action" where
  "releaseFailed cand cause = (case cause of
      AStoreWrite _ \<Rightarrow> clearStaleStamp (c_ID cand)
    | ANoSubmission \<Rightarrow> clearStaleStamp (c_ID cand)
    | ASelectionPending \<Rightarrow> clearStaleStamp (c_ID cand)
    | AReleaseIncomplete \<Rightarrow> clearStaleStamp (c_ID cand)
    | AEngine err \<Rightarrow>
        if err = ErrUnavailable then clearStaleStamp (c_ID cand)
        else do {
          _ \<leftarrow> Transition (c_ID cand) StateError CodeEngineRejected
            (''engine '' @ quoted (c_Engine cand) @ '' refused the task: '' @ eng_error_text err);
          ret ()
        })"

subsection \<open>One candidate, and the pass\<close>

datatype release_outcome = OutcomeHeld | OutcomeReleased | OutcomeSpent

datatype pass_error = PErrStore store_error | PErrCtx | PErrSkipped nat

text \<open>The gates of a candidate: the hold to stamp, if any, and whether the candidate is held.\<close>

datatype gate_answer = GateOpen | GateHeld | GateStamp string string

definition candidate_gate :: "disk \<Rightarrow> policy \<Rightarrow> candidate \<Rightarrow> active_counts \<Rightarrow> space_gate \<Rightarrow> gate_answer \<times> space_gate" where
  "candidate_gate d p cand counts gate =
     (if c_State cand = StatePaused then
        (case holdsParked d cand gate of
           ((True, message), g') \<Rightarrow> (GateStamp ErrorCodeDiskFull message, g')
         | ((False, _), g') \<Rightarrow> (if fst (Blocked (p_Limits p) counts (c_Engine cand)) then GateHeld else GateOpen, g'))
      else if c_AdmissionPending cand = 0 then
        (case Blocked (p_Limits p) counts (c_Engine cand) of
           (True, message) \<Rightarrow> (GateStamp ErrorCodeConcurrencyLimit message, gate)
         | (False, _) \<Rightarrow> (case holds d cand gate of
             ((True, message), g') \<Rightarrow> (GateStamp ErrorCodeDiskFull message, g')
           | ((False, _), g') \<Rightarrow> (GateOpen, g')))
      else (GateOpen, gate))"

definition release_candidate :: "'e engines \<Rightarrow> candidate \<Rightarrow> (('e, 'z) world_scheme, pass_error + release_outcome) action" where
  "release_candidate engines cand = do {
     claim \<leftarrow> (if c_State cand = StatePaused then ClaimParkedDiskFull (c_ID cand) else ret (Inr True));
     case claim of
       Inl err \<Rightarrow> ret (if err = SErrNotFound then Inr OutcomeHeld else Inl (PErrStore err))
     | Inr taken \<Rightarrow>
         if \<not> taken then ret (Inr OutcomeHeld)
         else do {
           r \<leftarrow> release engines cand;
           case r of
             Inr _ \<Rightarrow> ret (Inr OutcomeReleased)
           | Inl err \<Rightarrow> do {
               gone \<leftarrow> reader ctx_done;
               if gone then ret (Inl PErrCtx)
               else do {
                 _ \<leftarrow> releaseFailed cand err;
                 ret (Inr (case err of
                     ASelectionPending \<Rightarrow> OutcomeSpent
                   | AReleaseIncomplete \<Rightarrow> OutcomeSpent
                   | AStoreWrite _ \<Rightarrow> if c_EngineRef cand \<noteq> None then OutcomeSpent else OutcomeHeld
                   | _ \<Rightarrow> OutcomeHeld))
               }
             }
         }
   }"

definition refresh_intent :: "candidate \<Rightarrow> task \<Rightarrow> candidate" where
  "refresh_intent cand current = cand\<lparr>c_SelectFiles := t_select_files current,
     c_DLLimit := t_dl_limit current, c_ULLimit := t_ul_limit current\<rparr>"

definition processCandidate ::
  "'e engines \<Rightarrow> disk \<Rightarrow> policy \<Rightarrow> candidate \<Rightarrow> active_counts \<Rightarrow> space_gate \<Rightarrow>
   (('e, 'z) world_scheme, (pass_error + release_outcome) \<times> space_gate) action" where
  "processCandidate engines d p cand0 counts gate = do {
     cur \<leftarrow> GetTask (c_ID cand0);
     case cur of
       Inl err \<Rightarrow> ret (if err = SErrNotFound then Inr OutcomeHeld else Inl (PErrStore err), gate)
     | Inr current \<Rightarrow>
         if \<not> candidateStillCurrent cand0 current then ret (Inr OutcomeHeld, gate)
         else do {
           let cand = refresh_intent cand0 current;
           case candidate_gate d p cand counts gate of
             (GateStamp code message, g') \<Rightarrow> do { _ \<leftarrow> stampHeld cand code message; ret (Inr OutcomeHeld, g') }
           | (GateHeld, g') \<Rightarrow> ret (Inr OutcomeHeld, g')
           | (GateOpen, g') \<Rightarrow> do { r \<leftarrow> release_candidate engines cand; ret (r, g') }
         }
   }"

text \<open>
  The walk. Its state: the index for \<open>env\<close>, the counts and the gate with what this pass has promised, the
  released ids and the number of candidates skipped after a store error.
\<close>

fun pass_loop ::
  "'e engines \<Rightarrow> disk \<Rightarrow> policy \<Rightarrow> (nat \<Rightarrow> (('e, 'z) world_scheme, unit) action) \<Rightarrow> nat \<Rightarrow> candidate list \<Rightarrow>
   active_counts \<Rightarrow> space_gate \<Rightarrow> string list \<Rightarrow> nat \<Rightarrow>
   (('e, 'z) world_scheme, string list \<times> pass_error option) action" where
  "pass_loop engines d p env i [] counts gate released storeErrs =
     ret (released, if 0 < storeErrs \<and> released = [] then Some (PErrSkipped storeErrs) else None)"
| "pass_loop engines d p env i (cand # cands) counts gate released storeErrs = do {
     _ \<leftarrow> env i;
     gone \<leftarrow> reader ctx_done;
     if gone then ret (released, Some PErrCtx)
     else do {
       lease \<leftarrow> tryLease (c_ID cand);
       case lease of
         None \<Rightarrow> pass_loop engines d p env (Suc i) cands counts gate released storeErrs
       | Some l \<Rightarrow> do {
           res \<leftarrow> processCandidate engines d p cand counts gate;
           _ \<leftarrow> releaseLease (c_ID cand) l;
           case res of
             (Inl err, g') \<Rightarrow> do {
               gone' \<leftarrow> reader ctx_done;
               if gone' then ret (released, Some PErrCtx)
               else pass_loop engines d p env (Suc i) cands counts g' released (Suc storeErrs)
             }
           | (Inr outcome, g') \<Rightarrow>
               if outcome = OutcomeHeld then pass_loop engines d p env (Suc i) cands counts g' released storeErrs
               else (let spend = (c_State cand \<noteq> StateQueued \<or> c_AdmissionPending cand = 0);
                         counts' = (if spend then Reserve (c_Engine cand) counts else counts);
                         gate' = (if spend then commit_candidate d cand g' else g');
                         released' = (if outcome = OutcomeReleased then released @ [c_ID cand] else released) in
                     pass_loop engines d p env (Suc i) cands counts' gate' released' storeErrs)
         }
     }
   }"

definition candidatesUnbounded :: int where
  "candidatesUnbounded = 2 ^ 63 - 1"

definition Pass ::
  "'e engines \<Rightarrow> disk \<Rightarrow> (nat \<Rightarrow> (('e, 'z) world_scheme, unit) action) \<Rightarrow> policy \<Rightarrow>
   (('e, 'z) world_scheme, string list \<times> pass_error option) action" where
  "Pass engines d env p = do {
     c \<leftarrow> CountActive;
     case c of Inl err \<Rightarrow> ret ([], Some (PErrStore err)) | Inr counts \<Rightarrow> do {
       cs \<leftarrow> SelectQueuedCandidates candidatesUnbounded;
       case cs of Inl err \<Rightarrow> ret ([], Some (PErrStore err)) | Inr cands \<Rightarrow> do {
         g \<leftarrow> spaceGate d p;
         case g of Inl err \<Rightarrow> ret ([], Some (PErrStore err))
         | Inr gate \<Rightarrow> pass_loop engines d p env 0 cands counts gate [] 0
       }
     }
   }"

subsection \<open>The disk-full pause\<close>

definition diskFullPauseSources :: "task_state list" where
  "diskFullPauseSources = [StateDownloading, StateChecking, StateExtracting, StateMoving]"

datatype pause_error = PauseStore store_error | PauseNotGuards | PauseWrongState

definition pauseEngineSide :: "'e engines \<Rightarrow> task \<Rightarrow> (('e, 'z) world_scheme, unit) action" where
  "pauseEngineSide engines tsk = (case t_engine_ref tsk of
      None \<Rightarrow> ret ()
    | Some ref \<Rightarrow> (case engines (t_engine tsk) of
        None \<Rightarrow> ret ()
      | Some e \<Rightarrow> do { _ \<leftarrow> e_Pause e (namespacedHandle (t_engine tsk) ref); ret () }))"

definition PauseDiskFull :: "'e engines \<Rightarrow> string \<Rightarrow> (('e, 'z) world_scheme, pause_error + unit) action" where
  "PauseDiskFull engines tid = do {
     g \<leftarrow> GetTask tid;
     case g of
       Inl err \<Rightarrow> ret (if err = SErrNotFound then Inr () else Inl (PauseStore err))
     | Inr tsk \<Rightarrow>
         if t_state tsk = StatePaused \<and> t_error_code tsk = Some ErrorCodeDiskFull then do {
           _ \<leftarrow> pauseEngineSide engines tsk;
           r \<leftarrow> SetErrorCodeIfState tid StatePaused ErrorCodeDiskFull diskFullMessage;
           ret (case r of Inl err \<Rightarrow> if err = SErrNotFound then Inr () else Inl (PauseStore err) | Inr _ \<Rightarrow> Inr ())
         }
         else if t_state tsk = StatePaused then ret (Inl PauseNotGuards)
         else if t_state tsk \<in> set diskFullPauseSources then do {
           _ \<leftarrow> pauseEngineSide engines tsk;
           r \<leftarrow> PauseWithCode tid \<lparr>cp_EventCode = CodeTaskPaused, cp_EventMessage = pauseDiskFullEventMessage,
                cp_ErrorCode = ErrorCodeDiskFull, cp_ErrorMessage = diskFullMessage,
                cp_FromStates = diskFullPauseSources\<rparr>;
           ret (case r of Inl err \<Rightarrow> if err = SErrNotFound then Inr () else Inl (PauseStore err) | Inr _ \<Rightarrow> Inr ())
         }
         else do {
           _ \<leftarrow> (if t_state tsk = StateQueued then pauseEngineSide engines tsk else ret ());
           ret (Inl PauseWrongState)
         }
   }"

subsection \<open>What every run keeps\<close>

context lease_rel
begin

text \<open>The walk keeps what the handling of each candidate keeps.\<close>

lemma io_walk:
  assumes "\<And>i. state_io_rel R (env i)"
    and "\<And>cand counts gate. cand \<in> set cands \<Longrightarrow> state_io_rel R (processCandidate engines d p cand counts gate)"
  shows "state_io_rel R (pass_loop engines d p env i cands counts gate released errs)"
  using assms(2)
proof (induction cands arbitrary: i counts gate released errs)
  case Nil
  show ?case by (simp add: io_return)
next
  case (Cons cand cands)
  have "state_io_rel R (pass_loop engines d p env i cands counts gate released errs)" for i counts gate released errs
    by (rule Cons.IH) (use Cons.prems in simp)
  moreover have "state_io_rel R (processCandidate engines d p cand counts gate)" for counts gate
    using Cons.prems by simp
  ultimately show ?case
    unfolding pass_loop.simps Let_def by (intro io_intros assms(1)) auto
qed

end

context engine_rel
begin

lemma io_stampHeld [io_intros]: "P (c_ID cand) \<Longrightarrow> state_io_rel R (stampHeld cand code message)"
  unfolding stampHeld_def by (intro io_intros)

lemma io_clearHoldCode [io_intros]: "P tid \<Longrightarrow> state_io_rel R (clearHoldCode tid)"
  unfolding clearHoldCode_def by (intro io_intros)

lemma io_clearStaleStamp [io_intros]: "P tid \<Longrightarrow> state_io_rel R (clearStaleStamp tid)"
  unfolding clearStaleStamp_def by (rule io_clearHoldCode)

lemma io_markReleased [io_intros]: "P tid \<Longrightarrow> state_io_rel R (markReleased tid)"
  unfolding markReleased_def by (intro io_intros)

lemma io_requeuePendingSelection [io_intros]: "P (c_ID cand) \<Longrightarrow> state_io_rel R (requeuePendingSelection cand)"
  unfolding requeuePendingSelection_def by (intro io_intros)

lemma io_own_or_stop [io_intros]: "P (c_ID cand) \<Longrightarrow> state_io_rel R (own_or_stop e cand h)"
  unfolding own_or_stop_def markAdmissionPending_def stopUnownedTransfer_def by (intro io_intros)

lemma io_transfer_calls [io_intros]:
  "state_io_rel R (resumeForMetadata e h)" "state_io_rel R (removeStrandedTransfer e h)"
  unfolding resumeForMetadata_def removeStrandedTransfer_def by (intro io_intros)+

lemma io_resume_path [io_intros]: "P (c_ID cand) \<Longrightarrow> state_io_rel R (resume_path e cand sel ref)"
  unfolding resume_path_def resume_running_def Let_def by (intro io_intros)

lemma io_add_path [io_intros]: "P (c_ID cand) \<Longrightarrow> state_io_rel R (add_path e cand sel)"
  unfolding add_path_def by (intro io_intros)

lemma io_release [io_intros]: "P (c_ID cand) \<Longrightarrow> state_io_rel R (release engines cand)"
  unfolding release_def Let_def by (intro io_intros)

lemma io_releaseFailed [io_intros]: "P (c_ID cand) \<Longrightarrow> state_io_rel R (releaseFailed cand err)"
  unfolding releaseFailed_def by (cases err) (auto intro!: io_intros)

lemma io_release_candidate [io_intros]: "P (c_ID cand) \<Longrightarrow> state_io_rel R (release_candidate engines cand)"
  unfolding release_candidate_def by (intro io_intros)

lemma io_processCandidate [io_intros]:
  assumes "P (c_ID cand)"
  shows "state_io_rel R (processCandidate engines d p cand counts gate)"
proof -
  have "P (c_ID (refresh_intent cand current))" for current
    using assms by (simp add: refresh_intent_def)
  then show ?thesis
    unfolding processCandidate_def Let_def
    by (intro io_intros) (auto intro!: io_intros split: gate_answer.split prod.split)
qed

lemma io_pass_loop:
  assumes "\<And>i. state_io_rel R (env i)" and "\<And>cand. cand \<in> set cands \<Longrightarrow> P (c_ID cand)"
  shows "state_io_rel R (pass_loop engines d p env i cands counts gate released errs)"
  by (rule io_walk) (use assms in \<open>auto intro: io_processCandidate\<close>)

lemma io_PauseDiskFull [io_intros]: "P tid \<Longrightarrow> state_io_rel R (PauseDiskFull engines tid)"
  unfolding PauseDiskFull_def pauseEngineSide_def
  by (intro io_intros) (auto simp: diskFullPauseSources_def)

end

end
