(* ===== verification/AdmissionProps.thy ===== *)
theory AdmissionProps
  imports Admission "HOL-Library.Sublist"
begin

section \<open>Properties of the admission controller\<close>

text \<open>
  What holds of every pass: the store's invariants and the frame of the tasks that are no candidates; when
  an engine may be contacted for a candidate at all; that one pass spends no more slots than the limits
  leave; that a release lands the persisted intent before the transfer runs; and the one case in which the
  pass loses track of a slot.
\<close>

subsection \<open>Whole passes\<close>

lemma query_run:
  assumes "run_state (query q) s = (r, s')"
  obtains dt rest where "s' = after_tick dt rest s" "r = q s' \<or> r = Inl SErrDB"
proof -
  obtain f dt rest where t: "run_state tick s = (f, after_tick dt rest s)"
    by (rule tick_cases)
  show thesis
    by (rule that [of dt rest]) (use assms t in \<open>auto simp: query_def split: if_splits\<close>)
qed

context engine_rel
begin

lemma io_spaceGate [io_intros]: "state_io_rel R (spaceGate d p)"
  unfolding spaceGate_def by (intro io_intros)

lemma Pass_keeps:
  assumes "\<And>i. state_io_rel R (env i)" and "\<And>r. r \<in> set (s_tasks w) \<Longrightarrow> is_candidate r \<Longrightarrow> P (t_id r)"
  shows "R w (snd (run_state (Pass engines d env p) w))"
proof -
  obtain c w1 where c: "run_state CountActive w = (c, w1)" by fastforce
  then have w1: "s_tasks w1 = s_tasks w"
    unfolding CountActive_def by (auto elim: query_run)
  obtain cs w2 where cs: "run_state (SelectQueuedCandidates candidatesUnbounded) w1 = (cs, w2)" by fastforce
  then have cands: "cs = Inr cands \<Longrightarrow> cand \<in> set cands \<Longrightarrow> P (c_ID cand)" for cands cand
    using assms(2) w1 unfolding SelectQueuedCandidates_def
    by (auto elim!: query_run simp: querySelectQueuedCandidates_def candidate_of_def Let_def candidatesUnbounded_def
        dest!: in_set_takeD)
  have r1: "R w w1" and r2: "R w1 w2"
    using io_reads(1) io_reads(2) c cs unfolding state_io_rel_def by (metis snd_conv)+
  have "state_io_rel R (do { g \<leftarrow> spaceGate d p; case g of Inl err \<Rightarrow> ret ([], Some (PErrStore err))
      | Inr gate \<Rightarrow> pass_loop engines d p env 0 cands counts gate [] 0 })" if "cs = Inr cands" for cands counts
    by (intro io_intros io_pass_loop assms(1)) (rule cands [OF that])
  then have "R w2 (snd (run_state (do { g \<leftarrow> spaceGate d p; case g of Inl err \<Rightarrow> ret ([], Some (PErrStore err))
      | Inr gate \<Rightarrow> pass_loop engines d p env 0 cands counts gate [] 0 }) w2))" if "cs = Inr cands" for cands counts
    using that unfolding state_io_rel_def by blast
  then show ?thesis
    using c cs r1 r2 step_trans
    by (auto simp: Pass_def split: sum.split)
qed

end

text \<open>
  C16. An admission pass keeps the books: whatever the engines answer, whatever the database does, and
  whatever well-behaved goroutines run in between, the event log is only extended, rows are neither created
  nor lost, and every task moved only along edges of the transition table, with an event of its own for
  every edge.
\<close>

theorem Pass_audit_trail:
  assumes "\<And>i. state_io_rel audit_trail (env i)"
  shows "audit_trail w (snd (run_state (Pass engines d env p) w))"
  by (rule w_audit.Pass_keeps) (use assms in simp_all)

text \<open>
  An admission pass touches nothing but its candidates: the row of a task that was neither queued nor
  parked by the disk-space guard when the pass selected is, byte for byte, as the other goroutines left it.
\<close>

theorem Pass_frame:
  assumes "\<And>i. state_io_rel (same_row x) (env i)"
    and "\<And>r. r \<in> set (s_tasks w) \<Longrightarrow> t_id r = x \<Longrightarrow> \<not> is_candidate r"
  shows "same_row x w (snd (run_state (Pass engines d env p) w))"
  by (rule w_frame.Pass_keeps) (use assms in auto)

text \<open>Evaluation avoids \<open>take\<close> at the unbounded limit.\<close>

lemma SelectQueuedCandidates_code [code]:
  "SelectQueuedCandidates limit = query (\<lambda>s. Inr
     (let rows = map candidate_of (querySelectQueuedCandidates (s_tasks s)) in
      if 0 < limit \<and> limit < int (length rows) then take (nat limit) rows else rows))"
  unfolding SelectQueuedCandidates_def Let_def
  by (rule arg_cong [of _ _ query]) (auto simp: fun_eq_iff)

text \<open>A concrete world: two queued tasks, a policy of one slot, and an engine that accepts everything.\<close>

definition demo_policy :: policy where
  "demo_policy = \<lparr>p_Limits = \<lparr>l_MaxActiveTotal = 1, l_MaxActivePerEngine = 0\<rparr>, p_MinFree = [(''/data'', 0)],
     p_Roots = [''/data'']\<rparr>"

text \<open>The engine state is the list of running transfers; an added transfer is named after its source.\<close>

definition demo_engine :: "string list engine" where
  "demo_engine = \<lparr>eng_Capabilities = [CapHTTP],
     eng_Add = (\<lambda>req e. let h = ''aria2:'' @ concat (ar_URIs req) in (Inr h, e @ [h])),
     eng_List = (\<lambda>e. (Inr [], e)),
     eng_Get = (\<lambda>h e. (Inl ErrNotFound, e)),
     eng_Files = (\<lambda>h e. (Inr [], e)),
     eng_Pause = (\<lambda>h e. (Inr (), remove1 h e)),
     eng_Resume = (\<lambda>h e. (Inr (), e)),
     eng_Remove = (\<lambda>h e. (Inr (), remove1 h e)),
     eng_SetFiles = (\<lambda>h sel pr e. (Inr (), e)),
     eng_SetRateLimits = (\<lambda>h dn up e. (Inr (), e)),
     eng_SetLocation = (\<lambda>h path e. (Inr (), e)), eng_SetCategory = (\<lambda>h cat e. (Inr (), e)),
     eng_SetShareLimits = (\<lambda>h ratio secs e. (Inr (), e)), eng_SetTags = None, eng_SetSequential = None,
     eng_Recheck = None,
     eng_took = (\<lambda>e. 1)\<rparr>"

definition demo_engines :: "string list engines" where
  "demo_engines = (\<lambda>name. if name = ''aria2'' then Some demo_engine else None)"

definition demo_world :: "task list \<Rightarrow> (db_fault \<times> nat) list \<Rightarrow> string list world" where
  "demo_world rows sched = store.extend (demo_store rows sched)
     \<lparr>w_eng = [], w_calls = [], w_lease = NewRegistry, w_deadline = None\<rparr>"

definition demo_queue :: "task list" where
  "demo_queue = [(demo_task ''a'' StateQueued)\<lparr>t_source_uri := Some ''u1'', t_added_at := 1\<rparr>,
     (demo_task ''b'' StateQueued)\<lparr>t_source_uri := Some ''u2'', t_added_at := 2\<rparr>,
     demo_task ''c'' StateSeeding]"

theorem Pass_audit_trail_witness:
  "audit_trail (demo_world demo_queue [])
     (snd (run_state (Pass demo_engines demo_disk (\<lambda>_. ret ()) demo_policy) (demo_world demo_queue [])))"
  by (rule Pass_audit_trail) (rule audit.io_return)

theorem Pass_frame_witness:
  "same_row ''c'' (demo_world demo_queue [])
     (snd (run_state (Pass demo_engines demo_disk (\<lambda>_. ret ()) demo_policy) (demo_world demo_queue [])))"
  by (rule Pass_frame) (rule frame.io_return, auto simp: demo_world_def demo_store_def demo_queue_def
      demo_task_def is_candidate_def is_parked_disk_full_def store.defs)

subsection \<open>When an engine is contacted\<close>

text \<open>A run that makes no engine call.\<close>

definition no_calls :: "('e, 'z) world_scheme \<Rightarrow> ('e, 'z) world_scheme \<Rightarrow> bool" where
  "no_calls w w' \<longleftrightarrow> w_calls w' = w_calls w \<and> w_eng w' = w_eng w"

interpretation quiet: store_rel no_calls "\<lambda>_. True"
  by unfold_locales (auto simp: no_calls_def task_write_def)

lemma quiet_run: "state_io_rel no_calls m \<Longrightarrow> run_state m w = (x, w') \<Longrightarrow> no_calls w w'"
  by (auto simp: state_io_rel_def) (metis snd_conv)

lemma GetTask_run:
  assumes "run_state (GetTask tid) w = (Inr r, w')"
  shows "r \<in> set (s_tasks w) \<and> t_id r = tid \<and> s_tasks w' = s_tasks w"
  using assms unfolding GetTask_def
  by (auto elim!: query_run dest!: sql_find_SomeD simp: queryGetTask_def split: option.splits)

text \<open>A candidate that takes a slot this pass's counts do not hold yet.\<close>

definition takes_slot :: "candidate \<Rightarrow> bool" where
  "takes_slot cand \<longleftrightarrow> c_State cand \<noteq> StateQueued \<or> c_AdmissionPending cand = 0"

text \<open>What the gates have let through, in numbers: free slots, and bytes beside the floor and the commitments.\<close>

definition slot_free :: "limits \<Rightarrow> active_counts \<Rightarrow> string \<Rightarrow> bool" where
  "slot_free l c e \<longleftrightarrow> (0 < l_MaxActiveTotal l \<longrightarrow> int (ac_Total c) < l_MaxActiveTotal l) \<and>
     (0 < l_MaxActivePerEngine l \<longrightarrow> int (ac_ByEngine c e) < l_MaxActivePerEngine l)"

definition bytes_fit :: "reservation \<Rightarrow> int \<Rightarrow> bool" where
  "bytes_fit rv n \<longleftrightarrow> (int64 (rv_FreeBytes rv) \<longrightarrow> n + rv_CommittedBytes rv + rv_MinFreeBytes rv \<le> rv_FreeBytes rv)"

lemma Blocked_slot_free: "\<not> fst (Blocked l c e) \<Longrightarrow> slot_free l c e"
  by (auto simp: Blocked_def slot_free_def split: if_splits)

lemma Admits_bytes_fit: "Admits rv n \<Longrightarrow> bytes_fit rv n"
proof -
  assume a: "Admits rv n"
  have "wrap64 (x - y) = x - y \<and> int64 (x - y)" if "0 \<le> y" "y \<le> x" "int64 x" for x y
    using that by (auto simp: int64_def wrap64_id)
  with a show ?thesis by (auto simp: Admits_def bytes_fit_def Let_def split: if_splits)
qed

lemma candidate_gate_open:
  assumes "fst (candidate_gate d p cand counts gate) = GateOpen" and "c_State cand \<in> {StateQueued, StatePaused}" "takes_slot cand"
  shows "slot_free (p_Limits p) counts (c_Engine cand)"
    and "\<And>rv. fst (reservation_of d (c_Destination cand) gate) = Some rv \<Longrightarrow> bytes_fit rv (remainingBytes cand)"
    and "c_State cand = StatePaused \<Longrightarrow> fst (reservation_of d (c_Destination cand) gate) \<noteq> None"
  using assms unfolding candidate_gate_def holds_def holdsParked_def takes_slot_def
  by (auto intro!: Blocked_slot_free Admits_bytes_fit split: if_splits prod.splits option.splits bool.splits)

lemma refresh_intent_fields [simp]:
  "c_ID (refresh_intent cand r) = c_ID cand" "c_State (refresh_intent cand r) = c_State cand"
  "c_Engine (refresh_intent cand r) = c_Engine cand" "c_Destination (refresh_intent cand r) = c_Destination cand"
  "c_AdmissionPending (refresh_intent cand r) = c_AdmissionPending cand"
  "c_EngineRef (refresh_intent cand r) = c_EngineRef cand"
  "remainingBytes (refresh_intent cand r) = remainingBytes cand"
  by (simp_all add: refresh_intent_def remainingBytes_def cong: option.case_cong)

lemma holds_refresh: "holds d (refresh_intent cand r) gate = holds d cand gate"
  unfolding holds_def refresh_intent_fields ..

lemma holdsParked_refresh: "holdsParked d (refresh_intent cand r) gate = holdsParked d cand gate"
  unfolding holdsParked_def refresh_intent_fields ..

lemma candidate_gate_refresh:
  "candidate_gate d p (refresh_intent cand r) counts gate = candidate_gate d p cand counts gate"
  by (auto simp: candidate_gate_def holds_refresh holdsParked_refresh split: prod.split bool.split)

text \<open>
  C15. An engine is contacted for a queued or parked candidate only when the row, re-read under the lease,
  still is what selected it: queued, or paused with the disk-space guard's stamp. Unless that row is queued
  and already carries the pass's mark (its slot and its bytes are counted already), each limit in force has
  a free slot for it, and its remaining bytes fit into the free space of its file system beside the bytes
  committed there and the floor. When that space cannot be read, a queued candidate is let through on the
  limits alone, and a parked one is not. In every other case, an operator's pause among them, no engine
  call is made.
\<close>

theorem processCandidate_engine_guard:
  assumes "run_state (processCandidate engines d p cand counts gate) w = (res, w')"
    and "w_calls w' \<noteq> w_calls w \<or> w_eng w' \<noteq> w_eng w" and "c_State cand \<in> {StateQueued, StatePaused}"
  shows "\<exists>r \<in> set (s_tasks w). t_id r = c_ID cand \<and> t_state r = c_State cand \<and>
    (c_State cand = StatePaused \<longrightarrow> t_error_code r = Some ''disk_full'') \<and>
    (c_State cand = StatePaused \<or> c_AdmissionPending cand = 0 \<longrightarrow>
       slot_free (p_Limits p) counts (c_Engine cand) \<and>
       (case fst (reservation_of d (c_Destination cand) gate) of
          Some rv \<Rightarrow> bytes_fit rv (remainingBytes cand)
        | None \<Rightarrow> c_State cand = StateQueued))"
proof -
  obtain cur w1 where g: "run_state (GetTask (c_ID cand)) w = (cur, w1)" by fastforce
  have q1: "no_calls w w1"
    by (rule quiet_run [OF quiet.io_GetTask g])
  show ?thesis
  proof (cases cur)
    case (Inl err)
    with assms g q1 show ?thesis by (auto simp: processCandidate_def no_calls_def)
  next
    case (Inr r)
    have r: "r \<in> set (s_tasks w)" "t_id r = c_ID cand"
      using GetTask_run [OF g [unfolded Inr]] by simp_all
    have current: "candidateStillCurrent cand r"
      using assms g q1 Inr by (auto simp: processCandidate_def no_calls_def split: if_splits)
    obtain a g' where gate: "candidate_gate d p cand counts gate = (a, g')" by fastforce
    have "a = GateOpen"
    proof (cases a)
      case (GateStamp code message)
      obtain u w2 where s: "run_state (stampHeld (refresh_intent cand r) code message) w1 = (u, w2)" by (meson surj_pair)
      have "no_calls w1 w2"
        by (rule quiet_run [OF _ s]) (auto simp: stampHeld_def intro!: io_intros)
      with assms g q1 Inr current gate GateStamp s show ?thesis
        by (auto simp: processCandidate_def no_calls_def candidate_gate_refresh Let_def)
    qed (use assms g q1 Inr current gate in
        \<open>auto simp: processCandidate_def no_calls_def candidate_gate_refresh Let_def\<close>)
    with gate have "fst (candidate_gate d p cand counts gate) = GateOpen" by simp
    note through = candidate_gate_open [OF this assms(3)]
    show ?thesis
      using r current assms(3) through
      by (intro bexI [of _ r]) (auto simp: takes_slot_def candidateStillCurrent_def ErrorCodeDiskFull_def split: option.split)
  qed
qed

lemma demo_candidate_calls:
  "w_calls (snd (run_state (processCandidate demo_engines demo_disk demo_policy (candidate_of (hd demo_queue))
      \<lparr>ac_Total = 0, ac_ByEngine = (\<lambda>_. 0)\<rparr>
      \<lparr>g_policy = demo_policy, g_commits = (\<lambda>_. 0), g_ids = (\<lambda>_. None), g_spaces = (\<lambda>_. None), g_unreadable = (\<lambda>_. False)\<rparr>)
      (demo_world demo_queue []))) \<noteq> []"
  by code_simp

theorem processCandidate_engine_guard_witness:
  "\<exists>r \<in> set demo_queue. t_id r = ''a'' \<and> t_state r = StateQueued"
proof -
  have fields: "s_tasks (demo_world demo_queue []) = demo_queue" "w_calls (demo_world demo_queue []) = []"
      "c_State (candidate_of (hd demo_queue)) = StateQueued" "c_ID (candidate_of (hd demo_queue)) = ''a''"
    by (simp_all add: demo_world_def demo_store_def store.defs demo_queue_def candidate_of_def demo_task_def)
  show ?thesis
    using processCandidate_engine_guard [OF prod.collapse [symmetric]] demo_candidate_calls fields
    by (metis insertI1)
qed

subsection \<open>A pass spends no more than it has\<close>

lemma candidate_gate_slot:
  assumes "fst (candidate_gate d p cand counts gate) = GateOpen" "takes_slot cand" "c_State cand \<in> {StateQueued, StatePaused}"
  shows "\<not> fst (Blocked (p_Limits p) counts (c_Engine cand))"
  using assms unfolding candidate_gate_def takes_slot_def
  by (auto split: if_splits prod.splits bool.splits)

lemma processCandidate_slot:
  assumes "run_state (processCandidate engines d p cand counts gate) w = ((Inr outcome, g'), w')"
    and "outcome \<noteq> OutcomeHeld" "takes_slot cand" "c_State cand \<in> {StateQueued, StatePaused}"
  shows "\<not> fst (Blocked (p_Limits p) counts (c_Engine cand))"
proof -
  obtain cur w1 where g: "run_state (GetTask (c_ID cand)) w = (cur, w1)" by fastforce
  obtain a g2 where gate: "candidate_gate d p cand counts gate = (a, g2)" by fastforce
  have "a = GateOpen"
    using assms(1,2) g gate
    by (cases a) (auto simp: processCandidate_def candidate_gate_refresh Let_def split: sum.splits if_splits prod.splits)
  then show ?thesis
    using candidate_gate_slot [OF _ assms(3,4)] gate by (metis fst_conv)
qed

text \<open>What a limit allows beside the slots counted already; zero and below is no limit.\<close>

definition fits_limit :: "int \<Rightarrow> nat \<Rightarrow> nat \<Rightarrow> bool" where
  "fits_limit limit used extra \<longleftrightarrow> (0 < limit \<longrightarrow> int (used + extra) \<le> max limit (int used))"

lemma fits_limit_zero [simp]: "fits_limit limit used 0"
  by (simp add: fits_limit_def)

lemma fits_limit_Suc: "\<not> (0 < limit \<and> limit \<le> int used) \<Longrightarrow> fits_limit limit (Suc used) extra \<Longrightarrow> fits_limit limit used (Suc extra)"
  by (auto simp: fits_limit_def max_def split: if_splits)

lemma fits_limit_mono: "fits_limit limit used extra \<Longrightarrow> fewer \<le> extra \<Longrightarrow> fits_limit limit used fewer"
  by (auto simp: fits_limit_def)

definition slots_ok :: "limits \<Rightarrow> active_counts \<Rightarrow> candidate list \<Rightarrow> bool" where
  "slots_ok l c new \<longleftrightarrow>
     fits_limit (l_MaxActiveTotal l) (ac_Total c) (length (filter takes_slot new)) \<and>
     (\<forall>e. fits_limit (l_MaxActivePerEngine l) (ac_ByEngine c e)
        (length (filter (\<lambda>cand. takes_slot cand \<and> c_Engine cand = e) new)))"

lemma slots_ok_Nil [simp]: "slots_ok l c []"
  by (simp add: slots_ok_def)

lemma slots_ok_free: "\<not> takes_slot cand \<Longrightarrow> slots_ok l c (cand # new) = slots_ok l c new"
  by (simp add: slots_ok_def)

lemma slots_ok_Reserve:
  assumes "\<not> fst (Blocked l c (c_Engine cand))" "slots_ok l (Reserve (c_Engine cand) c) new" "takes_slot cand"
  shows "slots_ok l c (cand # new)"
  using assms unfolding slots_ok_def Blocked_def Reserve_def
  by (auto intro: fits_limit_Suc split: if_splits)

lemma slots_ok_tail: "slots_ok l c (cand # new) \<Longrightarrow> slots_ok l c new"
  unfolding slots_ok_def
  by (intro conjI allI; elim conjE allE; rule fits_limit_mono, assumption, simp)

lemma pass_loop_slots:
  assumes "run_state (pass_loop engines d p env i cands counts gate released errs) w = ((released', err), w')"
    and "\<And>cand. cand \<in> set cands \<Longrightarrow> c_State cand \<in> {StateQueued, StatePaused}"
  shows "\<exists>new. released' = released @ map c_ID new \<and> subseq new cands \<and> slots_ok (p_Limits p) counts new"
  using assms
proof (induction cands arbitrary: i counts gate released errs w)
  case Nil
  then show ?case by (auto intro: exI [of _ "[]"])
next
  case (Cons cand cands)
  have states: "c_State c \<in> {StateQueued, StatePaused}" if "c \<in> set cands" for c
    using that Cons.prems(2) by simp
  have skip: ?case
    if run: "run_state (pass_loop engines d p env (Suc i) cands counts g released n) v = ((released', err), w')" for g n v
    using Cons.IH [OF run states] by (auto intro: subseq_Cons')
  have take: ?case
    if run: "run_state (pass_loop engines d p env (Suc i) cands
        (if takes_slot cand then Reserve (c_Engine cand) counts else counts) g
        (if outcome = OutcomeReleased then released @ [c_ID cand] else released) n) v = ((released', err), w')"
      and open_slot: "takes_slot cand \<Longrightarrow> \<not> fst (Blocked (p_Limits p) counts (c_Engine cand))" for g n v outcome
  proof -
    obtain new where new: "released' = (if outcome = OutcomeReleased then released @ [c_ID cand] else released) @ map c_ID new"
      "subseq new cands" "slots_ok (p_Limits p) (if takes_slot cand then Reserve (c_Engine cand) counts else counts) new"
      using Cons.IH [OF run states] by blast
    have ok: "slots_ok (p_Limits p) counts (cand # new)"
      using new(3) open_slot slots_ok_Reserve slots_ok_free by (cases "takes_slot cand") auto
    then have "slots_ok (p_Limits p) counts new"
      by (rule slots_ok_tail)
    with new ok show ?thesis
      by (cases "outcome = OutcomeReleased")
        (auto intro: exI [of _ "cand # new"] exI [of _ new] subseq_Cons')
  qed
  obtain u w1 where e: "run_state (env i) w = (u, w1)" by (meson surj_pair)
  obtain l w2 where l: "run_state (tryLease (c_ID cand)) w1 = (l, w2)" by fastforce
  show ?case
  proof (cases "ctx_done w1 \<or> l = None")
    case True
    with Cons.prems(1) e l skip show ?thesis by (auto split: if_splits)
  next
    case False
    then obtain lease where lease: "l = Some lease" by blast
    obtain res g' w3 where r: "run_state (processCandidate engines d p cand counts gate) w2 = ((res, g'), w3)"
      by (metis surj_pair)
    obtain u' w4 where x: "run_state (releaseLease (c_ID cand) lease) w3 = (u', w4)" by (meson surj_pair)
    note step = Cons.prems(1) False e l lease r x
    show ?thesis
    proof (cases "\<exists>outcome. res = Inr outcome \<and> outcome \<noteq> OutcomeHeld")
      case True
      then obtain outcome where o': "res = Inr outcome" "outcome \<noteq> OutcomeHeld" by blast
      show ?thesis
        by (rule take [of _ outcome errs w4]) (use step o' processCandidate_slot [OF r [unfolded o'] o'(2) _ Cons.prems(2)]
          in \<open>simp_all add: Let_def takes_slot_def\<close>)
    next
      case False
      with step skip show ?thesis
        by (cases res) (auto split: if_splits)
    qed
  qed
qed

lemma CountActive_run:
  assumes "run_state CountActive w = (Inr c, w')"
  shows "ac_Total c = length (filter counted (s_tasks w))"
    "ac_ByEngine c e = length (filter (\<lambda>r. counted r \<and> t_engine r = e) (s_tasks w))" "s_tasks w' = s_tasks w"
  using assms unfolding CountActive_def
  by (auto elim!: query_run simp: CountActive_total CountActive_engine Let_def)

lemma SelectQueuedCandidates_run:
  assumes "run_state (SelectQueuedCandidates candidatesUnbounded) w = (Inr cands, w')"
  shows "subseq cands (map candidate_of (querySelectQueuedCandidates (s_tasks w)))"
    "cand \<in> set cands \<Longrightarrow> c_State cand \<in> {StateQueued, StatePaused}"
proof -
  obtain n where cands: "cands = take n (map candidate_of (querySelectQueuedCandidates (s_tasks w)))"
    using assms unfolding SelectQueuedCandidates_def
    by (auto elim!: query_run simp: candidatesUnbounded_def Let_def)
  then show "subseq cands (map candidate_of (querySelectQueuedCandidates (s_tasks w)))"
    by (simp add: prefix_imp_subseq take_is_prefix)
  assume "cand \<in> set cands"
  with cands show "c_State cand \<in> {StateQueued, StatePaused}"
    by (auto simp: querySelectQueuedCandidates_def candidate_of_def is_candidate_def is_parked_disk_full_def
        dest!: in_set_takeD)
qed

text \<open>
  C2. One pass never releases past a limit, whatever the engines, the database and the other goroutines
  do. The released tasks are candidates in the order of the queue; those of them that were not counted as
  active before, added to the tasks that were, stay within the total limit and within the limit of each
  engine (when the limit was overrun already, none is released). A limit of zero is no limit.
\<close>

theorem Pass_respects_limits:
  "case run_state (Pass engines d env p) w of ((released, err), w') \<Rightarrow>
     \<exists>new. released = map c_ID new \<and>
       subseq new (map candidate_of (querySelectQueuedCandidates (s_tasks w))) \<and>
       fits_limit (l_MaxActiveTotal (p_Limits p)) (length (filter counted (s_tasks w))) (length (filter takes_slot new)) \<and>
       (\<forall>e. fits_limit (l_MaxActivePerEngine (p_Limits p))
          (length (filter (\<lambda>r. counted r \<and> t_engine r = e) (s_tasks w)))
          (length (filter (\<lambda>cand. takes_slot cand \<and> c_Engine cand = e) new)))"
proof -
  obtain c w1 where c: "run_state CountActive w = (c, w1)" by fastforce
  obtain cs w2 where cs: "run_state (SelectQueuedCandidates candidatesUnbounded) w1 = (cs, w2)" by fastforce
  obtain g w3 where g: "run_state (spaceGate d p) w2 = (g, w3)" by fastforce
  show ?thesis
  proof (cases "\<exists>counts cands gate. c = Inr counts \<and> cs = Inr cands \<and> g = Inr gate")
    case True
    then obtain counts cands gate where ok: "c = Inr counts" "cs = Inr cands" "g = Inr gate" by blast
    obtain released err w' where run: "run_state (pass_loop engines d p env 0 cands counts gate [] 0) w3 = ((released, err), w')"
      by (metis surj_pair)
    obtain new where new: "released = map c_ID new" "subseq new cands" "slots_ok (p_Limits p) counts new"
      using pass_loop_slots [OF run SelectQueuedCandidates_run(2) [OF cs [unfolded ok]]] by auto
    then show ?thesis
      using c cs g ok run CountActive_run [OF c [unfolded ok]] SelectQueuedCandidates_run(1) [OF cs [unfolded ok]]
      by (auto simp: Pass_def slots_ok_def intro!: exI [of _ new] elim: subseq_order.trans)
  next
    case False
    with c cs g show ?thesis
      by (auto simp: Pass_def split: sum.splits intro!: exI [of _ "[]"])
  qed
qed

subsection \<open>A slot the pass loses\<close>

text \<open>
  The bound of the limits is on the tasks a pass reports as released, and not on the
  transfers it starts. For a fresh task, when the release write fails after \<open>Add\<close> and the ownership mark
  lands, the transfer keeps running under the mark, but the pass does not spend a slot for it, since it
  asks for the handle the candidate had before the pass. With one slot and two queued tasks, the same pass
  then starts the second transfer beside the first: two run, both rows count as active.
\<close>

lemma Pass_loses_slot:
  "case run_state (Pass demo_engines demo_disk (\<lambda>_. ret ()) demo_policy)
      (demo_world demo_queue (replicate 5 (FaultNone, 0) @ [(FaultBefore, 0)])) of ((released, err), w') \<Rightarrow>
     l_MaxActiveTotal (p_Limits demo_policy) = 1 \<and> filter counted demo_queue = [] \<and>
     released = [''b''] \<and> w_eng w' = [''aria2:u1'', ''aria2:u2''] \<and>
     map t_id (filter counted (s_tasks w')) = [''a'', ''b'']"
  by code_simp

subsection \<open>The persisted intent lands before the transfer runs\<close>

lemma ecall_calls:
  "run_state (ecall c shown took f) w = (res, w') \<Longrightarrow> w_calls w' = w_calls w @ [(c, map_sum (\<lambda>x. x) shown res)]"
  by (auto simp: ecall_def Let_def split: prod.splits)

lemma engine_calls:
  "run_state (e_Add e req) w = (added, w') \<Longrightarrow> w_calls w' = w_calls w @ [(CallAdd req, map_sum (\<lambda>x. x) (\<lambda>x. x) added)]"
  "run_state (e_Get e h) w = (got, w') \<Longrightarrow> w_calls w' = w_calls w @ [(CallGet h, map_sum (\<lambda>x. x) no_text got)]"
  "run_state (e_Pause e h) w = (res, w') \<Longrightarrow> w_calls w' = w_calls w @ [(CallPause h, map_sum (\<lambda>x. x) no_text res)]"
  "run_state (e_Resume e h) w = (res, w') \<Longrightarrow> w_calls w' = w_calls w @ [(CallResume h, map_sum (\<lambda>x. x) no_text res)]"
  "run_state (e_SetFiles e h sel pr) w = (res, w') \<Longrightarrow>
     w_calls w' = w_calls w @ [(CallSetFiles h sel pr, map_sum (\<lambda>x. x) no_text res)]"
  "run_state (e_SetRateLimits e h dl ul) w = (res, w') \<Longrightarrow>
     w_calls w' = w_calls w @ [(CallSetRateLimits h dl ul, map_sum (\<lambda>x. x) no_text res)]"
  by (auto simp: e_defs dest: ecall_calls)

text \<open>The calls that land the rate limits and the file selection of a task on a transfer.\<close>

definition rates_landed :: "string \<Rightarrow> int \<Rightarrow> int \<Rightarrow> call_entry list \<Rightarrow> bool" where
  "rates_landed h dl ul rates =
     (if 0 < dl \<or> 0 < ul
      then \<exists>ans \<in> {Inr '''', Inl ErrNotSupported}.
        rates = [(CallSetRateLimits h (if 0 < dl then Some dl else None) (if 0 < ul then Some ul else None), ans)]
      else rates = [])"

definition files_landed :: "'e engine \<Rightarrow> string \<Rightarrow> selection_intent option \<Rightarrow> call_entry list \<Rightarrow> bool" where
  "files_landed e h sel files = (case sel of
      Some si \<Rightarrow> if CapPerFileSelect \<in> set (eng_Capabilities e)
        then files = [(CallSetFiles h (si_Indices si)
          (if CapPerFilePriority \<in> set (eng_Capabilities e) then Some (si_Priorities si) else None), Inr '''')]
        else files = []
    | None \<Rightarrow> files = [])"

definition intent_landed ::
  "'e engine \<Rightarrow> string \<Rightarrow> int \<Rightarrow> int \<Rightarrow> selection_intent option \<Rightarrow> call_entry list \<Rightarrow> bool" where
  "intent_landed e h dl ul sel cs \<longleftrightarrow>
     (\<exists>rates files. cs = rates @ files \<and> rates_landed h dl ul rates \<and> files_landed e h sel files)"

lemma applyPersistedRateLimits_calls:
  assumes "run_state (applyPersistedRateLimits e h dl ul) w = (Inr (), w')"
  shows "\<exists>rates. w_calls w' = w_calls w @ rates \<and> rates_landed h dl ul rates"
  using assms unfolding applyPersistedRateLimits_def Let_def rates_landed_def
  by (auto dest!: engine_calls simp: no_text_def split: if_splits sum.splits prod.splits)

lemma applyPersistedSelection_calls:
  assumes "run_state (applyPersistedSelection e h sel) w = (Inr (), w')"
  shows "\<exists>files. w_calls w' = w_calls w @ files \<and> files_landed e h sel files"
  using assms unfolding applyPersistedSelection_def Let_def files_landed_def
  by (auto dest!: engine_calls simp: no_text_def split: if_splits sum.splits option.splits prod.splits)

lemma applyPersistedIntent_calls:
  assumes "run_state (applyPersistedIntent e h dl ul sel) w = (Inr (), w')"
  shows "\<exists>cs. w_calls w' = w_calls w @ cs \<and> intent_landed e h dl ul sel cs"
proof -
  obtain v where "run_state (applyPersistedRateLimits e h dl ul) w = (Inr (), v)"
    "run_state (applyPersistedSelection e h sel) v = (Inr (), w')"
    using assms unfolding applyPersistedIntent_def by (auto split: sum.splits prod.splits)
  from applyPersistedRateLimits_calls [OF this(1)] applyPersistedSelection_calls [OF this(2)]
  show ?thesis unfolding intent_landed_def by (metis append.assoc)
qed

lemma quiet_calls: "state_io_rel no_calls m \<Longrightarrow> run_state m w = (x, w') \<Longrightarrow> w_calls w' = w_calls w"
  using quiet_run unfolding no_calls_def by blast

lemma quiet_SetEngineRef: "run_state (SetEngineRef tid ref) w = (x, w') \<Longrightarrow> w_calls w' = w_calls w"
  by (rule quiet_calls, rule io_intros) simp_all

lemma quiet_markReleased: "run_state (markReleased tid) w = (x, w') \<Longrightarrow> w_calls w' = w_calls w"
  by (erule quiet_calls [rotated]) (unfold markReleased_def clearHoldCode_def, intro io_intros TrueI)

lemmas quiet_writes = quiet_SetEngineRef quiet_markReleased

text \<open>An answered call that sets a transfer going.\<close>

definition starts_transfer :: "call_entry \<Rightarrow> bool" where
  "starts_transfer c = (case c of
      (CallResume _, Inr _) \<Rightarrow> True | (CallAdd req, Inr _) \<Rightarrow> \<not> ar_StartPaused req | _ \<Rightarrow> False)"

definition no_start :: "('e, 'z) world_scheme \<Rightarrow> ('e, 'z) world_scheme \<Rightarrow> bool" where
  "no_start w w' \<longleftrightarrow> (\<exists>cs. w_calls w' = w_calls w @ cs \<and> list_all (\<lambda>c. \<not> starts_transfer c) cs)"

interpretation nostart: store_rel no_start "\<lambda>_. True"
proof unfold_locales
  fix a b c :: "('e, 'z) world_scheme"
  assume "no_start a b" "no_start b c"
  then show "no_start a c"
    unfolding no_start_def by (metis append.assoc list_all_append)
qed (auto simp: no_start_def task_write_def)

lemma nostart_ecall:
  "(\<And>ans. \<not> starts_transfer (c, ans)) \<Longrightarrow> state_io_rel no_start (ecall c shown took f)"
  by (auto simp: state_io_rel_def ecall_def no_start_def Let_def split: prod.splits)

lemma nostart_calls [io_intros]:
  "state_io_rel no_start (e_Get e h)" "state_io_rel no_start (e_Files e h)" "state_io_rel no_start (e_Pause e h)"
  "state_io_rel no_start (e_SetFiles e h sel pr)" "state_io_rel no_start (e_SetRateLimits e h down up)"
  by (simp_all add: e_defs, (rule nostart_ecall, simp add: starts_transfer_def)+)

lemma nostart_applyPersistedIntent: "state_io_rel no_start (applyPersistedIntent e h dl ul sel)"
  unfolding applyPersistedIntent_def applyPersistedRateLimits_def applyPersistedSelection_def Let_def
  by (intro io_intros)

lemma nostart_run: "state_io_rel no_start m \<Longrightarrow> run_state m w = (x, w') \<Longrightarrow> no_start w w'"
  by (auto simp: state_io_rel_def) (metis snd_conv)

lemmas nostart_runs = nostart_run [OF nostart_applyPersistedIntent] nostart_run [OF nostart_calls(1)]
  nostart_run [OF nostart_calls(3)]

lemma resume_NotFound_nostart: "run_state (e_Resume e h) w = (Inl err, w') \<Longrightarrow> no_start w w'"
  by (drule engine_calls) (auto simp: no_start_def starts_transfer_def)

lemma resume_running_None:
  assumes "run_state (resume_running e cand sel h) w = (None, w')"
  shows "no_start w w'"
  using assms unfolding resume_running_def
  by (auto dest!: nostart_runs resume_NotFound_nostart intro: nostart.step_trans
      split: if_splits sum.splits option.splits prod.splits)

lemma resume_path_prefix:
  assumes "run_state (resume_path e cand sel ref) w = (res, w')" "res = None \<or> res = Some (Inr ())"
  shows "(res = None \<and> no_start w w') \<or>
    (\<exists>h v. no_start w v \<and> run_state (resume_running e cand sel h) v = (res, w'))"
  using assms nostart.step_refl unfolding resume_path_def Let_def
  by (auto dest!: nostart_runs split: if_splits sum.splits option.splits prod.splits)
    (blast intro: nostart.step_trans)+

lemma resume_path_None: "run_state (resume_path e cand sel ref) w = (None, w') \<Longrightarrow> no_start w w'"
  using resume_path_prefix [of e cand sel ref w None w'] by (auto dest: resume_running_None intro: nostart.step_trans)

lemma resume_running_calls:
  assumes "run_state (resume_running e cand sel h) w = (Some (Inr ()), w')"
  shows "\<exists>cs. w_calls w' = w_calls w @ cs @ [(CallResume h, Inr '''')] \<and>
    intent_landed e h (c_DLLimit cand) (c_ULLimit cand) sel cs"
  using assms unfolding resume_running_def
  by (auto dest!: engine_calls applyPersistedIntent_calls quiet_writes simp: no_text_def
      split: if_splits sum.splits option.splits prod.splits)

lemma add_path_calls:
  assumes "run_state (add_path e cand sel) w = (Inr (), w')"
  shows "\<exists>req h cs fin. admissionRequest cand sel = Some req \<and>
    w_calls w' = w_calls w @ (CallAdd req, Inr h) # cs @ fin \<and>
    intent_landed e h (c_DLLimit cand) (c_ULLimit cand) sel cs \<and>
    fin = (if ar_StartPaused req then [(CallResume h, Inr '''')] else [])"
  using assms unfolding add_path_def
  by (auto dest!: engine_calls applyPersistedIntent_calls quiet_writes simp: no_text_def
      split: if_splits sum.splits option.splits prod.splits)

lemma admissionRequest_paused:
  "admissionRequest cand sel = Some req \<Longrightarrow>
     ar_StartPaused req = (sel \<noteq> None \<or> 0 < c_DLLimit cand \<or> 0 < c_ULLimit cand)"
  by (auto simp: admissionRequest_def Let_def empty_request_def split: if_splits)

definition candidate_selection :: "candidate \<Rightarrow> selection_intent option" where
  "candidate_selection cand = (case decodeSelectionIntent (c_SelectFiles cand) of Inl _ \<Rightarrow> None | Inr s \<Rightarrow> s)"

lemma release_cases:
  assumes "run_state (release engines cand) w = (Inr (), w')" "engines (c_Engine cand) = Some e"
  obtains (resumed) ref where
      "run_state (resume_path e cand (candidate_selection cand) ref) w = (Some (Inr ()), w')"
    | (added) v where "run_state (add_path e cand (candidate_selection cand)) v = (Inr (), w')" "no_start w v"
  using assms nostart.step_refl resume_path_None unfolding release_def candidate_selection_def Let_def
  by (fastforce split: option.splits prod.splits)

lemma intent_landed_quiet:
  "intent_landed e h dl ul sel cs \<Longrightarrow> list_all (\<lambda>c. \<not> starts_transfer c) cs"
  by (auto simp: intent_landed_def rates_landed_def files_landed_def starts_transfer_def
      split: if_splits option.splits)

lemma intent_landed_none: "intent_landed e h dl ul None cs \<Longrightarrow> dl \<le> 0 \<Longrightarrow> ul \<le> 0 \<Longrightarrow> cs = []"
  by (auto simp: intent_landed_def rates_landed_def files_landed_def)

text \<open>
  C14. A release that succeeds lands the task's persisted intent before it sets the transfer going. Up to
  the point where the transfer starts no call has started any; the rate limits and, where the engine can
  select files, the file selection with its priorities are on the transfer, acknowledged, and then the
  transfer is resumed. Only a task with no limit and no selection is started by the \<open>Add\<close> itself.
\<close>

theorem release_intent_first:
  assumes "run_state (release engines cand) w = (Inr (), w')" and "engines (c_Engine cand) = Some e"
  shows "\<exists>pre h cs. w_calls w' = w_calls w @ pre \<and>
    (\<exists>before. pre = before @ cs @ [(CallResume h, Inr '''')] \<and> list_all (\<lambda>c. \<not> starts_transfer c) (before @ cs) \<and>
       intent_landed e h (c_DLLimit cand) (c_ULLimit cand) (candidate_selection cand) cs \<or>
     pre = before @ [(CallAdd (the (admissionRequest cand None)), Inr h)] \<and> list_all (\<lambda>c. \<not> starts_transfer c) before \<and>
       candidate_selection cand = None \<and> c_DLLimit cand \<le> 0 \<and> c_ULLimit cand \<le> 0)"
  using assms
proof (cases rule: release_cases)
  case (resumed ref)
  then obtain h v where v: "no_start w v" "run_state (resume_running e cand (candidate_selection cand) h) v = (Some (Inr ()), w')"
    using resume_path_prefix [OF resumed] by auto
  obtain before where before: "w_calls v = w_calls w @ before" "list_all (\<lambda>c. \<not> starts_transfer c) before"
    using v(1) unfolding no_start_def by blast
  obtain cs where cs: "w_calls w' = w_calls v @ cs @ [(CallResume h, Inr '''')]"
      "intent_landed e h (c_DLLimit cand) (c_ULLimit cand) (candidate_selection cand) cs"
    using resume_running_calls [OF v(2)] by blast
  with before intent_landed_quiet [OF cs(2)] show ?thesis
    by (intro exI [of _ "before @ cs @ [(CallResume h, Inr '''')]"] exI [of _ h] exI [of _ cs] conjI
      exI [of _ before] disjI1) simp_all
next
  case (added v)
  obtain before where before: "w_calls v = w_calls w @ before" "list_all (\<lambda>c. \<not> starts_transfer c) before"
    using added(2) unfolding no_start_def by blast
  obtain req h cs fin where req: "admissionRequest cand (candidate_selection cand) = Some req"
      "w_calls w' = w_calls v @ (CallAdd req, Inr h) # cs @ fin"
      "intent_landed e h (c_DLLimit cand) (c_ULLimit cand) (candidate_selection cand) cs"
      "fin = (if ar_StartPaused req then [(CallResume h, Inr '''')] else [])"
    using add_path_calls [OF added(1)] by blast
  note paused = admissionRequest_paused [OF req(1)]
  show ?thesis
  proof (cases "ar_StartPaused req")
    case True
    with before req intent_landed_quiet [OF req(3)] show ?thesis
      by (intro exI [of _ "(before @ [(CallAdd req, Inr h)]) @ cs @ [(CallResume h, Inr '''')]"] exI [of _ h] exI [of _ cs] conjI
        exI [of _ "before @ [(CallAdd req, Inr h)]"] disjI1) (simp_all add: starts_transfer_def)
  next
    case False
    then have none: "candidate_selection cand = None" "c_DLLimit cand \<le> 0" "c_ULLimit cand \<le> 0"
      using paused by auto
    with intent_landed_none [of e h _ _ cs] req(3) have "cs = []" by simp
    with before req False none show ?thesis
      by (intro exI [of _ "before @ [(CallAdd req, Inr h)]"] exI [of _ h] exI [of _ cs] conjI
        exI [of _ before] disjI2) simp_all
  qed
qed

definition demo_limited :: task where
  "demo_limited = (demo_task ''a'' StateQueued)\<lparr>t_source_uri := Some ''u1'', t_dl_limit := 5\<rparr>"

lemma demo_release:
  "fst (run_state (release demo_engines (candidate_of demo_limited)) (demo_world [demo_limited] [])) = Inr ()"
  by code_simp

theorem release_intent_first_witness:
  "\<exists>before h. w_calls (snd (run_state (release demo_engines (candidate_of demo_limited)) (demo_world [demo_limited] []))) =
     before @ [(CallSetRateLimits h (Some 5) None, Inr ''''), (CallResume h, Inr '''')] \<or>
     w_calls (snd (run_state (release demo_engines (candidate_of demo_limited)) (demo_world [demo_limited] []))) =
     before @ [(CallSetRateLimits h (Some 5) None, Inl ErrNotSupported), (CallResume h, Inr '''')]"
proof -
  have cand: "c_DLLimit (candidate_of demo_limited) = 5" "c_ULLimit (candidate_of demo_limited) = 0"
    "candidate_selection (candidate_of demo_limited) = None" "demo_engines (c_Engine (candidate_of demo_limited)) = Some demo_engine"
    by (simp_all add: candidate_of_def demo_limited_def demo_task_def demo_engines_def candidate_selection_def
        decodeSelectionIntent_def)
  have calls: "w_calls (demo_world [demo_limited] []) = []"
    by (simp add: demo_world_def demo_store_def store.defs)
  have run: "run_state (release demo_engines (candidate_of demo_limited)) (demo_world [demo_limited] []) = (Inr (), v)"
    if "v = snd (run_state (release demo_engines (candidate_of demo_limited)) (demo_world [demo_limited] []))" for v
    using demo_release that by (simp add: prod_eq_iff)
  show ?thesis
    using release_intent_first [OF run [OF refl] cand(4)] unfolding cand calls intent_landed_def rates_landed_def files_landed_def
    by auto
qed

subsection \<open>The disk-full pause\<close>

lemma pauseEngineSide_tables:
  assumes "run_state (pauseEngineSide engines tsk) w = (u, v)"
  shows "s_tasks v = s_tasks w" "s_events v = s_events w" "constraints_ok v = constraints_ok w"
  using assms by (auto simp: pauseEngineSide_def e_Pause_def ecall_def Let_def constraints_ok_def
      split: option.splits prod.splits)

lemma GetTask_row:
  assumes "run_state (GetTask (t_id r)) w = (g, v)" "distinct (map t_id (s_tasks w))" "r \<in> set (s_tasks w)"
  shows "g \<in> {Inl SErrDB, Inr r}" "\<exists>dt rest. v = after_tick dt rest w"
  using assms sql_find_distinct [of t_id "s_tasks w" r] unfolding GetTask_def
  by (auto elim!: query_run simp: queryGetTask_def split: option.splits)

text \<open>The row as the guard leaves it, beside untouched ones.\<close>

definition parked :: "string \<Rightarrow> task list \<Rightarrow> task list \<Rightarrow> bool" where
  "parked tid rows rows' \<longleftrightarrow> (\<exists>now. rows' = map (\<lambda>x. if t_id x = tid
     then x\<lparr>t_state := StatePaused, t_error_code := Some ErrorCodeDiskFull, t_error_message := Some diskFullMessage,
        t_admission_pending := 0, t_updated_at := now\<rparr> else x) rows)"

lemma PauseWithCode_parks:
  assumes "run_state (PauseWithCode tid \<lparr>cp_EventCode = CodeTaskPaused, cp_EventMessage = pauseDiskFullEventMessage,
      cp_ErrorCode = ErrorCodeDiskFull, cp_ErrorMessage = diskFullMessage, cp_FromStates = diskFullPauseSources\<rparr>) w =
      (res, w')"
    and ids: "distinct (map t_id (s_tasks w))" and r: "r \<in> set (s_tasks w)" "t_id r = tid"
  shows "res \<noteq> Inl SErrNotFound"
    "res = Inr () \<Longrightarrow> parked tid (s_tasks w) (s_tasks w') \<and> (\<exists>ev. s_events w' = s_events w @ [ev] \<and>
       ev_task_id ev = tid \<and> ev_code ev = CodeTaskPaused)"
proof -
  obtain f dt rest where t: "run_state tick w = (f, after_tick dt rest w)" by (rule tick_cases)
  have same: "x = r" if "x \<in> set (s_tasks w)" "t_id x = tid" for x
    using same_id_same_row [OF ids r(1) that(1)] that(2) r(2) by simp
  have codes: "nullableText ErrorCodeDiskFull = Some ErrorCodeDiskFull" "nullableText diskFullMessage = Some diskFullMessage"
    "ErrorCodeDiskFull \<noteq> ''''" "CodeTaskPaused \<noteq> ''''" "diskFullPauseSources \<noteq> []"
    by (simp_all add: nullableText_def ErrorCodeDiskFull_def diskFullMessage_def CodeTaskPaused_def diskFullPauseSources_def)
  have state: "queryTaskState tid (s_tasks w) = Some (t_state r)"
    using queryTaskState_row [OF ids r(1)] r(2) by simp
  show "res \<noteq> Inl SErrNotFound"
    using assms(1) by (auto simp: PauseWithCode_def run_tx_tick [OF t] state codes Let_def case_prod_beta split: if_splits)
  assume "res = Inr ()"
  then have src: "t_state r \<in> set diskFullPauseSources" and
    "s_tasks w' = fst (queryPauseTaskWithCode (Some ErrorCodeDiskFull) (Some diskFullMessage) (s_now w + int dt) tid
       diskFullPauseSources (s_tasks w))"
    and ev: "\<exists>ev. s_events w' = s_events w @ [ev] \<and> ev_task_id ev = tid \<and> ev_code ev = CodeTaskPaused"
    using assms(1) by (auto simp: PauseWithCode_def run_tx_tick [OF t] state codes Let_def case_prod_beta
        insertTaskEvent_def NewID_def split: if_splits)
  moreover have "map (\<lambda>x. if t_id x = tid \<and> t_state x \<in> set diskFullPauseSources then f x else x) (s_tasks w) =
      map (\<lambda>x. if t_id x = tid then f x else x) (s_tasks w)" for f
    using same src by (intro map_cong refl) auto
  ultimately show "parked tid (s_tasks w) (s_tasks w') \<and> (\<exists>ev. s_events w' = s_events w @ [ev] \<and>
       ev_task_id ev = tid \<and> ev_code ev = CodeTaskPaused)"
    unfolding parked_def queryPauseTaskWithCode_def by auto
qed

text \<open>
  The reaction to a full disk never takes over a task it does not own. A task the operator paused, or
  one that no longer runs, keeps its row and its log, and for the operator's pause no engine is contacted;
  the caller is told. When the call answers success for a running task, exactly that row is paused under
  the disk-full code, in the same write as its event, so the admission pass will find it and nobody else's
  row moved.
\<close>

theorem PauseDiskFull_owns:
  assumes "constraints_ok w" and "r \<in> set (s_tasks w)" "t_id r = tid"
  shows "case run_state (PauseDiskFull engines tid) w of (res, w') \<Rightarrow>
    (t_state r = StatePaused \<and> t_error_code r \<noteq> Some ErrorCodeDiskFull \<longrightarrow>
       res \<noteq> Inr () \<and> s_tasks w' = s_tasks w \<and> s_events w' = s_events w \<and> w_calls w' = w_calls w) \<and>
    (t_state r \<noteq> StatePaused \<and> t_state r \<notin> set diskFullPauseSources \<longrightarrow>
       res \<noteq> Inr () \<and> s_tasks w' = s_tasks w \<and> s_events w' = s_events w) \<and>
    (t_state r \<in> set diskFullPauseSources \<and> res = Inr () \<longrightarrow>
       parked tid (s_tasks w) (s_tasks w') \<and>
       (\<exists>ev. s_events w' = s_events w @ [ev] \<and> ev_task_id ev = tid \<and> ev_code ev = CodeTaskPaused))"
proof -
  have ids: "distinct (map t_id (s_tasks w))"
    using assms(1) by (rule constraints_ok_ids)
  obtain g v where g: "run_state (GetTask tid) w = (g, v)" by fastforce
  have v: "g \<in> {Inl SErrDB, Inr r}" "s_tasks v = s_tasks w" "s_events v = s_events w" "w_calls v = w_calls w"
    using GetTask_row [of r w g v] g ids assms(2,3) by (auto simp: after_tick_def)
  have src: "StatePaused \<notin> set diskFullPauseSources"
    by (simp add: diskFullPauseSources_def)
  obtain u v2 where p: "run_state (pauseEngineSide engines r) v = (u, v2)" by (meson surj_pair)
  note v2 = pauseEngineSide_tables [OF p]
  obtain q v3 where q: "run_state (PauseWithCode tid \<lparr>cp_EventCode = CodeTaskPaused,
      cp_EventMessage = pauseDiskFullEventMessage, cp_ErrorCode = ErrorCodeDiskFull,
      cp_ErrorMessage = diskFullMessage, cp_FromStates = diskFullPauseSources\<rparr>) v2 = (q, v3)" by (meson surj_pair)
  note parks = PauseWithCode_parks [OF q, unfolded v2 v, OF ids assms(2,3)]
  from v(1) consider "g = Inl SErrDB" | "g = Inr r" by blast
  then show ?thesis
    using g v v2 p q parks src by cases (auto simp: PauseDiskFull_def split: sum.splits)
qed

theorem PauseDiskFull_owns_witness:
  "parked ''t1'' [demo_task ''t1'' StateDownloading]
     (s_tasks (snd (run_state (PauseDiskFull demo_engines ''t1'') (demo_world [demo_task ''t1'' StateDownloading] []))))"
proof -
  let ?w = "demo_world [demo_task ''t1'' StateDownloading] []"
  have "fst (run_state (PauseDiskFull demo_engines ''t1'') ?w) = Inr ()"
    by code_simp
  moreover have "constraints_ok ?w" "s_tasks ?w = [demo_task ''t1'' StateDownloading]"
    by (simp_all add: demo_world_def store.defs demo_simps)
  ultimately show ?thesis
    using PauseDiskFull_owns [of ?w "demo_task ''t1'' StateDownloading" "''t1''" demo_engines]
    by (simp add: case_prod_beta demo_task_def diskFullPauseSources_def)
qed

end
