(* ===== verification/Reconcile.thy ===== *)
theory Reconcile
  imports AdmissionProps
begin

section \<open>The reconciler\<close>

text \<open>
  \<open>src/internal/engine/reconcile.go\<close>: the sweep that keeps the rows in step with the engines. A sweep asks
  an engine for its transfers, joins them with the rows that hold a handle on it, writes counters and states
  back, and re-submits, under the task-operation lease, the transfers the engine has lost.

  \<^item> The parameters are those of the admission controller; \<open>names\<close> is the registry's sorted list of engine
    names, and \<open>env\<close> is what other goroutines do before the i-th transfer of a sweep is handled.
  \<^item> Log lines are not modelled; the installation of ownership filters belongs to the adapters. What those
    filters are fed with, \<open>OwnedRefs\<close>, is at the end.
\<close>

definition CodeTaskReconciled :: string where "CodeTaskReconciled = ''task.reconciled''"

datatype sweep_error = SweepCtx | SweepStore store_error

definition resubmittable :: "task_state \<Rightarrow> bool" where
  "resubmittable st \<longleftrightarrow> st \<in> {StateDownloading, StateSeeding, StateChecking}"

subsection \<open>Writing back\<close>

text \<open>A refusal of the pause drops the report; the cause is only logged.\<close>

definition routeDiskFull ::
  "'e engines \<Rightarrow> reconcilable \<Rightarrow> task_info \<Rightarrow> (('e, 'z) world_scheme, store_error + unit) action" where
  "routeDiskFull engines tsk info =
     (if rc_State tsk = StatePaused then ret (Inr ())
      else do { _ \<leftarrow> PauseDiskFull engines (rc_ID tsk); ret (Inr ()) })"

definition progress_of :: "task_info \<Rightarrow> progress" where
  "progress_of info = \<lparr>p_TotalBytes = ti_TotalBytes info, p_CompletedBytes = ti_CompletedBytes info,
     p_UploadedBytes = ti_UploadedBytes info, p_DownloadRate = ti_DownloadRate info,
     p_UploadRate = ti_UploadRate info, p_ETASeconds = ti_ETASeconds info\<rparr>"

definition adoptState :: "reconcilable \<Rightarrow> task_info \<Rightarrow> (('e, 'z) world_scheme, store_error + unit) action" where
  "adoptState tsk info = do {
     r \<leftarrow> Transition (rc_ID tsk) (ti_State info) CodeTaskReconciled
       (''reconciler adopted engine state '' @ quoted (state_str (ti_State info)));
     ret (case r of Inl err \<Rightarrow> if err = SErrIllegalTransition then Inr () else Inl err | Inr _ \<Rightarrow> Inr ())
   }"

definition writeBack ::
  "'e engines \<Rightarrow> reconcilable \<Rightarrow> task_info \<Rightarrow> (('e, 'z) world_scheme, store_error + unit) action" where
  "writeBack engines tsk info =
     (if ti_ErrorCode info = ErrorCodeDiskFull \<and> rc_State tsk = StatePaused then ret (Inr ())
      else do {
        u \<leftarrow> UpdateProgress (rc_ID tsk) (progress_of info);
        case u of
          Inl err \<Rightarrow> ret (Inl err)
        | Inr _ \<Rightarrow>
            if ti_ErrorCode info = ErrorCodeDiskFull then routeDiskFull engines tsk info
            else if rc_State tsk = StateQueued then ret (Inr ())
            else if rc_State tsk = ti_State info then ret (Inr ())
            else adoptState tsk info
      })"

subsection \<open>Re-submission\<close>

definition failResubmit ::
  "reconcilable \<Rightarrow> string \<Rightarrow> eng_error \<Rightarrow> (('e, 'z) world_scheme, sweep_error + unit) action" where
  "failResubmit tsk name cause = do {
     r \<leftarrow> Transition (rc_ID tsk) StateError CodeEngineUnavailable
       (''engine '' @ quoted name @ '' refused the re-submission: '' @ eng_error_text cause);
     ret (case r of Inl err \<Rightarrow> Inl (SweepStore err) | Inr _ \<Rightarrow> Inr ())
   }"

definition refresh_reconcilable :: "reconcilable \<Rightarrow> task \<Rightarrow> reconcilable" where
  "refresh_reconcilable tsk current = tsk\<lparr>rc_State := t_state current,
     rc_EngineRef := (case t_engine_ref current of Some ref \<Rightarrow> ref | None \<Rightarrow> rc_EngineRef tsk),
     rc_SourceURI := t_source_uri current, rc_InfohashV1 := t_infohash_v1 current,
     rc_Destination := t_destination current, rc_SelectFiles := t_select_files current,
     rc_DLLimit := t_dl_limit current, rc_ULLimit := t_ul_limit current\<rparr>"

text \<open>What follows the recorded handle: the intent on it, and the start of the transfer.\<close>

definition restate_intent ::
  "'e engine \<Rightarrow> reconcilable \<Rightarrow> selection_intent option \<Rightarrow> add_request \<Rightarrow> string \<Rightarrow>
   (('e, 'z) world_scheme, unit) action" where
  "restate_intent e tsk sel req newID = do {
     intent \<leftarrow> applyPersistedIntent e newID (rc_DLLimit tsk) (rc_ULLimit tsk) sel;
     case intent of
       Inl err \<Rightarrow>
         if err = ASelectionPending then do {
           q \<leftarrow> Transition (rc_ID tsk) StateQueued CodeTaskReconciled
             ''re-submitted; file selection waits for the engine's file listing'';
           case q of
             Inl _ \<Rightarrow> ret ()
           | Inr _ \<Rightarrow> do {
               m \<leftarrow> MarkAdmissionPending (rc_ID tsk);
               if m = Inr True then do { _ \<leftarrow> e_Resume e newID; ret () } else ret ()
             }
         }
         else ret ()
     | Inr _ \<Rightarrow>
         if ar_StartPaused req then do {
           r \<leftarrow> e_Resume e newID;
           case r of
             Inl _ \<Rightarrow> do {
               _ \<leftarrow> Transition (rc_ID tsk) StateQueued CodeTaskReconciled
                 ''re-submitted; the first start failed and the admission pass retries it'';
               ret ()
             }
           | Inr _ \<Rightarrow> ret ()
         }
         else ret ()
   }"

definition resubmit_added ::
  "'e engine \<Rightarrow> string \<Rightarrow> reconcilable \<Rightarrow> selection_intent option \<Rightarrow> add_request \<Rightarrow> string \<Rightarrow>
   (('e, 'z) world_scheme, sweep_error + unit) action" where
  "resubmit_added e name tsk sel req newID = do {
     s \<leftarrow> SetEngineRef (rc_ID tsk) (bareHandle name newID);
     case s of
       Inl err \<Rightarrow> do { _ \<leftarrow> e_Remove e newID; ret (Inl (SweepStore err)) }
     | Inr _ \<Rightarrow> do {
         _ \<leftarrow> restate_intent e tsk sel req newID;
         _ \<leftarrow> AppendEvent (rc_ID tsk) ''info'' CodeTaskReconciled
           ''engine lost the transfer; re-submitted with resume semantics''
           (Some (EngineHandle name (bareHandle name newID)));
         ret (Inr ())
       }
   }"

definition resubmit_leased ::
  "'e engine \<Rightarrow> string \<Rightarrow> reconcilable \<Rightarrow> (('e, 'z) world_scheme, sweep_error + unit) action" where
  "resubmit_leased e name tsk0 = do {
     cur \<leftarrow> GetTask (rc_ID tsk0);
     case cur of
       Inl err \<Rightarrow> ret (if err = SErrNotFound then Inr () else Inl (SweepStore err))
     | Inr current \<Rightarrow>
         if \<not> resubmittable (t_state current) then ret (Inr ())
         else do {
           let tsk = refresh_reconcilable tsk0 current;
           let sel = (case decodeSelectionIntent (rc_SelectFiles tsk) of Inl _ \<Rightarrow> None | Inr s \<Rightarrow> s);
           case resubmitRequest tsk sel of
             None \<Rightarrow> ret (Inr ())
           | Some req \<Rightarrow> do {
               a \<leftarrow> e_Add e req;
               case a of
                 Inl err \<Rightarrow> do {
                   gone \<leftarrow> reader ctx_done;
                   if gone then ret (Inl SweepCtx) else failResubmit tsk name err
                 }
               | Inr newID \<Rightarrow> resubmit_added e name tsk sel req newID
             }
         }
   }"

definition resubmit ::
  "'e engine \<Rightarrow> string \<Rightarrow> reconcilable \<Rightarrow> (('e, 'z) world_scheme, sweep_error + unit) action" where
  "resubmit e name tsk = do {
     lease \<leftarrow> tryLease (rc_ID tsk);
     case lease of
       None \<Rightarrow> ret (Inr ())
     | Some l \<Rightarrow> do {
         r \<leftarrow> resubmit_leased e name tsk;
         _ \<leftarrow> releaseLease (rc_ID tsk) l;
         ret r
       }
   }"

subsection \<open>A sweep\<close>

text \<open>
  Pass 1: the live list. The result is the handles seen; an error of one task is logged and skipped, a
  cancelled context ends the sweep.
\<close>

fun sweep_live ::
  "'e engines \<Rightarrow> string \<Rightarrow> (nat \<Rightarrow> (('e, 'z) world_scheme, unit) action) \<Rightarrow> nat \<Rightarrow> (string \<times> reconcilable) list \<Rightarrow>
   task_info list \<Rightarrow> string list \<Rightarrow> (('e, 'z) world_scheme, sweep_error + string list) action" where
  "sweep_live engines name env i known [] seen = ret (Inr seen)"
| "sweep_live engines name env i known (info # infos) seen = do {
     _ \<leftarrow> env i;
     gone \<leftarrow> reader ctx_done;
     if gone then ret (Inl SweepCtx)
     else (let ref = bareHandle name (ti_ID info) in
       case map_of known ref of
         None \<Rightarrow> sweep_live engines name env (Suc i) known infos seen
       | Some tsk \<Rightarrow> do {
           r \<leftarrow> writeBack engines tsk info;
           gone' \<leftarrow> reader ctx_done;
           if r \<noteq> Inr () \<and> gone' then ret (Inl SweepCtx)
           else sweep_live engines name env (Suc i) known infos (ref # seen)
         })
   }"

text \<open>Pass 2: the handles the engine no longer reports, in order.\<close>

fun sweep_vanished ::
  "'e engine \<Rightarrow> string \<Rightarrow> (nat \<Rightarrow> (('e, 'z) world_scheme, unit) action) \<Rightarrow> nat \<Rightarrow> (string \<times> reconcilable) list \<Rightarrow>
   string list \<Rightarrow> (('e, 'z) world_scheme, sweep_error + unit) action" where
  "sweep_vanished e name env i known [] = ret (Inr ())"
| "sweep_vanished e name env i known (ref # refs) = do {
     _ \<leftarrow> env i;
     gone \<leftarrow> reader ctx_done;
     if gone then ret (Inl SweepCtx)
     else (case map_of known ref of
         None \<Rightarrow> sweep_vanished e name env (Suc i) known refs
       | Some tsk \<Rightarrow>
           if \<not> resubmittable (rc_State tsk) then sweep_vanished e name env (Suc i) known refs
           else do {
             r \<leftarrow> resubmit e name tsk;
             gone' \<leftarrow> reader ctx_done;
             if r \<noteq> Inr () \<and> gone' then ret (Inl SweepCtx)
             else sweep_vanished e name env (Suc i) known refs
           })
   }"

definition vanished_refs :: "(string \<times> reconcilable) list \<Rightarrow> string list \<Rightarrow> string list" where
  "vanished_refs known seen = sort (remdups (filter (\<lambda>ref. ref \<notin> set seen) (map fst known)))"

definition sweepEngine ::
  "'e engines \<Rightarrow> string \<Rightarrow> (nat \<Rightarrow> (('e, 'z) world_scheme, unit) action) \<Rightarrow> 'e engine \<Rightarrow>
   (('e, 'z) world_scheme, sweep_error + unit) action" where
  "sweepEngine engines name env e = do {
     l \<leftarrow> e_List e;
     case l of
       Inl _ \<Rightarrow> do { gone \<leftarrow> reader ctx_done; ret (if gone then Inl SweepCtx else Inr ()) }
     | Inr listed \<Rightarrow> do {
         k \<leftarrow> ListNonTerminalByEngine name;
         case k of
           Inl err \<Rightarrow> ret (Inl (SweepStore err))
         | Inr known \<Rightarrow> do {
             s \<leftarrow> sweep_live engines name env 0 known listed [];
             case s of
               Inl err \<Rightarrow> ret (Inl err)
             | Inr seen \<Rightarrow> sweep_vanished e name env (length listed) known (vanished_refs known seen)
           }
       }
   }"

fun Boot ::
  "'e engines \<Rightarrow> (nat \<Rightarrow> (('e, 'z) world_scheme, unit) action) \<Rightarrow> string list \<Rightarrow>
   (('e, 'z) world_scheme, sweep_error + unit) action" where
  "Boot engines env [] = ret (Inr ())"
| "Boot engines env (name # names) = (case engines name of
     None \<Rightarrow> Boot engines env names
   | Some e \<Rightarrow> do {
       r \<leftarrow> sweepEngine engines name env e;
       case r of Inl err \<Rightarrow> ret (Inl err) | Inr _ \<Rightarrow> Boot engines env names
     })"

subsection \<open>The ownership listing\<close>

text \<open>
  The snapshot source handed to an adapter: one store listing serves every call of a window, a failed
  listing keeps the last good set, and before the first success nothing is owned. Times are nanoseconds;
  \<open>done\<close> is the clock after the store call.
\<close>

definition ownershipListingTTL :: int where "ownershipListingTTL = 1000000000"

record owned_memo =
  om_expires :: int
  om_lastGood :: "string set"

definition ownedListing :: "(store_error + (string \<times> reconcilable) list) \<Rightarrow> string set option" where
  "ownedListing answer = (case answer of Inl _ \<Rightarrow> None | Inr known \<Rightarrow> Some (set (map fst known)))"

definition OwnedRefs ::
  "int \<Rightarrow> int \<Rightarrow> (store_error + (string \<times> reconcilable) list) \<Rightarrow> owned_memo \<Rightarrow> string set \<times> owned_memo" where
  "OwnedRefs now done answer m =
     (let m' = (if now < om_expires m then m
        else (case ownedListing answer of
            Some owned \<Rightarrow> m\<lparr>om_lastGood := owned, om_expires := done + ownershipListingTTL\<rparr>
          | None \<Rightarrow> m\<lparr>om_expires := done + ownershipListingTTL\<rparr>)) in
      (om_lastGood m', m'))"

subsection \<open>What every run keeps\<close>

context lease_rel
begin

lemma io_option_eq:
  assumes "m = opt" and "opt = None \<Longrightarrow> state_io_rel R f" and "\<And>x. opt = Some x \<Longrightarrow> state_io_rel R (g x)"
  shows "state_io_rel R (case m of None \<Rightarrow> f | Some x \<Rightarrow> g x)"
  using assms by (cases opt) auto

lemma io_sweep_live:
  assumes "\<And>i. state_io_rel R (env i)" and "\<And>ref tsk info. (ref, tsk) \<in> set known \<Longrightarrow> state_io_rel R (writeBack engines tsk info)"
  shows "state_io_rel R (sweep_live engines name env i known infos seen)"
proof (induction infos arbitrary: i seen)
  case (Cons info infos)
  have known: "state_io_rel R (writeBack engines tsk info)" if "map_of known ref = Some tsk" for ref tsk
    using that assms(2) by (blast dest: map_of_SomeD)
  show ?case
    unfolding sweep_live.simps Let_def
    by (intro io_intros assms(1) Cons.IH io_option_eq [OF refl]) (use known in blast)
qed (simp add: io_return)

lemma io_sweep_vanished:
  assumes "\<And>i. state_io_rel R (env i)" and "\<And>ref tsk. (ref, tsk) \<in> set known \<Longrightarrow> state_io_rel R (resubmit e name tsk)"
  shows "state_io_rel R (sweep_vanished e name env i known refs)"
proof (induction refs arbitrary: i)
  case (Cons ref refs)
  have known: "state_io_rel R (resubmit e name tsk)" if "map_of known ref = Some tsk" for tsk
    using that assms(2) by (blast dest: map_of_SomeD)
  show ?case
    unfolding sweep_vanished.simps Let_def
    by (intro io_intros assms(1) Cons.IH io_option_eq [OF refl]) (use known in blast)
qed (simp add: io_return)

end

context engine_rel
begin

lemma io_writeBack [io_intros]: "P (rc_ID tsk) \<Longrightarrow> state_io_rel R (writeBack engines tsk info)"
  unfolding writeBack_def routeDiskFull_def adoptState_def by (intro io_intros)

lemma io_resubmit_added [io_intros]: "P (rc_ID tsk) \<Longrightarrow> state_io_rel R (resubmit_added e name tsk sel req newID)"
  unfolding resubmit_added_def restate_intent_def by (intro io_intros)

lemma io_failResubmit [io_intros]: "P (rc_ID tsk) \<Longrightarrow> state_io_rel R (failResubmit tsk name cause)"
  unfolding failResubmit_def by (intro io_intros)

lemma refresh_reconcilable_ID [simp]: "rc_ID (refresh_reconcilable tsk current) = rc_ID tsk"
  by (simp add: refresh_reconcilable_def)

lemma io_resubmit [io_intros]: "P (rc_ID tsk) \<Longrightarrow> state_io_rel R (resubmit e name tsk)"
  unfolding resubmit_def resubmit_leased_def Let_def by (intro io_intros) simp_all

lemma sweepEngine_keeps:
  assumes "\<And>i. state_io_rel R (env i)" and "\<And>t. P t"
  shows "state_io_rel R (sweepEngine engines name env e)"
  unfolding sweepEngine_def by (intro io_intros io_sweep_live io_sweep_vanished io_writeBack io_resubmit assms)

lemma Boot_keeps:
  assumes "\<And>i. state_io_rel R (env i)" and "\<And>t. P t"
  shows "state_io_rel R (Boot engines env names)"
proof (induction names)
  case (Cons name names)
  show ?case
    unfolding Boot.simps by (intro io_intros sweepEngine_keeps assms Cons.IH)
qed (simp add: io_return)

end

text \<open>
  A sweep over all engines keeps the books, whatever the daemons report (states that make no sense
  among them), whatever the database does and whatever well-behaved goroutines run in between: the log is
  only extended, no row is created or lost, every task that moved took legal transitions with an event for
  it, and an admission mark stands on queued rows only.
\<close>

theorem Boot_audit_trail:
  assumes "\<And>i. state_io_rel audit_trail (env i)" and "\<And>i. state_io_rel keeps_mark (env i)"
  shows "audit_trail w (snd (run_state (Boot engines env names) w)) \<and>
    keeps_mark w (snd (run_state (Boot engines env names) w))"
  using w_audit.Boot_keeps [OF assms(1), where engines = engines and names = names]
    w_mark.Boot_keeps [OF assms(2), where engines = engines and names = names]
  by (simp add: state_io_rel_def)

text \<open>A daemon that reports one transfer of ours as finished, one foreign transfer, and has lost another.\<close>

definition demo_daemon :: "string list engine" where
  "demo_daemon = demo_engine\<lparr>eng_List := (\<lambda>e. (Inr [
     \<lparr>ti_ID = ''aria2:g1'', ti_Engine = ''aria2'', ti_Name = ''f'', ti_State = StateCompleted, ti_TotalBytes = Some 10,
       ti_CompletedBytes = 10, ti_UploadedBytes = 0, ti_DownloadRate = 0, ti_UploadRate = 0, ti_ETASeconds = None,
       ti_SaveDir = '''', ti_ContentPath = '''', ti_ErrorCode = '''', ti_ErrorMessage = '''', ti_InfohashV1 = '''',
       ti_InfohashV2 = ''''\<rparr>,
     \<lparr>ti_ID = ''aria2:foreign'', ti_Engine = ''aria2'', ti_Name = ''x'', ti_State = StateDownloading, ti_TotalBytes = None,
       ti_CompletedBytes = 0, ti_UploadedBytes = 0, ti_DownloadRate = 0, ti_UploadRate = 0, ti_ETASeconds = None,
       ti_SaveDir = '''', ti_ContentPath = '''', ti_ErrorCode = '''', ti_ErrorMessage = '''', ti_InfohashV1 = '''',
       ti_InfohashV2 = ''''\<rparr>], e))\<rparr>"

definition demo_daemons :: "string list engines" where
  "demo_daemons = (\<lambda>name. if name = ''aria2'' then Some demo_daemon else None)"

definition demo_active :: "task list" where
  "demo_active = [(demo_task ''a'' StateDownloading)\<lparr>t_engine_ref := Some ''g1''\<rparr>,
     (demo_task ''b'' StateDownloading)\<lparr>t_engine_ref := Some ''g2'', t_source_uri := Some ''u2''\<rparr>]"

theorem Boot_audit_trail_witness:
  "audit_trail (demo_world demo_active []) (snd (run_state (Boot demo_daemons (\<lambda>_. ret ()) [''aria2'']) (demo_world demo_active [])))"
  using Boot_audit_trail [of "\<lambda>_. ret ()" "demo_world demo_active []" demo_daemons "[''aria2'']"]
  by (simp add: audit.io_return mark.io_return)

lemma demo_sweep:
  "case run_state (Boot demo_daemons (\<lambda>_. ret ()) [''aria2'']) (demo_world demo_active []) of (res, w') \<Rightarrow>
     res = Inr () \<and> map (\<lambda>r. (t_state r, t_engine_ref r)) (s_tasks w') =
       [(StateCompleted, Some ''g1''), (StateDownloading, Some ''u2'')] \<and> w_eng w' = [''aria2:u2'']"
  by code_simp

end
