(* ===== verification/Ownership.thy ===== *)
theory Ownership
  imports Reconcile
begin

section \<open>Exclusive control: foreign transfers are never touched\<close>

text \<open>
  A daemon may run transfers the program did not start. The rule (ADR-0017) is that they are never paused,
  changed, resumed or removed. Here it is a property of the trace of engine calls: every call that names a
  transfer names one that a row carried, or one the run's own \<open>Add\<close> returned.
\<close>

fun call_target :: "engine_call \<Rightarrow> string option" where
  "call_target (CallAdd req) = None"
| "call_target CallList = None"
| "call_target (CallGet h) = Some h"
| "call_target (CallFiles h) = Some h"
| "call_target (CallPause h) = Some h"
| "call_target (CallResume h) = Some h"
| "call_target (CallRemove h) = Some h"
| "call_target (CallSetFiles h sel pr) = Some h"
| "call_target (CallSetRateLimits h dl ul) = Some h"
| "call_target (CallSetLocation h path) = Some h"
| "call_target (CallSetCategory h cat) = Some h"
| "call_target (CallSetShareLimits h ratio secs) = Some h"
| "call_target (CallSetTags h tags) = Some h"
| "call_target (CallSetSequential h b) = Some h"
| "call_target (CallRecheck h) = Some h"
| "call_target (CallUnlink path) = None"

definition added_handles :: "call_entry list \<Rightarrow> string set" where
  "added_handles cs = {h. \<exists>req. (CallAdd req, Inr h) \<in> set cs}"

text \<open>The handles the rows carry, and what such a set and the run's own \<open>Add\<close>s let a call name.\<close>

definition recorded :: "'z store_scheme \<Rightarrow> string set" where
  "recorded s = {ref. \<exists>r \<in> set (s_tasks s). t_engine_ref r = Some ref}"

definition refs_of :: "string set \<Rightarrow> string set" where
  "refs_of A = {bareHandle e h | e h. h \<in> A}"

definition own :: "string set \<Rightarrow> string set \<Rightarrow> string \<Rightarrow> bool" where
  "own S A h \<longleftrightarrow> h \<in> A \<or> (\<exists>e. \<exists>ref \<in> S \<union> refs_of A. h = namespacedHandle e ref)"

fun spares_foreign :: "string set \<Rightarrow> string set \<Rightarrow> call_entry list \<Rightarrow> bool" where
  "spares_foreign S A [] = True"
| "spares_foreign S A ((c, ans) # cs) =
     ((case call_target c of None \<Rightarrow> True | Some h \<Rightarrow> own S A h) \<and>
      spares_foreign S (A \<union> added_handles [(c, ans)]) cs)"

lemma added_handles_append: "added_handles (cs @ ds) = added_handles cs \<union> added_handles ds"
  by (auto simp: added_handles_def)

lemma added_handles_Nil [simp]: "added_handles [] = {}"
  by (simp add: added_handles_def)

lemma added_handles_Cons: "added_handles (c # cs) = added_handles [c] \<union> added_handles cs"
  by (auto simp: added_handles_def)

lemma spares_foreign_append:
  "spares_foreign S A (cs @ ds) \<longleftrightarrow> spares_foreign S A cs \<and> spares_foreign S (A \<union> added_handles cs) ds"
proof (induction S A cs rule: spares_foreign.induct)
  case (2 S A c ans cs)
  have "A \<union> added_handles ((c, ans) # cs) = A \<union> added_handles [(c, ans)] \<union> added_handles cs"
    using added_handles_Cons [of "(c, ans)" cs] by blast
  with 2 show ?case by simp
qed simp

lemma refs_of_mono: "A \<subseteq> B \<Longrightarrow> refs_of A \<subseteq> refs_of B"
  by (auto simp: refs_of_def)

lemma own_mono: "own S A h \<Longrightarrow> A \<subseteq> B \<Longrightarrow> own S B h"
  using refs_of_mono [of A B] by (auto simp: own_def)

lemma own_ref: "ref \<in> S \<Longrightarrow> own S A (namespacedHandle e ref)"
  by (auto simp: own_def)

lemma own_added: "own S (insert h H) h"
  by (simp add: own_def)

text \<open>The state of a run that has accounted for its calls so far; \<open>H\<close> are handles known to be its own.\<close>

definition accounted :: "call_entry list \<Rightarrow> string set \<Rightarrow> string set \<Rightarrow> ('e, 'z) world_scheme \<Rightarrow> bool" where
  "accounted base S H w \<longleftrightarrow> (\<exists>cs. w_calls w = base @ cs \<and> H \<subseteq> added_handles cs \<and>
     recorded w \<subseteq> S \<union> refs_of (added_handles cs) \<and> spares_foreign S {} cs)"

definition spares :: "call_entry list \<Rightarrow> string set \<Rightarrow> string set \<Rightarrow>
  ('e, 'z) world_scheme \<Rightarrow> ('e, 'z) world_scheme \<Rightarrow> bool" where
  "spares base S H w w' \<longleftrightarrow> (accounted base S H w \<longrightarrow> accounted base S H w')"

lemma accounted_store:
  "accounted base S H w \<Longrightarrow> w_calls w' = w_calls w \<Longrightarrow> recorded w' \<subseteq> recorded w \<Longrightarrow> accounted base S H w'"
  unfolding accounted_def by (metis subset_trans)

interpretation spare: lease_rel "spares base S H" for base S H
  by unfold_locales (auto simp: spares_def elim: accounted_store simp: recorded_def)

subsection \<open>Store calls\<close>

text \<open>A write that leaves the handles of the rows alone.\<close>

definition keeps_refs :: "('e, 'z) world_scheme \<Rightarrow> ('e, 'z) world_scheme \<Rightarrow> bool" where
  "keeps_refs w w' \<longleftrightarrow> recorded w' \<subseteq> recorded w \<and> w_calls w' = w_calls w"

lemma keeps_refs_refl [simp]: "keeps_refs w w"
  by (simp add: keeps_refs_def)

lemma keeps_refs_event [simp]: "keeps_refs w (insertTaskEvent tid l c m d now w') = keeps_refs w w'"
  by (simp add: keeps_refs_def recorded_def insertTaskEvent_def NewID_def)

lemma keeps_refs_update:
  assumes "\<And>r. t_engine_ref (f r) = t_engine_ref r"
  shows "keeps_refs w (w\<lparr>s_tasks := fst (sql_update p f (s_tasks w))\<rparr>)"
  using assms by (auto simp: keeps_refs_def recorded_def sql_update_def)

lemma spare_tx:
  fixes body :: "('e, 'z) world_scheme \<Rightarrow> 'a tx_result \<times> ('e, 'z) world_scheme"
  assumes "\<And>w a w'. body w = (Commit a, w') \<Longrightarrow> keeps_refs w w'"
  shows "state_io_rel (spares base S H) (tx body)"
proof (rule spare.io_tx)
  fix w w' :: "('e, 'z) world_scheme" and a
  assume "body w = (Commit a, w')"
  then have "keeps_refs w w'" by (rule assms)
  then show "spares base S H w w'"
    unfolding spares_def keeps_refs_def by (blast intro: accounted_store)
qed

named_theorems update_refs \<open>statements that leave the handles alone\<close>

lemma update_refs_queries [update_refs]:
  "keeps_refs w (w\<lparr>s_tasks := fst (queryTransitionTask next now tid current (s_tasks w))\<rparr>)"
  "keeps_refs w (w\<lparr>s_tasks := fst (queryPauseTaskWithCode ec em now tid from (s_tasks w))\<rparr>)"
  "keeps_refs w (w\<lparr>s_tasks := fst (queryUpdateTaskProgress p now tid (s_tasks w))\<rparr>)"
  "keeps_refs w (w\<lparr>s_tasks := fst (queryClearTaskErrorCodeUnlessPaused now tid (s_tasks w))\<rparr>)"
  "keeps_refs w (w\<lparr>s_tasks := fst (querySetTaskErrorCodeIfState c m now tid st (s_tasks w))\<rparr>)"
  "keeps_refs w (w\<lparr>s_tasks := fst (queryClaimParkedDiskFull tid (s_tasks w))\<rparr>)"
  "keeps_refs w (w\<lparr>s_tasks := fst (queryMarkAdmissionPending now tid (s_tasks w))\<rparr>)"
  unfolding queryTransitionTask_def queryPauseTaskWithCode_def queryUpdateTaskProgress_def
    queryClearTaskErrorCodeUnlessPaused_def querySetTaskErrorCodeIfState_def queryClaimParkedDiskFull_def
    queryMarkAdmissionPending_def clear_code_def
  by (rule keeps_refs_update, simp)+

lemmas op_defs = AppendEvent_def SetErrorCodeIfState_def PauseWithCode_def ClearHoldCode_def
  ClaimParkedDiskFull_def MarkAdmissionPending_def UpdateProgress_def Transition_def

lemma spare_ops [io_intros]:
  "state_io_rel (spares base S H) (AppendEvent tid l c m d)"
  "state_io_rel (spares base S H) (SetErrorCodeIfState tid st c m)"
  "state_io_rel (spares base S H) (PauseWithCode tid cp)"
  "state_io_rel (spares base S H) (ClearHoldCode tid)"
  "state_io_rel (spares base S H) (ClaimParkedDiskFull tid)"
  "state_io_rel (spares base S H) (MarkAdmissionPending tid)"
  "state_io_rel (spares base S H) (UpdateProgress tid p)"
  "state_io_rel (spares base S H) (Transition tid next c m)"
  unfolding op_defs Let_def case_prod_beta
  by (intro io_intros spare_tx; auto intro: update_refs split: op_splits)+

lemma spares_new_ref:
  assumes "h \<in> H" and "recorded w' \<subseteq> insert (bareHandle e h) (recorded w)" and "w_calls w' = w_calls w"
  shows "spares base S H w w'"
  unfolding spares_def
proof
  assume "accounted base S H w"
  then obtain cs where cs: "w_calls w = base @ cs" "H \<subseteq> added_handles cs"
    "recorded w \<subseteq> S \<union> refs_of (added_handles cs)" "spares_foreign S {} cs"
    unfolding accounted_def by blast
  have "bareHandle e h \<in> refs_of (added_handles cs)"
    using assms(1) cs(2) by (auto simp: refs_of_def)
  with assms cs show "accounted base S H w'"
    unfolding accounted_def by (intro exI [of _ cs]) auto
qed

lemma recorded_SetEngineRef:
  "recorded (w\<lparr>s_tasks := fst (querySetTaskEngineRef ref now tid (s_tasks w))\<rparr>) \<subseteq> insert ref (recorded w)"
  by (auto simp: recorded_def querySetTaskEngineRef_def sql_update_def)

lemma recorded_event [simp]: "recorded (insertTaskEvent tid l c m d now w) = recorded w"
  by (simp add: recorded_def)

lemma calls_event [simp]: "w_calls (insertTaskEvent tid l c m d now w) = w_calls w"
  by (simp add: insertTaskEvent_def NewID_def)

lemma spare_SetEngineRef:
  assumes "h \<in> H"
  shows "state_io_rel (spares base S H) (SetEngineRef tid (bareHandle e h))"
  unfolding SetEngineRef_def Let_def case_prod_beta
  by (intro io_intros spare.io_tx spares_new_ref [OF assms])
    (auto split: op_splits dest: recorded_SetEngineRef [THEN subsetD])

subsection \<open>Engine calls\<close>

lemma accounted_call:
  assumes "accounted base S H w" and "w_calls w' = w_calls w @ [(c, ans)]" and "s_tasks w' = s_tasks w"
    and "\<And>A h. H \<subseteq> A \<Longrightarrow> recorded w \<subseteq> S \<union> refs_of A \<Longrightarrow> call_target c = Some h \<Longrightarrow> own S A h"
  shows "accounted base S (H \<union> added_handles [(c, ans)]) w'"
proof -
  obtain cs where cs: "w_calls w = base @ cs" "H \<subseteq> added_handles cs"
    "recorded w \<subseteq> S \<union> refs_of (added_handles cs)" "spares_foreign S {} cs"
    using assms(1) unfolding accounted_def by blast
  have more: "refs_of (added_handles cs) \<subseteq> refs_of (added_handles (cs @ [(c, ans)]))"
    by (rule refs_of_mono) (auto simp: added_handles_append)
  have "spares_foreign S {} (cs @ [(c, ans)])"
    using cs assms(4) by (auto simp: spares_foreign_append split: option.split)
  with cs more assms(2,3) show ?thesis
    unfolding accounted_def
    by (intro exI [of _ "cs @ [(c, ans)]"]) (auto simp: added_handles_append recorded_def)
qed

lemma accounted_weaken: "accounted base S H w \<Longrightarrow> G \<subseteq> H \<Longrightarrow> accounted base S G w"
  unfolding accounted_def by blast

lemma ecall_run:
  "run_state (ecall c shown took f) w = (res, w') \<Longrightarrow>
     w_calls w' = w_calls w @ [(c, map_sum (\<lambda>x. x) shown res)] \<and> s_tasks w' = s_tasks w"
  by (auto simp: ecall_def Let_def split: prod.splits)

lemma spare_ecall:
  fixes f :: "'e \<Rightarrow> (eng_error + 'a) \<times> 'e"
  assumes "\<And>h. call_target c = Some h \<Longrightarrow> own S H h"
  shows "state_io_rel (spares base S H :: ('e, 'z) world_scheme \<Rightarrow> _) (ecall c shown took f)"
proof (rule state_io_relI)
  fix res and w w' :: "('e, 'z) world_scheme"
  assume "run_state (ecall c shown took f) w = (res, w')"
  note run = ecall_run [OF this]
  show "spares base S H w w'"
    unfolding spares_def
    by (auto intro!: accounted_weaken [OF accounted_call [OF _ run [THEN conjunct1] run [THEN conjunct2]]]
        dest: assms own_mono)
qed

lemma spare_calls [io_intros]:
  "state_io_rel (spares base S H) (e_List e)"
  "own S H h \<Longrightarrow> state_io_rel (spares base S H) (e_Get e h)"
  "own S H h \<Longrightarrow> state_io_rel (spares base S H) (e_Files e h)"
  "own S H h \<Longrightarrow> state_io_rel (spares base S H) (e_Pause e h)"
  "own S H h \<Longrightarrow> state_io_rel (spares base S H) (e_Resume e h)"
  "own S H h \<Longrightarrow> state_io_rel (spares base S H) (e_Remove e h)"
  "own S H h \<Longrightarrow> state_io_rel (spares base S H) (e_SetFiles e h sel pr)"
  "own S H h \<Longrightarrow> state_io_rel (spares base S H) (e_SetRateLimits e h dl ul)"
  unfolding e_defs by (rule spare_ecall, simp)+

text \<open>After an \<open>Add\<close>, its receipt is one of the run's own handles.\<close>

lemma spare_Add:
  fixes k :: "eng_error + string \<Rightarrow> (('e, 'z) world_scheme, 'a) action"
  assumes "\<And>h. state_io_rel (spares base S (insert h H)) (k (Inr h))"
    and "\<And>err. state_io_rel (spares base S H) (k (Inl err))"
  shows "state_io_rel (spares base S H) (State_Monad.bind (e_Add e req) k)"
proof (rule state_io_relI)
  fix x and w w' :: "('e, 'z) world_scheme"
  assume "run_state (State_Monad.bind (e_Add e req) k) w = (x, w')"
  then obtain a v where a: "run_state (e_Add e req) w = (a, v)" and k: "run_state (k a) v = (x, w')"
    by (auto split: prod.splits)
  have v: "accounted base S (H \<union> added_handles [(CallAdd req, a)]) v" if "accounted base S H w"
    using ecall_run [OF a [unfolded e_Add_def]] accounted_call [OF that, of v "CallAdd req" a]
    by (simp add: map_sum.id [unfolded id_def])
  show "spares base S H w w'"
  proof (cases a)
    case (Inl err)
    then show ?thesis
      using v k state_io_relD [OF assms(2) [of err]] by (auto simp: spares_def added_handles_def)
  next
    case (Inr h)
    have "added_handles [(CallAdd req, a)] = {h}"
      by (simp add: added_handles_def Inr)
    then show ?thesis
      using v k state_io_relD [OF assms(1) [of h]] Inr accounted_weaken [of base S "insert h H" w' H]
      by (auto simp: spares_def)
  qed
qed

lemma spare_intent [io_intros]:
  "own S H h \<Longrightarrow> state_io_rel (spares base S H) (applyPersistedIntent e h dl ul sel)"
  unfolding applyPersistedIntent_def applyPersistedRateLimits_def applyPersistedSelection_def Let_def
  by (intro io_intros)

lemma spare_helpers:
  "own S H h \<Longrightarrow> state_io_rel (spares base S H) (stopUnownedTransfer e h)"
  "own S H h \<Longrightarrow> state_io_rel (spares base S H) (resumeForMetadata e h)"
  "own S H h \<Longrightarrow> state_io_rel (spares base S H) (removeStrandedTransfer e h)"
  "own S H h \<Longrightarrow> state_io_rel (spares base S H) (own_or_stop e cand h)"
  "state_io_rel (spares base S H) (requeuePendingSelection cand)"
  "state_io_rel (spares base S H) (markReleased tid)"
  "state_io_rel (spares base S H) (clearStaleStamp tid)"
  "state_io_rel (spares base S H) (stampHeld cand code message)"
  unfolding own_or_stop_def stopUnownedTransfer_def resumeForMetadata_def removeStrandedTransfer_def
    requeuePendingSelection_def markAdmissionPending_def markReleased_def clearHoldCode_def clearStaleStamp_def
    stampHeld_def
  by (intro io_intros; assumption?)+

lemma spare_releaseFailed: "state_io_rel (spares base S H) (releaseFailed cand err)"
  unfolding releaseFailed_def
  by (cases err) (auto intro!: io_intros spare_helpers)

lemma spare_add_path: "state_io_rel (spares base S H) (add_path e cand sel)"
proof (cases "admissionRequest cand sel")
  case None
  then show ?thesis
    unfolding add_path_def by (simp add: spare.io_return)
next
  case (Some req)
  show ?thesis
    unfolding add_path_def Some option.case
    by (rule spare_Add; unfold sum.case; intro io_intros spare_helpers spare_SetEngineRef own_added insertI1)
qed

lemma spare_resume_path:
  assumes "ref \<in> S"
  shows "state_io_rel (spares base S H) (resume_path e cand sel ref)"
  unfolding resume_path_def resume_running_def Let_def
  by (intro io_intros spare_helpers own_ref assms)

lemma spare_release:
  assumes "\<And>ref. c_EngineRef cand = Some ref \<Longrightarrow> ref \<in> S"
  shows "state_io_rel (spares base S H) (release engines cand)"
  unfolding release_def Let_def
  by (intro spare.io_option_eq [OF refl] io_intros spare_add_path spare_resume_path assms)

lemma spare_processCandidate:
  assumes "\<And>ref. c_EngineRef cand = Some ref \<Longrightarrow> ref \<in> S"
  shows "state_io_rel (spares base S H) (processCandidate engines d p cand counts gate)"
proof -
  have "state_io_rel (spares base S H) (release_candidate engines (refresh_intent cand r))" for r
    unfolding release_candidate_def
    by (intro io_intros spare_release spare_releaseFailed) (use assms in simp)
  then show ?thesis
    unfolding processCandidate_def Let_def
    by (intro io_intros) (auto intro!: io_intros spare_helpers split: gate_answer.split prod.split)
qed

subsection \<open>The pass, the disk-full pause and the sweep\<close>

lemma accounted_start: "accounted (w_calls w) (recorded w) {} w"
  unfolding accounted_def by (intro exI [of _ "[]"]) simp

lemma accounted_spares: "accounted base S H w \<Longrightarrow> \<exists>cs. w_calls w = base @ cs \<and> spares_foreign S {} cs"
  unfolding accounted_def by blast

text \<open>
  C12. An admission pass touches no foreign transfer. Whatever the engines answer and the database does,
  every call of the pass that names a transfer names one whose handle a task row carried when the pass
  began, or one that an \<open>Add\<close> of the same pass returned before, provided only that the goroutines running
  in between do the same.
\<close>

theorem Pass_spares_foreign:
  assumes "\<And>i. state_io_rel (spares (w_calls w) (recorded w) {}) (env i)"
  shows "\<exists>cs. w_calls (snd (run_state (Pass engines d env p) w)) = w_calls w @ cs \<and> spares_foreign (recorded w) {} cs"
proof -
  let ?R = "spares (w_calls w) (recorded w) {}"
  obtain c w1 where c: "run_state CountActive w = (c, w1)" by fastforce
  obtain cs w2 where cs: "run_state (SelectQueuedCandidates candidatesUnbounded) w1 = (cs, w2)" by fastforce
  have rows: "s_tasks w1 = s_tasks w"
    using c unfolding CountActive_def by (auto elim: query_run)
  have refs: "ref \<in> recorded w" if "cs = Inr cands" "cand \<in> set cands" "c_EngineRef cand = Some ref" for cands cand ref
    using that cs rows unfolding SelectQueuedCandidates_def
    by (auto elim!: query_run simp: querySelectQueuedCandidates_def candidate_of_def recorded_def Let_def
        dest!: in_set_takeD split: if_splits) blast+
  have R: "?R w w1" "?R w1 w2"
    using state_io_relD [OF spare.io_reads(1) c] state_io_relD [OF spare.io_reads(2) cs] .
  have "state_io_rel ?R (do { g \<leftarrow> spaceGate d p; case g of Inl err \<Rightarrow> ret ([], Some (PErrStore err))
      | Inr gate \<Rightarrow> pass_loop engines d p env 0 cands counts gate [] 0 })" if "cs = Inr cands" for cands counts
    unfolding spaceGate_def
    by (intro io_intros spare.io_walk assms spare_processCandidate) (rule refs [OF that])
  then have "?R w2 (snd (run_state (do { g \<leftarrow> spaceGate d p; case g of Inl err \<Rightarrow> ret ([], Some (PErrStore err))
      | Inr gate \<Rightarrow> pass_loop engines d p env 0 cands counts gate [] 0 }) w2))" if "cs = Inr cands" for cands counts
    using that unfolding state_io_rel_def by blast
  then have "?R w (snd (run_state (Pass engines d env p) w))"
    using c cs R spare.step_trans [OF R]
    by (auto simp: Pass_def intro: spare.step_trans [OF spare.step_trans [OF R]] split: sum.split)
  then show ?thesis
    using accounted_start [of w] accounted_spares unfolding spares_def by blast
qed

lemma demo_pass_calls:
  "map fst (w_calls (snd (run_state (Pass demo_engines demo_disk (\<lambda>_. ret ()) demo_policy) (demo_world demo_queue [])))) \<noteq> []"
  by code_simp

theorem Pass_spares_foreign_witness:
  "\<exists>cs. cs \<noteq> [] \<and> w_calls (snd (run_state (Pass demo_engines demo_disk (\<lambda>_. ret ()) demo_policy) (demo_world demo_queue []))) = cs \<and>
     spares_foreign {} {} cs"
proof -
  have "recorded (demo_world demo_queue []) = {}" "w_calls (demo_world demo_queue []) = []"
    by (simp_all add: recorded_def demo_world_def demo_store_def demo_queue_def demo_task_def store.defs)
  then show ?thesis
    using Pass_spares_foreign [of "demo_world demo_queue []" "\<lambda>_. ret ()" demo_engines demo_disk demo_policy] demo_pass_calls
    by (simp add: spare.io_return)
qed

lemma spare_pauseEngineSide:
  assumes "tsk \<in> set (s_tasks w)" and "run_state (pauseEngineSide engines tsk) w = (u, v)"
  shows "spares base S H w v"
proof (cases "\<exists>ref e. t_engine_ref tsk = Some ref \<and> engines (t_engine tsk) = Some e")
  case True
  then obtain ref e where e: "t_engine_ref tsk = Some ref" "engines (t_engine tsk) = Some e" by blast
  have "ref \<in> recorded w"
    using assms(1) e(1) by (auto simp: recorded_def)
  then have own: "own S A (namespacedHandle (t_engine tsk) ref)" if "recorded w \<subseteq> S \<union> refs_of A" for A
    using that by (auto simp: own_def)
  obtain res where run: "run_state (e_Pause e (namespacedHandle (t_engine tsk) ref)) w = (res, v)"
    using assms(2) e by (auto simp: pauseEngineSide_def split: prod.splits)
  show ?thesis
    unfolding spares_def
  proof
    assume "accounted base S H w"
    then have "accounted base S (H \<union> added_handles [(CallPause (namespacedHandle (t_engine tsk) ref), map_sum (\<lambda>x. x) no_text res)]) v"
      by (rule accounted_call) (use ecall_run [OF run [unfolded e_Pause_def]] own in auto)
    then show "accounted base S H v" by (rule accounted_weaken) blast
  qed
next
  case False
  then have "v = w"
    using assms(2) by (auto simp: pauseEngineSide_def split: option.splits)
  then show ?thesis by (simp add: spares_def)
qed

lemma spare_PauseDiskFull [io_intros]: "state_io_rel (spares base S H) (PauseDiskFull engines tid)"
proof (rule state_io_relI)
  fix res w w'
  assume run: "run_state (PauseDiskFull engines tid) w = (res, w')"
  obtain g v where g: "run_state (GetTask tid) w = (g, v)" by fastforce
  have v: "spares base S H w v"
    by (rule state_io_relD [OF spare.io_GetTask g])
  show "spares base S H w w'"
  proof (cases g)
    case (Inl err)
    with run g v show ?thesis by (auto simp: PauseDiskFull_def)
  next
    case (Inr tsk)
    obtain v2 where p: "run_state (pauseEngineSide engines tsk) v = ((), v2)" by (metis old.unit.exhaust surj_pair)
    have "tsk \<in> set (s_tasks v)"
      using GetTask_run [OF g [unfolded Inr]] by simp
    from spare_pauseEngineSide [OF this p] have v2: "spares base S H v v2" .
    have writes: "run_state (SetErrorCodeIfState tid st c m) v2 = (x, w') \<Longrightarrow> spares base S H v2 w'"
      "run_state (PauseWithCode tid cp) v2 = (y, w') \<Longrightarrow> spares base S H v2 w'" for st c m x cp y
      by (rule state_io_relD [OF spare_ops(2)] state_io_relD [OF spare_ops(3)]; assumption)+
    have "w' = v \<or> w' = v2 \<or> spares base S H v2 w'"
      using run g Inr p by (auto simp: PauseDiskFull_def dest!: writes split: if_splits prod.splits)
    with v v2 show ?thesis by (blast intro: spare.step_trans)
  qed
qed

lemma spare_resubmit: "state_io_rel (spares base S H) (resubmit e name tsk)"
proof -
  have added: "state_io_rel (spares base S (insert h H)) (resubmit_added e name tsk sel req h)" for tsk sel req h
    unfolding resubmit_added_def restate_intent_def
    by (intro io_intros spare_SetEngineRef own_added insertI1)
  have submit: "state_io_rel (spares base S H) (State_Monad.bind (e_Add e req) (case_sum
      (\<lambda>err. State_Monad.bind (reader ctx_done) (\<lambda>gone. if gone then ret (Inl SweepCtx) else failResubmit tsk name err))
      (resubmit_added e name tsk sel req)))" for tsk sel req
    by (rule spare_Add; unfold sum.case failResubmit_def; intro io_intros added)
  have "state_io_rel (spares base S H) (resubmit_leased e name tsk)"
    unfolding resubmit_leased_def Let_def
    by (rule spare.io_bind [OF spare.io_GetTask] spare.io_case_sum spare.io_return spare.io_if
        spare.io_case_option submit)+
  then show ?thesis
    unfolding resubmit_def by (intro io_intros)
qed

lemma spare_sweep:
  assumes "\<And>i. state_io_rel (spares base S H) (env i)"
  shows "state_io_rel (spares base S H) (sweepEngine engines name env e)"
  unfolding sweepEngine_def
  by (intro io_intros spare.io_sweep_live spare.io_sweep_vanished spare_resubmit assms;
      unfold writeBack_def routeDiskFull_def adoptState_def; intro io_intros)

text \<open>
  C13. A sweep touches no foreign transfer either, over all engines, and in whatever they report: each call
  that names a transfer names one whose handle a row carried when the sweep began or one the sweep itself
  has added, even though the sweep reads the foreign ones in every listing.
\<close>

theorem Boot_spares_foreign:
  assumes "\<And>i. state_io_rel (spares (w_calls w) (recorded w) {}) (env i)"
  shows "\<exists>cs. w_calls (snd (run_state (Boot engines env names) w)) = w_calls w @ cs \<and> spares_foreign (recorded w) {} cs"
proof -
  have "state_io_rel (spares (w_calls w) (recorded w) {}) (Boot engines env names)"
  proof (induction names)
    case (Cons name names)
    show ?case
      unfolding Boot.simps by (intro io_intros spare_sweep assms Cons.IH)
  qed (simp add: spare.io_return)
  then show ?thesis
    using accounted_start [of w] accounted_spares unfolding spares_def state_io_rel_def by blast
qed

theorem Boot_spares_foreign_witness:
  "\<exists>cs. length cs = 2 \<and>
     w_calls (snd (run_state (Boot demo_daemons (\<lambda>_. ret ()) [''aria2'']) (demo_world demo_active []))) = cs \<and>
     spares_foreign {''g1'', ''g2''} {} cs"
proof -
  have start: "recorded (demo_world demo_active []) = {''g1'', ''g2''}" "w_calls (demo_world demo_active []) = []"
    by (auto simp: recorded_def demo_world_def demo_store_def demo_active_def demo_task_def store.defs)
  have "length (w_calls (snd (run_state (Boot demo_daemons (\<lambda>_. ret ()) [''aria2'']) (demo_world demo_active [])))) = 2"
    by code_simp
  then show ?thesis
    using Boot_spares_foreign [of "demo_world demo_active []" "\<lambda>_. ret ()" demo_daemons "[''aria2'']"] start
    by (simp add: spare.io_return)
qed

end
