(* ===== verification/SyncRing.thy ===== *)
theory SyncRing
  imports Prelude "HOL-Library.AList"
begin

section \<open>The sync ring and the snapshot diff\<close>

text \<open>
  \<open>src/internal/sync/ring.go\<close> and the diff half of \<open>delta.go\<close>: the deltas a client receives, the ring that
  keeps the last 300 of them, and how they coalesce. The hub is in \<open>SyncHub\<close>.

  \<^item> A Go map is an association list with distinct keys; a JSON object of the wire is the list of its
    fields, a field's value one of the scalars the projection emits (a float by its rendering). What
    \<open>json.Marshal\<close> and \<open>json.Unmarshal\<close> do to a text the package itself wrote is the identity on those lists.
  \<^item> The array \<open>buf\<close> is a list of length \<open>RingDepth\<close> updated by index. Rids are positive, so the index
    \<open>rid % RingDepth\<close> never is negative; they are read as unbounded integers.
\<close>

datatype jvalue = JNull | JBool bool | JInt int | JFloat string | JStr string

type_synonym fields = "(string \<times> jvalue) list"
type_synonym snapshot = "(string \<times> fields) list"

definition RingDepth :: int where "RingDepth = 300"

record stats =
  sy_SpeedDown :: int
  sy_SpeedUp :: int
  sy_Active :: nat
  sy_Queued :: nat

definition no_stats :: stats where
  "no_stats = \<lparr>sy_SpeedDown = 0, sy_SpeedUp = 0, sy_Active = 0, sy_Queued = 0\<rparr>"

record delta =
  dl_RID :: int
  dl_FullUpdate :: bool
  dl_Tasks :: snapshot
  dl_TasksRemoved :: "string list"
  dl_Categories :: snapshot
  dl_CategoriesRemoved :: "string list"
  dl_Stats :: stats
  dl_SeqGap :: bool

definition newDelta :: delta where
  "newDelta = \<lparr>dl_RID = 0, dl_FullUpdate = False, dl_Tasks = [], dl_TasksRemoved = [], dl_Categories = [],
     dl_CategoriesRemoved = [], dl_Stats = no_stats, dl_SeqGap = False\<rparr>"

record ring =
  rg_buf :: "delta list"
  rg_newest :: int
  rg_count :: int

definition NewRing :: ring where
  "NewRing = \<lparr>rg_buf = replicate (nat RingDepth) newDelta, rg_newest = 0, rg_count = 0\<rparr>"

definition slot :: "int \<Rightarrow> nat" where
  "slot rid = nat (rid mod RingDepth)"

definition ring_Append :: "delta \<Rightarrow> ring \<Rightarrow> ring" where
  "ring_Append d r = r\<lparr>rg_buf := (rg_buf r)[slot (dl_RID d) := d], rg_newest := dl_RID d,
     rg_count := (if rg_count r < RingDepth then rg_count r + 1 else rg_count r)\<rparr>"

definition oldest :: "ring \<Rightarrow> int" where
  "oldest r = rg_newest r - rg_count r + 1"

subsection \<open>Coalescing\<close>

text \<open>A missing entry is the empty message, which \<open>mergePatch\<close> replaces.\<close>

definition mergePatch :: "fields option \<Rightarrow> fields \<Rightarrow> fields" where
  "mergePatch previous patch = (case previous of None \<Rightarrow> patch | Some f \<Rightarrow> AList.merge f patch)"

text \<open>The append-if-absent loop.\<close>

fun union_into :: "string list \<Rightarrow> string list \<Rightarrow> string list" where
  "union_into dst [] = dst"
| "union_into dst (v # addition) = union_into (if v \<in> set dst then dst else dst @ [v]) addition"

text \<open>One side of a payload, tasks or categories: the patches, then the removals.\<close>

fun merge_patches :: "snapshot \<Rightarrow> snapshot \<times> string list \<Rightarrow> snapshot \<times> string list" where
  "merge_patches [] dst = dst"
| "merge_patches ((k, patch) # rest) (m, removed) =
     merge_patches rest (AList.update k (mergePatch (map_of m k) patch) m, filter (\<lambda>v. v \<noteq> k) removed)"

definition drop_removed :: "string list \<Rightarrow> snapshot \<Rightarrow> snapshot" where
  "drop_removed removed m = fold AList.delete removed m"

definition merge_side :: "snapshot \<Rightarrow> string list \<Rightarrow> snapshot \<times> string list \<Rightarrow> snapshot \<times> string list" where
  "merge_side patches gone dst =
     (let (m, removed) = merge_patches patches dst in (drop_removed gone m, union_into removed gone))"

definition coalesceInto :: "delta \<Rightarrow> delta \<Rightarrow> delta" where
  "coalesceInto dst0 d =
     (let dst = (if dl_FullUpdate d then newDelta else dst0);
          (tasks, tasks_removed) = merge_side (dl_Tasks d) (dl_TasksRemoved d) (dl_Tasks dst, dl_TasksRemoved dst);
          (cats, cats_removed) = merge_side (dl_Categories d) (dl_CategoriesRemoved d)
            (dl_Categories dst, dl_CategoriesRemoved dst) in
      dst\<lparr>dl_Tasks := tasks, dl_TasksRemoved := tasks_removed, dl_Categories := cats,
        dl_CategoriesRemoved := cats_removed,
        dl_FullUpdate := (if dl_FullUpdate d then True else dl_FullUpdate dst), dl_Stats := dl_Stats d\<rparr>)"

definition finalizeRemovals :: "delta \<Rightarrow> delta" where
  "finalizeRemovals d = d\<lparr>dl_Tasks := drop_removed (dl_TasksRemoved d) (dl_Tasks d),
     dl_Categories := drop_removed (dl_CategoriesRemoved d) (dl_Categories d)\<rparr>"

definition Since :: "int \<Rightarrow> ring \<Rightarrow> delta option" where
  "Since rid r =
     (if rg_count r = 0 \<or> rid < oldest r \<or> rg_newest r < rid then None
      else let d = finalizeRemovals
             (fold (\<lambda>i d. coalesceInto d (rg_buf r ! slot i)) [rid + 1 .. rg_newest r] newDelta) in
        Some (d\<lparr>dl_RID := rg_newest r, dl_Stats := dl_Stats (rg_buf r ! slot (rg_newest r))\<rparr>))"

subsection \<open>The diff of two snapshots\<close>

text \<open>The fields of a task that changed; a field missing from the older map counts as changed.\<close>

definition field_patch :: "fields \<Rightarrow> fields \<Rightarrow> fields" where
  "field_patch before after = filter (\<lambda>(f, v). map_of before f \<noteq> Some v) after"

fun diff_changed :: "snapshot \<Rightarrow> snapshot \<Rightarrow> snapshot" where
  "diff_changed prev [] = []"
| "diff_changed prev ((k, after) # rest) = (case map_of prev k of
      None \<Rightarrow> (k, after) # diff_changed prev rest
    | Some before \<Rightarrow> (let patch = field_patch before after in
        if patch \<noteq> [] then (k, patch) # diff_changed prev rest else diff_changed prev rest))"

definition Diff :: "snapshot \<Rightarrow> snapshot \<Rightarrow> snapshot \<times> string list" where
  "Diff prev next = (diff_changed prev next, sort (filter (\<lambda>k. map_of next k = None) (map fst prev)))"

definition activeStates :: "string list" where
  "activeStates = [''downloading'', ''seeding'']"

definition taskStateQueued :: string where
  "taskStateQueued = ''queued''"

definition intField :: "fields \<Rightarrow> string \<Rightarrow> int" where
  "intField f name = (case map_of f name of Some (JInt n) \<Rightarrow> n | _ \<Rightarrow> 0)"

definition strField :: "fields \<Rightarrow> string \<Rightarrow> string" where
  "strField f name = (case map_of f name of Some (JStr s) \<Rightarrow> s | _ \<Rightarrow> '''')"

fun Aggregate_from :: "stats \<Rightarrow> snapshot \<Rightarrow> stats" where
  "Aggregate_from st [] = st"
| "Aggregate_from st ((_, f) # rest) = Aggregate_from
     \<lparr>sy_SpeedDown = wrap64 (sy_SpeedDown st + intField f ''download_rate''),
      sy_SpeedUp = wrap64 (sy_SpeedUp st + intField f ''upload_rate''),
      sy_Active = (if strField f ''state'' \<in> set activeStates then Suc (sy_Active st) else sy_Active st),
      sy_Queued = (if strField f ''state'' = taskStateQueued then Suc (sy_Queued st) else sy_Queued st)\<rparr> rest"

definition Aggregate :: "snapshot \<Rightarrow> stats" where
  "Aggregate s = Aggregate_from no_stats s"

subsection \<open>The client, and what a delta means\<close>

text \<open>
  The reducer of the contract (docs/05-api-contract.md, section 6.1): a full update replaces the store,
  anything else is merged field by field, and the removals are deleted.
\<close>

type_synonym view = "string \<Rightarrow> (string \<Rightarrow> jvalue option) option"

definition view_of :: "snapshot \<Rightarrow> view" where
  "view_of s k = map_option map_of (map_of s k)"

definition merge_view :: "(string \<Rightarrow> jvalue option) option \<Rightarrow> fields \<Rightarrow> (string \<Rightarrow> jvalue option)" where
  "merge_view c patch = (case c of None \<Rightarrow> map_of patch | Some f \<Rightarrow> f ++ map_of patch)"

definition apply_side :: "snapshot \<Rightarrow> string list \<Rightarrow> view \<Rightarrow> view" where
  "apply_side m removed c k =
     (if k \<in> set removed then None
      else case map_of m k of None \<Rightarrow> c k | Some patch \<Rightarrow> Some (merge_view (c k) patch))"

definition apply_delta :: "delta \<Rightarrow> view \<Rightarrow> view" where
  "apply_delta d c = apply_side (dl_Tasks d) (dl_TasksRemoved d) (if dl_FullUpdate d \<or> dl_SeqGap d then (\<lambda>_. None) else c)"

subsection \<open>What coalescing does, key by key\<close>

lemma map_of_drop_removed: "map_of (drop_removed removed m) k = (if k \<in> set removed then None else map_of m k)"
  unfolding drop_removed_def by (induction removed arbitrary: m) (auto simp: AList.delete_conv')

lemma set_union_into [simp]: "set (union_into dst add) = set dst \<union> set add"
  by (induction dst add rule: union_into.induct) auto

lemma merge_patches_map:
  "distinct (map fst ps) \<Longrightarrow> map_of (fst (merge_patches ps (m, removed))) k =
     (case map_of ps k of None \<Rightarrow> map_of m k | Some p \<Rightarrow> Some (mergePatch (map_of m k) p))"
proof (induction ps arbitrary: m removed)
  case (Cons kp ps)
  obtain k' p where kp: "kp = (k', p)" by fastforce
  have "map_of ps k' = None"
    using Cons.prems by (simp add: kp map_of_eq_None_iff)
  with Cons show ?case
    by (auto simp: kp AList.update_conv' split: option.split)
qed simp

lemma merge_patches_removed:
  "set (snd (merge_patches ps (m, removed))) = set removed - fst ` set ps"
  by (induction ps arbitrary: m removed) force+

lemma merge_side_map:
  assumes "distinct (map fst ps)"
  shows "map_of (fst (merge_side ps gone (m, removed))) k =
    (if k \<in> set gone then None
     else case map_of ps k of None \<Rightarrow> map_of m k | Some p \<Rightarrow> Some (mergePatch (map_of m k) p))"
  using merge_patches_map [OF assms, of m removed k]
  by (simp add: merge_side_def map_of_drop_removed case_prod_beta Let_def)

lemma merge_side_removed:
  "set (snd (merge_side ps gone (m, removed))) = (set removed - fst ` set ps) \<union> set gone"
  by (simp add: merge_side_def case_prod_beta Let_def merge_patches_removed)

subsection \<open>What the diff carries\<close>

text \<open>
  Snapshots as \<open>Project\<close> builds them: one entry per task, and the same field names for every task.
\<close>

definition projected :: "string set \<Rightarrow> snapshot \<Rightarrow> bool" where
  "projected F s \<longleftrightarrow> distinct (map fst s) \<and> (\<forall>kf \<in> set s. distinct (map fst (snd kf)) \<and> fst ` set (snd kf) = F)"

lemma projected_field:
  "projected F s \<Longrightarrow> map_of s k = Some f \<Longrightarrow> distinct (map fst f) \<and> dom (map_of f) = F"
  by (drule map_of_SomeD) (force simp: projected_def dom_map_of_conv_image_fst)

lemma map_of_field_patch:
  "distinct (map fst after) \<Longrightarrow> map_of (field_patch before after) x =
     (if map_of before x = map_of after x then None else map_of after x)"
  by (induction after) (auto simp: field_patch_def map_of_eq_None_iff split: if_splits)

lemma map_of_diff_changed:
  assumes "distinct (map fst next)"
  shows "map_of (diff_changed prev next) k = (case map_of next k of None \<Rightarrow> None | Some after \<Rightarrow>
    (case map_of prev k of None \<Rightarrow> Some after | Some before \<Rightarrow>
      if field_patch before after = [] then None else Some (field_patch before after)))"
  using assms
proof (induction prev "next" rule: diff_changed.induct)
  case (2 prev k' after rest)
  then have "map_of rest k' = None" by (simp add: map_of_eq_None_iff)
  with 2 show ?case
    by (auto simp: Let_def split: option.split)
qed simp

lemma keys_diff_changed: "fst ` set (diff_changed prev next) \<subseteq> fst ` set next"
proof (induction "next")
  case (Cons kf rest)
  obtain k f where "kf = (k, f)" by fastforce
  with Cons show ?case by (auto simp: Let_def split: option.split)
qed simp

lemma distinct_diff_changed: "distinct (map fst next) \<Longrightarrow> distinct (map fst (diff_changed prev next))"
proof (induction "next")
  case (Cons kf rest)
  obtain k f where "kf = (k, f)" by fastforce
  with Cons show ?case
    using keys_diff_changed [of prev rest] by (auto simp: Let_def split: option.split)
qed simp

lemma Diff_removed: "k \<in> set (snd (Diff prev next)) \<longleftrightarrow> map_of next k = None \<and> map_of prev k \<noteq> None"
  by (auto simp: Diff_def map_of_eq_None_iff dest: map_of_SomeD)

lemma map_add_covered: "dom g \<subseteq> dom f \<Longrightarrow> g ++ f = f"
  by (rule ext) (auto simp: map_add_def dom_def split: option.split)

text \<open>What the diff says of one task.\<close>

lemma Diff_task:
  assumes "projected F prev" "projected F next"
  shows "case view_of next k of
      None \<Rightarrow> map_of (fst (Diff prev next)) k = None \<and> (k \<in> set (snd (Diff prev next)) \<longleftrightarrow> view_of prev k \<noteq> None)
    | Some f \<Rightarrow> k \<notin> set (snd (Diff prev next)) \<and> dom f = F \<and>
        (case (view_of prev k, map_of (fst (Diff prev next)) k) of
           (None, None) \<Rightarrow> False
         | (None, Some p) \<Rightarrow> map_of p = f
         | (Some g, None) \<Rightarrow> g = f
         | (Some g, Some p) \<Rightarrow> dom g = F \<and> g ++ map_of p = f)"
proof (cases "map_of next k")
  case None
  then show ?thesis
    using assms by (simp add: view_of_def Diff_removed) (simp add: Diff_def projected_def map_of_diff_changed)
next
  case (Some after)
  note fa = projected_field [OF assms(2) Some]
  have changed: "map_of (fst (Diff prev next)) k = (case map_of prev k of None \<Rightarrow> Some after | Some before \<Rightarrow>
      if field_patch before after = [] then None else Some (field_patch before after))"
    using assms(2) Some by (simp add: Diff_def projected_def map_of_diff_changed)
  show ?thesis
  proof (cases "map_of prev k")
    case None
    with Some changed fa show ?thesis by (simp add: view_of_def Diff_removed)
  next
    case before: (Some before)
    note fb = projected_field [OF assms(1) before]
    have patch: "map_of before ++ map_of (field_patch before after) = map_of after"
    proof
      fix x
      show "(map_of before ++ map_of (field_patch before after)) x = map_of after x"
      proof (cases "x \<in> F")
        case True
        then show ?thesis
          using fa by (auto simp: map_add_def map_of_field_patch split: option.split)
      next
        case False
        then have "map_of after x = None" "map_of before x = None"
          using fa fb by blast+
        with fa show ?thesis by (simp add: map_add_def map_of_field_patch)
      qed
    qed
    have "map_of before = map_of after" if "field_patch before after = []"
      using patch that by simp
    with Some before changed fa fb patch show ?thesis by (simp add: view_of_def Diff_removed)
  qed
qed

text \<open>
  C18. The diff of two snapshots is exact: a client that holds the older one and applies it, patches and
  removals, holds the newer one, task by task and field by field. This needs what the projection gives:
  every task carries the same field names.
\<close>

theorem Diff_apply:
  assumes "projected F prev" and "projected F next"
  shows "apply_side (fst (Diff prev next)) (snd (Diff prev next)) (view_of prev) = view_of next"
proof
  fix k
  show "apply_side (fst (Diff prev next)) (snd (Diff prev next)) (view_of prev) k = view_of next k"
    using Diff_task [OF assms, of k]
    by (auto simp: apply_side_def merge_view_def split: option.splits)
qed

subsection \<open>Coalesced deltas\<close>

text \<open>The delta published for a snapshot after another one.\<close>

definition publishes :: "snapshot \<Rightarrow> snapshot \<Rightarrow> delta \<Rightarrow> bool" where
  "publishes prev next d \<longleftrightarrow> \<not> dl_FullUpdate d \<and> \<not> dl_SeqGap d \<and> (dl_Tasks d, dl_TasksRemoved d) = Diff prev next"

text \<open>
  A client may stand between snapshots: a snapshot answer can be newer than its cursor, and a delta that was
  waiting is applied on top of it. \<open>mixed s j l c\<close>: every field of every task the client holds, and the
  presence of every task, is as in some snapshot from \<open>j\<close> to \<open>l\<close> of the history.
\<close>

definition cell :: "(string \<Rightarrow> jvalue option) option \<Rightarrow> string \<Rightarrow> jvalue option" where
  "cell c x = (case c of None \<Rightarrow> None | Some f \<Rightarrow> f x)"

definition mixed_task :: "(nat \<Rightarrow> (string \<Rightarrow> jvalue option) option) \<Rightarrow> nat \<Rightarrow> nat \<Rightarrow>
  (string \<Rightarrow> jvalue option) option \<Rightarrow> bool" where
  "mixed_task a j l c \<longleftrightarrow> (\<exists>i \<in> {j..l}. (c = None) = (a i = None)) \<and> (\<forall>x. \<exists>i \<in> {j..l}. cell c x = cell (a i) x)"

definition mixed :: "(nat \<Rightarrow> snapshot) \<Rightarrow> nat \<Rightarrow> nat \<Rightarrow> view \<Rightarrow> bool" where
  "mixed s j l c \<longleftrightarrow> (\<forall>k. mixed_task (\<lambda>i. view_of (s i) k) j l (c k))"

lemma mixed_refl: "j \<le> i \<Longrightarrow> i \<le> l \<Longrightarrow> mixed s j l (view_of (s i))"
  unfolding mixed_def mixed_task_def by auto

lemma mixed_mono: "mixed s j l c \<Longrightarrow> i \<le> j \<Longrightarrow> l \<le> m \<Longrightarrow> mixed s i m c"
  unfolding mixed_def mixed_task_def by (metis atLeastAtMost_iff order_trans)

lemma mixed_single: "mixed s n n c \<longleftrightarrow> c = view_of (s n)"
proof
  assume m: "mixed s n n c"
  show "c = view_of (s n)"
  proof
    fix k
    have "(c k = None) = (view_of (s n) k = None)" "\<And>x. cell (c k) x = cell (view_of (s n) k) x"
      using m by (auto simp: mixed_def mixed_task_def)
    then show "c k = view_of (s n) k"
      by (cases "c k"; cases "view_of (s n) k") (auto simp: cell_def fun_eq_iff)
  qed
qed (auto intro: mixed_refl)

text \<open>An accumulated delta that brings a client from anywhere after snapshot \<open>j\<close> to snapshot \<open>n\<close> or later.\<close>

definition catches_up :: "(nat \<Rightarrow> snapshot) \<Rightarrow> nat \<Rightarrow> nat \<Rightarrow> delta \<Rightarrow> bool" where
  "catches_up s j n acc \<longleftrightarrow> \<not> dl_FullUpdate acc \<and> \<not> dl_SeqGap acc \<and>
     (\<forall>k \<in> set (dl_TasksRemoved acc). map_of (dl_Tasks acc) k = None) \<and>
     (\<forall>l c. n \<le> l \<longrightarrow> mixed s j l c \<longrightarrow> mixed s n l (apply_delta acc c))"

lemma catches_up_new: "catches_up s n n newDelta"
  by (auto simp: catches_up_def newDelta_def apply_delta_def apply_side_def [abs_def])

text \<open>One task under one more delta, as an equation of field maps.\<close>

definition task_after :: "bool \<Rightarrow> fields option \<Rightarrow> (string \<Rightarrow> jvalue option) option \<Rightarrow> (string \<Rightarrow> jvalue option) option" where
  "task_after gone x c = (if gone then None else case x of None \<Rightarrow> c | Some p \<Rightarrow> Some (merge_view c p))"

definition task_diff :: "string set \<Rightarrow> (string \<Rightarrow> jvalue option) option \<Rightarrow> (string \<Rightarrow> jvalue option) option \<Rightarrow>
  bool \<Rightarrow> fields option \<Rightarrow> bool" where
  "task_diff F a b gone t \<longleftrightarrow> (case b of
      None \<Rightarrow> t = None \<and> (gone \<longleftrightarrow> a \<noteq> None)
    | Some f \<Rightarrow> \<not> gone \<and> dom f = F \<and>
        (case (a, t) of
           (None, None) \<Rightarrow> False
         | (None, Some p) \<Rightarrow> map_of p = f
         | (Some g, None) \<Rightarrow> g = f
         | (Some g, Some p) \<Rightarrow> dom g = F \<and> g ++ map_of p = f))"

lemma cell_merge: "cell (Some (merge_view c p)) x = (case map_of p x of None \<Rightarrow> cell c x | Some v \<Rightarrow> Some v)"
  by (simp add: cell_def merge_view_def map_add_def split: option.split)

text \<open>A delta takes a client past the snapshot it was made from.\<close>

lemma mixed_task_step:
  assumes m: "mixed_task a n l c" and d: "task_diff F (a n) (a (Suc n)) gone t" and l: "Suc n \<le> l"
    and F: "\<And>i g. a i = Some g \<Longrightarrow> dom g = F"
  shows "mixed_task a (Suc n) l (task_after gone t c)"
proof -
  have later: "\<exists>i \<in> {Suc n..l}. Q (a i)" if "\<exists>i \<in> {n..l}. Q (a i)" "Q (a n) \<Longrightarrow> Q (a (Suc n))" for Q
    using that l by (metis atLeastAtMost_iff le_eq_less_or_eq Suc_leI order_refl)
  have presence: "\<exists>i \<in> {n..l}. (c = None) = (a i = None)" and cells: "\<And>x. \<exists>i \<in> {n..l}. cell c x = cell (a i) x"
    using m by (auto simp: mixed_task_def)
  show ?thesis
  proof (cases "a (Suc n)")
    case None
    show ?thesis
    proof (cases "a n")
      case some: (Some g)
      with None d have "gone" by (simp add: task_diff_def)
      with None l show ?thesis
        by (force simp: task_after_def mixed_task_def cell_def)
    next
      case none: None
      with None d have "\<not> gone" "t = None" by (simp_all add: task_diff_def)
      then show ?thesis
        using later [OF presence] later [OF cells] None none by (simp add: task_after_def mixed_task_def)
    qed
  next
    case (Some f)
    note f = this
    have "\<not> gone" and dom: "dom f = F"
      using d Some by (simp_all add: task_diff_def)
    show ?thesis
    proof (cases t)
      case None
      with d f obtain g where "a n = Some g" "g = f"
        by (auto simp: task_diff_def split: option.splits)
      with f None \<open>\<not> gone\<close> show ?thesis
        using later [OF presence] later [OF cells] by (simp add: task_after_def mixed_task_def)
    next
      case (Some p)
      have "\<exists>i \<in> {Suc n..l}. cell (Some (merge_view c p)) x = cell (a i) x" for x
      proof (cases "map_of p x")
        case (Some v)
        then have "cell (Some (merge_view c p)) x = Some v"
          by (simp add: cell_merge)
        moreover have "cell (a (Suc n)) x = Some v"
          using d f Some \<open>t = Some p\<close> by (auto simp: cell_def task_diff_def map_add_def split: option.splits)
        ultimately show ?thesis using l by (intro bexI [of _ "Suc n"]) simp_all
      next
        case None
        then have "cell (a n) x = cell (a (Suc n)) x"
          using d f \<open>t = Some p\<close> by (auto simp: cell_def task_diff_def map_add_def split: option.splits)
        then show ?thesis
          using later [OF cells [of x]] None by (simp add: cell_merge)
      qed
      moreover have "task_after gone t c = Some (merge_view c p)"
        using Some \<open>\<not> gone\<close> by (simp add: task_after_def)
      ultimately show ?thesis
        using f l by (auto simp: mixed_task_def)
    qed
  qed
qed

lemma mixed_task_dom:
  assumes "mixed_task a j l (Some f)" and "\<And>i g. a i = Some g \<Longrightarrow> dom g = F"
  shows "dom f \<subseteq> F"
proof
  fix x assume "x \<in> dom f"
  then have "cell (Some f) x \<noteq> None" by (auto simp: cell_def)
  then obtain i where "cell (a i) x \<noteq> None"
    using assms(1) unfolding mixed_task_def by metis
  then show "x \<in> F"
    using assms(2) [of i] by (auto simp: cell_def split: option.splits)
qed

text \<open>Coalescing two deltas is applying one after the other.\<close>

lemma task_after_compose:
  assumes "gone \<Longrightarrow> x = None" and "gone \<Longrightarrow> a = None" and "task_diff F a b gone' t"
    and "\<And>g. c = Some g \<Longrightarrow> dom g \<subseteq> F"
  shows "task_after (gone \<and> t = None \<or> gone') (if gone' then None else case t of None \<Rightarrow> x | Some p \<Rightarrow> Some (mergePatch x p)) c =
    task_after gone' t (task_after gone x c)"
  using assms
  by (auto simp: task_after_def task_diff_def merge_view_def mergePatch_def AList.merge_conv' map_add_covered
      split: option.splits if_splits)

lemma coalesce_task:
  assumes "publishes prev next d" "distinct (map fst next)" "\<not> dl_FullUpdate acc"
  shows "map_of (dl_Tasks (coalesceInto acc d)) k = (if k \<in> set (snd (Diff prev next)) then None
      else case map_of (fst (Diff prev next)) k of None \<Rightarrow> map_of (dl_Tasks acc) k
        | Some p \<Rightarrow> Some (mergePatch (map_of (dl_Tasks acc) k) p))"
    "k \<in> set (dl_TasksRemoved (coalesceInto acc d)) \<longleftrightarrow>
      k \<in> set (dl_TasksRemoved acc) \<and> map_of (fst (Diff prev next)) k = None \<or> k \<in> set (snd (Diff prev next))"
    "\<not> dl_FullUpdate (coalesceInto acc d)" "dl_SeqGap (coalesceInto acc d) = dl_SeqGap acc"
proof -
  have d: "dl_Tasks d = fst (Diff prev next)" "dl_TasksRemoved d = snd (Diff prev next)" "\<not> dl_FullUpdate d"
    using assms(1) by (auto simp: publishes_def prod_eq_iff)
  have keys: "distinct (map fst (fst (Diff prev next)))"
    using assms(2) by (simp add: Diff_def distinct_diff_changed)
  show "map_of (dl_Tasks (coalesceInto acc d)) k = (if k \<in> set (snd (Diff prev next)) then None
      else case map_of (fst (Diff prev next)) k of None \<Rightarrow> map_of (dl_Tasks acc) k
        | Some p \<Rightarrow> Some (mergePatch (map_of (dl_Tasks acc) k) p))"
    using merge_side_map [OF keys, of "snd (Diff prev next)" "dl_Tasks acc" "dl_TasksRemoved acc" k] d
    by (simp add: coalesceInto_def Let_def case_prod_beta)
  show "k \<in> set (dl_TasksRemoved (coalesceInto acc d)) \<longleftrightarrow>
      k \<in> set (dl_TasksRemoved acc) \<and> map_of (fst (Diff prev next)) k = None \<or> k \<in> set (snd (Diff prev next))"
    using merge_side_removed [of "fst (Diff prev next)" "snd (Diff prev next)" "dl_Tasks acc" "dl_TasksRemoved acc"] d
    by (auto simp: coalesceInto_def Let_def case_prod_beta map_of_eq_None_iff)
qed (use assms in \<open>simp_all add: coalesceInto_def Let_def case_prod_beta publishes_def\<close>)

lemma apply_delta_task:
  "\<not> dl_FullUpdate d \<Longrightarrow> \<not> dl_SeqGap d \<Longrightarrow>
   apply_delta d c k = task_after (k \<in> set (dl_TasksRemoved d)) (map_of (dl_Tasks d) k) (c k)"
  by (simp add: apply_delta_def apply_side_def task_after_def)

lemma catches_up_step:
  assumes up: "catches_up s j n acc" and "j \<le> n" and pub: "publishes (s n) (s (Suc n)) d"
    and proj: "\<And>i. projected F (s i)"
  shows "catches_up s j (Suc n) (coalesceInto acc d)"
proof -
  note acc = up [unfolded catches_up_def]
  have keys: "distinct (map fst (s (Suc n)))"
    using proj by (simp add: projected_def)
  note co = coalesce_task [OF pub keys conjunct1 [OF acc]]
  have flags: "\<not> dl_FullUpdate (coalesceInto acc d)" "\<not> dl_SeqGap (coalesceInto acc d)"
    using co(3,4) acc by simp_all
  have field: "dom g = F" if "view_of (s i) k = Some g" for i k g
    using that projected_field [OF proj] by (auto simp: view_of_def)
  have diff: "task_diff F (view_of (s n) k) (view_of (s (Suc n)) k)
      (k \<in> set (snd (Diff (s n) (s (Suc n))))) (map_of (fst (Diff (s n) (s (Suc n)))) k)" for k
    using Diff_task [OF proj proj, of n "Suc n" k] by (simp add: task_diff_def)
  have "mixed s (Suc n) l (apply_delta (coalesceInto acc d) c)" if l: "Suc n \<le> l" and c: "mixed s j l c" for l c
    unfolding mixed_def
  proof
    fix k
    let ?gone = "k \<in> set (dl_TasksRemoved acc)" and ?x = "map_of (dl_Tasks acc) k"
    have own: "mixed_task (\<lambda>i. view_of (s i) k) n l (task_after ?gone ?x (c k))"
      using acc l c unfolding mixed_def apply_delta_task [symmetric] by (simp add: apply_delta_task [symmetric])
    have "task_after ?gone ?x (view_of (s n) k) = view_of (s n) k"
    proof -
      have "mixed s n n (apply_delta acc (view_of (s n)))"
        using acc mixed_refl [of j n n s] \<open>j \<le> n\<close> by blast
      then show ?thesis
        using acc by (simp add: mixed_single apply_delta_task [symmetric])
    qed
    then have "?gone \<Longrightarrow> view_of (s n) k = None"
      by (simp add: task_after_def)
    moreover have "?gone \<Longrightarrow> ?x = None"
      using acc by blast
    moreover have "dom g \<subseteq> F" if "c k = Some g" for g
    proof (rule mixed_task_dom)
      show "mixed_task (\<lambda>i. view_of (s i) k) j l (Some g)"
        using c that by (metis mixed_def)
    qed (rule field)
    ultimately have "apply_delta (coalesceInto acc d) c k =
        task_after (k \<in> set (snd (Diff (s n) (s (Suc n))))) (map_of (fst (Diff (s n) (s (Suc n)))) k) (task_after ?gone ?x (c k))"
      unfolding apply_delta_task [OF flags] co by (intro task_after_compose [OF _ _ diff])
    then show "mixed_task (\<lambda>i. view_of (s i) k) (Suc n) l (apply_delta (coalesceInto acc d) c k)"
      using mixed_task_step [OF own diff l field] by simp
  qed
  then show ?thesis
    using flags co acc unfolding catches_up_def by auto
qed

subsection \<open>The ring\<close>

text \<open>
  A ring over a history: it holds the deltas of the last \<open>count\<close> rids, each in its slot.
\<close>

definition ring_of :: "(nat \<Rightarrow> snapshot) \<Rightarrow> nat \<Rightarrow> ring \<Rightarrow> bool" where
  "ring_of s n r \<longleftrightarrow> length (rg_buf r) = nat RingDepth \<and> rg_newest r = int n \<and>
     rg_count r = min (int n) RingDepth \<and>
     (\<forall>i. 0 < i \<and> i \<le> n \<and> n < i + nat RingDepth \<longrightarrow> publishes (s (i - 1)) (s i) (rg_buf r ! slot (int i)))"

lemma ring_of_new: "ring_of s 0 NewRing"
  by (simp add: ring_of_def NewRing_def RingDepth_def)

lemma slot_inj:
  assumes "slot (int i) = slot (int k)" "i < k + nat RingDepth" "k < i + nat RingDepth"
  shows "i = k"
proof -
  have "int i mod 300 = int k mod 300"
    using assms(1) by (simp add: slot_def RingDepth_def)
  then have "300 dvd int i - int k"
    by (simp add: mod_eq_dvd_iff)
  then obtain q where q: "int i - int k = 300 * q"
    by (elim dvdE)
  with assms(2,3) have "q = 0"
    by (simp add: RingDepth_def)
  with q show ?thesis by simp
qed

lemma ring_of_Append:
  assumes "ring_of s n r" and "publishes (s n) (s (Suc n)) d" and "dl_RID d = int (Suc n)"
  shows "ring_of s (Suc n) (ring_Append d r)"
proof -
  have slot: "slot (int i) < nat RingDepth" for i
    by (simp add: slot_def RingDepth_def)
  have "publishes (s (i - 1)) (s i) (rg_buf (ring_Append d r) ! slot (int i))"
    if "0 < i" "i \<le> Suc n" "Suc n < i + nat RingDepth" for i
  proof (cases "i = Suc n")
    case True
    then show ?thesis
      using assms slot [of i] by (simp add: ring_Append_def ring_of_def)
  next
    case False
    then have "slot (int (Suc n)) \<noteq> slot (int i)"
      using slot_inj [of i "Suc n"] that by fastforce
    with False that assms show ?thesis
      by (simp add: ring_Append_def ring_of_def)
  qed
  with assms show ?thesis
    by (auto simp: ring_of_def ring_Append_def RingDepth_def)
qed

lemma drop_removed_idle: "(\<forall>k \<in> set gone. map_of m k = None) \<Longrightarrow> map_of (drop_removed gone m) = map_of m"
  by (rule ext) (auto simp: map_of_drop_removed)

lemma coalesce_range:
  assumes "catches_up s j n acc" "j \<le> n" "n \<le> m"
    and "\<And>i. n < i \<Longrightarrow> i \<le> m \<Longrightarrow> publishes (s (i - 1)) (s i) (f (int i))"
    and "\<And>i. projected F (s i)"
  shows "catches_up s j m (fold (\<lambda>i acc. coalesceInto acc (f i)) [int n + 1 .. int m] acc)"
  using assms(3,4)
proof (induction "m - n" arbitrary: m)
  case 0
  with assms(1) show ?case by simp
next
  case (Suc q)
  then obtain m' where m: "m = Suc m'" "n \<le> m'" by (cases m) auto
  have "[int n + 1 .. int m] = [int n + 1 .. int m'] @ [int m]"
    using m upto_rec2 [of "int n + 1" "int m"] by simp
  moreover have "catches_up s j m' (fold (\<lambda>i acc. coalesceInto acc (f i)) [int n + 1 .. int m'] acc)"
    by (rule Suc.hyps(1)) (use Suc m in auto)
  ultimately show ?case
    using catches_up_step [of s j m' _ "f (int m)" F] Suc.prems(2) [of m] assms(2,5) m by simp
qed

text \<open>The answer of the ring, for any client that is not behind its rid.\<close>

lemma Since_mixed:
  assumes "ring_of s n r" and "\<And>i. projected F (s i)"
  shows "case Since rid r of
      None \<Rightarrow> n = 0 \<or> rid \<le> int n - min (int n) RingDepth \<or> int n < rid
    | Some d \<Rightarrow> dl_RID d = int n \<and> 0 < rid \<and> rid \<le> int n \<and> int n < rid + RingDepth \<and>
        \<not> dl_FullUpdate d \<and> \<not> dl_SeqGap d \<and>
        (\<forall>l c. n \<le> l \<longrightarrow> mixed s (nat rid) l c \<longrightarrow> mixed s n l (apply_delta d c))"
proof (cases "rg_count r = 0 \<or> rid < oldest r \<or> rg_newest r < rid")
  case True
  with assms(1) show ?thesis
    by (auto simp: Since_def ring_of_def oldest_def)
next
  case False
  define acc where "acc = fold (\<lambda>i d. coalesceInto d (rg_buf r ! slot i)) [rid + 1 .. rg_newest r] newDelta"
  have rid: "0 < rid" "rid \<le> int n" "int n < rid + RingDepth"
    using False assms(1) by (auto simp: ring_of_def oldest_def RingDepth_def)
  have "catches_up s (nat rid) n (fold (\<lambda>i d. coalesceInto d (rg_buf r ! slot i)) [int (nat rid) + 1 .. int n] newDelta)"
    by (rule coalesce_range [OF catches_up_new]) (use rid assms in \<open>auto simp: ring_of_def\<close>)
  then have up: "catches_up s (nat rid) n acc"
    using rid assms(1) by (simp add: acc_def ring_of_def)
  have "map_of (drop_removed (dl_TasksRemoved acc) (dl_Tasks acc)) = map_of (dl_Tasks acc)"
    using up by (intro drop_removed_idle) (simp add: catches_up_def)
  then have "apply_delta (finalizeRemovals acc\<lparr>dl_RID := a, dl_Stats := b\<rparr>) = apply_delta acc" for a b
    by (simp add: apply_delta_def apply_side_def finalizeRemovals_def fun_eq_iff)
  moreover have "Since rid r = Some (finalizeRemovals acc\<lparr>dl_RID := rg_newest r,
      dl_Stats := dl_Stats (rg_buf r ! slot (rg_newest r))\<rparr>)"
    using False by (simp add: Since_def Let_def acc_def)
  ultimately show ?thesis
    using up rid assms(1) by (simp add: catches_up_def ring_of_def finalizeRemovals_def)
qed

text \<open>
  C17. The ring refines replaying the history. A client that holds the snapshot of the rid it names, and
  applies the one delta \<open>Since\<close> answers, holds the newest snapshot: coalescing loses and invents nothing,
  through removals and additions of tasks, for every rid of the ring. So does a client that is ahead of the
  rid it names, which is why a snapshot may be newer than its cursor. The answer is refused exactly when the
  rid is not one of the last 300.
\<close>

theorem Since_catches_up:
  assumes "ring_of s n r" and "\<And>i. projected F (s i)"
  shows "case Since rid r of
      None \<Rightarrow> n = 0 \<or> rid \<le> int n - min (int n) RingDepth \<or> int n < rid
    | Some d \<Rightarrow> dl_RID d = int n \<and> 0 < rid \<and> rid \<le> int n \<and> int n < rid + RingDepth \<and>
        (\<forall>i. nat rid \<le> i \<and> i \<le> n \<longrightarrow> apply_delta d (view_of (s i)) = view_of (s n))"
proof -
  have "apply_delta d (view_of (s i)) = view_of (s n)" if "nat rid \<le> i" "i \<le> n"
    and "\<And>l c. n \<le> l \<Longrightarrow> mixed s (nat rid) l c \<Longrightarrow> mixed s n l (apply_delta d c)" for d i
    using that(3) [of n] mixed_refl [OF that(1,2)] by (simp add: mixed_single)
  then show ?thesis
    using Since_mixed [OF assms, of rid] by (auto split: option.splits)
qed

text \<open>
  The ring knows rids and not processes. A rid that an earlier process handed out is answered like one of
  its own once the counter has passed it: at the newest rid the answer is an empty diff without
  \<open>full_update\<close> and \<open>seq_gap\<close>, whatever stale store the client holds.
\<close>

lemma Since_newest_is_empty:
  assumes "ring_of s n r" and "0 < n"
  shows "\<exists>d. Since (int n) r = Some d \<and> \<not> dl_FullUpdate d \<and> \<not> dl_SeqGap d \<and> (\<forall>c. apply_delta d c = c)"
  using assms
  by (auto simp: Since_def Let_def ring_of_def oldest_def RingDepth_def newDelta_def finalizeRemovals_def
      drop_removed_def apply_delta_def apply_side_def fun_eq_iff)

text \<open>A concrete history: a task appears, and starts.\<close>

definition demo_hist :: "nat \<Rightarrow> snapshot" where
  "demo_hist i = (if i = 0 then [] else [(''a'', [(''state'', JStr (if i = 1 then ''queued'' else ''downloading''))])])"

definition demo_delta :: "nat \<Rightarrow> delta" where
  "demo_delta i = newDelta\<lparr>dl_RID := int i, dl_Tasks := fst (Diff (demo_hist (i - 1)) (demo_hist i)),
     dl_TasksRemoved := snd (Diff (demo_hist (i - 1)) (demo_hist i)), dl_Stats := Aggregate (demo_hist i)\<rparr>"

lemma demo_projected: "projected {''state''} (demo_hist i)"
  by (auto simp: demo_hist_def projected_def)

lemma demo_publishes: "publishes (demo_hist i) (demo_hist (Suc i)) (demo_delta (Suc i))"
  by (simp add: publishes_def demo_delta_def newDelta_def)

lemma demo_ring_step:
  "ring_of demo_hist i r \<Longrightarrow> ring_of demo_hist (Suc i) (ring_Append (demo_delta (Suc i)) r)"
  by (erule ring_of_Append) (rule demo_publishes, simp add: demo_delta_def)

lemma demo_ring: "ring_of demo_hist 2 (ring_Append (demo_delta 2) (ring_Append (demo_delta 1) NewRing))"
  using demo_ring_step [OF demo_ring_step [OF ring_of_new]] by (simp add: numeral_2_eq_2)

theorem Diff_apply_witness:
  "apply_side (fst (Diff (demo_hist 1) (demo_hist 2))) (snd (Diff (demo_hist 1) (demo_hist 2))) (view_of (demo_hist 1)) =
     view_of (demo_hist 2)"
  by (rule Diff_apply [OF demo_projected demo_projected])

lemma demo_Since: "Since 1 (ring_Append (demo_delta 2) (ring_Append (demo_delta 1) NewRing)) \<noteq> None"
  using demo_ring by (simp add: Since_def ring_of_def oldest_def RingDepth_def Let_def)

theorem Since_catches_up_witness:
  "\<exists>d. Since 1 (ring_Append (demo_delta 2) (ring_Append (demo_delta 1) NewRing)) = Some d \<and>
     apply_delta d (view_of (demo_hist 1)) = view_of (demo_hist 2)"
  using Since_catches_up [OF demo_ring demo_projected, of 1] demo_Since
  by (auto split: option.splits)

end
