(* ===== verification/SyncHub.thy ===== *)
theory SyncHub
  imports SyncRing
begin

section \<open>The sync hub\<close>

text \<open>
  \<open>src/internal/sync/hub.go\<close>: the hub assigns rids, stores each delta in the ring, coalesces what is
  published within a second into one delivery, and feeds the subscribers' bounded channels.

  \<^item> A channel is its queue of unread deltas; \<open>hb_chans\<close> keeps it after it was closed, since a reader still
    drains a closed channel. \<open>hb_subs\<close> are the open ones. The fan-out visits them in the order of the list;
    the Go map has none, and the sends are independent.
  \<^item> Times are nanoseconds; \<open>None\<close> is the zero time of a hub that has not sent yet. A timer that fires is
    the event \<open>hub_flush\<close>. Methods that hold the mutex are one step.
  \<^item> The context goroutine of a subscription only calls \<open>remove\<close>.
\<close>

definition publishInterval :: int where "publishInterval = 1000000000"
definition subscriberBuffer :: nat where "subscriberBuffer = 8"

record hub =
  hb_ring :: ring
  hb_rid :: int
  hb_subs :: "int list"
  hb_chans :: "int \<Rightarrow> delta list"
  hb_nextSub :: int
  hb_pending :: delta
  hb_lastSend :: "int option"
  hb_timer :: bool

definition NewHub :: hub where
  "NewHub = \<lparr>hb_ring = NewRing, hb_rid = 0, hb_subs = [], hb_chans = (\<lambda>_. []), hb_nextSub = 0,
     hb_pending = newDelta, hb_lastSend = None, hb_timer = False\<rparr>"

text \<open>The loop over the subscribers: a non-blocking send, or the eviction of a slow one.\<close>

fun fan_out :: "delta \<Rightarrow> int list \<Rightarrow> hub \<Rightarrow> hub" where
  "fan_out d [] h = h"
| "fan_out d (i # ids) h =
     (if length (hb_chans h i) < subscriberBuffer
      then fan_out d ids (h\<lparr>hb_chans := (hb_chans h)(i := hb_chans h i @ [d])\<rparr>)
      else fan_out d ids (h\<lparr>hb_subs := filter (\<lambda>x. x \<noteq> i) (hb_subs h)\<rparr>))"

definition deliverLocked :: "int \<Rightarrow> hub \<Rightarrow> hub" where
  "deliverLocked now h =
     (if hb_subs h = [] then h\<lparr>hb_pending := newDelta\<rparr>
      else fan_out (finalizeRemovals (hb_pending h)) (hb_subs h)
        (h\<lparr>hb_lastSend := Some now, hb_pending := newDelta\<rparr>))"

definition armLocked :: "int \<Rightarrow> hub \<Rightarrow> hub" where
  "armLocked now h =
     (if hb_timer h then h
      else if (case hb_lastSend h of None \<Rightarrow> True | Some t \<Rightarrow> publishInterval \<le> now - t) then deliverLocked now h
      else h\<lparr>hb_timer := True\<rparr>)"

definition hub_flush :: "int \<Rightarrow> hub \<Rightarrow> hub" where
  "hub_flush now h = deliverLocked now (h\<lparr>hb_timer := False\<rparr>)"

definition Publish :: "int \<Rightarrow> delta \<Rightarrow> hub \<Rightarrow> int \<times> hub" where
  "Publish now d0 h =
     (let rid = hb_rid h + 1; d = d0\<lparr>dl_RID := rid\<rparr> in
      (rid, armLocked now (h\<lparr>hb_rid := rid, hb_ring := ring_Append d (hb_ring h),
         hb_pending := (coalesceInto (hb_pending h) d)\<lparr>dl_RID := rid\<rparr>\<rparr>)))"

text \<open>
  The answer of \<open>GET /sync\<close>, and of a subscription. Go does not hold the mutex across a poll: it looks into
  the ring and, on a miss, reads the cursor before the snapshot. Here a poll is one step.
\<close>

definition hub_Snapshot :: "int \<Rightarrow> delta \<Rightarrow> hub \<Rightarrow> delta" where
  "hub_Snapshot rid full h = (case Since rid (hb_ring h) of
      Some d \<Rightarrow> d
    | None \<Rightarrow> full\<lparr>dl_RID := hb_rid h, dl_FullUpdate := True, dl_SeqGap := True\<rparr>)"

definition Subscribe :: "int \<Rightarrow> delta \<Rightarrow> hub \<Rightarrow> int \<times> hub" where
  "Subscribe rid full h =
     (let i = hb_nextSub h + 1 in
      (i, h\<lparr>hb_nextSub := i, hb_chans := (hb_chans h)(i := [hub_Snapshot rid full h]), hb_subs := hb_subs h @ [i]\<rparr>))"

definition hub_remove :: "int \<Rightarrow> hub \<Rightarrow> hub" where
  "hub_remove i h = h\<lparr>hb_subs := filter (\<lambda>x. x \<noteq> i) (hb_subs h)\<rparr>"

definition Clients :: "hub \<Rightarrow> nat" where
  "Clients h = length (hb_subs h)"

text \<open>The header value; the spaces \<open>TrimSpace\<close> cuts are the ASCII ones.\<close>

definition is_space :: "char \<Rightarrow> bool" where
  "is_space c \<longleftrightarrow> (of_char c :: nat) \<in> {9, 10, 11, 12, 13, 32}"

definition TrimSpace :: "string \<Rightarrow> string" where
  "TrimSpace s = rev (dropWhile is_space (rev (dropWhile is_space s)))"

definition parseRID :: "string \<Rightarrow> int" where
  "parseRID lastEventID = (case ParseInt64 (TrimSpace lastEventID) of
      None \<Rightarrow> 0 | Some rid \<Rightarrow> if rid < 0 then 0 else rid)"

text \<open>One turn of \<open>Loop\<close> with a snapshot at hand; \<open>st\<close> are the stats of the last publication.\<close>

definition loop_delta :: "snapshot \<Rightarrow> snapshot \<Rightarrow> stats \<Rightarrow> delta option" where
  "loop_delta prev next st =
     (let (changed, removed) = Diff prev next; new = Aggregate next in
      if changed = [] \<and> removed = [] \<and> new = st then None
      else Some (newDelta\<lparr>dl_Tasks := changed, dl_TasksRemoved := removed, dl_Stats := new\<rparr>))"

text \<open>The full side of a miss (\<open>seedDelta\<close> of \<open>src/internal/api/sse.go\<close>), over the snapshot loaded last.\<close>

definition seedDelta :: "snapshot \<Rightarrow> delta" where
  "seedDelta cached = newDelta\<lparr>dl_Tasks := fst (Diff [] cached), dl_Stats := Aggregate cached\<rparr>"

subsection \<open>The system: a hub, its loop and its clients\<close>

text \<open>
  A client keeps the store of its reducer, the rid of the last delta it applied (what it sends as
  \<open>Last-Event-ID\<close> or polls with), and the channel it reads. The parameter \<open>s\<close> is the sequence of snapshots
  the loop publishes, \<open>s 0\<close> being the empty one it starts from; a snapshot that changes nothing is loaded
  and not published.
\<close>

record sync_client =
  cl_store :: view
  cl_rid :: int
  cl_chan :: "int option"

record sync_sys =
  ss_hub :: hub
  ss_clients :: "nat \<Rightarrow> sync_client"
  ss_prev :: snapshot
  ss_stats :: stats
  ss_latest :: snapshot
  ss_loaded :: bool

definition set_client :: "nat \<Rightarrow> sync_client \<Rightarrow> sync_sys \<Rightarrow> sync_sys" where
  "set_client c x y = y\<lparr>ss_clients := (ss_clients y)(c := x)\<rparr>"

inductive sync_step :: "(nat \<Rightarrow> snapshot) \<Rightarrow> string set \<Rightarrow> sync_sys \<Rightarrow> sync_sys \<Rightarrow> bool"
  for s :: "nat \<Rightarrow> snapshot" and F :: "string set" where
  load: "\<not> ss_loaded y \<Longrightarrow> hb_rid (ss_hub y) = int n \<Longrightarrow> loop_delta (ss_prev y) (s (Suc n)) (ss_stats y) \<noteq> None \<Longrightarrow>
    sync_step s F y (y\<lparr>ss_latest := s (Suc n), ss_loaded := True\<rparr>)"
| idle: "\<not> ss_loaded y \<Longrightarrow> projected F x \<Longrightarrow> loop_delta (ss_prev y) x (ss_stats y) = None \<Longrightarrow>
    sync_step s F y (y\<lparr>ss_latest := x\<rparr>)"
| publish: "ss_loaded y \<Longrightarrow> loop_delta (ss_prev y) (ss_latest y) (ss_stats y) = Some d \<Longrightarrow>
    sync_step s F y (y\<lparr>ss_hub := snd (Publish now d (ss_hub y)), ss_prev := ss_latest y,
      ss_stats := Aggregate (ss_latest y), ss_loaded := False\<rparr>)"
| flush: "hb_timer (ss_hub y) \<Longrightarrow> sync_step s F y (y\<lparr>ss_hub := hub_flush now (ss_hub y)\<rparr>)"
| subscribe: "cl_chan (ss_clients y c) = None \<Longrightarrow>
    Subscribe (cl_rid (ss_clients y c)) (seedDelta (ss_latest y)) (ss_hub y) = (i, h) \<Longrightarrow>
    sync_step s F y (set_client c ((ss_clients y c)\<lparr>cl_chan := Some i\<rparr>) (y\<lparr>ss_hub := h\<rparr>))"
| read: "cl_chan (ss_clients y c) = Some i \<Longrightarrow> hb_chans (ss_hub y) i = d # q \<Longrightarrow>
    sync_step s F y (set_client c ((ss_clients y c)\<lparr>cl_store := apply_delta d (cl_store (ss_clients y c)), cl_rid := dl_RID d\<rparr>)
      (y\<lparr>ss_hub := (ss_hub y)\<lparr>hb_chans := (hb_chans (ss_hub y))(i := q)\<rparr>\<rparr>))"
| leave: "cl_chan (ss_clients y c) = Some i \<Longrightarrow>
    sync_step s F y (set_client c ((ss_clients y c)\<lparr>cl_chan := None\<rparr>) (y\<lparr>ss_hub := hub_remove i (ss_hub y)\<rparr>))"
| poll: "cl_chan (ss_clients y c) = None \<Longrightarrow>
    hub_Snapshot (cl_rid (ss_clients y c)) (seedDelta (ss_latest y)) (ss_hub y) = d \<Longrightarrow>
    sync_step s F y (set_client c ((ss_clients y c)\<lparr>cl_store := apply_delta d (cl_store (ss_clients y c)), cl_rid := dl_RID d\<rparr>) y)"

definition sync_start :: sync_sys where
  "sync_start = \<lparr>ss_hub = NewHub, ss_clients = (\<lambda>_. \<lparr>cl_store = (\<lambda>_. None), cl_rid = 0, cl_chan = None\<rparr>),
     ss_prev = [], ss_stats = no_stats, ss_latest = [], ss_loaded = False\<rparr>"

abbreviation sync_reachable :: "(nat \<Rightarrow> snapshot) \<Rightarrow> string set \<Rightarrow> sync_sys \<Rightarrow> bool" where
  "sync_reachable s F \<equiv> (sync_step s F)\<^sup>*\<^sup>* sync_start"

subsection \<open>The invariant\<close>

text \<open>
  What a client holds, together with the rid it would name, and how each unread delta moves the pair.
\<close>

definition in_step :: "(nat \<Rightarrow> snapshot) \<Rightarrow> nat \<Rightarrow> nat \<Rightarrow> view \<times> int \<Rightarrow> bool" where
  "in_step s n l x \<longleftrightarrow> 0 \<le> snd x \<and> nat (snd x) \<le> n \<and> mixed s (nat (snd x)) l (fst x)"

definition receive :: "delta \<Rightarrow> view \<times> int \<Rightarrow> view \<times> int" where
  "receive d x = (apply_delta d (fst x), dl_RID d)"

fun queue_ok :: "(nat \<Rightarrow> snapshot) \<Rightarrow> nat \<Rightarrow> nat \<Rightarrow> view \<times> int \<Rightarrow> delta list \<Rightarrow> bool" where
  "queue_ok s n l x [] = in_step s n l x"
| "queue_ok s n l x (d # q) = (in_step s n l x \<and> queue_ok s n l (receive d x) q)"

definition holds_of :: "sync_client \<Rightarrow> view \<times> int" where
  "holds_of c = (cl_store c, cl_rid c)"

definition pending_ok :: "(nat \<Rightarrow> snapshot) \<Rightarrow> nat \<Rightarrow> nat \<Rightarrow> hub \<Rightarrow> bool" where
  "pending_ok s j n h \<longleftrightarrow> j \<le> n \<and> catches_up s j n (hb_pending h) \<and>
     (if hb_timer h then dl_RID (hb_pending h) = int n else j = n)"

definition client_ok :: "(nat \<Rightarrow> snapshot) \<Rightarrow> nat \<Rightarrow> nat \<Rightarrow> nat \<Rightarrow> hub \<Rightarrow> sync_client \<Rightarrow> bool" where
  "client_ok s j n l h c \<longleftrightarrow> (case cl_chan c of
      None \<Rightarrow> in_step s n l (holds_of c)
    | Some i \<Rightarrow> i \<le> hb_nextSub h \<and> queue_ok s n l (holds_of c) (hb_chans h i) \<and>
        (i \<in> set (hb_subs h) \<longrightarrow> int j \<le> snd (fold receive (hb_chans h i) (holds_of c))))"

lemma queue_ok_start: "queue_ok s n l x q \<Longrightarrow> in_step s n l x"
  by (cases q) simp_all

lemma queue_ok_append:
  "queue_ok s n l x (q @ [d]) \<longleftrightarrow> queue_ok s n l x q \<and> in_step s n l (receive d (fold receive q x))"
  by (induction q arbitrary: x) auto

lemma queue_ok_end: "queue_ok s n l x q \<Longrightarrow> in_step s n l (fold receive q x)"
  by (induction q arbitrary: x) auto

lemma in_step_mono: "in_step s n l x \<Longrightarrow> n \<le> n' \<Longrightarrow> l \<le> l' \<Longrightarrow> in_step s n' l' x"
  unfolding in_step_def using mixed_mono by (meson order_refl order_trans)

lemma queue_ok_mono: "queue_ok s n l x q \<Longrightarrow> n \<le> n' \<Longrightarrow> l \<le> l' \<Longrightarrow> queue_ok s n' l' x q"
  by (induction q arbitrary: x) (auto intro: in_step_mono)

lemma client_ok_mono:
  "client_ok s j n l h c \<Longrightarrow> n \<le> n' \<Longrightarrow> l \<le> l' \<Longrightarrow> client_ok s j n' l' h c"
  by (auto simp: client_ok_def split: option.splits intro: in_step_mono queue_ok_mono)

text \<open>The channels after the fan-out, and the fields it leaves alone.\<close>

lemma fan_out_simps [simp]:
  "hb_ring (fan_out d ids h) = hb_ring h" "hb_rid (fan_out d ids h) = hb_rid h"
  "hb_nextSub (fan_out d ids h) = hb_nextSub h" "hb_pending (fan_out d ids h) = hb_pending h"
  "hb_timer (fan_out d ids h) = hb_timer h" "hb_lastSend (fan_out d ids h) = hb_lastSend h"
  by (induction d ids h rule: fan_out.induct) simp_all

lemma fan_out_chans:
  "distinct ids \<Longrightarrow> hb_chans (fan_out d ids h) i =
     (if i \<in> set ids \<and> length (hb_chans h i) < subscriberBuffer then hb_chans h i @ [d] else hb_chans h i)"
proof (induction ids arbitrary: h)
  case (Cons a ids)
  then show ?case by (cases "i = a") simp_all
qed simp

lemma fan_out_subs:
  "set (hb_subs (fan_out d ids h)) \<subseteq> set (hb_subs h)"
  "distinct (hb_subs h) \<Longrightarrow> distinct (hb_subs (fan_out d ids h))"
proof (induction ids arbitrary: h)
  case (Cons a ids)
  { case 1
    show ?case using Cons(1) [of "h\<lparr>hb_chans := (hb_chans h)(a := hb_chans h a @ [d])\<rparr>"]
        Cons(1) [of "h\<lparr>hb_subs := filter (\<lambda>x. x \<noteq> a) (hb_subs h)\<rparr>"] by auto }
  { case 2
    then show ?case by (auto intro: Cons(2)) }
qed simp_all

lemma fan_out_open:
  "distinct ids \<Longrightarrow> i \<in> set ids \<Longrightarrow> i \<in> set (hb_subs (fan_out d ids h)) \<Longrightarrow> length (hb_chans h i) < subscriberBuffer"
proof (induction ids arbitrary: h)
  case (Cons a ids)
  show ?case
  proof (cases "i = a")
    case True
    show ?thesis
    proof (rule ccontr)
      assume "\<not> ?thesis"
      with Cons.prems True fan_out_subs(1) [of d ids "h\<lparr>hb_subs := filter (\<lambda>x. x \<noteq> a) (hb_subs h)\<rparr>"] show False
        by auto
    qed
  next
    case False
    with Cons.prems show ?thesis
      using Cons.IH [of "h\<lparr>hb_chans := (hb_chans h)(a := hb_chans h a @ [d])\<rparr>"]
        Cons.IH [of "h\<lparr>hb_subs := filter (\<lambda>x. x \<noteq> a) (hb_subs h)\<rparr>"] by (auto split: if_splits)
  qed
qed simp

subsection \<open>The invariant is kept\<close>

lemma apply_finalize: "catches_up s j n acc \<Longrightarrow> apply_delta (finalizeRemovals acc) = apply_delta acc"
  using drop_removed_idle [of "dl_TasksRemoved acc" "dl_Tasks acc"]
  by (simp add: catches_up_def apply_delta_def apply_side_def finalizeRemovals_def fun_eq_iff)

lemma finalize_RID [simp]: "dl_RID (finalizeRemovals d) = dl_RID d"
  by (simp add: finalizeRemovals_def)

lemma apply_delta_RID [simp]: "apply_delta (d\<lparr>dl_RID := r\<rparr>) = apply_delta d"
  by (simp add: apply_delta_def fun_eq_iff)

lemma catches_up_RID [simp]: "catches_up s j n (d\<lparr>dl_RID := r\<rparr>) = catches_up s j n d"
  by (simp add: catches_up_def)

lemma receive_pending:
  assumes "catches_up s j n p" "dl_RID p = int n" "n \<le> l" "in_step s n l x" "int j \<le> snd x"
  shows "in_step s n l (receive (finalizeRemovals p) x)" "snd (receive (finalizeRemovals p) x) = int n"
proof -
  have "mixed s j l (fst x)"
    using assms(4,5) mixed_mono [of s "nat (snd x)" l "fst x" j l] by (simp add: in_step_def le_nat_iff)
  then have "mixed s n l (apply_delta p (fst x))"
    using assms(1,3) by (simp add: catches_up_def)
  then show "in_step s n l (receive (finalizeRemovals p) x)" "snd (receive (finalizeRemovals p) x) = int n"
    using assms(2) by (simp_all add: in_step_def receive_def apply_finalize [OF assms(1)])
qed

lemma client_ok_deliver:
  assumes c: "client_ok s j n l h c" and p: "catches_up s j n (hb_pending h)" "dl_RID (hb_pending h) = int n"
    and "n \<le> l" "distinct (hb_subs h)"
  shows "client_ok s n n l (deliverLocked now h) c"
proof (cases "hb_subs h = []")
  case True
  with c show ?thesis by (simp add: client_ok_def deliverLocked_def split: option.splits)
next
  case False
  note d = receive_pending [OF p \<open>n \<le> l\<close>]
  show ?thesis
  proof (cases "cl_chan c")
    case None
    with c show ?thesis by (simp add: client_ok_def)
  next
    case (Some i)
    let ?d = "finalizeRemovals (hb_pending h)" and ?h = "h\<lparr>hb_lastSend := Some now, hb_pending := newDelta\<rparr>"
    have h: "deliverLocked now h = fan_out ?d (hb_subs h) ?h"
      using False by (simp add: deliverLocked_def)
    have q: "i \<le> hb_nextSub h" "queue_ok s n l (holds_of c) (hb_chans h i)"
      "i \<in> set (hb_subs h) \<Longrightarrow> int j \<le> snd (fold receive (hb_chans h i) (holds_of c))"
      using c Some by (simp_all add: client_ok_def)
    have chan: "hb_chans (deliverLocked now h) i =
        (if i \<in> set (hb_subs h) \<and> length (hb_chans h i) < subscriberBuffer then hb_chans h i @ [?d] else hb_chans h i)"
      using assms(5) by (simp add: h fan_out_chans)
    have still: "length (hb_chans h i) < subscriberBuffer \<and> i \<in> set (hb_subs h)"
      if "i \<in> set (hb_subs (deliverLocked now h))"
      using that fan_out_subs(1) [where d = ?d and ids = "hb_subs h" and h = ?h] fan_out_open [OF assms(5), of i ?d ?h] by (auto simp: h)
    show ?thesis
      using Some q still chan d [OF queue_ok_end [OF q(2)]]
      by (auto simp: client_ok_def queue_ok_append h)
  qed
qed

lemma deliver_fields:
  "hb_ring (deliverLocked now h) = hb_ring h" "hb_rid (deliverLocked now h) = hb_rid h"
  "hb_nextSub (deliverLocked now h) = hb_nextSub h" "hb_pending (deliverLocked now h) = newDelta"
  "hb_timer (deliverLocked now h) = hb_timer h"
  "set (hb_subs (deliverLocked now h)) \<subseteq> set (hb_subs h)"
  "distinct (hb_subs h) \<Longrightarrow> distinct (hb_subs (deliverLocked now h))"
  using fan_out_subs [where d = "finalizeRemovals (hb_pending h)" and ids = "hb_subs h"
    and h = "h\<lparr>hb_lastSend := Some now, hb_pending := newDelta\<rparr>"]
  by (auto simp: deliverLocked_def)

text \<open>The part of the invariant that is about the hub and the clients only.\<close>

definition hub_inv :: "(nat \<Rightarrow> snapshot) \<Rightarrow> nat \<Rightarrow> nat \<Rightarrow> nat \<Rightarrow> hub \<Rightarrow> (nat \<Rightarrow> sync_client) \<Rightarrow> bool" where
  "hub_inv s j n l h cs \<longleftrightarrow> hb_rid h = int n \<and> ring_of s n (hb_ring h) \<and> n \<le> l \<and> pending_ok s j n h \<and>
     distinct (hb_subs h) \<and> (\<forall>i \<in> set (hb_subs h). i \<le> hb_nextSub h) \<and> (\<forall>c. client_ok s j n l h (cs c))"

lemma hub_inv_client: "hub_inv s j n l h cs \<Longrightarrow> client_ok s j n l h (cs c)"
  by (simp add: hub_inv_def)

lemma client_ok_in_step: "client_ok s j n l h c \<Longrightarrow> in_step s n l (holds_of c)"
  by (auto simp: client_ok_def intro: queue_ok_start split: option.splits)

lemma hub_inv_deliver:
  assumes "hb_rid h = int n" "ring_of s n (hb_ring h)" "n \<le> l" "distinct (hb_subs h)"
    "\<forall>i \<in> set (hb_subs h). i \<le> hb_nextSub h" "\<And>c. client_ok s j n l h (cs c)"
    "catches_up s j n (hb_pending h)" "dl_RID (hb_pending h) = int n" "\<not> hb_timer h"
  shows "hub_inv s n n l (deliverLocked now h) cs"
  using assms deliver_fields [where now = now and h = h] client_ok_deliver [OF assms(6-8,3,4)] catches_up_new [of s n]
  by (auto simp: hub_inv_def pending_ok_def)

lemma client_ok_frame [simp]:
  "client_ok s j n l (h\<lparr>hb_timer := b\<rparr>) c = client_ok s j n l h c"
  "client_ok s j n l (h\<lparr>hb_rid := r\<rparr>) c = client_ok s j n l h c"
  "client_ok s j n l (h\<lparr>hb_ring := g\<rparr>) c = client_ok s j n l h c"
  "client_ok s j n l (h\<lparr>hb_pending := p\<rparr>) c = client_ok s j n l h c"
  by (simp_all add: client_ok_def split: option.split)

lemma hub_inv_flush:
  assumes "hub_inv s j n l h cs" "hb_timer h"
  shows "hub_inv s n n l (hub_flush now h) cs"
  unfolding hub_flush_def
  by (rule hub_inv_deliver [where j = j])
    (use assms in \<open>auto simp: hub_inv_def pending_ok_def\<close>)

lemma hub_inv_publish:
  assumes inv: "hub_inv s j n l h cs" and "Suc n \<le> l" and pub: "publishes (s n) (s (Suc n)) d" and proj: "\<And>i. projected F (s i)"
  shows "\<exists>j'. hub_inv s j' (Suc n) l (snd (Publish now d h)) cs"
proof -
  let ?d = "d\<lparr>dl_RID := int (Suc n)\<rparr>"
  let ?h = "h\<lparr>hb_rid := int (Suc n), hb_ring := ring_Append ?d (hb_ring h),
     hb_pending := (coalesceInto (hb_pending h) ?d)\<lparr>dl_RID := int (Suc n)\<rparr>\<rparr>"
  have pub': "publishes (s n) (s (Suc n)) ?d"
    using pub by (simp add: publishes_def)
  have rid: "hb_rid h = int n" and ring: "ring_of s n (hb_ring h)" and pend: "pending_ok s j n h"
    and subs: "distinct (hb_subs h)" "\<forall>i \<in> set (hb_subs h). i \<le> hb_nextSub h" and cl: "\<And>c. client_ok s j n l h (cs c)"
    using inv by (simp_all add: hub_inv_def)
  have up: "catches_up s j (Suc n) (hb_pending ?h)"
    using catches_up_step [of s j n "hb_pending h" ?d F, OF _ _ pub' proj] pend
    by (simp add: pending_ok_def)
  have ring': "ring_of s (Suc n) (hb_ring ?h)"
    using ring_of_Append [OF ring pub'] by simp
  have cl': "client_ok s j (Suc n) l ?h (cs c)" for c
    using client_ok_mono [OF cl, of "Suc n" l] by simp
  have eq: "snd (Publish now d h) = armLocked now ?h"
    using rid by (simp add: Publish_def Let_def add.commute)
  show ?thesis
  proof (cases "hb_timer h \<or> \<not> (case hb_lastSend h of None \<Rightarrow> True | Some t \<Rightarrow> publishInterval \<le> now - t)")
    case True
    then have "armLocked now ?h = ?h\<lparr>hb_timer := True\<rparr>"
      by (auto simp: armLocked_def)
    moreover have "hub_inv s j (Suc n) l (?h\<lparr>hb_timer := True\<rparr>) cs"
      using up ring' cl' subs pend \<open>Suc n \<le> l\<close>
      by (auto simp: hub_inv_def pending_ok_def)
    ultimately show ?thesis unfolding eq by metis
  next
    case False
    then have "armLocked now ?h = deliverLocked now ?h"
      by (auto simp: armLocked_def)
    moreover have "hub_inv s (Suc n) (Suc n) l (deliverLocked now ?h) cs"
      by (rule hub_inv_deliver [where j = j]) (use up ring' cl' subs False \<open>Suc n \<le> l\<close> in auto)
    ultimately show ?thesis unfolding eq by metis
  qed
qed

text \<open>A snapshot answer or a seed, on a hit of the ring and on a miss.\<close>

lemma apply_seed:
  "distinct (map fst x) \<Longrightarrow>
   apply_delta ((seedDelta x)\<lparr>dl_RID := r, dl_FullUpdate := True, dl_SeqGap := True\<rparr>) c = view_of x"
  by (rule ext) (auto simp: apply_delta_def apply_side_def seedDelta_def newDelta_def Diff_def map_of_diff_changed
      merge_view_def view_of_def split: option.split)

lemma snapshot_receive:
  assumes h: "hb_rid h = int n" "ring_of s n (hb_ring h)" "n \<le> l" and x: "in_step s n l x"
    and latest: "distinct (map fst latest)" "view_of latest = view_of (s l)" and proj: "\<And>i. projected F (s i)"
  shows "in_step s n l (receive (hub_Snapshot (snd x) (seedDelta latest) h) x) \<and>
    snd (receive (hub_Snapshot (snd x) (seedDelta latest) h) x) = int n"
proof (cases "Since (snd x) (hb_ring h)")
  case None
  with h latest show ?thesis
    by (simp add: hub_Snapshot_def receive_def in_step_def apply_seed mixed_refl)
next
  case (Some d)
  with Since_mixed [OF h(2) proj, of "snd x"] x h(3) show ?thesis
    by (simp add: hub_Snapshot_def receive_def in_step_def)
qed

definition sync_inv :: "(nat \<Rightarrow> snapshot) \<Rightarrow> nat \<Rightarrow> nat \<Rightarrow> nat \<Rightarrow> sync_sys \<Rightarrow> bool" where
  "sync_inv s j n l y \<longleftrightarrow> hub_inv s j n l (ss_hub y) (ss_clients y) \<and> ss_prev y = s n \<and>
     distinct (map fst (ss_latest y)) \<and> view_of (ss_latest y) = view_of (s l) \<and>
     (if ss_loaded y then l = Suc n \<and> ss_latest y = s (Suc n) else l = n) \<and>
     (\<forall>c c' i. cl_chan (ss_clients y c) = Some i \<longrightarrow> cl_chan (ss_clients y c') = Some i \<longrightarrow> c = c')"

lemma loop_delta_publishes:
  "loop_delta prev next st = Some d \<Longrightarrow> publishes prev next d"
  by (auto simp: loop_delta_def Let_def case_prod_beta publishes_def newDelta_def split: if_splits)

lemma loop_delta_idle:
  assumes "loop_delta prev next st = None" "projected F prev" "projected F next"
  shows "view_of next = view_of prev"
proof
  fix k
  have "fst (Diff prev next) = []" "snd (Diff prev next) = []"
    using assms(1) by (simp_all add: loop_delta_def Let_def case_prod_beta split: if_splits)
  then show "view_of next k = view_of prev k"
    using Diff_task [OF assms(2,3), of k] by (auto split: option.splits)
qed

lemma inv_load:
  assumes "sync_inv s j n l y" "\<not> ss_loaded y" and "\<And>i. projected F (s i)"
  shows "sync_inv s j n (Suc n) (y\<lparr>ss_latest := s (Suc n), ss_loaded := True\<rparr>)"
  using assms client_ok_mono [of s j n n _ _ n "Suc n"]
  by (auto simp: sync_inv_def hub_inv_def projected_def)

lemma inv_idle:
  assumes "sync_inv s j n l y" "\<not> ss_loaded y" "projected F x" "loop_delta (ss_prev y) x (ss_stats y) = None"
    and "\<And>i. projected F (s i)"
  shows "sync_inv s j n l (y\<lparr>ss_latest := x\<rparr>)"
  using assms loop_delta_idle [OF assms(4) _ assms(3)]
  by (auto simp: sync_inv_def projected_def)

lemma inv_publish:
  assumes inv: "sync_inv s j n l y" and "ss_loaded y" "loop_delta (ss_prev y) (ss_latest y) (ss_stats y) = Some d"
    and proj: "\<And>i. projected F (s i)"
  shows "\<exists>j'. sync_inv s j' (Suc n) l (y\<lparr>ss_hub := snd (Publish now d (ss_hub y)), ss_prev := ss_latest y,
    ss_stats := Aggregate (ss_latest y), ss_loaded := False\<rparr>)"
proof -
  have l: "l = Suc n" and pub: "publishes (s n) (s (Suc n)) d" and hub: "hub_inv s j n l (ss_hub y) (ss_clients y)"
    using assms loop_delta_publishes by (auto simp: sync_inv_def)
  obtain j' where "hub_inv s j' (Suc n) l (snd (Publish now d (ss_hub y))) (ss_clients y)"
    using hub_inv_publish [OF hub _ pub proj] l by auto
  with assms l show ?thesis
    by (auto simp: sync_inv_def)
qed

lemma inv_flush: "sync_inv s j n l y \<Longrightarrow> hb_timer (ss_hub y) \<Longrightarrow> sync_inv s n n l (y\<lparr>ss_hub := hub_flush now (ss_hub y)\<rparr>)"
  unfolding sync_inv_def using hub_inv_flush [of s j n l "ss_hub y" "ss_clients y" now] by simp

text \<open>A client event: the hub keeps its fields, and only the channel and the record of that client move.\<close>

lemma client_ok_other:
  assumes "client_ok s j n l h c" and "cl_chan c \<noteq> Some i" and "i' = hb_nextSub h \<or> hb_nextSub h < i'"
    and "set S - {i} \<subseteq> set (hb_subs h)"
  shows "client_ok s j n l (h\<lparr>hb_nextSub := i', hb_chans := (hb_chans h)(i := q), hb_subs := S\<rparr>) c"
  using assms by (auto simp: client_ok_def split: option.splits)

lemma inv_subscribe:
  assumes inv: "sync_inv s j n l y" and free: "cl_chan (ss_clients y c) = None"
    and sub: "Subscribe (cl_rid (ss_clients y c)) (seedDelta (ss_latest y)) (ss_hub y) = (i, h)"
    and proj: "\<And>i. projected F (s i)"
  shows "sync_inv s j n l (set_client c ((ss_clients y c)\<lparr>cl_chan := Some i\<rparr>) (y\<lparr>ss_hub := h\<rparr>))"
proof -
  let ?x = "holds_of (ss_clients y c)" and ?h = "ss_hub y"
  let ?d = "hub_Snapshot (cl_rid (ss_clients y c)) (seedDelta (ss_latest y)) ?h"
  have i: "i = hb_nextSub ?h + 1"
    and h: "h = ?h\<lparr>hb_nextSub := i, hb_chans := (hb_chans ?h)(i := [?d]), hb_subs := hb_subs ?h @ [i]\<rparr>"
    using sub by (auto simp: Subscribe_def Let_def)
  have hub: "hub_inv s j n l ?h (ss_clients y)"
    using inv by (simp add: sync_inv_def)
  have x: "in_step s n l ?x" and seen: "\<And>c' i'. cl_chan (ss_clients y c') = Some i' \<Longrightarrow> i' < i"
    using hub free i by (force simp: hub_inv_def client_ok_def split: option.splits)+
  have "in_step s n l (receive ?d ?x) \<and> snd (receive ?d ?x) = int n"
    using snapshot_receive [of ?h n s l ?x "ss_latest y" F] inv hub x proj
    by (simp add: sync_inv_def hub_inv_def holds_of_def)
  then have own: "client_ok s j n l h ((ss_clients y c)\<lparr>cl_chan := Some i\<rparr>)"
    using x hub by (simp add: client_ok_def h holds_of_def hub_inv_def pending_ok_def)
  have others: "client_ok s j n l h (ss_clients y c')" for c'
    unfolding h by (rule client_ok_other) (use hub seen [of c'] i in \<open>auto simp: hub_inv_def\<close>)
  have fresh: "i \<notin> set (hb_subs ?h)" "\<And>k. k \<in> set (hb_subs ?h) \<Longrightarrow> k \<le> i"
    using hub i by (fastforce simp: hub_inv_def)+
  show ?thesis
    using inv hub own others fresh seen
    by (auto simp: sync_inv_def hub_inv_def set_client_def h pending_ok_def dest: seen)
qed

lemma inv_read:
  assumes inv: "sync_inv s j n l y" and c: "cl_chan (ss_clients y c) = Some i" and q: "hb_chans (ss_hub y) i = d # q"
  shows "sync_inv s j n l
    (set_client c ((ss_clients y c)\<lparr>cl_store := apply_delta d (cl_store (ss_clients y c)), cl_rid := dl_RID d\<rparr>)
      (y\<lparr>ss_hub := (ss_hub y)\<lparr>hb_chans := (hb_chans (ss_hub y))(i := q)\<rparr>\<rparr>))"
proof -
  let ?h = "ss_hub y"
  have hub: "hub_inv s j n l ?h (ss_clients y)"
    and own: "\<And>c'. cl_chan (ss_clients y c') = Some i \<Longrightarrow> c' = c"
    using inv c by (auto simp: sync_inv_def)
  have "client_ok s j n l ?h (ss_clients y c)"
    using hub by (simp add: hub_inv_def)
  then have "client_ok s j n l (?h\<lparr>hb_chans := (hb_chans ?h)(i := q)\<rparr>)
      ((ss_clients y c)\<lparr>cl_store := apply_delta d (cl_store (ss_clients y c)), cl_rid := dl_RID d\<rparr>)"
    using c q by (simp add: client_ok_def holds_of_def receive_def)
  moreover have "client_ok s j n l (?h\<lparr>hb_chans := (hb_chans ?h)(i := q)\<rparr>) (ss_clients y c')" if "c' \<noteq> c" for c'
    using hub_inv_client [OF hub, of c'] own [of c'] that by (auto simp: client_ok_def split: option.splits)
  ultimately show ?thesis
    using inv hub by (auto simp: sync_inv_def hub_inv_def set_client_def pending_ok_def)
qed

lemma inv_leave:
  assumes inv: "sync_inv s j n l y" and c: "cl_chan (ss_clients y c) = Some i"
  shows "sync_inv s j n l
    (set_client c ((ss_clients y c)\<lparr>cl_chan := None\<rparr>) (y\<lparr>ss_hub := hub_remove i (ss_hub y)\<rparr>))"
proof -
  have hub: "hub_inv s j n l (ss_hub y) (ss_clients y)"
    using inv by (simp add: sync_inv_def)
  then have "in_step s n l (holds_of (ss_clients y c))"
    by (rule client_ok_in_step [OF hub_inv_client])
  then have "client_ok s j n l (hub_remove i (ss_hub y)) ((ss_clients y c)\<lparr>cl_chan := None\<rparr>)"
    by (simp add: client_ok_def holds_of_def)
  moreover have "client_ok s j n l (hub_remove i (ss_hub y)) (ss_clients y c')" for c'
    using hub_inv_client [OF hub, of c'] by (auto simp: client_ok_def hub_remove_def split: option.splits)
  ultimately show ?thesis
    using inv hub by (auto simp: sync_inv_def hub_inv_def set_client_def pending_ok_def hub_remove_def)
qed

lemma inv_poll:
  assumes inv: "sync_inv s j n l y" and free: "cl_chan (ss_clients y c) = None"
    and d: "hub_Snapshot (cl_rid (ss_clients y c)) (seedDelta (ss_latest y)) (ss_hub y) = d"
    and proj: "\<And>i. projected F (s i)"
  shows "sync_inv s j n l
    (set_client c ((ss_clients y c)\<lparr>cl_store := apply_delta d (cl_store (ss_clients y c)), cl_rid := dl_RID d\<rparr>) y)"
proof -
  let ?x = "holds_of (ss_clients y c)"
  have hub: "hub_inv s j n l (ss_hub y) (ss_clients y)"
    using inv by (simp add: sync_inv_def)
  then have "in_step s n l ?x"
    by (rule client_ok_in_step [OF hub_inv_client])
  then have "in_step s n l (receive d ?x)"
    using snapshot_receive [of "ss_hub y" n s l ?x "ss_latest y" F] inv hub proj d
    by (simp add: sync_inv_def hub_inv_def holds_of_def)
  then have "client_ok s j n l (ss_hub y)
      ((ss_clients y c)\<lparr>cl_store := apply_delta d (cl_store (ss_clients y c)), cl_rid := dl_RID d\<rparr>)"
    using free by (simp add: client_ok_def holds_of_def receive_def)
  then show ?thesis
    using inv hub free by (auto simp: sync_inv_def hub_inv_def set_client_def)
qed

lemma sync_inv_start: "s 0 = [] \<Longrightarrow> sync_inv s 0 0 0 sync_start"
  using catches_up_new [of s 0]
  by (auto simp: sync_inv_def hub_inv_def sync_start_def NewHub_def ring_of_new pending_ok_def client_ok_def
      in_step_def holds_of_def newDelta_def mixed_single view_of_def fun_eq_iff)

lemma sync_inv_step:
  assumes "sync_step s F y y'" and "\<exists>j n l. sync_inv s j n l y" and proj: "\<And>i. projected F (s i)"
  shows "\<exists>j n l. sync_inv s j n l y'"
proof -
  obtain j n l where inv: "sync_inv s j n l y" using assms(2) by blast
  from assms(1) show ?thesis
  proof cases
    case (load m)
    with inv have "m = n" by (simp add: sync_inv_def hub_inv_def)
    with inv_load [OF inv load(2) proj] load(1) show ?thesis by metis
  next
    case (idle x)
    from inv_idle [OF inv idle(2-4) proj] idle(1) show ?thesis by metis
  next
    case (publish d "now")
    from inv_publish [OF inv publish(2,3) proj] publish(1) show ?thesis by metis
  next
    case (flush "now")
    from inv_flush [OF inv flush(2)] flush(1) show ?thesis by metis
  next
    case (subscribe c i h)
    from inv_subscribe [OF inv subscribe(2,3) proj] subscribe(1) show ?thesis by metis
  next
    case (read c i d q)
    from inv_read [OF inv read(2,3)] read(1) show ?thesis by metis
  next
    case (leave c i)
    from inv_leave [OF inv leave(2)] leave(1) show ?thesis by metis
  next
    case (poll c d)
    from inv_poll [OF inv poll(2,3) proj] poll(1) show ?thesis by metis
  qed
qed

lemma sync_reachable_inv:
  assumes "sync_reachable s F y" and "s 0 = []" and "\<And>i. projected F (s i)"
  shows "\<exists>j n l. sync_inv s j n l y"
  using assms(1)
  by (induction rule: rtranclp_induct) (use sync_inv_start [of s] sync_inv_step [of s F] assms(2,3) in blast)+

text \<open>
  C3. Every client converges on the published state. Whatever the interleaving of publications, window
  flushes, subscriptions, reads, polls, evictions and reconnects: a client whose channel is open and drained
  holds, once no delivery window is open and no snapshot is waiting to be published, exactly the newest
  published snapshot, task by task and field by field, and names the newest rid. A client that is not there
  yet holds every task as it was in some snapshot no older than the rid it names.
\<close>

theorem sync_converges:
  assumes "sync_reachable s F y" and "s 0 = []" and "\<And>i. projected F (s i)"
  shows "\<exists>n. hb_rid (ss_hub y) = int n \<and>
    (\<forall>c. 0 \<le> cl_rid (ss_clients y c) \<and> cl_rid (ss_clients y c) \<le> int n \<and>
       mixed s (nat (cl_rid (ss_clients y c))) (if ss_loaded y then Suc n else n) (cl_store (ss_clients y c)) \<and>
       (\<forall>i. cl_chan (ss_clients y c) = Some i \<and> i \<in> set (hb_subs (ss_hub y)) \<and> hb_chans (ss_hub y) i = [] \<and>
            \<not> hb_timer (ss_hub y) \<and> \<not> ss_loaded y \<longrightarrow>
          cl_rid (ss_clients y c) = int n \<and> cl_store (ss_clients y c) = view_of (s n)))"
proof -
  obtain j n l where inv: "sync_inv s j n l y"
    using sync_reachable_inv [OF assms] by blast
  then have rid: "hb_rid (ss_hub y) = int n" and l: "l = (if ss_loaded y then Suc n else n)"
    and ok: "\<And>c. client_ok s j n l (ss_hub y) (ss_clients y c)" and pend: "pending_ok s j n (ss_hub y)"
    by (auto simp: sync_inv_def hub_inv_def split: if_splits)
  have step: "in_step s n l (holds_of (ss_clients y c))" for c
    by (rule client_ok_in_step [OF ok])
  have "cl_rid (ss_clients y c) = int n \<and> cl_store (ss_clients y c) = view_of (s n)"
    if "cl_chan (ss_clients y c) = Some i" "i \<in> set (hb_subs (ss_hub y))" "hb_chans (ss_hub y) i = []"
      "\<not> hb_timer (ss_hub y)" "\<not> ss_loaded y" for c i
  proof -
    have "j = n" and "int j \<le> cl_rid (ss_clients y c)"
      using that pend ok [of c] by (simp_all add: pending_ok_def client_ok_def holds_of_def)
    with step [of c] l that(5) have "cl_rid (ss_clients y c) = int n"
      by (auto simp: in_step_def holds_of_def)
    with step [of c] l that(5) show ?thesis
      by (simp add: in_step_def holds_of_def mixed_single)
  qed
  with step l rid show ?thesis
    by (intro exI [of _ n]) (auto simp: in_step_def holds_of_def nat_le_iff)
qed

text \<open>A client subscribes, reads its seed, the first snapshot is published, and it reads that.\<close>

definition demo_subscribed :: sync_sys where
  "demo_subscribed = set_client 0 \<lparr>cl_store = (\<lambda>_. None), cl_rid = 0, cl_chan = Some 1\<rparr>
     (sync_start\<lparr>ss_hub := snd (Subscribe 0 (seedDelta []) NewHub)\<rparr>)"

definition demo_read :: "sync_sys \<Rightarrow> sync_sys" where
  "demo_read y = (let c = ss_clients y 0; d = hd (hb_chans (ss_hub y) 1) in
     set_client 0 (c\<lparr>cl_store := apply_delta d (cl_store c), cl_rid := dl_RID d\<rparr>)
       (y\<lparr>ss_hub := (ss_hub y)\<lparr>hb_chans := (hb_chans (ss_hub y))(1 := tl (hb_chans (ss_hub y) 1))\<rparr>\<rparr>))"

definition demo_loaded :: sync_sys where
  "demo_loaded = (demo_read demo_subscribed)\<lparr>ss_latest := demo_hist 1, ss_loaded := True\<rparr>"

definition demo_published :: sync_sys where
  "demo_published = (let y = demo_loaded in
     y\<lparr>ss_hub := snd (Publish 0 (the (loop_delta (ss_prev y) (ss_latest y) (ss_stats y))) (ss_hub y)),
       ss_prev := ss_latest y, ss_stats := Aggregate (ss_latest y), ss_loaded := False\<rparr>)"

lemmas demo_hub_defs = demo_subscribed_def demo_read_def demo_loaded_def demo_published_def sync_start_def NewHub_def
  NewRing_def Subscribe_def hub_Snapshot_def Since_def set_client_def Let_def

lemma demo_read_step:
  "cl_chan (ss_clients y 0) = Some 1 \<Longrightarrow> hb_chans (ss_hub y) 1 \<noteq> [] \<Longrightarrow> sync_step s F y (demo_read y)"
  using sync_step.read [of y 0 1 "hd (hb_chans (ss_hub y) 1)" "tl (hb_chans (ss_hub y) 1)" s F]
  by (simp add: demo_read_def Let_def)

lemma demo_subscribed_step: "sync_step s F sync_start demo_subscribed"
  using sync_step.subscribe [of sync_start 0 1 "snd (Subscribe 0 (seedDelta []) NewHub)" s F]
  by (simp add: demo_hub_defs)

lemma demo_loop_delta: "loop_delta [] (demo_hist 1) no_stats \<noteq> None"
  by (simp add: loop_delta_def demo_hist_def Diff_def Let_def)

lemma demo_loaded_step: "sync_step demo_hist F (demo_read demo_subscribed) demo_loaded"
  using sync_step.load [of "demo_read demo_subscribed" 0 demo_hist F] demo_loop_delta
  by (simp add: demo_hub_defs)

lemma demo_published_step: "sync_step demo_hist F demo_loaded demo_published"
  using sync_step.publish [of demo_loaded _ demo_hist F 0] demo_loop_delta
  by (simp add: demo_hub_defs)

lemma Publish_first:
  assumes "hb_lastSend h = None" "\<not> hb_timer h" "hb_subs h = [i]" "hb_chans h i = []"
  shows "hb_subs (snd (Publish now d h)) = [i]" "\<not> hb_timer (snd (Publish now d h))"
    "\<exists>e. hb_chans (snd (Publish now d h)) i = [e]" "hb_rid (snd (Publish now d h)) = hb_rid h + 1"
  using assms by (simp_all add: Publish_def armLocked_def deliverLocked_def subscriberBuffer_def Let_def)

lemma demo_loaded_hub:
  "hb_lastSend (ss_hub demo_loaded) = None" "\<not> hb_timer (ss_hub demo_loaded)" "hb_subs (ss_hub demo_loaded) = [1]"
  "hb_chans (ss_hub demo_loaded) 1 = []" "hb_rid (ss_hub demo_loaded) = 0" "cl_chan (ss_clients demo_loaded 0) = Some 1"
  by (simp_all add: demo_hub_defs)

lemma demo_published_fields:
  "cl_chan (ss_clients demo_published 0) = Some 1" "\<exists>e. hb_chans (ss_hub demo_published) 1 = [e]"
  "1 \<in> set (hb_subs (ss_hub demo_published))" "\<not> hb_timer (ss_hub demo_published)" "\<not> ss_loaded demo_published"
  "hb_rid (ss_hub demo_published) = 1"
  using Publish_first [OF demo_loaded_hub(1-4)] demo_loaded_hub(5,6)
  by (simp_all add: demo_published_def Let_def)

theorem sync_converges_witness:
  "\<exists>y. cl_chan (ss_clients y 0) = Some 1 \<and> sync_reachable demo_hist {''state''} y \<and>
     cl_store (ss_clients y 0) = view_of (demo_hist 1) \<and> cl_rid (ss_clients y 0) = 1"
proof -
  let ?y = "demo_read demo_published"
  have "sync_step demo_hist {''state''} demo_subscribed (demo_read demo_subscribed)"
    by (rule demo_read_step) (simp_all add: demo_hub_defs)
  moreover have "sync_step demo_hist {''state''} demo_published ?y"
    using demo_published_fields by (intro demo_read_step) auto
  ultimately have reach: "sync_reachable demo_hist {''state''} ?y"
    by (meson demo_subscribed_step demo_loaded_step demo_published_step rtranclp.rtrancl_into_rtrancl rtranclp.rtrancl_refl)
  have "cl_chan (ss_clients ?y 0) = Some 1" "1 \<in> set (hb_subs (ss_hub ?y))" "hb_chans (ss_hub ?y) 1 = []"
    "\<not> hb_timer (ss_hub ?y)" "\<not> ss_loaded ?y" "hb_rid (ss_hub ?y) = 1"
    using demo_published_fields
    by (auto simp: demo_read_def Let_def set_client_def)
  with sync_converges [OF reach _ demo_projected] reach show ?thesis
    by (intro exI [of _ ?y]) (auto simp: demo_hist_def)
qed

end
