(* ===== verification/SafePath.thy ===== *)
theory SafePath
  imports EngineApi DiskSpace "HOL-Library.Sublist"
begin

section \<open>Destinations and the delete executor\<close>

text \<open>
  \<open>ResolveDestination\<close>, \<open>resolveExisting\<close> and \<open>within\<close> of \<open>src/internal/fsx/safepath.go\<close>, and the
  executor of \<open>src/internal/fsx/delete.go\<close>.

  The file system is outside the program, like the engines: the record \<open>files\<close> holds the working
  directory, the answer of \<open>filepath.EvalSymlinks\<close> in a state of the outside world, and the effect of one
  \<open>os.Remove\<close>. A removal is recorded in the trace of outside calls as \<open>CallUnlink\<close>; a file that is gone
  answers \<open>ErrNotFound\<close>.
\<close>

record 'e files =
  os_Getwd :: "string option"
  os_EvalSymlinks :: "string \<Rightarrow> 'e \<Rightarrow> string option"
  os_Remove :: "string \<Rightarrow> 'e \<Rightarrow> (eng_error + unit) \<times> 'e"
  os_took :: "'e \<Rightarrow> nat"

definition e_Unlink :: "'e files \<Rightarrow> string \<Rightarrow> (('e, 'z) world_scheme, eng_error + unit) action" where
  "e_Unlink fs path = ecall (CallUnlink path) no_text (os_took fs) (os_Remove fs path)"

text \<open>\<open>filepath.Join\<close> of two elements, \<open>filepath.Abs\<close>, and the last element of \<open>filepath.Split\<close>.\<close>

definition Join :: "string \<Rightarrow> string \<Rightarrow> string" where
  "Join a b = (if a = '''' then (if b = '''' then '''' else Clean b)
     else if b = '''' then Clean a else Clean (a @ CHR ''/'' # b))"

definition Abs :: "'e files \<Rightarrow> string \<Rightarrow> string option" where
  "Abs fs path = (if IsAbs path then Some (Clean path)
     else map_option (\<lambda>wd. Join wd path) (os_Getwd fs))"

definition tail_part :: "string \<Rightarrow> string" where
  "tail_part p = drop (length (dir_part p)) p"

definition withinPath :: "string \<Rightarrow> string \<Rightarrow> bool" where
  "withinPath path rt = (if path = rt then True
     else if suffix ''/'' rt then HasPrefix path rt
     else HasPrefix path (rt @ ''/''))"

text \<open>The recursion ends: the parent of a path is shorter, or it is the path itself.\<close>

definition path_rank :: "string \<Rightarrow> nat" where
  "path_rank p = (if p = ''.'' then 0 else Suc (length p))"

lemma dir_part_rel:
  "dir_part p = '''' \<or> (\<exists>q. dir_part p = q @ [CHR ''/''] \<and> length q < length p)"
proof (cases "CHR ''/'' \<in> set p")
  case True
  let ?d = "dropWhile (\<lambda>c. c \<noteq> CHR ''/'') (rev p)"
  have ne: "?d \<noteq> []" using True by (auto simp: dropWhile_eq_Nil_conv)
  then have hd: "hd ?d = CHR ''/''" using hd_dropWhile [OF ne] by simp
  then have "dir_part p = rev (tl ?d) @ [CHR ''/'']"
    unfolding dir_part_def using ne by (metis list.collapse rev.simps(2))
  moreover have "length (tl ?d) < length p"
    using ne length_dropWhile_le [of "\<lambda>c. c \<noteq> CHR ''/''" "rev p"] by (cases ?d) auto
  ultimately show ?thesis by (metis length_rev)
next
  case False
  then have "dir_part p = ''''"
    by (auto simp: dir_part_def dropWhile_eq_Nil_conv)
  then show ?thesis ..
qed

lemma length_Clean_snoc: "q \<noteq> [] \<Longrightarrow> length (Clean (q @ [CHR ''/''])) \<le> length q"
proof (cases "IsAbs (q @ [CHR ''/''])")
  case True
  moreover assume "q \<noteq> []"
  ultimately show ?thesis using length_Clean_dir [of q] by (cases q) auto
next
  case False
  assume "q \<noteq> []"
  then have "1 \<le> length q" by (cases q) simp_all
  moreover have "length (join_path (clean_walk False [] (split_path (q @ [CHR ''/''])))) \<le> length q"
    using weight_clean_walk [of False "[]" "split_path q"] weight_split_path [of q]
    by (simp add: split_path_snoc clean_walk_snoc_Nil length_join_path)
  ultimately show ?thesis
    using False by (simp add: Clean_def Let_def)
qed

lemma path_rank_parent: "Clean (dir_part p) \<noteq> p \<Longrightarrow> path_rank (Clean (dir_part p)) < path_rank p"
proof -
  assume ne: "Clean (dir_part p) \<noteq> p"
  have root: "Clean ''/'' = ''/''" and dot: "Clean '''' = ''.''"
    by (simp_all add: Clean_def Let_def IsAbs_iff)
  from dir_part_rel [of p] show ?thesis
  proof (elim disjE exE conjE)
    assume "dir_part p = ''''"
    with ne dot show ?thesis by (auto simp: path_rank_def)
  next
    fix q assume q: "dir_part p = q @ [CHR ''/'']" "length q < length p"
    show ?thesis
    proof (cases "q = []")
      case True
      with q ne root have "dir_part p = ''/''" "p \<noteq> ''/''" "p \<noteq> []" by auto
      moreover have "p \<noteq> ''.''"
        using q(1) by (auto simp: dir_part_def)
      ultimately show ?thesis
        using root by (cases p) (auto simp: path_rank_def dir_part_def split: if_splits)
    next
      case False
      then have "p \<noteq> ''.''" using q(2) by auto
      with length_Clean_snoc [OF False] q show ?thesis by (simp add: path_rank_def)
    qed
  qed
qed

function resolveExisting :: "'e files \<Rightarrow> 'e \<Rightarrow> string \<Rightarrow> string option" where
  "resolveExisting fs st path = (case os_EvalSymlinks fs path st of
      Some resolved \<Rightarrow> Some resolved
    | None \<Rightarrow>
        let parent = Clean (dir_part path) in
        if parent = path then None
        else (case resolveExisting fs st parent of
            None \<Rightarrow> None
          | Some resolvedParent \<Rightarrow> Some (Join resolvedParent (tail_part path))))"
  by pat_completeness auto
termination
  by (relation "measure (\<lambda>(fs, st, p). path_rank p)") (auto intro: path_rank_parent)

declare resolveExisting.simps [simp del]

fun find_root :: "'e files \<Rightarrow> 'e \<Rightarrow> string \<Rightarrow> string list \<Rightarrow> (string \<times> string) option" where
  "find_root fs st resolved [] = None"
| "find_root fs st resolved (configured # roots) = (case resolveExisting fs st (Clean configured) of
      None \<Rightarrow> find_root fs st resolved roots
    | Some resolvedRoot \<Rightarrow>
        if withinPath resolved resolvedRoot then Some (resolvedRoot, resolved) else find_root fs st resolved roots)"

definition ResolveDestinationRoot :: "'e files \<Rightarrow> 'e \<Rightarrow> string list \<Rightarrow> string \<Rightarrow> (string \<times> string) option" where
  "ResolveDestinationRoot fs st roots requested =
     (if roots = [] then None
      else if requested = '''' then Some (Clean (hd roots), Clean (hd roots))
      else (case Abs fs requested of
          None \<Rightarrow> None
        | Some full \<Rightarrow> (case resolveExisting fs st full of
            None \<Rightarrow> None
          | Some resolved \<Rightarrow> find_root fs st resolved roots)))"

definition ResolveDestination :: "'e files \<Rightarrow> 'e \<Rightarrow> string list \<Rightarrow> string \<Rightarrow> string option" where
  "ResolveDestination fs st roots requested = map_option snd (ResolveDestinationRoot fs st roots requested)"

subsection \<open>The executor\<close>

record target =
  tg_Path :: string
  tg_Bytes :: int

record delete_result =
  dr_Deleted :: bool
  dr_DeleteData :: bool
  dr_FilesUnlinked :: nat
  dr_BytesUnlinked :: int
  dr_Missing :: nat

datatype delete_error = DeleteCtx | DeletePathRejected string

text \<open>One answer of the kernel, counted.\<close>

definition count_unlink :: "target \<Rightarrow> eng_error + unit \<Rightarrow> delete_result \<Rightarrow> delete_result" where
  "count_unlink t r d = (case r of
      Inr _ \<Rightarrow> d\<lparr>dr_FilesUnlinked := Suc (dr_FilesUnlinked d),
                 dr_BytesUnlinked := wrap64 (dr_BytesUnlinked d + tg_Bytes t)\<rparr>
    | Inl err \<Rightarrow> if err = ErrNotFound then d\<lparr>dr_Missing := Suc (dr_Missing d)\<rparr> else d)"

fun unlink_targets :: "'e files \<Rightarrow> target list \<Rightarrow> delete_result \<Rightarrow> (('e, 'z) world_scheme, delete_result) action" where
  "unlink_targets fs [] d = ret d"
| "unlink_targets fs (t # ts) d = do {
     r \<leftarrow> e_Unlink fs (tg_Path t);
     unlink_targets fs ts (count_unlink t r d)
   }"

definition removeTaskDir :: "'e files \<Rightarrow> string list \<Rightarrow> string \<Rightarrow> (('e, 'z) world_scheme, unit) action" where
  "removeTaskDir fs roots taskDir =
     (if taskDir = '''' then ret ()
      else do {
        st \<leftarrow> reader w_eng;
        if ResolveDestination fs st roots taskDir = None then ret ()
        else do { _ \<leftarrow> e_Unlink fs taskDir; ret () }
      })"

definition DeleteData ::
  "'e files \<Rightarrow> string list \<Rightarrow> string \<Rightarrow> target list \<Rightarrow> (('e, 'z) world_scheme, delete_error + delete_result) action" where
  "DeleteData fs roots taskDir targets = do {
     gone \<leftarrow> reader ctx_done;
     if gone then ret (Inl DeleteCtx)
     else do {
       st \<leftarrow> reader w_eng;
       case List.find (\<lambda>t. ResolveDestination fs st roots (tg_Path t) = None) targets of
         Some t \<Rightarrow> ret (Inl (DeletePathRejected (tg_Path t)))
       | None \<Rightarrow> do {
           d \<leftarrow> unlink_targets fs targets \<lparr>dr_Deleted = True, dr_DeleteData = True, dr_FilesUnlinked = 0,
             dr_BytesUnlinked = 0, dr_Missing = 0\<rparr>;
           _ \<leftarrow> removeTaskDir fs roots taskDir;
           ret (Inr d)
         }
     }
   }"

subsection \<open>Containment\<close>

text \<open>A cleaned absolute path is the list of its elements, none of them empty, \<open>.\<close> or \<open>..\<close>.\<close>

definition clean_abs :: "string \<Rightarrow> bool" where
  "clean_abs p \<longleftrightarrow> IsAbs p \<and> Clean p = p"

definition elements :: "string \<Rightarrow> string list" where
  "elements p = clean_walk True [] (split_path p)"

definition plain :: "string \<Rightarrow> bool" where
  "plain c \<longleftrightarrow> c \<noteq> '''' \<and> c \<noteq> ''.'' \<and> c \<noteq> ''..'' \<and> CHR ''/'' \<notin> set c"

lemma split_path_no_slash: "c \<in> set (split_path p) \<Longrightarrow> CHR ''/'' \<notin> set c"
  by (induction p arbitrary: c) (auto split: list.splits if_splits)

lemma clean_walk_plain:
  "\<forall>c \<in> set acc. plain c \<Longrightarrow> \<forall>c \<in> set cs. CHR ''/'' \<notin> set c \<Longrightarrow> \<forall>c \<in> set (clean_walk True acc cs). plain c"
proof (induction cs arbitrary: acc)
  case (Cons c cs)
  show ?case
  proof (cases "c = '''' \<or> c = ''.''")
    case True
    then show ?thesis using Cons by auto
  next
    case keep: False
    show ?thesis
    proof (cases "c = ''..''")
      case True
      have "\<forall>x \<in> set (tl acc). plain x" using Cons.prems(1) by (cases acc) auto
      with True Cons.prems Cons.IH [of "tl acc"] show ?thesis
        by (cases acc) (auto simp: plain_def)
    next
      case False
      with keep Cons.prems Cons.IH [of "c # acc"] show ?thesis by (simp add: plain_def)
    qed
  qed
qed simp

lemma elements_plain: "\<forall>c \<in> set (elements p). plain c"
  unfolding elements_def by (rule clean_walk_plain) (auto dest: split_path_no_slash)

lemma clean_abs_join: "clean_abs p \<Longrightarrow> p = CHR ''/'' # join_path (elements p)"
  by (auto simp: clean_abs_def Clean_def Let_def elements_def)

lemma suffix_slash: "suffix ''/'' x \<longleftrightarrow> x \<noteq> [] \<and> last x = CHR ''/''"
  by (cases x rule: rev_cases) (auto simp: suffix_def)

lemma join_path_append: "xs \<noteq> [] \<Longrightarrow> ys \<noteq> [] \<Longrightarrow> join_path (xs @ ys) = join_path xs @ CHR ''/'' # join_path ys"
proof (induction xs rule: join_path.induct)
  case (2 p)
  then show ?case by (cases ys) simp_all
qed simp_all

lemma split_path_append: "split_path (xs @ CHR ''/'' # ys) = split_path xs @ split_path ys"
  by (induction xs) (auto split: list.split simp: append_eq_Cons_conv)

lemma split_path_plain: "CHR ''/'' \<notin> set c \<Longrightarrow> split_path c = [c]"
  by (induction c) auto

lemma split_join: "cs \<noteq> [] \<Longrightarrow> \<forall>c \<in> set cs. CHR ''/'' \<notin> set c \<Longrightarrow> split_path (join_path cs) = cs"
  by (induction cs rule: join_path.induct) (auto simp: split_path_plain split_path_append)

lemma last_join: "cs \<noteq> [] \<Longrightarrow> \<forall>c \<in> set cs. plain c \<Longrightarrow> join_path cs \<noteq> [] \<and> last (join_path cs) \<noteq> CHR ''/''"
proof (induction cs rule: join_path.induct)
  case (2 p)
  then show ?case by (cases p rule: rev_cases) (auto simp: plain_def)
next
  case (3 p q qs)
  then show ?case by (auto simp del: join_path.simps(2))
qed simp

lemma withinPath_iff:
  assumes "clean_abs path" "clean_abs rt"
  shows "withinPath path rt \<longleftrightarrow> prefix (elements rt) (elements path)"
proof -
  let ?p = "elements path" and ?r = "elements rt"
  have p: "path = CHR ''/'' # join_path ?p" and r: "rt = CHR ''/'' # join_path ?r"
    using assms clean_abs_join by blast+
  have plain: "\<forall>c \<in> set ?p. plain c" "\<forall>c \<in> set ?r. plain c"
    by (rule elements_plain)+
  show ?thesis
  proof (cases "?r = []")
    case True
    with r have rt: "rt = ''/''" by simp
    have "HasPrefix path ''/''" using assms(1) by (simp add: clean_abs_def IsAbs_def)
    with rt True show ?thesis by (simp add: withinPath_def suffix_slash)
  next
    case False
    have "\<not> suffix ''/'' rt"
      using last_join [OF False plain(2)] by (subst r) (simp add: suffix_slash)
    then have "withinPath path rt \<longleftrightarrow> ?p = ?r \<or> (\<exists>t. join_path ?p = join_path ?r @ CHR ''/'' # t)"
      unfolding withinPath_def HasPrefix_iff using p r assms by (metis Cons_eq_appendI append.assoc append_Cons append_Nil list.inject)
    also have "\<dots> \<longleftrightarrow> prefix ?r ?p"
    proof
      assume "?p = ?r \<or> (\<exists>t. join_path ?p = join_path ?r @ CHR ''/'' # t)"
      then show "prefix ?r ?p"
      proof
        assume "\<exists>t. join_path ?p = join_path ?r @ CHR ''/'' # t"
        then obtain t where t: "join_path ?p = join_path ?r @ CHR ''/'' # t" ..
        then have ne: "?p \<noteq> []" by auto
        have "?p = split_path (join_path ?r @ CHR ''/'' # t)"
          using split_join [OF ne] plain(1) t by (simp add: plain_def)
        also have "\<dots> = ?r @ split_path t"
          using split_join [OF False] plain(2) by (simp add: split_path_append plain_def)
        finally show ?thesis by (metis prefixI)
      qed simp
    next
      assume "prefix ?r ?p"
      then obtain qs where "?p = ?r @ qs" by (auto simp: prefix_def)
      then show "?p = ?r \<or> (\<exists>t. join_path ?p = join_path ?r @ CHR ''/'' # t)"
        using join_path_append [OF False, of qs] by (cases "qs = []") auto
    qed
    finally show ?thesis .
  qed
qed

lemma clean_walk_keeps: "\<forall>c \<in> set cs. plain c \<Longrightarrow> clean_walk True acc cs = rev acc @ cs"
  by (induction cs arbitrary: acc) (auto simp: plain_def)

lemma clean_abs_Clean: "IsAbs p \<Longrightarrow> clean_abs (Clean p)"
proof -
  assume p: "IsAbs p"
  let ?es = "elements p"
  have eq: "Clean p = CHR ''/'' # join_path ?es"
    using p by (simp add: Clean_def Let_def elements_def)
  have "elements (CHR ''/'' # join_path ?es) = ?es"
  proof (cases "?es = []")
    case True
    then show ?thesis by (simp add: elements_def)
  next
    case False
    with split_join [OF False] elements_plain [of p] have "split_path (join_path ?es) = ?es"
      by (simp add: plain_def)
    then show ?thesis
      using clean_walk_keeps [OF elements_plain, of "[]" p] by (simp add: elements_def [of "CHR ''/'' # _"])
  qed
  then show ?thesis
    unfolding eq by (simp add: clean_abs_def Clean_def Let_def IsAbs_iff elements_def)
qed

lemma clean_abs_Join: "clean_abs a \<Longrightarrow> clean_abs (Join a b)"
  by (auto simp: Join_def clean_abs_def IsAbs_iff intro: clean_abs_Clean [unfolded clean_abs_def, THEN conjunct2])
    (simp_all add: Clean_def Let_def IsAbs_iff)

text \<open>\<open>EvalSymlinks\<close> answers a cleaned absolute path for one, as its documentation says.\<close>

definition eval_clean :: "'e files \<Rightarrow> 'e \<Rightarrow> bool" where
  "eval_clean fs st \<longleftrightarrow> (\<forall>p r. clean_abs p \<longrightarrow> os_EvalSymlinks fs p st = Some r \<longrightarrow> clean_abs r)"

lemma resolveExisting_clean:
  "eval_clean fs st \<Longrightarrow> clean_abs path \<Longrightarrow> resolveExisting fs st path = Some r \<Longrightarrow> clean_abs r"
proof (induction fs st path arbitrary: r rule: resolveExisting.induct)
  case (1 fs st path)
  have parent: "clean_abs (Clean (dir_part path))"
    using 1(3) IsAbs_Dir [of path] dir_part_abs [of path] by (metis clean_abs_Clean clean_abs_def)
  from 1 parent show ?case
    by (subst (asm) (2) resolveExisting.simps)
      (auto simp: eval_clean_def Let_def intro: clean_abs_Join split: option.splits if_splits)
qed

lemma clean_abs_Abs:
  "(\<And>wd. os_Getwd fs = Some wd \<Longrightarrow> IsAbs wd) \<Longrightarrow> Abs fs path = Some full \<Longrightarrow> clean_abs full"
  by (auto simp: Abs_def intro: clean_abs_Clean split: if_splits)
    (auto simp: Join_def IsAbs_iff intro!: clean_abs_Clean split: if_splits)

lemma find_root_iff:
  assumes "eval_clean fs st" "clean_abs p" "\<forall>rt \<in> set roots. IsAbs rt"
  shows "map_option snd (find_root fs st p roots) =
    (if \<exists>rt \<in> set roots. \<exists>r. resolveExisting fs st (Clean rt) = Some r \<and> prefix (elements r) (elements p)
     then Some p else None)"
  using assms(3)
proof (induction roots)
  case (Cons rt roots)
  show ?case
  proof (cases "resolveExisting fs st (Clean rt)")
    case None
    with Cons show ?thesis by simp
  next
    case (Some r)
    then have "clean_abs r"
      using resolveExisting_clean [OF assms(1) _ Some] clean_abs_Clean [of rt] Cons.prems by simp
    note inside = withinPath_iff [OF assms(2) this]
    have "map_option snd (find_root fs st p roots) = (if \<exists>rt \<in> set roots. \<exists>r.
        resolveExisting fs st (Clean rt) = Some r \<and> prefix (elements r) (elements p) then Some p else None)"
      using Cons by simp
    then show ?thesis
      using Some inside by (cases "prefix (elements r) (elements p)") (simp_all split: if_split)
  qed
qed simp

text \<open>
  C10. A destination is accepted exactly when it lies inside a configured root after symlink resolution,
  as lists of path elements: the elements of the resolved root are a prefix of those of the answer, and no
  element of the answer is \<open>..\<close>. So no request can name a path outside the roots by a link, by \<open>..\<close>, or by
  a root's name as a mere prefix (\<open>/data/iso2\<close> for \<open>/data/iso\<close>). The roots and the working directory are
  absolute, and \<open>EvalSymlinks\<close> answers cleaned absolute paths.
\<close>

theorem ResolveDestination_contained:
  assumes "eval_clean fs st" and "\<And>wd. os_Getwd fs = Some wd \<Longrightarrow> IsAbs wd" and "\<forall>rt \<in> set roots. IsAbs rt"
    and "requested \<noteq> ''''"
  shows "ResolveDestination fs st roots requested = Some resolved \<longleftrightarrow>
    (\<exists>full. Abs fs requested = Some full \<and> resolveExisting fs st full = Some resolved) \<and> ''..'' \<notin> set (elements resolved) \<and>
    (\<exists>rt \<in> set roots. \<exists>r. resolveExisting fs st (Clean rt) = Some r \<and> prefix (elements r) (elements resolved))"
proof -
  have dots: "''..'' \<notin> set (elements resolved)"
    using elements_plain [of resolved] by (auto simp: plain_def)
  show ?thesis
  proof (cases "Abs fs requested")
    case None
    with assms(4) show ?thesis by (simp add: ResolveDestination_def ResolveDestinationRoot_def)
  next
    case (Some full)
    show ?thesis
    proof (cases "resolveExisting fs st full")
      case None
      with Some assms(4) show ?thesis by (simp add: ResolveDestination_def ResolveDestinationRoot_def)
    next
      case p: (Some p)
      have "clean_abs p"
        by (rule resolveExisting_clean [OF assms(1) clean_abs_Abs [OF assms(2) Some] p])
      with Some p assms(4) dots find_root_iff [OF assms(1) _ assms(3)] show ?thesis
        by (cases "roots = []") (auto simp: ResolveDestination_def ResolveDestinationRoot_def)
    qed
  qed
qed

lemma resolve_up: "resolveExisting fs st (Clean (dir_part p)) \<noteq> None \<Longrightarrow> resolveExisting fs st p \<noteq> None"
  by (cases "Clean (dir_part p) = p") (auto simp: resolveExisting.simps [of fs st p] Let_def split: option.split)

lemma resolve_ancestor:
  "os_EvalSymlinks fs (((\<lambda>q. Clean (dir_part q)) ^^ k) p) st \<noteq> None \<Longrightarrow> resolveExisting fs st p \<noteq> None"
proof (induction k arbitrary: p)
  case 0
  then show ?case by (auto simp: resolveExisting.simps [of fs st p])
next
  case (Suc k)
  then have "resolveExisting fs st (Clean (dir_part p)) \<noteq> None"
    by (simp only: funpow_Suc_right o_def)
  then show ?case by (rule resolve_up)
qed

lemma resolve_reaches:
  "resolveExisting fs st p \<noteq> None \<Longrightarrow>
   \<exists>k \<le> path_rank p. os_EvalSymlinks fs (((\<lambda>q. Clean (dir_part q)) ^^ k) p) st \<noteq> None"
proof (induction fs st p rule: resolveExisting.induct)
  case (1 fs st p)
  show ?case
  proof (cases "os_EvalSymlinks fs p st")
    case None
    with 1(2) have up: "Clean (dir_part p) \<noteq> p" "resolveExisting fs st (Clean (dir_part p)) \<noteq> None"
      by (auto simp: resolveExisting.simps [of fs st p] Let_def split: if_splits option.splits)
    then obtain k where "k \<le> path_rank (Clean (dir_part p))"
      "os_EvalSymlinks fs (((\<lambda>q. Clean (dir_part q)) ^^ k) (Clean (dir_part p))) st \<noteq> None"
      using 1(1) [OF None refl] by blast
    with path_rank_parent [OF up(1)] show ?thesis
      by (intro exI [of _ "Suc k"]) (simp add: funpow_Suc_right del: funpow.simps)
  qed (auto intro: exI [of _ 0])
qed

text \<open>
  C40. The search for an existing ancestor ends for every path, relative or malformed ones included, within
  as many steps as the path is long: it succeeds exactly when one of those ancestors resolves.
\<close>

theorem resolveExisting_terminates:
  "resolveExisting fs st p \<noteq> None \<longleftrightarrow>
    (\<exists>k \<le> Suc (length p). os_EvalSymlinks fs (((\<lambda>q. Clean (dir_part q)) ^^ k) p) st \<noteq> None)"
proof
  assume "resolveExisting fs st p \<noteq> None"
  moreover have "path_rank p \<le> Suc (length p)" by (simp add: path_rank_def)
  ultimately show "\<exists>k \<le> Suc (length p). os_EvalSymlinks fs (((\<lambda>q. Clean (dir_part q)) ^^ k) p) st \<noteq> None"
    using resolve_reaches [of fs st p] le_trans by blast
next
  assume "\<exists>k \<le> Suc (length p). os_EvalSymlinks fs (((\<lambda>q. Clean (dir_part q)) ^^ k) p) st \<noteq> None"
  then obtain k where "os_EvalSymlinks fs (((\<lambda>q. Clean (dir_part q)) ^^ k) p) st \<noteq> None" by blast
  then show "resolveExisting fs st p \<noteq> None" by (rule resolve_ancestor)
qed

text \<open>The unlinks, one per target and in order, and what is counted.\<close>

definition shown_unlink :: "eng_error + unit \<Rightarrow> eng_error + string" where
  "shown_unlink r = map_sum (\<lambda>x. x) no_text r"

lemma run_e_Unlink:
  "run_state (e_Unlink fs path) w = (a, w') \<Longrightarrow> w_calls w' = w_calls w @ [(CallUnlink path, shown_unlink a)]"
  by (auto simp: e_Unlink_def ecall_def shown_unlink_def split: prod.splits)

definition tally :: "(target \<times> (eng_error + unit)) list \<Rightarrow> delete_result \<Rightarrow> delete_result" where
  "tally tas d = d\<lparr>dr_FilesUnlinked := dr_FilesUnlinked d + length (filter (\<lambda>ta. snd ta = Inr ()) tas),
     dr_BytesUnlinked := wrap64 (dr_BytesUnlinked d + sum_list (map (\<lambda>ta. if snd ta = Inr () then tg_Bytes (fst ta) else 0) tas)),
     dr_Missing := dr_Missing d + length (filter (\<lambda>ta. snd ta = Inl ErrNotFound) tas)\<rparr>"

lemma wrap64_add: "wrap64 (wrap64 x + y) = wrap64 (x + y)"
proof -
  have "(wrap64 x + y + 2 ^ 63) mod 2 ^ 64 = ((x + 2 ^ 63) mod 2 ^ 64 + y) mod 2 ^ 64"
    by (simp add: wrap64_def)
  also have "\<dots> = (x + 2 ^ 63 + y) mod 2 ^ 64"
    by (rule mod_add_left_eq)
  also have "\<dots> = (x + y + 2 ^ 63) mod 2 ^ 64"
    by (simp only: ac_simps)
  finally show ?thesis by (simp add: wrap64_def)
qed

lemma run_unlink_targets:
  "run_state (unlink_targets fs ts d) w = (d', w') \<Longrightarrow> int64 (dr_BytesUnlinked d) \<Longrightarrow>
   \<exists>as. length as = length ts \<and> d' = tally (zip ts as) d \<and>
     w_calls w' = w_calls w @ map2 (\<lambda>t a. (CallUnlink (tg_Path t), shown_unlink a)) ts as"
proof (induction ts arbitrary: d w)
  case Nil
  then show ?case by (simp add: tally_def)
next
  case (Cons t ts)
  obtain a w1 where u: "run_state (e_Unlink fs (tg_Path t)) w = (a, w1)" by fastforce
  with Cons.prems(1) have "run_state (unlink_targets fs ts (count_unlink t a d)) w1 = (d', w')"
    by (simp add: State_Monad.bind_def)
  moreover have "int64 (dr_BytesUnlinked (count_unlink t a d))"
    using Cons.prems(2) by (simp add: count_unlink_def split: sum.split)
  ultimately obtain as where "length as = length ts" "d' = tally (zip ts as) (count_unlink t a d)"
    "w_calls w' = w_calls w1 @ map2 (\<lambda>t a. (CallUnlink (tg_Path t), shown_unlink a)) ts as"
    using Cons.IH by blast
  moreover have "tally tas (count_unlink t a d) = tally ((t, a) # tas) d" for tas
    by (cases a) (auto simp: tally_def count_unlink_def wrap64_add ac_simps)
  ultimately show ?case
    using run_e_Unlink [OF u] by (intro exI [of _ "a # as"]) simp
qed

lemma run_removeTaskDir:
  "run_state (removeTaskDir fs roots dir) w = (u, w') \<Longrightarrow>
   w_calls w' = w_calls w \<or>
   (ResolveDestination fs (w_eng w) roots dir \<noteq> None \<and> (\<exists>a. w_calls w' = w_calls w @ [(CallUnlink dir, a)]))"
  by (auto simp: removeTaskDir_def State_Monad.bind_def dest: run_e_Unlink split: if_splits prod.splits)

text \<open>
  C11. The only irreversible operation of the product unlinks what it was given and nothing else. Whatever
  the file system does: unless every target resolves inside a root, nothing is unlinked and the world is
  unchanged; otherwise the calls are exactly one unlink per target, in order, and at most one of the task's
  own directory, which resolves inside a root too. The counts of the answer are those of the kernel's
  answers: a file that is gone is missing and not an error, and a failed unlink stops nothing.
\<close>

theorem DeleteData_confined:
  fixes w :: "('e, 'z) world_scheme"
  assumes "run_state (DeleteData fs roots dir targets) w = (r, w')"
  shows "case r of
      Inl _ \<Rightarrow> w' = w
    | Inr d \<Rightarrow> (\<forall>t \<in> set targets. ResolveDestination fs (w_eng w) roots (tg_Path t) \<noteq> None) \<and>
        (\<exists>as (w1 :: ('e, 'z) world_scheme) rest. length as = length targets \<and>
           w_calls w1 = w_calls w @ map2 (\<lambda>t a. (CallUnlink (tg_Path t), shown_unlink a)) targets as \<and>
           w_calls w' = w_calls w1 @ rest \<and>
           (rest = [] \<or> ResolveDestination fs (w_eng w1) roots dir \<noteq> None \<and> (\<exists>a. rest = [(CallUnlink dir, a)])) \<and>
           dr_FilesUnlinked d = length (filter (\<lambda>a. a = Inr ()) as) \<and>
           dr_Missing d = length (filter (\<lambda>a. a = Inl ErrNotFound) as) \<and>
           dr_BytesUnlinked d = wrap64 (\<Sum>(t, a)\<leftarrow>zip targets as. if a = Inr () then tg_Bytes t else 0))"
proof (cases "ctx_done w \<or> List.find (\<lambda>t. ResolveDestination fs (w_eng w) roots (tg_Path t) = None) targets \<noteq> None")
  case True
  then show ?thesis
    using assms by (auto simp: DeleteData_def State_Monad.bind_def split: if_splits option.splits)
next
  case False
  then have inside: "\<forall>t \<in> set targets. ResolveDestination fs (w_eng w) roots (tg_Path t) \<noteq> None"
    by (simp add: find_None_iff)
  obtain d w1 where u: "run_state (unlink_targets fs targets \<lparr>dr_Deleted = True, dr_DeleteData = True,
      dr_FilesUnlinked = 0, dr_BytesUnlinked = 0, dr_Missing = 0\<rparr>) w = (d, w1)" by fastforce
  obtain u' w2 where rm: "run_state (removeTaskDir fs roots dir) w1 = (u', w2)" by (meson surj_pair)
  have r: "r = Inr d" "w' = w2"
    using assms False u rm by (auto simp: DeleteData_def State_Monad.bind_def split: if_splits option.splits)
  obtain as where as: "length as = length targets"
    "w_calls w1 = w_calls w @ map2 (\<lambda>t a. (CallUnlink (tg_Path t), shown_unlink a)) targets as"
    and d: "d = tally (zip targets as) \<lparr>dr_Deleted = True, dr_DeleteData = True,
      dr_FilesUnlinked = 0, dr_BytesUnlinked = 0, dr_Missing = 0\<rparr>"
    using run_unlink_targets [OF u] by (auto simp: int64_def)
  have count: "length (filter (\<lambda>ta. Q (snd ta)) (zip targets as)) = length (filter Q as)" for Q
    using as(1) by (induction targets as rule: list_induct2') auto
  have bytes: "(\<Sum>ta\<leftarrow>zip targets as. if snd ta = Inr () then tg_Bytes (fst ta) else 0) =
      (\<Sum>(t, a)\<leftarrow>zip targets as. if a = Inr () then tg_Bytes t else 0)"
    by (simp add: case_prod_unfold)
  obtain rest where rest: "w_calls w2 = w_calls w1 @ rest"
    "rest = [] \<or> ResolveDestination fs (w_eng w1) roots dir \<noteq> None \<and> (\<exists>a. rest = [(CallUnlink dir, a)])"
    using run_removeTaskDir [OF rm] by auto
  have counts: "dr_FilesUnlinked d = length (filter (\<lambda>a. a = Inr ()) as)"
    "dr_Missing d = length (filter (\<lambda>a. a = Inl ErrNotFound) as)"
    "dr_BytesUnlinked d = wrap64 (\<Sum>(t, a)\<leftarrow>zip targets as. if a = Inr () then tg_Bytes t else 0)"
    using count [of "\<lambda>a. a = Inr ()"] count [of "\<lambda>a. a = Inl ErrNotFound"] bytes by (simp_all add: d tally_def)
  show ?thesis
    unfolding r sum.case
    by (intro conjI exI [of _ as] exI [of _ w1] exI [of _ rest]) (rule inside as rest counts)+
qed

text \<open>A concrete disk: the state is the list of existing files, below one root; the link \<open>/data/out\<close> leaves it.\<close>

definition demo_files :: "string list files" where
  "demo_files = \<lparr>os_Getwd = Some ''/'',
     os_EvalSymlinks = (\<lambda>p st. if p = ''/data/out'' then Some ''/etc''
       else if p = ''/'' \<or> p = ''/data'' \<or> p = ''/etc'' then Some p else None),
     os_Remove = (\<lambda>p st. if p \<in> set st then (Inr (), remove1 p st) else (Inl ErrNotFound, st)),
     os_took = (\<lambda>_. 0)\<rparr>"

lemma demo_eval_clean: "eval_clean demo_files st"
proof -
  have "clean_abs ''/etc''" by code_simp
  then show ?thesis by (auto simp: eval_clean_def demo_files_def)
qed

lemma demo_resolve: "resolveExisting demo_files [] ''/data/iso/a'' = Some ''/data/iso/a''"
  by code_simp

theorem ResolveDestination_contained_witness:
  "ResolveDestination demo_files [] [''/data''] ''/data/x/../iso/a'' = Some ''/data/iso/a'' \<and>
   ResolveDestination demo_files [] [''/data''] ''/data/out/a'' = None \<and>
   ResolveDestination demo_files [] [''/data''] ''/data2'' = None"
proof -
  have wd: "\<And>wd. os_Getwd demo_files = Some wd \<Longrightarrow> IsAbs wd"
    by (simp add: demo_files_def IsAbs_iff)
  have "ResolveDestination demo_files [] [''/data''] ''/data/x/../iso/a'' = Some ''/data/iso/a''"
  proof (subst ResolveDestination_contained [OF demo_eval_clean wd])
    show "(\<exists>full. Abs demo_files ''/data/x/../iso/a'' = Some full \<and>
        resolveExisting demo_files [] full = Some ''/data/iso/a'') \<and> ''..'' \<notin> set (elements ''/data/iso/a'') \<and>
      (\<exists>rt \<in> set [''/data'']. \<exists>r. resolveExisting demo_files [] (Clean rt) = Some r \<and>
        prefix (elements r) (elements ''/data/iso/a''))"
      by (intro conjI bexI [of _ "''/data''"] exI [of _ "''/data''"] exI [of _ "''/data/iso/a''"]) code_simp+
  qed (simp_all add: IsAbs_iff)
  moreover have "ResolveDestination demo_files [] [''/data''] ''/data/out/a'' = None"
    "ResolveDestination demo_files [] [''/data''] ''/data2'' = None"
    by code_simp+
  ultimately show ?thesis by blast
qed

definition demo_disk_world :: "string list world" where
  "demo_disk_world = store.extend
     \<lparr>s_tasks = [], s_events = [], s_files = [], s_trackers = [], s_now = 0, s_sched = [], s_ulid = (\<lambda>_. ''''),
      s_nid = 0, s_hook = False, s_hooked = []\<rparr>
     \<lparr>w_eng = [''/data/a'', ''/data/keep''], w_calls = [], w_lease = NewRegistry, w_deadline = None\<rparr>"

definition demo_targets :: "target list" where
  "demo_targets = [\<lparr>tg_Path = ''/data/a'', tg_Bytes = 7\<rparr>, \<lparr>tg_Path = ''/data/b'', tg_Bytes = 5\<rparr>]"

theorem DeleteData_confined_witness:
  "w_calls (snd (run_state (DeleteData demo_files [''/data''] '''' demo_targets) demo_disk_world)) \<noteq> [] \<and>
   ResolveDestination demo_files (w_eng demo_disk_world) [''/data''] ''/data/a'' \<noteq> None"
proof -
  let ?m = "DeleteData demo_files [''/data''] '''' demo_targets"
  have run: "fst (run_state ?m demo_disk_world) = Inr \<lparr>dr_Deleted = True, dr_DeleteData = True, dr_FilesUnlinked = 1,
      dr_BytesUnlinked = 7, dr_Missing = 1\<rparr>"
    by code_simp
  obtain as and w1 :: "string list world" and rest where as: "length as = length demo_targets"
    and w1: "w_calls w1 = w_calls demo_disk_world @ map2 (\<lambda>t a. (CallUnlink (tg_Path t), shown_unlink a)) demo_targets as"
    and calls: "w_calls (snd (run_state ?m demo_disk_world)) = w_calls w1 @ rest"
    and inside: "\<forall>t \<in> set demo_targets. ResolveDestination demo_files (w_eng demo_disk_world) [''/data''] (tg_Path t) \<noteq> None"
    using DeleteData_confined [of demo_files "[''/data'']" "''''" demo_targets demo_disk_world, OF prod.collapse [symmetric]]
    unfolding run sum.case by (elim conjE exE) (rule that; assumption)
  from as have "map2 (\<lambda>t a. (CallUnlink (tg_Path t), shown_unlink a)) demo_targets as \<noteq> []"
    by (cases as) (auto simp: demo_targets_def)
  with calls w1 inside show ?thesis
    by (simp add: demo_targets_def)
qed

end
