(* ===== verification/TaskActions.thy ===== *)
theory TaskActions
  imports Reconcile SafePath
begin

section \<open>The operator's actions\<close>

text \<open>
  \<open>src/internal/api/tasks_actions.go\<close> (\<open>Actions\<close> and its nine actions) and \<open>tasks_delete.go\<close>
  (\<open>DeleteTask\<close>): what an operator does to tasks beside the admission pass and the reconciler.

  \<^item> \<open>engines\<close> are the registered engines, \<open>fs\<close> the file system and \<open>roots\<close> the configured data roots;
    \<open>settings\<close> are the rows of the settings table the batch reads.
  \<^item> \<open>env (2 * i)\<close> is what other goroutines do before the i-th id of a batch is handled (the rows were
    loaded before that), and \<open>env (2 * i + 1)\<close> what they do while its action waits for the lease.
  \<^item> \<open>env (2 * i + 1)\<close> also is what they do between the engine calls and the unlinks of a removal.
  \<^item> A response is a problem (slug, status, detail, and the errors of a rejected path) or the body. Log lines
    and the routing of HTTP are left out; \<open>%q\<close> is plain quotes, its escapes are not modelled.
\<close>

definition actionPause :: string where "actionPause = ''pause''"
definition actionResume :: string where "actionResume = ''resume''"
definition actionRemove :: string where "actionRemove = ''remove''"
definition actionRecheck :: string where "actionRecheck = ''recheck''"
definition actionForceComplete :: string where "actionForceComplete = ''force_complete''"
definition actionQueueTop :: string where "actionQueueTop = ''queue_top''"
definition actionQueueUp :: string where "actionQueueUp = ''queue_up''"
definition actionQueueDown :: string where "actionQueueDown = ''queue_down''"
definition actionQueueBottom :: string where "actionQueueBottom = ''queue_bottom''"

definition taskActions :: "string list" where
  "taskActions = [actionPause, actionResume, actionRemove, actionRecheck, actionForceComplete,
     actionQueueTop, actionQueueUp, actionQueueDown, actionQueueBottom]"

lemmas action_names = actionPause_def actionResume_def actionRemove_def actionRecheck_def actionForceComplete_def
  actionQueueTop_def actionQueueUp_def actionQueueDown_def actionQueueBottom_def

definition maxActionIDs :: nat where "maxActionIDs = 500"

definition eventTaskRechecking :: string where "eventTaskRechecking = ''task.rechecking''"
definition eventTaskForceCompleted :: string where "eventTaskForceCompleted = ''task.force_completed''"
definition errorCodeSSRFBlocked :: string where "errorCodeSSRFBlocked = ''ssrf_blocked''"

definition SlugPathRejected :: string where "SlugPathRejected = ''/problems/path-rejected''"
definition SlugSSRFBlocked :: string where "SlugSSRFBlocked = ''/problems/ssrf-blocked''"
definition SlugNotFound :: string where "SlugNotFound = ''/problems/not-found''"
definition SlugConcurrencyLimit :: string where "SlugConcurrencyLimit = ''/problems/concurrency-limit''"
definition SlugValidationFailed :: string where "SlugValidationFailed = ''/problems/validation-failed''"
definition SlugInternal :: string where "SlugInternal = ''/problems/internal''"
definition SlugEngineUnavailable :: string where "SlugEngineUnavailable = ''/problems/engine-unavailable''"

definition detailTaskNotFound :: string where "detailTaskNotFound = ''the task does not exist''"
definition detailEngineFailed :: string where "detailEngineFailed = ''the engine did not accept the action''"
definition detailUnsupportedAction :: string where "detailUnsupportedAction = ''the engine does not support this action''"
definition detailIllegalState :: string where "detailIllegalState = ''the task's state does not allow this action''"
definition detailSSRFBlockedAction :: string where
  "detailSSRFBlockedAction = ''the task's uri was refused by the ssrf guard; remove it and submit a different uri''"
definition detailNotInQueue :: string where "detailNotInQueue = ''the task is not in the queue''"
definition detailActionFailed :: string where "detailActionFailed = ''the action could not be applied''"
definition detailTaskOpBusy :: string where "detailTaskOpBusy = ''another task operation is in progress; retry''"

record problem =
  pr_Slug :: string
  pr_Status :: nat
  pr_Detail :: string
  pr_Errors :: "(string \<times> string) list"

definition Problem :: "string \<Rightarrow> nat \<Rightarrow> string \<Rightarrow> problem" where
  "Problem slug status detail = \<lparr>pr_Slug = slug, pr_Status = status, pr_Detail = detail, pr_Errors = []\<rparr>"

definition internalFailure :: problem where
  "internalFailure = Problem SlugInternal 500 ''an internal error occurred''"

record action_result =
  res_ID :: string
  res_Ok :: bool
  res_Type :: string
  res_Detail :: string

definition actionFailure :: "string \<Rightarrow> string \<Rightarrow> string \<Rightarrow> action_result" where
  "actionFailure tid slug detail = \<lparr>res_ID = tid, res_Ok = False, res_Type = slug, res_Detail = detail\<rparr>"

definition actionOk :: "string \<Rightarrow> action_result" where
  "actionOk tid = \<lparr>res_ID = tid, res_Ok = True, res_Type = '''', res_Detail = ''''\<rparr>"

record action_task =
  at_ID :: string
  at_Engine :: string
  at_EngineRef :: "string option"
  at_State :: task_state
  at_ErrorCode :: "string option"
  at_Destination :: string

definition action_task_of :: "task \<Rightarrow> action_task" where
  "action_task_of r = \<lparr>at_ID = t_id r, at_Engine = t_engine r, at_EngineRef = t_engine_ref r, at_State = t_state r,
     at_ErrorCode = t_error_code r, at_Destination = t_destination r\<rparr>"

definition loadActionTasks :: "string list \<Rightarrow> (('e, 'z) world_scheme, problem + (string \<Rightarrow> action_task option)) action" where
  "loadActionTasks ids = do {
     r \<leftarrow> query (\<lambda>w. Inr (map_of (map (\<lambda>t. (t_id t, action_task_of t)) (filter (\<lambda>t. t_id t \<in> set ids) (s_tasks w)))));
     ret (map_sum (\<lambda>_. internalFailure) (\<lambda>x. x) r)
   }"

definition queueMove :: "string \<Rightarrow> queue_move option" where
  "queueMove action =
     (if action = actionQueueTop then Some QueueMoveTop
      else if action = actionQueueUp then Some QueueMoveUp
      else if action = actionQueueDown then Some QueueMoveDown
      else if action = actionQueueBottom then Some QueueMoveBottom
      else None)"

definition queueActions ::
  "string list \<Rightarrow> (string \<Rightarrow> action_task option) \<Rightarrow> queue_move \<Rightarrow> (('e, 'z) world_scheme, problem + action_result list) action" where
  "queueActions ids tasks move = do {
     r \<leftarrow> ReorderQueue ids move;
     case r of
       Inl _ \<Rightarrow> ret (Inl internalFailure)
     | Inr absent \<Rightarrow> ret (Inr (map (\<lambda>tid.
         if tasks tid = None then actionFailure tid SlugNotFound detailTaskNotFound
         else if tid \<in> set absent then actionFailure tid SlugValidationFailed detailNotInQueue
         else actionOk tid) ids))
   }"

subsection \<open>Shared steps\<close>

definition engineFor :: "'e engines \<Rightarrow> action_task \<Rightarrow> eng_error + 'e engine option" where
  "engineFor engines tsk = (case at_EngineRef tsk of
      None \<Rightarrow> Inr None
    | Some _ \<Rightarrow> (case engines (at_Engine tsk) of None \<Rightarrow> Inl ErrUnavailable | Some e \<Rightarrow> Inr (Some e)))"

definition engineTaskID :: "string \<Rightarrow> string option \<Rightarrow> string" where
  "engineTaskID engineName ref = (case ref of None \<Rightarrow> '''' | Some h \<Rightarrow> engineName @ '':'' @ h)"

definition engineFailure :: "string \<Rightarrow> eng_error \<Rightarrow> action_result" where
  "engineFailure tid err =
     (if err = ErrUnavailable then actionFailure tid SlugEngineUnavailable detailEngineFailed
      else if err = ErrNotSupported then actionFailure tid SlugValidationFailed detailUnsupportedAction
      else actionFailure tid SlugInternal detailActionFailed)"

definition transition_outcome :: "string \<Rightarrow> store_error + unit \<Rightarrow> action_result" where
  "transition_outcome tid r = (case r of
      Inr _ \<Rightarrow> actionOk tid
    | Inl err \<Rightarrow>
        if err = SErrNotFound then actionFailure tid SlugNotFound detailTaskNotFound
        else if err = SErrIllegalTransition \<or> err = SErrTransitionConflict
        then actionFailure tid SlugValidationFailed detailIllegalState
        else actionFailure tid SlugInternal detailActionFailed)"

definition transitionAction ::
  "action_task \<Rightarrow> task_state \<Rightarrow> string \<Rightarrow> string \<Rightarrow> (('e, 'z) world_scheme, action_result) action" where
  "transitionAction tsk target code message =
     (if at_State tsk = target then ret (actionOk (at_ID tsk))
      else do {
        r \<leftarrow> Transition (at_ID tsk) target code message;
        ret (transition_outcome (at_ID tsk) r)
      })"

definition actionOutcome :: "string \<Rightarrow> task_state \<times> string \<times> string" where
  "actionOutcome action =
     (if action = actionPause then (StatePaused, CodeTaskPaused, ''paused by user request'')
      else if action = actionResume then (StateQueued, CodeTaskResumed, ''resumed by user request'')
      else if action = actionRemove then (StateRemoved, CodeTaskRemoved, ''removed by user request'')
      else (StateCompleted, eventTaskForceCompleted, ''completed by user request''))"

definition actionEngineCall :: "string \<Rightarrow> ('e engine \<Rightarrow> string \<Rightarrow> (('e, 'z) world_scheme, eng_error + unit) action) option" where
  "actionEngineCall action =
     (if action = actionPause then Some e_Pause
      else if action = actionRemove \<or> action = actionForceComplete then Some e_Remove
      else None)"

text \<open>The lease in waiting mode under the operator's budget; \<open>others\<close> runs while the action is parked.\<close>

definition waitLease ::
  "string \<Rightarrow> (('e, 'z) world_scheme, unit) action \<Rightarrow> (('e, 'z) world_scheme, (nat \<times> nat) option) action" where
  "waitLease tid others = do {
     acq \<leftarrow> State (\<lambda>w. let (res, r) = AcquireTaskOp tid TaskOpWait (w_lease w) in (res, w\<lparr>w_lease := r\<rparr>));
     case acq of
       Acquired a t \<Rightarrow> ret (Some (a, t))
     | Busy \<Rightarrow> ret None
     | Parked a t \<Rightarrow> do {
         _ \<leftarrow> others;
         State (\<lambda>w. let (won, r) = cancelWait a t (w_lease w) in
           (if won then Some (a, t) else None, w\<lparr>w_lease := (if won then r else r\<lparr>lr_ended := t # lr_ended r\<rparr>)\<rparr>))
       }
   }"

subsection \<open>Pause\<close>

text \<open>The engine side and the state, of a row read under the lease; then the hold stamp is wiped.\<close>

definition pause_engine_first :: "'e engines \<Rightarrow> action_task \<Rightarrow> (('e, 'z) world_scheme, action_result) action" where
  "pause_engine_first engines tsk = (case engineFor engines tsk of
      Inl err \<Rightarrow> ret (engineFailure (at_ID tsk) err)
    | Inr None \<Rightarrow> transitionAction tsk StatePaused CodeTaskPaused ''paused by user request''
    | Inr (Some e) \<Rightarrow> do {
        r \<leftarrow> e_Pause e (engineTaskID (at_Engine tsk) (at_EngineRef tsk));
        case r of
          Inl err \<Rightarrow> ret (engineFailure (at_ID tsk) err)
        | Inr _ \<Rightarrow> transitionAction tsk StatePaused CodeTaskPaused ''paused by user request''
      })"

definition clear_hold_stamp :: "string \<Rightarrow> (('e, 'z) world_scheme, action_result) action" where
  "clear_hold_stamp tid = do {
     c \<leftarrow> ClearPausedHoldCode tid;
     ret (case c of
         Inr _ \<Rightarrow> actionOk tid
       | Inl err \<Rightarrow> if err = SErrNotFound then actionFailure tid SlugNotFound detailTaskNotFound
           else actionFailure tid SlugInternal detailActionFailed)
   }"

definition pause_leased :: "'e engines \<Rightarrow> string \<Rightarrow> (('e, 'z) world_scheme, action_result) action" where
  "pause_leased engines tid = do {
     cur \<leftarrow> GetTask tid;
     case cur of
       Inl err \<Rightarrow> ret (if err = SErrNotFound then actionFailure tid SlugNotFound detailTaskNotFound
         else actionFailure tid SlugInternal detailActionFailed)
     | Inr current \<Rightarrow> do {
         let reloaded = (action_task_of current)\<lparr>at_Destination := ''''\<rparr>;
         outcome \<leftarrow> (if at_State reloaded \<noteq> StatePaused then pause_engine_first engines reloaded
           else ret (actionOk tid));
         if \<not> res_Ok outcome then ret outcome else clear_hold_stamp tid
       }
   }"

definition pauseAction ::
  "'e engines \<Rightarrow> (('e, 'z) world_scheme, unit) action \<Rightarrow> action_task \<Rightarrow> (('e, 'z) world_scheme, action_result) action" where
  "pauseAction engines others tsk = do {
     lease \<leftarrow> waitLease (at_ID tsk) others;
     case lease of
       None \<Rightarrow> ret (actionFailure (at_ID tsk) SlugValidationFailed detailTaskOpBusy)
     | Some l \<Rightarrow> do {
         r \<leftarrow> pause_leased engines (at_ID tsk);
         _ \<leftarrow> releaseLease (at_ID tsk) l;
         ret r
       }
   }"

subsection \<open>Resume\<close>

definition settingMaxActiveTotal :: string where "settingMaxActiveTotal = ''max_active_total''"
definition settingMaxActivePerEngine :: string where "settingMaxActivePerEngine = ''max_active_per_engine''"
definition defaultMaxActiveTotal :: int where "defaultMaxActiveTotal = 5"
definition defaultMaxActivePerEngine :: int where "defaultMaxActivePerEngine = 3"

record concurrency_snapshot =
  snap_counts :: active_counts
  snap_limits :: limits

text \<open>The rows read, in order; a value that is no non-negative integer ends the walk.\<close>

fun read_limits :: "(string \<times> string) list \<Rightarrow> limits \<Rightarrow> limits option" where
  "read_limits [] l = Some l"
| "read_limits ((key, value) # rows) l = (case ParseInt64 value of
      None \<Rightarrow> None
    | Some v \<Rightarrow>
        if v < 0 then None
        else read_limits rows
          (if key = settingMaxActiveTotal then l\<lparr>l_MaxActiveTotal := v\<rparr>
           else if key = settingMaxActivePerEngine then l\<lparr>l_MaxActivePerEngine := v\<rparr>
           else l))"

definition loadConcurrencySnapshot ::
  "(string \<times> string) list \<Rightarrow> (('e, 'z) world_scheme, problem + concurrency_snapshot) action" where
  "loadConcurrencySnapshot settings = do {
     c \<leftarrow> CountActive;
     case c of
       Inl _ \<Rightarrow> ret (Inl internalFailure)
     | Inr counts \<Rightarrow> do {
         r \<leftarrow> query (\<lambda>_. Inr (filter (\<lambda>kv. fst kv \<in> {settingMaxActiveTotal, settingMaxActivePerEngine}) settings));
         ret (case r of
             Inl _ \<Rightarrow> Inl internalFailure
           | Inr rows \<Rightarrow> (case read_limits rows
                 \<lparr>l_MaxActiveTotal = defaultMaxActiveTotal, l_MaxActivePerEngine = defaultMaxActivePerEngine\<rparr> of
               None \<Rightarrow> Inl internalFailure
             | Some l \<Rightarrow> Inr \<lparr>snap_counts = counts, snap_limits = l\<rparr>))
       }
   }"

text \<open>The headroom answer; an accepted id spends one slot of the snapshot, which the batch shares.\<close>

definition headroom_answer :: "action_task \<Rightarrow> concurrency_snapshot \<Rightarrow> action_result \<times> concurrency_snapshot" where
  "headroom_answer tsk snap = (case Blocked (snap_limits snap) (snap_counts snap) (at_Engine tsk) of
      (True, detail) \<Rightarrow> (actionFailure (at_ID tsk) SlugConcurrencyLimit detail, snap)
    | (False, _) \<Rightarrow> (actionOk (at_ID tsk), snap\<lparr>snap_counts := Reserve (at_Engine tsk) (snap_counts snap)\<rparr>))"

definition resumeAction ::
  "action_task \<Rightarrow> task_state \<Rightarrow> string \<Rightarrow> string \<Rightarrow> concurrency_snapshot option \<Rightarrow>
   (('e, 'z) world_scheme, action_result \<times> concurrency_snapshot option) action" where
  "resumeAction tsk target code message snap = (case snap of
      None \<Rightarrow> ret (actionFailure (at_ID tsk) SlugInternal detailActionFailed, None)
    | Some sn \<Rightarrow> do {
        outcome \<leftarrow> (if at_State tsk \<noteq> target then transitionAction tsk target code message
          else ret (actionOk (at_ID tsk)));
        if \<not> res_Ok outcome then ret (outcome, snap)
        else ret (let (a, sn') = headroom_answer tsk sn in (a, Some sn'))
      })"

subsection \<open>Recheck, and removing with the data\<close>

definition recheck :: "'e engines \<Rightarrow> action_task \<Rightarrow> (('e, 'z) world_scheme, action_result) action" where
  "recheck engines tsk = (case engineFor engines tsk of
      Inl err \<Rightarrow> ret (engineFailure (at_ID tsk) err)
    | Inr None \<Rightarrow> ret (actionFailure (at_ID tsk) SlugValidationFailed detailUnsupportedAction)
    | Inr (Some e) \<Rightarrow> (case eng_Recheck e of
          None \<Rightarrow> ret (actionFailure (at_ID tsk) SlugValidationFailed detailUnsupportedAction)
        | Some f \<Rightarrow> do {
            let h = engineTaskID (at_Engine tsk) (at_EngineRef tsk);
            r \<leftarrow> e_optional e (CallRecheck h) (f h);
            case r of
              Inl err \<Rightarrow> ret (engineFailure (at_ID tsk) err)
            | Inr _ \<Rightarrow> transitionAction tsk StateChecking eventTaskRechecking ''recheck requested by user''
          }))"

definition recordedTargets :: "string \<Rightarrow> task_file list \<Rightarrow> target list" where
  "recordedTargets destination fl =
     map (\<lambda>f. \<lparr>tg_Path = Join destination (tf_path f), tg_Bytes = tf_size_bytes f\<rparr>) fl"

definition rejectedPaths :: "'e files \<Rightarrow> 'e \<Rightarrow> string list \<Rightarrow> target list \<Rightarrow> string list" where
  "rejectedPaths fs st roots targets =
     map tg_Path (filter (\<lambda>t. ResolveDestination fs st roots (tg_Path t) = None) targets)"

text \<open>\<open>filepath.Dir\<close> is \<open>Clean\<close> of the directory part.\<close>

definition ownDir :: "string \<Rightarrow> target list \<Rightarrow> string" where
  "ownDir destination targets = (case targets of
      [] \<Rightarrow> ''''
    | t # ts \<Rightarrow>
        let dir = Clean (dir_part (tg_Path t)) in
        if list_ex (\<lambda>u. Clean (dir_part (tg_Path u)) \<noteq> dir) ts then ''''
        else if dir = Clean destination then ''''
        else dir)"

definition rejected_detail :: "nat \<Rightarrow> string" where
  "rejected_detail n = Itoa (int n) @ '' recorded path(s) resolve outside every configured data root''"

definition path_error_text :: "string \<Rightarrow> string" where
  "path_error_text path = ''fsx: delete target '' @ path @ '': fsx: path rejected''"

definition stopTaskAtEngine :: "'e engines \<Rightarrow> action_task \<Rightarrow> (('e, 'z) world_scheme, eng_error + unit) action" where
  "stopTaskAtEngine engines tsk = (case engineFor engines tsk of
      Inl err \<Rightarrow> ret (Inl err)
    | Inr None \<Rightarrow> ret (Inr ())
    | Inr (Some e) \<Rightarrow> do {
        let h = engineTaskID (at_Engine tsk) (at_EngineRef tsk);
        p \<leftarrow> e_Pause e h;
        case p of Inl err \<Rightarrow> ret (Inl err) | Inr _ \<Rightarrow> e_Remove e h
      })"

definition deleted_data :: "delete_result \<Rightarrow> event_detail" where
  "deleted_data d = DeletedData (int (dr_FilesUnlinked d)) (dr_BytesUnlinked d)"

definition removeWithData ::
  "'e engines \<Rightarrow> 'e files \<Rightarrow> string list \<Rightarrow> (('e, 'z) world_scheme, unit) action \<Rightarrow> action_task \<Rightarrow>
   (('e, 'z) world_scheme, action_result) action" where
  "removeWithData engines fs roots others tsk = do {
     fl \<leftarrow> ListFiles (at_ID tsk);
     case fl of
       Inl _ \<Rightarrow> ret (actionFailure (at_ID tsk) SlugInternal detailActionFailed)
     | Inr rows \<Rightarrow> do {
         let targets = recordedTargets (at_Destination tsk) rows;
         st \<leftarrow> reader w_eng;
         let rejected = rejectedPaths fs st roots targets;
         if rejected \<noteq> [] then ret (actionFailure (at_ID tsk) SlugPathRejected (rejected_detail (length rejected)))
         else do {
           s \<leftarrow> stopTaskAtEngine engines tsk;
           case s of
             Inl err \<Rightarrow> ret (engineFailure (at_ID tsk) err)
           | Inr _ \<Rightarrow> do {
               _ \<leftarrow> others;
               d \<leftarrow> DeleteData fs roots (ownDir (at_Destination tsk) targets) targets;
               case d of
                 Inl (DeletePathRejected path) \<Rightarrow> ret (actionFailure (at_ID tsk) SlugPathRejected (path_error_text path))
               | Inl DeleteCtx \<Rightarrow> ret (actionFailure (at_ID tsk) SlugInternal detailActionFailed)
               | Inr result \<Rightarrow> do {
                   m \<leftarrow> MarkRemoved (at_ID tsk) (Some (deleted_data result));
                   ret (transition_outcome (at_ID tsk) m)
                 }
             }
         }
       }
   }"

subsection \<open>The batch\<close>

definition applyAction ::
  "'e engines \<Rightarrow> (('e, 'z) world_scheme, unit) action \<Rightarrow> action_task \<Rightarrow> string \<Rightarrow> concurrency_snapshot option \<Rightarrow>
   (('e, 'z) world_scheme, action_result \<times> concurrency_snapshot option) action" where
  "applyAction engines others tsk action snap =
     (if at_ErrorCode tsk = Some errorCodeSSRFBlocked \<and> action \<noteq> actionRemove
      then ret (actionFailure (at_ID tsk) SlugSSRFBlocked detailSSRFBlockedAction, snap)
      else if action = actionRecheck then do { r \<leftarrow> recheck engines tsk; ret (r, snap) }
      else if action = actionPause then do { r \<leftarrow> pauseAction engines others tsk; ret (r, snap) }
      else case actionOutcome action of (target, code, message) \<Rightarrow>
        if action = actionResume then resumeAction tsk target code message snap
        else if at_State tsk = target then ret (actionOk (at_ID tsk), snap)
        else do {
          failed \<leftarrow> (case actionEngineCall action of
              None \<Rightarrow> ret (Inr ())
            | Some call \<Rightarrow> (case engineFor engines tsk of
                  Inl err \<Rightarrow> ret (Inl err)
                | Inr None \<Rightarrow> ret (Inr ())
                | Inr (Some e) \<Rightarrow> call e (engineTaskID (at_Engine tsk) (at_EngineRef tsk))));
          case failed of
            Inl err \<Rightarrow> ret (engineFailure (at_ID tsk) err, snap)
          | Inr _ \<Rightarrow> do { r \<leftarrow> transitionAction tsk target code message; ret (r, snap) }
        })"

definition act_on_id ::
  "'e engines \<Rightarrow> 'e files \<Rightarrow> string list \<Rightarrow> (('e, 'z) world_scheme, unit) action \<Rightarrow> action_task option \<Rightarrow>
   string \<Rightarrow> bool \<Rightarrow> string \<Rightarrow> concurrency_snapshot option \<Rightarrow>
   (('e, 'z) world_scheme, action_result \<times> concurrency_snapshot option) action" where
  "act_on_id engines fs roots others found action deleteData tid snap = (case found of
      None \<Rightarrow> ret (actionFailure tid SlugNotFound detailTaskNotFound, snap)
    | Some tsk \<Rightarrow>
        if action = actionRemove \<and> deleteData
        then do { r \<leftarrow> removeWithData engines fs roots others tsk; ret (r, snap) }
        else applyAction engines others tsk action snap)"

fun act_on_ids ::
  "'e engines \<Rightarrow> 'e files \<Rightarrow> string list \<Rightarrow> (nat \<Rightarrow> (('e, 'z) world_scheme, unit) action) \<Rightarrow>
   (string \<Rightarrow> action_task option) \<Rightarrow> string \<Rightarrow> bool \<Rightarrow> nat \<Rightarrow> string list \<Rightarrow> concurrency_snapshot option \<Rightarrow>
   (('e, 'z) world_scheme, action_result list) action" where
  "act_on_ids engines fs roots env tasks action deleteData i [] snap = ret []"
| "act_on_ids engines fs roots env tasks action deleteData i (tid # ids) snap = do {
     _ \<leftarrow> env (2 * i);
     (r, snap') \<leftarrow> act_on_id engines fs roots (env (2 * i + 1)) (tasks tid) action deleteData tid snap;
     rs \<leftarrow> act_on_ids engines fs roots env tasks action deleteData (Suc i) ids snap';
     ret (r # rs)
   }"

definition actionEnum :: string where
  "actionEnum = ''pause,resume,remove,recheck,force_complete,queue_top,queue_up,queue_down,queue_bottom''"

definition emptyIDsDetail :: string where
  "emptyIDsDetail = ''ids is required; send between 1 and 500 task ids''"

definition too_many_detail :: "nat \<Rightarrow> string" where
  "too_many_detail n = ''ids holds '' @ Itoa (int n) @ '' entries; send between 1 and '' @ Itoa (int maxActionIDs)"

definition unknown_action_detail :: "string \<Rightarrow> string" where
  "unknown_action_detail action = ''action '' @ quoted action @ '' is not one of '' @ actionEnum"

definition act_in_batch ::
  "'e engines \<Rightarrow> 'e files \<Rightarrow> string list \<Rightarrow> (string \<times> string) list \<Rightarrow> (nat \<Rightarrow> (('e, 'z) world_scheme, unit) action) \<Rightarrow>
   (string \<Rightarrow> action_task option) \<Rightarrow> string list \<Rightarrow> string \<Rightarrow> bool \<Rightarrow>
   (('e, 'z) world_scheme, problem + action_result list) action" where
  "act_in_batch engines fs roots settings env tasks ids action deleteData = (case queueMove action of
      Some move \<Rightarrow> queueActions ids tasks move
    | None \<Rightarrow> do {
        snap \<leftarrow> (if action = actionResume
          then do { s \<leftarrow> loadConcurrencySnapshot settings; ret (map_sum (\<lambda>x. x) Some s) }
          else ret (Inr None));
        case snap of
          Inl pr \<Rightarrow> ret (Inl pr)
        | Inr sn \<Rightarrow> do { rs \<leftarrow> act_on_ids engines fs roots env tasks action deleteData 0 ids sn; ret (Inr rs) }
      })"

definition Actions ::
  "'e engines \<Rightarrow> 'e files \<Rightarrow> string list \<Rightarrow> (string \<times> string) list \<Rightarrow> (nat \<Rightarrow> (('e, 'z) world_scheme, unit) action) \<Rightarrow>
   string list \<Rightarrow> string \<Rightarrow> bool \<Rightarrow> (('e, 'z) world_scheme, problem + action_result list) action" where
  "Actions engines fs roots settings env ids action deleteData =
     (if ids = [] then ret (Inl (Problem SlugValidationFailed 422 emptyIDsDetail))
      else if maxActionIDs < length ids then ret (Inl (Problem SlugValidationFailed 422 (too_many_detail (length ids))))
      else if action \<notin> set taskActions
      then ret (Inl (Problem SlugValidationFailed 422 (unknown_action_detail action)))
      else do {
        loaded \<leftarrow> loadActionTasks ids;
        case loaded of
          Inl pr \<Rightarrow> ret (Inl pr)
        | Inr tasks \<Rightarrow> act_in_batch engines fs roots settings env tasks ids action deleteData
      })"

subsection \<open>Removing one task\<close>

datatype detach_mode = detachAfterPause | detachDirectly

record delete_output =
  do_Removed :: bool
  do_DeleteData :: bool
  do_FilesUnlinked :: nat
  do_BytesUnlinked :: int
  do_Missing :: nat

definition empty_output :: delete_output where
  "empty_output = \<lparr>do_Removed = False, do_DeleteData = False, do_FilesUnlinked = 0, do_BytesUnlinked = 0, do_Missing = 0\<rparr>"

definition bothDeleteFlagsDetail :: string where
  "bothDeleteFlagsDetail = ''delete_data and force_complete are mutually exclusive''"

definition outsideRootMessage :: string where
  "outsideRootMessage = ''resolves outside every configured data root''"

definition validateTargets :: "'e files \<Rightarrow> 'e \<Rightarrow> string list \<Rightarrow> target list \<Rightarrow> problem option" where
  "validateTargets fs st roots targets =
     (let failures = rejectedPaths fs st roots targets in
      if failures = [] then None
      else Some ((Problem SlugPathRejected 403 (rejected_detail (length failures)))
        \<lparr>pr_Errors := map (\<lambda>p. (outsideRootMessage, p)) failures\<rparr>))"

definition engineFailureProblem :: "eng_error \<Rightarrow> problem" where
  "engineFailureProblem err =
     (if err = ErrUnavailable then Problem SlugEngineUnavailable 503 detailEngineFailed else internalFailure)"

definition removeEngineHandle :: "'e engines \<Rightarrow> task \<Rightarrow> detach_mode \<Rightarrow> (('e, 'z) world_scheme, problem option) action" where
  "removeEngineHandle engines tsk mode = (case t_engine_ref tsk of
      None \<Rightarrow> ret None
    | Some ref \<Rightarrow> (case engines (t_engine tsk) of
          None \<Rightarrow> ret (Some (Problem SlugEngineUnavailable 503 detailEngineFailed))
        | Some e \<Rightarrow> do {
            let h = engineTaskID (t_engine tsk) (t_engine_ref tsk);
            p \<leftarrow> (if mode = detachAfterPause then e_Pause e h else ret (Inr ()));
            case p of
              Inl err \<Rightarrow> ret (Some (engineFailureProblem err))
            | Inr _ \<Rightarrow> do {
                r \<leftarrow> e_Remove e h;
                ret (case r of Inl err \<Rightarrow> Some (engineFailureProblem err) | Inr _ \<Rightarrow> None)
              }
          }))"

definition deleteDataProblem :: "delete_error \<Rightarrow> problem" where
  "deleteDataProblem err = (case err of
      DeletePathRejected path \<Rightarrow> Problem SlugPathRejected 403 (path_error_text path)
    | DeleteCtx \<Rightarrow> internalFailure)"

definition removalProblem :: "store_error \<Rightarrow> problem" where
  "removalProblem err =
     (if err = SErrNotFound then Problem SlugNotFound 404 detailTaskNotFound
      else if err = SErrIllegalTransition \<or> err = SErrTransitionConflict
      then Problem SlugValidationFailed 422 detailIllegalState
      else internalFailure)"

definition forceCompleteTask :: "'e engines \<Rightarrow> task \<Rightarrow> (('e, 'z) world_scheme, problem + delete_output) action" where
  "forceCompleteTask engines tsk = do {
     h \<leftarrow> removeEngineHandle engines tsk detachDirectly;
     case h of
       Some pr \<Rightarrow> ret (Inl pr)
     | None \<Rightarrow>
         if t_state tsk = StateCompleted then ret (Inr empty_output)
         else do {
           r \<leftarrow> Transition (t_id tsk) StateCompleted eventTaskForceCompleted ''completed by user request'';
           ret (case r of Inl err \<Rightarrow> Inl (removalProblem err) | Inr _ \<Rightarrow> Inr empty_output)
         }
   }"

text \<open>Steps 2 to 4, and the write of steps 5 and 6.\<close>

definition delete_recorded ::
  "'e engines \<Rightarrow> 'e files \<Rightarrow> string list \<Rightarrow> (('e, 'z) world_scheme, unit) action \<Rightarrow> task \<Rightarrow> target list \<Rightarrow>
   (('e, 'z) world_scheme, problem + delete_result) action" where
  "delete_recorded engines fs roots others tsk targets = do {
     st \<leftarrow> reader w_eng;
     case validateTargets fs st roots targets of
       Some pr \<Rightarrow> ret (Inl pr)
     | None \<Rightarrow> do {
         h \<leftarrow> removeEngineHandle engines tsk detachAfterPause;
         case h of
           Some pr \<Rightarrow> ret (Inl pr)
         | None \<Rightarrow> do {
             _ \<leftarrow> others;
             d \<leftarrow> DeleteData fs roots (ownDir (t_destination tsk) targets) targets;
             ret (map_sum deleteDataProblem (\<lambda>x. x) d)
           }
       }
   }"

definition mark_removed :: "string \<Rightarrow> delete_result option \<Rightarrow> (('e, 'z) world_scheme, problem + delete_output) action" where
  "mark_removed tid result = do {
     m \<leftarrow> MarkRemoved tid (map_option deleted_data result);
     ret (case m of
         Inl err \<Rightarrow> Inl (removalProblem err)
       | Inr _ \<Rightarrow> Inr (case result of
             None \<Rightarrow> empty_output\<lparr>do_Removed := True\<rparr>
           | Some d \<Rightarrow> \<lparr>do_Removed = True, do_DeleteData = True, do_FilesUnlinked = dr_FilesUnlinked d,
               do_BytesUnlinked = dr_BytesUnlinked d, do_Missing = dr_Missing d\<rparr>))
   }"

definition DeleteTask_api ::
  "'e engines \<Rightarrow> 'e files \<Rightarrow> string list \<Rightarrow> (('e, 'z) world_scheme, unit) action \<Rightarrow> string \<Rightarrow> bool \<Rightarrow> bool \<Rightarrow>
   (('e, 'z) world_scheme, problem + delete_output) action" where
  "DeleteTask_api engines fs roots others tid deleteData forceComplete =
     (if deleteData \<and> forceComplete then ret (Inl (Problem SlugValidationFailed 422 bothDeleteFlagsDetail))
      else do {
        g \<leftarrow> GetTask tid;
        case g of
          Inl err \<Rightarrow> ret (Inl (if err = SErrNotFound then Problem SlugNotFound 404 detailTaskNotFound else internalFailure))
        | Inr tsk \<Rightarrow>
            if forceComplete then forceCompleteTask engines tsk
            else do {
              fl \<leftarrow> ListFiles (t_id tsk);
              case fl of
                Inl _ \<Rightarrow> ret (Inl internalFailure)
              | Inr rows \<Rightarrow>
                  if deleteData then do {
                    d \<leftarrow> delete_recorded engines fs roots others tsk (recordedTargets (t_destination tsk) rows);
                    case d of
                      Inl pr \<Rightarrow> ret (Inl pr)
                    | Inr result \<Rightarrow> mark_removed (t_id tsk) (Some result)
                  }
                  else do {
                    h \<leftarrow> removeEngineHandle engines tsk detachAfterPause;
                    case h of Some pr \<Rightarrow> ret (Inl pr) | None \<Rightarrow> mark_removed (t_id tsk) None
                  }
            }
      })"

end
