(* ===== verification/ActionProps.thy ===== *)
theory ActionProps
  imports TaskActions
begin

section \<open>Properties of the operator's actions\<close>

text \<open>
  What holds of \<open>Actions\<close> and \<open>DeleteTask\<close> for every engine, file system, database fault and interference:
  the store contract, one outcome per id, the takeover of a pause, the headroom of a resume batch, and the
  order of a removal.
\<close>

subsection \<open>What a call answers\<close>

definition answers :: "('a \<Rightarrow> bool) \<Rightarrow> ('s, 'a) action \<Rightarrow> bool" where
  "answers Q m \<longleftrightarrow> (\<forall>w. Q (fst (run_state m w)))"

named_theorems answer_intros \<open>what calls answer\<close>

lemma answersD: "answers Q m \<Longrightarrow> run_state m w = (a, w') \<Longrightarrow> Q a"
  unfolding answers_def by (metis fst_conv)

lemma answers_bind:
  "answers Q m \<Longrightarrow> (\<And>x. Q x \<Longrightarrow> answers P (f x)) \<Longrightarrow> answers P (State_Monad.bind m f)"
  by (auto simp: answers_def State_Monad.bind_def split: prod.split) (metis fst_conv)

lemma answers_any: "answers (\<lambda>_. True) m"
  by (simp add: answers_def)

lemmas answers_then [answer_intros] = answers_bind [OF answers_any]

lemma answers_basic [answer_intros]:
  "P x \<Longrightarrow> answers P (ret x)"
  "(b \<Longrightarrow> answers P m) \<Longrightarrow> (\<not> b \<Longrightarrow> answers P n) \<Longrightarrow> answers P (if b then m else n)"
  "answers P m \<Longrightarrow> (\<And>x. answers P (h x)) \<Longrightarrow> answers P (case v of None \<Rightarrow> m | Some x \<Rightarrow> h x)"
  "(\<And>e. answers P (f e)) \<Longrightarrow> (\<And>x. answers P (g x)) \<Longrightarrow> answers P (case r of Inl e \<Rightarrow> f e | Inr x \<Rightarrow> g x)"
  "(\<And>a b. answers P (k a b)) \<Longrightarrow> answers P (case p of (a, b) \<Rightarrow> k a b)"
  by (auto simp: answers_def split: option.split sum.split prod.split)

lemma answers_GetTask: "answers (\<lambda>g. case g of Inl _ \<Rightarrow> True | Inr r \<Rightarrow> t_id r = tid) (GetTask tid)"
  by (auto simp: answers_def GetTask_def query_def State_Monad.bind_def queryGetTask_def
    dest: sql_find_SomeD split: prod.splits option.splits)

lemma answers_loadActionTasks:
  "answers (\<lambda>r. case r of Inl pr \<Rightarrow> pr = internalFailure | Inr tasks \<Rightarrow>
     \<forall>tid tsk. tasks tid = Some tsk \<longrightarrow> at_ID tsk = tid \<and> tid \<in> set ids) (loadActionTasks ids)"
  by (auto simp: answers_def loadActionTasks_def query_def State_Monad.bind_def action_task_of_def
    dest!: map_of_SomeD split: prod.splits)

subsection \<open>Every step keeps what the store keeps\<close>

context lease_rel begin

lemma io_waitLease [io_intros]:
  assumes "state_io_rel R others"
  shows "state_io_rel R (waitLease tid others)"
proof -
  have lease: "state_io_rel R (State (\<lambda>w. case f (w_lease w) of (x, r) \<Rightarrow> (g x r, w\<lparr>w_lease := h x r\<rparr>)))"
    for f and g :: "'x \<Rightarrow> lease_reg \<Rightarrow> 'y" and h
    by (auto simp: state_io_rel_def R_lease split: prod.splits)
  show ?thesis
    unfolding waitLease_def Let_def
    by (rule io_bind [OF lease]) (auto split: acquire_result.split intro!: io_bind [OF assms] lease io_return)
qed

end

context step_rel begin

text \<open>The continuation may rely on what the call is known to answer.\<close>

lemma io_bind_answers:
  assumes "state_io_rel R m" and "answers Q m" and "\<And>x. Q x \<Longrightarrow> state_io_rel R (f x)"
  shows "state_io_rel R (State_Monad.bind m f)"
proof (rule state_io_relI)
  fix a w w'
  assume run: "run_state (State_Monad.bind m f) w = (a, w')"
  obtain x w1 where x: "run_state m w = (x, w1)" by fastforce
  then have "run_state (f x) w1 = (a, w')"
    using run by (simp add: State_Monad.bind_def)
  with assms(3) [OF answersD [OF assms(2) x]] have "R w1 w'"
    by (rule state_io_relD)
  with state_io_relD [OF assms(1) x] show "R w w'" by (rule step_trans)
qed

end

context engine_rel begin

lemma io_transitionAction [io_intros]: "P (at_ID tsk) \<Longrightarrow> state_io_rel R (transitionAction tsk target code message)"
  unfolding transitionAction_def by (intro io_intros)

lemma io_pause_engine_first [io_intros]: "P (at_ID tsk) \<Longrightarrow> state_io_rel R (pause_engine_first engines tsk)"
  unfolding pause_engine_first_def by (intro io_intros)

lemma io_clear_hold_stamp [io_intros]: "P tid \<Longrightarrow> state_io_rel R (clear_hold_stamp tid)"
  unfolding clear_hold_stamp_def by (intro io_intros)

lemma io_pause_leased [io_intros]:
  assumes "P tid"
  shows "state_io_rel R (pause_leased engines tid)"
proof -
  have at_id: "at_ID ((action_task_of r)\<lparr>at_Destination := d\<rparr>) = t_id r" for r d
    by (simp add: action_task_of_def)
  show ?thesis
    unfolding pause_leased_def Let_def
    by (rule io_bind_answers [OF io_GetTask answers_GetTask], rename_tac g, case_tac g; simp only: sum.case)
      (intro io_intros; simp only: at_id assms)+
qed

lemma io_pauseAction [io_intros]:
  "P (at_ID tsk) \<Longrightarrow> state_io_rel R others \<Longrightarrow> state_io_rel R (pauseAction engines others tsk)"
  unfolding pauseAction_def by (intro io_intros)

lemma io_recheck [io_intros]: "P (at_ID tsk) \<Longrightarrow> state_io_rel R (recheck engines tsk)"
  unfolding recheck_def Let_def by (intro io_intros)

lemma io_resumeAction [io_intros]: "P (at_ID tsk) \<Longrightarrow> state_io_rel R (resumeAction tsk target code message snap)"
  unfolding resumeAction_def by (intro io_intros)

lemma io_actionEngineCall: "actionEngineCall action = Some call \<Longrightarrow> state_io_rel R (call e h)"
  by (auto simp: actionEngineCall_def intro: io_intros split: if_splits)

lemma io_action_engine:
  "state_io_rel R (case actionEngineCall action of
      None \<Rightarrow> ret (Inr ())
    | Some call \<Rightarrow> (case engineFor engines tsk of
          Inl err \<Rightarrow> ret (Inl err)
        | Inr None \<Rightarrow> ret (Inr ())
        | Inr (Some e) \<Rightarrow> call e h))"
  by (cases "actionEngineCall action") (auto simp: io_return intro: io_actionEngineCall split: sum.split option.split)

lemma io_applyAction [io_intros]:
  "P (at_ID tsk) \<Longrightarrow> state_io_rel R others \<Longrightarrow> state_io_rel R (applyAction engines others tsk action snap)"
  unfolding applyAction_def by (intro io_intros io_action_engine)

lemma io_e_Unlink [io_intros]: "state_io_rel R (e_Unlink fs path)"
  unfolding e_Unlink_def by (rule io_ecall)

lemma io_unlink_targets [io_intros]: "state_io_rel R (unlink_targets fs ts d)"
  by (induction ts arbitrary: d) (auto intro!: io_intros)

lemma io_DeleteData [io_intros]: "state_io_rel R (DeleteData fs roots dir targets)"
  unfolding DeleteData_def removeTaskDir_def by (intro io_intros)

lemma io_stopTaskAtEngine [io_intros]: "state_io_rel R (stopTaskAtEngine engines tsk)"
  unfolding stopTaskAtEngine_def Let_def by (intro io_intros)

lemma io_removeWithData [io_intros]:
  assumes "P (at_ID tsk)" and "state_io_rel R others"
  shows "state_io_rel R (removeWithData engines fs roots others tsk)"
  unfolding removeWithData_def Let_def
  by (intro io_intros assms) (auto intro!: io_intros assms split: delete_error.split)

lemma io_act_on_ids:
  assumes "\<And>i. state_io_rel R (env i)" and "\<And>tid tsk. tid \<in> set ids \<Longrightarrow> tasks tid = Some tsk \<Longrightarrow> P (at_ID tsk)"
  shows "state_io_rel R (act_on_ids engines fs roots env tasks action dd i ids snap)"
  using assms(2)
proof (induction ids arbitrary: i snap)
  case (Cons tid ids)
  have head: "P (at_ID tsk)" if "tasks tid = Some tsk" for tsk
    by (rule Cons.prems) (use that in auto)
  have rest: "state_io_rel R (act_on_ids engines fs roots env tasks action dd j ids sn)" for j sn
    by (rule Cons.IH) (use Cons.prems in auto)
  show ?case
    unfolding act_on_ids.simps act_on_id_def
    by (rule io_bind [OF assms(1)], rule io_bind)
      (auto intro!: io_intros rest assms(1) head split: option.split)
qed (simp add: io_return)

lemma io_removeEngineHandle [io_intros]: "state_io_rel R (removeEngineHandle engines tsk mode)"
  unfolding removeEngineHandle_def Let_def by (intro io_intros)

lemma io_forceCompleteTask [io_intros]: "P (t_id tsk) \<Longrightarrow> state_io_rel R (forceCompleteTask engines tsk)"
  unfolding forceCompleteTask_def by (intro io_intros)

lemma io_delete_recorded [io_intros]:
  "state_io_rel R others \<Longrightarrow> state_io_rel R (delete_recorded engines fs roots others tsk targets)"
  unfolding delete_recorded_def by (intro io_intros)

lemma io_mark_removed [io_intros]: "P tid \<Longrightarrow> state_io_rel R (mark_removed tid result)"
  unfolding mark_removed_def by (intro io_intros)

lemma io_DeleteTask_api:
  assumes "P tid" and "state_io_rel R others"
  shows "state_io_rel R (DeleteTask_api engines fs roots others tid dd fc)"
  unfolding DeleteTask_api_def
  by (rule io_if [OF io_return], rule io_bind_answers [OF io_GetTask answers_GetTask], rename_tac g, case_tac g)
    (use assms in \<open>auto intro!: io_intros\<close>)

lemma io_act_in_batch:
  assumes "\<And>i. state_io_rel R (env i)" and "\<And>move. queueMove action = Some move \<Longrightarrow> state_io_rel R (ReorderQueue ids move)"
    and "\<And>tid tsk. tid \<in> set ids \<Longrightarrow> tasks tid = Some tsk \<Longrightarrow> P (at_ID tsk)"
  shows "state_io_rel R (act_in_batch engines fs roots settings env tasks ids action dd)"
proof (cases "queueMove action")
  case None
  show ?thesis
    unfolding act_in_batch_def None option.case loadConcurrencySnapshot_def
    by (intro io_intros io_act_on_ids assms(1)) (rule assms(3))
next
  case (Some move)
  show ?thesis
    unfolding act_in_batch_def Some option.case queueActions_def
    by (intro io_intros assms(2) Some)
qed

lemma io_Actions:
  assumes "\<And>i. state_io_rel R (env i)" and "\<And>move. queueMove action = Some move \<Longrightarrow> state_io_rel R (ReorderQueue ids move)"
    and "\<And>tid. tid \<in> set ids \<Longrightarrow> P tid"
  shows "state_io_rel R (Actions engines fs roots settings env ids action dd)"
proof -
  have load: "state_io_rel R (loadActionTasks ids)"
    unfolding loadActionTasks_def by (intro io_intros)
  have "state_io_rel R (case loaded of Inl pr \<Rightarrow> ret (Inl pr)
      | Inr tasks \<Rightarrow> act_in_batch engines fs roots settings env tasks ids action dd)"
    if "case loaded of Inl pr \<Rightarrow> pr = internalFailure | Inr tasks \<Rightarrow>
      \<forall>tid tsk. tasks tid = Some tsk \<longrightarrow> at_ID tsk = tid \<and> tid \<in> set ids" for loaded
    using that by (cases loaded) (auto intro!: io_return io_act_in_batch assms)
  then show ?thesis
    unfolding Actions_def by (intro io_if io_return io_bind_answers [OF load answers_loadActionTasks])
qed

end

subsection \<open>The outcomes of one id\<close>

lemma outcome_ids [simp]:
  "res_ID (actionFailure tid slug detail) = tid" "res_ID (actionOk tid) = tid" "res_ID (engineFailure tid err) = tid"
  "res_ID (transition_outcome tid r) = tid" "res_ID (fst (headroom_answer tsk snap)) = at_ID tsk"
  by (simp_all add: actionFailure_def actionOk_def engineFailure_def transition_outcome_def headroom_answer_def
    split: sum.split prod.split bool.split)

definition about :: "string \<Rightarrow> action_result \<Rightarrow> bool" where
  "about tid r \<longleftrightarrow> res_ID r = tid"

lemma answers_about [answer_intros]: "res_ID r = tid \<Longrightarrow> about tid r"
  by (simp add: about_def)

lemma about_transitionAction [answer_intros]: "at_ID tsk = tid \<Longrightarrow> answers (about tid) (transitionAction tsk target code message)"
  unfolding transitionAction_def by (intro answer_intros) simp_all

lemma about_pause_engine_first: "at_ID tsk = tid \<Longrightarrow> answers (about tid) (pause_engine_first engines tsk)"
  unfolding pause_engine_first_def by (intro answer_intros) simp_all

lemma about_clear_hold_stamp [answer_intros]: "answers (about tid) (clear_hold_stamp tid)"
  unfolding clear_hold_stamp_def by (intro answer_intros) (simp split: sum.split)

lemma about_pause_leased [answer_intros]: "answers (about tid) (pause_leased engines tid)"
proof -
  have pause: "answers (about tid) (if b then pause_engine_first engines tsk else ret (actionOk tid))"
    if "at_ID tsk = tid" for b tsk
    using that by (intro answer_intros about_pause_engine_first) simp_all
  have id: "at_ID ((action_task_of r)\<lparr>at_Destination := d\<rparr>) = t_id r" for r d
    by (simp add: action_task_of_def)
  have stop: "answers (about tid) (if \<not> res_Ok r then ret r else clear_hold_stamp tid)" if "about tid r" for r
    using that by (intro answer_intros) (simp add: about_def)
  show ?thesis
    unfolding pause_leased_def Let_def
  proof (rule answers_bind [OF answers_GetTask], goal_cases)
    case (1 g)
    then show ?case
      by (cases g) (simp add: answers_basic(1) about_def,
        simp only: sum.case, rule answers_bind [OF pause stop], simp_all add: id)
  qed
qed

lemma about_actions [answer_intros]:
  "answers (about (at_ID tsk)) (pauseAction engines others tsk)"
  "answers (about (at_ID tsk)) (recheck engines tsk)"
  unfolding pauseAction_def recheck_def Let_def
  by (intro answer_intros answers_bind [OF about_pause_leased]; simp add: about_def)+

lemma about_removeWithData [answer_intros]: "answers (about (at_ID tsk)) (removeWithData engines fs roots others tsk)"
  unfolding removeWithData_def Let_def
  by (intro answer_intros) (auto intro!: answer_intros split: delete_error.split)

text \<open>The outcome of one id, beside the snapshot the batch shares.\<close>

lemma about_resumeAction: "answers (\<lambda>rs. about (at_ID tsk) (fst rs)) (resumeAction tsk target code message snap)"
proof (cases snap)
  case (Some sn)
  have outcome: "answers (about (at_ID tsk)) (if b then transitionAction tsk target code message else ret (actionOk (at_ID tsk)))" for b
    by (intro answer_intros) simp_all
  show ?thesis
    unfolding resumeAction_def Some option.case
    by (rule answers_bind [OF outcome]) (auto intro!: answers_basic(1,2) simp: about_def split_beta)
qed (simp add: resumeAction_def answers_basic(1) about_def)

lemma about_paired: "answers (about tid) m \<Longrightarrow> answers (\<lambda>rs. about tid (fst rs)) (do { r \<leftarrow> m; ret (r, snap) })"
  by (erule answers_bind) (simp add: answers_basic(1))

lemma about_applyAction: "answers (\<lambda>rs. about (at_ID tsk) (fst rs)) (applyAction engines others tsk action snap)"
proof -
  have rest: "answers (\<lambda>rs. about (at_ID tsk) (fst rs)) (case failed of
      Inl err \<Rightarrow> ret (engineFailure (at_ID tsk) err, snap)
    | Inr _ \<Rightarrow> do { r \<leftarrow> transitionAction tsk target code message; ret (r, snap) })"
    for failed :: "eng_error + unit" and target code message
    by (intro answers_basic(4) answers_basic(1) about_paired about_transitionAction) (simp_all add: about_def)
  show ?thesis
    unfolding applyAction_def
    by (intro answers_basic(2) answers_basic(5) about_paired about_resumeAction about_actions answers_then rest answers_basic(1))
      (simp_all add: about_def)
qed

lemma about_act_on_id:
  "(\<And>tsk. found = Some tsk \<Longrightarrow> at_ID tsk = tid) \<Longrightarrow>
   answers (\<lambda>rs. about tid (fst rs)) (act_on_id engines fs roots others found action dd tid snap)"
proof (cases found)
  case (Some tsk)
  moreover assume "\<And>tsk. found = Some tsk \<Longrightarrow> at_ID tsk = tid"
  ultimately have tid: "tid = at_ID tsk" by simp
  show ?thesis
    unfolding act_on_id_def Some option.case unfolding tid
    by (intro answers_basic(2) about_paired about_removeWithData about_applyAction)
qed (simp add: act_on_id_def answers_basic(1) about_def)

lemma act_on_ids_outcomes:
  "run_state (act_on_ids engines fs roots env tasks action dd i ids snap) w = (rs, w') \<Longrightarrow>
   (\<And>tid tsk. tasks tid = Some tsk \<Longrightarrow> at_ID tsk = tid) \<Longrightarrow> map res_ID rs = ids"
proof (induction ids arbitrary: i snap w rs w')
  case (Cons tid ids)
  obtain u w1 where u: "run_state (env (2 * i)) w = (u, w1)" by (meson surj_pair)
  obtain r sn w2 where r: "run_state (act_on_id engines fs roots (env (2 * i + 1)) (tasks tid) action dd tid snap) w1 = ((r, sn), w2)"
    by (metis prod.exhaust)
  obtain rest w3 where rest: "run_state (act_on_ids engines fs roots env tasks action dd (Suc i) ids sn) w2 = (rest, w3)"
    by fastforce
  have "res_ID r = tid"
    using answersD [OF about_act_on_id r] Cons.prems(2) by (simp add: about_def)
  moreover have "rs = r # rest"
    using Cons.prems(1) u r rest by (simp add: State_Monad.bind_def)
  ultimately show ?case
    using Cons.IH [OF rest] Cons.prems(2) by simp
qed simp

lemma loadActionTasks_run:
  "run_state (loadActionTasks ids) w = (Inr tasks, w') \<Longrightarrow>
   tasks = map_of (map (\<lambda>t. (t_id t, action_task_of t)) (filter (\<lambda>t. t_id t \<in> set ids) (s_tasks w))) \<and> s_tasks w' = s_tasks w"
  by (cases rule: tick_cases [of w]) (auto simp: loadActionTasks_def query_def State_Monad.bind_def split: if_splits)

lemma loaded_id:
  "map_of (map (\<lambda>t. (t_id t, action_task_of t)) rows) tid = Some tsk \<Longrightarrow> at_ID tsk = tid \<and> tsk \<in> action_task_of ` set rows"
  by (auto dest!: map_of_SomeD simp: action_task_of_def)

subsection \<open>The batch as a whole\<close>

lemma list_all2_positions: "list_all2 (audited []) rows (write_positions p now ids rows)"
proof (induction ids arbitrary: p rows)
  case Nil
  show ?case by (simp add: list.rel_refl audited_refl)
next
  case (Cons tid ids)
  have "list_all2 (audited []) rows (fst (querySetQueuePosition p now tid rows))"
    by (auto simp: querySetQueuePosition_def list.rel_map intro!: list.rel_refl_strong audited_same)
  from list_all2_trans [of "audited []" "audited []" "audited []", OF _ this Cons.IH] show ?case
    using audited_trans [of "[]" _ _ "[]"] by simp
qed

lemma audit_ReorderQueue: "state_io_rel audit_trail (ReorderQueue ids move)"
  unfolding ReorderQueue_def Let_def
  by (rule audit.io_tx) (auto simp: audit_trail_def list_all2_positions intro!: exI [of _ "[]"])

lemma answers_act_in_batch:
  assumes "\<And>tid tsk. tasks tid = Some tsk \<Longrightarrow> at_ID tsk = tid"
  shows "answers (\<lambda>r. case r of Inl pr \<Rightarrow> pr = internalFailure | Inr rs \<Rightarrow> map res_ID rs = ids)
    (act_in_batch engines fs roots settings env tasks ids action dd)"
proof -
  have "answers (\<lambda>rs. map res_ID rs = ids) (act_on_ids engines fs roots env tasks action dd 0 ids snap)" for snap
    using act_on_ids_outcomes [where tasks = tasks, OF prod.collapse [symmetric]] assms unfolding answers_def by blast
  note run = answers_bind [OF this]
  have load: "answers (\<lambda>s. case s of Inl pr \<Rightarrow> pr = internalFailure | Inr _ \<Rightarrow> True) (loadConcurrencySnapshot settings)"
    unfolding loadConcurrencySnapshot_def
    by (intro answer_intros) (auto split: sum.split option.split)
  have snapshot: "answers (\<lambda>s. case s of Inl pr \<Rightarrow> pr = internalFailure | Inr _ \<Rightarrow> True)
      (if b then do { s \<leftarrow> loadConcurrencySnapshot settings; ret (map_sum (\<lambda>x. x) Some s) } else ret (Inr None))" for b
    by (intro answers_basic(2) answers_bind [OF load] answers_basic(1)) (auto split: sum.splits)
  have queue: "map res_ID (map (\<lambda>tid. if tasks tid = None then actionFailure tid SlugNotFound detailTaskNotFound
      else if tid \<in> set absent then actionFailure tid SlugValidationFailed detailNotInQueue else actionOk tid) ids) = ids"
    for absent
    by (induction ids) auto
  show ?thesis
  proof (cases "queueMove action")
    case None
    show ?thesis
      unfolding act_in_batch_def None option.case
      by (rule answers_bind [OF snapshot]) (auto split: sum.splits intro!: answers_basic(1) run)
  next
    case (Some move)
    show ?thesis
      unfolding act_in_batch_def Some option.case queueActions_def
      by (intro answer_intros) (simp_all only: sum.case queue)
  qed
qed

text \<open>
  C26. The contract of a bulk action. A request that names no task, more than 500, or no known action is
  answered 422, and nothing at all happens. Every other request is served: it answers one outcome per id, in
  request order, unknown and repeated ids included, unless the database fails it as a whole. And whatever the
  engines, the file system and the database do and whatever runs in between, the books are kept: rows are
  neither created nor lost, the event log is only extended, and every task moved only along edges of the
  transition table, with an event of its own for every edge.
\<close>

theorem Actions_outcomes:
  assumes "\<And>i. state_io_rel audit_trail (env i)"
    and "run_state (Actions engines fs roots settings env ids action deleteData) w = (r, w')"
  shows "audit_trail w w' \<and>
    (if ids = [] \<or> 500 < length ids \<or> action \<notin> set taskActions
     then (\<exists>pr. r = Inl pr \<and> pr_Status pr = 422) \<and> w' = w
     else (case r of Inl pr \<Rightarrow> pr = internalFailure | Inr rs \<Rightarrow> map res_ID rs = ids))"
proof
  show "audit_trail w w'"
    by (rule state_io_relD [OF w_audit.io_Actions assms(2)]) (use assms(1) audit_ReorderQueue in auto)
next
  show "if ids = [] \<or> 500 < length ids \<or> action \<notin> set taskActions
     then (\<exists>pr. r = Inl pr \<and> pr_Status pr = 422) \<and> w' = w
     else (case r of Inl pr \<Rightarrow> pr = internalFailure | Inr rs \<Rightarrow> map res_ID rs = ids)"
  proof (cases "ids = [] \<or> 500 < length ids \<or> action \<notin> set taskActions")
    case True
    then show ?thesis
      using assms(2) by (auto simp: Actions_def maxActionIDs_def Problem_def split: if_splits)
  next
    case False
    obtain loaded w1 where l: "run_state (loadActionTasks ids) w = (loaded, w1)" by fastforce
    have known: "case loaded of Inl pr \<Rightarrow> pr = internalFailure | Inr tasks \<Rightarrow>
        \<forall>tid tsk. tasks tid = Some tsk \<longrightarrow> at_ID tsk = tid \<and> tid \<in> set ids"
      by (rule answersD [OF answers_loadActionTasks l])
    have "case r of Inl pr \<Rightarrow> pr = internalFailure | Inr rs \<Rightarrow> map res_ID rs = ids"
    proof (cases loaded)
      case (Inl pr)
      then show ?thesis
        using known l assms(2) False
        by (auto simp: Actions_def maxActionIDs_def State_Monad.bind_def)
    next
      case (Inr tasks)
      then have run: "run_state (act_in_batch engines fs roots settings env tasks ids action deleteData) w1 = (r, w')"
        using l assms(2) False by (simp add: Actions_def maxActionIDs_def State_Monad.bind_def)
      show ?thesis
        by (rule answersD [OF answers_act_in_batch run]) (use known Inr in simp)
    qed
    then show ?thesis using False by auto
  qed
qed

theorem Actions_outcomes_witness:
  "map_sum (\<lambda>x. x) (map res_ID) (fst (run_state (Actions demo_engines demo_files [''/data''] [] (\<lambda>_. ret ())
      [''a'', ''zz'', ''a''] actionPause False) (demo_world demo_queue []))) = Inr [''a'', ''zz'', ''a''] \<and>
   audit_trail (demo_world demo_queue []) (snd (run_state (Actions demo_engines demo_files [''/data''] [] (\<lambda>_. ret ())
      [''a'', ''zz'', ''a''] actionPause False) (demo_world demo_queue [])))"
proof -
  let ?m = "Actions demo_engines demo_files [''/data''] [] (\<lambda>_. ret ()) [''a'', ''zz'', ''a''] actionPause False"
  obtain r w' where run: "run_state ?m (demo_world demo_queue []) = (r, w')" by fastforce
  have served: "isl (fst (run_state ?m (demo_world demo_queue []))) = False" by code_simp
  from Actions_outcomes [OF audit.io_return run] run served show ?thesis
    by (cases r) (simp_all add: taskActions_def)
qed

text \<open>
  A lifecycle action touches only the tasks it names: whatever happens on the way, the row of every
  other task is, byte for byte, as the other goroutines left it.
\<close>

theorem Actions_frame:
  assumes "\<And>i. state_io_rel (same_row x) (env i)" and "x \<notin> set ids" and "queueMove action = None"
  shows "same_row x w (snd (run_state (Actions engines fs roots settings env ids action deleteData) w))"
proof -
  have "state_io_rel (same_row x) (Actions engines fs roots settings env ids action deleteData)"
    by (rule w_frame.io_Actions) (use assms in auto)
  then show ?thesis by (simp add: state_io_rel_def)
qed

theorem Actions_frame_witness:
  "same_row ''b'' (demo_world demo_queue [])
     (snd (run_state (Actions demo_engines demo_files [''/data''] [] (\<lambda>_. ret ()) [''a''] actionPause False) (demo_world demo_queue [])))"
  by (rule Actions_frame) (rule frame.io_return, simp, code_simp)

subsection \<open>The headroom of a resume batch\<close>

lemma Inr_map_sum: "map_sum f g s = Inr y \<longleftrightarrow> (\<exists>x. s = Inr x \<and> y = g x)"
  by (cases s) auto

text \<open>What the outcome of one id spends.\<close>

definition spent :: "action_task option \<Rightarrow> concurrency_snapshot \<Rightarrow> action_result \<times> concurrency_snapshot option \<Rightarrow> bool" where
  "spent found sn rs \<longleftrightarrow> (\<exists>sn'. snd rs = Some sn' \<and>
     (if res_Ok (fst rs) then \<exists>tsk. found = Some tsk \<and> headroom_answer tsk sn = (fst rs, sn') else sn' = sn))"

lemma outcome_ok [simp]:
  "\<not> res_Ok (actionFailure tid slug detail)" "res_Ok (actionOk tid)"
  by (simp_all add: actionFailure_def actionOk_def)

lemma spent_resumeAction: "answers (spent (Some tsk) sn) (resumeAction tsk target code message (Some sn))"
  unfolding resumeAction_def option.case
  by (intro answers_then answers_basic(2) answers_basic(1))
    (auto simp: spent_def headroom_answer_def split: prod.split bool.split)

lemma spent_act_on_id: "answers (spent found sn) (act_on_id engines fs roots others found actionResume dd tid (Some sn))"
proof (cases found)
  case (Some tsk)
  have names: "actionResume \<noteq> actionRemove" "actionResume \<noteq> actionRecheck" "actionResume \<noteq> actionPause"
    by (simp_all add: action_names)
  show ?thesis
    unfolding act_on_id_def applyAction_def Some option.case
    by (simp add: names answers_basic(1) spent_resumeAction spent_def split: prod.split)
qed (simp add: act_on_id_def answers_basic(1) spent_def)

definition promised :: "string \<Rightarrow> (string \<Rightarrow> string option) \<Rightarrow> string list \<Rightarrow> action_result list \<Rightarrow> nat" where
  "promised e engine_of ids rs = length (filter (\<lambda>(tid, r). res_Ok r \<and> engine_of tid = Some e) (zip ids rs))"

text \<open>A count that is under its limit stays within it; one that is over it is not raised.\<close>

definition fits :: "nat \<Rightarrow> nat \<Rightarrow> int \<Rightarrow> bool" where
  "fits used extra limit \<longleftrightarrow> (0 < limit \<longrightarrow> int used + int extra \<le> max (int used) limit)"

lemma fits_0 [simp]: "fits n 0 limit"
  by (simp add: fits_def)

lemma fits_Suc: "fits (Suc n) k limit \<Longrightarrow> \<not> (0 < limit \<and> limit \<le> int n) \<Longrightarrow> fits n (Suc k) limit"
  by (auto simp: fits_def max_def split: if_splits)

lemma headroom_ok:
  assumes "headroom_answer tsk sn = (r, sn')" and "res_Ok r"
  shows "snap_limits sn' = snap_limits sn" and "snap_counts sn' = Reserve (at_Engine tsk) (snap_counts sn)"
    and "\<not> (0 < l_MaxActiveTotal (snap_limits sn) \<and> l_MaxActiveTotal (snap_limits sn) \<le> int (ac_Total (snap_counts sn)))"
    and "\<not> (0 < l_MaxActivePerEngine (snap_limits sn) \<and>
      l_MaxActivePerEngine (snap_limits sn) \<le> int (ac_ByEngine (snap_counts sn) (at_Engine tsk)))"
  using assms by (auto simp: headroom_answer_def Blocked_def split: if_splits)

lemma act_on_ids_headroom:
  "run_state (act_on_ids engines fs roots env tasks actionResume dd i ids (Some sn)) w = (rs, w') \<Longrightarrow>
   fits (ac_Total (snap_counts sn)) (length (filter res_Ok rs)) (l_MaxActiveTotal (snap_limits sn)) \<and>
   fits (ac_ByEngine (snap_counts sn) e) (promised e (\<lambda>tid. map_option at_Engine (tasks tid)) ids rs)
     (l_MaxActivePerEngine (snap_limits sn))"
proof (induction ids arbitrary: i sn w rs w')
  case Nil
  then show ?case by (simp add: promised_def)
next
  case (Cons tid ids)
  obtain u w1 where u: "run_state (env (2 * i)) w = (u, w1)" by (meson surj_pair)
  obtain r snap w2 where r: "run_state (act_on_id engines fs roots (env (2 * i + 1)) (tasks tid) actionResume dd tid (Some sn)) w1 =
      ((r, snap), w2)" by (metis prod.exhaust)
  obtain sn' where sn': "snap = Some sn'" and
    spend: "if res_Ok r then \<exists>tsk. tasks tid = Some tsk \<and> headroom_answer tsk sn = (r, sn') else sn' = sn"
    using answersD [OF spent_act_on_id r] unfolding spent_def fst_conv snd_conv by blast
  obtain rest w3 where rest: "run_state (act_on_ids engines fs roots env tasks actionResume dd (Suc i) ids (Some sn')) w2 = (rest, w3)"
    by fastforce
  have rs: "rs = r # rest"
    using Cons.prems u r rest sn' by (simp add: State_Monad.bind_def)
  note IH = Cons.IH [OF rest]
  show ?case
  proof (cases "res_Ok r")
    case True
    with spend obtain tsk where tsk: "tasks tid = Some tsk" "headroom_answer tsk sn = (r, sn')" by auto
    note ok = headroom_ok [OF tsk(2) True]
    show ?thesis
      using IH ok True tsk(1) by (auto simp: rs promised_def Reserve_def intro: fits_Suc split: if_splits)
  next
    case False
    with IH spend show ?thesis by (auto simp: rs promised_def)
  qed
qed

lemma loaded_engine:
  "tid \<in> set ids \<Longrightarrow>
   map_option at_Engine (map_of (map (\<lambda>t. (t_id t, action_task_of t)) (filter (\<lambda>t. t_id t \<in> set ids) rows)) tid) =
     map_option t_engine (queryGetTask tid rows)"
  by (induction rows) (auto simp: queryGetTask_def sql_find_def action_task_of_def)

lemma promised_cong:
  "(\<And>tid. tid \<in> set ids \<Longrightarrow> f tid = g tid) \<Longrightarrow> promised e f ids rs = promised e g ids rs"
  unfolding promised_def by (intro arg_cong [of _ _ length] filter_cong) (auto dest: set_zip_leftD)

text \<open>The limits in force: the settings rows over the defaults.\<close>

definition limits_in_force :: "(string \<times> string) list \<Rightarrow> limits option" where
  "limits_in_force settings = read_limits
     (filter (\<lambda>kv. fst kv \<in> {settingMaxActiveTotal, settingMaxActivePerEngine}) settings)
     \<lparr>l_MaxActiveTotal = defaultMaxActiveTotal, l_MaxActivePerEngine = defaultMaxActivePerEngine\<rparr>"

lemma loadConcurrencySnapshot_run:
  assumes "run_state (loadConcurrencySnapshot settings) w = (Inr sn, w')"
  shows "limits_in_force settings = Some (snap_limits sn)"
    and "ac_Total (snap_counts sn) = length (filter counted (s_tasks w))"
    and "ac_ByEngine (snap_counts sn) e = length (filter (\<lambda>r. counted r \<and> t_engine r = e) (s_tasks w))"
  using assms
  by (cases rule: tick_cases [of w]; auto simp: loadConcurrencySnapshot_def CountActive_def query_def
      State_Monad.bind_def limits_in_force_def Let_def CountActive_total CountActive_engine
      split: if_splits prod.splits option.splits)+

text \<open>
  C27. A resume batch never promises more slots than are free: over one request, the accepted ids together
  with the counted tasks stay within the total limit, and per engine within that engine's limit (a batch
  that starts over a limit accepts nothing there). The limits are the settings rows, or the defaults 5 and 3;
  zero means unlimited.
\<close>

theorem resume_headroom:
  assumes "run_state (Actions engines fs roots settings env ids actionResume deleteData) w = (Inr rs, w')"
  shows "\<exists>l. limits_in_force settings = Some l \<and>
    fits (length (filter counted (s_tasks w))) (length (filter res_Ok rs)) (l_MaxActiveTotal l) \<and>
    (\<forall>e. fits (length (filter (\<lambda>r. counted r \<and> t_engine r = e) (s_tasks w)))
       (promised e (\<lambda>tid. map_option t_engine (queryGetTask tid (s_tasks w))) ids rs) (l_MaxActivePerEngine l))"
proof -
  have move: "queueMove actionResume = None" by code_simp
  obtain tasks w1 where l: "run_state (loadActionTasks ids) w = (Inr tasks, w1)"
    and run: "run_state (act_in_batch engines fs roots settings env tasks ids actionResume deleteData) w1 = (Inr rs, w')"
    using assms by (auto simp: Actions_def State_Monad.bind_def split: if_splits prod.splits sum.splits)
  note tasks = loadActionTasks_run [OF l]
  obtain sn w2 where snap: "run_state (loadConcurrencySnapshot settings) w1 = (Inr sn, w2)"
    and act: "run_state (act_on_ids engines fs roots env tasks actionResume deleteData 0 ids (Some sn)) w2 = (rs, w')"
    using run by (auto simp: act_in_batch_def move State_Monad.bind_def Inr_map_sum split: prod.splits sum.splits)
  have engine: "promised e (\<lambda>tid. map_option at_Engine (tasks tid)) ids rs =
      promised e (\<lambda>tid. map_option t_engine (queryGetTask tid (s_tasks w))) ids rs" for e
    by (rule promised_cong) (simp add: tasks loaded_engine)
  show ?thesis
    using loadConcurrencySnapshot_run [OF snap] act_on_ids_headroom [OF act] tasks [THEN conjunct2]
    by (intro exI [of _ "snap_limits sn"] conjI allI) (simp_all flip: engine)
qed

theorem resume_headroom_witness:
  "\<exists>rs. fst (run_state (Actions demo_engines demo_files [''/data''] [(''max_active_total'', ''1'')] (\<lambda>_. ret ())
     [''a'', ''b''] actionResume False) (demo_world demo_queue [])) = Inr rs \<and> length (filter res_Ok rs) \<le> 1"
proof -
  let ?m = "Actions demo_engines demo_files [''/data''] [(''max_active_total'', ''1'')] (\<lambda>_. ret ()) [''a'', ''b''] actionResume False"
  have served: "isl (fst (run_state ?m (demo_world demo_queue []))) = False"
    and limits: "map_option l_MaxActiveTotal (limits_in_force [(''max_active_total'', ''1'')]) = Some 1"
    and counted: "filter counted (s_tasks (demo_world demo_queue [])) = []"
    by code_simp+
  obtain r w' where run: "run_state ?m (demo_world demo_queue []) = (r, w')" by fastforce
  with served obtain rs where rs: "r = Inr rs" by (cases r) auto
  from resume_headroom [OF run [unfolded rs]] limits counted have "fits 0 (length (filter res_Ok rs)) 1" by auto
  then show ?thesis using run rs by (auto simp: fits_def)
qed

subsection \<open>The takeover of a pause\<close>

lemma row_update:
  assumes "queryGetTask tid rows = Some r" and "p r" and "\<And>x. t_id (f x) = t_id x"
  shows "queryGetTask tid (fst (sql_update (\<lambda>x. t_id x = tid \<and> p x) f rows)) = Some (f r)"
  using assms by (induction rows) (auto simp: queryGetTask_def sql_find_def split: if_splits)

lemma row_kept:
  assumes "queryGetTask tid rows = Some r" and "\<not> p r"  and "\<And>x. t_id (f x) = t_id x"
  shows "queryGetTask tid (fst (sql_update (\<lambda>x. t_id x = tid \<and> p x) f rows)) = Some r"
  using assms by (induction rows) (auto simp: queryGetTask_def sql_find_def split: if_splits)

lemma GetTask_ok:
  "run_state (GetTask tid) w = (Inr r, w') \<Longrightarrow> queryGetTask tid (s_tasks w) = Some r \<and> s_tasks w' = s_tasks w"
  by (cases rule: tick_cases [of w])
    (auto simp: GetTask_def query_def State_Monad.bind_def split: if_splits option.splits)

lemma Transition_ok:
  assumes "run_state (Transition tid nxt code message) w = (Inr u, w')"
  shows "\<exists>r. queryGetTask tid (s_tasks w') = Some r \<and> t_state r = nxt"
proof (rule tick_cases [of w])
  fix f dt rest
  assume t: "run_state tick w = (f, after_tick dt rest w)"
  have "queryGetTask tid (fst (queryTransitionTask nxt now tid (t_state r) (s_tasks w))) =
      Some (r\<lparr>t_state := nxt, t_admission_pending := 0, t_updated_at := now\<rparr>)"
    if "queryGetTask tid (s_tasks w) = Some r" for r now
    unfolding queryTransitionTask_def using that by (rule row_update) simp_all
  then show ?thesis
    using assms by (auto simp: Transition_def run_tx_tick [OF t] State_Monad.bind_def Let_def case_prod_beta
      queryTaskState_def fireCompleted_def split: if_splits option.splits)
qed

lemma ClearPausedHoldCode_ok:
  assumes "run_state (ClearPausedHoldCode tid) w = (Inr c, w')"
    and "queryGetTask tid (s_tasks w) = Some r" and "t_state r = StatePaused"
  shows "\<exists>r'. queryGetTask tid (s_tasks w') = Some r' \<and> t_state r' = StatePaused \<and> \<not> has_hold_code r'"
proof (rule tick_cases [of w])
  fix f dt rest
  assume t: "run_state tick w = (f, after_tick dt rest w)"
  let ?rows = "\<lambda>now. queryClearPausedTaskHoldCode now tid (s_tasks w)"
  show ?thesis
  proof (cases "has_hold_code r")
    case True
    have "queryGetTask tid (fst (?rows now)) = Some (clear_code now r)" for now
      unfolding queryClearPausedTaskHoldCode_def
      by (rule row_update [OF assms(2)]) (simp_all add: assms(3) True clear_code_def)
    moreover have "snd (?rows now) \<noteq> 0" for now
      using assms(2,3) True sql_find_SomeD unfolding queryClearPausedTaskHoldCode_def queryGetTask_def
      by (fastforce simp: filter_empty_conv)
    ultimately show ?thesis
      using assms(1,3) by (auto simp: ClearPausedHoldCode_def run_tx_tick [OF t] Let_def case_prod_beta
        clear_code_def has_hold_code_def split: if_splits option.splits)
  next
    case False
    have "queryGetTask tid (fst (?rows now)) = Some r" for now
      unfolding queryClearPausedTaskHoldCode_def
      by (rule row_kept [OF assms(2)]) (simp_all add: False clear_code_def)
    then show ?thesis
      using assms False by (auto simp: ClearPausedHoldCode_def run_tx_tick [OF t] Let_def case_prod_beta
        split: if_splits option.splits)
  qed
qed

lemma transition_outcome_ok: "res_Ok (transition_outcome tid r) \<longleftrightarrow> r = Inr ()"
  by (auto simp: transition_outcome_def split: sum.split)

lemma engineFailure_not_ok [simp]: "\<not> res_Ok (engineFailure tid err)"
  by (simp add: engineFailure_def)

lemma pause_engine_first_ok:
  assumes "run_state (pause_engine_first engines tsk) w = (r, w')" and "res_Ok r" and "at_State tsk \<noteq> StatePaused"
  shows "\<exists>row. queryGetTask (at_ID tsk) (s_tasks w') = Some row \<and> t_state row = StatePaused"
  using assms
  by (auto simp: pause_engine_first_def transitionAction_def State_Monad.bind_def transition_outcome_ok
      dest!: Transition_ok split: sum.splits option.splits prod.splits)

lemma clear_hold_stamp_ok:
  "run_state (clear_hold_stamp tid) w = (r, w') \<Longrightarrow> res_Ok r \<Longrightarrow> \<exists>c. run_state (ClearPausedHoldCode tid) w = (Inr c, w')"
  by (auto simp: clear_hold_stamp_def State_Monad.bind_def split: sum.splits prod.splits if_splits)

lemma pause_leased_ok:
  assumes "run_state (pause_leased engines tid) w = (r, w')" and "res_Ok r"
  shows "\<exists>row. queryGetTask tid (s_tasks w') = Some row \<and> t_state row = StatePaused \<and> \<not> has_hold_code row"
proof -
  obtain cur w1 where g: "run_state (GetTask tid) w = (Inr cur, w1)"
    using assms by (auto simp: pause_leased_def State_Monad.bind_def split: sum.splits prod.splits if_splits)
  note cur = GetTask_ok [OF g]
  then have tid: "t_id cur = tid"
    unfolding queryGetTask_def using sql_find_SomeD by fastforce
  define tsk where "tsk = (action_task_of cur)\<lparr>at_Destination := ''''\<rparr>"
  have tsk: "at_ID tsk = tid" "at_State tsk = t_state cur"
    by (simp_all add: tsk_def action_task_of_def tid)
  obtain o1 w2 where o1: "run_state (if at_State tsk \<noteq> StatePaused then pause_engine_first engines tsk else ret (actionOk tid)) w1 = (o1, w2)"
    by fastforce
  then have run: "run_state (if \<not> res_Ok o1 then ret o1 else clear_hold_stamp tid) w2 = (r, w')"
    using assms(1) g by (simp add: pause_leased_def State_Monad.bind_def flip: tsk_def)
  with assms(2) have ok: "res_Ok o1" and clear: "run_state (clear_hold_stamp tid) w2 = (r, w')"
    by (auto split: if_splits)
  have "\<exists>row. queryGetTask tid (s_tasks w2) = Some row \<and> t_state row = StatePaused"
    using o1 ok pause_engine_first_ok [of engines tsk w1 o1 w2] cur tsk by (auto split: if_splits)
  then show ?thesis
    using clear_hold_stamp_ok [OF clear assms(2)] ClearPausedHoldCode_ok by blast
qed

text \<open>
  C25. An operator's pause takes the task over. Whatever the engines, the database and the goroutines that
  ran during the wait did: when the action reports success, the task is paused and carries no stamp of the
  disk-space guard or of a limit, so it is no candidate of the admission pass, which would otherwise resume
  what the operator parked.
\<close>

theorem pauseAction_takes_over:
  assumes "run_state (pauseAction engines others tsk) w = (r, w')" and "res_Ok r"
  shows "\<exists>row. queryGetTask (at_ID tsk) (s_tasks w') = Some row \<and> t_state row = StatePaused \<and>
    \<not> has_hold_code row \<and> \<not> is_candidate row"
proof -
  obtain l w1 where lease: "run_state (waitLease (at_ID tsk) others) w = (Some l, w1)"
    using assms by (auto simp: pauseAction_def State_Monad.bind_def split: prod.splits option.splits)
  obtain w2 where p: "run_state (pause_leased engines (at_ID tsk)) w1 = (r, w2)"
    and w': "s_tasks w' = s_tasks w2"
    using assms(1) lease by (auto simp: pauseAction_def State_Monad.bind_def releaseLease_def split: prod.splits)
  from pause_leased_ok [OF p assms(2)] obtain row where
    "queryGetTask (at_ID tsk) (s_tasks w2) = Some row" "t_state row = StatePaused" "\<not> has_hold_code row" by blast
  moreover from this have "\<not> is_candidate row"
    by (auto simp: is_candidate_def is_parked_disk_full_def has_hold_code_def holdCodes_def)
  ultimately show ?thesis using w' by auto
qed

definition demo_parked :: task where
  "demo_parked = (demo_task ''p'' StatePaused)\<lparr>t_error_code := Some ''disk_full''\<rparr>"

theorem pauseAction_takes_over_witness:
  "is_candidate demo_parked \<and>
   (\<exists>row \<in> set (s_tasks (snd (run_state (pauseAction demo_engines (ret ()) (action_task_of demo_parked)) (demo_world [demo_parked] [])))).
     t_state row = StatePaused \<and> \<not> is_candidate row)"
proof -
  let ?m = "pauseAction demo_engines (ret ()) (action_task_of demo_parked)"
  have ok: "res_Ok (fst (run_state ?m (demo_world [demo_parked] [])))" and "is_candidate demo_parked"
    by code_simp+
  moreover from pauseAction_takes_over [OF prod.collapse [symmetric] ok] obtain row where
    "queryGetTask (at_ID (action_task_of demo_parked)) (s_tasks (snd (run_state ?m (demo_world [demo_parked] [])))) = Some row"
    "t_state row = StatePaused" "\<not> is_candidate row" by blast
  ultimately show ?thesis
    unfolding queryGetTask_def using sql_find_SomeD by fastforce
qed

subsection \<open>The order of a removal\<close>

definition unlinks_in :: "string set \<Rightarrow> call_entry list \<Rightarrow> bool" where
  "unlinks_in paths cs \<longleftrightarrow> (\<forall>c \<in> set cs. \<exists>path \<in> paths. fst c = CallUnlink path)"

lemma unlink_targets_calls:
  "run_state (unlink_targets fs ts d) w = (d', w') \<Longrightarrow>
   \<exists>cs. w_calls w' = w_calls w @ cs \<and> unlinks_in (tg_Path ` set ts) cs"
proof (induction ts arbitrary: d w)
  case Nil
  then show ?case by (auto simp: unlinks_in_def)
next
  case (Cons t ts)
  obtain a w1 where u: "run_state (e_Unlink fs (tg_Path t)) w = (a, w1)" by fastforce
  with Cons.prems have "run_state (unlink_targets fs ts (count_unlink t a d)) w1 = (d', w')"
    by (simp add: State_Monad.bind_def)
  from Cons.IH [OF this] run_e_Unlink [OF u] show ?case
    by (auto simp: unlinks_in_def)
qed

lemma DeleteData_calls:
  assumes "run_state (DeleteData fs roots dir targets) w = (r, w')"
  shows "\<exists>cs. w_calls w' = w_calls w @ cs \<and> unlinks_in (insert dir (tg_Path ` set targets)) cs"
proof (cases "w' = w")
  case True
  then show ?thesis by (auto simp: unlinks_in_def)
next
  case False
  then obtain d w1 u w2 where run: "run_state (unlink_targets fs targets \<lparr>dr_Deleted = True, dr_DeleteData = True,
      dr_FilesUnlinked = 0, dr_BytesUnlinked = 0, dr_Missing = 0\<rparr>) w = (d, w1)"
    "run_state (removeTaskDir fs roots dir) w1 = (u, w2)" "w' = w2"
    using assms by (auto simp: DeleteData_def State_Monad.bind_def split: if_splits option.splits prod.splits)
  from unlink_targets_calls [OF run(1)] run_removeTaskDir [OF run(2)] run(3) show ?thesis
    by (auto simp: unlinks_in_def)
qed

text \<open>What a stopped transfer leaves in the trace: a pause and a removal, both acknowledged, or nothing to stop.\<close>

definition detached :: "task \<Rightarrow> call_entry list" where
  "detached tsk = (case t_engine_ref tsk of
      None \<Rightarrow> []
    | Some ref \<Rightarrow> let h = engineTaskID (t_engine tsk) (Some ref) in [(CallPause h, Inr ''''), (CallRemove h, Inr '''')])"

lemma e_Pause_call: "run_state (e_Pause e h) w = (a, w') \<Longrightarrow> w_calls w' = w_calls w @ [(CallPause h, shown_unlink a)]"
  and e_Remove_call: "run_state (e_Remove e h) w = (a, w') \<Longrightarrow> w_calls w' = w_calls w @ [(CallRemove h, shown_unlink a)]"
  by (auto simp: e_Pause_def e_Remove_def ecall_def shown_unlink_def split: prod.splits)

lemma removeEngineHandle_calls:
  assumes "run_state (removeEngineHandle engines tsk detachAfterPause) w = (p, w')"
  shows "\<exists>cs. w_calls w' = w_calls w @ cs \<and> (\<forall>c \<in> set cs. \<forall>path. fst c \<noteq> CallUnlink path) \<and>
    s_tasks w' = s_tasks w \<and> (p = None \<longrightarrow> cs = detached tsk)"
proof (cases "t_engine_ref tsk")
  case None
  then show ?thesis
    using assms by (simp add: removeEngineHandle_def detached_def)
next
  case (Some ref)
  have tasks: "s_tasks w' = s_tasks w"
    using assms by (auto simp: removeEngineHandle_def State_Monad.bind_def e_defs ecall_def Let_def
      split: option.splits prod.splits sum.splits)
  show ?thesis
    using assms Some tasks
    by (auto simp: removeEngineHandle_def State_Monad.bind_def detached_def Let_def shown_unlink_def no_text_def
      dest!: e_Pause_call e_Remove_call split: option.splits prod.splits sum.splits)
qed

lemma delete_recorded_calls:
  assumes "run_state (delete_recorded engines fs roots others tsk targets) w = (r, w')"
    and quiet: "\<And>v. w_calls (snd (run_state others v)) = w_calls v"
  shows "\<exists>detach unlinks. w_calls w' = w_calls w @ detach @ unlinks \<and>
    unlinks_in (insert (ownDir (t_destination tsk) targets) (tg_Path ` set targets)) unlinks \<and>
    (\<forall>c \<in> set detach. \<forall>path. fst c \<noteq> CallUnlink path) \<and>
    (unlinks \<noteq> [] \<longrightarrow> detach = detached tsk)"
    and "rejectedPaths fs (w_eng w) roots targets \<noteq> [] \<Longrightarrow> (\<exists>pr. r = Inl pr) \<and> w' = w"
proof -
  show "(\<exists>pr. r = Inl pr) \<and> w' = w" if "rejectedPaths fs (w_eng w) roots targets \<noteq> []"
    using assms(1) that by (auto simp: delete_recorded_def validateTargets_def Let_def)
  show "\<exists>detach unlinks. w_calls w' = w_calls w @ detach @ unlinks \<and>
    unlinks_in (insert (ownDir (t_destination tsk) targets) (tg_Path ` set targets)) unlinks \<and>
    (\<forall>c \<in> set detach. \<forall>path. fst c \<noteq> CallUnlink path) \<and> (unlinks \<noteq> [] \<longrightarrow> detach = detached tsk)"
  proof (cases "validateTargets fs (w_eng w) roots targets")
    case (Some pr)
    then show ?thesis
      using assms(1) by (auto simp: delete_recorded_def unlinks_in_def intro!: exI [of _ "[]"])
  next
    case None
    obtain p w1 where h: "run_state (removeEngineHandle engines tsk detachAfterPause) w = (p, w1)" by fastforce
    from removeEngineHandle_calls [OF h] obtain cs where
      cs: "w_calls w1 = w_calls w @ cs" "\<forall>c \<in> set cs. \<forall>path. fst c \<noteq> CallUnlink path" "p = None \<longrightarrow> cs = detached tsk"
      by blast
    show ?thesis
    proof (cases p)
      case (Some pr)
      then show ?thesis
        using assms(1) None h cs
        by (intro exI [of _ cs] exI [of _ "[]"]) (auto simp: delete_recorded_def State_Monad.bind_def unlinks_in_def)
    next
      case none: None
      obtain u w2 where o2: "run_state others w1 = (u, w2)" by (meson surj_pair)
      obtain d w3 where d: "run_state (DeleteData fs roots (ownDir (t_destination tsk) targets) targets) w2 = (d, w3)"
        by fastforce
      have "w' = w3"
        using assms(1) None h none o2 d by (simp add: delete_recorded_def State_Monad.bind_def)
      moreover have "w_calls w2 = w_calls w1" using quiet [of w1] o2 by simp
      moreover note DeleteData_calls [OF d]
      ultimately show ?thesis
        using cs none by auto
    qed
  qed
qed

text \<open>The targets of a task: its recorded files, resolved against its destination.\<close>

definition targets_of :: "task \<Rightarrow> 'z store_scheme \<Rightarrow> target list" where
  "targets_of tsk s = recordedTargets (t_destination tsk)
     (sort_key tf_file_index (filter (\<lambda>f. tf_task_id f = t_id tsk) (s_files s)))"

lemma ListFiles_ok:
  "run_state (ListFiles tid) w = (Inr fl, w') \<Longrightarrow> fl = sort_key tf_file_index (filter (\<lambda>f. tf_task_id f = tid) (s_files w))"
  by (cases rule: tick_cases [of w]) (auto simp: ListFiles_def query_def State_Monad.bind_def split: if_splits)

definition reads_only :: "('e, 'z) world_scheme \<Rightarrow> ('e, 'z) world_scheme \<Rightarrow> bool" where
  "reads_only w w' \<longleftrightarrow> s_tasks w' = s_tasks w \<and> s_files w' = s_files w \<and> s_events w' = s_events w \<and>
     w_calls w' = w_calls w \<and> w_eng w' = w_eng w"

interpretation reading: clock_rel reads_only
  by unfold_locales (auto simp: reads_only_def)

text \<open>
  C5. \<open>DELETE /tasks/{id}?delete_data=true\<close> keeps its order. Whatever the engines and the file system answer:
  only recorded files and the task's own directory are unlinked, and when anything is unlinked, the engine
  has acknowledged before that both the pause and the removal of exactly this task's transfer (or the task
  never had one). If a recorded path leaves the roots, the request fails with no call of an engine, no
  unlink, and no change of a row or of the log.
\<close>

theorem DeleteTask_order:
  assumes "run_state (DeleteTask_api engines fs roots others tid True False) w = (r, w')"
    and "queryGetTask tid (s_tasks w) = Some tsk" and "\<And>v. w_calls (snd (run_state others v)) = w_calls v"
  shows "(\<exists>detach unlinks. w_calls w' = w_calls w @ detach @ unlinks \<and>
      unlinks_in (insert (ownDir (t_destination tsk) (targets_of tsk w)) (tg_Path ` set (targets_of tsk w))) unlinks \<and>
      (\<forall>c \<in> set detach. \<forall>path. fst c \<noteq> CallUnlink path) \<and> (unlinks \<noteq> [] \<longrightarrow> detach = detached tsk)) \<and>
    (rejectedPaths fs (w_eng w) roots (targets_of tsk w) \<noteq> [] \<longrightarrow> (\<exists>pr. r = Inl pr) \<and> reads_only w w')"
proof -
  obtain g w1 where g: "run_state (GetTask tid) w = (g, w1)" by fastforce
  have r1: "reads_only w w1" by (rule state_io_relD [OF reading.io_GetTask g])
  show ?thesis
  proof (cases g)
    case (Inl err)
    then have "w' = w1" "\<exists>pr. r = Inl pr"
      using assms(1) g by (auto simp: DeleteTask_api_def State_Monad.bind_def)
    with r1 show ?thesis by (auto simp: reads_only_def unlinks_in_def)
  next
    case (Inr tsk')
    with g GetTask_ok assms(2) have tsk: "g = Inr tsk" by fastforce
    have tid: "t_id tsk = tid"
      using assms(2) sql_find_SomeD unfolding queryGetTask_def by fastforce
    obtain fl w2 where fl: "run_state (ListFiles tid) w1 = (fl, w2)" by fastforce
    have "reads_only w1 w2" by (rule state_io_relD [OF reading.io_reads(6) fl])
    with r1 have r2: "reads_only w w2" by (rule reading.step_trans)
    show ?thesis
    proof (cases fl)
      case (Inl err)
      then have "w' = w2" "\<exists>pr. r = Inl pr"
        using assms(1) g tsk fl tid by (auto simp: DeleteTask_api_def State_Monad.bind_def)
      with r2 show ?thesis by (auto simp: reads_only_def unlinks_in_def)
    next
      case (Inr rows)
      then have targets: "recordedTargets (t_destination tsk) rows = targets_of tsk w"
        using ListFiles_ok fl r1 tid by (fastforce simp: targets_of_def reads_only_def)
      obtain d w3 where d: "run_state (delete_recorded engines fs roots others tsk (targets_of tsk w)) w2 = (d, w3)"
        by fastforce
      have rest: "run_state (case d of Inl pr \<Rightarrow> ret (Inl pr) | Inr result \<Rightarrow> mark_removed tid (Some result)) w3 = (r, w')"
        using assms(1) g tsk fl tid Inr d targets by (cases d) (simp_all add: DeleteTask_api_def State_Monad.bind_def)
      have "state_io_rel no_calls (case d of Inl pr \<Rightarrow> ret (Inl pr) | Inr result \<Rightarrow> mark_removed tid (Some result))"
        unfolding mark_removed_def by (intro io_intros TrueI)
      from quiet_run [OF this rest] have "w_calls w' = w_calls w3" by (simp add: no_calls_def)
      moreover have "w' = w3 \<and> r = Inl pr" if "d = Inl pr" for pr
        using rest that by auto
      ultimately show ?thesis
        using delete_recorded_calls [OF d assms(3)] r2 by (auto simp: reads_only_def)
    qed
  qed
qed

definition demo_owned :: task where
  "demo_owned = (demo_task ''d'' StateSeeding)\<lparr>t_engine := ''aria2'', t_engine_ref := Some ''h1'', t_destination := ''/data''\<rparr>"

definition demo_delete_world :: "string list world" where
  "demo_delete_world = (demo_world [demo_owned] [])\<lparr>w_eng := [''/data/a''],
     s_files := [\<lparr>tf_id = ''f1'', tf_task_id = ''d'', tf_file_index = 0, tf_path = ''a'', tf_size_bytes = 7,
       tf_completed_bytes = 7, tf_selected = 1, tf_priority = None, tf_created_at = 0, tf_updated_at = 0\<rparr>]\<rparr>"

theorem DeleteTask_order_witness:
  "\<exists>unlinks. unlinks \<noteq> [] \<and> w_calls (snd (run_state (DeleteTask_api demo_engines demo_files [''/data''] (ret ()) ''d'' True False)
     demo_delete_world)) = detached demo_owned @ unlinks"
proof -
  let ?m = "DeleteTask_api demo_engines demo_files [''/data''] (ret ()) ''d'' True False"
  have row: "queryGetTask ''d'' (s_tasks demo_delete_world) = Some demo_owned"
    and start: "w_calls demo_delete_world = []"
    by (simp_all add: demo_delete_world_def demo_world_def demo_store_def demo_owned_def demo_task_def store.defs
      queryGetTask_def sql_find_def)
  have calls: "map fst (w_calls (snd (run_state ?m demo_delete_world))) =
      [CallPause ''aria2:h1'', CallRemove ''aria2:h1'', CallUnlink ''/data/a'']"
    by code_simp
  obtain detach unlinks where split: "w_calls (snd (run_state ?m demo_delete_world)) = detach @ unlinks"
    "\<forall>c \<in> set detach. \<forall>path. fst c \<noteq> CallUnlink path" "unlinks \<noteq> [] \<longrightarrow> detach = detached demo_owned"
    using DeleteTask_order [OF prod.collapse [symmetric, of "run_state ?m demo_delete_world"] row] start by auto
  have "CallUnlink ''/data/a'' \<in> fst ` set (detach @ unlinks)"
    using arg_cong [OF calls, of set] split(1) by (simp add: image_Un)
  with split(2) have "unlinks \<noteq> []" by fastforce
  with split show ?thesis by blast
qed

end
