(* ===== verification/Ssrf.thy ===== *)
theory Ssrf
  imports Prelude "HOL-Library.Word"
begin

unbundle bit_operations_syntax

section \<open>The outbound guard\<close>

text \<open>
  \<open>src/internal/secure/ssrf.go\<close>: which peer addresses, ports, schemes and redirects an outbound fetch may use.
  An address is a word of its width; an IPv6 address has a zone, the empty text for none. The parts of
  Go's \<open>net\<close> and \<open>netip\<close> the guard uses are written out. A nil table or logger is \<open>None\<close> or \<open>False\<close>, a nil
  guard is \<open>None\<close>. The resolver and the servers a fetch meets are arguments. Log records are left out.
\<close>

datatype addr = NoAddr | IP4 "32 word" | IP6 "128 word" string

definition Is4In6 :: "addr \<Rightarrow> bool" where
  "Is4In6 ip = (case ip of IP6 x _ \<Rightarrow> drop_bit 32 x = 0xffff | _ \<Rightarrow> False)"

definition Unmap :: "addr \<Rightarrow> addr" where
  "Unmap ip = (case ip of IP6 x _ \<Rightarrow> if Is4In6 ip then IP4 (ucast x) else ip | _ \<Rightarrow> ip)"

record ip_prefix =
  px_Addr :: addr
  px_Bits :: nat

definition Contains :: "ip_prefix \<Rightarrow> addr \<Rightarrow> bool" where
  "Contains p ip = (case (px_Addr p, ip) of
      (IP4 a, IP4 x) \<Rightarrow> drop_bit (32 - px_Bits p) (x XOR a) = 0
    | (IP6 a _, IP6 x zone) \<Rightarrow> zone = '''' \<and> drop_bit (128 - px_Bits p) (x XOR a) = 0
    | _ \<Rightarrow> False)"

definition ip4 :: "int \<Rightarrow> int \<Rightarrow> int \<Rightarrow> int \<Rightarrow> nat \<Rightarrow> ip_prefix" where
  "ip4 a b c d bits = \<lparr>px_Addr = IP4 (word_of_int (((a * 256 + b) * 256 + c) * 256 + d)), px_Bits = bits\<rparr>"

text \<open>An IPv6 prefix, by its first three groups; the rest of each one used here is zero.\<close>

definition ip6 :: "int \<Rightarrow> int \<Rightarrow> int \<Rightarrow> nat \<Rightarrow> ip_prefix" where
  "ip6 a b c bits = \<lparr>px_Addr = IP6 (word_of_int (((a * 65536 + b) * 65536 + c) * 2 ^ 80)) '''', px_Bits = bits\<rparr>"

definition denied4 :: "ip_prefix list" where
  "denied4 = [ip4 0 0 0 0 8, ip4 10 0 0 0 8, ip4 100 64 0 0 10, ip4 127 0 0 0 8, ip4 169 254 0 0 16,
     ip4 172 16 0 0 12, ip4 192 0 0 0 24, ip4 192 0 2 0 24, ip4 192 31 196 0 24, ip4 192 52 193 0 24,
     ip4 192 88 99 0 24, ip4 192 168 0 0 16, ip4 192 175 48 0 24, ip4 198 18 0 0 15, ip4 198 51 100 0 24,
     ip4 203 0 113 0 24, ip4 224 0 0 0 4, ip4 240 0 0 0 4]"

definition allowed6 :: "ip_prefix list" where
  "allowed6 = [ip6 0x2000 0 0 3]"

definition denied6 :: "ip_prefix list" where
  "denied6 = [ip6 0x2001 0 0 23, ip6 0x2001 0xdb8 0 32, ip6 0x2002 0 0 16, ip6 0x2620 0x4f 0x8000 48, ip6 0x3fff 0 0 20]"

definition privateLift :: "ip_prefix list" where
  "privateLift = [ip4 10 0 0 0 8, ip4 172 16 0 0 12, ip4 192 168 0 0 16, ip4 127 0 0 0 8, ip6 0xfc00 0 0 7,
     \<lparr>px_Addr = IP6 1 '''', px_Bits = 128\<rparr>]"

definition Is6 :: "addr \<Rightarrow> bool" where
  "Is6 ip = (case ip of IP6 _ _ \<Rightarrow> True | _ \<Rightarrow> False)"

record guard =
  gd_denied4 :: "ip_prefix list option"
  gd_denied6 :: "ip_prefix list"
  gd_allowed6 :: "ip_prefix list option"
  gd_allowPrivate :: bool
  gd_log :: bool
  gd_originPort :: string
  gd_originAddrs :: "addr list"

definition NewGuard :: "bool \<Rightarrow> guard" where
  "NewGuard allowPrivate =
     (let g = \<lparr>gd_denied4 = Some denied4, gd_denied6 = denied6, gd_allowed6 = Some allowed6,
        gd_allowPrivate = allowPrivate, gd_log = True, gd_originPort = '''', gd_originAddrs = []\<rparr> in
      if \<not> allowPrivate then g
      else g\<lparr>gd_denied4 := Some (filter (\<lambda>p. p \<notin> set privateLift) denied4),
        gd_allowed6 := Some (allowed6 @ filter (\<lambda>p. Is6 (px_Addr p)) privateLift)\<rparr>)"

text \<open>\<open>BlockedError\<close>; the prefix is \<open>None\<close> for the empty text.\<close>

record blocked =
  be_Reason :: string
  be_IP :: addr
  be_Prefix :: "ip_prefix option"
  be_Hop :: nat

definition refusal :: "string \<Rightarrow> blocked" where
  "refusal reason = \<lparr>be_Reason = reason, be_IP = NoAddr, be_Prefix = None, be_Hop = 0\<rparr>"

definition usable :: "guard option \<Rightarrow> bool" where
  "usable g = (case g of None \<Rightarrow> False | Some g \<Rightarrow> gd_log g \<and> gd_denied4 g \<noteq> None \<and> gd_allowed6 g \<noteq> None)"

definition deny :: "addr \<Rightarrow> ip_prefix option \<Rightarrow> blocked" where
  "deny ip p = (refusal ''address'')\<lparr>be_IP := ip, be_Prefix := p\<rparr>"

text \<open>\<open>None\<close> is the nil error: the address may be contacted.\<close>

definition AllowAddr :: "guard option \<Rightarrow> addr \<Rightarrow> blocked option" where
  "AllowAddr g addr =
     (let ip = (if Is4In6 addr then Unmap addr else addr) in
      if \<not> usable g then Some ((refusal ''guard'')\<lparr>be_IP := ip\<rparr>)
      else let gd = the g in
        (case ip of
          IP4 _ \<Rightarrow> (case List.find (\<lambda>p. Contains p ip) (the (gd_denied4 gd)) of
              Some p \<Rightarrow> Some (deny ip (Some p))
            | None \<Rightarrow> None)
        | _ \<Rightarrow>
            if \<not> list_ex (\<lambda>p. Contains p ip) (the (gd_allowed6 gd)) then Some (deny ip None)
            else (case List.find (\<lambda>p. Contains p ip) (gd_denied6 gd) of
                Some p \<Rightarrow> Some (deny ip (Some p))
              | None \<Rightarrow> None)))"

definition portAllowed :: "guard \<Rightarrow> string \<Rightarrow> addr \<Rightarrow> bool" where
  "portAllowed g port ip =
     (if port = ''80'' \<or> port = ''443'' then True
      else if gd_originPort g = '''' \<or> port \<noteq> gd_originPort g then False
      else ip \<in> set (gd_originAddrs g))"

subsection \<open>The address tables in numbers\<close>

lemma xor_zero_iff: "drop_bit n (x XOR a) = 0 \<longleftrightarrow> uint x div 2 ^ n = uint a div 2 ^ n" for x a :: "'w::len word"
proof -
  have "drop_bit n (x XOR a) = 0 \<longleftrightarrow> drop_bit n x = drop_bit n a"
    by (simp only: drop_bit_xor) (metis bit.xor_self xor.assoc xor.left_neutral xor.right_neutral)
  also have "\<dots> \<longleftrightarrow> uint (drop_bit n x) = uint (drop_bit n a)"
    by (rule word_uint_eq_iff)
  finally have "drop_bit n (x XOR a) = 0 \<longleftrightarrow> uint (drop_bit n x) = uint (drop_bit n a)" .
  moreover have "take_bit LENGTH('w) (uint v) = uint v" for v :: "'w word"
    by (rule take_bit_int_eq_self) simp_all
  ultimately show ?thesis by (simp add: unsigned_drop_bit_eq flip: drop_bit_eq_div)
qed

definition in_range :: "int \<times> int \<Rightarrow> int \<Rightarrow> bool" where
  "in_range r n \<longleftrightarrow> fst r \<le> n \<and> n \<le> snd r"

lemma same_block:
  assumes "0 < (k :: int)"
  shows "n div k = m div k \<longleftrightarrow> in_range (m div k * k, m div k * k + (k - 1)) n"
proof
  assume "n div k = m div k"
  then show "in_range (m div k * k, m div k * k + (k - 1)) n"
    using assms pos_mod_bound [OF assms, of n] pos_mod_sign [OF assms, of n] div_mult_mod_eq [of n k]
    by (simp add: in_range_def)
next
  assume "in_range (m div k * k, m div k * k + (k - 1)) n"
  then show "n div k = m div k"
    using assms int_div_pos_eq [of n k "m div k" "n - m div k * k"] by (simp add: in_range_def mult.commute)
qed

lemma Contains_ip4:
  assumes "((a * 256 + b) * 256 + c) * 256 + d = N" and "0 \<le> N" and "N < 2 ^ 32"
  shows "Contains (ip4 a b c d bits) (IP4 x) \<longleftrightarrow>
    in_range (N div 2 ^ (32 - bits) * 2 ^ (32 - bits), N div 2 ^ (32 - bits) * 2 ^ (32 - bits) + (2 ^ (32 - bits) - 1)) (uint x)"
  using assms(2,3)
  by (simp only: Contains_def ip4_def assms(1) addr.case ip_prefix.select_convs prod.case xor_zero_iff)
    (simp add: same_block uint_word_of_int)

lemma Contains_ip6:
  assumes "((a * 65536 + b) * 65536 + c) * 2 ^ 80 = N" and "0 \<le> N" and "N < 2 ^ 128"
  shows "Contains (ip6 a b c bits) (IP6 x z) \<longleftrightarrow> z = '''' \<and>
    in_range (N div 2 ^ (128 - bits) * 2 ^ (128 - bits), N div 2 ^ (128 - bits) * 2 ^ (128 - bits) + (2 ^ (128 - bits) - 1)) (uint x)"
  using assms(2,3)
  by (simp only: Contains_def ip6_def assms(1) addr.case ip_prefix.select_convs prod.case xor_zero_iff)
    (simp add: same_block uint_word_of_int)

text \<open>The special-purpose blocks of IPv4, first and last address, and the private ones among them.\<close>

definition private4 :: "(int \<times> int) list" where
  "private4 = [(0x0A000000, 0x0AFFFFFF), (0x7F000000, 0x7FFFFFFF), (0xAC100000, 0xAC1FFFFF), (0xC0A80000, 0xC0A8FFFF)]"

definition special4 :: "(int \<times> int) list" where
  "special4 = [(0x00000000, 0x00FFFFFF), (0x64400000, 0x647FFFFF), (0xA9FE0000, 0xA9FEFFFF),
     (0xC0000000, 0xC00000FF), (0xC0000200, 0xC00002FF), (0xC01FC400, 0xC01FC4FF), (0xC034C100, 0xC034C1FF),
     (0xC0586300, 0xC05863FF), (0xC0AF3000, 0xC0AF30FF), (0xC6120000, 0xC613FFFF), (0xC6336400, 0xC63364FF),
     (0xCB007100, 0xCB0071FF), (0xE0000000, 0xEFFFFFFF), (0xF0000000, 0xFFFFFFFF)]"

lemmas Contains_ranges = Contains_ip4 [OF refl] Contains_ip6 [OF refl]

lemma denied4_ranges:
  "list_ex (\<lambda>p. Contains p (IP4 x)) denied4 \<longleftrightarrow>
   list_ex (\<lambda>r. in_range r (uint x)) special4 \<or> list_ex (\<lambda>r. in_range r (uint x)) private4"
  unfolding denied4_def special4_def private4_def by (simp add: Contains_ranges) blast

definition public6 :: "int \<times> int" where
  "public6 = (0x20000000000000000000000000000000, 0x3FFFFFFFFFFFFFFFFFFFFFFFFFFFFFFF)"

definition private6 :: "(int \<times> int) list" where
  "private6 = [(0xFC000000000000000000000000000000, 0xFDFFFFFFFFFFFFFFFFFFFFFFFFFFFFFF), (1, 1)]"

definition special6 :: "(int \<times> int) list" where
  "special6 = [(0x20010000000000000000000000000000, 0x200101FFFFFFFFFFFFFFFFFFFFFFFFFF),
     (0x20010DB8000000000000000000000000, 0x20010DB8FFFFFFFFFFFFFFFFFFFFFFFF),
     (0x20020000000000000000000000000000, 0x2002FFFFFFFFFFFFFFFFFFFFFFFFFFFF),
     (0x2620004F800000000000000000000000, 0x2620004F8000FFFFFFFFFFFFFFFFFFFF),
     (0x3FFF0000000000000000000000000000, 0x3FFF0FFFFFFFFFFFFFFFFFFFFFFFFFFF)]"

lemma lifted4: "filter (\<lambda>p. p \<notin> set privateLift) denied4 =
  [ip4 0 0 0 0 8, ip4 100 64 0 0 10, ip4 169 254 0 0 16, ip4 192 0 0 0 24, ip4 192 0 2 0 24, ip4 192 31 196 0 24,
   ip4 192 52 193 0 24, ip4 192 88 99 0 24, ip4 192 175 48 0 24, ip4 198 18 0 0 15, ip4 198 51 100 0 24,
   ip4 203 0 113 0 24, ip4 224 0 0 0 4, ip4 240 0 0 0 4]"
  by code_simp

lemma lifted6: "filter (\<lambda>p. Is6 (px_Addr p)) privateLift = [ip6 0xfc00 0 0 7, \<lparr>px_Addr = IP6 1 '''', px_Bits = 128\<rparr>]"
  by code_simp

lemma lifted4_ranges:
  "list_ex (\<lambda>p. Contains p (IP4 x)) (filter (\<lambda>p. p \<notin> set privateLift) denied4) \<longleftrightarrow> list_ex (\<lambda>r. in_range r (uint x)) special4"
  unfolding lifted4 special4_def by (simp add: Contains_ranges)

lemma Contains_loopback6: "Contains \<lparr>px_Addr = IP6 1 '''', px_Bits = 128\<rparr> (IP6 x z) \<longleftrightarrow> z = '''' \<and> in_range (1, 1) (uint x)"
  by (auto simp: Contains_def in_range_def xor_zero_iff [where n = 0, simplified])

lemma tables6:
  "list_ex (\<lambda>p. Contains p (IP6 x z)) allowed6 \<longleftrightarrow> z = '''' \<and> in_range public6 (uint x)"
  "list_ex (\<lambda>p. Contains p (IP6 x z)) denied6 \<longleftrightarrow> z = '''' \<and> list_ex (\<lambda>r. in_range r (uint x)) special6"
  "list_ex (\<lambda>p. Contains p (IP6 x z)) (filter (\<lambda>p. Is6 (px_Addr p)) privateLift) \<longleftrightarrow>
    z = '''' \<and> list_ex (\<lambda>r. in_range r (uint x)) private6"
  unfolding allowed6_def denied6_def special6_def private6_def public6_def lifted6
  by (auto simp: Contains_ranges Contains_loopback6)

lemma private6_apart: "list_ex (\<lambda>r. in_range r n) private6 \<Longrightarrow> \<not> list_ex (\<lambda>r. in_range r n) special6"
  by (auto simp: private6_def special6_def in_range_def)

text \<open>What the guard lets through, in numbers.\<close>

definition admitted :: "bool \<Rightarrow> addr \<Rightarrow> bool" where
  "admitted allowPrivate addr = (case Unmap addr of
      NoAddr \<Rightarrow> False
    | IP4 x \<Rightarrow> \<not> list_ex (\<lambda>r. in_range r (uint x)) special4 \<and>
        (allowPrivate \<or> \<not> list_ex (\<lambda>r. in_range r (uint x)) private4)
    | IP6 x zone \<Rightarrow> zone = '''' \<and>
        (in_range public6 (uint x) \<and> \<not> list_ex (\<lambda>r. in_range r (uint x)) special6 \<or>
         allowPrivate \<and> list_ex (\<lambda>r. in_range r (uint x)) private6))"

lemma AllowAddr_admitted:
  "AllowAddr (Some (NewGuard allowPrivate)) addr = None \<longleftrightarrow> admitted allowPrivate addr"
proof -
  have found: "(case List.find P xs of Some p \<Rightarrow> Some (f p) | None \<Rightarrow> None) = None \<longleftrightarrow> \<not> list_ex P xs" for P f and xs :: "ip_prefix list"
    by (induction xs) auto
  have unmap: "(if Is4In6 addr then Unmap addr else addr) = Unmap addr"
    by (simp add: Is4In6_def Unmap_def split: addr.split)
  show ?thesis
  proof (cases "Unmap addr")
    case NoAddr
    then show ?thesis
      unfolding AllowAddr_def unmap Let_def
      by (cases allowPrivate) (simp_all add: NewGuard_def usable_def admitted_def allowed6_def lifted6 Contains_def ip6_def)
  next
    case (IP4 x)
    then show ?thesis
      unfolding AllowAddr_def unmap Let_def
      using denied4_ranges [of x] lifted4_ranges [of x]
      by (cases allowPrivate) (simp_all add: NewGuard_def usable_def admitted_def found)
  next
    case (IP6 x z)
    then show ?thesis
      unfolding AllowAddr_def unmap Let_def
      using tables6 [of x z] private6_apart [of "uint x"]
      by (cases allowPrivate) (auto simp: NewGuard_def usable_def admitted_def found)
  qed
qed

text \<open>
  C9. The address guard, bit by bit. An address may be contacted exactly when, read as a number and after
  an IPv4-mapped form has been unwrapped, it is an IPv4 address outside every special-purpose block or a
  global-unicast IPv6 address without a zone outside the five blocks reserved there; the private switch
  adds the private, loopback and unique-local ranges and nothing else: link-local (where the metadata
  services live), unspecified, multicast and documentation ranges stay denied under either setting.
\<close>

theorem AllowAddr_correct:
  "AllowAddr (Some (NewGuard allowPrivate)) addr = None \<longleftrightarrow> admitted allowPrivate addr"
  by (rule AllowAddr_admitted)

subsection \<open>Reading addresses: \<open>netip.ParseAddr\<close> and \<open>net.SplitHostPort\<close>\<close>

text \<open>The value and the number of digits of the field being read, and the fields before it, newest first.\<close>

fun v4_fields :: "string \<Rightarrow> int \<Rightarrow> nat \<Rightarrow> int list \<Rightarrow> int list option" where
  "v4_fields [] val digLen seen = (if length seen < 3 then None else Some (rev (val # seen)))"
| "v4_fields (c # cs) val digLen seen = (case digit_val c of
      Some d \<Rightarrow>
        if digLen = 1 \<and> val = 0 then None
        else if 255 < val * 10 + int d then None
        else v4_fields cs (val * 10 + int d) (Suc digLen) seen
    | None \<Rightarrow>
        if c \<noteq> CHR ''.'' then None
        else if digLen = 0 \<or> cs = [] then None
        else if length seen = 3 then None
        else v4_fields cs 0 0 (val # seen))"

definition hex_digit :: "char \<Rightarrow> nat option" where
  "hex_digit c = (case digit_val c of
      Some d \<Rightarrow> Some d
    | None \<Rightarrow>
        let n = (of_char c :: nat) in
        if 97 \<le> n \<and> n \<le> 102 then Some (n - 87) else if 65 \<le> n \<and> n \<le> 70 then Some (n - 55) else None)"

definition hex_val :: "string \<Rightarrow> int" where
  "hex_val ds = fold (\<lambda>c acc. acc * 16 + int (the (hex_digit c))) ds 0"

text \<open>The loop over the groups: what is left of the text, the groups, and where the ellipsis was.\<close>

fun v6_groups :: "nat \<Rightarrow> string \<Rightarrow> int list \<Rightarrow> nat option \<Rightarrow> (string \<times> int list \<times> nat option) option" where
  "v6_groups 0 s gs e = Some (s, gs, e)"
| "v6_groups (Suc k) s gs e =
     (let ds = takeWhile (\<lambda>c. hex_digit c \<noteq> None) s; rest = drop (length ds) s in
      if 4 < length ds \<or> ds = [] then None
      else if rest \<noteq> [] \<and> hd rest = CHR ''.'' then
        if e = None \<and> length gs \<noteq> 6 then None
        else if 6 < length gs then None
        else (case v4_fields s 0 0 [] of
            Some [a, b, c, d] \<Rightarrow> Some ('''', gs @ [a * 256 + b, c * 256 + d], e)
          | _ \<Rightarrow> None)
      else let gs' = gs @ [hex_val ds] in
        if rest = [] then Some ('''', gs', e)
        else if hd rest \<noteq> CHR '':'' \<or> tl rest = [] then None
        else let s' = tl rest in
          if hd s' = CHR '':'' then
            if e \<noteq> None then None
            else if tl s' = [] then Some ('''', gs', Some (length gs'))
            else v6_groups k (tl s') gs' (Some (length gs'))
          else v6_groups k s' gs' e)"

definition of_groups :: "int list \<Rightarrow> 128 word" where
  "of_groups gs = word_of_int (fold (\<lambda>g acc. acc * 65536 + g) gs 0)"

definition parseIPv6 :: "string \<Rightarrow> addr option" where
  "parseIPv6 input =
     (case Cut1 input (CHR ''%'') of (s, zone, zoned) \<Rightarrow>
      if zoned \<and> zone = '''' then None
      else let leading = HasPrefix s ''::''; body = (if leading then drop 2 s else s) in
        if leading \<and> body = '''' then Some (IP6 0 zone)
        else (case v6_groups 8 body [] (if leading then Some 0 else None) of
            None \<Rightarrow> None
          | Some (left, gs, e) \<Rightarrow>
              if left \<noteq> '''' then None
              else if length gs < 8 then
                (case e of
                   None \<Rightarrow> None
                 | Some p \<Rightarrow> Some (IP6 (of_groups (take p gs @ replicate (8 - length gs) 0 @ drop p gs)) zone))
              else if e \<noteq> None then None
              else Some (IP6 (of_groups gs) zone)))"

definition ParseAddr :: "string \<Rightarrow> addr option" where
  "ParseAddr s = (case dropWhile (\<lambda>c. c \<notin> {CHR ''.'', CHR '':'', CHR ''%''}) s of
      [] \<Rightarrow> None
    | c # _ \<Rightarrow>
        if c = CHR ''.'' then
          (case v4_fields s 0 0 [] of
             Some [a, b, c, d] \<Rightarrow> Some (IP4 (word_of_int (((a * 256 + b) * 256 + c) * 256 + d)))
           | _ \<Rightarrow> None)
        else if c = CHR '':'' then parseIPv6 s
        else None)"

text \<open>The port starts after the last colon; an IPv6 host stands in brackets.\<close>

definition SplitHostPort :: "string \<Rightarrow> (string \<times> string) option" where
  "SplitHostPort hostport =
     (if CHR '':'' \<notin> set hostport then None
      else let port = rev (takeWhile (\<lambda>c. c \<noteq> CHR '':'') (rev hostport));
               front = take (length hostport - length port - 1) hostport in
        if hd hostport = CHR ''['' then
          (case Cut1 hostport (CHR '']'') of (bracketed, after, found) \<Rightarrow>
           if \<not> found \<or> after \<noteq> CHR '':'' # port then None
           else let host = tl bracketed in
             if CHR ''['' \<in> set host \<or> CHR ''['' \<in> set after \<or> CHR '']'' \<in> set after then None
             else Some (host, port))
        else if CHR '':'' \<in> set front \<or> CHR ''['' \<in> set hostport \<or> CHR '']'' \<in> set hostport then None
        else Some (front, port))"

subsection \<open>The dialer's check, and redirects\<close>

definition Check :: "guard option \<Rightarrow> string \<Rightarrow> string \<Rightarrow> blocked option" where
  "Check g network address =
     (if \<not> usable g then Some (refusal ''guard'')
      else if network \<noteq> ''tcp4'' \<and> network \<noteq> ''tcp6'' then Some (refusal ''network'')
      else (case SplitHostPort address of
          None \<Rightarrow> Some (refusal ''port'')
        | Some (host, port) \<Rightarrow> (case ParseAddr host of
              None \<Rightarrow> Some (refusal ''resolve'')
            | Some addr \<Rightarrow>
                let ip = (if Is4In6 addr then Unmap addr else addr) in
                if \<not> portAllowed (the g) port ip then Some (refusal ''port'')
                else AllowAddr g ip)))"

record fetch_url =
  fu_Scheme :: string
  fu_Hostname :: string
  fu_Port :: string

text \<open>\<open>lookup\<close> is the resolver.\<close>

definition ForOrigin :: "(string \<Rightarrow> addr list option) \<Rightarrow> guard option \<Rightarrow> fetch_url option \<Rightarrow> guard option" where
  "ForOrigin lookup g url = (case (g, url) of
      (Some gd, Some u) \<Rightarrow>
        if \<not> gd_allowPrivate gd \<or> fu_Port u = '''' then g
        else (case lookup (fu_Hostname u) of
            None \<Rightarrow> g
          | Some ips \<Rightarrow>
              if ips = [] then g
              else Some (gd\<lparr>gd_originPort := fu_Port u, gd_originAddrs := map Unmap ips\<rparr>))
    | _ \<Rightarrow> g)"

definition redirectHopCap :: nat where "redirectHopCap = 5"

text \<open>\<open>hops\<close> is the number of requests made so far.\<close>

definition CheckRedirect :: "guard option \<Rightarrow> fetch_url option \<Rightarrow> nat \<Rightarrow> blocked option" where
  "CheckRedirect g url hops =
     (if \<not> usable g then Some ((refusal ''guard'')\<lparr>be_Hop := hops\<rparr>)
      else if redirectHopCap \<le> hops then Some ((refusal ''redirect_cap'')\<lparr>be_Hop := hops\<rparr>)
      else (case url of
          None \<Rightarrow> Some ((refusal ''scheme'')\<lparr>be_Hop := hops\<rparr>)
        | Some u \<Rightarrow>
            if fu_Scheme u \<noteq> ''http'' \<and> fu_Scheme u \<noteq> ''https'' then Some ((refusal ''scheme'')\<lparr>be_Hop := hops\<rparr>)
            else None))"

subsection \<open>A fetch\<close>

text \<open>
  \<open>NewClient\<close> wires the guard into Go's HTTP client: the check runs on every address the dialer is about
  to connect to, and the redirect check before every further request. \<open>addrs n u\<close> are the networks and
  addresses the n-th request is dialed to, whatever the resolver says at that moment; \<open>respond n\<close> is the
  server's answer. The result lists, for each request, its URL and the addresses connected to.
\<close>

datatype fetch_answer = Body | Redirect "fetch_url option"

datatype fetch_end = Fetched | NotConnected | Refused blocked

function fetch_from ::
  "guard option \<Rightarrow> (nat \<Rightarrow> fetch_url \<Rightarrow> (string \<times> string) list) \<Rightarrow> (nat \<Rightarrow> fetch_answer) \<Rightarrow> nat \<Rightarrow> fetch_url \<Rightarrow>
   (fetch_url \<times> (string \<times> string) list) list \<times> fetch_end" where
  "fetch_from g addrs respond n u =
     (let dialed = filter (\<lambda>(network, address). Check g network address = None) (addrs n u) in
      if dialed = [] then ([(u, [])], NotConnected)
      else (case respond n of
          Body \<Rightarrow> ([(u, dialed)], Fetched)
        | Redirect url \<Rightarrow> (case CheckRedirect g url (Suc n) of
              Some err \<Rightarrow> ([(u, dialed)], Refused err)
            | None \<Rightarrow> (case fetch_from g addrs respond (Suc n) (the url) of
                (reqs, result) \<Rightarrow> ((u, dialed) # reqs, result)))))"
  by pat_completeness auto
termination
  by (relation "measure (\<lambda>(g, addrs, respond, n, u). redirectHopCap - n)")
    (auto simp: CheckRedirect_def split: if_splits)

declare fetch_from.simps [simp del]

definition fetch where
  "fetch g addrs respond u = fetch_from g addrs respond 0 u"

subsection \<open>What a fetch can reach\<close>

lemma Unmap_Unmap [simp]: "Unmap (Unmap ip) = Unmap ip"
  by (cases ip) (simp_all add: Unmap_def Is4In6_def)

lemma admitted_Unmap [simp]: "admitted allowPrivate (Unmap ip) = admitted allowPrivate ip"
  by (simp add: admitted_def)

lemma unmap_if [simp]: "(if Is4In6 ip then Unmap ip else ip) = Unmap ip"
  by (simp add: Is4In6_def Unmap_def split: addr.split)

lemma AllowAddr_origin:
  "AllowAddr (Some (g\<lparr>gd_originPort := p, gd_originAddrs := as\<rparr>)) ip = AllowAddr (Some g) ip"
  unfolding AllowAddr_def usable_def Let_def by (cases "Unmap ip") simp_all

text \<open>The guard of an origin, as a function of what the origin resolved to.\<close>

lemma ForOrigin_cases:
  "ForOrigin lookup (Some g) url = Some g \<or>
   (\<exists>u ips. ForOrigin lookup (Some g) url = Some (g\<lparr>gd_originPort := fu_Port u, gd_originAddrs := map Unmap ips\<rparr>) \<and>
     url = Some u \<and> gd_allowPrivate g \<and> lookup (fu_Hostname u) = Some ips)"
  by (auto simp: ForOrigin_def split: option.split)

lemma NewGuard_fields [simp]:
  "usable (Some (NewGuard ap))" "gd_originPort (NewGuard ap) = ''''" "gd_allowPrivate (NewGuard ap) = ap"
  by (simp_all add: usable_def NewGuard_def Let_def)

definition reaches :: "bool \<Rightarrow> (string \<Rightarrow> addr \<Rightarrow> bool) \<Rightarrow> string \<times> string \<Rightarrow> bool" where
  "reaches ap extra d \<longleftrightarrow> fst d \<in> {''tcp4'', ''tcp6''} \<and> (\<exists>host port ip. SplitHostPort (snd d) = Some (host, port) \<and>
     ParseAddr host = Some ip \<and> admitted ap ip \<and> (port = ''80'' \<or> port = ''443'' \<or> extra port (Unmap ip)))"

lemma Check_iff:
  assumes "usable (Some g)" and "\<And>ip. AllowAddr (Some g) ip = AllowAddr (Some (NewGuard ap)) ip"
  shows "Check (Some g) network address = None \<longleftrightarrow>
    reaches ap (\<lambda>port ip. gd_originPort g \<noteq> '''' \<and> port = gd_originPort g \<and> ip \<in> set (gd_originAddrs g)) (network, address)"
  using assms(1)
  by (auto simp: Check_def reaches_def assms(2) AllowAddr_admitted portAllowed_def Let_def split: option.splits)

lemma Check_NewGuard: "Check (Some (NewGuard ap)) network address = None \<longleftrightarrow> reaches ap (\<lambda>_ _. False) (network, address)"
  by (simp add: Check_iff [of "NewGuard ap" ap])

lemma Check_ForOrigin:
  assumes "Check (ForOrigin lookup (Some (NewGuard ap)) url) network address = None"
  shows "reaches ap (\<lambda>port ip. ap \<and> (\<exists>u ips. url = Some u \<and> port = fu_Port u \<and> lookup (fu_Hostname u) = Some ips \<and>
    ip \<in> Unmap ` set ips)) (network, address)"
  using ForOrigin_cases [of lookup "NewGuard ap" url]
proof
  assume "ForOrigin lookup (Some (NewGuard ap)) url = Some (NewGuard ap)"
  with assms show ?thesis by (auto simp: Check_NewGuard reaches_def)
next
  assume "\<exists>u ips. ForOrigin lookup (Some (NewGuard ap)) url =
      Some ((NewGuard ap)\<lparr>gd_originPort := fu_Port u, gd_originAddrs := map Unmap ips\<rparr>) \<and>
    url = Some u \<and> gd_allowPrivate (NewGuard ap) \<and> lookup (fu_Hostname u) = Some ips"
  then obtain u ips where u: "ForOrigin lookup (Some (NewGuard ap)) url =
      Some ((NewGuard ap)\<lparr>gd_originPort := fu_Port u, gd_originAddrs := map Unmap ips\<rparr>)" "url = Some u" "ap"
    "lookup (fu_Hostname u) = Some ips" by auto
  have "usable (Some ((NewGuard ap)\<lparr>gd_originPort := fu_Port u, gd_originAddrs := map Unmap ips\<rparr>))"
    by (simp add: usable_def NewGuard_def Let_def)
  from Check_iff [OF this AllowAddr_origin] assms u show ?thesis
    by (auto simp: reaches_def)
qed

lemma fetch_from_requests:
  "fetch_from g addrs respond n u = (reqs, result) \<Longrightarrow>
   (\<forall>r \<in> set reqs. \<forall>d \<in> set (snd r). Check g (fst d) (snd d) = None) \<and>
   (\<forall>r \<in> set (tl reqs). fu_Scheme (fst r) \<in> {''http'', ''https''}) \<and>
   reqs \<noteq> [] \<and> fst (hd reqs) = u \<and> (n < redirectHopCap \<longrightarrow> n + length reqs \<le> redirectHopCap)"
proof (induction g addrs respond n u arbitrary: reqs result rule: fetch_from.induct)
  case (1 g addrs respond n u)
  define dialed where "dialed = filter (\<lambda>(network, address). Check g network address = None) (addrs n u)"
  have dialed: "\<forall>d \<in> set dialed. Check g (fst d) (snd d) = None"
    by (auto simp: dialed_def)
  note simps = fetch_from.simps [of g addrs respond n u, folded dialed_def, unfolded Let_def]
  show ?case
  proof (cases "\<exists>url. dialed \<noteq> [] \<and> respond n = Redirect url \<and> CheckRedirect g url (Suc n) = None")
    case True
    then obtain url where url: "dialed \<noteq> []" "respond n = Redirect url" "CheckRedirect g url (Suc n) = None" by blast
    then obtain u' where u': "url = Some u'" "fu_Scheme u' \<in> {''http'', ''https''}" "Suc n < redirectHopCap"
      by (auto simp: CheckRedirect_def split: if_splits option.splits)
    obtain rest result' where rest: "fetch_from g addrs respond (Suc n) (the url) = (rest, result')" by fastforce
    have reqs: "reqs = (u, dialed) # rest"
      using "1.prems" url rest by (simp add: simps)
    from "1.IH" [OF dialed_def url rest] u' dialed show ?thesis
      by (cases rest) (auto simp: reqs)
  next
    case False
    then have "reqs = [(u, dialed)]"
      using "1.prems" by (auto simp: simps split: if_splits fetch_answer.splits option.splits)
    with dialed show ?thesis by simp
  qed
qed

text \<open>
  C8. No fetch can be led astray. Whatever the resolver answers at each request (another answer than
  before included), and wherever the servers redirect to: every address a guarded fetch connects to is one
  the address guard admits, on port 80 or 443, or, with the private switch, on the configured origin's port
  at an address the origin itself resolved to. Every redirect that is followed stays on http or https, and
  the whole fetch makes at most five requests, so it ends.
\<close>

theorem fetch_guarded:
  assumes "fetch (ForOrigin lookup (Some (NewGuard allowPrivate)) origin) addrs respond u = (reqs, result)"
  shows "(\<forall>r \<in> set reqs. \<forall>d \<in> set (snd r). reaches allowPrivate
      (\<lambda>port ip. allowPrivate \<and> (\<exists>u ips. origin = Some u \<and> port = fu_Port u \<and> lookup (fu_Hostname u) = Some ips \<and>
        ip \<in> Unmap ` set ips)) d) \<and>
    (\<forall>r \<in> set (tl reqs). fu_Scheme (fst r) \<in> {''http'', ''https''}) \<and>
    fst (hd reqs) = u \<and> 1 \<le> length reqs \<and> length reqs \<le> 5"
proof -
  note run = fetch_from_requests [OF assms [unfolded fetch_def]]
  then have "reaches allowPrivate
      (\<lambda>port ip. allowPrivate \<and> (\<exists>u ips. origin = Some u \<and> port = fu_Port u \<and> lookup (fu_Hostname u) = Some ips \<and>
        ip \<in> Unmap ` set ips)) d" if "r \<in> set reqs" "d \<in> set (snd r)" for r d
    using that Check_ForOrigin [of lookup allowPrivate origin "fst d" "snd d"] by simp
  with run show ?thesis
    by (cases reqs) (auto simp: redirectHopCap_def)
qed

definition demo_url :: "string \<Rightarrow> fetch_url" where
  "demo_url host = \<lparr>fu_Scheme = ''http'', fu_Hostname = host, fu_Port = ''''\<rparr>"

text \<open>The first server redirects; the name then resolves to the metadata address and to a public one.\<close>

definition demo_dial :: "nat \<Rightarrow> fetch_url \<Rightarrow> (string \<times> string) list" where
  "demo_dial n u = (if n = 0 then [(''tcp4'', ''93.184.216.34:80'')]
     else [(''tcp4'', ''169.254.169.254:80''), (''tcp6'', ''[2606:2800:220:1::5]:80'')])"

definition demo_answer :: "nat \<Rightarrow> fetch_answer" where
  "demo_answer n = (if n = 0 then Redirect (Some (demo_url ''b'')) else Body)"

theorem fetch_guarded_witness:
  "fetch (ForOrigin (\<lambda>_. None) (Some (NewGuard True)) None) demo_dial demo_answer (demo_url ''a'') =
     ([(demo_url ''a'', [(''tcp4'', ''93.184.216.34:80'')]), (demo_url ''b'', [(''tcp6'', ''[2606:2800:220:1::5]:80'')])], Fetched) \<and>
   reaches True (\<lambda>_ _. False) (''tcp6'', ''[2606:2800:220:1::5]:80'')"
proof -
  have run: "fetch (ForOrigin (\<lambda>_. None) (Some (NewGuard True)) None) demo_dial demo_answer (demo_url ''a'') =
     ([(demo_url ''a'', [(''tcp4'', ''93.184.216.34:80'')]), (demo_url ''b'', [(''tcp6'', ''[2606:2800:220:1::5]:80'')])], Fetched)"
    by code_simp
  with fetch_guarded [OF run] show ?thesis by simp
qed

text \<open>
  The cap of the source, five, is compared with the number of requests made so far, so a chain of five
  redirects is refused at the fifth one: a fetch follows four.
\<close>

lemma fifth_redirect_refused:
  "fetch (Some (NewGuard False)) (\<lambda>_ _. [(''tcp4'', ''93.184.216.34:80'')])
     (\<lambda>n. if n < 5 then Redirect (Some (demo_url ''a'')) else Body) (demo_url ''a'') =
   (replicate 5 (demo_url ''a'', [(''tcp4'', ''93.184.216.34:80'')]),
    Refused ((refusal ''redirect_cap'')\<lparr>be_Hop := 5\<rparr>))"
  by code_simp

end
