(* ===== verification/GoText.thy ===== *)
theory GoText
  imports Ssrf
begin

section \<open>Go's text functions\<close>

text \<open>
  A Go string is a byte string; what the sources use of \<open>strings\<close>, \<open>unicode/utf8\<close>, \<open>encoding/hex\<close>,
  \<open>encoding/base32\<close>, \<open>encoding/base64\<close> and \<open>net/url\<close> is written out over bytes. The case tables of Unicode
  beyond ASCII are an argument.
\<close>

definition byte :: "char \<Rightarrow> nat" where "byte c = of_char c"
definition chr :: "nat \<Rightarrow> char" where "chr n = char_of n"

lemma byte_less [simp]: "byte c < 256"
  unfolding byte_def using of_char_mod_256 [of c] by (metis mod_less_divisor zero_less_numeral)

lemma chr_byte [simp]: "chr (byte c) = c"
  by (simp add: byte_def chr_def)

lemma byte_chr [simp]: "n < 256 \<Longrightarrow> byte (chr n) = n"
  by (simp add: byte_def chr_def)

lemma byte_inj: "byte c = byte d \<longleftrightarrow> c = d"
  by (metis chr_byte)

subsection \<open>Runes\<close>

text \<open>The second byte a leading byte admits, and the number of bytes it announces.\<close>

definition lead :: "nat \<Rightarrow> (nat \<times> nat \<times> nat) option" where
  "lead b = (if 0xC2 \<le> b \<and> b \<le> 0xDF then Some (2, 0x80, 0xBF)
     else if b = 0xE0 then Some (3, 0xA0, 0xBF)
     else if b = 0xED then Some (3, 0x80, 0x9F)
     else if 0xE1 \<le> b \<and> b \<le> 0xEF then Some (3, 0x80, 0xBF)
     else if b = 0xF0 then Some (4, 0x90, 0xBF)
     else if b = 0xF4 then Some (4, 0x80, 0x8F)
     else if 0xF1 \<le> b \<and> b \<le> 0xF3 then Some (4, 0x80, 0xBF)
     else None)"

definition RuneError :: nat where "RuneError = 0xFFFD"

definition trailing :: "char \<Rightarrow> bool" where
  "trailing c \<longleftrightarrow> 0x80 \<le> byte c \<and> byte c \<le> 0xBF"

text \<open>The first rune of a non-empty string and its width; an invalid byte is \<open>RuneError\<close> of width one.\<close>

definition DecodeRune :: "string \<Rightarrow> nat \<times> nat" where
  "DecodeRune s = (case s of
      [] \<Rightarrow> (RuneError, 0)
    | c # cs \<Rightarrow>
        if byte c < 0x80 then (byte c, 1)
        else (case lead (byte c) of
            None \<Rightarrow> (RuneError, 1)
          | Some (w, lo, hi) \<Rightarrow>
              if length cs < w - 1 \<or> \<not> (lo \<le> byte (hd cs) \<and> byte (hd cs) \<le> hi) \<or> \<not> list_all trailing (take (w - 2) (tl cs))
              then (RuneError, 1)
              else (fold (\<lambda>x acc. acc * 64 + (byte x - 0x80)) (take (w - 1) cs)
                (if w = 2 then byte c - 0xC0 else if w = 3 then byte c - 0xE0 else byte c - 0xF0), w)))"

lemma DecodeRune_width: "s \<noteq> [] \<Longrightarrow> 0 < snd (DecodeRune s)"
  by (auto simp: DecodeRune_def lead_def split: list.splits option.splits if_splits)

function runes :: "string \<Rightarrow> nat list" where
  "runes s = (if s = [] then [] else fst (DecodeRune s) # runes (drop (snd (DecodeRune s)) s))"
  by auto
termination
  by (relation "measure length") (auto simp: DecodeRune_width)

declare runes.simps [simp del]

definition EncodeRune :: "nat \<Rightarrow> string" where
  "EncodeRune r =
     (if r < 0x80 then [chr r]
      else if r < 0x800 then [chr (0xC0 + r div 64), chr (0x80 + r mod 64)]
      else if 0x10FFFF < r \<or> 0xD800 \<le> r \<and> r \<le> 0xDFFF then [chr 0xEF, chr 0xBF, chr 0xBD]
      else if r < 0x10000 then [chr (0xE0 + r div 4096), chr (0x80 + r div 64 mod 64), chr (0x80 + r mod 64)]
      else [chr (0xF0 + r div 262144), chr (0x80 + r div 4096 mod 64), chr (0x80 + r div 64 mod 64), chr (0x80 + r mod 64)])"

definition ascii :: "string \<Rightarrow> bool" where
  "ascii s \<longleftrightarrow> list_all (\<lambda>c. byte c < 0x80) s"

lemma runes_ascii: "ascii s \<Longrightarrow> runes s = map byte s"
  by (induction s) (simp_all add: runes.simps ascii_def DecodeRune_def)

subsection \<open>Case and space\<close>

text \<open>\<open>unicode.ToLower\<close> and \<open>unicode.ToUpper\<close>; beyond ASCII they are tables.\<close>

record unicode =
  uc_lower :: "nat \<Rightarrow> nat"
  uc_upper :: "nat \<Rightarrow> nat"

definition lower_byte :: "char \<Rightarrow> char" where
  "lower_byte c = (if 65 \<le> byte c \<and> byte c \<le> 90 then chr (byte c + 32) else c)"

definition upper_byte :: "char \<Rightarrow> char" where
  "upper_byte c = (if 97 \<le> byte c \<and> byte c \<le> 122 then chr (byte c - 32) else c)"

definition ToLower :: "unicode \<Rightarrow> string \<Rightarrow> string" where
  "ToLower u s = (if ascii s then map lower_byte s
     else concat (map (\<lambda>r. if r < 0x80 then [lower_byte (chr r)] else EncodeRune (uc_lower u r)) (runes s)))"

definition ToUpper :: "unicode \<Rightarrow> string \<Rightarrow> string" where
  "ToUpper u s = (if ascii s then map upper_byte s
     else concat (map (\<lambda>r. if r < 0x80 then [upper_byte (chr r)] else EncodeRune (uc_upper u r)) (runes s)))"

text \<open>The encodings of the runes \<open>unicode.IsSpace\<close> accepts.\<close>

definition spaces :: "string list" where
  "spaces = map EncodeRune ([9, 10, 11, 12, 13, 32, 0x85, 0xA0, 0x1680] @ [0x2000..<0x200B] @
     [0x2028, 0x2029, 0x202F, 0x205F, 0x3000])"

function trim_with :: "string list \<Rightarrow> string \<Rightarrow> string" where
  "trim_with es s = (case List.find (\<lambda>e. e \<noteq> [] \<and> HasPrefix s e) es of None \<Rightarrow> s | Some e \<Rightarrow> trim_with es (drop (length e) s))"
  by auto
termination
proof (relation "measure (\<lambda>(es, s). length s)")
  fix es s e assume "List.find (\<lambda>e. e \<noteq> [] \<and> HasPrefix s e) es = Some e"
  then have "e \<noteq> []" "HasPrefix s e" by (auto simp: find_Some_iff)
  then show "((es, drop (length e) s), es, s) \<in> measure (\<lambda>(es, s). length s)"
    by (auto simp: HasPrefix_iff)
qed simp

declare trim_with.simps [simp del]

definition TrimSpace :: "string \<Rightarrow> string" where
  "TrimSpace s = rev (trim_with (map rev spaces) (rev (trim_with spaces s)))"

definition HasSuffix :: "string \<Rightarrow> string \<Rightarrow> bool" where
  "HasSuffix s p \<longleftrightarrow> HasPrefix (rev s) (rev p)"

definition TrimSuffix :: "string \<Rightarrow> string \<Rightarrow> string" where
  "TrimSuffix s p = (if HasSuffix s p then take (length s - length p) s else s)"

text \<open>\<open>strings.Split\<close> with a one-character separator: never empty.\<close>

function Split1 :: "string \<Rightarrow> char \<Rightarrow> string list" where
  "Split1 s c = (if c \<in> set s then takeWhile (\<lambda>x. x \<noteq> c) s # Split1 (tl (dropWhile (\<lambda>x. x \<noteq> c) s)) c else [s])"
  by auto
termination
proof (relation "measure (length \<circ> fst)")
  fix s :: string and c assume "c \<in> set s"
  then have "dropWhile (\<lambda>x. x \<noteq> c) s \<noteq> []" by (auto simp: dropWhile_eq_Nil_conv)
  then show "((tl (dropWhile (\<lambda>x. x \<noteq> c) s), c), s, c) \<in> measure (length \<circ> fst)"
    using length_dropWhile_le [of "\<lambda>x. x \<noteq> c" s] by (cases "dropWhile (\<lambda>x. x \<noteq> c) s") auto
qed simp

declare Split1.simps [simp del]

subsection \<open>Hexadecimal and base32\<close>

definition hex_char :: "nat \<Rightarrow> char" where
  "hex_char d = (if d < 10 then chr (48 + d) else chr (87 + d))"

definition hex_encode :: "nat list \<Rightarrow> string" where
  "hex_encode bs = concat (map (\<lambda>b. [hex_char (b div 16), hex_char (b mod 16)]) bs)"

text \<open>\<open>hex.DecodeString\<close>, as whether it succeeds; the callers drop the bytes.\<close>

definition hex_decodes :: "string \<Rightarrow> bool" where
  "hex_decodes s \<longleftrightarrow> even (length s) \<and> list_all (\<lambda>c. hex_digit c \<noteq> None) s"

definition b32_digit :: "char \<Rightarrow> nat option" where
  "b32_digit c = (let b = byte c in
     if 65 \<le> b \<and> b \<le> 90 then Some (b - 65) else if 50 \<le> b \<and> b \<le> 55 then Some (b - 24) else None)"

text \<open>
  The bytes of one group of up to eight digits: a group of eight gives five bytes, shorter ones give what
  their bits cover, and the odd lengths that no encoder writes give nothing.
\<close>

definition b32_group :: "nat list \<Rightarrow> nat list" where
  "b32_group ds = (case ds @ replicate (8 - length ds) 0 of
      [d0, d1, d2, d3, d4, d5, d6, d7] \<Rightarrow>
        (let n = length ds in
         take (if n = 8 then 5 else if n = 7 then 4 else if n = 5 then 3 else if n = 4 then 2 else if n = 2 then 1 else 0)
           [d0 * 8 + d1 div 4, d1 mod 4 * 64 + d2 * 2 + d3 div 16, d3 mod 16 * 16 + d4 div 2,
            d4 mod 2 * 128 + d5 * 4 + d6 div 8, d6 mod 8 * 32 + d7])
    | _ \<Rightarrow> [])"

function b32_groups :: "nat list \<Rightarrow> nat list" where
  "b32_groups ds = (if ds = [] then [] else b32_group (take 8 ds) @ b32_groups (drop 8 ds))"
  by auto
termination by (relation "measure length") auto

declare b32_groups.simps [simp del]

definition collect :: "('a \<Rightarrow> 'b option) \<Rightarrow> 'a list \<Rightarrow> 'b list option" where
  "collect f xs = (if list_all (\<lambda>x. f x \<noteq> None) xs then Some (map (\<lambda>x. the (f x)) xs) else None)"

text \<open>\<open>base32.StdEncoding.WithPadding(NoPadding).DecodeString\<close>: line breaks are dropped before the decoder sees them.\<close>

definition b32_decode :: "string \<Rightarrow> nat list option" where
  "b32_decode s = map_option b32_groups (collect b32_digit (filter (\<lambda>c. byte c \<noteq> 10 \<and> byte c \<noteq> 13) s))"

subsection \<open>Base64\<close>

text \<open>The standard alphabet, or the URL-safe one.\<close>

definition b64_digit :: "bool \<Rightarrow> char \<Rightarrow> nat option" where
  "b64_digit urlsafe c = (let b = byte c in
     if 65 \<le> b \<and> b \<le> 90 then Some (b - 65)
     else if 97 \<le> b \<and> b \<le> 122 then Some (b - 71)
     else if 48 \<le> b \<and> b \<le> 57 then Some (b + 4)
     else if c = (if urlsafe then CHR ''-'' else CHR ''+'') then Some 62
     else if c = (if urlsafe then CHR ''_'' else CHR ''/'') then Some 63
     else None)"

definition newline :: "char \<Rightarrow> bool" where
  "newline c \<longleftrightarrow> byte c = 10 \<or> byte c = 13"

text \<open>The bytes of a group: one less than its digits.\<close>

definition b64_group :: "nat list \<Rightarrow> nat list" where
  "b64_group ds = (case ds @ replicate (4 - length ds) 0 of
      [d0, d1, d2, d3] \<Rightarrow> take (length ds - 1) [d0 * 4 + d1 div 16, d1 mod 16 * 16 + d2 div 4, d2 mod 4 * 64 + d3]
    | _ \<Rightarrow> [])"

text \<open>
  What the decoder makes of the text after the digits of the open group: the bytes, and whether it ended
  without an error. A padding character may close a group of two or three digits; text after the padding is
  an error, but the group counts.
\<close>

definition b64_padded :: "nat list \<Rightarrow> string \<Rightarrow> nat list \<times> bool" where
  "b64_padded ds s =
     (if length ds < 2 then ([], False)
      else if length ds = 2 then
        (case dropWhile newline s of
           c # cs \<Rightarrow> if c = CHR ''='' then (b64_group ds, dropWhile newline cs = []) else ([], False)
         | [] \<Rightarrow> ([], False))
      else (b64_group ds, dropWhile newline s = []))"

fun b64_decode :: "bool \<Rightarrow> nat list \<Rightarrow> string \<Rightarrow> nat list \<times> bool" where
  "b64_decode u ds [] = ([], ds = [])"
| "b64_decode u ds (c # cs) = (case b64_digit u c of
      Some d \<Rightarrow>
        if length ds = 3 then (case b64_decode u [] cs of (bs, ok) \<Rightarrow> (b64_group (ds @ [d]) @ bs, ok))
        else b64_decode u (ds @ [d]) cs
    | None \<Rightarrow>
        if newline c then b64_decode u ds cs
        else if c = CHR ''='' then b64_padded ds cs
        else ([], False))"

end
