(* ===== verification/GoUrl.thy ===== *)
theory GoUrl
  imports GoText
begin

section \<open>Go's URLs\<close>

text \<open>
  The parser and the printer of \<open>net/url\<close>, as far as the sources use them: schemes, the opaque form,
  userinfo, hosts with bracketed IPv6 literals and ports, paths, queries and fragments, with the escaping
  rules of each part. A rejected text is \<open>None\<close>; which error it is does not matter to the callers. The cap on
  the number of query parameters and the special rule for PostgreSQL hosts are left out.
\<close>

datatype url_mode = EncPath | EncUser | EncHost | EncZone | EncQuery | EncFragment

definition alnum :: "char \<Rightarrow> bool" where
  "alnum c \<longleftrightarrow> (let b = byte c in 97 \<le> b \<and> b \<le> 122 \<or> 65 \<le> b \<and> b \<le> 90 \<or> 48 \<le> b \<and> b \<le> 57)"

definition host_marks :: string where "host_marks = ''!$&()*+,;=:[]<>\"'' @ [CHR 0x27]"
definition unreserved_marks :: string where "unreserved_marks = ''-_.~''"
definition reserved_marks :: string where "reserved_marks = ''$&+,/:;=?@''"
definition encoded_marks :: string where "encoded_marks = ''!$&()*+,;=:@[]%'' @ [CHR 0x27]"
definition scheme_marks :: string where "scheme_marks = ''+-.''"

definition shouldEscape :: "char \<Rightarrow> url_mode \<Rightarrow> bool" where
  "shouldEscape c m =
     (if alnum c then False
      else if (m = EncHost \<or> m = EncZone) \<and> c \<in> set host_marks then False
      else if c \<in> set unreserved_marks then False
      else if c \<in> set reserved_marks then
        (case m of
           EncPath \<Rightarrow> c = CHR ''?''
         | EncUser \<Rightarrow> c \<in> set ''@/?:''
         | EncQuery \<Rightarrow> True
         | EncFragment \<Rightarrow> False
         | _ \<Rightarrow> True)
      else if m = EncFragment \<and> c \<in> set ''!()*'' then False
      else True)"

text \<open>A percent escape that the mode admits.\<close>

definition escape_admitted :: "url_mode \<Rightarrow> char \<Rightarrow> char \<Rightarrow> bool" where
  "escape_admitted m a b = (case (hex_digit a, hex_digit b) of
      (Some x, Some y) \<Rightarrow>
        let pc = (a = CHR ''2'' \<and> b = CHR ''5''); v = chr (x * 16 + y) in
        if m = EncHost then \<not> (x < 8 \<and> \<not> pc)
        else if m = EncZone then pc \<or> v = CHR '' '' \<or> \<not> shouldEscape v EncHost
        else True
    | _ \<Rightarrow> False)"

fun unescape :: "url_mode \<Rightarrow> string \<Rightarrow> string option" where
  "unescape m [] = Some []"
| "unescape m (c # s) =
     (if c = CHR ''%'' then
        (case s of
           a # b # rest \<Rightarrow>
             if escape_admitted m a b
             then map_option (\<lambda>t. chr (the (hex_digit a) * 16 + the (hex_digit b)) # t) (unescape m rest)
             else None
         | _ \<Rightarrow> None)
      else if c = CHR ''+'' \<and> m = EncQuery then map_option (\<lambda>t. CHR '' '' # t) (unescape m s)
      else if (m = EncHost \<or> m = EncZone) \<and> byte c < 0x80 \<and> shouldEscape c m then None
      else map_option (\<lambda>t. c # t) (unescape m s))"

definition upper_hex :: "nat \<Rightarrow> char" where
  "upper_hex d = (if d < 10 then chr (48 + d) else chr (55 + d))"

definition escape_byte :: "url_mode \<Rightarrow> char \<Rightarrow> string" where
  "escape_byte m c =
     (if shouldEscape c m then
        if c = CHR '' '' \<and> m = EncQuery then ''+'' else [CHR ''%'', upper_hex (byte c div 16), upper_hex (byte c mod 16)]
      else [c])"

definition escape :: "url_mode \<Rightarrow> string \<Rightarrow> string" where
  "escape m s = concat (map (escape_byte m) s)"

record userinfo =
  ui_Username :: string
  ui_Password :: "string option"

record go_url =
  u_Scheme :: string
  u_Opaque :: string
  u_User :: "userinfo option"
  u_Host :: string
  u_Path :: string
  u_RawPath :: string
  u_OmitHost :: bool
  u_ForceQuery :: bool
  u_RawQuery :: string
  u_Fragment :: string
  u_RawFragment :: string

definition empty_url :: go_url where
  "empty_url = \<lparr>u_Scheme = '''', u_Opaque = '''', u_User = None, u_Host = '''', u_Path = '''', u_RawPath = '''',
     u_OmitHost = False, u_ForceQuery = False, u_RawQuery = '''', u_Fragment = '''', u_RawFragment = ''''\<rparr>"

subsection \<open>Parsing\<close>

definition letter :: "char \<Rightarrow> bool" where
  "letter c \<longleftrightarrow> (let b = byte c in 97 \<le> b \<and> b \<le> 122 \<or> 65 \<le> b \<and> b \<le> 90)"

definition control :: "char \<Rightarrow> bool" where
  "control c \<longleftrightarrow> byte c < 0x20 \<or> byte c = 0x7F"

definition scheme_char :: "char \<Rightarrow> bool" where
  "scheme_char c \<longleftrightarrow> alnum c \<or> c \<in> set scheme_marks"

definition getScheme :: "string \<Rightarrow> (string \<times> string) option" where
  "getScheme raw =
     (let pre = takeWhile scheme_char raw; rest = drop (length pre) raw in
      if pre \<noteq> [] \<and> \<not> letter (hd pre) then Some ('''', raw)
      else case rest of
          [] \<Rightarrow> Some ('''', raw)
        | c # r \<Rightarrow>
            if c \<noteq> CHR '':'' then Some ('''', raw)
            else if pre = [] then None else Some (pre, r))"

definition last_index :: "char \<Rightarrow> string \<Rightarrow> nat option" where
  "last_index c s = (if c \<in> set s then Some (length (dropWhile (\<lambda>x. x \<noteq> c) (rev s)) - 1) else None)"

definition validOptionalPort :: "string \<Rightarrow> bool" where
  "validOptionalPort port = (case port of [] \<Rightarrow> True | c # ds \<Rightarrow> c = CHR '':'' \<and> list_all (\<lambda>d. digit_val d \<noteq> None) ds)"

text \<open>The text between the brackets; a zone is introduced by an escaped percent sign.\<close>

fun find_zone :: "string \<Rightarrow> nat option" where
  "find_zone [] = None"
| "find_zone (c # s) = (if HasPrefix (c # s) ''%25'' then Some 0 else map_option Suc (find_zone s))"

definition unescape_literal :: "string \<Rightarrow> string option" where
  "unescape_literal h = (case find_zone h of
      None \<Rightarrow> unescape EncHost h
    | Some i \<Rightarrow> (case (unescape EncHost (take i h), unescape EncZone (drop i h)) of
          (Some a, Some z) \<Rightarrow> Some (a @ z) | _ \<Rightarrow> None))"

definition parseHost :: "string \<Rightarrow> string option" where
  "parseHost host = (case last_index (CHR ''['') host of
      Some i \<Rightarrow> (case last_index (CHR '']'') host of
          None \<Rightarrow> None
        | Some j \<Rightarrow>
            let colonPort = drop (Suc j) host in
            if i \<noteq> 0 \<or> \<not> validOptionalPort colonPort then None
            else (case (unescape EncHost colonPort, unescape_literal (take (j - 1) (drop 1 host))) of
                (Some port, Some lit) \<Rightarrow> (case ParseAddr lit of
                    None \<Rightarrow> None
                  | Some (IP4 _) \<Rightarrow> None
                  | Some _ \<Rightarrow> Some (''['' @ lit @ '']'' @ port))
              | _ \<Rightarrow> None))
    | None \<Rightarrow>
        if \<not> validOptionalPort (dropWhile (\<lambda>c. c \<noteq> CHR '':'') host) then None
        else unescape EncHost host)"

definition validUserinfo :: "string \<Rightarrow> bool" where
  "validUserinfo s \<longleftrightarrow> list_all (\<lambda>c. alnum c \<or> c \<in> set ''-._:~!$&()*+,;=%'' \<union> {CHR 0x27}) s"

definition parseAuthority :: "string \<Rightarrow> (userinfo option \<times> string) option" where
  "parseAuthority authority = (case last_index (CHR ''@'') authority of
      None \<Rightarrow> map_option (\<lambda>h. (None, h)) (parseHost authority)
    | Some i \<Rightarrow> (case parseHost (drop (Suc i) authority) of
          None \<Rightarrow> None
        | Some host \<Rightarrow>
            let info = take i authority in
            if \<not> validUserinfo info then None
            else if CHR '':'' \<notin> set info
            then map_option (\<lambda>n. (Some \<lparr>ui_Username = n, ui_Password = None\<rparr>, host)) (unescape EncUser info)
            else (case Cut1 info (CHR '':'') of (name, pw, _) \<Rightarrow>
              (case (unescape EncUser name, unescape EncUser pw) of
                 (Some n, Some p) \<Rightarrow> Some (Some \<lparr>ui_Username = n, ui_Password = Some p\<rparr>, host)
               | _ \<Rightarrow> None))))"

definition setPath :: "string \<Rightarrow> go_url \<Rightarrow> go_url option" where
  "setPath p u = (case unescape EncPath p of
      None \<Rightarrow> None
    | Some path \<Rightarrow> Some (u\<lparr>u_Path := path, u_RawPath := (if p = escape EncPath path then '''' else p)\<rparr>))"

definition setFragment :: "string \<Rightarrow> go_url \<Rightarrow> go_url option" where
  "setFragment f u = (case unescape EncFragment f of
      None \<Rightarrow> None
    | Some frag \<Rightarrow> Some (u\<lparr>u_Fragment := frag, u_RawFragment := (if f = escape EncFragment frag then '''' else f)\<rparr>))"

definition parse_hierarchy :: "string \<Rightarrow> go_url \<Rightarrow> go_url option" where
  "parse_hierarchy rest u =
     (if HasPrefix rest ''//'' \<and> (u_Scheme u \<noteq> '''' \<or> \<not> HasPrefix rest ''///'') then
        (let authority = takeWhile (\<lambda>c. c \<noteq> CHR ''/'') (drop 2 rest);
             path = dropWhile (\<lambda>c. c \<noteq> CHR ''/'') (drop 2 rest) in
         case parseAuthority authority of
           None \<Rightarrow> None
         | Some (user, host) \<Rightarrow> setPath path (u\<lparr>u_User := user, u_Host := host\<rparr>))
      else setPath rest (u\<lparr>u_OmitHost := (u_Scheme u \<noteq> '''' \<and> HasPrefix rest ''/'')\<rparr>))"

text \<open>The rest of the text, whether a lone question mark ends it, and the query.\<close>

definition split_query :: "string \<Rightarrow> string \<times> bool \<times> string" where
  "split_query rest =
     (if HasSuffix rest ''?'' \<and> length (filter (\<lambda>c. c = CHR ''?'') rest) = 1 then (butlast rest, True, '''')
      else (case Cut1 rest (CHR ''?'') of (a, q, _) \<Rightarrow> (a, False, q)))"

definition parse_plain :: "string \<Rightarrow> go_url option" where
  "parse_plain raw =
     (if list_ex control raw then None
      else if raw = ''*'' then Some (empty_url\<lparr>u_Path := ''*''\<rparr>)
      else (case getScheme raw of
          None \<Rightarrow> None
        | Some (sch, body) \<Rightarrow> (case split_query body of (rest, force, query) \<Rightarrow>
            let u = empty_url\<lparr>u_Scheme := map lower_byte sch, u_ForceQuery := force, u_RawQuery := query\<rparr> in
            if \<not> HasPrefix rest ''/'' \<and> sch \<noteq> '''' then Some (u\<lparr>u_Opaque := rest\<rparr>)
            else if \<not> HasPrefix rest ''/'' \<and> CHR '':'' \<in> set (takeWhile (\<lambda>c. c \<noteq> CHR ''/'') rest) then None
            else parse_hierarchy rest u)))"

definition url_Parse :: "string \<Rightarrow> go_url option" where
  "url_Parse rawURL = (case Cut1 rawURL (CHR ''#'') of (raw, frag, _) \<Rightarrow>
     (case parse_plain raw of
        None \<Rightarrow> None
      | Some u \<Rightarrow> if frag = '''' then Some u else setFragment frag u))"

subsection \<open>Printing\<close>

definition validEncoded :: "url_mode \<Rightarrow> string \<Rightarrow> bool" where
  "validEncoded m s \<longleftrightarrow> list_all (\<lambda>c. c \<in> set encoded_marks \<or> \<not> shouldEscape c m) s"

definition EscapedPath :: "go_url \<Rightarrow> string" where
  "EscapedPath u =
     (if u_RawPath u \<noteq> '''' \<and> validEncoded EncPath (u_RawPath u) \<and> unescape EncPath (u_RawPath u) = Some (u_Path u)
      then u_RawPath u
      else if u_Path u = ''*'' then ''*'' else escape EncPath (u_Path u))"

definition EscapedFragment :: "go_url \<Rightarrow> string" where
  "EscapedFragment u =
     (if u_RawFragment u \<noteq> '''' \<and> validEncoded EncFragment (u_RawFragment u) \<and>
         unescape EncFragment (u_RawFragment u) = Some (u_Fragment u)
      then u_RawFragment u else escape EncFragment (u_Fragment u))"

definition userinfo_String :: "userinfo \<Rightarrow> string" where
  "userinfo_String ui = escape EncUser (ui_Username ui) @
     (case ui_Password ui of None \<Rightarrow> '''' | Some p \<Rightarrow> '':'' @ escape EncUser p)"

definition print_authority :: "go_url \<Rightarrow> string" where
  "print_authority u =
     (if (u_Scheme u \<noteq> '''' \<or> u_Host u \<noteq> '''' \<or> u_User u \<noteq> None) \<and>
         \<not> (u_OmitHost u \<and> u_Host u = '''' \<and> u_User u = None) then
        (if u_Host u \<noteq> '''' \<or> u_Path u \<noteq> '''' \<or> u_User u \<noteq> None then ''//'' else '''') @
        (case u_User u of None \<Rightarrow> '''' | Some ui \<Rightarrow> userinfo_String ui @ ''@'') @
        escape EncHost (u_Host u)
      else '''')"

text \<open>A relative path whose first segment holds a colon is introduced by a dot segment.\<close>

definition print_path :: "go_url \<Rightarrow> string \<Rightarrow> string" where
  "print_path u front = (let path = EscapedPath u in
     (if path \<noteq> '''' \<and> hd path \<noteq> CHR ''/'' \<and> u_Host u \<noteq> '''' then ''/''
      else if front = '''' \<and> CHR '':'' \<in> set (takeWhile (\<lambda>c. c \<noteq> CHR ''/'') path) then ''./'' else '''') @ path)"

definition url_String :: "go_url \<Rightarrow> string" where
  "url_String u = (let front = (if u_Scheme u = '''' then '''' else u_Scheme u @ '':'') in
     front @
     (if u_Opaque u \<noteq> '''' then u_Opaque u
      else print_authority u @ print_path u (front @ print_authority u)) @
     (if u_ForceQuery u \<or> u_RawQuery u \<noteq> '''' then ''?'' @ u_RawQuery u else '''') @
     (if u_Fragment u \<noteq> '''' then ''#'' @ EscapedFragment u else ''''))"

subsection \<open>Hosts and queries\<close>

definition splitHostPort :: "string \<Rightarrow> string \<times> string" where
  "splitHostPort hostPort =
     (let (host, port) = (case last_index (CHR '':'') hostPort of
            Some i \<Rightarrow> if validOptionalPort (drop i hostPort) then (take i hostPort, drop (Suc i) hostPort) else (hostPort, '''')
          | None \<Rightarrow> (hostPort, '''')) in
      (if HasPrefix host ''['' \<and> HasSuffix host '']'' then take (length host - 2) (drop 1 host) else host, port))"

definition Hostname :: "go_url \<Rightarrow> string" where "Hostname u = fst (splitHostPort (u_Host u))"
definition Port :: "go_url \<Rightarrow> string" where "Port u = snd (splitHostPort (u_Host u))"

text \<open>A pair that cannot be read is dropped.\<close>

definition query_pair :: "string \<Rightarrow> (string \<times> string) option" where
  "query_pair pair =
     (if CHR '';'' \<in> set pair \<or> pair = '''' then None
      else (case Cut1 pair (CHR ''='') of (key, value, _) \<Rightarrow>
        (case (unescape EncQuery key, unescape EncQuery value) of
           (Some k, Some v) \<Rightarrow> Some (k, v) | _ \<Rightarrow> None)))"

definition ParseQuery :: "string \<Rightarrow> (string \<times> string) list" where
  "ParseQuery query = List.map_filter query_pair (Split1 query (CHR ''&''))"

definition values_of :: "string \<Rightarrow> (string \<times> string) list \<Rightarrow> string list" where
  "values_of key q = map snd (filter (\<lambda>kv. fst kv = key) q)"

definition get_value :: "string \<Rightarrow> (string \<times> string) list \<Rightarrow> string" where
  "get_value key q = (case values_of key q of [] \<Rightarrow> '''' | v # _ \<Rightarrow> v)"

end
