(* ===== verification/Uri.thy ===== *)
theory Uri
  imports GoUrl
begin

section \<open>Classifying a submitted URI\<close>

text \<open>
  \<open>src/internal/uri/normalize.go\<close>, \<open>magnet.go\<close>, \<open>obfuscated.go\<close>, the routing table of
  \<open>src/internal/engine/router.go\<close>, and the normal form of an infohash (\<open>src/internal/store/tasks_infohash.go\<close>):
  how a pasted link becomes a plain URI, a kind and a BitTorrent identity, and which engine it goes to. An
  error is told apart as far as its text decides an answer of the API.
\<close>

datatype uri_kind = KindHTTP | KindFTP | KindSFTP | KindMagnet | KindTorrent | KindMetalink | KindMedia

record normalized =
  n_Kind :: uri_kind
  n_URI :: string
  n_OriginalScheme :: string
  n_DisplayName :: string
  n_InfohashV1 :: string
  n_InfohashV2 :: string
  n_Trackers :: "string list"
  n_PeerHints :: "string list"

datatype uri_error =
    EmptyInput | ED2KUnsupported | UnsupportedScheme string | UnparsableURI | MissingHost uri_kind
  | MagnetControl string | BadBTIH | NoExactTopic

definition of_kind :: "uri_kind \<Rightarrow> string \<Rightarrow> normalized" where
  "of_kind k s = \<lparr>n_Kind = k, n_URI = s, n_OriginalScheme = '''', n_DisplayName = '''', n_InfohashV1 = '''',
     n_InfohashV2 = '''', n_Trackers = [], n_PeerHints = []\<rparr>"

subsection \<open>Magnets\<close>

definition hasControlChar :: "string \<Rightarrow> bool" where
  "hasControlChar s \<longleftrightarrow> list_ex (\<lambda>r. r < 0x20 \<or> 0x7F \<le> r \<and> r \<le> 0x9F) (runes s)"

definition parseBTIH :: "unicode \<Rightarrow> string \<Rightarrow> uri_error + string" where
  "parseBTIH uc value =
     (if length value = 40 then
        if \<not> hex_decodes value then Inl BadBTIH else Inr (ToLower uc value)
      else if length value = 32 then
        (case b32_decode (ToUpper uc value) of None \<Rightarrow> Inl BadBTIH | Some raw \<Rightarrow> Inr (hex_encode raw))
      else Inl BadBTIH)"

definition parseBTMH :: "string \<Rightarrow> string option" where
  "parseBTMH value =
     (if length value \<noteq> 68 \<or> \<not> HasPrefix value ''1220'' then None
      else let digest = drop 4 value in if hex_decodes digest then Some digest else None)"

definition btihPrefix :: string where "btihPrefix = ''urn:btih:''"
definition btmhPrefix :: string where "btmhPrefix = ''urn:btmh:''"

fun exact_topics :: "unicode \<Rightarrow> string list \<Rightarrow> normalized \<Rightarrow> uri_error + normalized" where
  "exact_topics uc [] n = Inr n"
| "exact_topics uc (xt # xts) n =
     (let lower = ToLower uc xt in
      if HasPrefix lower btihPrefix then
        (case parseBTIH uc (drop (length btihPrefix) xt) of
           Inl err \<Rightarrow> Inl err
         | Inr v1 \<Rightarrow> exact_topics uc xts (n\<lparr>n_InfohashV1 := v1\<rparr>))
      else if HasPrefix lower btmhPrefix then
        exact_topics uc xts (case parseBTMH (drop (length btmhPrefix) lower) of None \<Rightarrow> n | Some v2 \<Rightarrow> n\<lparr>n_InfohashV2 := v2\<rparr>)
      else exact_topics uc xts n)"

definition ParseMagnet :: "unicode \<Rightarrow> string \<Rightarrow> uri_error + normalized" where
  "ParseMagnet uc raw = (case url_Parse (TrimSpace raw) of
      None \<Rightarrow> Inl UnparsableURI
    | Some u \<Rightarrow>
        if u_Scheme u \<noteq> ''magnet'' then Inl (UnsupportedScheme (u_Scheme u))
        else let q = ParseQuery (u_RawQuery u); dn = get_value ''dn'' q;
            trs = filter (\<lambda>t. t \<noteq> '''') (values_of ''tr'' q); pes = filter (\<lambda>p. p \<noteq> '''') (values_of ''x.pe'' q) in
          if hasControlChar dn then Inl (MagnetControl ''dn'')
          else if list_ex hasControlChar trs then Inl (MagnetControl ''tr'')
          else if list_ex hasControlChar pes then Inl (MagnetControl ''x.pe'')
          else (case exact_topics uc (values_of ''xt'' q)
              ((of_kind KindMagnet (TrimSpace raw))\<lparr>n_DisplayName := dn, n_Trackers := trs, n_PeerHints := pes\<rparr>) of
            Inl err \<Rightarrow> Inl err
          | Inr n \<Rightarrow> if n_InfohashV1 n = '''' \<and> n_InfohashV2 n = '''' then Inl NoExactTopic else Inr n))"

subsection \<open>Obfuscated links\<close>

definition plainSchemes :: "string list" where
  "plainSchemes = [''http://'', ''https://'', ''ftp://'', ''ftps://'', ''sftp://'', ''ed2k://'']"

text \<open>The text before and after the first \<open>://\<close>.\<close>

fun cut_scheme :: "string \<Rightarrow> (string \<times> string) option" where
  "cut_scheme [] = None"
| "cut_scheme (c # s) =
     (if HasPrefix (c # s) ''://'' then Some ('''', drop 3 (c # s))
      else map_option (\<lambda>(a, b). (c # a, b)) (cut_scheme s))"

definition pad_payload :: "string \<Rightarrow> string" where
  "pad_payload p0 =
     (let p1 = takeWhile (\<lambda>c. c \<noteq> CHR ''&'') (TrimSpace p0);
          p2 = (if length p1 mod 4 = 1 then TrimSuffix p1 ''/'' else p1) in
      if length p2 mod 4 \<noteq> 0 then p2 @ replicate (4 - length p2 mod 4) (CHR ''='') else p2)"

definition lenient_decode :: "string \<Rightarrow> nat list" where
  "lenient_decode payload = (case b64_decode False [] payload of (decoded, ok) \<Rightarrow>
     if ok then decoded
     else (case b64_decode True [] payload of (alt, altOk) \<Rightarrow>
       if altOk \<or> length decoded < length alt then alt else decoded))"

definition strip_affixes :: "string \<Rightarrow> string \<Rightarrow> string" where
  "strip_affixes scheme plain =
     (if scheme = ''thunder'' then TrimSuffix (TrimPrefix plain ''AA'') ''ZZ''
      else if scheme = ''flashget'' then TrimSuffix (TrimPrefix plain ''[FLASHGET]'') ''[FLASHGET]''
      else plain)"

definition DecodeObfuscated :: "unicode \<Rightarrow> string \<Rightarrow> string option" where
  "DecodeObfuscated uc raw = (case cut_scheme raw of
      None \<Rightarrow> None
    | Some (sch, payload) \<Rightarrow>
        let scheme = ToLower uc (TrimSpace sch) in
        if scheme \<notin> {''thunder'', ''flashget'', ''qqdl''} then None
        else let decoded = lenient_decode (pad_payload payload) in
          if decoded = [] then None
          else let plain = TrimSpace (strip_affixes scheme (map chr decoded)) in
            if hasControlChar plain then None
            else if list_ex (HasPrefix (ToLower uc plain)) plainSchemes then Some plain else None)"

subsection \<open>Normalising\<close>

definition schemeOf :: "unicode \<Rightarrow> string \<Rightarrow> string" where
  "schemeOf uc raw = (case Cut1 raw (CHR '':'') of (scheme, _, found) \<Rightarrow> if found then ToLower uc scheme else '''')"

definition classifyTransport :: "unicode \<Rightarrow> normalized \<Rightarrow> uri_kind \<Rightarrow> uri_error + normalized" where
  "classifyTransport uc n kind = (case url_Parse (n_URI n) of
      None \<Rightarrow> Inl UnparsableURI
    | Some u \<Rightarrow>
        let n' = (if u_User u \<noteq> None then n\<lparr>n_URI := url_String (u\<lparr>u_User := None\<rparr>)\<rparr> else n) in
        if Hostname u = '''' then Inl (MissingHost kind)
        else let path = ToLower uc (u_Path u) in
          Inr (n'\<lparr>n_Kind :=
            (if HasSuffix path ''.torrent'' then KindTorrent
             else if HasSuffix path ''.metalink'' \<or> HasSuffix path ''.meta4'' then KindMetalink
             else kind)\<rparr>))"

definition Normalize :: "unicode \<Rightarrow> string \<Rightarrow> uri_error + normalized" where
  "Normalize uc raw0 =
     (let raw = TrimSpace raw0 in
      if raw = '''' then Inl EmptyInput
      else let decoded = DecodeObfuscated uc raw;
          n = (of_kind KindHTTP (case decoded of Some plain \<Rightarrow> plain | None \<Rightarrow> raw))
            \<lparr>n_OriginalScheme := (if decoded = None then '''' else schemeOf uc raw)\<rparr>;
          scheme = schemeOf uc (n_URI n) in
        if scheme = ''magnet'' then
          (case ParseMagnet uc (n_URI n) of Inl err \<Rightarrow> Inl err | Inr m \<Rightarrow> Inr (m\<lparr>n_OriginalScheme := n_OriginalScheme n\<rparr>))
        else if scheme = ''ed2k'' then Inl ED2KUnsupported
        else if scheme = ''http'' \<or> scheme = ''https'' then classifyTransport uc n KindHTTP
        else if scheme = ''ftp'' \<or> scheme = ''ftps'' then classifyTransport uc n KindFTP
        else if scheme = ''sftp'' then classifyTransport uc n KindSFTP
        else Inl (UnsupportedScheme scheme))"

subsection \<open>Routing\<close>

definition NameAria2 :: string where "NameAria2 = ''aria2''"
definition NameQBittorrent :: string where "NameQBittorrent = ''qbittorrent''"
definition NameYtDlp :: string where "NameYtDlp = ''ytdlp''"

definition isBareInfohash :: "string \<Rightarrow> bool" where
  "isBareInfohash s \<longleftrightarrow> (length s = 40 \<or> length s = 64) \<and> list_all (\<lambda>c. hex_digit c \<noteq> None) s"

definition Route :: "normalized \<Rightarrow> (string \<Rightarrow> bool) option \<Rightarrow> string option" where
  "Route n mediaMatch =
     (if n_Kind n = KindMagnet \<or> n_Kind n = KindTorrent \<or> isBareInfohash (n_URI n) then Some NameQBittorrent
      else if (case mediaMatch of None \<Rightarrow> False | Some f \<Rightarrow> f (n_URI n)) then Some NameYtDlp
      else if n_Kind n \<in> {KindHTTP, KindFTP, KindSFTP, KindMetalink} then Some NameAria2
      else None)"

subsection \<open>Infohashes\<close>

definition isHex :: "string \<Rightarrow> bool" where
  "isHex s \<longleftrightarrow> list_all (\<lambda>r. 48 \<le> r \<and> r \<le> 57 \<or> 97 \<le> r \<and> r \<le> 102 \<or> 65 \<le> r \<and> r \<le> 70) (runes s)"

definition NormaliseInfohash :: "unicode \<Rightarrow> string \<Rightarrow> string option" where
  "NormaliseInfohash uc s0 =
     (let s = TrimSpace s0 in
      if s = '''' then Some ''''
      else if length s = 40 \<or> length s = 64 then if isHex s then Some (ToLower uc s) else None
      else if length s = 32 then
        (case b32_decode (ToUpper uc s) of
           None \<Rightarrow> None
         | Some raw \<Rightarrow> if length raw \<noteq> 20 then None else Some (hex_encode raw))
      else if length s = 68 then
        if \<not> HasPrefix (ToLower uc s) ''1220'' then None
        else let digest = drop 4 s in if isHex digest then Some (ToLower uc digest) else None
      else None)"

text \<open>The submission of the API: a bare infohash becomes the magnet of its hash.\<close>

definition magnetOfBareInfohash :: "string \<Rightarrow> normalized" where
  "magnetOfBareInfohash hash =
     (if length hash = 40 then (of_kind KindMagnet (''magnet:?xt=urn:btih:'' @ hash))\<lparr>n_InfohashV1 := hash\<rparr>
      else (of_kind KindMagnet (''magnet:?xt=urn:btmh:1220'' @ hash))\<lparr>n_InfohashV2 := hash\<rparr>)"

definition normaliseSubmission :: "unicode \<Rightarrow> string \<Rightarrow> uri_error + normalized" where
  "normaliseSubmission uc raw = (case NormaliseInfohash uc raw of
      Some hash \<Rightarrow> if hash \<noteq> '''' then Inr (magnetOfBareInfohash hash) else Normalize uc raw
    | None \<Rightarrow> Normalize uc raw)"

end
