(* ===== verification/UriProps.thy ===== *)
theory UriProps
  imports Uri
begin

section \<open>Properties of URI classification\<close>

text \<open>
  Escaping and its inverse, printing a URL and reading it back, and with them: what normalising keeps and
  what it strips, the identity a magnet carries, and the forms a link may be wrapped in.
\<close>

subsection \<open>Escaping\<close>

lemma hex_upper [simp]: "d < 16 \<Longrightarrow> hex_digit (upper_hex d) = Some d"
  by (auto simp: hex_digit_def upper_hex_def digit_val_def chr_def)

lemma byte_div_mod: "chr (byte c div 16 * 16 + byte c mod 16) = c"
  by simp

lemma byte_div_less [simp]: "byte c div 16 < 16"
  using byte_less [of c] by (simp add: less_mult_imp_div_less)

lemma alnum_upper [simp]: "d < 16 \<Longrightarrow> alnum (upper_hex d)"
  by (auto simp: alnum_def upper_hex_def Let_def)

lemma should_alnum: "alnum c \<Longrightarrow> \<not> shouldEscape c m"
  by (simp add: shouldEscape_def)

lemma should_percent [simp]: "shouldEscape (CHR ''%'') m"
  by (simp add: shouldEscape_def alnum_def byte_def host_marks_def unreserved_marks_def reserved_marks_def)

lemma should_space [simp]: "shouldEscape (CHR '' '') m"
  by (simp add: shouldEscape_def alnum_def byte_def host_marks_def unreserved_marks_def reserved_marks_def)

lemma should_plus_query [simp]: "shouldEscape (CHR ''+'') EncQuery"
  by (simp add: shouldEscape_def alnum_def byte_def host_marks_def unreserved_marks_def reserved_marks_def)

lemma escape_Cons [simp]: "escape m (c # s) = escape_byte m c @ escape m s" and escape_Nil [simp]: "escape m [] = []"
  by (simp_all add: escape_def)

lemma escape_append [simp]: "escape m (s @ t) = escape m s @ escape m t"
  by (simp add: escape_def)

lemma escape_chars: "x \<in> set (escape m s) \<Longrightarrow> m \<noteq> EncQuery \<Longrightarrow> x = CHR ''%'' \<or> \<not> shouldEscape x m"
  by (induction s) (auto simp: escape_byte_def should_alnum split: if_splits)

lemma unescape_byte:
  assumes "m \<in> {EncPath, EncUser, EncQuery, EncFragment}"
  shows "unescape m (escape_byte m c @ t) = map_option (\<lambda>s. c # s) (unescape m t)"
proof (cases "shouldEscape c m")
  case True
  show ?thesis
  proof (cases "c = CHR '' '' \<and> m = EncQuery")
    case False
    with True assms show ?thesis
      by (auto simp: escape_byte_def escape_admitted_def byte_div_mod)
  qed (use True in \<open>simp add: escape_byte_def\<close>)
next
  case False
  then have "c \<noteq> CHR ''%''" "\<not> (c = CHR ''+'' \<and> m = EncQuery)" by auto
  with False assms show ?thesis by (auto simp: escape_byte_def)
qed

lemma unescape_escape:
  "m \<in> {EncPath, EncUser, EncQuery, EncFragment} \<Longrightarrow> unescape m (escape m s) = Some s"
  by (induction s) (simp_all add: unescape_byte)

text \<open>A host prints and reads back when its ASCII characters are those a host may hold.\<close>

definition host_char :: "char \<Rightarrow> bool" where
  "host_char c \<longleftrightarrow> 0x80 \<le> byte c \<or> c = CHR ''%'' \<or> \<not> shouldEscape c EncHost"

lemma unescape_host_byte:
  assumes "host_char c"
  shows "unescape EncHost (escape_byte EncHost c @ t) = map_option (\<lambda>s. c # s) (unescape EncHost t)"
proof (cases "shouldEscape c EncHost")
  case True
  then have "escape_admitted EncHost (upper_hex (byte c div 16)) (upper_hex (byte c mod 16))"
  proof (cases "c = CHR ''%''")
    case True
    moreover have "byte (CHR ''%'') div 16 = 2" "byte (CHR ''%'') mod 16 = 5" by (simp_all add: byte_def)
    moreover have "escape_admitted EncHost (upper_hex 2) (upper_hex 5)" by code_simp
    ultimately show ?thesis by simp
  next
    case False
    with True assms have "0x80 \<le> byte c" by (simp add: host_char_def)
    then have "8 \<le> byte c div 16" by simp
    then show ?thesis by (simp add: escape_admitted_def Let_def)
  qed
  with True show ?thesis by (simp add: escape_byte_def byte_div_mod)
next
  case False
  then have "c \<noteq> CHR ''%''" by auto
  with False show ?thesis by (simp add: escape_byte_def)
qed

lemma unescape_escape_host: "list_all host_char s \<Longrightarrow> unescape EncHost (escape EncHost s) = Some s"
  by (induction s) (simp_all add: unescape_host_byte)

lemma unescape_host_chars: "unescape EncHost s = Some t \<Longrightarrow> list_all host_char t"
proof (induction EncHost s arbitrary: t rule: unescape.induct)
  case (2 c s)
  have "c = CHR ''%'' \<Longrightarrow> ?case"
  proof -
    assume pc: "c = CHR ''%''"
    with 2(4) obtain a b rest t' where s: "s = a # b # rest" and adm: "escape_admitted EncHost a b"
      and rest: "unescape EncHost rest = Some t'" and t: "t = chr (the (hex_digit a) * 16 + the (hex_digit b)) # t'"
      by (auto split: list.splits if_splits)
    have "list_all host_char t'" using 2(1) [OF pc s refl adm rest] by simp
    moreover obtain x y where xy: "hex_digit a = Some x" "hex_digit b = Some y"
      and ok: "\<not> (x < 8 \<and> \<not> (a = CHR ''2'' \<and> b = CHR ''5''))"
      using adm by (auto simp: escape_admitted_def split: option.splits)
    have "y < 16" "x < 16" using xy by (auto simp: hex_digit_def digit_val_def Let_def split: option.splits if_splits)
    have "host_char (chr (x * 16 + y))"
    proof (cases "x < 8")
      case True
      with ok xy have "x = 2" "y = 5" by (auto simp: hex_digit_def digit_val_def)
      moreover have "chr 37 = CHR ''%''" by code_simp
      ultimately show ?thesis by (simp add: host_char_def)
    qed (use \<open>x < 16\<close> \<open>y < 16\<close> in \<open>simp add: host_char_def\<close>)
    ultimately show ?thesis by (simp add: t xy)
  qed
  moreover have "c \<noteq> CHR ''%'' \<Longrightarrow> ?case"
    using 2 by (auto simp: host_char_def split: if_splits)
  ultimately show ?case by blast
qed simp

text \<open>The characters a printed part consists of.\<close>

definition plain_chars :: string where
  "plain_chars = host_marks @ unreserved_marks @ reserved_marks @ ''!()*''"

lemma not_should: "\<not> shouldEscape c m \<Longrightarrow> alnum c \<or> c \<in> set plain_chars"
  by (auto simp: shouldEscape_def plain_chars_def split: if_splits)

lemma plain_not_control: "alnum c \<or> c \<in> set plain_chars \<or> c = CHR ''%'' \<Longrightarrow> \<not> control c \<and> c \<noteq> CHR ''#''"
proof -
  have "list_all (\<lambda>c. \<not> control c \<and> c \<noteq> CHR ''#'') (CHR ''%'' # plain_chars)" by code_simp
  moreover have "byte (CHR ''#'') = 35" by (simp add: byte_def)
  then have "alnum c \<Longrightarrow> \<not> control c \<and> c \<noteq> CHR ''#''"
    by (auto simp: alnum_def control_def Let_def)
  ultimately show "alnum c \<or> c \<in> set plain_chars \<or> c = CHR ''%'' \<Longrightarrow> \<not> control c \<and> c \<noteq> CHR ''#''"
    by (auto simp: list_all_iff)
qed

lemma escape_plain: "x \<in> set (escape m s) \<Longrightarrow> m \<noteq> EncQuery \<Longrightarrow> \<not> control x \<and> x \<noteq> CHR ''#''"
  using escape_chars [of x m s] not_should [of x m] plain_not_control [of x] by blast

lemma should_marks:
  "shouldEscape (CHR ''?'') EncPath" "shouldEscape (CHR ''@'') EncHost" "shouldEscape (CHR ''/'') EncHost"
  "shouldEscape (CHR ''?'') EncHost"
  by (simp_all add: shouldEscape_def alnum_def byte_def host_marks_def unreserved_marks_def reserved_marks_def)

lemma escape_host_marks: "x \<in> set (escape EncHost s) \<Longrightarrow> x \<notin> {CHR ''@'', CHR ''/'', CHR ''?'', CHR ''#''} \<and> \<not> control x"
  using escape_chars [of x EncHost s] escape_plain [of x EncHost s] should_marks by auto

lemma escape_path_marks: "x \<in> set (escape EncPath s) \<Longrightarrow> x \<notin> {CHR ''?'', CHR ''#''} \<and> \<not> control x"
  using escape_chars [of x EncPath s] escape_plain [of x EncPath s] should_marks by auto

lemma valid_path_marks:
  assumes "validEncoded EncPath s" and "x \<in> set s"
  shows "x \<notin> {CHR ''?'', CHR ''#''} \<and> \<not> control x"
proof -
  from assms consider "x \<in> set encoded_marks" | "\<not> shouldEscape x EncPath"
    by (auto simp: validEncoded_def list_all_iff)
  then show ?thesis
  proof cases
    case 1
    moreover have "list_all (\<lambda>x. x \<notin> {CHR ''?'', CHR ''#''} \<and> \<not> control x) encoded_marks" by code_simp
    ultimately show ?thesis unfolding list_all_iff by blast
  next
    case 2
    then show ?thesis using not_should [OF 2] plain_not_control [of x] should_marks by auto
  qed
qed

lemma EscapedPath_marks:
  assumes "x \<in> set (EscapedPath u)"
  shows "x \<notin> {CHR ''?'', CHR ''#''} \<and> \<not> control x"
proof -
  have "\<not> control (CHR ''*'')" by code_simp
  with assms show ?thesis
    using valid_path_marks [of "u_RawPath u" x] escape_path_marks [of x "u_Path u"]
    by (auto simp: EscapedPath_def split: if_splits)
qed

lemma unescape_EscapedPath: "unescape EncPath (EscapedPath u) = Some (u_Path u)"
  by (auto simp: EscapedPath_def unescape_escape)

lemma unescape_EscapedFragment: "unescape EncFragment (EscapedFragment u) = Some (u_Fragment u)"
  by (auto simp: EscapedFragment_def unescape_escape)

lemma unescape_empty: "unescape m s = Some [] \<longleftrightarrow> s = []"
  by (cases s) (auto split: list.splits if_splits)

subsection \<open>Printing a URL and reading it back\<close>

definition scheme_ok :: "string \<Rightarrow> bool" where
  "scheme_ok s \<longleftrightarrow> list_all scheme_char s \<and> (s \<noteq> [] \<longrightarrow> letter (hd s))"

lemma Cut1_absent [simp]: "c \<notin> set s \<Longrightarrow> Cut1 s c = (s, [], False)"
  by (simp add: Cut1_def)

lemma Cut1_fst: "fst (Cut1 s c) = takeWhile (\<lambda>x. x \<noteq> c) s"
  by (auto simp: Cut1_def intro!: takeWhile_eq_all_conv [THEN iffD2, symmetric])

lemma getScheme_ok:
  assumes "getScheme raw = Some (sch, rest)"
  shows "scheme_ok sch \<and> (if sch = [] then rest = raw else raw = sch @ '':'' @ rest)"
proof -
  let ?pre = "takeWhile scheme_char raw"
  have "list_all scheme_char ?pre" by (auto simp: list_all_iff dest: set_takeWhileD)
  moreover have "raw = ?pre @ drop (length ?pre) raw" by (metis takeWhile_eq_take append_take_drop_id)
  ultimately show ?thesis
    using assms by (auto simp: getScheme_def Let_def scheme_ok_def split: if_splits list.splits)
qed

lemma getScheme_print:
  assumes "scheme_ok sch" and "sch \<noteq> []"
  shows "getScheme (sch @ '':'' @ rest) = Some (sch, rest)"
proof -
  have "\<not> scheme_char (CHR '':'')" by code_simp
  moreover have "takeWhile scheme_char (sch @ t) = sch @ takeWhile scheme_char t" for t
    using assms(1) by (intro takeWhile_append2) (auto simp: scheme_ok_def list_all_iff)
  ultimately show ?thesis
    using assms by (simp add: getScheme_def Let_def scheme_ok_def)
qed

lemma getScheme_slash: "getScheme (CHR ''/'' # s) = Some ([], CHR ''/'' # s)"
proof -
  have "\<not> scheme_char (CHR ''/'')" by code_simp
  then show ?thesis by (simp add: getScheme_def)
qed

lemma lower_scheme:
  assumes "scheme_ok s"
  shows "scheme_ok (map lower_byte s)" and "map lower_byte (map lower_byte s) = map lower_byte s"
proof -
  have alnum: "alnum (lower_byte c)" if "alnum c" for c using that by (auto simp: alnum_def lower_byte_def Let_def)
  have "map lower_byte scheme_marks = scheme_marks" by code_simp
  then have "lower_byte c \<in> set scheme_marks" if "c \<in> set scheme_marks" for c
    using that by (metis image_eqI list.set_map)
  with alnum have "scheme_char (lower_byte c)" if "scheme_char c" for c
    using that unfolding scheme_char_def by blast
  moreover have "letter (lower_byte c)" if "letter c" for c using that by (auto simp: letter_def lower_byte_def Let_def)
  ultimately show "scheme_ok (map lower_byte s)"
    using assms by (cases s) (auto simp: scheme_ok_def list_all_iff)
  show "map lower_byte (map lower_byte s) = map lower_byte s" by (auto simp: lower_byte_def)
qed

lemma HasSuffix_snoc: "HasSuffix s [c] \<longleftrightarrow> s \<noteq> [] \<and> last s = c"
  by (cases s rule: rev_cases) (auto simp: HasSuffix_def HasPrefix_def)

lemma filter_absent: "c \<notin> set s \<Longrightarrow> filter (\<lambda>x. x = c) s = []"
  by (auto simp: filter_empty_conv)

lemma split_query_plain: "CHR ''?'' \<notin> set a \<Longrightarrow> split_query a = (a, False, [])"
  by (simp add: split_query_def filter_absent)

lemma split_query_mark:
  assumes "CHR ''?'' \<notin> set a"
  shows "split_query (a @ CHR ''?'' # q) = (a, q = [], q)"
proof (cases "q = []")
  case True
  then show ?thesis using assms by (simp add: split_query_def HasSuffix_snoc filter_absent)
next
  case False
  have "filter (\<lambda>c. c = CHR ''?'') q \<noteq> []" if "last q = CHR ''?''"
    using last_in_set [OF False] that by (auto simp: filter_empty_conv)
  then have "\<not> (HasSuffix (a @ CHR ''?'' # q) ''?'' \<and> length (filter (\<lambda>c. c = CHR ''?'') (a @ CHR ''?'' # q)) = 1)"
    using False assms by (auto simp: HasSuffix_snoc filter_absent)
  then show ?thesis
    using False assms by (auto simp: split_query_def Cut1_append)
qed

text \<open>What a URL with a host that was read from a text looks like.\<close>

definition hierarchical :: "go_url \<Rightarrow> bool" where
  "hierarchical u \<longleftrightarrow> u_Opaque u = [] \<and> u_Host u \<noteq> [] \<and> scheme_ok (u_Scheme u) \<and>
     map lower_byte (u_Scheme u) = u_Scheme u \<and> (u_Path u = [] \<or> hd (u_Path u) = CHR ''/'') \<and>
     (u_RawPath u = [] \<or> hd (u_RawPath u) = CHR ''/'') \<and> CHR ''#'' \<notin> set (u_RawQuery u) \<and> \<not> list_ex control (u_RawQuery u)"

lemma setPath_fields:
  "setPath p u = Some v \<Longrightarrow> u_Scheme v = u_Scheme u \<and> u_User v = u_User u \<and> u_Host v = u_Host u \<and> u_Opaque v = u_Opaque u \<and>
     u_RawQuery v = u_RawQuery u \<and> unescape EncPath p = Some (u_Path v) \<and> u_RawPath v \<in> {[], p} \<and>
     u_ForceQuery v = u_ForceQuery u \<and> u_Fragment v = u_Fragment u \<and> u_RawFragment v = u_RawFragment u"
  by (auto simp: setPath_def split: option.splits)

lemma setFragment_fields:
  "setFragment f u = Some v \<Longrightarrow> u_Scheme v = u_Scheme u \<and> u_User v = u_User u \<and> u_Host v = u_Host u \<and> u_Opaque v = u_Opaque u \<and>
     u_RawQuery v = u_RawQuery u \<and> u_Path v = u_Path u \<and> u_RawPath v = u_RawPath u"
  by (auto simp: setFragment_def split: option.splits)

lemma unescape_slash: "unescape EncPath (CHR ''/'' # p) = Some t \<Longrightarrow> hd t = CHR ''/''"
  by (auto split: if_splits)

lemma Cut1_parts:
  assumes "Cut1 s c = (a, b, found)"
  shows "set b \<subseteq> set s" and "a = takeWhile (\<lambda>x. x \<noteq> c) s" and "c \<notin> set a"
proof -
  have "set (tl (dropWhile (\<lambda>x. x \<noteq> c) s)) \<subseteq> set s"
    by (metis list.sel(2) list.set_sel(2) set_dropWhileD subsetI)
  moreover have eq: "a = takeWhile (\<lambda>x. x \<noteq> c) s"
    using assms Cut1_fst [of s c] by simp
  ultimately show "set b \<subseteq> set s" "a = takeWhile (\<lambda>x. x \<noteq> c) s" using assms
    by (auto simp: Cut1_def split: if_splits)
  show "c \<notin> set a" using eq set_takeWhileD by fastforce
qed

lemma split_query_sub:
  assumes "split_query s = (rest, force, q)"
  shows "set q \<subseteq> set s" and "\<exists>X. s = rest @ X"
proof -
  show "set q \<subseteq> set s"
    using assms Cut1_parts(1) [of s "CHR ''?''"] by (auto simp: split_query_def split: if_splits prod.splits)
  show "\<exists>X. s = rest @ X"
  proof (cases "rest = butlast s")
    case True
    then show ?thesis by (cases s rule: rev_cases) auto
  next
    case False
    then have "rest = takeWhile (\<lambda>x. x \<noteq> CHR ''?'') s"
      using assms Cut1_parts(2) [of s "CHR ''?''"] by (auto simp: split_query_def split: if_splits prod.splits)
    then show ?thesis by (metis takeWhile_dropWhile_id)
  qed
qed

text \<open>A parsed URL with a host is hierarchical, and its host came out of the host parser.\<close>

lemma parsed_path:
  assumes "setPath p u = Some v" and "p = [] \<or> hd p = CHR ''/''"
  shows "(u_Path v = [] \<or> hd (u_Path v) = CHR ''/'') \<and> (u_RawPath v = [] \<or> hd (u_RawPath v) = CHR ''/'')"
proof -
  have "u_RawPath v = [] \<or> hd (u_RawPath v) = CHR ''/''"
    using setPath_fields [OF assms(1)] assms(2) by auto
  moreover have "u_Path v = [] \<or> hd (u_Path v) = CHR ''/''"
    using setPath_fields [OF assms(1)] assms(2) unescape_slash by (cases p) auto
  ultimately show ?thesis by blast
qed

lemma parse_hierarchy_host:
  assumes "parse_hierarchy rest u = Some v" and "u_Host u = []" and "u_Host v \<noteq> []"
  shows "\<exists>user auth path. parseAuthority auth = Some (user, u_Host v) \<and> (path = [] \<or> hd path = CHR ''/'') \<and>
    setPath path (u\<lparr>u_User := user, u_Host := u_Host v\<rparr>) = Some v"
proof -
  have hd: "dropWhile (\<lambda>c. c \<noteq> CHR ''/'') s = [] \<or> hd (dropWhile (\<lambda>c. c \<noteq> CHR ''/'') s) = CHR ''/''" for s
    using hd_dropWhile [of "\<lambda>c. c \<noteq> CHR ''/''" s] by blast
  from assms obtain user host where
    "parseAuthority (takeWhile (\<lambda>c. c \<noteq> CHR ''/'') (drop 2 rest)) = Some (user, host)"
    and set: "setPath (dropWhile (\<lambda>c. c \<noteq> CHR ''/'') (drop 2 rest)) (u\<lparr>u_User := user, u_Host := host\<rparr>) = Some v"
    by (auto simp: parse_hierarchy_def dest: setPath_fields split: if_splits option.splits)
  moreover have "host = u_Host v" using setPath_fields [OF set] by simp
  ultimately show ?thesis using hd by blast
qed

lemma parse_plain_host:
  assumes parse: "parse_plain raw = Some v" and host: "u_Host v \<noteq> []" and nohash: "CHR ''#'' \<notin> set raw"
  shows "hierarchical v \<and> (\<exists>user auth. parseAuthority auth = Some (user, u_Host v))"
proof -
  from parse host obtain sch body where ctl: "\<not> list_ex control raw" and sch: "getScheme raw = Some (sch, body)"
    by (auto simp: parse_plain_def empty_url_def split: if_splits option.splits)
  obtain rest force q where sq: "split_query body = (rest, force, q)" by (metis prod_cases3)
  let ?u = "empty_url\<lparr>u_Scheme := map lower_byte sch, u_ForceQuery := force, u_RawQuery := q\<rparr>"
  from parse host ctl sch sq have ph: "parse_hierarchy rest ?u = Some v"
    by (auto simp: parse_plain_def empty_url_def Let_def split: if_splits)
  moreover have "u_Host ?u = []" by (simp add: empty_url_def)
  ultimately obtain user auth path where auth: "parseAuthority auth = Some (user, u_Host v)"
    and path: "path = [] \<or> hd path = CHR ''/''"
    and set: "setPath path (?u\<lparr>u_User := user, u_Host := u_Host v\<rparr>) = Some v"
    using parse_hierarchy_host host by blast
  have "set body \<subseteq> set raw" using getScheme_ok [OF sch] by (auto split: if_splits)
  then have "set q \<subseteq> set raw" using split_query_sub(1) [OF sq] by blast
  then have "CHR ''#'' \<notin> set q" "\<not> list_ex control q" using nohash ctl by (auto simp: list_ex_iff)
  with setPath_fields [OF set] parsed_path [OF set path] lower_scheme [of sch] getScheme_ok [OF sch] host
  have "hierarchical v" by (simp add: hierarchical_def empty_url_def)
  with auth show ?thesis by blast
qed

lemma url_Parse_host:
  assumes parse: "url_Parse raw = Some u" and host: "u_Host u \<noteq> []"
  shows "hierarchical u \<and> (\<exists>user auth. parseAuthority auth = Some (user, u_Host u))"
proof -
  obtain front frag found where cut: "Cut1 raw (CHR ''#'') = (front, frag, found)" by (metis prod_cases3)
  with parse obtain v where plain: "parse_plain front = Some v" and or: "v = u \<or> setFragment frag v = Some u"
    by (auto simp: url_Parse_def split: if_splits option.splits)
  have v: "u_Host u = u_Host v" "hierarchical v = hierarchical u"
    using or by (auto simp: hierarchical_def dest: setFragment_fields)
  with parse_plain_host [OF plain] Cut1_parts(3) [OF cut] host show ?thesis by auto
qed

subsubsection \<open>Reading a printed URL\<close>

lemma EscapedPath_head:
  assumes "hierarchical u"
  shows "EscapedPath u = [] \<or> hd (EscapedPath u) = CHR ''/''"
proof -
  have "\<not> shouldEscape (CHR ''/'') EncPath"
    by (simp add: shouldEscape_def reserved_marks_def alnum_def byte_def)
  with assms show ?thesis
    by (cases "u_Path u") (auto simp: EscapedPath_def hierarchical_def escape_byte_def)
qed

definition printed_query :: "go_url \<Rightarrow> string" where
  "printed_query u = (if u_ForceQuery u \<or> u_RawQuery u \<noteq> '''' then ''?'' @ u_RawQuery u else '''')"

definition printed_scheme :: "go_url \<Rightarrow> string" where
  "printed_scheme u = (if u_Scheme u = '''' then '''' else u_Scheme u @ '':'')"

lemma url_String_hierarchical:
  assumes "hierarchical u" and "u_User u = None"
  shows "url_String u = printed_scheme u @ (''//'' @ escape EncHost (u_Host u) @ EscapedPath u @ printed_query u) @
    (if u_Fragment u \<noteq> '''' then ''#'' @ EscapedFragment u else '''')"
  using assms EscapedPath_head [OF assms(1)]
  by (auto simp: url_String_def print_authority_def print_path_def hierarchical_def Let_def printed_query_def printed_scheme_def)

lemma parse_authority_plain:
  assumes "CHR ''@'' \<notin> set auth"
  shows "parseAuthority auth = map_option (\<lambda>h. (None, h)) (parseHost auth)"
  using assms by (simp add: parseAuthority_def last_index_def)

lemma escape_host_Nil: "escape EncHost s = [] \<longleftrightarrow> s = []"
  by (cases s) (auto simp: escape_byte_def)

lemma parse_printed_hierarchy:
  assumes "hierarchical u"
  shows "parse_hierarchy (''//'' @ escape EncHost (u_Host u) @ EscapedPath u) w =
    (case parseHost (escape EncHost (u_Host u)) of None \<Rightarrow> None
     | Some h \<Rightarrow> setPath (EscapedPath u) (w\<lparr>u_User := None, u_Host := h\<rparr>))"
proof -
  let ?e = "escape EncHost (u_Host u)"
  have no: "CHR ''/'' \<notin> set ?e" "CHR ''@'' \<notin> set ?e" using escape_host_marks [of _ "u_Host u"] by blast+
  have ne: "?e \<noteq> []" using assms by (simp add: escape_host_Nil hierarchical_def)
  have hp: "\<not> HasPrefix (''//'' @ ?e @ EscapedPath u) ''///''"
    using ne no by (cases ?e) (auto simp: HasPrefix_def)
  have "takeWhile (\<lambda>c. c \<noteq> CHR ''/'') (?e @ EscapedPath u) = ?e \<and> dropWhile (\<lambda>c. c \<noteq> CHR ''/'') (?e @ EscapedPath u) = EscapedPath u"
    using EscapedPath_head [OF assms] no
    by (cases "EscapedPath u") (auto simp: takeWhile_append dropWhile_append)
  with hp no show ?thesis
    by (auto simp: parse_hierarchy_def HasPrefix_def parse_authority_plain split: option.splits)
qed

definition printed_front :: "go_url \<Rightarrow> string" where
  "printed_front u = printed_scheme u @ (''//'' @ escape EncHost (u_Host u) @ EscapedPath u @ printed_query u)"

lemma scheme_plain: "scheme_ok s \<Longrightarrow> x \<in> set s \<Longrightarrow> \<not> control x \<and> x \<noteq> CHR ''#''"
proof -
  assume "scheme_ok s" "x \<in> set s"
  then consider "alnum x" | "x \<in> set scheme_marks" by (auto simp: scheme_ok_def scheme_char_def list_all_iff)
  then show ?thesis
  proof cases
    case 2
    moreover have "list_all (\<lambda>x. \<not> control x \<and> x \<noteq> CHR ''#'') scheme_marks" by code_simp
    ultimately show ?thesis unfolding list_all_iff by blast
  qed (use plain_not_control [of x] in blast)
qed

lemma printed_front_plain:
  assumes "hierarchical u" and "x \<in> set (printed_front u)"
  shows "\<not> control x \<and> x \<noteq> CHR ''#''"
proof -
  have marks: "\<not> control (CHR '':'')" "\<not> control (CHR ''/'')" "\<not> control (CHR ''?'')" by code_simp+
  from assms(2) consider "x \<in> set (u_Scheme u)" | "x \<in> set (escape EncHost (u_Host u))" | "x \<in> set (EscapedPath u)"
    | "x \<in> set (u_RawQuery u)" | "x = CHR '':'' \<or> x = CHR ''/'' \<or> x = CHR ''?''"
    by (auto simp: printed_front_def printed_scheme_def printed_query_def split: if_splits)
  then show ?thesis
  proof cases
    case 1
    then show ?thesis using scheme_plain assms(1) by (auto simp: hierarchical_def)
  next
    case 2
    then show ?thesis using escape_host_marks by blast
  next
    case 3
    then show ?thesis using EscapedPath_marks by blast
  next
    case 4
    then show ?thesis using assms(1) by (auto simp: hierarchical_def list_ex_iff)
  qed (use marks in auto)
qed

lemma getScheme_printed:
  assumes "hierarchical u"
  shows "getScheme (printed_front u) = Some (u_Scheme u, ''//'' @ escape EncHost (u_Host u) @ EscapedPath u @ printed_query u)"
  using assms getScheme_print [of "u_Scheme u"]
  by (auto simp: printed_front_def printed_scheme_def hierarchical_def getScheme_slash)

lemma split_printed:
  assumes "CHR ''?'' \<notin> set a"
  shows "\<exists>force. split_query (a @ printed_query u) = (a, force, u_RawQuery u)"
  using assms by (auto simp: printed_query_def split_query_mark split_query_plain)

lemma parse_plain_printed:
  assumes "hierarchical u"
  shows "\<exists>force. parse_plain (printed_front u) = (case parseHost (escape EncHost (u_Host u)) of None \<Rightarrow> None
     | Some h \<Rightarrow> setPath (EscapedPath u) (empty_url\<lparr>u_Scheme := u_Scheme u, u_ForceQuery := force, u_RawQuery := u_RawQuery u,
         u_User := None, u_Host := h\<rparr>))"
proof -
  let ?a = "''//'' @ escape EncHost (u_Host u) @ EscapedPath u"
  have "CHR ''?'' \<notin> set ?a" using escape_host_marks EscapedPath_marks by fastforce
  then obtain force where sq: "split_query (?a @ printed_query u) = (?a, force, u_RawQuery u)"
    using split_printed by blast
  have ctl: "\<not> list_ex control (printed_front u)" using printed_front_plain [OF assms] by (auto simp: list_ex_iff)
  have star: "printed_front u \<noteq> ''*''" by (auto simp: printed_front_def printed_scheme_def Cons_eq_append_conv)
  have low: "map lower_byte (u_Scheme u) = u_Scheme u" and "HasPrefix ?a ''/''"
    using assms by (auto simp: hierarchical_def HasPrefix_def)
  then have "parse_plain (printed_front u) =
    parse_hierarchy ?a (empty_url\<lparr>u_Scheme := u_Scheme u, u_ForceQuery := force, u_RawQuery := u_RawQuery u\<rparr>)"
    using ctl star getScheme_printed [OF assms] sq by (simp add: parse_plain_def Let_def)
  then show ?thesis unfolding parse_printed_hierarchy [OF assms] by (auto cong: option.case_cong)
qed

lemma setPath_EscapedPath:
  "setPath (EscapedPath u) w = Some (w\<lparr>u_Path := u_Path u,
     u_RawPath := (if EscapedPath u = escape EncPath (u_Path u) then '''' else EscapedPath u)\<rparr>)"
  by (simp add: setPath_def unescape_EscapedPath)

definition same_url :: "go_url \<Rightarrow> go_url \<Rightarrow> bool" where
  "same_url u v \<longleftrightarrow> u_Scheme v = u_Scheme u \<and> u_User v = u_User u \<and> u_Path v = u_Path u \<and> u_RawQuery v = u_RawQuery u \<and>
     u_Fragment v = u_Fragment u"

lemma same_url_refl [simp]: "same_url u u"
  by (simp add: same_url_def)

text \<open>Reading a printed URL gives the URL back, its host being read by the host parser.\<close>

lemma url_print_parse:
  assumes hier: "hierarchical u" and user: "u_User u = None"
  shows "(case url_Parse (url_String u) of None \<Rightarrow> parseHost (escape EncHost (u_Host u)) = None
    | Some v \<Rightarrow> same_url u v \<and> parseHost (escape EncHost (u_Host u)) = Some (u_Host v))"
proof -
  have nohash: "CHR ''#'' \<notin> set (printed_front u)" using printed_front_plain [OF hier] by blast
  have str: "url_String u = printed_front u @ (if u_Fragment u \<noteq> '''' then ''#'' @ EscapedFragment u else '''')"
    unfolding url_String_hierarchical [OF hier user] printed_front_def by simp
  have frag: "EscapedFragment u = [] \<longleftrightarrow> u_Fragment u = []"
    using unescape_EscapedFragment [of u] unescape_empty [of EncFragment "EscapedFragment u"] by auto
  have cut: "\<exists>b. Cut1 (url_String u) (CHR ''#'') = (printed_front u, if u_Fragment u = '''' then '''' else EscapedFragment u, b)"
    using nohash Cut1_append [OF nohash] by (auto simp: str)
  obtain force where plain: "parse_plain (printed_front u) = (case parseHost (escape EncHost (u_Host u)) of None \<Rightarrow> None
     | Some h \<Rightarrow> setPath (EscapedPath u) (empty_url\<lparr>u_Scheme := u_Scheme u, u_ForceQuery := force, u_RawQuery := u_RawQuery u,
         u_User := None, u_Host := h\<rparr>))"
    using parse_plain_printed [OF hier] by blast
  show ?thesis
  proof (cases "parseHost (escape EncHost (u_Host u))")
    case None
    with cut plain show ?thesis by (auto simp: url_Parse_def)
  next
    case (Some h)
    with cut plain user show ?thesis
      by (auto simp: url_Parse_def setPath_EscapedPath setFragment_def unescape_EscapedFragment same_url_def empty_url_def frag)
  qed
qed

subsubsection \<open>Hosts\<close>

lemma digit_alnum: "digit_val d \<noteq> None \<Longrightarrow> alnum d"
  by (auto simp: digit_val_def alnum_def byte_def Let_def split: if_splits)

lemma escape_digits: "list_all (\<lambda>d. digit_val d \<noteq> None) ds \<Longrightarrow> escape m ds = ds"
  by (induction ds) (auto simp: escape_byte_def should_alnum digit_alnum)

lemma escape_member: "x \<in> set (escape m s) \<Longrightarrow> \<not> alnum x \<Longrightarrow> x \<noteq> CHR ''%'' \<Longrightarrow> x \<noteq> CHR ''+'' \<Longrightarrow> x \<in> set s"
  by (induction s) (auto simp: escape_byte_def split: if_splits)

lemma port_marks: "\<not> alnum (CHR '':'')" "\<not> alnum (CHR ''['')" "\<not> shouldEscape (CHR '':'') EncHost"
  by code_simp+

lemma unescape_host_escape:
  assumes "escape_admitted EncHost a b"
  shows "hex_digit a \<noteq> None" and "hex_digit b \<noteq> None"
    and "\<not> alnum (chr (the (hex_digit a) * 16 + the (hex_digit b)))"
    and "chr (the (hex_digit a) * 16 + the (hex_digit b)) \<noteq> CHR '':''"
    and "chr (the (hex_digit a) * 16 + the (hex_digit b)) \<noteq> CHR ''[''"
proof -
  from assms obtain x y where xy: "hex_digit a = Some x" "hex_digit b = Some y"
    and ok: "\<not> (x < 8 \<and> \<not> (a = CHR ''2'' \<and> b = CHR ''5''))"
    by (auto simp: escape_admitted_def split: option.splits)
  then show "hex_digit a \<noteq> None" "hex_digit b \<noteq> None" by simp_all
  have "y < 16" "x < 16" using xy by (auto simp: hex_digit_def digit_val_def Let_def split: option.splits if_splits)
  have "byte (chr (x * 16 + y)) = 37 \<or> 128 \<le> byte (chr (x * 16 + y))"
  proof (cases "x < 8")
    case True
    with ok xy have "x = 2" "y = 5" by (auto simp: hex_digit_def digit_val_def)
    then show ?thesis by simp
  qed (use \<open>x < 16\<close> \<open>y < 16\<close> in simp)
  moreover have "byte (CHR '':'') = 58" "byte (CHR ''['') = 91" by (simp_all add: byte_def)
  ultimately show "\<not> alnum (chr (the (hex_digit a) * 16 + the (hex_digit b)))"
    "chr (the (hex_digit a) * 16 + the (hex_digit b)) \<noteq> CHR '':''"
    "chr (the (hex_digit a) * 16 + the (hex_digit b)) \<noteq> CHR ''[''"
    using xy by (auto simp: alnum_def Let_def)
qed

lemma unescape_digits:
  "list_all (\<lambda>d. digit_val d \<noteq> None) ds \<Longrightarrow> unescape EncHost ds = Some ds"
proof -
  assume ds: "list_all (\<lambda>d. digit_val d \<noteq> None) ds"
  then have "list_all host_char ds"
    using digit_alnum should_alnum by (auto simp: list_all_iff host_char_def simp del: not_None_eq)
  with unescape_escape_host [of ds] show ?thesis by (simp only: escape_digits [OF ds])
qed

lemma hex_not_mark: "hex_digit a \<noteq> None \<Longrightarrow> a \<noteq> CHR '':'' \<and> a \<noteq> CHR ''[''"
  by (auto simp: hex_digit_def digit_val_def split: option.splits)

text \<open>Unescaping a host leaves its port alone and makes no bracket.\<close>

lemma unescape_host_port:
  "unescape EncHost s = Some t \<Longrightarrow> validOptionalPort (dropWhile (\<lambda>c. c \<noteq> CHR '':'') s) \<Longrightarrow> CHR ''['' \<notin> set s \<Longrightarrow>
    dropWhile (\<lambda>c. c \<noteq> CHR '':'') t = dropWhile (\<lambda>c. c \<noteq> CHR '':'') s \<and> CHR ''['' \<notin> set t"
proof (induction EncHost s arbitrary: t rule: unescape.induct)
  case (2 c s)
  consider (pc) "c = CHR ''%''" | (colon) "c = CHR '':''" | (other) "c \<noteq> CHR ''%''" "c \<noteq> CHR '':''" by blast
  then show ?case
  proof cases
    case pc
    with 2(4) obtain a b rest t' where s: "s = a # b # rest" and adm: "escape_admitted EncHost a b"
      and rest: "unescape EncHost rest = Some t'" and t: "t = chr (the (hex_digit a) * 16 + the (hex_digit b)) # t'"
      by (auto split: list.splits if_splits)
    note ab = hex_not_mark [OF unescape_host_escape(1) [OF adm]] hex_not_mark [OF unescape_host_escape(2) [OF adm]]
    from 2(1) [OF pc s refl adm rest] 2(5,6) ab show ?thesis
      using unescape_host_escape(4,5) [OF adm] by (simp add: s t pc)
  next
    case colon
    with 2(5) have ds: "list_all (\<lambda>d. digit_val d \<noteq> None) s" by (simp add: validOptionalPort_def)
    with 2(4) colon have "t = c # s"
      using unescape_digits port_marks by (auto split: if_splits)
    with 2(6) show ?thesis by simp
  next
    case other
    with 2 show ?thesis by (auto split: if_splits)
  qed
qed simp

lemma escape_port: "validOptionalPort s \<Longrightarrow> escape EncHost s = s"
  using port_marks by (cases s) (auto simp: validOptionalPort_def escape_byte_def escape_digits)

lemma escape_drop_colon:
  assumes "validOptionalPort (dropWhile (\<lambda>c. c \<noteq> CHR '':'') t)"
  shows "dropWhile (\<lambda>c. c \<noteq> CHR '':'') (escape EncHost t) = dropWhile (\<lambda>c. c \<noteq> CHR '':'') t"
proof -
  let ?d = "\<lambda>c. c \<noteq> CHR '':''"
  have "CHR '':'' \<notin> set (escape EncHost (takeWhile ?d t))"
    using escape_member [of "CHR '':''" EncHost "takeWhile ?d t"] port_marks by (auto dest: set_takeWhileD)
  moreover have "escape EncHost (dropWhile ?d t) = dropWhile ?d t"
    using assms by (rule escape_port)
  moreover have "escape EncHost t = escape EncHost (takeWhile ?d t) @ escape EncHost (dropWhile ?d t)"
    by (metis escape_append takeWhile_dropWhile_id)
  moreover have "dropWhile ?d (a @ b) = dropWhile ?d b" if "CHR '':'' \<notin> set a" for a b
    using that by (auto intro!: dropWhile_append2)
  ultimately show ?thesis by simp
qed

lemma last_index_none: "last_index c s = None \<longleftrightarrow> c \<notin> set s"
  by (simp add: last_index_def)

lemma parseHost_printed:
  assumes "parseHost raw = Some host" and "CHR ''['' \<notin> set host"
  shows "parseHost (escape EncHost host) = Some host"
proof -
  have "last_index (CHR ''['') raw = None"
    using assms by (auto simp: parseHost_def Let_def split: option.splits if_splits addr.splits)
  with assms(1) have port: "validOptionalPort (dropWhile (\<lambda>c. c \<noteq> CHR '':'') raw)" and un: "unescape EncHost raw = Some host"
    and no: "CHR ''['' \<notin> set raw"
    by (auto simp: parseHost_def last_index_none split: if_splits)
  note eq = unescape_host_port [OF un port no]
  moreover have "CHR ''['' \<notin> set (escape EncHost host)"
    using escape_member [of "CHR ''[''" EncHost host] eq port_marks by auto
  ultimately show ?thesis
    using port escape_drop_colon [of host] unescape_escape_host [OF unescape_host_chars [OF un]]
    by (simp add: parseHost_def last_index_none [THEN iffD2])
qed

text \<open>Bracketed literals, as long as they name no zone.\<close>

lemma last_index_append: "c \<notin> set b \<Longrightarrow> last_index c (a @ c # b) = Some (length a)"
  by (simp add: last_index_def dropWhile_append)

lemma last_index_Some: "last_index c s = Some i \<Longrightarrow> s = take i s @ c # drop (Suc i) s \<and> c \<notin> set (drop (Suc i) s)"
proof -
  assume i: "last_index c s = Some i"
  then have "c \<in> set s" by (auto simp: last_index_def split: if_splits)
  then obtain a b where s: "s = a @ c # b" "c \<notin> set b" using split_list_last by metis
  then have "i = length a" using i last_index_append [OF s(2), of a] by simp
  with s show ?thesis by simp
qed

lemma unescape_no_bracket:
  "unescape EncHost s = Some t \<Longrightarrow> CHR ''['' \<notin> set s \<Longrightarrow> CHR ''['' \<notin> set t"
proof (induction EncHost s arbitrary: t rule: unescape.induct)
  case (2 c s)
  show ?case
  proof (cases "c = CHR ''%''")
    case True
    with 2(4) obtain a b rest t' where s: "s = a # b # rest" and adm: "escape_admitted EncHost a b"
      and rest: "unescape EncHost rest = Some t'" and t: "t = chr (the (hex_digit a) * 16 + the (hex_digit b)) # t'"
      by (auto split: list.splits if_splits)
    from 2(1) [OF True s refl adm rest] 2(5) show ?thesis
      using unescape_host_escape(5) [OF adm] by (auto simp: s t)
  next
    case False
    with 2 show ?thesis by (auto split: if_splits)
  qed
qed simp

lemma find_zone_prefix: "find_zone h = Some i \<Longrightarrow> HasPrefix (drop i h) ''%25''"
  by (induction h arbitrary: i) (auto split: if_splits)

lemma unescape_literal_plain:
  assumes "unescape_literal h = Some lit" and "CHR ''%'' \<notin> set lit"
  shows "unescape EncHost h = Some lit"
proof (cases "find_zone h")
  case (Some i)
  then obtain a z where az: "unescape EncHost (take i h) = Some a" "unescape EncZone (drop i h) = Some z" "lit = a @ z"
    using assms(1) by (auto simp: unescape_literal_def split: option.splits)
  obtain rest where "drop i h = CHR ''%'' # CHR ''2'' # CHR ''5'' # rest"
    using find_zone_prefix [OF Some] by (auto simp: HasPrefix_iff)
  moreover have "hex_digit (CHR ''2'') = Some 2" "hex_digit (CHR ''5'') = Some 5" "CHR ''%'' = chr 37" by code_simp+
  ultimately have "CHR ''%'' \<in> set z" using az(2) by (auto split: if_splits)
  with az(3) assms(2) show ?thesis by simp
qed (use assms(1) in \<open>simp add: unescape_literal_def\<close>)

lemma upper_hex_high:
  assumes "d < 16"
  shows "upper_hex d = CHR ''2'' \<Longrightarrow> d = 2" and "upper_hex d \<noteq> CHR ''%''"
proof -
  have "hex_digit (CHR ''2'') = Some 2" "hex_digit (CHR ''%'') = None" by code_simp+
  then show "upper_hex d = CHR ''2'' \<Longrightarrow> d = 2" "upper_hex d \<noteq> CHR ''%''"
    using hex_upper [OF assms] by auto
qed

lemma find_zone_escape: "list_all host_char s \<Longrightarrow> CHR ''%'' \<notin> set s \<Longrightarrow> find_zone (escape EncHost s) = None"
proof (induction s)
  case (Cons c s)
  show ?case
  proof (cases "shouldEscape c EncHost")
    case True
    with Cons.prems have "0x80 \<le> byte c" by (auto simp: host_char_def)
    then have "8 \<le> byte c div 16" "byte c div 16 < 16" "byte c mod 16 < 16" by auto
    then have "upper_hex (byte c div 16) \<notin> {CHR ''2'', CHR ''%''}" "upper_hex (byte c mod 16) \<noteq> CHR ''%''"
      using upper_hex_high [of "byte c div 16"] upper_hex_high(2) [of "byte c mod 16"] by auto
    with True Cons show ?thesis by (simp add: escape_byte_def HasPrefix_def)
  qed (use Cons in \<open>auto simp: escape_byte_def HasPrefix_def\<close>)
qed simp

lemma bracket_marks: "\<not> shouldEscape (CHR ''['') EncHost" "\<not> shouldEscape (CHR '']'') EncHost" "\<not> alnum (CHR '']'')"
  by code_simp+

lemma port_chars: "validOptionalPort p \<Longrightarrow> CHR ''['' \<notin> set p \<and> CHR '']'' \<notin> set p \<and> unescape EncHost p = Some p"
proof (cases p)
  case (Cons c ds)
  moreover assume "validOptionalPort p"
  ultimately have p: "c = CHR '':''" "list_all (\<lambda>d. digit_val d \<noteq> None) ds" by (simp_all add: validOptionalPort_def)
  have "CHR ''['' \<notin> set ds" "CHR '']'' \<notin> set ds"
    using p(2) digit_alnum bracket_marks(3) port_marks(2) by (auto simp: list_all_iff simp del: not_None_eq)
  then show ?thesis using p unescape_digits [OF p(2)] port_marks(3) by (simp add: Cons)
qed simp

lemma parseHost_bracket:
  assumes "parseHost raw = Some host" and "CHR ''['' \<in> set host" and "CHR ''%'' \<notin> set host"
  shows "parseHost (escape EncHost host) = Some host"
proof -
  from assms(1,2) obtain i where i: "last_index (CHR ''['') raw = Some i"
    using unescape_no_bracket by (auto simp: parseHost_def last_index_none split: option.splits if_splits)
  with assms(1) obtain j lit port where ij: "i = 0" "last_index (CHR '']'') raw = Some j"
    and port: "validOptionalPort (drop (Suc j) raw)" "unescape EncHost (drop (Suc j) raw) = Some port"
    and lit: "unescape_literal (take (j - 1) (drop 1 raw)) = Some lit" and adr: "\<exists>a. ParseAddr lit = Some a \<and> (\<forall>x. a \<noteq> IP4 x)"
    and host: "host = ''['' @ lit @ '']'' @ port"
    by (auto simp: parseHost_def Let_def split: option.splits if_splits addr.splits)
  have p: "drop (Suc j) raw = port" using port port_chars by force
  note ports = port_chars [OF port(1), unfolded p]
  have un: "unescape EncHost (take (j - 1) (drop 1 raw)) = Some lit"
    using unescape_literal_plain [OF lit] assms(3) by (simp add: host)
  have "CHR ''['' \<notin> set (drop 1 raw)" using last_index_Some [OF i] ij(1) by simp
  then have nobr: "CHR ''['' \<notin> set lit"
    using unescape_no_bracket [OF un] by (meson in_set_takeD)
  let ?e = "escape EncHost lit"
  have esc: "escape EncHost host = CHR ''['' # (?e @ CHR '']'' # port)"
    using bracket_marks escape_port port(1) by (simp add: host p escape_byte_def)
  have "CHR ''['' \<notin> set ?e" using escape_member [of "CHR ''[''" EncHost lit] nobr port_marks by auto
  then have "last_index (CHR ''['') (escape EncHost host) = Some 0"
    using last_index_append [of "CHR ''[''" "?e @ CHR '']'' # port" "[]"] ports by (simp add: esc)
  moreover have "last_index (CHR '']'') (escape EncHost host) = Some (Suc (length ?e))"
    using last_index_append [of "CHR '']''" port "CHR ''['' # ?e"] ports by (simp add: esc)
  moreover have "unescape_literal ?e = Some lit"
    using find_zone_escape unescape_escape_host unescape_host_chars [OF un] assms(3)
    by (simp add: unescape_literal_def host)
  ultimately have "parseHost (escape EncHost host) = Some (''['' @ lit @ '']'' @ port)"
    using adr ports port(1) unfolding parseHost_def esc by (auto simp: p split: addr.split)
  then show ?thesis by (simp add: host)
qed

subsection \<open>What normalising keeps and strips\<close>

definition plain_text :: "unicode \<Rightarrow> string \<Rightarrow> string" where
  "plain_text uc raw = (case DecodeObfuscated uc (TrimSpace raw) of Some plain \<Rightarrow> plain | None \<Rightarrow> TrimSpace raw)"

lemma exact_topics_kind: "exact_topics uc xs n = Inr m \<Longrightarrow> n_Kind m = n_Kind n"
  by (induction uc xs n rule: exact_topics.induct) (auto simp: Let_def split: if_splits sum.splits option.splits)

lemma ParseMagnet_kind: "ParseMagnet uc raw = Inr n \<Longrightarrow> n_Kind n = KindMagnet"
  by (auto simp: ParseMagnet_def of_kind_def Let_def split: option.splits if_splits sum.splits dest!: exact_topics_kind)

lemma Normalize_transport:
  assumes "Normalize uc raw = Inr n" and "n_Kind n \<noteq> KindMagnet"
  shows "\<exists>m kind. kind \<in> {KindHTTP, KindFTP, KindSFTP} \<and> n_URI m = plain_text uc raw \<and> classifyTransport uc m kind = Inr n"
proof -
  let ?m = "(of_kind KindHTTP (plain_text uc raw))
            \<lparr>n_OriginalScheme := (if DecodeObfuscated uc (TrimSpace raw) = None then '''' else schemeOf uc (TrimSpace raw))\<rparr>"
  have "n_URI ?m = plain_text uc raw" by (simp add: of_kind_def)
  moreover from assms have "classifyTransport uc ?m KindHTTP = Inr n \<or> classifyTransport uc ?m KindFTP = Inr n \<or>
      classifyTransport uc ?m KindSFTP = Inr n"
    by (auto simp: Normalize_def Let_def plain_text_def of_kind_def dest!: ParseMagnet_kind split: if_splits sum.splits)
  ultimately show ?thesis by blast
qed

lemma exact_topics_uri: "exact_topics uc xs n = Inr m \<Longrightarrow> n_URI m = n_URI n"
  by (induction uc xs n rule: exact_topics.induct) (auto simp: Let_def split: if_splits sum.splits option.splits)

lemma ParseMagnet_uri: "ParseMagnet uc raw = Inr n \<Longrightarrow> n_URI n = TrimSpace raw"
  by (auto simp: ParseMagnet_def of_kind_def Let_def split: option.splits if_splits sum.splits dest!: exact_topics_uri)

lemma classify_kind: "classifyTransport uc m kind = Inr n \<Longrightarrow> n_Kind n \<in> {KindTorrent, KindMetalink, kind}"
  by (auto simp: classifyTransport_def Let_def split: option.splits if_splits)

lemma Normalize_magnet_text:
  assumes "Normalize uc raw = Inr n" and "n_Kind n = KindMagnet"
  shows "n_URI n = TrimSpace (plain_text uc raw)"
  using assms by (auto simp: Normalize_def Let_def plain_text_def of_kind_def dest!: ParseMagnet_uri classify_kind
      split: if_splits sum.splits)

lemma Hostname_host: "Hostname u \<noteq> '''' \<Longrightarrow> u_Host u \<noteq> ''''"
  by (auto simp: Hostname_def splitHostPort_def last_index_def HasPrefix_def)

lemma hierarchical_user: "hierarchical (u\<lparr>u_User := x\<rparr>) = hierarchical u"
  by (simp add: hierarchical_def)

text \<open>Every host can be read again but a bracketed literal with a zone, whose text may hold a bracket.\<close>

definition zoned :: "string \<Rightarrow> bool" where
  "zoned host \<longleftrightarrow> CHR ''['' \<in> set host \<and> CHR ''%'' \<in> set host"

lemma parsed_host_prints:
  assumes parse: "url_Parse raw = Some u" and host: "u_Host u \<noteq> ''''" and "\<not> zoned (u_Host u)"
  shows "parseHost (escape EncHost (u_Host u)) = Some (u_Host u)"
proof -
  from url_Parse_host [OF parse host] obtain user auth where "parseAuthority auth = Some (user, u_Host u)" by blast
  then obtain h where "parseHost h = Some (u_Host u)"
    by (auto simp: parseAuthority_def Let_def split: option.splits if_splits prod.splits)
  with assms(3) parseHost_printed parseHost_bracket show ?thesis unfolding zoned_def by blast
qed

lemma classify_strips:
  assumes "classifyTransport uc m kind = Inr n"
  shows "\<exists>u. url_Parse (n_URI m) = Some u \<and> Hostname u \<noteq> '''' \<and>
    (n_URI n = n_URI m \<and> u_User u = None \<or> u_User u \<noteq> None \<and> n_URI n = url_String (u\<lparr>u_User := None\<rparr>))"
  using assms by (auto simp: classifyTransport_def Let_def split: option.splits if_splits)

definition same_location :: "go_url \<Rightarrow> go_url \<Rightarrow> bool" where
  "same_location u v \<longleftrightarrow> same_url (u\<lparr>u_User := None\<rparr>) v"

text \<open>
  C37. What is stored of a submitted link. A link that is not a magnet names a host, and what is stored of it
  carries no userinfo: however it is read again, the userinfo is gone, and the scheme, path, query and
  fragment are those of the text that was pasted (or that an obfuscated link decoded to). The stored text can
  be read again and names the same host, unless the link had a userinfo and its host is a bracketed literal
  with a zone. A magnet has no userinfo to strip and is stored as it was pasted, without the space around it,
  its trackers and what they carry included.
\<close>

theorem Normalize_strips:
  assumes norm: "Normalize uc raw = Inr n"
  shows "if n_Kind n = KindMagnet then n_URI n = TrimSpace (plain_text uc raw)
    else \<exists>u. url_Parse (plain_text uc raw) = Some u \<and> Hostname u \<noteq> '''' \<and>
    (\<forall>v. url_Parse (n_URI n) = Some v \<longrightarrow> u_User v = None \<and> same_location u v) \<and>
    (u_User u = None \<or> \<not> zoned (u_Host u) \<longrightarrow> (\<exists>v. url_Parse (n_URI n) = Some v \<and> u_Host v = u_Host u))"
proof (cases "n_Kind n = KindMagnet")
  case True
  then show ?thesis using Normalize_magnet_text [OF norm] by simp
next
  case kind: False
  from Normalize_transport [OF norm kind] obtain m k where "n_URI m = plain_text uc raw" "classifyTransport uc m k = Inr n" by blast
  then obtain u where parse: "url_Parse (plain_text uc raw) = Some u" and name: "Hostname u \<noteq> ''''"
    and or: "n_URI n = plain_text uc raw \<and> u_User u = None \<or> u_User u \<noteq> None \<and> n_URI n = url_String (u\<lparr>u_User := None\<rparr>)"
    using classify_strips by metis
  note host = Hostname_host [OF name]
  note print = url_print_parse [of "u\<lparr>u_User := None\<rparr>", unfolded hierarchical_user, OF url_Parse_host [OF parse host, THEN conjunct1]]
  have loc: "u_User v = None \<and> same_location u v" if "url_Parse (n_URI n) = Some v" for v
    using or parse print that by (auto simp: same_location_def same_url_def)
  have "\<exists>v. url_Parse (n_URI n) = Some v \<and> u_Host v = u_Host u" if "u_User u = None \<or> \<not> zoned (u_Host u)"
    using or parse print parsed_host_prints [OF parse host] that by (auto split: option.splits)
  with parse name loc kind show ?thesis by auto
qed

definition example_uc :: unicode where
  "example_uc = \<lparr>uc_lower = id, uc_upper = id\<rparr>"

lemma spaces_bytes [code]: "spaces =
  [[CHR 9], [CHR 10], [CHR 11], [CHR 12], [CHR 13], [CHR 32], [CHR 0xC2, CHR 0x85], [CHR 0xC2, CHR 0xA0],
   [CHR 0xE1, CHR 0x9A, CHR 0x80]] @ map (\<lambda>c. [CHR 0xE2, CHR 0x80, c]) [CHR 0x80, CHR 0x81, CHR 0x82, CHR 0x83, CHR 0x84,
     CHR 0x85, CHR 0x86, CHR 0x87, CHR 0x88, CHR 0x89, CHR 0x8A, CHR 0xA8, CHR 0xA9, CHR 0xAF] @
   [[CHR 0xE2, CHR 0x81, CHR 0x9F], [CHR 0xE3, CHR 0x80, CHR 0x80]]"
  by (simp add: spaces_def EncodeRune_def chr_def upt_rec) code_simp

lemma Normalize_strips_witness:
  "\<exists>n u. Normalize example_uc '' http://us:pw@h:80/a%20b/c.torrent?x=1#f'' = Inr n \<and> n_Kind n = KindTorrent \<and>
     n_URI n = ''http://h:80/a%20b/c.torrent?x=1#f'' \<and>
     url_Parse (plain_text example_uc '' http://us:pw@h:80/a%20b/c.torrent?x=1#f'') = Some u \<and> Hostname u \<noteq> '''' \<and>
     (\<forall>v. url_Parse (n_URI n) = Some v \<longrightarrow> u_User v = None \<and> same_location u v)"
proof -
  have "case Normalize example_uc '' http://us:pw@h:80/a%20b/c.torrent?x=1#f'' of
      Inr n \<Rightarrow> n_Kind n = KindTorrent \<and> n_URI n = ''http://h:80/a%20b/c.torrent?x=1#f'' | Inl _ \<Rightarrow> False" by code_simp
  then obtain n where n: "Normalize example_uc '' http://us:pw@h:80/a%20b/c.torrent?x=1#f'' = Inr n"
    "n_Kind n = KindTorrent" "n_URI n = ''http://h:80/a%20b/c.torrent?x=1#f''" by (auto split: sum.splits)
  with Normalize_strips [OF n(1)] show ?thesis by auto
qed

subsection \<open>Infohashes\<close>

text \<open>The key form of an infohash: forty or sixty-four lower-case hexadecimal digits.\<close>

definition hexes :: "string \<Rightarrow> bool" where
  "hexes s \<longleftrightarrow> list_all (\<lambda>c. hex_digit c \<noteq> None) s"

definition canonical :: "string \<Rightarrow> bool" where
  "canonical h \<longleftrightarrow> (length h = 40 \<or> length h = 64) \<and> hexes h \<and> map lower_byte h = h"

lemma hex_byte: "hex_digit c \<noteq> None \<longleftrightarrow> 48 \<le> byte c \<and> byte c \<le> 57 \<or> 97 \<le> byte c \<and> byte c \<le> 102 \<or> 65 \<le> byte c \<and> byte c \<le> 70"
  by (auto simp: hex_digit_def digit_val_def byte_def Let_def split: option.splits if_splits)

lemma hex_alnum: "hex_digit c \<noteq> None \<Longrightarrow> alnum c"
  by (auto simp: hex_byte alnum_def Let_def simp del: not_None_eq)

lemma alnum_ascii: "alnum c \<Longrightarrow> byte c < 0x80"
  by (auto simp: alnum_def Let_def)

lemma hexes_ascii: "hexes s \<Longrightarrow> ascii s"
  using hex_alnum alnum_ascii by (auto simp: hexes_def ascii_def list_all_iff simp del: not_None_eq)

lemma ToLower_ascii: "ascii s \<Longrightarrow> ToLower uc s = map lower_byte s"
  by (simp add: ToLower_def)

lemma lower_lower [simp]: "lower_byte (lower_byte c) = lower_byte c"
  by (auto simp: lower_byte_def)

lemma hexes_lower: "hexes s \<Longrightarrow> hexes (map lower_byte s)"
  by (auto simp: hexes_def list_all_iff hex_byte lower_byte_def simp del: not_None_eq)

lemma isHex_ascii: "ascii s \<Longrightarrow> isHex s \<longleftrightarrow> hexes s"
  by (simp add: isHex_def runes_ascii hexes_def hex_byte list_all_iff del: not_None_eq)

lemma DecodeRune_high:
  assumes "s \<noteq> []" and "0x80 \<le> byte (hd s)"
  shows "0x80 \<le> fst (DecodeRune s)"
proof -
  obtain c cs where s: "s = c # cs" using assms(1) by (cases s) auto
  have grow: "a \<le> fold (\<lambda>x acc. acc * 64 + (byte x - 0x80)) xs a" for xs :: string and a :: nat
  proof (induction xs arbitrary: a)
    case (Cons x xs)
    have "a \<le> a * 64 + (byte x - 0x80)" by simp
    also have "\<dots> \<le> fold (\<lambda>x acc. acc * 64 + (byte x - 0x80)) xs (a * 64 + (byte x - 0x80))" by (rule Cons)
    finally show ?case by simp
  qed simp
  show ?thesis
  proof (cases "lead (byte c)")
    case (Some t)
    then obtain w lo hi where t: "t = (w, lo, hi)" by (metis prod_cases3)
    show ?thesis
    proof (cases "length cs < w - 1 \<or> \<not> (lo \<le> byte (hd cs) \<and> byte (hd cs) \<le> hi) \<or> \<not> list_all trailing (take (w - 2) (tl cs))")
      case False
      from Some t have w: "2 \<le> w" by (auto simp: lead_def split: if_splits)
      with False obtain d ds where cs: "cs = d # ds" by (cases cs) auto
      let ?b = "if w = 2 then byte c - 0xC0 else if w = 3 then byte c - 0xE0 else byte c - 0xF0"
      have first: "(if w = 2 then 128 else 16) \<le> ?b * 64 + (byte d - 0x80)"
        using False Some t cs by (auto simp: lead_def split: if_splits)
      show ?thesis
      proof (cases "w = 2")
        case True
        then show ?thesis using first False Some t assms(2) by (simp add: DecodeRune_def s cs)
      next
        case False': False
        with w False cs obtain e es where ds: "ds = e # es" by (cases ds) auto
        from False' w obtain k where k: "w = 3 + k" using le_Suc_ex [of 3 w] by auto
        have "128 \<le> (?b * 64 + (byte d - 0x80)) * 64 + (byte e - 0x80)" using first False' by simp
        with grow [of "(?b * 64 + (byte d - 0x80)) * 64 + (byte e - 0x80)" "take k es"] have
          "128 \<le> fold (\<lambda>x acc. acc * 64 + (byte x - 0x80)) (take (w - 1) cs) ?b"
          using cs ds k by (simp add: numeral_3_eq_3)
        then show ?thesis using False Some t assms(2) by (simp add: DecodeRune_def s)
      qed
    qed (use Some t assms(2) in \<open>simp add: DecodeRune_def s RuneError_def\<close>)
  qed (use assms in \<open>auto simp: DecodeRune_def s RuneError_def\<close>)
qed

lemma runes_low_ascii: "list_all (\<lambda>r. r < 0x80) (runes s) \<Longrightarrow> ascii s"
proof (induction s rule: runes.induct)
  case (1 s)
  show ?case
  proof (cases s)
    case (Cons c cs)
    then have "runes s = fst (DecodeRune s) # runes (drop (snd (DecodeRune s)) s)" by (subst runes.simps) simp
    with 1(2) have low: "fst (DecodeRune s) < 0x80" and rest: "list_all (\<lambda>r. r < 0x80) (runes (drop (snd (DecodeRune s)) s))"
      by simp_all
    have "byte c < 0x80" using DecodeRune_high [of s] low Cons by force
    moreover from this have "snd (DecodeRune s) = 1" by (simp add: DecodeRune_def Cons)
    ultimately show ?thesis using 1(1) rest Cons by (simp add: ascii_def)
  qed (simp add: ascii_def)
qed

lemma isHex_hexes: "isHex s \<Longrightarrow> hexes s"
proof -
  assume hex: "isHex s"
  then have "list_all (\<lambda>r. r < 0x80) (runes s)" by (auto simp: isHex_def list_all_iff)
  with hex show ?thesis using runes_low_ascii isHex_ascii by blast
qed

lemma b32_bytes: "b32_decode s = Some bs \<Longrightarrow> b \<in> set bs \<Longrightarrow> b < 256"
proof -
  have digit: "b32_digit c = Some d \<Longrightarrow> d < 32" for c d by (auto simp: b32_digit_def Let_def split: if_splits)
  have group: "b < 256" if b: "b \<in> set (b32_group ds)" and ds: "\<forall>d\<in>set ds. d < 32" for b ds
  proof -
    have all: "\<forall>d\<in>set (ds @ replicate (8 - length ds) 0). d < 32" using ds by auto
    from b obtain d0 d1 d2 d3 d4 d5 d6 d7 where eq: "ds @ replicate (8 - length ds) 0 = [d0, d1, d2, d3, d4, d5, d6, d7]"
      unfolding b32_group_def by (simp split: list.splits) metis
    with b have "b \<in> {d0 * 8 + d1 div 4, d1 mod 4 * 64 + d2 * 2 + d3 div 16, d3 mod 16 * 16 + d4 div 2,
            d4 mod 2 * 128 + d5 * 4 + d6 div 8, d6 mod 8 * 32 + d7}"
      by (auto simp: b32_group_def Let_def dest!: in_set_takeD split: if_splits)
    moreover have "d0 < 32" "d1 < 32" "d2 < 32" "d3 < 32" "d4 < 32" "d5 < 32" "d6 < 32" "d7 < 32"
      using all unfolding eq by simp_all
    moreover from this have "d1 div 4 < 8" "d3 div 16 < 2" "d4 div 2 < 16" "d6 div 8 < 4" by simp_all
    moreover have "d1 mod 4 < 4" "d3 mod 16 < 16" "d4 mod 2 < 2" "d6 mod 8 < 8" by simp_all
    ultimately show ?thesis by (elim insertE emptyE; linarith)
  qed
  have groups: "b \<in> set (b32_groups ds) \<Longrightarrow> \<forall>d\<in>set ds. d < 32 \<Longrightarrow> b < 256" for b ds
  proof (induction ds rule: b32_groups.induct)
    case (1 ds)
    from 1(2) have "ds \<noteq> []" "b \<in> set (b32_group (take 8 ds)) \<or> b \<in> set (b32_groups (drop 8 ds))"
      by (subst (asm) b32_groups.simps, auto split: if_splits)+
    with 1(1,3) show ?case using group [of b "take 8 ds"] by (auto dest: in_set_takeD in_set_dropD)
  qed
  assume "b32_decode s = Some bs" "b \<in> set bs"
  then show ?thesis using groups digit
    by (force simp: b32_decode_def collect_def list_all_iff split: if_splits)
qed

lemma canonical_lower: "hexes s \<Longrightarrow> length s = 40 \<or> length s = 64 \<Longrightarrow> canonical (map lower_byte s)"
  by (auto simp: canonical_def hexes_lower)

lemma hex_char_digit: "d < 16 \<Longrightarrow> hex_digit (hex_char d) \<noteq> None \<and> lower_byte (hex_char d) = hex_char d"
  by (auto simp: hex_byte hex_char_def lower_byte_def simp del: not_None_eq)

lemma hexes_encode:
  assumes "\<forall>b\<in>set bs. b < 256"
  shows "hexes (hex_encode bs) \<and> map lower_byte (hex_encode bs) = hex_encode bs \<and> length (hex_encode bs) = 2 * length bs"
proof -
  have "b < 256 \<Longrightarrow> b div 16 < 16" for b :: nat by simp
  with assms show ?thesis
    by (induction bs) (simp_all add: hex_encode_def hexes_def hex_char_digit del: not_None_eq)
qed

text \<open>The text of a hash has no space around it, nor has the magnet made of it.\<close>

lemma trim_alnum:
  assumes "s \<noteq> []" and "alnum (hd s)" and "list_all (\<lambda>e. e \<noteq> [] \<and> \<not> alnum (hd e)) es"
  shows "trim_with es s = s"
proof -
  obtain c cs where s: "s = c # cs" using assms(1) by (cases s) auto
  have "\<not> HasPrefix s e" if "e \<in> set es" for e
  proof (cases e)
    case (Cons d ds)
    then have "\<not> alnum d" using that assms(3) by (auto simp: list_all_iff)
    then show ?thesis using assms(2) by (auto simp: s HasPrefix_def Cons)
  qed (use that assms(3) in \<open>auto simp: list_all_iff\<close>)
  then have "List.find (\<lambda>e. e \<noteq> [] \<and> HasPrefix s e) es = None" by (auto simp: find_None_iff)
  then show ?thesis by (simp add: trim_with.simps)
qed

lemma TrimSpace_alnum:
  assumes "s \<noteq> []" and "alnum (hd s)" and "alnum (last s)"
  shows "TrimSpace s = s"
proof -
  have "list_all (\<lambda>e. e \<noteq> [] \<and> \<not> alnum (hd e)) spaces" "list_all (\<lambda>e. e \<noteq> [] \<and> \<not> alnum (hd e)) (map rev spaces)"
    unfolding spaces_bytes by code_simp+
  with trim_alnum [of s spaces] trim_alnum [of "rev s" "map rev spaces"] assms show ?thesis
    by (simp add: TrimSpace_def hd_rev)
qed

lemma canonical_parts:
  assumes "canonical h"
  shows "h \<noteq> []" and "hexes h" and "ascii h" and "map lower_byte h = h" and "list_all alnum h" and "TrimSpace h = h"
proof -
  show ne: "h \<noteq> []" and hex: "hexes h" and "map lower_byte h = h" and "ascii h"
    using assms by (auto simp: canonical_def hexes_ascii)
  show al: "list_all alnum h" using hex hex_alnum by (auto simp: hexes_def list_all_iff simp del: not_None_eq)
  then show "TrimSpace h = h" using ne by (simp add: TrimSpace_alnum list_all_iff)
qed

lemma NormaliseInfohash_canonical: "canonical h \<Longrightarrow> NormaliseInfohash uc h = Some h"
proof -
  assume can: "canonical h"
  then have "length h = 40 \<or> length h = 64" by (simp add: canonical_def)
  moreover have "isHex h" using canonical_parts [OF can] by (simp add: isHex_ascii)
  ultimately show ?thesis
    using canonical_parts [OF can] unfolding NormaliseInfohash_def Let_def by (simp add: ToLower_ascii)
qed

lemma NormaliseInfohash_result:
  assumes "NormaliseInfohash uc raw = Some h" and "h \<noteq> ''''"
  shows "canonical h"
proof -
  let ?s = "TrimSpace raw"
  from assms consider
      (hex) "length ?s = 40 \<or> length ?s = 64" "isHex ?s" "h = ToLower uc ?s"
    | (b32) bs where "b32_decode (ToUpper uc ?s) = Some bs" "length bs = 20" "h = hex_encode bs"
    | (multi) "length ?s = 68" "isHex (drop 4 ?s)" "h = ToLower uc (drop 4 ?s)"
    by (auto simp: NormaliseInfohash_def Let_def split: if_splits option.splits)
  then show ?thesis
  proof cases
    case hex
    then show ?thesis using isHex_hexes [of ?s] by (simp add: ToLower_ascii hexes_ascii canonical_lower)
  next
    case b32
    then have "\<forall>b\<in>set bs. b < 256" using b32_bytes by blast
    with b32 hexes_encode [of bs] show ?thesis by (simp add: canonical_def)
  next
    case multi
    then show ?thesis using isHex_hexes [of "drop 4 ?s"] by (simp add: ToLower_ascii hexes_ascii canonical_lower)
  qed
qed

subsection \<open>The identity a magnet carries\<close>

definition keyed :: "normalized \<Rightarrow> bool" where
  "keyed n \<longleftrightarrow> (length (n_InfohashV1 n) = 40 \<longrightarrow> canonical (n_InfohashV1 n)) \<and>
     (n_InfohashV2 n \<noteq> '''' \<longrightarrow> hexes (n_InfohashV2 n) \<and> length (n_InfohashV2 n) = 64)"

lemma parseBTIH_key:
  assumes "parseBTIH uc value = Inr v1" and "length v1 = 40"
  shows "canonical v1"
proof -
  from assms(1) consider "length value = 40" "hexes value" "v1 = ToLower uc value"
    | bs where "b32_decode (ToUpper uc value) = Some bs" "v1 = hex_encode bs"
    by (auto simp: parseBTIH_def hex_decodes_def hexes_def split: if_splits option.splits)
  then show ?thesis
  proof cases
    case 1
    then show ?thesis by (simp add: ToLower_ascii hexes_ascii canonical_lower)
  next
    case (2 bs)
    then have "\<forall>b\<in>set bs. b < 256" using b32_bytes by blast
    with 2 hexes_encode [of bs] assms(2) show ?thesis by (simp add: canonical_def)
  qed
qed

lemma exact_topics_keyed: "exact_topics uc xts n = Inr m \<Longrightarrow> keyed n \<Longrightarrow> keyed m"
proof (induction uc xts n arbitrary: m rule: exact_topics.induct)
  case (2 uc xt xts n)
  let ?lower = "ToLower uc xt"
  consider (v1) v1 where "parseBTIH uc (drop (length btihPrefix) xt) = Inr v1" "exact_topics uc xts (n\<lparr>n_InfohashV1 := v1\<rparr>) = Inr m"
      "HasPrefix ?lower btihPrefix"
    | (v2) v2 where "parseBTMH (drop (length btmhPrefix) ?lower) = Some v2" "exact_topics uc xts (n\<lparr>n_InfohashV2 := v2\<rparr>) = Inr m"
      "\<not> HasPrefix ?lower btihPrefix" "HasPrefix ?lower btmhPrefix"
    | (none) "parseBTMH (drop (length btmhPrefix) ?lower) = None" "exact_topics uc xts n = Inr m"
      "\<not> HasPrefix ?lower btihPrefix" "HasPrefix ?lower btmhPrefix"
    | (skip) "exact_topics uc xts n = Inr m" "\<not> HasPrefix ?lower btihPrefix" "\<not> HasPrefix ?lower btmhPrefix"
    using 2(4) by (auto simp: Let_def split: if_splits sum.splits option.splits)
  then show ?case
  proof cases
    case v1
    then have "keyed (n\<lparr>n_InfohashV1 := v1\<rparr>)" using 2(5) parseBTIH_key by (auto simp: keyed_def)
    then show ?thesis using 2(1) v1 by simp
  next
    case v2
    then have "length v2 = 64 \<and> hexes v2"
      by (auto simp: parseBTMH_def hex_decodes_def hexes_def Let_def split: if_splits)
    then have "keyed (n\<lparr>n_InfohashV2 := v2\<rparr>)" using 2(5) by (simp add: keyed_def)
    then show ?thesis using 2(2) v2 by simp
  next
    case none
    then show ?thesis using 2(2,5) by simp
  next
    case skip
    then show ?thesis using 2(3,5) by simp
  qed
qed simp

lemma ParseMagnet_keyed: "ParseMagnet uc raw = Inr n \<Longrightarrow> keyed n \<and> (n_InfohashV1 n \<noteq> '''' \<or> n_InfohashV2 n \<noteq> '''')"
proof -
  assume parse: "ParseMagnet uc raw = Inr n"
  obtain xts m where topics: "exact_topics uc xts m = Inr n" and "n_InfohashV1 m = ''''" "n_InfohashV2 m = ''''"
    and some: "n_InfohashV1 n \<noteq> '''' \<or> n_InfohashV2 n \<noteq> ''''"
    using parse by (auto simp: ParseMagnet_def Let_def of_kind_def split: option.splits if_splits sum.splits)
  then have "keyed m" by (simp add: keyed_def)
  with exact_topics_keyed [OF topics] some show ?thesis by blast
qed

subsection \<open>The magnet of a bare infohash\<close>

lemma unescape_query_plain: "list_all (\<lambda>c. c \<noteq> CHR ''%'' \<and> c \<noteq> CHR ''+'') s \<Longrightarrow> unescape EncQuery s = Some s"
  by (induction s) auto

definition urn_chars :: "string \<Rightarrow> bool" where
  "urn_chars s \<longleftrightarrow> list_all (\<lambda>c. alnum c \<or> c = CHR '':'') s"

lemma urn_char: "urn_chars s \<Longrightarrow> c \<in> set s \<Longrightarrow> \<not> control c \<and> c \<notin> {CHR ''#'', CHR ''?'', CHR ''%'', CHR ''+'', CHR ''&'', CHR '';'', CHR ''/''}"
proof -
  assume "urn_chars s" "c \<in> set s"
  then consider "alnum c" | "c = CHR '':''" by (auto simp: urn_chars_def list_all_iff)
  then show ?thesis
  proof cases
    case 1
    moreover have "list_all (\<lambda>c. \<not> alnum c) [CHR ''#'', CHR ''?'', CHR ''%'', CHR ''+'', CHR ''&'', CHR '';'', CHR ''/'']" by code_simp
    ultimately show ?thesis using plain_not_control [of c] by auto
  next
    case 2
    have "\<not> control (CHR '':'')" by code_simp
    with 2 show ?thesis by simp
  qed
qed

lemma parse_magnet_text:
  assumes urn: "urn_chars x"
  shows "url_Parse (''magnet:?xt='' @ x) = Some (empty_url\<lparr>u_Scheme := ''magnet'', u_RawQuery := ''xt='' @ x\<rparr>)"
proof -
  have no: "CHR ''#'' \<notin> set (''magnet:?xt='' @ x)" and ctl: "\<not> list_ex control (''magnet:?xt='' @ x)"
    using urn_char [OF urn] by (auto simp: list_ex_iff control_def byte_def)
  have "scheme_ok ''magnet''" "map lower_byte ''magnet'' = ''magnet''" by code_simp+
  with getScheme_print [of "''magnet''" "''?xt='' @ x"] split_query_mark [of "''''" "''xt='' @ x"] ctl
  have "parse_plain (''magnet:?xt='' @ x) = Some (empty_url\<lparr>u_Scheme := ''magnet'', u_RawQuery := ''xt='' @ x\<rparr>)"
    by (simp add: parse_plain_def Let_def HasPrefix_def empty_url_def)
  then show ?thesis unfolding url_Parse_def Cut1_absent [OF no] by simp
qed

lemma ParseQuery_xt:
  assumes "urn_chars x"
  shows "ParseQuery (''xt='' @ x) = [(''xt'', x)]"
proof -
  have "CHR ''&'' \<notin> set (''xt='' @ x)" "CHR '';'' \<notin> set (''xt='' @ x)" using urn_char [OF assms] by auto
  moreover have "unescape EncQuery x = Some x"
    using urn_char [OF assms] by (intro unescape_query_plain) (auto simp: list_all_iff)
  moreover have "Cut1 (''xt='' @ x) (CHR ''='') = (''xt'', x, True)" using Cut1_append [of "CHR ''=''" "''xt''" x] by simp
  ultimately show ?thesis
    by (simp add: ParseQuery_def Split1.simps query_pair_def map_filter_simps)
qed

lemma urn_of_hash:
  assumes "canonical h"
  shows "urn_chars (''urn:btih:'' @ h)" and "urn_chars (''urn:btmh:1220'' @ h)"
proof -
  have "urn_chars ''urn:btih:''" "urn_chars ''urn:btmh:1220''" by code_simp+
  moreover have "urn_chars h" using canonical_parts(5) [OF assms] by (auto simp: urn_chars_def list_all_iff)
  ultimately show "urn_chars (''urn:btih:'' @ h)" "urn_chars (''urn:btmh:1220'' @ h)"
    unfolding urn_chars_def list_all_append by blast+
qed

lemma ParseMagnet_xt:
  assumes urn: "urn_chars x" and ends: "x \<noteq> []" "alnum (last x)"
    and topics: "exact_topics uc [x] (of_kind KindMagnet (''magnet:?xt='' @ x)) = Inr n"
    and some: "n_InfohashV1 n \<noteq> '''' \<or> n_InfohashV2 n \<noteq> ''''"
  shows "ParseMagnet uc (''magnet:?xt='' @ x) = Inr n" and "TrimSpace (''magnet:?xt='' @ x) = ''magnet:?xt='' @ x"
proof -
  have "alnum (CHR ''m'')" by code_simp
  then show trim: "TrimSpace (''magnet:?xt='' @ x) = ''magnet:?xt='' @ x"
    using ends by (intro TrimSpace_alnum) simp_all
  have q: "values_of ''dn'' [(''xt'', x)] = []" "values_of ''tr'' [(''xt'', x)] = []" "values_of ''x.pe'' [(''xt'', x)] = []"
    "values_of ''xt'' [(''xt'', x)] = [x]" by (simp_all add: values_of_def)
  have "get_value ''dn'' [(''xt'', x)] = []" "\<not> hasControlChar []" by (simp_all add: get_value_def q hasControlChar_def runes.simps)
  moreover have "(of_kind KindMagnet s)\<lparr>n_DisplayName := '''', n_Trackers := [], n_PeerHints := []\<rparr> = of_kind KindMagnet s" for s
    by (simp add: of_kind_def)
  ultimately show "ParseMagnet uc (''magnet:?xt='' @ x) = Inr n"
    using topics some unfolding ParseMagnet_def trim parse_magnet_text [OF urn]
    by (simp add: ParseQuery_xt [OF urn, simplified] q del: exact_topics.simps)
qed

lemma hexes_decodes: "canonical h \<Longrightarrow> hex_decodes h"
  by (auto simp: hex_decodes_def canonical_def hexes_def)

lemma topic_v1:
  assumes "canonical h" and "length h = 40"
  shows "exact_topics uc [''urn:btih:'' @ h] n = Inr (n\<lparr>n_InfohashV1 := h\<rparr>)"
proof -
  have "ascii ''urn:btih:''" "map lower_byte ''urn:btih:'' = ''urn:btih:''" by code_simp+
  with canonical_parts [OF assms(1)] have "ToLower uc (''urn:btih:'' @ h) = ''urn:btih:'' @ h"
    by (simp add: ToLower_def ascii_def)
  moreover have "parseBTIH uc h = Inr h"
    using assms hexes_decodes canonical_parts [OF assms(1)] by (simp add: parseBTIH_def ToLower_ascii)
  ultimately show ?thesis by (simp add: btihPrefix_def Let_def HasPrefix_def)
qed

lemma topic_v2:
  assumes "canonical h" and "length h = 64"
  shows "exact_topics uc [''urn:btmh:1220'' @ h] n = Inr (n\<lparr>n_InfohashV2 := h\<rparr>)"
proof -
  have "ascii ''urn:btmh:1220''" "map lower_byte ''urn:btmh:1220'' = ''urn:btmh:1220''" by code_simp+
  with canonical_parts [OF assms(1)] have "ToLower uc (''urn:btmh:1220'' @ h) = ''urn:btmh:1220'' @ h"
    by (simp add: ToLower_def ascii_def)
  moreover have "parseBTMH (''1220'' @ h) = Some h"
    using assms hexes_decodes by (simp add: parseBTMH_def HasPrefix_def)
  ultimately show ?thesis by (simp add: btihPrefix_def btmhPrefix_def Let_def HasPrefix_def)
qed

lemma cut_scheme_magnet: "CHR ''/'' \<notin> set s \<Longrightarrow> cut_scheme s = None"
proof (induction s)
  case (Cons c s)
  then have "take 3 (c # s) \<noteq> ''://''" using in_set_takeD [of "CHR ''/''" 3 "c # s"] by auto
  with Cons show ?case by (simp add: HasPrefix_def numeral_2_eq_2)
qed simp

lemma Normalize_magnet:
  assumes trim: "TrimSpace m = m" and magnet: "\<exists>x. m = ''magnet:?xt='' @ x \<and> urn_chars x" and parse: "ParseMagnet uc m = Inr n"
    and plain: "n_OriginalScheme n = ''''"
  shows "Normalize uc m = Inr n"
proof -
  from magnet obtain x where m: "m = ''magnet:?xt='' @ x" and urn: "urn_chars x" by blast
  have "CHR ''/'' \<notin> set m" using urn_char [OF urn] by (auto simp: m)
  then have dec: "DecodeObfuscated uc m = None" by (simp add: DecodeObfuscated_def cut_scheme_magnet)
  have "ToLower uc ''magnet'' = ''magnet''" by (simp add: ToLower_def, code_simp)
  then have "schemeOf uc m = ''magnet''"
    using Cut1_append [of "CHR '':''" "''magnet''" "''?xt='' @ x"] by (simp add: schemeOf_def m)
  moreover have "m \<noteq> []" by (simp add: m)
  ultimately show ?thesis
    using parse plain by (simp add: Normalize_def Let_def trim dec of_kind_def)
qed

lemma bare_magnet:
  assumes "canonical h"
  shows "Normalize uc (n_URI (magnetOfBareInfohash h)) = Inr (magnetOfBareInfohash h)"
proof -
  let ?n = "magnetOfBareInfohash h"
  let ?x = "if length h = 40 then ''urn:btih:'' @ h else ''urn:btmh:1220'' @ h"
  have uri: "n_URI ?n = ''magnet:?xt='' @ ?x" by (simp add: magnetOfBareInfohash_def of_kind_def)
  have urn: "urn_chars ?x" using urn_of_hash [OF assms] by simp
  have ends: "?x \<noteq> []" "alnum (last ?x)"
    using canonical_parts(1,5) [OF assms] by (auto simp: list_all_iff)
  have topics: "exact_topics uc [?x] (of_kind KindMagnet (''magnet:?xt='' @ ?x)) = Inr ?n"
  proof (cases "length h = 40")
    case True
    then show ?thesis using topic_v1 [OF assms True, of uc] by (simp add: magnetOfBareInfohash_def del: exact_topics.simps)
  next
    case False
    then have len: "length h = 64" using assms by (auto simp: canonical_def)
    with False topic_v2 [OF assms len, of uc] show ?thesis
      by (simp add: magnetOfBareInfohash_def del: exact_topics.simps)
  qed
  have "n_InfohashV1 ?n \<noteq> '''' \<or> n_InfohashV2 ?n \<noteq> ''''" "n_OriginalScheme ?n = ''''"
    using canonical_parts(1) [OF assms] by (auto simp: magnetOfBareInfohash_def of_kind_def)
  with ParseMagnet_xt [OF urn ends topics] urn show ?thesis
    unfolding uri by (intro Normalize_magnet) blast+
qed

text \<open>
  C38. A submission that is an infohash in any of its forms (hexadecimal, base32, or a tagged multihash) is stored
  as a magnet whose text, read again, gives the same task: the same identity, under the one spelling that the
  store looks it up by.
\<close>

theorem infohash_roundtrip:
  assumes "NormaliseInfohash uc raw = Some h" and "h \<noteq> ''''"
  shows "\<exists>n. normaliseSubmission uc raw = Inr n \<and> Normalize uc (n_URI n) = Inr n \<and>
    (n_InfohashV1 n = h \<and> n_InfohashV2 n = '''' \<or> n_InfohashV1 n = '''' \<and> n_InfohashV2 n = h) \<and>
    NormaliseInfohash uc h = Some h"
proof -
  have can: "canonical h" using NormaliseInfohash_result [OF assms] .
  have "n_InfohashV1 (magnetOfBareInfohash h) = h \<and> n_InfohashV2 (magnetOfBareInfohash h) = '''' \<or>
      n_InfohashV1 (magnetOfBareInfohash h) = '''' \<and> n_InfohashV2 (magnetOfBareInfohash h) = h"
    by (simp add: magnetOfBareInfohash_def of_kind_def)
  with assms bare_magnet [OF can] NormaliseInfohash_canonical [OF can] show ?thesis
    by (simp add: normaliseSubmission_def)
qed

lemma infohash_roundtrip_witness:
  "\<exists>n. normaliseSubmission example_uc ''ABCDEFABCDEFABCDEFABCDEFABCDEFABCDEFABCD'' = Inr n \<and> Normalize example_uc (n_URI n) = Inr n"
proof -
  have "NormaliseInfohash example_uc ''ABCDEFABCDEFABCDEFABCDEFABCDEFABCDEFABCD'' = Some ''abcdefabcdefabcdefabcdefabcdefabcdefabcd''"
    by code_simp
  from infohash_roundtrip [OF this] show ?thesis by auto
qed

text \<open>
  A base32 topic with a line break in it decodes to fewer than twenty bytes, and the magnet parser takes the
  short hash, which is no key of the store.
\<close>

lemma short_btih:
  "case Normalize example_uc ''magnet:?xt=urn:btih:AAAAAAAAAAAAAAAAAAAAAAAAAAAAAAA%0A&dn=x'' of
     Inr n \<Rightarrow> length (n_InfohashV1 n) = 38 \<and> NormaliseInfohash example_uc (n_InfohashV1 n) = None
   | Inl _ \<Rightarrow> False"
  by code_simp

end
