(* ===== verification/Preflight.thy ===== *)
theory Preflight
  imports Ssrf UriProps
begin

section \<open>Preflight of submitted links, and redaction\<close>

text \<open>
  \<open>secure/preflight.go\<close>, and \<open>RedactURL\<close> of \<open>secure/ssrf.go\<close>: the check a submitted link passes before a
  daemon, which dials for itself, is asked to fetch it, and the form in which a link may be logged. The
  resolver is an argument; \<open>None\<close> is its error. A nil resolver is \<open>None\<close>.
\<close>

definition RedactURL :: "string \<Rightarrow> string" where
  "RedactURL raw = (case url_Parse raw of
      None \<Rightarrow> ''[unparseable url]''
    | Some u \<Rightarrow> url_String (u\<lparr>u_User := None, u_RawQuery := '''', u_Fragment := '''', u_RawFragment := ''''\<rparr>))"

definition governedSchemes :: "string list" where
  "governedSchemes = [''http'', ''https'', ''ftp'', ''ftps'', ''sftp'']"

text \<open>A denial with the submitted link it is about.\<close>

record uri_blocked = blocked +
  ub_URL :: string

definition with_url :: "blocked \<Rightarrow> string \<Rightarrow> uri_blocked" where
  "with_url b url = blocked.extend b \<lparr>ub_URL = url\<rparr>"

definition uriBlockedError :: "blocked option \<Rightarrow> string \<Rightarrow> uri_blocked option" where
  "uriBlockedError err rawURI = map_option (\<lambda>b. with_url b (RedactURL rawURI)) err"

fun check_all :: "guard option \<Rightarrow> addr list \<Rightarrow> string \<Rightarrow> uri_blocked option" where
  "check_all g [] rawURI = None"
| "check_all g (ip # ips) rawURI = (case AllowAddr g ip of
      Some err \<Rightarrow> uriBlockedError (Some err) rawURI
    | None \<Rightarrow> check_all g ips rawURI)"

definition PreflightURI ::
  "unicode \<Rightarrow> guard option \<Rightarrow> (string \<Rightarrow> addr list option) option \<Rightarrow> string \<Rightarrow> uri_blocked option" where
  "PreflightURI uc g resolver rawURI =
     (case Cut1 rawURI (CHR '':'') of (scheme0, _, found) \<Rightarrow>
      let scheme = ToLower uc scheme0;
          refuse = (\<lambda>reason. Some (with_url (refusal reason) (RedactURL rawURI))) in
      if \<not> found \<or> scheme \<notin> set governedSchemes then None
      else case url_Parse rawURI of
        None \<Rightarrow> refuse ''parse''
      | Some u \<Rightarrow> (case resolver of
          None \<Rightarrow> refuse ''guard''
        | Some lookup \<Rightarrow>
            if \<not> usable g then refuse ''guard''
            else if scheme \<in> {''http'', ''https''} \<and> Port u \<noteq> '''' \<and> Port u \<noteq> ''80'' \<and> Port u \<noteq> ''443'' then refuse ''port''
            else case ParseAddr (Hostname u) of
              Some ip \<Rightarrow> uriBlockedError (AllowAddr g ip) rawURI
            | None \<Rightarrow> (case lookup (Hostname u) of
                None \<Rightarrow> refuse ''resolve''
              | Some addrs \<Rightarrow> if addrs = [] then refuse ''resolve'' else check_all g addrs rawURI)))"

subsection \<open>What passes\<close>

lemma check_all_None: "check_all g ips rawURI = None \<longleftrightarrow> (\<forall>ip \<in> set ips. AllowAddr g ip = None)"
  by (induction ips) (auto simp: uriBlockedError_def split: option.splits)

text \<open>The scheme of a link decides whether it is checked at all.\<close>

definition is_governed :: "unicode \<Rightarrow> string \<Rightarrow> bool" where
  "is_governed uc rawURI \<longleftrightarrow> (\<exists>front rest. rawURI = front @ '':'' @ rest \<and> CHR '':'' \<notin> set front \<and> ToLower uc front \<in> set governedSchemes)"

lemma is_governed_iff:
  "is_governed uc rawURI \<longleftrightarrow> (case Cut1 rawURI (CHR '':'') of (scheme, _, found) \<Rightarrow> found \<and> ToLower uc scheme \<in> set governedSchemes)"
proof (cases "CHR '':'' \<in> set rawURI")
  case False
  then show ?thesis by (auto simp: is_governed_def Cut1_absent)
next
  case True
  from split_list_first [OF True] obtain front rest where
    split: "rawURI = front @ CHR '':'' # rest" "CHR '':'' \<notin> set front" by blast
  then have cut: "Cut1 rawURI (CHR '':'') = (front, rest, True)" by (simp add: Cut1_append)
  have "is_governed uc rawURI \<longleftrightarrow> ToLower uc front \<in> set governedSchemes"
  proof
    assume "is_governed uc rawURI"
    then obtain front' rest' where other: "rawURI = front' @ CHR '':'' # rest'" "CHR '':'' \<notin> set front'"
      and low: "ToLower uc front' \<in> set governedSchemes" by (auto simp: is_governed_def)
    have "Cut1 rawURI (CHR '':'') = (front', rest', True)" unfolding other(1) by (rule Cut1_append) (rule other(2))
    with cut low show "ToLower uc front \<in> set governedSchemes" by simp
  next
    assume "ToLower uc front \<in> set governedSchemes"
    with split show "is_governed uc rawURI" unfolding is_governed_def by auto
  qed
  with cut show ?thesis by simp
qed

text \<open>
  C36. The preflight lets a link of a governed scheme through exactly when it can be read, an http(s) port is
  80 or 443, and every address the daemon could be sent to is one that the guard admits: the literal
  address in the link, or else every answer of the resolver, of which there must be one. Whatever cannot be
  read or resolved is refused; links of other schemes are not its business.
\<close>

theorem PreflightURI_correct:
  "PreflightURI uc (Some (NewGuard allowPrivate)) (Some lookup) rawURI = None \<longleftrightarrow>
     (\<not> is_governed uc rawURI \<or>
      (\<exists>u. url_Parse rawURI = Some u \<and>
         (ToLower uc (fst (Cut1 rawURI (CHR '':''))) \<in> {''http'', ''https''} \<longrightarrow> Port u \<in> {'''', ''80'', ''443''}) \<and>
         (case ParseAddr (Hostname u) of
            Some ip \<Rightarrow> admitted allowPrivate ip
          | None \<Rightarrow> (\<exists>addrs. lookup (Hostname u) = Some addrs \<and> addrs \<noteq> [] \<and> (\<forall>ip \<in> set addrs. admitted allowPrivate ip)))))"
proof -
  obtain scheme rest found where cut: "Cut1 rawURI (CHR '':'') = (scheme, rest, found)" by (metis prod_cases3)
  have usable: "usable (Some (NewGuard allowPrivate))" by (simp add: usable_def NewGuard_def Let_def)
  show ?thesis
    unfolding PreflightURI_def cut is_governed_iff
    by (auto simp: usable uriBlockedError_def check_all_None AllowAddr_admitted Let_def split: option.splits)
qed

definition demo_lookup :: "string \<Rightarrow> addr list option" where
  "demo_lookup host = (if host = ''h'' then Some [the (ParseAddr ''8.8.8.8'')]
     else if host = ''inside'' then Some [the (ParseAddr ''8.8.8.8''), the (ParseAddr ''10.0.0.1'')] else None)"

theorem PreflightURI_correct_witness:
  "(\<exists>u addrs. url_Parse ''http://h/a'' = Some u \<and> demo_lookup (Hostname u) = Some addrs \<and> addrs \<noteq> [] \<and>
     (\<forall>ip \<in> set addrs. admitted False ip)) \<and>
   \<not> (\<forall>ip \<in> set (the (demo_lookup ''inside'')). admitted False ip)"
proof
  let ?pass = "\<lambda>raw. PreflightURI example_uc (Some (NewGuard False)) (Some demo_lookup) raw = None"
  have urls: "case url_Parse ''http://h/a'' of None \<Rightarrow> False | Some u \<Rightarrow> ParseAddr (Hostname u) = None"
    "case url_Parse ''http://inside/'' of None \<Rightarrow> False | Some u \<Rightarrow> Hostname u = ''inside'' \<and> Port u = ''''"
    "ParseAddr ''inside'' = None" "demo_lookup ''inside'' \<noteq> None" "the (demo_lookup ''inside'') \<noteq> []"
    by code_simp+
  have "?pass ''http://h/a''" "is_governed example_uc ''http://h/a''" "\<not> ?pass ''http://inside/''"
    unfolding is_governed_iff by code_simp+
  then show "\<exists>u addrs. url_Parse ''http://h/a'' = Some u \<and> demo_lookup (Hostname u) = Some addrs \<and> addrs \<noteq> [] \<and>
     (\<forall>ip \<in> set addrs. admitted False ip)"
    and "\<not> (\<forall>ip \<in> set (the (demo_lookup ''inside'')). admitted False ip)"
    using urls unfolding PreflightURI_correct by (auto split: option.splits)
qed

text \<open>A broken wiring fails closed.\<close>

lemma PreflightURI_unwired: "is_governed uc rawURI \<Longrightarrow> \<not> usable g \<or> resolver = None \<Longrightarrow> PreflightURI uc g resolver rawURI \<noteq> None"
  unfolding is_governed_iff PreflightURI_def by (auto simp: Let_def split: option.splits prod.splits)

subsection \<open>What may be logged\<close>

text \<open>
  What is logged of a link that names a host carries no credentials, query or fragment: however it is
  read again, these are empty, and its scheme and path are those of the link.
\<close>

theorem RedactURL_strips:
  assumes "url_Parse raw = Some u" and "u_Host u \<noteq> ''''" and "url_Parse (RedactURL raw) = Some v"
  shows "u_User v = None \<and> u_RawQuery v = '''' \<and> u_Fragment v = '''' \<and> u_Scheme v = u_Scheme u \<and> u_Path v = u_Path u"
proof -
  let ?u = "u\<lparr>u_User := None, u_RawQuery := '''', u_Fragment := '''', u_RawFragment := ''''\<rparr>"
  have "hierarchical u" using url_Parse_host [OF assms(1)] assms(2) by blast
  then have "hierarchical ?u" by (simp add: hierarchical_def)
  from url_print_parse [OF this] assms(1,3) show ?thesis
    by (auto simp: RedactURL_def same_url_def split: option.splits)
qed

theorem RedactURL_strips_witness:
  "\<exists>v. url_Parse (RedactURL ''http://u:p@h/a?k=1'') = Some v \<and> u_User v = None \<and> u_RawQuery v = ''''"
proof -
  have "case url_Parse ''http://u:p@h/a?k=1'' of None \<Rightarrow> False | Some u \<Rightarrow> u_Host u \<noteq> ''''"
    "case url_Parse (RedactURL ''http://u:p@h/a?k=1'') of None \<Rightarrow> False | Some v \<Rightarrow> True"
    by code_simp+
  then obtain u v where "url_Parse ''http://u:p@h/a?k=1'' = Some u" "u_Host u \<noteq> ''''"
    "url_Parse (RedactURL ''http://u:p@h/a?k=1'') = Some v" by (auto split: option.splits)
  from this(3) RedactURL_strips [OF this] show ?thesis by blast
qed

text \<open>An opaque link keeps its text: the credentials of a link without slashes are logged.\<close>

lemma RedactURL_opaque: "RedactURL ''http:u:p@h/a?k=1'' = ''http:u:p@h/a''"
  by code_simp

end
