(* ===== verification/Settings.thy ===== *)
theory Settings
  imports EngineApi DiskSpace
begin

section \<open>Settings rows and the bandwidth grid\<close>

text \<open>
  \<open>src/internal/store/settings.go\<close>: the table of settings, its typed view, the validation of a write, the
  list of extraction passwords and the 24x7 grid of the bandwidth schedule.

  \<^item> The state is the world extended by the two tables (\<open>site\<close>). Reads and writes are transactions of the
    store's kind: they meet faults, and a fault may strike after the commit.
  \<^item> A stored value is represented by what \<open>encoding/json\<close> reads from it (\<open>json_text\<close>); a member of a request
    by its bytes together with that value. A Go map is the list of its entries in the order the loop meets
    them; the map of free-space floors is written sorted by key, as \<open>json.Marshal\<close> does.
\<close>

record setting_row =
  sr_id :: string
  sr_key :: string
  sr_value :: json_text
  sr_created_at :: int
  sr_updated_at :: int

record grid_row =
  gr_day :: int
  gr_hour :: int
  gr_mode :: string
  gr_updated_at :: int

record 'e site = "'e world" +
  st_settings :: "setting_row list"
  st_grid :: "grid_row list"

type_synonym ('e, 'z, 'a) site_action = "(('e, 'z) site_scheme, 'a) action"

datatype settings_error =
    SetStore store_error | SetDecode string | ErrUnknownSettingKey string | ErrSettingOutOfRange string
  | SetGrid string

text \<open>A read of the tables, decoded by \<open>q\<close>.\<close>

definition settings_query ::
  "(('e, 'z) site_scheme \<Rightarrow> settings_error + 'a) \<Rightarrow> ('e, 'z, settings_error + 'a) site_action" where
  "settings_query q = do {
     r \<leftarrow> query (\<lambda>s. Inr (q s));
     ret (case r of Inl err \<Rightarrow> Inl (SetStore err) | Inr x \<Rightarrow> x)
   }"

text \<open>A write transaction whose body may end early with an answer of its own.\<close>

definition settings_tx ::
  "(('e, 'z) site_scheme \<Rightarrow> (settings_error + ('e, 'z) site_scheme option)) \<Rightarrow>
   ('e, 'z, settings_error + unit) site_action" where
  "settings_tx body = do {
     r \<leftarrow> tx (\<lambda>s. case body s of
        Inl err \<Rightarrow> (Rollback (Inr (Inl err)), s)
      | Inr None \<Rightarrow> (Rollback (Inr (Inr ())), s)
      | Inr (Some s') \<Rightarrow> (Commit (Inr ()), s'));
     ret (case r of Inl err \<Rightarrow> Inl (SetStore err) | Inr x \<Rightarrow> x)
   }"

subsection \<open>Decoding a value\<close>

definition settingInt :: "json_text \<Rightarrow> int option" where
  "settingInt v = (case v of Json j \<Rightarrow> json_int j | NoJson _ \<Rightarrow> None)"

definition settingBool :: "json_text \<Rightarrow> bool option" where
  "settingBool v = (case v of Json (JBool b) \<Rightarrow> Some b | _ \<Rightarrow> None)"

definition settingString :: "json_text \<Rightarrow> string option" where
  "settingString v = (case v of Json (JStr s) \<Rightarrow> Some s | _ \<Rightarrow> None)"

text \<open>An element \<open>null\<close> leaves the zero value in a list of strings too.\<close>

fun json_str_or_empty :: "json \<Rightarrow> string option" where
  "json_str_or_empty JNull = Some ''''"
| "json_str_or_empty (JStr s) = Some s"
| "json_str_or_empty _ = None"

definition settingStringSlice :: "json_text \<Rightarrow> string list option" where
  "settingStringSlice v = (case v of Json (JArr vs) \<Rightarrow> all_some (map json_str_or_empty vs) | _ \<Rightarrow> None)"

text \<open>The entries of a map in key order; of a repeated key the last one counts.\<close>

definition sorted_map :: "(string \<times> 'a) list \<Rightarrow> (string \<times> 'a) list" where
  "sorted_map es = sort_key fst (AList.clearjunk (rev es))"

definition settingIntMap :: "json_text \<Rightarrow> (string \<times> int) list option" where
  "settingIntMap v = (case v of
      Json (JObj kvs) \<Rightarrow> map_option sorted_map
        (all_some (map (\<lambda>(k, x). map_option (Pair k) (json_int_or_zero x)) kvs))
    | _ \<Rightarrow> None)"

subsection \<open>Single rows\<close>

definition PrefixSetting :: string where "PrefixSetting = ''set_''"

definition querySettingValue :: "string \<Rightarrow> setting_row list \<Rightarrow> json_text option" where
  "querySettingValue key rows = map_option sr_value (sql_find (\<lambda>r. sr_key r = key) rows)"

definition queryUpsertSetting ::
  "string \<Rightarrow> string \<Rightarrow> json_text \<Rightarrow> int \<Rightarrow> setting_row list \<Rightarrow> setting_row list" where
  "queryUpsertSetting rid key v now rows =
     (if key \<in> set (map sr_key rows)
      then map (\<lambda>r. if sr_key r = key then r\<lparr>sr_value := v, sr_updated_at := now\<rparr> else r) rows
      else rows @ [\<lparr>sr_id = rid, sr_key = key, sr_value = v, sr_created_at = now, sr_updated_at = now\<rparr>])"

definition upsert_setting :: "string \<Rightarrow> json_text \<Rightarrow> ('e, 'z) site_scheme \<Rightarrow> ('e, 'z) site_scheme" where
  "upsert_setting key v s = (case NewID PrefixSetting s of
      (rid, s') \<Rightarrow> s'\<lparr>st_settings := queryUpsertSetting rid key v (s_now s') (st_settings s')\<rparr>)"

definition GetInt64 :: "string \<Rightarrow> int \<Rightarrow> ('e, 'z, settings_error + int) site_action" where
  "GetInt64 key def = settings_query (\<lambda>s. case querySettingValue key (st_settings s) of
      None \<Rightarrow> Inr def
    | Some v \<Rightarrow> (case settingInt v of None \<Rightarrow> Inl (SetDecode key) | Some n \<Rightarrow> Inr n))"

definition SetInt64 :: "string \<Rightarrow> int \<Rightarrow> ('e, 'z, settings_error + unit) site_action" where
  "SetInt64 key v = settings_tx (\<lambda>s. Inr (Some (upsert_setting key (Json (JInt v)) s)))"

definition settingDefaultDestination :: string where "settingDefaultDestination = ''default_destination''"

text \<open>\<open>json.Unmarshal\<close> of \<open>null\<close> into a string leaves it empty; an empty text is read as unset.\<close>

definition DefaultDestination :: "('e, 'z, settings_error + string) site_action" where
  "DefaultDestination = settings_query (\<lambda>s. case querySettingValue settingDefaultDestination (st_settings s) of
      None \<Rightarrow> Inr ''''
    | Some v \<Rightarrow>
        if v = NoJson '''' \<or> v = Json JNull then Inr ''''
        else (case settingString v of None \<Rightarrow> Inl (SetDecode settingDefaultDestination) | Some d \<Rightarrow> Inr d))"

subsection \<open>Extraction passwords\<close>

definition settingExtractPasswords :: string where "settingExtractPasswords = ''extract_passwords''"

definition MaxExtractPasswords :: nat where "MaxExtractPasswords = 16"

definition password_list :: "json_text \<Rightarrow> string list option" where
  "password_list v = (if v = Json JNull then Some [] else settingStringSlice v)"

definition ExtractPasswords :: "('e, 'z, settings_error + string list) site_action" where
  "ExtractPasswords = settings_query (\<lambda>s. case querySettingValue settingExtractPasswords (st_settings s) of
      None \<Rightarrow> Inr []
    | Some v \<Rightarrow> (case password_list v of None \<Rightarrow> Inl (SetDecode settingExtractPasswords) | Some l \<Rightarrow> Inr l))"

text \<open>The oldest entries beyond the cap are dropped.\<close>

definition keep_newest :: "string list \<Rightarrow> string list" where
  "keep_newest pws = (if MaxExtractPasswords < length pws then drop (length pws - MaxExtractPasswords) pws else pws)"

definition AppendExtractPassword :: "string \<Rightarrow> ('e, 'z, settings_error + unit) site_action" where
  "AppendExtractPassword pw = settings_tx (\<lambda>s.
     case (case querySettingValue settingExtractPasswords (st_settings s) of
         None \<Rightarrow> Some [] | Some v \<Rightarrow> password_list v) of
       None \<Rightarrow> Inl (SetDecode settingExtractPasswords)
     | Some pws \<Rightarrow>
         if pw \<in> set pws then Inr None
         else Inr (Some (upsert_setting settingExtractPasswords
           (Json (JArr (map JStr (keep_newest (pws @ [pw]))))) s)))"

subsection \<open>The typed view\<close>

record settings =
  ss_DownloadRateLimit :: int
  ss_UploadRateLimit :: int
  ss_AltDownloadRate :: int
  ss_AltUploadRate :: int
  ss_ScheduleEnabled :: bool
  ss_DefaultDestination :: string
  ss_MinFreeSpace :: "(string \<times> int) list"
  ss_MaxActiveTotal :: int
  ss_MaxActivePerEngine :: int
  ss_ProcessOrder :: string
  ss_RSSEnabled :: bool
  ss_RSSIntervalS :: int
  ss_AutoExtract :: bool
  ss_ExtractPasswords :: "string list"
  ss_ConfirmOnDelete :: bool

definition settingDownloadRateLimit :: string where "settingDownloadRateLimit = ''download_rate_limit''"
definition settingUploadRateLimit :: string where "settingUploadRateLimit = ''upload_rate_limit''"
definition settingAltDownloadRate :: string where "settingAltDownloadRate = ''alt_download_rate_limit''"
definition settingAltUploadRate :: string where "settingAltUploadRate = ''alt_upload_rate_limit''"
definition settingScheduleEnabled :: string where "settingScheduleEnabled = ''schedule_enabled''"
definition settingMinFreeSpace :: string where "settingMinFreeSpace = ''min_free_space''"
definition settingMaxActiveTotal :: string where "settingMaxActiveTotal = ''max_active_total''"
definition settingMaxActivePerEngine :: string where "settingMaxActivePerEngine = ''max_active_per_engine''"
definition settingProcessOrder :: string where "settingProcessOrder = ''process_order''"
definition settingRSSEnabled :: string where "settingRSSEnabled = ''rss_enabled''"
definition settingRSSIntervalS :: string where "settingRSSIntervalS = ''rss_interval_s''"
definition settingAutoExtract :: string where "settingAutoExtract = ''auto_extract''"
definition settingConfirmOnDelete :: string where "settingConfirmOnDelete = ''confirm_on_delete''"

definition defaultAltDownloadRate :: int where "defaultAltDownloadRate = 5242880"
definition defaultAltUploadRate :: int where "defaultAltUploadRate = 1048576"
definition defaultMaxActiveTotal :: int where "defaultMaxActiveTotal = 5"
definition defaultMaxActivePerEngine :: int where "defaultMaxActivePerEngine = 3"
definition defaultRSSIntervalS :: int where "defaultRSSIntervalS = 1800"
definition processOrderByDateCreated :: string where "processOrderByDateCreated = ''by_date_created''"
definition rssIntervalSFloor :: int where "rssIntervalSFloor = 300"

lemmas setting_key_defs = settingDownloadRateLimit_def settingUploadRateLimit_def settingAltDownloadRate_def
  settingAltUploadRate_def settingScheduleEnabled_def settingDefaultDestination_def settingMinFreeSpace_def
  settingMaxActiveTotal_def settingMaxActivePerEngine_def settingProcessOrder_def settingRSSEnabled_def
  settingRSSIntervalS_def settingAutoExtract_def settingExtractPasswords_def settingConfirmOnDelete_def

definition settingsKeys :: "string list" where
  "settingsKeys = [settingDownloadRateLimit, settingUploadRateLimit, settingAltDownloadRate, settingAltUploadRate,
     settingScheduleEnabled, settingDefaultDestination, settingMinFreeSpace, settingMaxActiveTotal,
     settingMaxActivePerEngine, settingProcessOrder, settingRSSEnabled, settingRSSIntervalS, settingAutoExtract,
     settingExtractPasswords, settingConfirmOnDelete]"

definition default_settings :: settings where
  "default_settings = \<lparr>ss_DownloadRateLimit = 0, ss_UploadRateLimit = 0, ss_AltDownloadRate = defaultAltDownloadRate,
     ss_AltUploadRate = defaultAltUploadRate, ss_ScheduleEnabled = False, ss_DefaultDestination = '''',
     ss_MinFreeSpace = [], ss_MaxActiveTotal = defaultMaxActiveTotal,
     ss_MaxActivePerEngine = defaultMaxActivePerEngine, ss_ProcessOrder = processOrderByDateCreated,
     ss_RSSEnabled = True, ss_RSSIntervalS = defaultRSSIntervalS, ss_AutoExtract = False,
     ss_ExtractPasswords = [], ss_ConfirmOnDelete = True\<rparr>"

text \<open>One row of the read loop: the switch over the keys. \<open>int\<close> has 64 bits.\<close>

definition read_setting :: "string \<Rightarrow> json_text \<Rightarrow> settings \<Rightarrow> settings option" where
  "read_setting key v out =
     (if key = settingDownloadRateLimit then map_option (\<lambda>n. out\<lparr>ss_DownloadRateLimit := n\<rparr>) (settingInt v)
      else if key = settingUploadRateLimit then map_option (\<lambda>n. out\<lparr>ss_UploadRateLimit := n\<rparr>) (settingInt v)
      else if key = settingAltDownloadRate then map_option (\<lambda>n. out\<lparr>ss_AltDownloadRate := n\<rparr>) (settingInt v)
      else if key = settingAltUploadRate then map_option (\<lambda>n. out\<lparr>ss_AltUploadRate := n\<rparr>) (settingInt v)
      else if key = settingScheduleEnabled then map_option (\<lambda>b. out\<lparr>ss_ScheduleEnabled := b\<rparr>) (settingBool v)
      else if key = settingDefaultDestination then map_option (\<lambda>s. out\<lparr>ss_DefaultDestination := s\<rparr>) (settingString v)
      else if key = settingMinFreeSpace then map_option (\<lambda>m. out\<lparr>ss_MinFreeSpace := m\<rparr>) (settingIntMap v)
      else if key = settingMaxActiveTotal then map_option (\<lambda>n. out\<lparr>ss_MaxActiveTotal := n\<rparr>) (settingInt v)
      else if key = settingMaxActivePerEngine then map_option (\<lambda>n. out\<lparr>ss_MaxActivePerEngine := n\<rparr>) (settingInt v)
      else if key = settingProcessOrder then map_option (\<lambda>s. out\<lparr>ss_ProcessOrder := s\<rparr>) (settingString v)
      else if key = settingRSSEnabled then map_option (\<lambda>b. out\<lparr>ss_RSSEnabled := b\<rparr>) (settingBool v)
      else if key = settingRSSIntervalS then map_option (\<lambda>n. out\<lparr>ss_RSSIntervalS := n\<rparr>) (settingInt v)
      else if key = settingAutoExtract then map_option (\<lambda>b. out\<lparr>ss_AutoExtract := b\<rparr>) (settingBool v)
      else if key = settingExtractPasswords then map_option (\<lambda>l. out\<lparr>ss_ExtractPasswords := l\<rparr>) (settingStringSlice v)
      else if key = settingConfirmOnDelete then map_option (\<lambda>b. out\<lparr>ss_ConfirmOnDelete := b\<rparr>) (settingBool v)
      else None)"

fun read_settings :: "setting_row list \<Rightarrow> settings \<Rightarrow> settings_error + settings" where
  "read_settings [] out = Inr out"
| "read_settings (r # rows) out = (case read_setting (sr_key r) (sr_value r) out of
      None \<Rightarrow> Inl (SetDecode (sr_key r))
    | Some out' \<Rightarrow> read_settings rows out')"

definition queryAllSettings :: "setting_row list \<Rightarrow> setting_row list" where
  "queryAllSettings rows = filter (\<lambda>r. sr_key r \<in> set settingsKeys) rows"

definition GetSettings :: "('e, 'z, settings_error + settings) site_action" where
  "GetSettings = settings_query (\<lambda>s. read_settings (queryAllSettings (st_settings s)) default_settings)"

subsection \<open>Writing settings\<close>

record raw_message =
  rm_bytes :: string
  rm_value :: json_text

definition redacted :: string where "redacted = ''__redacted__''"

definition canonical_path :: "string \<Rightarrow> bool" where
  "canonical_path p \<longleftrightarrow> IsAbs p \<and> Clean p = p"

text \<open>The stored form of a member; \<open>None\<close> is the skip of the rendered password list.\<close>

definition canonicalSetting :: "string \<Rightarrow> raw_message \<Rightarrow> settings_error + json_text option" where
  "canonicalSetting key raw =
     (let v = rm_value raw; outOfRange = Inl (ErrSettingOutOfRange key) in
      if key \<in> {settingDownloadRateLimit, settingUploadRateLimit, settingAltDownloadRate, settingAltUploadRate}
      then (case settingInt v of None \<Rightarrow> outOfRange
        | Some n \<Rightarrow> if n < 0 then outOfRange else Inr (Some (Json (JInt n))))
      else if key \<in> {settingMaxActiveTotal, settingMaxActivePerEngine}
      then (case settingInt v of None \<Rightarrow> outOfRange
        | Some n \<Rightarrow> if n < 0 \<or> n > 2147483647 then outOfRange else Inr (Some (Json (JInt n))))
      else if key = settingRSSIntervalS
      then (case settingInt v of None \<Rightarrow> outOfRange
        | Some n \<Rightarrow> if n < rssIntervalSFloor then outOfRange else Inr (Some (Json (JInt n))))
      else if key \<in> {settingScheduleEnabled, settingRSSEnabled, settingAutoExtract, settingConfirmOnDelete}
      then (case settingBool v of None \<Rightarrow> outOfRange | Some b \<Rightarrow> Inr (Some (Json (JBool b))))
      else if key = settingProcessOrder
      then (case settingString v of None \<Rightarrow> outOfRange
        | Some s \<Rightarrow> if s \<noteq> processOrderByDateCreated then outOfRange
            else Inr (Some (Json (JStr processOrderByDateCreated))))
      else if key = settingDefaultDestination
      then (case settingString v of None \<Rightarrow> outOfRange
        | Some s \<Rightarrow> if s = '''' \<or> s = redacted \<or> \<not> canonical_path s then outOfRange else Inr (Some (Json (JStr s))))
      else if key = settingMinFreeSpace
      then (case settingIntMap v of None \<Rightarrow> outOfRange
        | Some m \<Rightarrow>
            if list_ex (\<lambda>(root, floor). \<not> canonical_path root \<or> floor < 0) m then outOfRange
            else Inr (Some (Json (JObj (map (\<lambda>(k, n). (k, JInt n)) m)))))
      else if key = settingExtractPasswords
      then (if rm_bytes raw = ''\"'' @ redacted @ ''\"'' then Inr None
        else (case settingStringSlice v of None \<Rightarrow> outOfRange
          | Some l \<Rightarrow> Inr (Some (Json (JArr (map JStr l))))))
      else Inl (ErrUnknownSettingKey key))"

fun collect_writes ::
  "(string \<times> raw_message) list \<Rightarrow> settings_error + (string \<times> json_text) list" where
  "collect_writes [] = Inr []"
| "collect_writes ((key, raw) # patch) = (case canonicalSetting key raw of
      Inl err \<Rightarrow> Inl err
    | Inr encoded \<Rightarrow> (case collect_writes patch of
          Inl err \<Rightarrow> Inl err
        | Inr writes \<Rightarrow> Inr (case encoded of None \<Rightarrow> writes | Some v \<Rightarrow> (key, v) # writes)))"

definition upsert_all :: "(string \<times> json_text) list \<Rightarrow> ('e, 'z) site_scheme \<Rightarrow> ('e, 'z) site_scheme" where
  "upsert_all writes s = fold (\<lambda>(key, v). upsert_setting key v) writes s"

definition PutSettings :: "(string \<times> raw_message) list \<Rightarrow> ('e, 'z, settings_error + settings) site_action" where
  "PutSettings patch = (case collect_writes patch of
      Inl err \<Rightarrow> ret (Inl err)
    | Inr writes \<Rightarrow> do {
        r \<leftarrow> (if writes \<noteq> [] then settings_tx (\<lambda>s. Inr (Some (upsert_all writes s))) else ret (Inr ()));
        case r of Inl err \<Rightarrow> ret (Inl err) | Inr _ \<Rightarrow> GetSettings
      })"

subsection \<open>The bandwidth grid\<close>

definition ScheduleNoDownload :: string where "ScheduleNoDownload = ''no_download''"
definition ScheduleDefault :: string where "ScheduleDefault = ''default''"
definition ScheduleAlternative :: string where "ScheduleAlternative = ''alternative''"

definition known_mode :: "string \<Rightarrow> bool" where
  "known_mode m \<longleftrightarrow> m \<in> {ScheduleNoDownload, ScheduleDefault, ScheduleAlternative}"

definition querySchedule :: "grid_row list \<Rightarrow> grid_row list" where
  "querySchedule rows = sort_key (\<lambda>r. (gr_day r, gr_hour r)) rows"

text \<open>A cell not met yet is the empty string.\<close>

fun fill_cells :: "grid_row list \<Rightarrow> string list \<Rightarrow> settings_error + string list" where
  "fill_cells [] cells = Inr cells"
| "fill_cells (r # rows) cells =
     (if gr_day r < 0 \<or> gr_day r > 6 \<or> gr_hour r < 0 \<or> gr_hour r > 23 then Inl (SetGrid ''row out of range'')
      else if \<not> known_mode (gr_mode r) then Inl (SetGrid ''unknown mode'')
      else let idx = nat (gr_day r * 24 + gr_hour r) in
        if cells ! idx \<noteq> '''' then Inl (SetGrid ''duplicate cell'')
        else fill_cells rows (cells[idx := gr_mode r]))"

definition scheduleCells :: "grid_row list \<Rightarrow> settings_error + string list" where
  "scheduleCells grid = (let rows = querySchedule grid in
     if length rows \<noteq> 168 then Inl (SetGrid ''row count'') else fill_cells rows (replicate 168 ''''))"

definition scheduleEnabled :: "setting_row list \<Rightarrow> settings_error + bool" where
  "scheduleEnabled rows = (case querySettingValue settingScheduleEnabled rows of
      None \<Rightarrow> Inr False
    | Some v \<Rightarrow> (case settingBool v of None \<Rightarrow> Inl (SetDecode settingScheduleEnabled) | Some b \<Rightarrow> Inr b))"

definition ScheduleSnapshot :: "('e, 'z, settings_error + string list \<times> bool) site_action" where
  "ScheduleSnapshot = settings_query (\<lambda>s. case scheduleCells (st_grid s) of
      Inl err \<Rightarrow> Inl err
    | Inr cells \<Rightarrow> (case scheduleEnabled (st_settings s) of
        Inl err \<Rightarrow> Inl err
      | Inr enabled \<Rightarrow> Inr (cells, enabled)))"

definition queryReplaceScheduleCell :: "string \<Rightarrow> int \<Rightarrow> int \<Rightarrow> int \<Rightarrow> grid_row list \<Rightarrow> grid_row list \<times> nat" where
  "queryReplaceScheduleCell mode now day hour = sql_update
     (\<lambda>r. gr_day r = day \<and> gr_hour r = hour) (\<lambda>r. r\<lparr>gr_mode := mode, gr_updated_at := now\<rparr>)"

text \<open>The update loop; \<open>i\<close> is the index of the head of the list.\<close>

fun replace_cells :: "int \<Rightarrow> nat \<Rightarrow> string list \<Rightarrow> grid_row list \<Rightarrow> grid_row list option" where
  "replace_cells now i [] grid = Some grid"
| "replace_cells now i (mode # cells) grid =
     (case queryReplaceScheduleCell mode now (int i div 24) (int i mod 24) grid of
        (grid', affected) \<Rightarrow> if affected \<noteq> 1 then None else replace_cells now (Suc i) cells grid')"

definition ReplaceSchedule :: "bool \<Rightarrow> string list \<Rightarrow> ('e, 'z, settings_error + unit) site_action" where
  "ReplaceSchedule enabled cells =
     (if list_ex (\<lambda>m. \<not> known_mode m) cells then ret (Inl (SetGrid ''unknown mode''))
      else settings_tx (\<lambda>s.
        let s' = upsert_setting settingScheduleEnabled (Json (JBool enabled)) s in
        case replace_cells (s_now s) 0 cells (st_grid s') of
          None \<Rightarrow> Inl (SetGrid ''updated rows'')
        | Some grid \<Rightarrow> Inr (Some (s'\<lparr>st_grid := grid\<rparr>))))"

subsection \<open>Runs of the transactions\<close>

lemma site_after_tick [simp]:
  "st_settings (after_tick dt rest w) = st_settings w" "st_grid (after_tick dt rest w) = st_grid w"
  "w_calls (after_tick dt rest w) = w_calls w"
  by (simp_all add: after_tick_def)

lemma settings_query_cases:
  obtains dt rest where
    "run_state (settings_query q) w = (Inl (SetStore SErrDB), after_tick dt rest w) \<or>
     run_state (settings_query q) w = (q (after_tick dt rest w), after_tick dt rest w)"
proof -
  obtain f dt rest where "run_state tick w = (f, after_tick dt rest w)"
    by (rule tick_cases)
  then show thesis
    by (intro that [of dt rest]) (auto simp: settings_query_def query_def)
qed

lemma settings_tx_cases:
  obtains (unchanged) dt rest r where "run_state (settings_tx body) w = (r, after_tick dt rest w)"
      "r = Inl (SetStore SErrDB) \<or> r = Inr () \<and> body (after_tick dt rest w) = Inr None \<or>
       (\<exists>err. r = Inl err \<and> body (after_tick dt rest w) = Inl err)"
  | (written) dt rest s' r where "body (after_tick dt rest w) = Inr (Some s')"
      "run_state (settings_tx body) w = (r, s')" "r = Inr () \<or> r = Inl (SetStore SErrDB)"
proof -
  obtain f dt rest where t: "run_state tick w = (f, after_tick dt rest w)"
    by (rule tick_cases)
  let ?s0 = "after_tick dt rest w"
  consider "f = FaultBefore \<or> (\<exists>err. body ?s0 = Inl err) \<or> body ?s0 = Inr None"
    | s' where "f \<noteq> FaultBefore" "body ?s0 = Inr (Some s')"
    by (metis old.sum.exhaust option.exhaust)
  then show thesis
  proof cases
    case 1
    then have "\<exists>r. run_state (settings_tx body) w = (r, ?s0) \<and> (r = Inl (SetStore SErrDB) \<or>
        r = Inr () \<and> body ?s0 = Inr None \<or> (\<exists>err. r = Inl err \<and> body ?s0 = Inl err))"
      by (auto simp: settings_tx_def run_tx_tick [OF t])
    then show thesis using unchanged by blast
  next
    case 2
    then have "(\<exists>r. run_state (settings_tx body) w = (r, s') \<and> (r = Inr () \<or> r = Inl (SetStore SErrDB))) \<or>
        run_state (settings_tx body) w = (Inl (SetStore SErrDB), ?s0)"
      by (simp add: settings_tx_def run_tx_tick [OF t])
    then show thesis using 2(2) unchanged written by blast
  qed
qed

lemma upsert_setting_fields [simp]:
  "st_settings (upsert_setting key v s) = queryUpsertSetting (PrefixSetting @ s_ulid s (s_nid s)) key v (s_now s) (st_settings s)"
  "st_grid (upsert_setting key v s) = st_grid s" "s_now (upsert_setting key v s) = s_now s"
  "s_tasks (upsert_setting key v s) = s_tasks s" "s_events (upsert_setting key v s) = s_events s"
  "w_calls (upsert_setting key v s) = w_calls s"
  by (simp_all add: upsert_setting_def NewID_def)

lemma querySettingValue_map_of: "querySettingValue k rows = map_of (map (\<lambda>r. (sr_key r, sr_value r)) rows) k"
  by (induction rows) (auto simp: querySettingValue_def sql_find_def)

lemma querySettingValue_upsert:
  "querySettingValue k (queryUpsertSetting rid key v now rows) =
     (if k = key then Some v else querySettingValue k rows)"
proof -
  have "map_of (map (\<lambda>r. (sr_key r, sr_value r))
      (map (\<lambda>r. if sr_key r = key then r\<lparr>sr_value := v, sr_updated_at := now\<rparr> else r) rows)) k =
    (if k = key then (if key \<in> sr_key ` set rows then Some v else None)
     else map_of (map (\<lambda>r. (sr_key r, sr_value r)) rows) k)"
    by (induction rows) auto
  moreover have "map_of (map (\<lambda>r. (sr_key r, sr_value r)) rows) key = None" if "key \<notin> sr_key ` set rows"
    using that by (force simp: map_of_eq_None_iff)
  ultimately show ?thesis
    by (auto simp: querySettingValue_map_of queryUpsertSetting_def map_add_def split: option.splits)
qed

lemma keys_upsert: "map sr_key (queryUpsertSetting rid key v now rows) =
    (if key \<in> set (map sr_key rows) then map sr_key rows else map sr_key rows @ [key])"
  by (induction rows) (auto simp: queryUpsertSetting_def)

lemma set_upsert:
  assumes "r \<in> set (queryUpsertSetting rid key v now rows)"
  shows "sr_key r = key \<and> sr_value r = v \<or> sr_key r \<noteq> key \<and> r \<in> set rows"
  using assms by (auto simp: queryUpsertSetting_def split: if_splits)

subsection \<open>The documented types\<close>

text \<open>
  \<open>docs/11-config-reference.md\<close>, section 5: the type and the range of each key. A stored value in its
  domain is what a reader of the table may rely on. The two limits of active tasks have an upper bound \<open>cap\<close>,
  which is not the same for every writer. The extraction passwords are a plain array, as the code stores them.
\<close>

definition setting_domain :: "int \<Rightarrow> string \<Rightarrow> json_text \<Rightarrow> bool" where
  "setting_domain cap key v =
     (if key \<in> {settingDownloadRateLimit, settingUploadRateLimit, settingAltDownloadRate, settingAltUploadRate}
      then (case v of Json (JInt n) \<Rightarrow> 0 \<le> n \<and> int64 n | _ \<Rightarrow> False)
      else if key \<in> {settingMaxActiveTotal, settingMaxActivePerEngine}
      then (case v of Json (JInt n) \<Rightarrow> 0 \<le> n \<and> n \<le> cap \<and> int64 n | _ \<Rightarrow> False)
      else if key = settingRSSIntervalS
      then (case v of Json (JInt n) \<Rightarrow> 300 \<le> n \<and> int64 n | _ \<Rightarrow> False)
      else if key \<in> {settingScheduleEnabled, settingRSSEnabled, settingAutoExtract, settingConfirmOnDelete}
      then (case v of Json (JBool _) \<Rightarrow> True | _ \<Rightarrow> False)
      else if key = settingProcessOrder then v = Json (JStr ''by_date_created'')
      else if key = settingDefaultDestination
      then (case v of Json (JStr s) \<Rightarrow> s \<noteq> '''' \<and> s \<noteq> redacted \<and> canonical_path s | _ \<Rightarrow> False)
      else if key = settingMinFreeSpace
      then (case v of
          Json (JObj kvs) \<Rightarrow> sorted (map fst kvs) \<and> distinct (map fst kvs) \<and>
            list_all (\<lambda>(k, x). canonical_path k \<and> (case x of JInt n \<Rightarrow> 0 \<le> n \<and> int64 n | _ \<Rightarrow> False)) kvs
        | _ \<Rightarrow> False)
      else if key = settingExtractPasswords
      then (case v of Json (JArr vs) \<Rightarrow> list_all (\<lambda>x. case x of JStr _ \<Rightarrow> True | _ \<Rightarrow> False) vs | _ \<Rightarrow> False)
      else True)"

definition settings_typed :: "int \<Rightarrow> ('e, 'z) site_scheme \<Rightarrow> bool" where
  "settings_typed cap s \<longleftrightarrow> distinct (map sr_key (st_settings s)) \<and>
     (\<forall>r \<in> set (st_settings s). setting_domain cap (sr_key r) (sr_value r))"

text \<open>The same ranges on the typed view.\<close>

definition in_documented_range :: "int \<Rightarrow> settings \<Rightarrow> bool" where
  "in_documented_range cap st \<longleftrightarrow>
     0 \<le> ss_DownloadRateLimit st \<and> 0 \<le> ss_UploadRateLimit st \<and>
     0 \<le> ss_AltDownloadRate st \<and> 0 \<le> ss_AltUploadRate st \<and>
     0 \<le> ss_MaxActiveTotal st \<and> ss_MaxActiveTotal st \<le> cap \<and>
     0 \<le> ss_MaxActivePerEngine st \<and> ss_MaxActivePerEngine st \<le> cap \<and>
     300 \<le> ss_RSSIntervalS st \<and> ss_ProcessOrder st = ''by_date_created'' \<and>
     (ss_DefaultDestination st = '''' \<or> canonical_path (ss_DefaultDestination st)) \<and>
     (\<forall>(root, floor) \<in> set (ss_MinFreeSpace st). canonical_path root \<and> 0 \<le> floor)"

lemma all_some_eq_Some: "all_some xs = Some ys \<longleftrightarrow> xs = map Some ys"
proof (induction xs arbitrary: ys)
  case (Cons x xs)
  then show ?case
    by (cases ys) (auto split: option.splits)
qed auto

lemma clearjunk_subset: "set (AList.clearjunk es) \<subseteq> set es"
  by (induction es rule: AList.clearjunk.induct) (auto simp: AList.delete_eq)

lemma sorted_map_facts:
  "sorted (map fst (sorted_map es))" "distinct (map fst (sorted_map es))" "set (sorted_map es) \<subseteq> set es"
proof -
  have "distinct (map fst (sort_key fst xs)) = distinct (map fst xs)" for xs :: "(string \<times> 'a) list"
    by (metis distinct_map distinct_sort set_sort)
  then show "distinct (map fst (sorted_map es))" by (simp add: sorted_map_def)
qed (use clearjunk_subset [of "rev es"] in \<open>auto simp: sorted_map_def\<close>)

lemma sorted_map_id:
  assumes "sorted (map fst es)" and "distinct (map fst es)"
  shows "sorted_map es = es"
proof -
  have "sorted_map es = sort_key fst (rev es)"
    using assms(2) by (simp add: sorted_map_def rev_map [symmetric])
  also have "\<dots> = es"
    using assms by (intro sort_key_inj_key_eq) (auto simp: distinct_map)
  finally show ?thesis .
qed

lemma settingInt_range: "settingInt v = Some n \<Longrightarrow> int64 n"
  by (auto simp: settingInt_def split: json_text.splits elim!: json_int.elims split: if_splits)

lemma settingInt_int64 [simp]: "settingInt (Json (JInt n)) = (if int64 n then Some n else None)"
  by (simp add: settingInt_def)

lemma settingBool_simp [simp]: "settingBool (Json (JBool b)) = Some b"
  by (simp add: settingBool_def)

lemma settingString_simp [simp]: "settingString (Json (JStr s)) = Some s"
  by (simp add: settingString_def)

lemma settingStringSlice_simp [simp]: "settingStringSlice (Json (JArr (map JStr l))) = Some l"
  by (simp add: settingStringSlice_def all_some_eq_Some)

lemma json_int_or_zero_range: "json_int_or_zero x = Some n \<Longrightarrow> int64 n"
  by (auto simp: json_int_or_zero_def int64_def split: if_splits elim!: json_int.elims)

lemma settingIntMap_facts:
  assumes "settingIntMap v = Some m"
  shows "sorted (map fst m)" "distinct (map fst m)" "\<forall>(k, n) \<in> set m. int64 n"
proof -
  from assms obtain kvs es where v: "v = Json (JObj kvs)" and m: "m = sorted_map es"
    and es: "map (\<lambda>(k, x). map_option (Pair k) (json_int_or_zero x)) kvs = map Some es"
    by (auto simp: settingIntMap_def all_some_eq_Some split: json_text.splits json.splits)
  show "sorted (map fst m)" "distinct (map fst m)"
    unfolding m by (rule sorted_map_facts)+
  have "int64 (snd e)" if "e \<in> set es" for e
  proof -
    from that have "Some e \<in> (\<lambda>(k, x). map_option (Pair k) (json_int_or_zero x)) ` set kvs"
      using es by (metis image_eqI set_map)
    then show ?thesis by (auto dest!: sym [of "Some e"] json_int_or_zero_range)
  qed
  then show "\<forall>(k, n) \<in> set m. int64 n"
    using sorted_map_facts(3) [of es] unfolding m by fastforce
qed

lemma settingIntMap_simp:
  assumes "sorted (map fst m)" and "distinct (map fst m)" and "\<forall>(k, n) \<in> set m. int64 n"
  shows "settingIntMap (Json (JObj (map (\<lambda>(k, n). (k, JInt n)) m))) = Some m"
proof -
  have "map (\<lambda>(k, x). map_option (Pair k) (json_int_or_zero x)) (map (\<lambda>(k, n). (k, JInt n)) m) = map Some m"
    using assms(3) by (auto simp: json_int_or_zero_def)
  then have "all_some (map (\<lambda>(k, x). map_option (Pair k) (json_int_or_zero x)) (map (\<lambda>(k, n). (k, JInt n)) m)) = Some m"
    by (simp only: all_some_eq_Some)
  then show ?thesis
    using sorted_map_id [OF assms(1,2)] by (simp only: settingIntMap_def json_text.case json.case option.map)
qed

lemma floor_keys [simp]: "fst \<circ> (\<lambda>(k, n). (k, JInt n)) = fst"
  by auto

abbreviation (input) rate_keys where
  "rate_keys \<equiv> {settingDownloadRateLimit, settingUploadRateLimit, settingAltDownloadRate, settingAltUploadRate}"

abbreviation (input) limit_keys where "limit_keys \<equiv> {settingMaxActiveTotal, settingMaxActivePerEngine}"

abbreviation (input) bool_keys where
  "bool_keys \<equiv> {settingScheduleEnabled, settingRSSEnabled, settingAutoExtract, settingConfirmOnDelete}"

lemma first_of:
  obtains A | "\<not> A" B | "\<not> A" "\<not> B" C | "\<not> A" "\<not> B" "\<not> C" D | "\<not> A" "\<not> B" "\<not> C" "\<not> D" E
  | "\<not> A" "\<not> B" "\<not> C" "\<not> D" "\<not> E" F | "\<not> A" "\<not> B" "\<not> C" "\<not> D" "\<not> E" "\<not> F" G
  | "\<not> A" "\<not> B" "\<not> C" "\<not> D" "\<not> E" "\<not> F" "\<not> G" H
  | "\<not> A" "\<not> B" "\<not> C" "\<not> D" "\<not> E" "\<not> F" "\<not> G" "\<not> H"
  by blast

lemma canonicalSetting_domain:
  assumes "canonicalSetting key raw = Inr (Some v)" and cap: "2147483647 \<le> cap"
  shows "setting_domain cap key v"
proof (cases rule: first_of [where A = "key \<in> rate_keys" and B = "key \<in> limit_keys"
      and C = "key = settingRSSIntervalS" and D = "key \<in> bool_keys" and E = "key = settingProcessOrder"
      and F = "key = settingDefaultDestination" and G = "key = settingMinFreeSpace" and H = "key = settingExtractPasswords"])
  case rate: 1
  show ?thesis using assms
    unfolding canonicalSetting_def setting_domain_def Let_def if_P [OF rate]
    by (auto dest: settingInt_range split: if_splits option.splits)
next
  case limit: 2
  show ?thesis using assms
    unfolding canonicalSetting_def setting_domain_def Let_def if_not_P [OF limit(1)] if_P [OF limit(2)]
    using cap by (auto dest: settingInt_range split: if_splits option.splits)
next
  case interval: 3
  show ?thesis using assms
    unfolding canonicalSetting_def setting_domain_def Let_def if_not_P [OF interval(1)] if_not_P [OF interval(2)]
      if_P [OF interval(3)]
    by (auto simp: rssIntervalSFloor_def dest: settingInt_range split: if_splits option.splits)
next
  case flag: 4
  show ?thesis using assms
    unfolding canonicalSetting_def setting_domain_def Let_def if_not_P [OF flag(1)] if_not_P [OF flag(2)]
      if_not_P [OF flag(3)] if_P [OF flag(4)]
    by (auto split: if_splits option.splits)
next
  case order: 5
  show ?thesis using assms
    unfolding canonicalSetting_def setting_domain_def Let_def if_not_P [OF order(1)] if_not_P [OF order(2)]
      if_not_P [OF order(3)] if_not_P [OF order(4)] if_P [OF order(5)]
    by (auto simp: processOrderByDateCreated_def split: if_splits option.splits)
next
  case path: 6
  show ?thesis using assms
    unfolding canonicalSetting_def setting_domain_def Let_def if_not_P [OF path(1)] if_not_P [OF path(2)]
      if_not_P [OF path(3)] if_not_P [OF path(4)] if_not_P [OF path(5)] if_P [OF path(6)]
    by (auto split: if_splits option.splits)
next
  case floors: 7
  note ifs = if_not_P [OF floors(1)] if_not_P [OF floors(2)] if_not_P [OF floors(3)] if_not_P [OF floors(4)]
    if_not_P [OF floors(5)] if_not_P [OF floors(6)] if_P [OF floors(7)]
  obtain m where m: "settingIntMap (rm_value raw) = Some m"
    and v: "v = Json (JObj (map (\<lambda>(k, n). (k, JInt n)) m))"
    and ok: "\<not> list_ex (\<lambda>(root, floor). \<not> canonical_path root \<or> floor < 0) m"
    using assms unfolding canonicalSetting_def Let_def ifs by (auto split: if_splits option.splits)
  have "list_all (\<lambda>(k, x). canonical_path k \<and> (case x of JInt n \<Rightarrow> 0 \<le> n \<and> int64 n | _ \<Rightarrow> False))
      (map (\<lambda>(k, n). (k, JInt n)) m)"
    using ok settingIntMap_facts(3) [OF m] by (fastforce simp: list_all_iff list_ex_iff)
  then show ?thesis
    using settingIntMap_facts(1,2) [OF m] unfolding setting_domain_def v ifs by simp
next
  case passwords: 8
  note ifs = if_not_P [OF passwords(1)] if_not_P [OF passwords(2)] if_not_P [OF passwords(3)]
    if_not_P [OF passwords(4)] if_not_P [OF passwords(5)] if_not_P [OF passwords(6)]
    if_not_P [OF passwords(7)] if_P [OF passwords(8)]
  show ?thesis using assms
    unfolding canonicalSetting_def setting_domain_def Let_def ifs
    by (auto simp: list_all_iff split: if_splits option.splits)
next
  case other: 9
  then show ?thesis
    unfolding setting_domain_def by simp
qed

lemma json_strings:
  "list_all (\<lambda>x. case x of JStr _ \<Rightarrow> True | _ \<Rightarrow> False) vs \<Longrightarrow> \<exists>l. vs = map JStr l"
proof (induction vs)
  case (Cons v vs)
  then obtain l s where "vs = map JStr l" "v = JStr s"
    by (auto split: json.splits)
  then have "v # vs = map JStr (s # l)" by simp
  then show ?case by (intro exI conjI)
qed simp

lemma json_floors:
  "list_all (\<lambda>(k, x). canonical_path k \<and> (case x of JInt n \<Rightarrow> 0 \<le> n \<and> int64 n | _ \<Rightarrow> False)) kvs \<Longrightarrow>
   \<exists>m. kvs = map (\<lambda>(k, n). (k, JInt n)) m \<and> (\<forall>(k, n) \<in> set m. canonical_path k \<and> 0 \<le> n \<and> int64 n)"
proof (induction kvs)
  case (Cons kv kvs)
  then obtain m where m: "kvs = map (\<lambda>(k, n). (k, JInt n)) m" "\<forall>(k, n) \<in> set m. canonical_path k \<and> 0 \<le> n \<and> int64 n"
    by auto
  from Cons.prems obtain k n where "kv = (k, JInt n)" "canonical_path k" "0 \<le> n" "int64 n"
    by (cases kv) (auto split: json.splits)
  with m have "kv # kvs = map (\<lambda>(k, n). (k, JInt n)) ((k, n) # m)"
    "\<forall>(k, n) \<in> set ((k, n) # m). canonical_path k \<and> 0 \<le> n \<and> int64 n" by auto
  then show ?case by (intro exI conjI)
qed simp

lemma read_setting_typed:
  assumes "setting_domain cap key v" and "key \<in> set settingsKeys" and "in_documented_range cap out"
  shows "\<exists>out'. read_setting key v out = Some out' \<and> in_documented_range cap out'"
proof -
  consider "key = settingMinFreeSpace" | "key = settingExtractPasswords"
    | "key \<noteq> settingMinFreeSpace" "key \<noteq> settingExtractPasswords" by blast
  then show ?thesis
  proof cases
    case 1
    with assms(1) obtain kvs where v: "v = Json (JObj kvs)" "sorted (map fst kvs)" "distinct (map fst kvs)"
      and all: "list_all (\<lambda>(k, x). canonical_path k \<and> (case x of JInt n \<Rightarrow> 0 \<le> n \<and> int64 n | _ \<Rightarrow> False)) kvs"
      by (auto simp: setting_domain_def setting_key_defs split: json_text.splits json.splits)
    obtain m where kvs: "kvs = map (\<lambda>(k, n). (k, JInt n)) m"
      and m: "\<forall>(k, n) \<in> set m. canonical_path k \<and> 0 \<le> n \<and> int64 n"
      using json_floors [OF all] by blast
    have keys: "map fst kvs = map fst m" by (simp add: kvs case_prod_beta)
    have "settingIntMap v = Some m"
      using m unfolding v(1) kvs by (intro settingIntMap_simp v(2,3) [unfolded keys]) auto
    then show ?thesis
      using 1 assms(3) m by (auto simp: read_setting_def setting_key_defs in_documented_range_def)
  next
    case 2
    with assms(1) obtain vs where v: "v = Json (JArr vs)" "list_all (\<lambda>x. case x of JStr _ \<Rightarrow> True | _ \<Rightarrow> False) vs"
      by (auto simp: setting_domain_def setting_key_defs split: json_text.splits json.splits)
    then show ?thesis
      using 2 assms(3) json_strings [OF v(2)]
      by (auto simp: read_setting_def setting_key_defs in_documented_range_def)
  next
    case 3
    from assms(2) have "key = settingDownloadRateLimit \<or> key = settingUploadRateLimit \<or> key = settingAltDownloadRate \<or>
        key = settingAltUploadRate \<or> key = settingScheduleEnabled \<or> key = settingDefaultDestination \<or>
        key = settingMaxActiveTotal \<or> key = settingMaxActivePerEngine \<or> key = settingProcessOrder \<or>
        key = settingRSSEnabled \<or> key = settingRSSIntervalS \<or> key = settingAutoExtract \<or> key = settingConfirmOnDelete"
      using 3 by (auto simp: settingsKeys_def)
    with assms(1,3) show ?thesis
      by (elim disjE; hypsubst) (simp_all add: setting_domain_def read_setting_def setting_key_defs
          in_documented_range_def int64_def split: json_text.splits json.splits)
  qed
qed

subsection \<open>Every write keeps the types, every read of a typed table succeeds\<close>

lemma settings_typed_after_tick [simp]: "settings_typed cap (after_tick dt rest w) = settings_typed cap w"
  by (simp add: settings_typed_def)

lemma settings_typed_upsert:
  assumes "settings_typed cap s" and "setting_domain cap key v"
  shows "settings_typed cap (upsert_setting key v s)"
  using assms unfolding settings_typed_def
  by (auto simp: keys_upsert dest!: set_upsert)

lemma settings_typed_upsert_all:
  "settings_typed cap s \<Longrightarrow> list_all (\<lambda>(key, v). setting_domain cap key v) writes \<Longrightarrow> settings_typed cap (upsert_all writes s)"
  unfolding upsert_all_def by (induction writes arbitrary: s) (auto intro: settings_typed_upsert)

lemma settings_typed_tx:
  assumes "\<And>s s'. settings_typed cap s \<Longrightarrow> body s = Inr (Some s') \<Longrightarrow> settings_typed cap s'" and "settings_typed cap w"
  shows "settings_typed cap (snd (run_state (settings_tx body) w))"
  by (rule settings_tx_cases [of body w]) (use assms in \<open>auto intro: assms(1) [rotated]\<close>)

lemma settings_query_keeps [simp]:
  "st_settings (snd (run_state (settings_query q) w)) = st_settings w"
  "st_grid (snd (run_state (settings_query q) w)) = st_grid w"
  "settings_typed cap (snd (run_state (settings_query q) w)) = settings_typed cap w"
  by (rule settings_query_cases [of q w], auto)+

lemma collect_writes_domain:
  "2147483647 \<le> cap \<Longrightarrow> collect_writes patch = Inr writes \<Longrightarrow> list_all (\<lambda>(key, v). setting_domain cap key v) writes"
proof (induction patch arbitrary: writes)
  case (Cons m patch)
  obtain key raw where m: "m = (key, raw)" by (cases m)
  with Cons.prems obtain encoded rest where "canonicalSetting key raw = Inr encoded" "collect_writes patch = Inr rest"
    "writes = (case encoded of None \<Rightarrow> rest | Some v \<Rightarrow> (key, v) # rest)"
    by (auto split: sum.splits)
  then show ?case
    using Cons.IH Cons.prems(1) canonicalSetting_domain [of key raw] by (cases encoded) auto
qed simp

lemma run_bind: "run_state (State_Monad.bind m f) s = (case run_state m s of (x, s') \<Rightarrow> run_state (f x) s')"
  by (cases m) (simp split: prod.splits)

lemma PutSettings_typed:
  assumes "settings_typed cap w" and "2147483647 \<le> cap"
  shows "settings_typed cap (snd (run_state (PutSettings patch) w))"
proof (cases "collect_writes patch")
  case (Inr writes)
  then have dom: "list_all (\<lambda>(key, v). setting_domain cap key v) writes"
    by (rule collect_writes_domain [OF assms(2)])
  have "settings_typed cap (snd (run_state (settings_tx (\<lambda>s. Inr (Some (upsert_all writes s)))) w))"
    by (rule settings_typed_tx) (use assms dom in \<open>auto intro: settings_typed_upsert_all\<close>)
  then show ?thesis
    using assms by (auto simp: PutSettings_def Inr GetSettings_def split: sum.splits prod.splits)
qed (simp add: PutSettings_def assms)

lemma setting_domain_flag: "setting_domain cap settingScheduleEnabled (Json (JBool b))"
  by (simp add: setting_domain_def setting_key_defs)

lemma setting_domain_passwords: "setting_domain cap settingExtractPasswords (Json (JArr (map JStr l)))"
  by (simp add: setting_domain_def setting_key_defs list_all_iff)

lemma settings_typed_grid [simp]: "settings_typed cap (s\<lparr>st_grid := g\<rparr>) = settings_typed cap s"
  by (simp add: settings_typed_def)

lemma ReplaceSchedule_typed:
  "settings_typed cap w \<Longrightarrow> settings_typed cap (snd (run_state (ReplaceSchedule enabled cells) w))"
  unfolding ReplaceSchedule_def
  by (auto simp: Let_def setting_domain_flag intro!: settings_typed_tx settings_typed_upsert split: option.splits)

lemma AppendExtractPassword_typed:
  "settings_typed cap w \<Longrightarrow> settings_typed cap (snd (run_state (AppendExtractPassword pw) w))"
  unfolding AppendExtractPassword_def
  by (auto simp: Let_def setting_domain_passwords intro!: settings_typed_tx settings_typed_upsert
      split: option.splits if_splits)

lemma read_settings_typed:
  assumes "\<forall>r \<in> set rows. sr_key r \<in> set settingsKeys \<and> setting_domain cap (sr_key r) (sr_value r)"
    and "in_documented_range cap out"
  shows "\<exists>st. read_settings rows out = Inr st \<and> in_documented_range cap st"
  using assms
proof (induction rows arbitrary: out)
  case (Cons r rows)
  then obtain out' where "read_setting (sr_key r) (sr_value r) out = Some out'" "in_documented_range cap out'"
    using read_setting_typed [of cap "sr_key r" "sr_value r" out] by auto
  with Cons show ?case by simp
qed simp

lemma default_in_range: "2147483647 \<le> cap \<Longrightarrow> in_documented_range cap default_settings"
  by (simp add: in_documented_range_def default_settings_def defaultAltDownloadRate_def defaultAltUploadRate_def
      defaultMaxActiveTotal_def defaultMaxActivePerEngine_def processOrderByDateCreated_def defaultRSSIntervalS_def)

lemma GetSettings_typed:
  assumes "settings_typed cap w" and "2147483647 \<le> cap"
  shows "fst (run_state GetSettings w) = Inl (SetStore SErrDB) \<or>
    (\<exists>st. fst (run_state GetSettings w) = Inr st \<and> in_documented_range cap st)"
proof -
  obtain st where "read_settings (queryAllSettings (st_settings w)) default_settings = Inr st" "in_documented_range cap st"
    using read_settings_typed [OF _ default_in_range [OF assms(2)], of "queryAllSettings (st_settings w)"] assms(1)
    by (auto simp: settings_typed_def queryAllSettings_def)
  then show ?thesis
    unfolding GetSettings_def
    by - (rule settings_query_cases [of "\<lambda>s. read_settings (queryAllSettings (st_settings s)) default_settings" w], auto)
qed

subsection \<open>A PATCH is all or nothing, and reads back\<close>

text \<open>What a request asks of a key: its canonical value, or nothing.\<close>

definition patched :: "(string \<times> raw_message) list \<Rightarrow> setting_row list \<Rightarrow> string \<Rightarrow> json_text option" where
  "patched patch rows key = (case map_of patch key of
      None \<Rightarrow> querySettingValue key rows
    | Some raw \<Rightarrow> (case canonicalSetting key raw of Inr (Some v) \<Rightarrow> Some v | _ \<Rightarrow> querySettingValue key rows))"

definition refused :: "(string \<times> raw_message) list \<Rightarrow> bool" where
  "refused patch \<longleftrightarrow> list_ex (\<lambda>(key, raw). isl (canonicalSetting key raw)) patch"

lemma refused_iff: "refused patch \<longleftrightarrow> (\<exists>err. collect_writes patch = Inl err)"
proof (induction patch)
  case (Cons m patch)
  then show ?case
    by (cases m) (auto simp: refused_def split: sum.splits)
qed (simp add: refused_def)

lemma querySettingValue_upsert_all:
  assumes "distinct (map fst writes)"
  shows "querySettingValue key (st_settings (upsert_all writes s)) =
    (case map_of writes key of None \<Rightarrow> querySettingValue key (st_settings s) | Some v \<Rightarrow> Some v)"
  using assms unfolding upsert_all_def
proof (induction writes arbitrary: s)
  case (Cons kv writes)
  then have "map_of writes (fst kv) = None" by (auto simp: map_of_eq_None_iff)
  with Cons show ?case
    by (cases kv) (auto simp: querySettingValue_upsert split: option.splits)
qed simp

lemma upsert_all_fields [simp]:
  "s_tasks (upsert_all writes s) = s_tasks s" "s_events (upsert_all writes s) = s_events s"
  "st_grid (upsert_all writes s) = st_grid s" "w_calls (upsert_all writes s) = w_calls s"
  unfolding upsert_all_def by (induction writes arbitrary: s) auto

lemma collect_writes_spec:
  assumes "collect_writes patch = Inr writes" and "distinct (map fst patch)"
  shows "set (map fst writes) \<subseteq> set (map fst patch)" and "distinct (map fst writes)"
    and "(case map_of writes key of None \<Rightarrow> querySettingValue key rows | Some v \<Rightarrow> Some v) = patched patch rows key"
proof -
  have "set (map fst writes) \<subseteq> set (map fst patch) \<and> distinct (map fst writes) \<and>
    map_of writes key = (case map_of patch key of None \<Rightarrow> None
      | Some raw \<Rightarrow> (case canonicalSetting key raw of Inr (Some v) \<Rightarrow> Some v | _ \<Rightarrow> None))"
    using assms
  proof (induction patch arbitrary: writes)
    case (Cons m patch)
    obtain k raw where m: "m = (k, raw)" by (cases m)
    with Cons.prems obtain encoded rest where enc: "canonicalSetting k raw = Inr encoded"
      and rest: "collect_writes patch = Inr rest"
      and w: "writes = (case encoded of None \<Rightarrow> rest | Some v \<Rightarrow> (k, v) # rest)"
      by (auto split: sum.splits)
    have "map_of rest k = None"
      using Cons.IH [OF rest] Cons.prems(2) m by (auto simp: map_of_eq_None_iff)
    then show ?case
      using Cons.IH [OF rest] Cons.prems(2) m enc w
      by (cases encoded) auto
  qed simp
  then show "set (map fst writes) \<subseteq> set (map fst patch)" "distinct (map fst writes)"
    "(case map_of writes key of None \<Rightarrow> querySettingValue key rows | Some v \<Rightarrow> Some v) = patched patch rows key"
    by (auto simp: patched_def split: option.splits sum.splits)
qed

lemma settings_query_fields [simp]:
  "s_tasks (snd (run_state (settings_query q) w)) = s_tasks w"
  "s_events (snd (run_state (settings_query q) w)) = s_events w"
  "w_calls (snd (run_state (settings_query q) w)) = w_calls w"
  by (rule settings_query_cases [of q w], auto simp: after_tick_def)+

lemma GetSettings_reads:
  assumes "run_state GetSettings w = (Inr st, w')"
  shows "read_settings (queryAllSettings (st_settings w')) default_settings = Inr st \<and> st_settings w' = st_settings w"
  using assms unfolding GetSettings_def
  by - (rule settings_query_cases [of "\<lambda>s. read_settings (queryAllSettings (st_settings s)) default_settings" w], auto)

text \<open>
  C35. A PATCH of the settings is all or nothing. If any member is refused (an unknown key, a value outside
  its type or range), nothing at all changes. Otherwise, whatever the database does, either every member
  was written as its canonical value and no other key changed, or the table is untouched; the skipped
  rendering of the passwords leaves their list alone. An answer with settings means all was written, and the
  answer is what the table now reads as. No task, event or daemon is touched.
\<close>

theorem PutSettings_correct:
  assumes "distinct (map fst patch)" and "run_state (PutSettings patch) w = (r, w')"
  shows "if refused patch then isl r \<and> w' = w
    else ((\<forall>key. querySettingValue key (st_settings w') = patched patch (st_settings w) key) \<or>
        isl r \<and> st_settings w' = st_settings w) \<and>
      (case r of Inl _ \<Rightarrow> True
       | Inr st \<Rightarrow> read_settings (queryAllSettings (st_settings w')) default_settings = Inr st) \<and>
      st_grid w' = st_grid w \<and> s_tasks w' = s_tasks w \<and> s_events w' = s_events w \<and> w_calls w' = w_calls w"
proof (cases "collect_writes patch")
  case (Inl err)
  then show ?thesis
    using assms(2) refused_iff [of patch] by (auto simp: PutSettings_def)
next
  case (Inr writes)
  note spec = collect_writes_spec [OF Inr assms(1)]
  let ?tx = "if writes \<noteq> [] then settings_tx (\<lambda>s. Inr (Some (upsert_all writes s))) else ret (Inr ())"
  obtain r1 w1 where tx: "run_state ?tx w = (r1, w1)" by (meson surj_pair)
  have one: "((\<forall>key. querySettingValue key (st_settings w1) = patched patch (st_settings w) key) \<or>
      isl r1 \<and> st_settings w1 = st_settings w) \<and>
    st_grid w1 = st_grid w \<and> s_tasks w1 = s_tasks w \<and> s_events w1 = s_events w \<and> w_calls w1 = w_calls w"
  proof (cases "writes = []")
    case True
    then show ?thesis
      using tx spec(3) [of _ "st_settings w"] by auto
  next
    case False
    then have run: "run_state (settings_tx (\<lambda>s. Inr (Some (upsert_all writes s)))) w = (r1, w1)"
      using tx by simp
    have "querySettingValue key (st_settings (upsert_all writes (after_tick dt rest w))) = patched patch (st_settings w) key"
      for dt rest key
      using spec(3) [of key "st_settings w"] by (simp add: querySettingValue_upsert_all [OF spec(2)] cong: option.case_cong)
    then show ?thesis
      by - (rule settings_tx_cases [of "\<lambda>s. Inr (Some (upsert_all writes s))" w], use run in auto)
  qed
  have "\<not> refused patch" using refused_iff [of patch] Inr by simp
  moreover have "r1 = Inr () \<and> run_state GetSettings w1 = (r, w') \<or> (\<exists>err. r1 = Inl err \<and> r = Inl err \<and> w' = w1)"
    using assms(2) tx by (cases r1) (auto simp: PutSettings_def Inr)
  moreover have "run_state GetSettings w1 = (r, w') \<Longrightarrow> st_settings w' = st_settings w1 \<and> st_grid w' = st_grid w1 \<and>
      s_tasks w' = s_tasks w1 \<and> s_events w' = s_events w1 \<and> w_calls w' = w_calls w1"
    unfolding GetSettings_def by (metis settings_query_keeps(1,2) settings_query_fields snd_conv)
  ultimately show ?thesis
    using one GetSettings_reads [of w1 _ w'] by (auto split: sum.splits)
qed

subsection \<open>The grid reads back\<close>

definition gr_key :: "grid_row \<Rightarrow> int \<times> int" where "gr_key r = (gr_day r, gr_hour r)"

definition cell_key :: "nat \<Rightarrow> int \<times> int" where "cell_key i = (int i div 24, int i mod 24)"

lemma cell_key_inj: "cell_key i = cell_key j \<longleftrightarrow> i = j"
  by (auto simp: cell_key_def) (metis div_mult_mod_eq of_nat_eq_iff)

lemma replace_cells_spec:
  assumes "replace_cells now i cells grid = Some grid'"
  shows "map gr_key grid' = map gr_key grid" and "\<forall>k < length cells. cell_key (i + k) \<in> set (map gr_key grid)"
    and "\<forall>r \<in> set grid'. \<forall>k < length cells. gr_key r = cell_key (i + k) \<longrightarrow> gr_mode r = cells ! k"
    and "\<forall>r \<in> set grid'. (\<forall>k < length cells. gr_key r \<noteq> cell_key (i + k)) \<longrightarrow> r \<in> set grid"
proof -
  have "map gr_key grid' = map gr_key grid \<and> (\<forall>k < length cells. cell_key (i + k) \<in> set (map gr_key grid)) \<and>
    (\<forall>r \<in> set grid'. \<forall>k < length cells. gr_key r = cell_key (i + k) \<longrightarrow> gr_mode r = cells ! k) \<and>
    (\<forall>r \<in> set grid'. (\<forall>k < length cells. gr_key r \<noteq> cell_key (i + k)) \<longrightarrow> r \<in> set grid)"
    using assms
  proof (induction cells arbitrary: i grid)
    case (Cons mode cells)
    let ?p = "\<lambda>r. gr_key r = cell_key i"
    let ?grid1 = "map (\<lambda>r. if ?p r then r\<lparr>gr_mode := mode, gr_updated_at := now\<rparr> else r) grid"
    have q: "queryReplaceScheduleCell mode now (int i div 24) (int i mod 24) grid = (?grid1, length (filter ?p grid))"
      by (simp add: queryReplaceScheduleCell_def sql_update_def gr_key_def cell_key_def)
    from Cons.prems have one: "length (filter ?p grid) = 1" and rest: "replace_cells now (Suc i) cells ?grid1 = Some grid'"
      by (auto simp: q split: if_splits)
    note IH = Cons.IH [OF rest]
    have keys: "map gr_key ?grid1 = map gr_key grid"
      by (simp add: gr_key_def)
    from one have "filter ?p grid \<noteq> []" by (cases "filter ?p grid") auto
    then have "cell_key i \<in> set (map gr_key grid)" by (force simp: filter_empty_conv)
    moreover have "cell_key (i + k) \<in> set (map gr_key grid)" if "k < length (mode # cells)" "k \<noteq> 0" for k
      using IH keys that by (cases k) auto
    moreover have "gr_mode r = (mode # cells) ! k"
      if "r \<in> set grid'" "k < length (mode # cells)" "gr_key r = cell_key (i + k)" for r k
    proof (cases k)
      case 0
      with that(3) have "\<forall>k < length cells. gr_key r \<noteq> cell_key (Suc i + k)" by (simp add: cell_key_inj)
      with IH that(1) have "r \<in> set ?grid1" by blast
      with 0 that(3) show ?thesis by (auto simp: gr_key_def split: if_splits)
    next
      case (Suc j)
      with IH that show ?thesis by auto
    qed
    moreover have "r \<in> set grid"
      if "r \<in> set grid'" "\<forall>k < length (mode # cells). gr_key r \<noteq> cell_key (i + k)" for r
    proof -
      have "\<forall>k < length cells. gr_key r \<noteq> cell_key (Suc i + k)" "gr_key r \<noteq> cell_key i"
        using that(2) by (auto dest: spec [of _ "Suc _"] spec [of _ 0])
      with IH that(1) have "r \<in> set ?grid1" "gr_key r \<noteq> cell_key i" by blast+
      then show ?thesis by (auto simp: gr_key_def split: if_splits)
    qed
    ultimately show ?case
      using IH keys by (metis (no_types, lifting) add_0_right)
  qed simp
  then show "map gr_key grid' = map gr_key grid" "\<forall>k < length cells. cell_key (i + k) \<in> set (map gr_key grid)"
    "\<forall>r \<in> set grid'. \<forall>k < length cells. gr_key r = cell_key (i + k) \<longrightarrow> gr_mode r = cells ! k"
    "\<forall>r \<in> set grid'. (\<forall>k < length cells. gr_key r \<noteq> cell_key (i + k)) \<longrightarrow> r \<in> set grid"
    by blast+
qed

lemma known_mode_nonempty: "known_mode m \<Longrightarrow> m \<noteq> ''''"
  by (auto simp: known_mode_def ScheduleNoDownload_def ScheduleDefault_def ScheduleAlternative_def)

lemma fill_cells_spec:
  assumes "\<forall>r \<in> set rows. \<exists>j < 168. gr_key r = cell_key j \<and> gr_mode r = cells ! j"
    and "distinct (map gr_key rows)" and "\<forall>j < 168. known_mode (cells ! j)" and "length acc = 168"
    and "\<forall>j < 168. acc ! j = (if cell_key j \<in> seen then cells ! j else '''')"
    and "seen \<inter> set (map gr_key rows) = {}"
  shows "\<exists>acc'. fill_cells rows acc = Inr acc' \<and> length acc' = 168 \<and>
    (\<forall>j < 168. acc' ! j = (if cell_key j \<in> seen \<union> set (map gr_key rows) then cells ! j else ''''))"
  using assms
proof (induction rows arbitrary: acc seen)
  case (Cons r rows)
  then obtain j where j: "j < 168" "gr_key r = cell_key j" "gr_mode r = cells ! j" by auto
  then have d: "gr_day r = int j div 24" and h: "gr_hour r = int j mod 24"
    by (auto simp: gr_key_def cell_key_def)
  have idx: "nat (gr_day r * 24 + gr_hour r) = j"
    unfolding d h by (metis div_mult_mod_eq nat_int)
  have "0 \<le> gr_day r" "gr_day r \<le> 6" "0 \<le> gr_hour r" "gr_hour r \<le> 23"
    using j(1) unfolding d h by auto
  moreover have "known_mode (gr_mode r)" using Cons.prems(3) j by simp
  moreover have "acc ! j = ''''"
    using Cons.prems(5,6) j by auto
  ultimately have step: "fill_cells (r # rows) acc = fill_cells rows (acc[j := cells ! j])"
    using idx j(3) by (simp add: Let_def)
  have "\<forall>k < 168. acc[j := cells ! j] ! k = (if cell_key k \<in> insert (gr_key r) seen then cells ! k else '''')"
    using Cons.prems(4,5) j by (auto simp: nth_list_update cell_key_inj)
  moreover have "insert (gr_key r) seen \<inter> set (map gr_key rows) = {}"
    using Cons.prems(2,6) by auto
  ultimately show ?case
    using Cons.IH [of "acc[j := cells ! j]" "insert (gr_key r) seen"] Cons.prems step by auto
qed auto

lemma scheduleCells_replaced:
  assumes "replace_cells now 0 cells grid = Some grid'" and "length grid = 168" and "length cells = 168"
    and "\<forall>m \<in> set cells. known_mode m"
  shows "scheduleCells grid' = Inr cells"
proof -
  note spec = replace_cells_spec [OF assms(1)]
  let ?cells = "cell_key ` {..<168}"
  have card: "card ?cells = 168"
    by (subst card_image) (auto simp: inj_on_def cell_key_inj)
  have sub: "?cells \<subseteq> set (map gr_key grid')"
    using spec(1,2) assms(3) by auto
  have len: "length (map gr_key grid') = 168"
    using spec(1) assms(2) by simp
  then have "card (set (map gr_key grid')) \<le> 168" using card_length [of "map gr_key grid'"] by simp
  then have eq: "set (map gr_key grid') = ?cells"
    using card sub card_seteq [OF _ sub] by simp
  have dist: "distinct (map gr_key grid')"
    by (rule card_distinct) (simp only: eq card len)
  let ?rows = "querySchedule grid'"
  have rows: "set ?rows = set grid'" "length ?rows = 168" "distinct (map gr_key ?rows)"
  proof -
    show "set ?rows = set grid'" "length ?rows = 168" using len by (simp_all add: querySchedule_def)
    show "distinct (map gr_key ?rows)"
      using dist by (simp add: querySchedule_def distinct_map distinct_sort)
  qed
  have "\<forall>r \<in> set ?rows. \<exists>j < 168. gr_key r = cell_key j \<and> gr_mode r = cells ! j"
  proof
    fix r assume "r \<in> set ?rows"
    then have r: "r \<in> set grid'" "gr_key r \<in> ?cells" using rows(1) eq by auto
    then obtain j where "j < 168" "gr_key r = cell_key j" by auto
    with r(1) spec(3) assms(3) show "\<exists>j < 168. gr_key r = cell_key j \<and> gr_mode r = cells ! j" by auto
  qed
  from fill_cells_spec [OF this rows(3), of "replicate 168 ''''" "{}"] obtain acc where
    acc: "fill_cells ?rows (replicate 168 '''') = Inr acc" "length acc = 168"
      "\<forall>j < 168. acc ! j = (if cell_key j \<in> set (map gr_key ?rows) then cells ! j else '''')"
    using assms(3,4) by auto
  have "set (map gr_key ?rows) = ?cells" using eq rows(1) by simp
  then have "acc = cells"
    using acc(2,3) assms(3) by (intro nth_equalityI) auto
  then show ?thesis
    using acc(1) rows(2) by (simp add: scheduleCells_def Let_def)
qed

lemma replace_cells_total:
  assumes "distinct (map gr_key grid)" and "\<forall>k < length cells. cell_key (i + k) \<in> set (map gr_key grid)"
  shows "\<exists>grid'. replace_cells now i cells grid = Some grid'"
  using assms
proof (induction cells arbitrary: i grid)
  case (Cons mode cells)
  let ?p = "\<lambda>r. gr_key r = cell_key i"
  let ?grid1 = "map (\<lambda>r. if ?p r then r\<lparr>gr_mode := mode, gr_updated_at := now\<rparr> else r) grid"
  have q: "queryReplaceScheduleCell mode now (int i div 24) (int i mod 24) grid = (?grid1, length (filter ?p grid))"
    by (simp add: queryReplaceScheduleCell_def sql_update_def gr_key_def cell_key_def)
  have "length (filter ?p grid) \<le> 1"
    using filter_key_distinct [OF Cons.prems(1), of "cell_key i" "\<lambda>_. True"] by simp
  moreover have "filter ?p grid \<noteq> []"
    using Cons.prems(2) by (force simp: filter_empty_conv)
  ultimately have one: "length (filter ?p grid) = 1" by (cases "filter ?p grid") auto
  have keys: "map gr_key ?grid1 = map gr_key grid" by (simp add: gr_key_def)
  have "\<forall>k < length cells. cell_key (Suc i + k) \<in> set (map gr_key grid)"
    using Cons.prems(2) by (auto dest: spec [of _ "Suc _"])
  with Cons.IH [of ?grid1 "Suc i"] Cons.prems(1) show ?case
    using one by (simp add: q keys del: map_map)
qed simp

lemma replaced_snapshot:
  assumes "length (st_grid w) = 168" and "length cells = 168"
    and "run_state (ReplaceSchedule enabled cells) w = (r, w1)"
    and "r = Inr () \<or> st_settings w1 \<noteq> st_settings w \<or> st_grid w1 \<noteq> st_grid w"
  shows "scheduleCells (st_grid w1) = Inr cells" and "scheduleEnabled (st_settings w1) = Inr enabled"
    and "\<forall>m \<in> set cells. known_mode m"
proof -
  let ?body = "\<lambda>s. let s' = upsert_setting settingScheduleEnabled (Json (JBool enabled)) s in
        case replace_cells (s_now s) 0 cells (st_grid s') of
          None \<Rightarrow> Inl (SetGrid ''updated rows'') | Some grid \<Rightarrow> Inr (Some (s'\<lparr>st_grid := grid\<rparr>))"
  show known: "\<forall>m \<in> set cells. known_mode m"
  proof (rule ccontr)
    assume "\<not> ?thesis"
    then have "r = Inl (SetGrid ''unknown mode'') \<and> w1 = w"
      using assms(3) by (auto simp: ReplaceSchedule_def list_ex_iff)
    with assms(4) show False by simp
  qed
  then have run: "run_state (settings_tx ?body) w = (r, w1)"
    using assms(3) by (simp add: ReplaceSchedule_def list_ex_iff)
  obtain dt rest grid where grid: "replace_cells (s_now w + int dt) 0 cells (st_grid w) = Some grid"
    and w1: "w1 = (upsert_setting settingScheduleEnabled (Json (JBool enabled)) (after_tick dt rest w))\<lparr>st_grid := grid\<rparr>"
    by (rule settings_tx_cases [of ?body w])
      (use run assms(4) in \<open>auto simp: Let_def split: option.splits\<close>)
  show "scheduleCells (st_grid w1) = Inr cells"
    using scheduleCells_replaced [OF grid assms(1,2) known] by (simp add: w1)
  show "scheduleEnabled (st_settings w1) = Inr enabled"
    by (simp add: w1 scheduleEnabled_def querySettingValue_upsert)
qed

text \<open>
  A schedule that is stored is the schedule that is read. If a replacement of the 168 cells succeeds, or
  if it fails and yet anything at all was written (a fault after the commit), then the next snapshot of grid
  and flag is exactly the pair that was given, or the read itself meets a fault; cells outside the
  vocabulary are refused with nothing written.
\<close>

theorem ReplaceSchedule_roundtrip:
  assumes "length (st_grid w) = 168" and "length cells = 168"
    and "run_state (ReplaceSchedule enabled cells) w = (r, w1)"
    and "r = Inr () \<or> st_settings w1 \<noteq> st_settings w \<or> st_grid w1 \<noteq> st_grid w"
  shows "fst (run_state ScheduleSnapshot w1) \<in> {Inr (cells, enabled), Inl (SetStore SErrDB)} \<and>
    (\<forall>m \<in> set cells. known_mode m)"
  using replaced_snapshot [OF assms] unfolding ScheduleSnapshot_def
  by - (rule settings_query_cases [of "\<lambda>s. case scheduleCells (st_grid s) of Inl err \<Rightarrow> Inl err
    | Inr cells \<Rightarrow> (case scheduleEnabled (st_settings s) of Inl err \<Rightarrow> Inl err | Inr enabled \<Rightarrow> Inr (cells, enabled))" w1],
    auto)

subsection \<open>A site of its own\<close>

definition seeded_grid :: "grid_row list" where
  "seeded_grid = map (\<lambda>i. \<lparr>gr_day = int i div 24, gr_hour = int i mod 24, gr_mode = ScheduleDefault, gr_updated_at = 0\<rparr>) [0..<168]"

definition demo_site :: "setting_row list \<Rightarrow> (db_fault \<times> nat) list \<Rightarrow> string list site" where
  "demo_site rows sched = \<lparr>s_tasks = [], s_events = [], s_files = [], s_trackers = [], s_now = 100, s_sched = sched,
     s_ulid = (\<lambda>n. replicate n CHR ''a''), s_nid = 0, s_hook = False, s_hooked = [], w_eng = [], w_calls = [],
     w_lease = NewRegistry, w_deadline = None, st_settings = rows, st_grid = seeded_grid\<rparr>"

definition demo_setting :: "string \<Rightarrow> json \<Rightarrow> setting_row" where
  "demo_setting key v = \<lparr>sr_id = ''set_0'', sr_key = key, sr_value = Json v, sr_created_at = 0, sr_updated_at = 0\<rparr>"

definition demo_patch :: "(string \<times> raw_message) list" where
  "demo_patch = [(''download_rate_limit'', \<lparr>rm_bytes = ''7'', rm_value = Json (JInt 7)\<rparr>),
     (''extract_passwords'', \<lparr>rm_bytes = ''\"__redacted__\"'', rm_value = Json (JStr ''__redacted__'')\<rparr>)]"

theorem PutSettings_correct_witness:
  "\<exists>st w'. run_state (PutSettings demo_patch) (demo_site [demo_setting ''extract_passwords'' (JArr [JStr ''a''])] []) = (Inr st, w') \<and>
     querySettingValue ''download_rate_limit'' (st_settings w') = Some (Json (JInt 7)) \<and>
     querySettingValue ''extract_passwords'' (st_settings w') = Some (Json (JArr [JStr ''a'']))"
proof -
  let ?w = "demo_site [demo_setting ''extract_passwords'' (JArr [JStr ''a''])] []"
  let ?w' = "snd (run_state (PutSettings demo_patch) ?w)"
  have "\<not> isl (fst (run_state (PutSettings demo_patch) ?w))" by code_simp
  then obtain st where run: "run_state (PutSettings demo_patch) ?w = (Inr st, ?w')"
    by (metis prod.collapse sum.collapse(2))
  have "distinct (map fst demo_patch)" by (simp add: demo_patch_def)
  from PutSettings_correct [OF this run]
  have "querySettingValue key (st_settings ?w') = patched demo_patch (st_settings ?w) key" for key
    by (auto split: if_splits)
  moreover have "patched demo_patch (st_settings ?w) ''download_rate_limit'' = Some (Json (JInt 7))" by code_simp
  moreover have "patched demo_patch (st_settings ?w) ''extract_passwords'' = Some (Json (JArr [JStr ''a'']))" by code_simp
  ultimately show ?thesis using run by metis
qed

lemma seeded_grid_full: "distinct (map gr_key seeded_grid)" "k < 168 \<Longrightarrow> cell_key k \<in> set (map gr_key seeded_grid)"
proof -
  have "map gr_key seeded_grid = map cell_key [0..<168]"
    by (simp add: seeded_grid_def gr_key_def cell_key_def)
  then show "distinct (map gr_key seeded_grid)" "k < 168 \<Longrightarrow> cell_key k \<in> set (map gr_key seeded_grid)"
    by (auto simp: distinct_map inj_on_def cell_key_inj)
qed

theorem ReplaceSchedule_roundtrip_witness:
  "\<exists>r w1. run_state (ReplaceSchedule True (replicate 168 ScheduleNoDownload)) (demo_site [] [(FaultAmbiguous, 5)]) = (r, w1) \<and>
     r = Inl (SetStore SErrDB) \<and>
     fst (run_state ScheduleSnapshot w1) \<in> {Inr (replicate 168 ScheduleNoDownload, True), Inl (SetStore SErrDB)}"
proof -
  let ?cells = "replicate 168 ScheduleNoDownload" and ?w = "demo_site [] [(FaultAmbiguous, 5)]"
  obtain r w1 where run: "run_state (ReplaceSchedule True ?cells) ?w = (r, w1)"
    by (meson surj_pair)
  obtain grid where "replace_cells 105 0 ?cells seeded_grid = Some grid"
    using replace_cells_total [OF seeded_grid_full(1), of ?cells 0] seeded_grid_full(2) by auto
  moreover have "\<not> list_ex (\<lambda>m. \<not> known_mode m) ?cells"
    by (simp add: list_ex_iff known_mode_def)
  ultimately have "r = Inl (SetStore SErrDB) \<and> st_settings w1 \<noteq> st_settings ?w"
    using run by (auto simp: ReplaceSchedule_def settings_tx_def tx_def tick_def demo_site_def Let_def
        upsert_setting_def NewID_def queryUpsertSetting_def constraints_ok_def live_keys_def map_filter_simps)
  moreover have "length (st_grid ?w) = 168" by (simp add: demo_site_def seeded_grid_def)
  ultimately show ?thesis
    using ReplaceSchedule_roundtrip [OF _ _ run] run by auto
qed

end
