(* ===== verification/Governor.thy ===== *)
theory Governor
  imports Settings Ownership
begin

section \<open>The bandwidth governor and its schedule\<close>

text \<open>
  \<open>src/internal/engine/bandwidth.go\<close>, the evaluation in \<open>src/internal/jobs/cron.go\<close>, and the handlers of
  \<open>src/internal/api/settings_schedule.go\<close>.

  \<^item> The governor's own fields are two more fields of the state: the pair last fanned out and the mode last
    applied. Its mutex is the atomicity of each handler against other handlers of the governor; what other
    goroutines do between its steps is the argument \<open>env\<close>.
  \<^item> The goroutines of a fan-out reach their engines in any order, and a Go map is iterated in any order:
    both orders are arguments.
  \<^item> A joined error is the list of its errors, empty for \<open>nil\<close>. Read-backs and log lines are left out: they
    change nothing.
\<close>

record rate_limits =
  rl_Down :: int
  rl_Up :: int

definition ModeNoDownload :: string where "ModeNoDownload = ''no_download''"
definition ModeDefault :: string where "ModeDefault = ''default''"
definition ModeAlternative :: string where "ModeAlternative = ''alternative''"

record 'e governed = "'e site" +
  gv_current :: rate_limits
  gv_mode :: string

type_synonym ('e, 'z, 'a) gov_action = "(('e, 'z) governed_scheme, 'a) action"

text \<open>
  What the constructor and \<open>WithTasks\<close> attach; a missing store is a wiring error. \<open>go_names\<close> is the registry's
  sorted list of engine names, \<open>go_landing\<close> the order in which the goroutines of a fan-out reach them.
\<close>

record 'e governor =
  go_engines :: "'e engines"
  go_names :: "string list"
  go_landing :: "string list"
  go_settings :: bool
  go_tasks :: bool

datatype gov_error =
    GovNoSettings | GovNoTasks | GovSettings settings_error | GovStore store_error
  | GovEngine string eng_error | GovUnknownMode string | GovTaskID string | GovNoEngine string
  | GovSchedule settings_error

subsection \<open>The precedence chain\<close>

definition Effective :: "string \<Rightarrow> int \<Rightarrow> int \<Rightarrow> int \<Rightarrow> int \<times> bool" where
  "Effective mode cell global task =
     (if mode = ModeNoDownload then (0, True)
      else (fold (\<lambda>term rate. if 0 < term \<and> (rate = 0 \<or> term < rate) then term else rate) [cell, global, task] 0, False))"

text \<open>The source panics for a No Download cell, which no caller passes.\<close>

definition effectiveLimits :: "string \<Rightarrow> rate_limits \<Rightarrow> rate_limits \<Rightarrow> rate_limits option" where
  "effectiveLimits m cell global =
     (if m = ModeNoDownload then None
      else Some \<lparr>rl_Down = fst (Effective m (rl_Down cell) (rl_Down global) 0),
                 rl_Up = fst (Effective m (rl_Up cell) (rl_Up global) 0)\<rparr>)"

subsection \<open>Fan-out\<close>

fun fan_limits :: "'e engines \<Rightarrow> rate_limits \<Rightarrow> string list \<Rightarrow> ('e, 'z, gov_error list) gov_action" where
  "fan_limits engines l [] = ret []"
| "fan_limits engines l (name # names) = (case engines name of
     None \<Rightarrow> fan_limits engines l names
   | Some e \<Rightarrow> do {
       r \<leftarrow> e_SetRateLimits e '''' (Some (rl_Down l)) (Some (rl_Up l));
       errs \<leftarrow> fan_limits engines l names;
       ret (case r of
           Inr _ \<Rightarrow> errs
         | Inl err \<Rightarrow> if err = ErrNotSupported then errs else GovEngine name err # errs)
     })"

definition applyGlobal :: "'e governor \<Rightarrow> rate_limits \<Rightarrow> ('e, 'z, gov_error list) gov_action" where
  "applyGlobal g l = do {
     errs \<leftarrow> fan_limits (go_engines g) l (go_landing g);
     _ \<leftarrow> (if errs = [] then modify (\<lambda>s. s\<lparr>gv_current := l\<rparr>) else ret ());
     ret errs
   }"

definition loadLimits ::
  "'e governor \<Rightarrow> string \<Rightarrow> string \<Rightarrow> int \<Rightarrow> int \<Rightarrow> ('e, 'z, gov_error + rate_limits) gov_action" where
  "loadLimits g downKey upKey downDef upDef =
     (if \<not> go_settings g then ret (Inl GovNoSettings)
      else do {
        d \<leftarrow> GetInt64 downKey downDef;
        case d of
          Inl err \<Rightarrow> ret (Inl (GovSettings err))
        | Inr down \<Rightarrow> do {
            u \<leftarrow> GetInt64 upKey upDef;
            ret (case u of Inl err \<Rightarrow> Inl (GovSettings err) | Inr up \<Rightarrow> Inr \<lparr>rl_Down = down, rl_Up = up\<rparr>)
          }
      })"

definition globalLimits :: "'e governor \<Rightarrow> ('e, 'z, gov_error + rate_limits) gov_action" where
  "globalLimits g = loadLimits g settingDownloadRateLimit settingUploadRateLimit 0 0"

definition alternativeLimits :: "'e governor \<Rightarrow> ('e, 'z, gov_error + rate_limits) gov_action" where
  "alternativeLimits g =
     loadLimits g settingAltDownloadRate settingAltUploadRate defaultAltDownloadRate defaultAltUploadRate"

definition cellLimits :: "'e governor \<Rightarrow> string \<Rightarrow> ('e, 'z, gov_error + rate_limits) gov_action" where
  "cellLimits g m = (if m = ModeAlternative then alternativeLimits g else globalLimits g)"

subsection \<open>The parked set\<close>

record pausable_task =
  pt_engine :: string
  pt_ref :: "string option"
  pt_live :: bool

definition add_queued :: "candidate list \<Rightarrow> (string \<times> pausable_task) list" where
  "add_queued cands = fold (\<lambda>cand m. if c_State cand \<noteq> StateQueued then m
     else AList.update (c_ID cand) \<lparr>pt_engine = c_Engine cand, pt_ref = c_EngineRef cand,
       pt_live = (c_AdmissionPending cand \<noteq> 0)\<rparr> m) cands []"

definition add_running ::
  "string \<Rightarrow> (string \<times> reconcilable) list \<Rightarrow> (string \<times> pausable_task) list \<Rightarrow> (string \<times> pausable_task) list" where
  "add_running name byRef m0 = fold (\<lambda>(_, row) m. if rc_State row \<noteq> StateDownloading \<and> rc_State row \<noteq> StateChecking then m
     else AList.update (rc_ID row) \<lparr>pt_engine = name, pt_ref = Some (rc_EngineRef row), pt_live = True\<rparr> m)
     (AList.clearjunk byRef) m0"

fun running_tasks ::
  "string list \<Rightarrow> (string \<times> pausable_task) list \<Rightarrow> ('e, 'z, gov_error + (string \<times> pausable_task) list) gov_action" where
  "running_tasks [] m = ret (Inr m)"
| "running_tasks (name # names) m = do {
     r \<leftarrow> ListNonTerminalByEngine name;
     case r of Inl err \<Rightarrow> ret (Inl (GovStore err)) | Inr byRef \<Rightarrow> running_tasks names (add_running name byRef m)
   }"

definition pausableTasks :: "'e governor \<Rightarrow> ('e, 'z, gov_error + (string \<times> pausable_task) list) gov_action" where
  "pausableTasks g = do {
     q \<leftarrow> SelectQueuedCandidates 0;
     case q of Inl err \<Rightarrow> ret (Inl (GovStore err)) | Inr queued \<Rightarrow> running_tasks (go_names g) (add_queued queued)
   }"

definition moved_on :: "store_error \<Rightarrow> bool" where
  "moved_on err \<longleftrightarrow> err \<in> {SErrNotFound, SErrIllegalTransition, SErrTransitionConflict}"

definition park_row :: "string \<Rightarrow> ('e, 'z, gov_error list) gov_action" where
  "park_row tid = do {
     r \<leftarrow> ScheduleParked tid;
     ret (case r of Inl err \<Rightarrow> if moved_on err then [] else [GovStore err] | Inr _ \<Rightarrow> [])
   }"

definition parkOne :: "'e governor \<Rightarrow> string \<Rightarrow> pausable_task \<Rightarrow> ('e, 'z, gov_error list) gov_action" where
  "parkOne g tid t = (case (pt_ref t, pt_live t) of
     (Some ref, True) \<Rightarrow> (case go_engines g (pt_engine t) of
         None \<Rightarrow> ret [GovNoEngine (pt_engine t)]
       | Some e \<Rightarrow> do {
           p \<leftarrow> e_Pause e (namespacedHandle (pt_engine t) ref);
           case p of
             Inl err \<Rightarrow> if err \<noteq> ErrNotFound then ret [GovEngine (pt_engine t) err] else park_row tid
           | Inr _ \<Rightarrow> park_row tid
         })
   | _ \<Rightarrow> park_row tid)"

fun park_each ::
  "'e governor \<Rightarrow> (nat \<Rightarrow> ('e, 'z, unit) gov_action) \<Rightarrow> nat \<Rightarrow> (string \<times> pausable_task) list \<Rightarrow>
   ('e, 'z, gov_error list) gov_action" where
  "park_each g env i [] = ret []"
| "park_each g env i ((tid, t) # ts) = do {
     _ \<leftarrow> env i;
     errs \<leftarrow> parkOne g tid t;
     rest \<leftarrow> park_each g env (Suc i) ts;
     ret (errs @ rest)
   }"

definition parkAll ::
  "'e governor \<Rightarrow> (nat \<Rightarrow> ('e, 'z, unit) gov_action) \<Rightarrow>
   ((string \<times> pausable_task) list \<Rightarrow> (string \<times> pausable_task) list) \<Rightarrow> ('e, 'z, gov_error list) gov_action" where
  "parkAll g env order =
     (if \<not> go_tasks g then ret [GovNoTasks]
      else do {
        p \<leftarrow> pausableTasks g;
        case p of Inl err \<Rightarrow> ret [err] | Inr pausable \<Rightarrow> park_each g env 0 (order pausable)
      })"

fun release_each ::
  "(nat \<Rightarrow> ('e, 'z, unit) gov_action) \<Rightarrow> nat \<Rightarrow> string list \<Rightarrow> ('e, 'z, gov_error list) gov_action" where
  "release_each env i [] = ret []"
| "release_each env i (tid # ids) = do {
     _ \<leftarrow> env i;
     r \<leftarrow> Transition tid StateQueued CodeTaskScheduleResumed ''resumed by the download schedule'';
     rest \<leftarrow> release_each env (Suc i) ids;
     ret (case r of Inr _ \<Rightarrow> rest | Inl err \<Rightarrow> if moved_on err then rest else GovStore err # rest)
   }"

definition resumeParked ::
  "'e governor \<Rightarrow> (nat \<Rightarrow> ('e, 'z, unit) gov_action) \<Rightarrow> ('e, 'z, gov_error list) gov_action" where
  "resumeParked g env =
     (if \<not> go_tasks g then ret []
      else do {
        l \<leftarrow> ListScheduleParked;
        case l of Inl err \<Rightarrow> ret [GovStore err] | Inr ids \<Rightarrow> release_each env 0 ids
      })"

subsection \<open>Applying a mode\<close>

definition applyCellLimits ::
  "'e governor \<Rightarrow> (nat \<Rightarrow> ('e, 'z, unit) gov_action) \<Rightarrow> string \<Rightarrow> ('e, 'z, gov_error list) gov_action" where
  "applyCellLimits g env m = do {
     c \<leftarrow> cellLimits g m;
     case c of
       Inl err \<Rightarrow> ret [err]
     | Inr cell \<Rightarrow> do {
         gl \<leftarrow> globalLimits g;
         case gl of
           Inl err \<Rightarrow> ret [err]
         | Inr global \<Rightarrow> (case effectiveLimits m cell global of
             None \<Rightarrow> ret [GovUnknownMode m]
           | Some l \<Rightarrow> do {
               errs \<leftarrow> applyGlobal g l;
               if errs \<noteq> [] then ret errs else resumeParked g env
             })
       }
   }"

definition ApplyGlobal ::
  "'e governor \<Rightarrow> (nat \<Rightarrow> ('e, 'z, unit) gov_action) \<Rightarrow> rate_limits \<Rightarrow> ('e, 'z, gov_error list) gov_action" where
  "ApplyGlobal g env l = do {
     mode \<leftarrow> reader gv_mode;
     if mode = ModeNoDownload then ret []
     else if mode = ModeAlternative then applyCellLimits g env mode
     else applyGlobal g l
   }"

definition LoadAndApply ::
  "'e governor \<Rightarrow> (nat \<Rightarrow> ('e, 'z, unit) gov_action) \<Rightarrow> ('e, 'z, gov_error list) gov_action" where
  "LoadAndApply g env = do {
     l \<leftarrow> globalLimits g;
     case l of Inl err \<Rightarrow> ret [err] | Inr l \<Rightarrow> ApplyGlobal g env l
   }"

definition ApplyMode ::
  "'e governor \<Rightarrow> (nat \<Rightarrow> ('e, 'z, unit) gov_action) \<Rightarrow>
   ((string \<times> pausable_task) list \<Rightarrow> (string \<times> pausable_task) list) \<Rightarrow> string \<Rightarrow> ('e, 'z, gov_error list) gov_action" where
  "ApplyMode g env order m = do {
     applied \<leftarrow> reader gv_mode;
     if applied = m then ret []
     else do {
       errs \<leftarrow> (if m = ModeNoDownload then parkAll g env order
         else if m = ModeDefault \<or> m = ModeAlternative then applyCellLimits g env m
         else ret [GovUnknownMode m]);
       _ \<leftarrow> (if errs = [] then modify (\<lambda>s. s\<lparr>gv_mode := m\<rparr>) else ret ());
       ret errs
     }
   }"

subsection \<open>One task\<close>

definition queuedAdmissionPending :: "string \<Rightarrow> ('e, 'z, gov_error + bool) gov_action" where
  "queuedAdmissionPending tid = do {
     q \<leftarrow> SelectQueuedCandidates 0;
     ret (case q of
         Inl err \<Rightarrow> Inl (GovStore err)
       | Inr cands \<Rightarrow> (case List.find (\<lambda>cand. c_ID cand = tid) cands of
             Some cand \<Rightarrow> Inr (c_AdmissionPending cand \<noteq> 0)
           | None \<Rightarrow> Inr True))
   }"

definition parkTask :: "'e governor \<Rightarrow> task \<Rightarrow> ('e, 'z, gov_error list) gov_action" where
  "parkTask g t =
     (if \<not> go_tasks g then ret [GovNoTasks]
      else do {
        let running = (t_state t = StateDownloading \<or> t_state t = StateChecking);
        live \<leftarrow> (if \<not> running \<and> t_state t = StateQueued \<and> t_engine_ref t \<noteq> None then queuedAdmissionPending (t_id t)
          else ret (Inr running));
        case live of
          Inl err \<Rightarrow> ret [err]
        | Inr live \<Rightarrow> parkOne g (t_id t) \<lparr>pt_engine = t_engine t, pt_ref = t_engine_ref t, pt_live = live\<rparr>
      })"

text \<open>A pair that cannot be read falls back to the pair last fanned out.\<close>

definition or_fallback :: "('e, 'z, gov_error + rate_limits) gov_action \<Rightarrow> ('e, 'z, rate_limits) gov_action" where
  "or_fallback load = do {
     l \<leftarrow> load;
     case l of Inr l \<Rightarrow> ret l | Inl _ \<Rightarrow> reader gv_current
   }"

definition Resolve :: "'e governor \<Rightarrow> task \<Rightarrow> ('e, 'z, rate_limits \<times> bool) gov_action" where
  "Resolve g t = do {
     mode \<leftarrow> reader gv_mode;
     if mode = ModeNoDownload then ret (\<lparr>rl_Down = 0, rl_Up = 0\<rparr>, True)
     else do {
       global \<leftarrow> or_fallback (globalLimits g);
       cell \<leftarrow> (if mode = ModeAlternative then or_fallback (alternativeLimits g) else ret global);
       let (down, pauseDown) = Effective mode (rl_Down cell) (rl_Down global) (t_dl_limit t);
       let (up, pauseUp) = Effective mode (rl_Up cell) (rl_Up global) (t_ul_limit t);
       ret (\<lparr>rl_Down = down, rl_Up = up\<rparr>, pauseDown \<or> pauseUp)
     }
   }"

text \<open>The package-level call: the prefix of the handle names the engine, the bare handle is what it hears.\<close>

definition ApplyTask ::
  "'e engines \<Rightarrow> string \<Rightarrow> int option \<Rightarrow> int option \<Rightarrow> (('e, 'z) world_scheme, gov_error list) action" where
  "ApplyTask engines hid down up =
     (if down = None \<and> up = None then ret []
      else (case Cut1 hid CHR '':'' of (name, ref, ok) \<Rightarrow>
        if \<not> ok \<or> name = '''' \<or> ref = '''' then ret [GovTaskID hid]
        else (case engines name of
            None \<Rightarrow> ret [GovNoEngine name]
          | Some e \<Rightarrow> do {
              r \<leftarrow> e_SetRateLimits e ref down up;
              ret (case r of Inl err \<Rightarrow> [GovEngine name err] | Inr _ \<Rightarrow> [])
            })))"

definition Governor_ApplyTask :: "'e governor \<Rightarrow> task \<Rightarrow> ('e, 'z, gov_error list) gov_action" where
  "Governor_ApplyTask g t = do {
     (l, pause) \<leftarrow> Resolve g t;
     if pause then parkTask g t
     else (case t_engine_ref t of
         None \<Rightarrow> ret []
       | Some ref \<Rightarrow> ApplyTask (go_engines g) (namespacedHandle (t_engine t) ref) (Some (rl_Down l)) (Some (rl_Up l)))
   }"

subsection \<open>The minute tick\<close>

text \<open>The wall clock of the container's zone: the weekday (Sunday is 0) and the hour.\<close>

record wall_clock =
  wc_Weekday :: nat
  wc_Hour :: nat

definition activeIndex :: "wall_clock \<Rightarrow> nat" where
  "activeIndex now = ((wc_Weekday now + 6) mod 7) * 24 + wc_Hour now"

definition activeCell :: "string list \<Rightarrow> wall_clock \<Rightarrow> string" where
  "activeCell cells now = cells ! activeIndex now"

definition EvaluateSchedule ::
  "'e governor \<Rightarrow> (nat \<Rightarrow> ('e, 'z, unit) gov_action) \<Rightarrow>
   ((string \<times> pausable_task) list \<Rightarrow> (string \<times> pausable_task) list) \<Rightarrow> wall_clock \<Rightarrow>
   ('e, 'z, gov_error list) gov_action" where
  "EvaluateSchedule g env order now = do {
     s \<leftarrow> ScheduleSnapshot;
     case s of
       Inl err \<Rightarrow> ret [GovSchedule err]
     | Inr (cells, enabled) \<Rightarrow>
         if \<not> enabled then ret []
         else let cell = activeCell cells now in
           if cell = ScheduleNoDownload then ApplyMode g env order ModeNoDownload
           else if cell = ScheduleDefault then ApplyMode g env order ModeDefault
           else if cell = ScheduleAlternative then ApplyMode g env order ModeAlternative
           else ret [GovUnknownMode cell]
   }"

end
