(* ===== verification/GovernorProps.thy ===== *)
theory GovernorProps
  imports Governor AdmissionProps
begin

section \<open>Properties of the bandwidth governor\<close>

text \<open>
  The rules by which a relation between states is kept by every handler of the governor (locale \<open>gov_rel\<close>,
  with its interpretations), the arithmetic of the precedence chain, what a No Download cell does and does
  not do, what the other cells send and release, and where the schedule leaves tasks behind.
\<close>

subsection \<open>What every run keeps\<close>

locale gov_rel = engine_rel R P
  for R :: "('e, 'z) governed_scheme \<Rightarrow> ('e, 'z) governed_scheme \<Rightarrow> bool" and P :: "string \<Rightarrow> bool" +
  assumes R_gov: "R w (w\<lparr>gv_current := c\<rparr>)" "R w (w\<lparr>gv_mode := m\<rparr>)"
begin

lemma io_modify_gov [io_intros]:
  "state_io_rel R (modify (\<lambda>s. s\<lparr>gv_current := c\<rparr>))" "state_io_rel R (modify (\<lambda>s. s\<lparr>gv_mode := m\<rparr>))"
  by (auto simp: state_io_rel_def R_gov)

lemma io_GetInt64 [io_intros]: "state_io_rel R (GetInt64 key def)"
  unfolding GetInt64_def settings_query_def by (intro io_intros)

lemma io_ScheduleSnapshot [io_intros]: "state_io_rel R ScheduleSnapshot"
  unfolding ScheduleSnapshot_def settings_query_def by (intro io_intros)

lemma io_limits [io_intros]:
  "state_io_rel R (loadLimits g dk uk dd ud)" "state_io_rel R (globalLimits g)"
  "state_io_rel R (alternativeLimits g)" "state_io_rel R (cellLimits g m)"
  unfolding cellLimits_def globalLimits_def alternativeLimits_def loadLimits_def by (intro io_intros)+

lemma io_fan_limits [io_intros]: "state_io_rel R (fan_limits engines l names)"
  by (induction names) (simp_all, (intro io_intros | assumption)+)

lemma io_applyGlobal [io_intros]: "state_io_rel R (applyGlobal g l)"
  unfolding applyGlobal_def by (intro io_intros)

lemma io_running_tasks [io_intros]: "state_io_rel R (running_tasks names m)"
proof (induction names arbitrary: m)
  case (Cons name names)
  show ?case unfolding running_tasks.simps by (intro io_intros Cons.IH)
qed (simp add: io_return)

lemma io_pausableTasks [io_intros]: "state_io_rel R (pausableTasks g)"
  unfolding pausableTasks_def by (intro io_intros)

lemma io_park_row [io_intros]: "P tid \<Longrightarrow> state_io_rel R (park_row tid)"
  unfolding park_row_def by (intro io_intros)

lemma io_parkOne [io_intros]: "P tid \<Longrightarrow> state_io_rel R (parkOne g tid t)"
  unfolding parkOne_def by (auto intro!: io_intros split: option.split bool.split)

lemma io_park_each:
  assumes "\<And>i. state_io_rel R (env i)" and "\<And>t. P t"
  shows "state_io_rel R (park_each g env i ts)"
proof (induction ts arbitrary: i)
  case (Cons t ts)
  show ?case
    by (cases t) (auto intro!: io_intros assms Cons.IH)
qed (simp add: io_return)

lemma io_release_each:
  assumes "\<And>i. state_io_rel R (env i)" and "\<And>t. P t"
  shows "state_io_rel R (release_each env i ids)"
proof (induction ids arbitrary: i)
  case (Cons tid ids)
  show ?case unfolding release_each.simps by (intro io_intros assms Cons.IH)
qed (simp add: io_return)

lemma io_resumeParked:
  assumes "\<And>i. state_io_rel R (env i)" and "\<And>t. P t"
  shows "state_io_rel R (resumeParked g env)"
  unfolding resumeParked_def by (intro io_intros io_release_each assms)

lemma io_applyCellLimits:
  assumes "\<And>i. state_io_rel R (env i)" and "\<And>t. P t"
  shows "state_io_rel R (applyCellLimits g env m)"
  unfolding applyCellLimits_def by (intro io_intros io_resumeParked assms)

lemma ApplyMode_keeps:
  assumes "\<And>i. state_io_rel R (env i)" and "\<And>t. P t"
  shows "state_io_rel R (ApplyMode g env order m)"
  unfolding ApplyMode_def parkAll_def by (intro io_intros io_applyCellLimits io_park_each assms)

lemma ApplyGlobal_keeps:
  assumes "\<And>i. state_io_rel R (env i)" and "\<And>t. P t"
  shows "state_io_rel R (ApplyGlobal g env l)"
  unfolding ApplyGlobal_def by (intro io_intros io_applyCellLimits assms)

lemma EvaluateSchedule_keeps:
  assumes "\<And>i. state_io_rel R (env i)" and "\<And>t. P t"
  shows "state_io_rel R (EvaluateSchedule g env order now)"
  unfolding EvaluateSchedule_def Let_def by (intro io_intros ApplyMode_keeps assms)

lemma io_or_fallback [io_intros]: "state_io_rel R m \<Longrightarrow> state_io_rel R (or_fallback m)"
  unfolding or_fallback_def by (intro io_intros)

lemma Governor_ApplyTask_keeps:
  assumes "P (t_id t)"
  shows "state_io_rel R (Governor_ApplyTask g t)"
  unfolding Governor_ApplyTask_def Resolve_def parkTask_def ApplyTask_def queuedAdmissionPending_def Let_def
  by (intro io_intros assms)

end

interpretation g_audit: gov_rel audit_trail "\<lambda>_. True"
  by unfold_locales (auto intro: audit_trail_refl)

interpretation g_mark: gov_rel keeps_mark "\<lambda>_. True"
  by unfold_locales (auto simp: keeps_mark_def mark_on_queued_def)

lemma io_run: "state_io_rel R m \<Longrightarrow> R w (snd (run_state m w))"
  by (simp add: state_io_rel_def)

text \<open>
  The governor keeps the books. A schedule tick, whatever cell it finds, whatever the daemons answer,
  the database does and well-behaved goroutines do in between, and the push of one task's limits as well,
  only extend the event log, move tasks along legal transitions with an event for each, create and delete no
  row, and leave the admission mark on queued rows only.
\<close>

theorem governor_audit_trail:
  assumes "\<And>i. state_io_rel audit_trail (env i)" and "\<And>i. state_io_rel keeps_mark (env i)"
  shows "audit_trail w (snd (run_state (EvaluateSchedule g env order now) w)) \<and>
    keeps_mark w (snd (run_state (EvaluateSchedule g env order now) w)) \<and>
    audit_trail w (snd (run_state (Governor_ApplyTask g t) w)) \<and>
    keeps_mark w (snd (run_state (Governor_ApplyTask g t) w))"
proof (intro conjI)
  show "audit_trail w (snd (run_state (EvaluateSchedule g env order now) w))"
    by (rule io_run [OF g_audit.EvaluateSchedule_keeps]) (simp_all add: assms)
  show "keeps_mark w (snd (run_state (EvaluateSchedule g env order now) w))"
    by (rule io_run [OF g_mark.EvaluateSchedule_keeps]) (simp_all add: assms)
  show "audit_trail w (snd (run_state (Governor_ApplyTask g t) w))"
    by (rule io_run [OF g_audit.Governor_ApplyTask_keeps]) simp
  show "keeps_mark w (snd (run_state (Governor_ApplyTask g t) w))"
    by (rule io_run [OF g_mark.Governor_ApplyTask_keeps]) simp
qed

subsection \<open>The precedence chain\<close>

text \<open>
  The effective rate of a direction is the minimum of the limits that are set: a limit of zero (or a
  nonsensical negative one) does not take part, with none set the rate is unlimited, and a No Download cell
  is a pause, never a rate.
\<close>

theorem Effective_minimum:
  "Effective mode cell global task =
     (if mode = ModeNoDownload then (0, True)
      else (let limits = Set.filter (\<lambda>l. 0 < l) {cell, global, task} in if limits = {} then 0 else Min limits, False))"
proof (cases "mode = ModeNoDownload")
  case False
  have "Set.filter (\<lambda>l. 0 < l) {cell, global, task} =
    (if 0 < cell then {cell} else {}) \<union> (if 0 < global then {global} else {}) \<union> (if 0 < task then {task} else {})"
    by auto
  with False show ?thesis
    by (auto simp: Effective_def Let_def min_def)
qed (simp add: Effective_def)

subsection \<open>A No Download cell\<close>

text \<open>The rows the cell is about, and the handles of theirs an engine may be asked to pause.\<close>

definition park_handles :: "('e, 'z) world_scheme \<Rightarrow> string set" where
  "park_handles w = {namespacedHandle (t_engine r) ref | r ref.
     r \<in> set (s_tasks w) \<and> t_state r \<in> set scheduleParkSources \<and> t_engine_ref r = Some ref}"

definition pauses_only :: "string set \<Rightarrow> ('e, 'z) world_scheme \<Rightarrow> ('e, 'z) world_scheme \<Rightarrow> bool" where
  "pauses_only H w w' \<longleftrightarrow> (\<exists>cs. w_calls w' = w_calls w @ cs \<and> (\<forall>c \<in> set cs. \<exists>h \<in> H. fst c = CallPause h))"

lemma pauses_only_trans: "pauses_only H s t \<Longrightarrow> pauses_only H t u \<Longrightarrow> pauses_only H s u"
proof -
  assume "pauses_only H s t" "pauses_only H t u"
  then obtain cs ds where "w_calls t = w_calls s @ cs" "w_calls u = w_calls t @ ds"
    "\<forall>c \<in> set cs. \<exists>h \<in> H. fst c = CallPause h" "\<forall>c \<in> set ds. \<exists>h \<in> H. fst c = CallPause h"
    unfolding pauses_only_def by blast
  then show ?thesis unfolding pauses_only_def by (intro exI [of _ "cs @ ds"]) auto
qed

lemma pauses_only_same: "w_calls w' = w_calls w \<Longrightarrow> pauses_only H w w'"
  by (simp add: pauses_only_def)

interpretation pausing: store_rel "pauses_only H" "\<lambda>_. True" for H
proof unfold_locales
  fix s t u :: "('e, 'z) world_scheme"
  show "pauses_only H s t \<Longrightarrow> pauses_only H t u \<Longrightarrow> pauses_only H s u" by (rule pauses_only_trans)
qed (auto simp: task_write_def intro: pauses_only_same)

lemma pausing_e_Pause: "h \<in> H \<Longrightarrow> state_io_rel (pauses_only H) (e_Pause e h)"
  by (auto simp: state_io_rel_def pauses_only_def e_Pause_def ecall_def Let_def split: prod.splits)

lemma pausing_park_row: "state_io_rel (pauses_only H) (park_row tid)"
  unfolding park_row_def by (intro io_intros) simp

lemma pausing_parkOne:
  assumes "\<And>ref. pt_ref t = Some ref \<Longrightarrow> namespacedHandle (pt_engine t) ref \<in> H"
  shows "state_io_rel (pauses_only H) (parkOne g tid t)"
  using assms unfolding parkOne_def
  by (auto intro!: io_intros pausing_e_Pause pausing_park_row split: option.split bool.split)

lemma pausing_park_each:
  assumes "\<And>i. state_io_rel (pauses_only H) (env i)"
    and "\<And>tid t ref. (tid, t) \<in> set ts \<Longrightarrow> pt_ref t = Some ref \<Longrightarrow> namespacedHandle (pt_engine t) ref \<in> H"
  shows "state_io_rel (pauses_only H) (park_each g env i ts)"
  using assms(2)
proof (induction ts arbitrary: i)
  case (Cons p ts)
  obtain tid t where p: "p = (tid, t)" by (cases p)
  have "state_io_rel (pauses_only H) (parkOne g tid t)"
    using Cons.prems p by (intro pausing_parkOne) auto
  moreover have "state_io_rel (pauses_only H) (park_each g env (Suc i) ts)"
    using Cons.prems by (intro Cons.IH) auto
  ultimately show ?case
    using assms(1) unfolding p park_each.simps by (intro io_intros)
qed (simp add: pausing.io_return)

subsection \<open>The candidates of a park\<close>

definition pausable_of :: "task \<Rightarrow> pausable_task" where
  "pausable_of r = \<lparr>pt_engine = t_engine r, pt_ref = t_engine_ref r,
     pt_live = (t_state r \<noteq> StateQueued \<or> t_admission_pending r \<noteq> 0)\<rparr>"

text \<open>The rows the listing can find: the queued ones, and the running ones with a handle on a registered engine.\<close>

definition pausable :: "string list \<Rightarrow> task \<Rightarrow> bool" where
  "pausable names r \<longleftrightarrow> t_state r = StateQueued \<or>
     t_state r \<in> {StateDownloading, StateChecking} \<and> t_engine r \<in> set names \<and> t_engine_ref r \<noteq> None"

lemma query_cases:
  obtains dt rest where "run_state (query q) w = (Inl SErrDB, after_tick dt rest w) \<or>
     run_state (query q) w = (q (after_tick dt rest w), after_tick dt rest w)"
proof -
  obtain f dt rest where "run_state tick w = (f, after_tick dt rest w)" by (rule tick_cases)
  then show thesis by (intro that [of dt rest]) (auto simp: query_def)
qed

lemma fold_update_sound:
  fixes m :: "(string \<times> 'v) list"
  assumes "\<forall>(k, v) \<in> set m. Q k v" and "\<And>x. x \<in> set xs \<Longrightarrow> p x \<Longrightarrow> Q (k x) (v x)"
  shows "\<forall>(k, v) \<in> set (fold (\<lambda>x m. if p x then AList.update (k x) (v x) m else m) xs m). Q k v"
  using assms
proof (induction xs arbitrary: m)
  case (Cons x xs)
  have "\<forall>(k, v) \<in> set (AList.update (k x) (v x) m). Q k v" if "p x"
    using Cons.prems that by (induction m) auto
  then have "\<forall>(k, v) \<in> set (if p x then AList.update (k x) (v x) m else m). Q k v"
    using Cons.prems(1) by simp
  with Cons.IH Cons.prems(2) show ?case by simp
qed simp

lemma fold_update_keys:
  "fst ` set (fold (\<lambda>x m. if p x then AList.update (k x) (v x) m else m) xs m) =
     fst ` set m \<union> k ` {x \<in> set xs. p x}"
proof (induction xs arbitrary: m)
  case (Cons x xs)
  have "fst ` set (AList.update (k x) (v x) m) = insert (k x) (fst ` set m)"
    using dom_update [of "k x" "v x" m] by (simp add: update_conv' dom_map_of_conv_image_fst)
  with Cons.IH show ?case by (auto; blast)
qed simp

lemma after_tick_twice [simp]: "after_tick dt rest (after_tick dt' rest' w) = after_tick (dt + dt') rest w"
  by (simp add: after_tick_def)

lemma swap_if: "(if \<not> p then x else y) = (if p then y else x)"
  by simp

definition listing :: "string \<Rightarrow> task list \<Rightarrow> (string \<times> reconcilable) list" where
  "listing name rows = map (\<lambda>r. (rc_EngineRef r, r)) (map reconcilable_of (rev (queryListNonTerminalByEngine name rows)))"

definition pausable_map :: "string list \<Rightarrow> task list \<Rightarrow> (string \<times> pausable_task) list" where
  "pausable_map names rows = fold (\<lambda>name. add_running name (listing name rows)) names
     (add_queued (map candidate_of (querySelectQueuedCandidates rows)))"

lemma ListNonTerminalByEngine_listing:
  "ListNonTerminalByEngine name = query (\<lambda>s. Inr (listing name (s_tasks s)))"
  by (simp add: ListNonTerminalByEngine_def listing_def)

lemma running_tasks_run:
  assumes "run_state (running_tasks names m) w = (res, w')"
  shows "\<exists>dt rest. w' = after_tick dt rest w \<and>
    (\<forall>m'. res = Inr m' \<longrightarrow> m' = fold (\<lambda>name. add_running name (listing name (s_tasks w))) names m)"
  using assms
proof (induction names arbitrary: m w)
  case Nil
  have "w = after_tick 0 (s_sched w) w" by (simp add: after_tick_def)
  with Nil show ?case by auto
next
  case (Cons name names)
  show ?case
  proof (rule query_cases [of "\<lambda>s. Inr (listing name (s_tasks s))" w])
    fix dt rest
    assume "run_state (query (\<lambda>s. Inr (listing name (s_tasks s)))) w = (Inl SErrDB, after_tick dt rest w) \<or>
      run_state (query (\<lambda>s. Inr (listing name (s_tasks s)))) w = (Inr (listing name (s_tasks (after_tick dt rest w))), after_tick dt rest w)"
    then show ?thesis
    proof
      assume "run_state (query (\<lambda>s. Inr (listing name (s_tasks s)))) w = (Inl SErrDB, after_tick dt rest w)"
      with Cons.prems show ?thesis
        by (auto simp: ListNonTerminalByEngine_listing)
    next
      assume "run_state (query (\<lambda>s. Inr (listing name (s_tasks s)))) w = (Inr (listing name (s_tasks (after_tick dt rest w))), after_tick dt rest w)"
      with Cons.prems have "run_state (running_tasks names (add_running name (listing name (s_tasks w)) m)) (after_tick dt rest w) = (res, w')"
        by (simp add: ListNonTerminalByEngine_listing)
      from Cons.IH [OF this] show ?thesis by auto
    qed
  qed
qed

lemma pausableTasks_run:
  assumes "run_state (pausableTasks g) w = (res, w')"
  shows "\<exists>dt rest. w' = after_tick dt rest w \<and> (\<forall>m. res = Inr m \<longrightarrow> m = pausable_map (go_names g) (s_tasks w))"
proof (rule query_cases [of "\<lambda>s. Inr (map candidate_of (querySelectQueuedCandidates (s_tasks s)))" w])
  fix dt rest
  let ?q = "\<lambda>s. Inr (map candidate_of (querySelectQueuedCandidates (s_tasks s)))"
  assume "run_state (query ?q) w = (Inl SErrDB, after_tick dt rest w) \<or>
    run_state (query ?q) w = (?q (after_tick dt rest w), after_tick dt rest w)"
  then show ?thesis
  proof
    assume "run_state (query ?q) w = (Inl SErrDB, after_tick dt rest w)"
    with assms show ?thesis by (auto simp: pausableTasks_def SelectQueuedCandidates_def)
  next
    assume "run_state (query ?q) w = (?q (after_tick dt rest w), after_tick dt rest w)"
    with assms have "run_state (running_tasks (go_names g) (add_queued (map candidate_of (querySelectQueuedCandidates (s_tasks w)))))
        (after_tick dt rest w) = (res, w')"
      by (simp add: pausableTasks_def SelectQueuedCandidates_def)
    from running_tasks_run [OF this] show ?thesis by (auto simp: pausable_map_def)
  qed
qed

lemma add_running_eq:
  "add_running name byRef m = fold (\<lambda>p m. if rc_State (snd p) = StateDownloading \<or> rc_State (snd p) = StateChecking
     then AList.update (rc_ID (snd p)) \<lparr>pt_engine = name, pt_ref = Some (rc_EngineRef (snd p)), pt_live = True\<rparr> m else m)
     (AList.clearjunk byRef) m"
  unfolding add_running_def by (rule arg_cong [where f = "\<lambda>f. fold f (AList.clearjunk byRef) m"]) (auto simp: fun_eq_iff)

lemma add_queued_eq:
  "add_queued cands = fold (\<lambda>cand m. if c_State cand = StateQueued then AList.update (c_ID cand)
     \<lparr>pt_engine = c_Engine cand, pt_ref = c_EngineRef cand, pt_live = (c_AdmissionPending cand \<noteq> 0)\<rparr> m else m) cands []"
  unfolding add_queued_def by (simp add: swap_if)

lemma pausable_map_sound:
  assumes "(tid, t) \<in> set (pausable_map names rows)"
  shows "\<exists>r \<in> set rows. t_id r = tid \<and> t = pausable_of r \<and> pausable names r"
proof -
  let ?Q = "\<lambda>tid t. \<exists>r \<in> set rows. t_id r = tid \<and> t = pausable_of r \<and> pausable names r"
  have run: "\<forall>(tid, t) \<in> set (add_running name (listing name rows) m). ?Q tid t"
    if "name \<in> set names" and "\<forall>(tid, t) \<in> set m. ?Q tid t" for name m
    unfolding add_running_eq
  proof (rule fold_update_sound [OF that(2)])
    fix p assume "p \<in> set (AList.clearjunk (listing name rows))"
      and st: "rc_State (snd p) = StateDownloading \<or> rc_State (snd p) = StateChecking"
    then have "p \<in> set (listing name rows)" using clearjunk_subset by blast
    then obtain r where "r \<in> set rows" "t_engine r = name" "t_engine_ref r \<noteq> None" "snd p = reconcilable_of r"
      by (auto simp: listing_def queryListNonTerminalByEngine_def)
    with st that(1) show "?Q (rc_ID (snd p)) \<lparr>pt_engine = name, pt_ref = Some (rc_EngineRef (snd p)), pt_live = True\<rparr>"
      by (intro bexI [of _ r]) (auto simp: reconcilable_of_def pausable_of_def pausable_def textOrEmpty_def)
  qed
  have "\<forall>(tid, t) \<in> set (fold (\<lambda>name. add_running name (listing name rows)) ns m). ?Q tid t"
    if "set ns \<subseteq> set names" and "\<forall>(tid, t) \<in> set m. ?Q tid t" for ns m
    using that
  proof (induction ns arbitrary: m)
    case (Cons n ns)
    show ?case
      unfolding fold_Cons o_apply
      by (rule Cons.IH) (use Cons.prems run [of n m] in auto)
  qed simp
  moreover have "\<forall>(tid, t) \<in> set (add_queued (map candidate_of (querySelectQueuedCandidates rows))). ?Q tid t"
    unfolding add_queued_eq
  proof (rule fold_update_sound)
    fix cand assume "cand \<in> set (map candidate_of (querySelectQueuedCandidates rows))" "c_State cand = StateQueued"
    then obtain r where "r \<in> set rows" "cand = candidate_of r" "t_state r = StateQueued"
      by (auto simp: querySelectQueuedCandidates_def candidate_of_def)
    then show "?Q (c_ID cand) \<lparr>pt_engine = c_Engine cand, pt_ref = c_EngineRef cand, pt_live = (c_AdmissionPending cand \<noteq> 0)\<rparr>"
      by (intro bexI [of _ r]) (auto simp: candidate_of_def pausable_of_def pausable_def)
  qed simp
  ultimately show ?thesis
    using assms unfolding pausable_map_def by fastforce
qed

lemma fold_update_keys':
  "fst ` set (add_running name byRef m) = fst ` set m \<union>
     (\<lambda>p. rc_ID (snd p)) ` {p \<in> set (AList.clearjunk byRef). rc_State (snd p) = StateDownloading \<or> rc_State (snd p) = StateChecking}"
  unfolding add_running_eq by (rule fold_update_keys)

lemma live_keys_unique:
  assumes "distinct (live_keys k rows)" and "r1 \<in> set rows" "r2 \<in> set rows"
    and "t_state r1 \<noteq> StateRemoved" "t_state r2 \<noteq> StateRemoved" and "k r1 = Some x" "k r2 = Some x"
  shows "r1 = r2"
proof -
  have key: "x \<in> set (live_keys k rows)" if "r \<in> set rows" "t_state r \<noteq> StateRemoved" "k r = Some x" for r rows
    using that by (induction rows) (auto simp: live_keys_def List.map_filter_simps split: option.splits)
  show ?thesis
    using assms
  proof (induction rows)
    case (Cons r rows)
    then have "distinct (live_keys k rows)"
      by (auto simp: live_keys_def List.map_filter_simps split: option.splits if_splits)
    moreover have "r = r1 \<Longrightarrow> r2 \<notin> set rows" "r = r2 \<Longrightarrow> r1 \<notin> set rows"
      using Cons.prems key [of r2 rows] key [of r1 rows] by (auto simp: live_keys_def List.map_filter_simps)
    ultimately show ?case using Cons by auto
  qed simp
qed

lemma pausable_map_complete:
  assumes "r \<in> set rows" and "pausable names r" and "distinct (live_keys engine_handle rows)"
  shows "t_id r \<in> fst ` set (pausable_map names rows)"
proof -
  have mono: "fst ` set m \<subseteq> fst ` set (fold (\<lambda>name. add_running name (listing name rows)) ns m)" for ns m
  proof (induction ns arbitrary: m)
    case (Cons n ns)
    then show ?case using fold_update_keys' [of n "listing n rows" m] by (auto simp: subset_iff)
  qed simp
  show ?thesis
  proof (cases "t_state r = StateQueued")
    case True
    then have "t_id r \<in> fst ` set (add_queued (map candidate_of (querySelectQueuedCandidates rows)))"
      using assms(1) unfolding add_queued_eq fold_update_keys
      by (force simp: querySelectQueuedCandidates_def is_candidate_def candidate_of_def)
    with mono show ?thesis unfolding pausable_map_def by blast
  next
    case False
    with assms(2) obtain ref where st: "t_state r \<in> {StateDownloading, StateChecking}" "t_engine r \<in> set names"
      and ref: "t_engine_ref r = Some ref" by (auto simp: pausable_def)
    let ?n = "t_engine r"
    have "r \<in> set (queryListNonTerminalByEngine ?n rows)"
      using assms(1) st ref by (auto simp: queryListNonTerminalByEngine_def)
    then have mem: "(ref, reconcilable_of r) \<in> set (listing ?n rows)"
      using ref by (force simp: listing_def reconcilable_of_def textOrEmpty_def)
    obtain x where x: "map_of (listing ?n rows) ref = Some x"
      using mem by (meson weak_map_of_SomeI)
    then have "(ref, x) \<in> set (listing ?n rows)" by (rule map_of_SomeD)
    then obtain r2 where "r2 \<in> set rows" "t_engine r2 = ?n" "t_engine_ref r2 = Some ref" "t_state r2 \<noteq> StateRemoved"
      "x = reconcilable_of r2"
      by (auto simp: listing_def queryListNonTerminalByEngine_def reconcilable_of_def textOrEmpty_def)
    then have "x = reconcilable_of r"
      using live_keys_unique [OF assms(3), of r r2 "(?n, ref)"] assms(1) st ref by (auto simp: engine_handle_def)
    then have "map_of (AList.clearjunk (listing ?n rows)) ref = Some (reconcilable_of r)"
      using x by (simp add: map_of_clearjunk)
    then have "(ref, reconcilable_of r) \<in> set (AList.clearjunk (listing ?n rows))"
      by (rule map_of_SomeD)
    then have key: "t_id r \<in> fst ` set (add_running ?n (listing ?n rows) m)" for m
      using st unfolding fold_update_keys' by (force simp: reconcilable_of_def)
    from st(2) obtain as bs where "names = as @ ?n # bs" by (meson split_list)
    then have "pausable_map names rows = fold (\<lambda>name. add_running name (listing name rows)) bs
        (add_running ?n (listing ?n rows) (fold (\<lambda>name. add_running name (listing name rows)) as
          (add_queued (map candidate_of (querySelectQueuedCandidates rows)))))"
      by (simp add: pausable_map_def)
    then show ?thesis using subsetD [OF mono key] by simp
  qed
qed

lemma pausable_handles:
  assumes "(tid, t) \<in> set (pausable_map names (s_tasks w))" and "pt_ref t = Some ref"
  shows "namespacedHandle (pt_engine t) ref \<in> park_handles w"
proof -
  obtain r where r: "r \<in> set (s_tasks w)" "t = pausable_of r" "pausable names r"
    using pausable_map_sound [OF assms(1)] by blast
  then have "t_state r \<in> set scheduleParkSources" "t_engine_ref r = Some ref" "pt_engine t = t_engine r"
    using assms(2) by (auto simp: pausable_def pausable_of_def scheduleParkSources_def)
  with r(1) show ?thesis unfolding park_handles_def by auto
qed

lemma w_calls_after_tick [simp]: "w_calls (after_tick dt rest w) = w_calls w"
  by (simp add: after_tick_def)

lemma pauses_only_tick [simp]: "pauses_only H w (after_tick dt rest w)"
  by (rule pauses_only_same) simp

text \<open>
  A No Download cell is a pause, never a rate. Whatever the daemons, the database and the other
  goroutines do, and however it ends, applying it asks the engines for nothing but pauses, and only of
  handles that rows of the program in the states downloading, checking or queued carried when it began:
  no limit is sent, no transfer is added, started or removed, and no foreign transfer is named.
\<close>

theorem no_download_only_pauses:
  assumes "\<And>i. state_io_rel (pauses_only (park_handles w)) (env i)" and "\<And>m. set (order m) \<subseteq> set m"
  shows "pauses_only (park_handles w) w (snd (run_state (ApplyMode g env order ModeNoDownload) w))"
proof -
  let ?H = "park_handles w"
  obtain res w1 where p: "run_state (pausableTasks g) w = (res, w1)" by (meson surj_pair)
  obtain dt rest where w1: "w1 = after_tick dt rest w"
    and m: "\<forall>m. res = Inr m \<longrightarrow> m = pausable_map (go_names g) (s_tasks w)"
    using pausableTasks_run [OF p] by blast
  have "pauses_only ?H w (snd (run_state (parkAll g env order) w))"
  proof (cases "go_tasks g \<and> \<not> isl res")
    case True
    then obtain m where res: "res = Inr m" by (cases res) auto
    have "namespacedHandle (pt_engine t) ref \<in> ?H" if "(tid, t) \<in> set (order m)" "pt_ref t = Some ref" for tid t ref
      using that assms(2) m res pausable_handles by blast
    then have "state_io_rel (pauses_only ?H) (park_each g env 0 (order m))"
      using assms(1) by (intro pausing_park_each)
    then have "pauses_only ?H w1 (snd (run_state (park_each g env 0 (order m)) w1))" by (rule io_run)
    with True show ?thesis
      using pauses_only_trans [of ?H w w1] by (simp add: parkAll_def p res w1)
  next
    case False
    then show ?thesis
      by (cases res) (auto simp: parkAll_def p w1 pauses_only_same)
  qed
  moreover have "snd (run_state (ApplyMode g env order ModeNoDownload) w) \<in>
      {w, snd (run_state (parkAll g env order) w), (snd (run_state (parkAll g env order) w))\<lparr>gv_mode := ModeNoDownload\<rparr>}"
    by (auto simp: ApplyMode_def split: prod.splits)
  ultimately show ?thesis
    by (auto simp: pauses_only_def)
qed

subsection \<open>What is parked\<close>

definition parked_row :: "int \<Rightarrow> task \<Rightarrow> task" where
  "parked_row now r = r\<lparr>t_state := StatePaused, t_admission_pending := 0, t_updated_at := now\<rparr>"

definition parks :: "string set \<Rightarrow> 'z store_scheme \<Rightarrow> 'z store_scheme \<Rightarrow> bool" where
  "parks D w w' \<longleftrightarrow> list_all2 (\<lambda>r r'. r' = r \<or>
     t_id r \<in> D \<and> t_state r \<in> set scheduleParkSources \<and> (\<exists>now. r' = parked_row now r)) (s_tasks w) (s_tasks w')"

lemma parks_same: "s_tasks w' = s_tasks w \<Longrightarrow> parks D w w'"
  by (simp add: parks_def list_all2_refl)

lemma parks_trans:
  assumes "parks D s t" and "parks E t u"
  shows "parks (D \<union> E) s u"
  unfolding parks_def
  by (rule list_all2_trans [OF _ assms [unfolded parks_def]]) (auto simp: parked_row_def scheduleParkSources_def)

lemma parks_ids: "parks D w w' \<Longrightarrow> map t_id (s_tasks w') = map t_id (s_tasks w)"
  unfolding parks_def by (induction rule: list_all2_induct) (auto simp: parked_row_def)

lemma paused_not_source: "StatePaused \<notin> set scheduleParkSources"
  by (simp add: scheduleParkSources_def)

text \<open>The rows of a task are out of the pausable states.\<close>

definition out_of_park :: "string \<Rightarrow> 'z store_scheme \<Rightarrow> bool" where
  "out_of_park tid w \<longleftrightarrow> (\<forall>r \<in> set (s_tasks w). t_id r = tid \<longrightarrow> t_state r \<notin> set scheduleParkSources)"

lemma out_of_park_kept: "parks D w w' \<Longrightarrow> out_of_park tid w \<Longrightarrow> out_of_park tid w'"
  unfolding parks_def out_of_park_def
  by (fastforce simp: list_all2_conv_all_nth in_set_conv_nth parked_row_def scheduleParkSources_def)

lemma ScheduleParked_outcome:
  assumes "run_state (ScheduleParked tid) w = (res, w')"
  shows "s_tasks w' = s_tasks w \<and> (res = Inl SErrDB \<or> queryTaskState tid (s_tasks w) = None \<or>
      (\<exists>st. queryTaskState tid (s_tasks w) = Some st \<and> st \<notin> set scheduleParkSources)) \<or>
    (\<exists>now. s_tasks w' = map (\<lambda>r. if t_id r = tid \<and> t_state r \<in> set scheduleParkSources then parked_row now r else r) (s_tasks w))"
proof -
  obtain f dt rest where t: "run_state tick w = (f, after_tick dt rest w)" by (rule tick_cases)
  show ?thesis
  proof (cases "queryTaskState tid (s_tasks w)")
    case None
    with assms show ?thesis
      by (auto simp: ScheduleParked_def run_tx_tick [OF t] split: if_splits)
  next
    case (Some st)
    show ?thesis
    proof (cases "st \<in> set scheduleParkSources")
      case False
      with Some assms show ?thesis
        by (auto simp: ScheduleParked_def run_tx_tick [OF t] split: if_splits)
    next
      case True
      obtain r where "r \<in> set (s_tasks w)" "t_id r = tid" "t_state r = st"
        using Some by (rule queryTaskState_SomeD)
      with True have "snd (queryScheduleParkTask now tid scheduleParkSources (s_tasks w)) \<noteq> 0" for now
        by (auto simp: queryScheduleParkTask_def filter_empty_conv)
      then have "run_state (ScheduleParked tid) w =
        (let s0 = after_tick dt rest w; s1 = insertTaskEvent tid ''info'' CodeTaskSchedulePaused
           ''paused by the download schedule'' None (s_now s0)
           (s0\<lparr>s_tasks := fst (queryScheduleParkTask (s_now s0) tid scheduleParkSources (s_tasks w))\<rparr>) in
         if f = FaultBefore \<or> \<not> constraints_ok s1 then (Inl SErrDB, s0)
         else ((if f = FaultAmbiguous then Inl SErrDB else Inr ()), s1))"
        using Some True
        by (simp add: ScheduleParked_def run_tx_tick [OF t] Let_def case_prod_beta del: snd_sql_update neq0_conv)
      with assms have "s_tasks w' = s_tasks w \<and> res = Inl SErrDB \<or>
          s_tasks w' = fst (queryScheduleParkTask (s_now w + int dt) tid scheduleParkSources (s_tasks w))"
        by (simp add: Let_def split: if_splits) auto
      then show ?thesis
        unfolding queryScheduleParkTask_def fst_sql_update parked_row_def by blast
    qed
  qed
qed

lemma ScheduleParked_parks:
  assumes "run_state (ScheduleParked tid) w = (res, w')" and "res = Inr () \<or> (\<exists>err. res = Inl err \<and> moved_on err)"
    and "distinct (map t_id (s_tasks w))"
  shows "parks {tid} w w' \<and> out_of_park tid w'"
proof -
  from ScheduleParked_outcome [OF assms(1)] consider
      (same) "s_tasks w' = s_tasks w" "queryTaskState tid (s_tasks w) = None \<or>
        (\<exists>st. queryTaskState tid (s_tasks w) = Some st \<and> st \<notin> set scheduleParkSources)"
    | (parked) now where "s_tasks w' = map (\<lambda>r. if t_id r = tid \<and> t_state r \<in> set scheduleParkSources then parked_row now r else r) (s_tasks w)"
    using assms(2) by (auto simp: moved_on_def)
  then show ?thesis
  proof cases
    case same
    have "t_state r \<notin> set scheduleParkSources" if "r \<in> set (s_tasks w)" "t_id r = tid" for r
      using queryTaskState_row [OF assms(3) that(1)] same(2) that(2) by auto
    with same(1) show ?thesis by (auto simp: out_of_park_def intro: parks_same)
  next
    case parked
    have "list_all2 (\<lambda>r r'. r' = r \<or> t_id r \<in> {tid} \<and> t_state r \<in> set scheduleParkSources \<and> (\<exists>now. r' = parked_row now r))
        rows (map (\<lambda>r. if t_id r = tid \<and> t_state r \<in> set scheduleParkSources then parked_row now r else r) rows)" for rows
      by (induction rows) auto
    then have "parks {tid} w w'" unfolding parks_def parked .
    moreover have "out_of_park tid w'"
      unfolding out_of_park_def
    proof (intro ballI impI)
      fix r' assume "r' \<in> set (s_tasks w')" "t_id r' = tid"
      then obtain r where "r' = (if t_id r = tid \<and> t_state r \<in> set scheduleParkSources then parked_row now r else r)"
        unfolding parked set_map by (elim imageE)
      with \<open>t_id r' = tid\<close> show "t_state r' \<notin> set scheduleParkSources"
        by (cases "t_state r \<in> set scheduleParkSources"; cases "t_id r = tid")
          (simp_all add: parked_row_def paused_not_source)
    qed
    ultimately show ?thesis ..
  qed
qed

lemma parkOne_parks:
  assumes "run_state (parkOne g tid t) w = ([], w')" and "distinct (map t_id (s_tasks w))"
  shows "parks {tid} w w' \<and> out_of_park tid w'"
proof -
  have row: "parks {tid} v w' \<and> out_of_park tid w'"
    if "run_state (park_row tid) v = ([], w')" "distinct (map t_id (s_tasks v))" for v
  proof -
    obtain res v' where r: "run_state (ScheduleParked tid) v = (res, v')" by (meson surj_pair)
    with that(1) have "v' = w'" "res = Inr () \<or> (\<exists>err. res = Inl err \<and> moved_on err)"
      by (auto simp: park_row_def split: sum.splits if_splits)
    then show ?thesis using ScheduleParked_parks r that(2) by blast
  qed
  show ?thesis
  proof (cases "pt_live t \<and> pt_ref t \<noteq> None")
    case True
    then obtain ref where ref: "pt_ref t = Some ref" by blast
    with True assms(1) obtain e where e: "go_engines g (pt_engine t) = Some e"
      by (auto simp: parkOne_def split: option.splits)
    obtain p v where p: "run_state (e_Pause e (namespacedHandle (pt_engine t) ref)) w = (p, v)" by (meson surj_pair)
    then have v: "s_tasks v = s_tasks w" by (auto simp: e_Pause_def ecall_def Let_def split: prod.splits)
    have "run_state (park_row tid) v = ([], w')"
      using assms(1) True by (auto simp: parkOne_def ref e p split: sum.splits if_splits)
    from row [OF this] assms(2) have "parks {tid} v w' \<and> out_of_park tid w'" by (simp add: v)
    then show ?thesis by (simp add: parks_def v)
  next
    case False
    with assms(1) have "run_state (park_row tid) w = ([], w')"
      by (auto simp: parkOne_def split: option.splits bool.splits)
    from row [OF this assms(2)] show ?thesis .
  qed
qed

lemma park_each_parks:
  assumes "run_state (park_each g (\<lambda>_. ret ()) i ts) w = ([], w')" and "distinct (map t_id (s_tasks w))"
  shows "parks (fst ` set ts) w w' \<and> (\<forall>tid \<in> fst ` set ts. out_of_park tid w')"
  using assms
proof (induction ts arbitrary: i w)
  case (Cons p ts)
  obtain tid t where p: "p = (tid, t)" by (cases p)
  obtain v where v: "run_state (parkOne g tid t) w = ([], v)"
    and rest: "run_state (park_each g (\<lambda>_. ret ()) (Suc i) ts) v = ([], w')"
    using Cons.prems(1) by (auto simp: p split: prod.splits)
  note one = parkOne_parks [OF v Cons.prems(2)]
  then have "distinct (map t_id (s_tasks v))"
    using Cons.prems(2) parks_ids by metis
  note IH = Cons.IH [OF rest this]
  then have "parks ({tid} \<union> fst ` set ts) w w'"
    using one parks_trans by blast
  then show ?case
    using one IH by (auto simp: p intro: out_of_park_kept)
qed (auto simp: parks_same)

text \<open>
  C6. A No Download cell that was applied has parked everything it is about. When applying it succeeds and
  no other goroutine interferes, no queued task is left, and no downloading or checking one that has a handle
  on a registered engine; those rows, and no others, are now paused and otherwise as they were; the mode is
  recorded.
\<close>

theorem no_download_parks:
  assumes "run_state (ApplyMode g (\<lambda>_. ret ()) order ModeNoDownload) w = ([], w')" and "gv_mode w \<noteq> ModeNoDownload"
    and "constraints_ok w" and "\<And>m. set (order m) = set m"
  shows "(\<forall>r \<in> set (s_tasks w'). \<not> pausable (go_names g) r) \<and>
    list_all2 (\<lambda>r r'. if pausable (go_names g) r then \<exists>now. r' = parked_row now r else r' = r) (s_tasks w) (s_tasks w') \<and>
    gv_mode w' = ModeNoDownload"
proof -
  have ids: "distinct (map t_id (s_tasks w))" and keys: "distinct (live_keys engine_handle (s_tasks w))"
    using assms(3) by (simp_all add: constraints_ok_def)
  obtain v where v: "run_state (parkAll g (\<lambda>_. ret ()) order) w = ([], v)" and w': "w' = v\<lparr>gv_mode := ModeNoDownload\<rparr>"
    using assms(1,2) by (auto simp: ApplyMode_def split: prod.splits if_splits)
  obtain res w1 where p: "run_state (pausableTasks g) w = (res, w1)" by (meson surj_pair)
  obtain dt rest where w1: "w1 = after_tick dt rest w"
    and m: "\<forall>m. res = Inr m \<longrightarrow> m = pausable_map (go_names g) (s_tasks w)"
    using pausableTasks_run [OF p] by blast
  let ?m = "pausable_map (go_names g) (s_tasks w)"
  from v have res: "res = Inr ?m"
    using m by (cases res) (auto simp: parkAll_def p split: if_splits)
  with v have run: "run_state (park_each g (\<lambda>_. ret ()) 0 (order ?m)) w1 = ([], v)"
    by (auto simp: parkAll_def p split: if_splits)
  from park_each_parks [OF run] ids have parks: "parks (fst ` set ?m) w v" and out: "\<forall>tid \<in> fst ` set ?m. out_of_park tid v"
    using assms(4) by (auto simp: w1 parks_def)
  have key: "t_id r \<in> fst ` set ?m \<longleftrightarrow> pausable (go_names g) r" if r: "r \<in> set (s_tasks w)" for r
  proof
    assume "t_id r \<in> fst ` set ?m"
    then obtain t where "(t_id r, t) \<in> set ?m" by auto
    from pausable_map_sound [OF this] obtain r2 where "r2 \<in> set (s_tasks w)" "t_id r2 = t_id r" "pausable (go_names g) r2" by blast
    with r ids show "pausable (go_names g) r" by (metis distinct_map inj_onD)
  qed (rule pausable_map_complete [OF r _ keys])
  have rows: "list_all2 (\<lambda>r r'. if pausable (go_names g) r then \<exists>now. r' = parked_row now r else r' = r) (s_tasks w) (s_tasks v)"
    unfolding list_all2_conv_all_nth
  proof (intro conjI allI impI)
    show len: "length (s_tasks w) = length (s_tasks v)" using parks by (auto simp: parks_def dest: list_all2_lengthD)
    fix i assume i: "i < length (s_tasks w)"
    let ?r = "s_tasks w ! i" and ?r' = "s_tasks v ! i"
    have step: "?r' = ?r \<or> t_id ?r \<in> fst ` set ?m \<and> t_state ?r \<in> set scheduleParkSources \<and> (\<exists>now. ?r' = parked_row now ?r)"
      using parks i by (auto simp: parks_def list_all2_conv_all_nth)
    show "if pausable (go_names g) ?r then \<exists>now. ?r' = parked_row now ?r else ?r' = ?r"
    proof (cases "pausable (go_names g) ?r")
      case True
      then have "out_of_park (t_id ?r) v" using key [of ?r] out i by auto
      moreover have "t_state ?r \<in> set scheduleParkSources" using True by (auto simp: pausable_def scheduleParkSources_def)
      moreover have "?r' \<in> set (s_tasks v)" using i len by simp
      ultimately have "?r' \<noteq> ?r" by (auto simp: out_of_park_def)
      with step True show ?thesis by simp
    next
      case False
      then show ?thesis using step key [of ?r] i by auto
    qed
  qed
  have "\<not> pausable (go_names g) r'" if r': "r' \<in> set (s_tasks v)" for r'
  proof -
    obtain i where "i < length (s_tasks v)" "r' = s_tasks v ! i" using r' by (metis in_set_conv_nth)
    with rows have "if pausable (go_names g) (s_tasks w ! i) then \<exists>now. r' = parked_row now (s_tasks w ! i) else r' = s_tasks w ! i"
      by (auto simp: list_all2_conv_all_nth)
    then show ?thesis by (auto simp: pausable_def parked_row_def split: if_splits)
  qed
  with rows show ?thesis by (simp add: w')
qed

subsection \<open>The other cells\<close>

definition queued_row :: "int \<Rightarrow> task \<Rightarrow> task" where
  "queued_row now r = r\<lparr>t_state := StateQueued, t_admission_pending := 0, t_updated_at := now\<rparr>"

definition releases :: "string set \<Rightarrow> 'z store_scheme \<Rightarrow> 'z store_scheme \<Rightarrow> bool" where
  "releases D w w' \<longleftrightarrow>
     list_all2 (\<lambda>r r'. if t_id r \<in> D then \<exists>now. r' = queued_row now r else r' = r) (s_tasks w) (s_tasks w')"

lemma releases_trans:
  assumes "releases D s t" and "releases E t u" and "D \<inter> E = {}"
  shows "releases (D \<union> E) s u"
  unfolding releases_def
  by (rule list_all2_trans [OF _ assms(1,2) [unfolded releases_def]])
    (use assms(3) in \<open>auto simp: queued_row_def split: if_splits\<close>)

lemma releases_ids: "releases D w w' \<Longrightarrow> map t_id (s_tasks w') = map t_id (s_tasks w)"
  unfolding releases_def by (induction rule: list_all2_induct) (auto simp: queued_row_def split: if_splits)

lemma releases_paused:
  assumes "releases D w w'" and "r \<in> set (s_tasks w)" "t_id r \<notin> D"
  shows "r \<in> set (s_tasks w')"
proof -
  obtain i where i: "i < length (s_tasks w)" "r = s_tasks w ! i" using assms(2) by (metis in_set_conv_nth)
  with assms have "s_tasks w' ! i = r" "i < length (s_tasks w')"
    by (auto simp: releases_def list_all2_conv_all_nth)
  then show ?thesis by (metis nth_mem)
qed

lemma release_one:
  assumes "run_state (Transition tid StateQueued code message) w = (res, w')"
    and "res = Inr () \<or> (\<exists>err. res = Inl err \<and> moved_on err)" and "distinct (map t_id (s_tasks w))"
    and "r \<in> set (s_tasks w)" "t_id r = tid" "t_state r = StatePaused"
  shows "releases {tid} w w'"
proof -
  obtain f dt rest where t: "run_state tick w = (f, after_tick dt rest w)" by (rule tick_cases)
  have q: "queryTaskState tid (s_tasks w) = Some StatePaused"
    using queryTaskState_row [OF assms(3,4)] assms(5,6) by simp
  have legal: "transitionLegal StatePaused StateQueued" by code_simp
  have "snd (queryTransitionTask StateQueued now tid StatePaused (s_tasks w)) \<noteq> 0" for now
    by (rule transition_affected [OF q])
  then have "s_tasks w' = fst (queryTransitionTask StateQueued (s_now w + int dt) tid StatePaused (s_tasks w))"
    using assms(1,2) q legal
    by (auto simp: Transition_def run_tx_tick [OF t] Let_def case_prod_beta fireCompleted_def moved_on_def
        simp del: snd_sql_update fst_sql_update neq0_conv split: if_splits)
  moreover have "t_state x = StatePaused" if "x \<in> set (s_tasks w)" "t_id x = tid" for x
    using that assms(3-6) by (metis distinct_map inj_onD)
  then have "\<forall>x \<in> set (s_tasks w). t_id x = tid \<longrightarrow> t_state x = StatePaused" by blast
  then have "list_all2 (\<lambda>r r'. if t_id r \<in> {tid} then \<exists>now. r' = queued_row now r else r' = r) (s_tasks w)
      (fst (queryTransitionTask StateQueued (s_now w + int dt) tid StatePaused (s_tasks w)))"
    unfolding queryTransitionTask_def fst_sql_update list_all2_map2
    by (auto simp: queued_row_def list_all2_same)
  ultimately show ?thesis unfolding releases_def by simp
qed

lemma release_each_run:
  assumes "run_state (release_each (\<lambda>_. ret ()) i ids) w = ([], w')" and "distinct (map t_id (s_tasks w))"
    and "distinct ids" and "\<forall>tid \<in> set ids. \<exists>r \<in> set (s_tasks w). t_id r = tid \<and> t_state r = StatePaused"
  shows "releases (set ids) w w'"
  using assms
proof (induction ids arbitrary: i w)
  case Nil
  then show ?case by (simp add: releases_def list_all2_same)
next
  case (Cons tid ids)
  let ?t = "Transition tid StateQueued CodeTaskScheduleResumed ''resumed by the download schedule''"
  obtain res v where t: "run_state ?t w = (res, v)" by (meson surj_pair)
  have rest: "run_state (release_each (\<lambda>_. ret ()) (Suc i) ids) v = ([], w')"
    and res: "res = Inr () \<or> (\<exists>err. res = Inl err \<and> moved_on err)"
    using Cons.prems(1) by (cases res; auto simp: t split: prod.splits if_splits)+
  obtain r where "r \<in> set (s_tasks w)" "t_id r = tid" "t_state r = StatePaused"
    using Cons.prems(4) by auto
  then have one: "releases {tid} w v"
    by (rule release_one [OF t res Cons.prems(2)])
  have "\<forall>tid \<in> set ids. \<exists>r \<in> set (s_tasks v). t_id r = tid \<and> t_state r = StatePaused"
  proof
    fix tid2 assume tid2: "tid2 \<in> set ids"
    then obtain r where "r \<in> set (s_tasks w)" "t_id r = tid2" "t_state r = StatePaused"
      using Cons.prems(4) by auto
    moreover have "tid2 \<noteq> tid" using tid2 Cons.prems(3) by auto
    ultimately show "\<exists>r \<in> set (s_tasks v). t_id r = tid2 \<and> t_state r = StatePaused"
      using releases_paused [OF one] by auto
  qed
  moreover have "distinct (map t_id (s_tasks v))"
    using releases_ids [OF one] Cons.prems(2) by simp
  ultimately have "releases (set ids) v w'"
    using Cons.IH rest Cons.prems(3) by simp
  then show ?case
    using releases_trans [OF one] Cons.prems(3) by auto
qed

text \<open>What the settings rows say about a pair of limits.\<close>

definition stored_int :: "string \<Rightarrow> int \<Rightarrow> setting_row list \<Rightarrow> int option" where
  "stored_int key dflt rows = (case querySettingValue key rows of None \<Rightarrow> Some dflt | Some v \<Rightarrow> settingInt v)"

lemma loadLimits_run:
  assumes "run_state (loadLimits g dk uk dd ud) w = (res, w')"
  shows "\<exists>dt rest. w' = after_tick dt rest w \<and>
    (\<forall>l. res = Inr l \<longrightarrow> stored_int dk dd (st_settings w) = Some (rl_Down l) \<and> stored_int uk ud (st_settings w) = Some (rl_Up l))"
proof -
  have get: "\<exists>dt rest. v' = after_tick dt rest v \<and> (\<forall>n. r = Inr n \<longrightarrow> stored_int key dflt (st_settings v) = Some n)"
    if "run_state (GetInt64 key dflt) v = (r, v')" for key dflt v r and v' :: "('a, 'b) governed_scheme"
    using that unfolding GetInt64_def
    by - (rule settings_query_cases [of "\<lambda>s. case querySettingValue key (st_settings s) of None \<Rightarrow> Inr dflt
        | Some v \<Rightarrow> (case settingInt v of None \<Rightarrow> Inl (SetDecode key) | Some n \<Rightarrow> Inr n)" v],
      auto simp: stored_int_def split: option.splits)
  have refl: "\<exists>dt rest. w = after_tick dt rest w"
    by (rule exI [of _ 0], rule exI [of _ "s_sched w"]) (simp add: after_tick_def)
  show ?thesis
  proof (cases "go_settings g")
    case True
    obtain d v where d: "run_state (GetInt64 dk dd) w = (d, v)" by (meson surj_pair)
    obtain u x where u: "run_state (GetInt64 uk ud) v = (u, x)" by (meson surj_pair)
    from get [OF d] get [OF u] True assms show ?thesis
      by (cases d; cases u; auto simp: loadLimits_def d u; blast)
  qed (use assms refl in \<open>auto simp: loadLimits_def\<close>)
qed
text \<open>The pair a cell stands for: the chain over the stored limits, without a task term.\<close>

definition stored_pair :: "bool \<Rightarrow> setting_row list \<Rightarrow> rate_limits \<Rightarrow> bool" where
  "stored_pair alternative rows l \<longleftrightarrow>
     (if alternative
      then stored_int settingAltDownloadRate defaultAltDownloadRate rows = Some (rl_Down l) \<and>
        stored_int settingAltUploadRate defaultAltUploadRate rows = Some (rl_Up l)
      else stored_int settingDownloadRateLimit 0 rows = Some (rl_Down l) \<and>
        stored_int settingUploadRateLimit 0 rows = Some (rl_Up l))"

text \<open>One fan-out: every registered engine gets the same call once, and none refuses.\<close>

definition fanned_out :: "'e governor \<Rightarrow> rate_limits \<Rightarrow> call_entry list \<Rightarrow> bool" where
  "fanned_out g l cs \<longleftrightarrow>
     map fst cs = map (\<lambda>_. CallSetRateLimits '''' (Some (rl_Down l)) (Some (rl_Up l)))
       (filter (\<lambda>name. go_engines g name \<noteq> None) (go_landing g)) \<and>
     (\<forall>c \<in> set cs. snd c = Inr '''' \<or> snd c = Inl ErrNotSupported)"

lemma fan_limits_run:
  assumes "run_state (fan_limits engines l names) w = ([], w')"
  shows "\<exists>cs e n. w' = w\<lparr>w_eng := e, w_calls := w_calls w @ cs, s_now := n\<rparr> \<and>
    map fst cs = map (\<lambda>_. CallSetRateLimits '''' (Some (rl_Down l)) (Some (rl_Up l))) (filter (\<lambda>name. engines name \<noteq> None) names) \<and>
    (\<forall>c \<in> set cs. snd c = Inr '''' \<or> snd c = Inl ErrNotSupported)"
  using assms
proof (induction names arbitrary: w)
  case Nil
  then show ?case by (intro exI [of _ "[]"] exI [of _ "w_eng w"] exI [of _ "s_now w"]) simp
next
  case (Cons name names)
  show ?case
  proof (cases "engines name")
    case None
    with Cons show ?thesis by simp
  next
    case (Some eg)
    obtain r v where r: "run_state (e_SetRateLimits eg '''' (Some (rl_Down l)) (Some (rl_Up l))) w = (r, v)"
      by (meson surj_pair)
    then obtain e n where v: "v = w\<lparr>w_eng := e, w_calls := w_calls w @
        [(CallSetRateLimits '''' (Some (rl_Down l)) (Some (rl_Up l)), map_sum (\<lambda>x. x) no_text r)], s_now := n\<rparr>"
      by (auto simp: e_SetRateLimits_def ecall_def Let_def split: prod.splits)
    have ok: "r = Inr () \<or> r = Inl ErrNotSupported" and rest: "run_state (fan_limits engines l names) v = ([], w')"
      using Cons.prems by (cases r; auto simp: Some r split: prod.splits if_splits)+
    from Cons.IH [OF rest] obtain cs e2 n2 where "w' = v\<lparr>w_eng := e2, w_calls := w_calls v @ cs, s_now := n2\<rparr>"
      "map fst cs = map (\<lambda>_. CallSetRateLimits '''' (Some (rl_Down l)) (Some (rl_Up l))) (filter (\<lambda>name. engines name \<noteq> None) names)"
      "\<forall>c \<in> set cs. snd c = Inr '''' \<or> snd c = Inl ErrNotSupported" by blast
    then show ?thesis
      using ok Some
      by (intro exI [of _ "(CallSetRateLimits '''' (Some (rl_Down l)) (Some (rl_Up l)), map_sum (\<lambda>x. x) no_text r) # cs"]
          exI [of _ e2] exI [of _ n2]) (auto simp: v no_text_def)
  qed
qed

text \<open>A release asks no engine for anything and leaves the governor's own fields alone.\<close>

definition gov_silent :: "('e, 'z) governed_scheme \<Rightarrow> ('e, 'z) governed_scheme \<Rightarrow> bool" where
  "gov_silent w w' \<longleftrightarrow> w_calls w' = w_calls w \<and> gv_current w' = gv_current w \<and> gv_mode w' = gv_mode w"

interpretation silent: store_rel gov_silent "\<lambda>_. True"
  by unfold_locales (auto simp: gov_silent_def task_write_def)

lemma silent_release_each: "state_io_rel gov_silent (release_each (\<lambda>_. ret ()) i ids)"
proof (induction ids arbitrary: i)
  case (Cons tid ids)
  show ?case unfolding release_each.simps by (intro io_intros Cons.IH) simp
qed (simp add: silent.io_return)

lemma resumeParked_run:
  assumes "run_state (resumeParked g (\<lambda>_. ret ())) w = ([], w')" and "constraints_ok w" and "go_tasks g"
  shows "releases (set (queryListScheduleParked w)) w w' \<and> gov_silent w w'"
proof (rule query_cases [of "\<lambda>s. Inr (queryListScheduleParked s)" w])
  fix dt rest
  let ?q = "\<lambda>s. Inr (queryListScheduleParked s)" and ?ids = "queryListScheduleParked w"
  assume "run_state (query ?q) w = (Inl SErrDB, after_tick dt rest w) \<or>
    run_state (query ?q) w = (?q (after_tick dt rest w), after_tick dt rest w)"
  moreover have "queryListScheduleParked (after_tick dt rest w) = ?ids"
    by (simp add: queryListScheduleParked_def)
  ultimately have run: "run_state (release_each (\<lambda>_. ret ()) 0 ?ids) (after_tick dt rest w) = ([], w')"
    using assms(1,3) by (auto simp: resumeParked_def ListScheduleParked_def)
  have ids: "distinct (map t_id (s_tasks w))" using assms(2) by (simp add: constraints_ok_def)
  then have "distinct ?ids" by (auto simp: queryListScheduleParked_def intro: distinct_map_filter)
  moreover have "\<forall>tid \<in> set ?ids. \<exists>r \<in> set (s_tasks w). t_id r = tid \<and> t_state r = StatePaused"
    by (auto simp: queryListScheduleParked_def)
  ultimately have "releases (set ?ids) (after_tick dt rest w) w'"
    using release_each_run [OF run] ids by simp
  moreover have "gov_silent (after_tick dt rest w) w'"
    using io_run [OF silent_release_each, of "after_tick dt rest w" 0 ?ids] by (simp add: run)
  ultimately show ?thesis
    by (simp add: releases_def gov_silent_def after_tick_def)
qed

text \<open>
  C7. A cell with limits sends them and then lets the parked tasks go. When a change to a Default or an
  Alternative cell succeeds and no other goroutine interferes, every registered engine was asked exactly once
  for the pair min(cell, global) of the stored limits, per direction, as a global limit and nothing else;
  that pair and the mode are recorded; and exactly the tasks the schedule had parked are back in the queue,
  while every other row (the tasks an operator paused among them) is as it was.
\<close>

theorem cell_sends_and_releases:
  assumes "run_state (ApplyMode g (\<lambda>_. ret ()) order m) w = ([], w')" and "m \<in> {ModeDefault, ModeAlternative}"
    and "gv_mode w \<noteq> m" and "constraints_ok w" and "go_tasks g"
  shows "\<exists>cell global cs. stored_pair (m = ModeAlternative) (st_settings w) cell \<and> stored_pair False (st_settings w) global \<and>
    (let l = \<lparr>rl_Down = fst (Effective m (rl_Down cell) (rl_Down global) 0),
              rl_Up = fst (Effective m (rl_Up cell) (rl_Up global) 0)\<rparr> in
     w_calls w' = w_calls w @ cs \<and> fanned_out g l cs \<and> gv_current w' = l) \<and>
    gv_mode w' = m \<and>
    list_all2 (\<lambda>r r'. if t_id r \<in> set (queryListScheduleParked w) then \<exists>now. r' = queued_row now r else r' = r)
      (s_tasks w) (s_tasks w')"
proof -
  have m: "m \<noteq> ModeNoDownload" using assms(2) by (auto simp: ModeNoDownload_def ModeDefault_def ModeAlternative_def)
  obtain v where v: "run_state (applyCellLimits g (\<lambda>_. ret ()) m) w = ([], v)" and w': "w' = v\<lparr>gv_mode := m\<rparr>"
    using assms(1-3) m by (auto simp: ApplyMode_def split: prod.splits if_splits)
  obtain c w1 where c: "run_state (cellLimits g m) w = (c, w1)" by (meson surj_pair)
  obtain gl w2 where gl: "run_state (globalLimits g) w1 = (gl, w2)" by (meson surj_pair)
  from v c gl obtain cell global where cell: "c = Inr cell" and global: "gl = Inr global"
    by (cases c; cases gl; auto simp: applyCellLimits_def)
  let ?l = "\<lparr>rl_Down = fst (Effective m (rl_Down cell) (rl_Down global) 0),
              rl_Up = fst (Effective m (rl_Up cell) (rl_Up global) 0)\<rparr>"
  obtain dt1 rest1 where w1: "w1 = after_tick dt1 rest1 w" and sp1: "stored_pair (m = ModeAlternative) (st_settings w) cell"
    using c loadLimits_run [of g _ _ _ _ w "c" w1] cell
    by (auto simp: cellLimits_def alternativeLimits_def globalLimits_def stored_pair_def split: if_splits; blast)
  obtain dt2 rest2 where w2: "w2 = after_tick dt2 rest2 w1" and sp2: "stored_pair False (st_settings w1) global"
    using loadLimits_run [OF gl [unfolded globalLimits_def]] global by (auto simp: stored_pair_def)
  obtain errs w3 where f: "run_state (applyGlobal g ?l) w2 = (errs, w3)" by (meson surj_pair)
  have "errs = []" and r: "run_state (resumeParked g (\<lambda>_. ret ())) w3 = ([], v)"
    using v c gl f m by (auto simp: applyCellLimits_def cell global effectiveLimits_def split: if_splits)
  then obtain w3' where "run_state (fan_limits (go_engines g) ?l (go_landing g)) w2 = ([], w3')" and w3: "w3 = w3'\<lparr>gv_current := ?l\<rparr>"
    using f by (auto simp: applyGlobal_def split: prod.splits if_splits)
  from fan_limits_run [OF this(1)] obtain cs e n where w3': "w3' = w2\<lparr>w_eng := e, w_calls := w_calls w2 @ cs, s_now := n\<rparr>"
    and cs: "fanned_out g ?l cs" unfolding fanned_out_def by blast
  have same: "s_tasks w3 = s_tasks w" "s_events w3 = s_events w" "s_files w3 = s_files w"
    "s_trackers w3 = s_trackers w" "w_calls w3 = w_calls w @ cs" "gv_current w3 = ?l"
    by (simp_all add: w3 w3' w2 w1 after_tick_def)
  then have "queryListScheduleParked w3 = queryListScheduleParked w" and "constraints_ok w3"
    using assms(4) by (simp_all add: queryListScheduleParked_def constraints_ok_def)
  with resumeParked_run [OF r _ assms(5)] have "releases (set (queryListScheduleParked w)) w3 v" "gov_silent w3 v"
    by simp_all
  then have rows: "list_all2 (\<lambda>r r'. if t_id r \<in> set (queryListScheduleParked w) then \<exists>now. r' = queued_row now r else r' = r)
      (s_tasks w) (s_tasks w')" and calls: "w_calls w' = w_calls w @ cs" and current: "gv_current w' = ?l"
    by (simp_all add: releases_def gov_silent_def same w')
  have "stored_pair False (st_settings w) global" using sp2 by (simp add: w1)
  with sp1 cs calls current rows show ?thesis
    unfolding Let_def by (intro exI [of _ cell] exI [of _ global] exI [of _ cs]) (simp add: w')
qed

subsection \<open>What the schedule leaves behind\<close>

definition unmoved :: "('e, 'z) governed_scheme \<Rightarrow> ('e, 'z) governed_scheme \<Rightarrow> bool" where
  "unmoved w w' \<longleftrightarrow> (\<exists>dt rest. w' = after_tick dt rest w)"

lemma unmoved_refl [simp]: "unmoved w w"
  unfolding unmoved_def by (rule exI [of _ 0], rule exI [of _ "s_sched w"]) (simp add: after_tick_def)

lemma unmoved_trans: "unmoved w v \<Longrightarrow> unmoved v x \<Longrightarrow> unmoved w x"
  unfolding unmoved_def by (auto; blast)

lemma unmoved_fields:
  "unmoved w w' \<Longrightarrow> s_tasks w' = s_tasks w \<and> s_events w' = s_events w \<and> w_calls w' = w_calls w \<and> gv_mode w' = gv_mode w \<and>
     gv_current w' = gv_current w \<and> st_settings w' = st_settings w \<and> st_grid w' = st_grid w"
  by (auto simp: unmoved_def after_tick_def)

lemma unmoved_EvaluateSchedule:
  assumes "scheduleEnabled (st_settings w) = Inr False"
  shows "unmoved w (snd (run_state (EvaluateSchedule g env order now) w))"
proof -
  obtain r v where r: "run_state ScheduleSnapshot w = (r, v)" by (meson surj_pair)
  then have "unmoved w v \<and> (\<forall>p. r = Inr p \<longrightarrow> \<not> snd p)"
    unfolding ScheduleSnapshot_def
    by - (rule settings_query_cases [of "\<lambda>s. case scheduleCells (st_grid s) of Inl err \<Rightarrow> Inl err
      | Inr cells \<Rightarrow> (case scheduleEnabled (st_settings s) of Inl err \<Rightarrow> Inl err | Inr enabled \<Rightarrow> Inr (cells, enabled))" w],
      auto simp: unmoved_def assms split: sum.splits)
  then show ?thesis
    by (auto simp: EvaluateSchedule_def r split: sum.splits prod.splits)
qed

lemma unmoved_LoadAndApply:
  assumes "gv_mode w = ModeNoDownload"
  shows "unmoved w (snd (run_state (LoadAndApply g env) w))"
proof -
  obtain r v where r: "run_state (globalLimits g) w = (r, v)" by (meson surj_pair)
  then have v: "unmoved w v"
    using loadLimits_run [OF r [unfolded globalLimits_def]] by (auto simp: unmoved_def)
  then have "gv_mode v = ModeNoDownload" using unmoved_fields assms by metis
  with v show ?thesis
    by (auto simp: LoadAndApply_def r ApplyGlobal_def split: sum.splits)
qed

text \<open>
  C24. Switching the schedule off inside a No Download cell strands what it had parked. From then on no tick
  at any hour, and no change of the global limits however it is delivered, moves a task, asks an engine for
  anything or leaves the mode: the tasks the schedule paused stay paused, and the limits the operator sets
  wait for a schedule that is off.
\<close>

theorem schedule_off_strands:
  assumes "scheduleEnabled (st_settings w) = Inr False" and "gv_mode w = ModeNoDownload"
  shows "let w' = foldl (\<lambda>v now. snd (run_state (EvaluateSchedule g env order now) v)) w ticks;
      x = snd (run_state (ApplyGlobal g env l) w'); y = snd (run_state (LoadAndApply g env) x) in
    s_tasks y = s_tasks w \<and> w_calls y = w_calls w \<and> gv_mode y = ModeNoDownload \<and> gv_current y = gv_current w \<and>
    queryListScheduleParked y = queryListScheduleParked w"
proof -
  let ?step = "\<lambda>v now. snd (run_state (EvaluateSchedule g env order now) v)"
  have "unmoved w (foldl ?step w ticks)"
    using assms
  proof (induction ticks arbitrary: w)
    case (Cons now ticks)
    have one: "unmoved w (?step w now)" by (rule unmoved_EvaluateSchedule [OF Cons.prems(1)])
    then have "unmoved (?step w now) (foldl ?step (?step w now) ticks)"
      using Cons.prems unmoved_fields [OF one] by (intro Cons.IH) simp_all
    with one show ?case by (auto intro: unmoved_trans)
  qed simp
  note run = this
  then have mode: "gv_mode (foldl ?step w ticks) = ModeNoDownload" using unmoved_fields [OF run] assms(2) by simp
  then have "snd (run_state (ApplyGlobal g env l) (foldl ?step w ticks)) = foldl ?step w ticks"
    by (simp add: ApplyGlobal_def)
  then have "unmoved w (snd (run_state (LoadAndApply g env) (snd (run_state (ApplyGlobal g env l) (foldl ?step w ticks)))))"
    using unmoved_trans [OF run unmoved_LoadAndApply [OF mode]] by simp
  from unmoved_fields [OF this] show ?thesis
    using assms(2) by (simp add: Let_def queryListScheduleParked_def)
qed

subsection \<open>A governed world\<close>

definition demo_governor :: "string list governor" where
  "demo_governor = \<lparr>go_engines = demo_engines, go_names = [''aria2''], go_landing = [''aria2''], go_settings = True, go_tasks = True\<rparr>"

definition demo_governed :: "task list \<Rightarrow> task_event list \<Rightarrow> setting_row list \<Rightarrow> string \<Rightarrow> string list governed" where
  "demo_governed rows events settings mode = \<lparr>s_tasks = rows, s_events = events, s_files = [], s_trackers = [], s_now = 100, s_sched = [],
     s_ulid = (\<lambda>n. replicate n CHR ''a''), s_nid = 0, s_hook = False, s_hooked = [], w_eng = [], w_calls = [],
     w_lease = NewRegistry, w_deadline = None, st_settings = settings, st_grid = seeded_grid,
     gv_current = \<lparr>rl_Down = 0, rl_Up = 0\<rparr>, gv_mode = mode\<rparr>"

definition demo_running :: "task list" where
  "demo_running = [(demo_task ''a'' StateDownloading)\<lparr>t_engine_ref := Some ''1''\<rparr>, demo_task ''b'' StateQueued,
     demo_task ''c'' StateSeeding, demo_task ''d'' StatePaused]"

definition demo_parks :: "task_event list" where
  "demo_parks = [(demo_event ''e1'' 1)\<lparr>ev_task_id := ''d'', ev_code := CodeTaskSchedulePaused\<rparr>]"

theorem governor_audit_trail_witness:
  "audit_trail (demo_governed demo_running [] [] '''') (snd (run_state (EvaluateSchedule demo_governor (\<lambda>_. ret ()) rev
     \<lparr>wc_Weekday = 0, wc_Hour = 3\<rparr>) (demo_governed demo_running [] [] '''')))"
  by (rule governor_audit_trail [THEN conjunct1]) (intro io_intros)+

theorem no_download_only_pauses_witness:
  "\<exists>cs. w_calls (snd (run_state (ApplyMode demo_governor (\<lambda>_. ret ()) rev ModeNoDownload) (demo_governed demo_running [] [] ''''))) = cs \<and>
     cs \<noteq> [] \<and> (\<forall>c \<in> set cs. fst c = CallPause ''aria2:1'')"
proof -
  let ?w = "demo_governed demo_running [] [] ''''"
  have "pauses_only (park_handles ?w) ?w (snd (run_state (ApplyMode demo_governor (\<lambda>_. ret ()) rev ModeNoDownload) ?w))"
    by (rule no_download_only_pauses) (simp_all add: pausing.io_return)
  moreover have "w_calls (snd (run_state (ApplyMode demo_governor (\<lambda>_. ret ()) rev ModeNoDownload) ?w)) \<noteq> []"
    by code_simp
  moreover have "park_handles ?w \<subseteq> {''aria2:1''}"
    by (auto simp: park_handles_def demo_governed_def demo_running_def demo_task_def scheduleParkSources_def namespacedHandle_def)
  moreover have "w_calls ?w = []" by (simp add: demo_governed_def)
  ultimately show ?thesis by (auto simp: pauses_only_def subset_iff; metis)
qed

theorem no_download_parks_witness:
  "\<exists>w'. run_state (ApplyMode demo_governor (\<lambda>_. ret ()) rev ModeNoDownload) (demo_governed demo_running [] [] '''') = ([], w') \<and>
     gv_mode w' = ModeNoDownload \<and> (\<forall>r \<in> set (s_tasks w'). \<not> pausable [''aria2''] r)"
proof -
  let ?w = "demo_governed demo_running [] [] ''''"
  let ?p = "run_state (ApplyMode demo_governor (\<lambda>_. ret ()) rev ModeNoDownload) ?w"
  have "fst ?p = []" by code_simp
  then have run: "?p = ([], snd ?p)" by (simp add: prod_eq_iff)
  have "gv_mode ?w \<noteq> ModeNoDownload" "constraints_ok ?w" by code_simp+
  with no_download_parks [OF run] run show ?thesis
    by (intro exI [of _ "snd ?p"]) (simp add: demo_governor_def)
qed

theorem cell_sends_and_releases_witness:
  "\<exists>w'. run_state (ApplyMode demo_governor (\<lambda>_. ret ()) id ModeAlternative)
       (demo_governed demo_running demo_parks [demo_setting ''download_rate_limit'' (JInt 500)] ModeNoDownload) = ([], w') \<and>
     rl_Down (gv_current w') = 500 \<and> gv_mode w' = ModeAlternative \<and> t_state (s_tasks w' ! 3) = StateQueued"
proof -
  let ?w = "demo_governed demo_running demo_parks [demo_setting ''download_rate_limit'' (JInt 500)] ModeNoDownload"
  let ?p = "run_state (ApplyMode demo_governor (\<lambda>_. ret ()) id ModeAlternative) ?w"
  have "fst ?p = []" by code_simp
  then have run: "?p = ([], snd ?p)" by (simp add: prod_eq_iff)
  have side: "gv_mode ?w \<noteq> ModeAlternative" "constraints_ok ?w" "go_tasks demo_governor"
    and parked: "queryListScheduleParked ?w = [''d'']" by code_simp+
  obtain cell global cs where c: "stored_pair True (st_settings ?w) cell" "stored_pair False (st_settings ?w) global"
    "gv_current (snd ?p) = \<lparr>rl_Down = fst (Effective ModeAlternative (rl_Down cell) (rl_Down global) 0),
       rl_Up = fst (Effective ModeAlternative (rl_Up cell) (rl_Up global) 0)\<rparr>" and mode: "gv_mode (snd ?p) = ModeAlternative"
    and rows: "list_all2 (\<lambda>r r'. if t_id r \<in> set (queryListScheduleParked ?w) then \<exists>now. r' = queued_row now r else r' = r)
      (s_tasks ?w) (s_tasks (snd ?p))"
    using cell_sends_and_releases [OF run _ side] by (auto simp: Let_def)
  have "stored_int settingAltDownloadRate defaultAltDownloadRate (st_settings ?w) = Some 5242880"
    "stored_int settingDownloadRateLimit 0 (st_settings ?w) = Some 500" by code_simp+
  with c have "rl_Down (gv_current (snd ?p)) = 500"
    by (simp add: stored_pair_def Effective_def ModeAlternative_def ModeNoDownload_def)
  moreover have row: "3 < length (s_tasks ?w)" "t_id (s_tasks ?w ! 3) = ''d''" by code_simp+
  have "t_state (s_tasks (snd ?p) ! 3) = StateQueued"
    using list_all2_nthD [OF rows row(1)] row(2) by (auto simp: parked queued_row_def)
  ultimately show ?thesis using run mode by blast
qed

theorem schedule_off_strands_witness:
  "map t_state (s_tasks (snd (run_state (LoadAndApply demo_governor (\<lambda>_. ret ()))
     (snd (run_state (ApplyGlobal demo_governor (\<lambda>_. ret ()) \<lparr>rl_Down = 9, rl_Up = 9\<rparr>)
       (foldl (\<lambda>v now. snd (run_state (EvaluateSchedule demo_governor (\<lambda>_. ret ()) id now) v))
         (demo_governed demo_running demo_parks [] ModeNoDownload) [\<lparr>wc_Weekday = 0, wc_Hour = 3\<rparr>, \<lparr>wc_Weekday = 1, wc_Hour = 4\<rparr>])))))) =
   [StateDownloading, StateQueued, StateSeeding, StatePaused]"
proof -
  let ?w = "demo_governed demo_running demo_parks [] ModeNoDownload"
  have off: "scheduleEnabled (st_settings ?w) = Inr False" "gv_mode ?w = ModeNoDownload"
    by code_simp+
  have "map t_state (s_tasks ?w) = [StateDownloading, StateQueued, StateSeeding, StatePaused]"
    by (simp add: demo_governed_def demo_running_def demo_task_def)
  then show ?thesis
    by (simp only: schedule_off_strands [OF off, unfolded Let_def, THEN conjunct1])
qed

end
