(* ===== verification/ScheduleApi.thy ===== *)
theory ScheduleApi
  imports GovernorProps TaskActions
begin

section \<open>The schedule's API\<close>

text \<open>
  \<open>src/internal/api/settings_schedule.go\<close>: the handlers that read and replace the 168-cell grid. The wire
  carries integers, the store mode strings. The name of the container's zone and the wall clock at the moment
  of the call are arguments.
\<close>

record schedule_body =
  sb_Enabled :: bool
  sb_Cells :: "int list"
  sb_Timezone :: string
  sb_ActiveMode :: string

definition outside_detail :: "int \<Rightarrow> string" where
  "outside_detail c = ''cell value '' @ Itoa c @ '' is outside 0..2''"

definition CellToMode :: "int \<Rightarrow> string + string" where
  "CellToMode c =
     (if c = 0 then Inr ScheduleNoDownload else if c = 1 then Inr ScheduleDefault
      else if c = 2 then Inr ScheduleAlternative else Inl (outside_detail c))"

definition ModeToCell :: "string \<Rightarrow> int" where
  "ModeToCell m = (if m = ScheduleNoDownload then 0 else if m = ScheduleAlternative then 2 else 1)"

definition activeScheduleIndex :: "wall_clock \<Rightarrow> nat" where
  "activeScheduleIndex local = (let day = (wc_Weekday local + 6) mod 7 in day * 24 + wc_Hour local)"

definition scheduleBody :: "wall_clock \<Rightarrow> string \<Rightarrow> ('e, 'z, problem + schedule_body) site_action" where
  "scheduleBody now zone = do {
     s \<leftarrow> ScheduleSnapshot;
     ret (case s of
         Inl _ \<Rightarrow> Inl internalFailure
       | Inr (modes, enabled) \<Rightarrow> Inr \<lparr>sb_Enabled = enabled, sb_Cells = map ModeToCell modes, sb_Timezone = zone,
           sb_ActiveMode = modes ! activeScheduleIndex now\<rparr>)
   }"

definition GetSchedule :: "wall_clock \<Rightarrow> string \<Rightarrow> ('e, 'z, problem + schedule_body) site_action" where
  "GetSchedule now zone = scheduleBody now zone"

fun wire_cells :: "int list \<Rightarrow> string + string list" where
  "wire_cells [] = Inr []"
| "wire_cells (c # cs) = (case CellToMode c of
     Inl err \<Rightarrow> Inl err
   | Inr mode \<Rightarrow> (case wire_cells cs of Inl err \<Rightarrow> Inl err | Inr modes \<Rightarrow> Inr (mode # modes)))"

definition PutSchedule ::
  "schedule_body \<Rightarrow> wall_clock \<Rightarrow> string \<Rightarrow> ('e, 'z, problem + schedule_body) site_action" where
  "PutSchedule body now zone =
     (if length (sb_Cells body) \<noteq> 168
      then ret (Inl (Problem SlugValidationFailed 422 ''cells must hold exactly 168 entries''))
      else (case wire_cells (sb_Cells body) of
          Inl err \<Rightarrow> ret (Inl (Problem SlugValidationFailed 422 err))
        | Inr cells \<Rightarrow> do {
            r \<leftarrow> ReplaceSchedule (sb_Enabled body) cells;
            case r of Inl _ \<Rightarrow> ret (Inl internalFailure) | Inr _ \<Rightarrow> scheduleBody now zone
          }))"

lemma wire_cells_modes:
  "wire_cells cs = Inr modes \<Longrightarrow> map ModeToCell modes = cs \<and> length modes = length cs"
  by (induction cs arbitrary: modes)
    (auto simp: CellToMode_def ModeToCell_def ScheduleNoDownload_def ScheduleAlternative_def ScheduleDefault_def
      split: sum.splits if_splits)

lemma wire_cells_refused: "wire_cells cs = Inl err \<longleftrightarrow> (\<exists>k < length cs. err = outside_detail (cs ! k) \<and>
    cs ! k \<notin> {0..2} \<and> (\<forall>j < k. cs ! j \<in> {0..2}))"
proof (induction cs)
  case (Cons c cs)
  show ?case
  proof (cases "c \<in> {0..2}")
    case True
    then have "wire_cells (c # cs) = Inl err \<longleftrightarrow> wire_cells cs = Inl err"
      by (auto simp: CellToMode_def split: sum.splits)
    with Cons.IH True show ?thesis by (auto simp: Ex_less_Suc2 All_less_Suc2)
  next
    case False
    then have "c \<noteq> 0 \<and> c \<noteq> 1 \<and> c \<noteq> 2" by auto
    with False show ?thesis by (auto simp: CellToMode_def Ex_less_Suc2 All_less_Suc2)
  qed
qed simp

lemma ModeToCell_range: "ModeToCell m \<in> {0..2}"
  by (simp add: ModeToCell_def)

lemma PutSchedule_refused:
  assumes "length (sb_Cells body) \<noteq> 168 \<or> (\<exists>c \<in> set (sb_Cells body). c \<notin> {0..2})"
  shows "\<exists>pr. run_state (PutSchedule body now zone) w = (Inl pr, w) \<and> pr_Status pr = 422"
proof (cases "wire_cells (sb_Cells body)")
  case (Inr modes)
  have "c \<in> {0..2}" if "c \<in> set (sb_Cells body)" for c
    using wire_cells_modes [OF Inr] that by (metis ModeToCell_range image_eqI imageE list.set_map)
  with assms show ?thesis by (auto simp: PutSchedule_def Problem_def)
qed (auto simp: PutSchedule_def Problem_def)

lemma modes_of_store:
  "ScheduleNoDownload = ModeNoDownload" "ScheduleDefault = ModeDefault" "ScheduleAlternative = ModeAlternative"
  by (simp_all add: ScheduleNoDownload_def ModeNoDownload_def ScheduleDefault_def ModeDefault_def
      ScheduleAlternative_def ModeAlternative_def)

lemma ScheduleSnapshot_after:
  assumes "scheduleCells (st_grid w) = Inr cells" and "scheduleEnabled (st_settings w) = Inr enabled"
  obtains dt rest where "run_state ScheduleSnapshot w \<in>
    {(Inl (SetStore SErrDB), after_tick dt rest w), (Inr (cells, enabled), after_tick dt rest w)}"
  unfolding ScheduleSnapshot_def
  by (rule settings_query_cases [of "\<lambda>s. case scheduleCells (st_grid s) of Inl err \<Rightarrow> Inl err
      | Inr cells \<Rightarrow> (case scheduleEnabled (st_settings s) of Inl err \<Rightarrow> Inl err | Inr enabled \<Rightarrow> Inr (cells, enabled))" w])
    (use assms in auto)

lemma EvaluateSchedule_after:
  assumes "scheduleCells (st_grid w) = Inr cells" and "scheduleEnabled (st_settings w) = Inr enabled"
    and "known_mode (activeCell cells now)"
  shows "\<exists>dt rest. run_state (EvaluateSchedule g env order now) w \<in>
    {([GovSchedule (SetStore SErrDB)], after_tick dt rest w),
     if enabled then run_state (ApplyMode g env order (activeCell cells now)) (after_tick dt rest w) else ([], after_tick dt rest w)}"
proof -
  obtain dt rest where "run_state ScheduleSnapshot w \<in>
      {(Inl (SetStore SErrDB), after_tick dt rest w), (Inr (cells, enabled), after_tick dt rest w)}"
    by (rule ScheduleSnapshot_after [OF assms(1,2)])
  then show ?thesis
    using assms(3)
    by (intro exI [of _ dt] exI [of _ rest]) (auto simp: EvaluateSchedule_def Let_def known_mode_def modes_of_store)
qed

text \<open>
  C23. The grid the operator stores is the grid that is applied. A replacement that the API answers with
  success answers the very cells and flag that were sent, the zone they are read in and the mode of the cell
  of the hour; and the evaluation of that same hour, unless its read meets a fault, applies exactly that
  reported mode when the schedule is on, and does nothing at all when it is off.
\<close>

theorem schedule_is_applied:
  assumes "run_state (PutSchedule body now zone) w = (Inr resp, w')" and "length (st_grid w) = 168" and "wc_Hour now < 24"
  shows "sb_Cells resp = sb_Cells body \<and> sb_Enabled resp = sb_Enabled body \<and> sb_Timezone resp = zone \<and>
    ModeToCell (sb_ActiveMode resp) = sb_Cells body ! activeScheduleIndex now \<and>
    (\<exists>dt rest. run_state (EvaluateSchedule g env order now) w' \<in>
      {([GovSchedule (SetStore SErrDB)], after_tick dt rest w'),
       if sb_Enabled body then run_state (ApplyMode g env order (sb_ActiveMode resp)) (after_tick dt rest w')
       else ([], after_tick dt rest w')})"
proof -
  from assms(1) obtain cells where len: "length (sb_Cells body) = 168" and cells: "wire_cells (sb_Cells body) = Inr cells"
    by (auto simp: PutSchedule_def split: if_splits sum.splits)
  obtain r w1 where run: "run_state (ReplaceSchedule (sb_Enabled body) cells) w = (r, w1)" by (meson surj_pair)
  with assms(1) len cells have r: "r = Inr ()" and read: "run_state (scheduleBody now zone) w1 = (Inr resp, w')"
    by (auto simp: PutSchedule_def split: sum.splits)
  note modes = wire_cells_modes [OF cells]
  have known: "\<forall>m \<in> set cells. known_mode m"
    and grid: "scheduleCells (st_grid w1) = Inr cells" "scheduleEnabled (st_settings w1) = Inr (sb_Enabled body)"
    using replaced_snapshot [OF assms(2) _ run] modes len r by auto
  obtain dt rest where "w' = after_tick dt rest w1" and resp: "resp = \<lparr>sb_Enabled = sb_Enabled body, sb_Cells = map ModeToCell cells,
      sb_Timezone = zone, sb_ActiveMode = cells ! activeScheduleIndex now\<rparr>"
    by (rule ScheduleSnapshot_after [OF grid]) (use read in \<open>auto simp: scheduleBody_def\<close>)
  moreover have index: "activeScheduleIndex now < length cells" "activeIndex now = activeScheduleIndex now"
    using assms(3) modes len by (simp_all add: activeScheduleIndex_def activeIndex_def Let_def)
  moreover have "ModeToCell (cells ! activeScheduleIndex now) = sb_Cells body ! activeScheduleIndex now"
    using modes index(1) nth_map by metis
  moreover have active: "activeCell cells now = sb_ActiveMode resp" by (simp add: activeCell_def index(2) resp)
  have "scheduleCells (st_grid w') = Inr cells" "scheduleEnabled (st_settings w') = Inr (sb_Enabled body)"
    "known_mode (activeCell cells now)"
    using grid \<open>w' = after_tick dt rest w1\<close> known index by (simp_all add: activeCell_def)
  note EvaluateSchedule_after [OF this, of g env order, unfolded active]
  ultimately show ?thesis
    using modes unfolding resp by auto
qed

definition demo_body :: schedule_body where
  "demo_body = \<lparr>sb_Enabled = True, sb_Cells = replicate 168 0, sb_Timezone = [], sb_ActiveMode = []\<rparr>"

theorem schedule_is_applied_witness:
  "\<exists>resp w'. run_state (PutSchedule demo_body \<lparr>wc_Weekday = 1, wc_Hour = 5\<rparr> ''UTC'') (demo_governed [] [] [] '''') = (Inr resp, w') \<and>
     sb_Cells resp = replicate 168 0 \<and> ModeToCell (sb_ActiveMode resp) = 0"
proof -
  let ?w = "demo_governed [] [] [] ''''" and ?now = "\<lparr>wc_Weekday = 1, wc_Hour = 5\<rparr>"
  let ?cells = "replicate 168 ScheduleNoDownload"
  have "wire_cells (replicate n 0) = Inr (replicate n ScheduleNoDownload)" for n
    by (induction n) (simp_all add: CellToMode_def)
  then have cells: "wire_cells (sb_Cells demo_body) = Inr ?cells" "length (sb_Cells demo_body) = 168"
    by (simp_all add: demo_body_def)
  obtain r w1 where run: "run_state (ReplaceSchedule True ?cells) ?w = (r, w1)" by (meson surj_pair)
  obtain grid where "replace_cells 100 0 ?cells seeded_grid = Some grid"
    using replace_cells_total [OF seeded_grid_full(1), of ?cells 0] seeded_grid_full(2) by auto
  moreover have "\<not> list_ex (\<lambda>m. \<not> known_mode m) ?cells"
    by (simp add: list_ex_iff known_mode_def)
  ultimately have r: "r = Inr ()" and sched: "s_sched w1 = []"
    using run by (auto simp: ReplaceSchedule_def settings_tx_def tx_def tick_def demo_governed_def Let_def
        upsert_setting_def NewID_def queryUpsertSetting_def constraints_ok_def live_keys_def map_filter_simps)
  have grid: "length (st_grid ?w) = 168" by (simp add: demo_governed_def seeded_grid_def)
  from replaced_snapshot [OF grid _ run] r have "scheduleCells (st_grid w1) = Inr ?cells" "scheduleEnabled (st_settings w1) = Inr True"
    by simp_all
  then have "\<exists>p. run_state (PutSchedule demo_body ?now ''UTC'') ?w = (Inr (fst p), snd p)"
    using run r sched cells
    by (auto simp: PutSchedule_def demo_body_def scheduleBody_def ScheduleSnapshot_def settings_query_def query_def tick_def)
  then obtain resp w' where "run_state (PutSchedule demo_body ?now ''UTC'') ?w = (Inr resp, w')" by blast
  with schedule_is_applied [OF this grid] show ?thesis
    by (auto simp: demo_body_def activeScheduleIndex_def)
qed

end
