(* ===== verification/SettingsImport.thy ===== *)
theory SettingsImport
  imports SafePath ScheduleApi
begin

section \<open>Importing a settings document\<close>

text \<open>
  \<open>src/internal/api/settings_export.go\<close>, the import of the scalar members: the check of a settings value,
  the loop over the members, the grid, and the handler of \<open>POST /settings/import\<close> around them.

  \<^item> A value of \<open>map[string]any\<close> is what \<open>encoding/json\<close> makes of it (\<open>any_value\<close>): a number is a float64, here
    by its exact value; a map is the list of its entries.
  \<^item> The whole import is one transaction. The five collections of rows (categories, indexers, feeds, rules,
    watch folders) write tables of their own, which the state of this theory does not have: the argument
    \<open>rows_ok\<close> of the handler says whether they let the import go on.
  \<^item> Of a refused member the report has its key and problem type, not the detail text.
\<close>

datatype any_value =
    AnyNil | AnyBool bool | AnyNum rat | AnyStr string | AnyList "any_value list" | AnyMap "(string \<times> any_value) list"

definition exportDocumentVersion :: int where "exportDocumentVersion = 1"
definition SlugConflict :: string where "SlugConflict = ''/problems/conflict''"

subsection \<open>One value\<close>

definition Trunc :: "rat \<Rightarrow> int" where
  "Trunc f = (if f < 0 then \<lceil>f\<rceil> else \<lfloor>f\<rfloor>)"

definition importJSONInt :: "any_value \<Rightarrow> int option" where
  "importJSONInt v = (case v of
      AnyNum f \<Rightarrow>
        if f \<noteq> of_int (Trunc f) \<or> f < - 9223372036854775808 \<or> 9223372036854775808 \<le> f then None else Some (Trunc f)
    | _ \<Rightarrow> None)"

definition canonicalMinFreeSpace :: "any_value \<Rightarrow> string + json_text" where
  "canonicalMinFreeSpace v = (case v of
      AnyMap m \<Rightarrow>
        if list_ex (\<lambda>(k, x). \<not> canonical_path k \<or> (case importJSONInt x of None \<Rightarrow> True | Some n \<Rightarrow> n < 0)) m
        then Inl SlugValidationFailed
        else Inr (Json (JObj (sorted_map (map (\<lambda>(k, x). (k, JInt (the (importJSONInt x)))) m))))
    | _ \<Rightarrow> Inl SlugValidationFailed)"

definition canonicalSettingValue ::
  "'e files \<Rightarrow> 'e \<Rightarrow> string list \<Rightarrow> string \<Rightarrow> any_value \<Rightarrow> string + json_text" where
  "canonicalSettingValue fs st roots key v =
     (let validation = Inl SlugValidationFailed in
      if key \<in> {settingDownloadRateLimit, settingUploadRateLimit, settingAltDownloadRate, settingAltUploadRate,
          Settings.settingMaxActiveTotal, Settings.settingMaxActivePerEngine}
      then (case importJSONInt v of None \<Rightarrow> validation | Some n \<Rightarrow> if n < 0 then validation else Inr (Json (JInt n)))
      else if key = settingRSSIntervalS
      then (case importJSONInt v of None \<Rightarrow> validation | Some n \<Rightarrow> if n < 300 then validation else Inr (Json (JInt n)))
      else if key \<in> {settingScheduleEnabled, settingRSSEnabled, settingAutoExtract, settingConfirmOnDelete}
      then (case v of AnyBool b \<Rightarrow> Inr (Json (JBool b)) | _ \<Rightarrow> validation)
      else if key = settingProcessOrder
      then if v \<noteq> AnyStr ''by_date_created'' then validation else Inr (Json (JStr ''by_date_created''))
      else if key = settingDefaultDestination
      then (case v of
          AnyStr raw \<Rightarrow> (case ResolveDestination fs st roots raw of
              None \<Rightarrow> Inl SlugPathRejected
            | Some resolved \<Rightarrow> Inr (Json (JStr resolved)))
        | _ \<Rightarrow> validation)
      else if key = settingMinFreeSpace then canonicalMinFreeSpace v
      else validation)"

subsection \<open>The report\<close>

record counts =
  co_Created :: nat
  co_Updated :: nat
  co_Rejected :: nat

record rejected_row =
  rj_Key :: string
  rj_Type :: string

record import_report =
  ir_settings :: counts
  ir_schedule :: counts
  ir_Rejected :: "rejected_row list"

definition no_counts :: counts where "no_counts = \<lparr>co_Created = 0, co_Updated = 0, co_Rejected = 0\<rparr>"

definition new_report :: import_report where
  "new_report = \<lparr>ir_settings = no_counts, ir_schedule = no_counts, ir_Rejected = []\<rparr>"

definition reject :: "string \<Rightarrow> string \<Rightarrow> import_report \<Rightarrow> import_report" where
  "reject key typ report = report\<lparr>ir_settings := (ir_settings report)\<lparr>co_Rejected := Suc (co_Rejected (ir_settings report))\<rparr>,
     ir_Rejected := ir_Rejected report @ [\<lparr>rj_Key = key, rj_Type = typ\<rparr>]\<rparr>"

definition count_written :: "bool \<Rightarrow> import_report \<Rightarrow> import_report" where
  "count_written exists_row report = (let c = ir_settings report in
     report\<lparr>ir_settings := (if exists_row then c\<lparr>co_Updated := Suc (co_Updated c)\<rparr> else c\<lparr>co_Created := Suc (co_Created c)\<rparr>)\<rparr>)"

subsection \<open>The members\<close>

fun import_members ::
  "'e files \<Rightarrow> string list \<Rightarrow> (string \<times> any_value) list \<Rightarrow> import_report \<times> ('e, 'z) site_scheme \<Rightarrow>
   import_report \<times> ('e, 'z) site_scheme" where
  "import_members fs roots [] (report, s) = (report, s)"
| "import_members fs roots ((key, v) # ms) (report, s) =
     (case canonicalSettingValue fs (w_eng s) roots key v of
        Inl typ \<Rightarrow> import_members fs roots ms (reject key typ report, s)
      | Inr encoded \<Rightarrow> import_members fs roots ms
          (count_written (key \<in> set (map sr_key (st_settings s))) report, upsert_setting key encoded s))"

text \<open>The keys of the map in order.\<close>

definition importSettings ::
  "'e files \<Rightarrow> string list \<Rightarrow> (string \<times> any_value) list \<Rightarrow> import_report \<times> ('e, 'z) site_scheme \<Rightarrow>
   import_report \<times> ('e, 'z) site_scheme" where
  "importSettings fs roots settings = import_members fs roots (sorted_map settings)"

fun import_cells :: "int \<Rightarrow> nat \<Rightarrow> int list \<Rightarrow> grid_row list \<Rightarrow> grid_row list option" where
  "import_cells now i [] grid = Some grid"
| "import_cells now i (c # cells) grid = (case CellToMode c of
      Inl _ \<Rightarrow> None
    | Inr mode \<Rightarrow> (case queryReplaceScheduleCell mode now (int i div 24) (int i mod 24) grid of
        (grid', affected) \<Rightarrow> if affected \<noteq> 1 then None else import_cells now (Suc i) cells grid'))"

definition importSchedule ::
  "bool \<Rightarrow> int list \<Rightarrow> import_report \<times> ('e, 'z) site_scheme \<Rightarrow> (import_report \<times> ('e, 'z) site_scheme) option" where
  "importSchedule enabled cells = (\<lambda>(report, s).
     if length cells \<noteq> 168 then None
     else let s' = upsert_setting settingScheduleEnabled (Json (JBool enabled)) s in
       (case import_cells (s_now s) 0 cells (st_grid s') of
          None \<Rightarrow> None
        | Some grid \<Rightarrow> Some (report\<lparr>ir_schedule := (ir_schedule report)\<lparr>co_Updated := Suc (co_Updated (ir_schedule report))\<rparr>\<rparr>,
            s'\<lparr>st_grid := grid\<rparr>)))"

subsection \<open>The handler\<close>

record import_document =
  id_Version :: int
  id_Settings :: "(string \<times> any_value) list"
  id_Enabled :: bool
  id_Cells :: "int list"

definition applyImport ::
  "'e files \<Rightarrow> string list \<Rightarrow> bool \<Rightarrow> import_document \<Rightarrow> ('e, 'z) site_scheme \<Rightarrow> (import_report \<times> ('e, 'z) site_scheme) option" where
  "applyImport fs roots rows_ok doc s =
     (case importSettings fs roots (id_Settings doc) (new_report, s) of (report, s') \<Rightarrow>
        if \<not> rows_ok then None else importSchedule (id_Enabled doc) (id_Cells doc) (report, s'))"

definition Import ::
  "'e files \<Rightarrow> string list \<Rightarrow> bool \<Rightarrow> import_document \<Rightarrow> bool option \<Rightarrow> ('e, 'z, problem + import_report) site_action" where
  "Import fs roots rows_ok doc dry_run =
     (if exportDocumentVersion < id_Version doc
      then ret (Inl (Problem SlugConflict 409 ''document_version is newer than this binary understands''))
      else let dryRun = (dry_run \<noteq> Some False) in do {
        r \<leftarrow> tx (\<lambda>s. case applyImport fs roots rows_ok doc s of
            None \<Rightarrow> (Rollback (Inr None), s)
          | Some (report, s') \<Rightarrow> if dryRun then (Rollback (Inr (Some report)), s) else (Commit (Some report), s'));
        ret (case r of Inr (Some report) \<Rightarrow> Inr report | _ \<Rightarrow> Inl internalFailure)
      })"

subsection \<open>Imported values have their documented type\<close>

lemma importJSONInt_range: "importJSONInt v = Some n \<Longrightarrow> int64 n"
  by (auto simp: importJSONInt_def int64_def split: any_value.splits if_splits)

lemma ResolveDestination_clean:
  assumes "eval_clean fs st" and "\<And>wd. os_Getwd fs = Some wd \<Longrightarrow> IsAbs wd" and "\<forall>rt \<in> set roots. IsAbs rt"
    and "ResolveDestination fs st roots raw = Some r"
  shows "canonical_path r"
proof (cases "raw = ''''")
  case True
  then have "roots \<noteq> []" "r = Clean (hd roots)"
    using assms(4) by (auto simp: ResolveDestination_def ResolveDestinationRoot_def split: if_splits)
  then show ?thesis using clean_abs_Clean assms(3) by (simp add: clean_abs_def canonical_path_def)
next
  case False
  with ResolveDestination_contained [OF assms(1-3) False] assms(4)
  obtain full where "Abs fs raw = Some full" "resolveExisting fs st full = Some r" by blast
  then show ?thesis
    using resolveExisting_clean [OF assms(1) clean_abs_Abs [OF assms(2)]] by (simp add: clean_abs_def canonical_path_def)
qed

lemma canonicalMinFreeSpace_domain:
  assumes "canonicalMinFreeSpace v = Inr e"
  shows "setting_domain cap settingMinFreeSpace e"
proof -
  obtain m where m: "v = AnyMap m" by (rule any_value.exhaust [of v]) (use assms in \<open>auto simp: canonicalMinFreeSpace_def\<close>)
  let ?es = "map (\<lambda>(k, x). (k, JInt (the (importJSONInt x)))) m"
  have ok: "\<forall>(k, x) \<in> set m. canonical_path k \<and> (\<exists>n. importJSONInt x = Some n \<and> 0 \<le> n)" and e: "e = Json (JObj (sorted_map ?es))"
    using assms by (auto simp: m canonicalMinFreeSpace_def list_ex_iff split: if_splits option.splits)
  have "list_all (\<lambda>(k, x). canonical_path k \<and> (case x of JInt n \<Rightarrow> 0 \<le> n \<and> int64 n | _ \<Rightarrow> False)) (sorted_map ?es)"
    using ok sorted_map_facts(3) [of ?es] importJSONInt_range by (fastforce simp: list_all_iff)
  then show ?thesis
    using sorted_map_facts(1,2) [of ?es] by (simp add: e setting_domain_def setting_key_defs)
qed

lemma int_domain:
  assumes "key \<in> {settingDownloadRateLimit, settingUploadRateLimit, settingAltDownloadRate, settingAltUploadRate,
      Settings.settingMaxActiveTotal, Settings.settingMaxActivePerEngine}"
    and "0 \<le> n" and "int64 n" and "n \<le> cap"
  shows "setting_domain cap key (Json (JInt n))"
  using assms by (elim insertE emptyE; hypsubst) (simp_all add: setting_domain_def setting_key_defs)

lemma canonicalSettingValue_domain:
  assumes fs: "eval_clean fs st" "\<And>wd. os_Getwd fs = Some wd \<Longrightarrow> IsAbs wd" "\<forall>rt \<in> set roots. IsAbs rt"
    and cap: "9223372036854775807 \<le> cap" and v: "canonicalSettingValue fs st roots key v = Inr e"
  shows "setting_domain cap key e"
proof (cases rule: first_of [where A = "key \<in> {settingDownloadRateLimit, settingUploadRateLimit, settingAltDownloadRate,
      settingAltUploadRate, Settings.settingMaxActiveTotal, Settings.settingMaxActivePerEngine}"
      and B = "key = settingRSSIntervalS" and C = "key \<in> {settingScheduleEnabled, settingRSSEnabled, settingAutoExtract, settingConfirmOnDelete}"
      and D = "key = settingProcessOrder" and E = "key = settingDefaultDestination" and F = "key = settingMinFreeSpace"
      and G = "key = settingExtractPasswords" and H = "key = ''''"])
  case ints: 1
  then obtain n where "importJSONInt v = Some n" "0 \<le> n" "e = Json (JInt n)"
    using v unfolding canonicalSettingValue_def Let_def if_P [OF ints] by (auto split: option.splits if_splits)
  moreover from this have "int64 n" "n \<le> cap" using importJSONInt_range cap by (force simp: int64_def)+
  ultimately show ?thesis using int_domain [OF ints] by simp
next
  case interval: 2
  then obtain n where "importJSONInt v = Some n" "300 \<le> n" "e = Json (JInt n)"
    using v unfolding canonicalSettingValue_def Let_def if_not_P [OF interval(1)] if_P [OF interval(2)]
    by (auto split: option.splits if_splits)
  with interval(2) importJSONInt_range show ?thesis by (simp add: setting_domain_def setting_key_defs)
next
  case flag: 3
  then obtain b where e: "e = Json (JBool b)"
    using v unfolding canonicalSettingValue_def Let_def if_not_P [OF flag(1)] if_not_P [OF flag(2)] if_P [OF flag(3)]
    by (auto split: any_value.splits)
  show ?thesis using flag(3) unfolding e by (elim insertE emptyE) (simp_all add: setting_domain_def setting_key_defs)
next
  case order: 4
  then have "e = Json (JStr ''by_date_created'')"
    using v unfolding canonicalSettingValue_def Let_def if_not_P [OF order(1)] if_not_P [OF order(2)] if_not_P [OF order(3)]
      if_P [OF order(4)] by (auto split: if_splits)
  then show ?thesis unfolding order(4) by (simp add: setting_domain_def setting_key_defs)
next
  case path: 5
  then obtain raw r where "ResolveDestination fs st roots raw = Some r" and e: "e = Json (JStr r)"
    using v unfolding canonicalSettingValue_def Let_def if_not_P [OF path(1)] if_not_P [OF path(2)] if_not_P [OF path(3)]
      if_not_P [OF path(4)] if_P [OF path(5)] by (auto split: any_value.splits option.splits)
  then have "canonical_path r" using ResolveDestination_clean [OF fs] by blast
  moreover from this have "r \<noteq> '''' \<and> r \<noteq> redacted" by (auto simp: canonical_path_def IsAbs_iff redacted_def)
  ultimately show ?thesis unfolding path(5) e by (simp add: setting_domain_def setting_key_defs)
next
  case floors: 6
  then have "canonicalMinFreeSpace v = Inr e"
    using v unfolding canonicalSettingValue_def Let_def if_not_P [OF floors(1)] if_not_P [OF floors(2)] if_not_P [OF floors(3)]
      if_not_P [OF floors(4)] if_not_P [OF floors(5)] if_P [OF floors(6)] by simp
  then show ?thesis unfolding floors(6) by (rule canonicalMinFreeSpace_domain)
next
  case other: 7
  show ?thesis
    using v unfolding canonicalSettingValue_def Let_def if_not_P [OF other(1)] if_not_P [OF other(2)] if_not_P [OF other(3)]
      if_not_P [OF other(4)] if_not_P [OF other(5)] if_not_P [OF other(6)] by simp
next
  case other: 8
  show ?thesis
    using v unfolding canonicalSettingValue_def Let_def if_not_P [OF other(1)] if_not_P [OF other(2)] if_not_P [OF other(3)]
      if_not_P [OF other(4)] if_not_P [OF other(5)] if_not_P [OF other(6)] by simp
next
  case other: 9
  show ?thesis
    using v unfolding canonicalSettingValue_def Let_def if_not_P [OF other(1)] if_not_P [OF other(2)] if_not_P [OF other(3)]
      if_not_P [OF other(4)] if_not_P [OF other(5)] if_not_P [OF other(6)] by simp
qed

lemma import_members_typed:
  assumes fs: "\<And>wd. os_Getwd fs = Some wd \<Longrightarrow> IsAbs wd" "\<forall>rt \<in> set roots. IsAbs rt" and cap: "9223372036854775807 \<le> cap"
  shows "settings_typed cap s \<Longrightarrow> eval_clean fs (w_eng s) \<Longrightarrow> import_members fs roots ms (report, s) = (report', s') \<Longrightarrow>
    settings_typed cap s'"
proof (induction ms arbitrary: report s)
  case (Cons m ms)
  obtain key v where m: "m = (key, v)" by (cases m)
  show ?case
  proof (cases "canonicalSettingValue fs (w_eng s) roots key v")
    case (Inl why)
    with Cons show ?thesis by (simp add: m)
  next
    case (Inr e)
    have "settings_typed cap (upsert_setting key e s)"
      by (rule settings_typed_upsert [OF Cons.prems(1) canonicalSettingValue_domain [OF Cons.prems(2) fs cap Inr]])
    moreover have "w_eng (upsert_setting key e s) = w_eng s" by (simp add: upsert_setting_def NewID_def)
    ultimately show ?thesis using Cons.IH Cons.prems by (simp add: m Inr)
  qed
qed simp

lemma Import_typed:
  assumes fs: "eval_clean fs (w_eng w)" "\<And>wd. os_Getwd fs = Some wd \<Longrightarrow> IsAbs wd" "\<forall>rt \<in> set roots. IsAbs rt"
    and cap: "9223372036854775807 \<le> cap" and typed: "settings_typed cap w"
  shows "settings_typed cap (snd (run_state (Import fs roots rows_ok doc dry_run) w))"
proof -
  have step: "settings_typed cap s'" if "applyImport fs roots rows_ok doc (after_tick dt rest w) = Some (report, s')" for dt rest report s'
  proof -
    obtain rep1 s1 where "import_members fs roots (sorted_map (id_Settings doc)) (new_report, after_tick dt rest w) = (rep1, s1)" by fastforce
    moreover have "settings_typed cap (after_tick dt rest w)" "eval_clean fs (w_eng (after_tick dt rest w))"
      using fs(1) typed by (simp_all add: after_tick_def settings_typed_def)
    ultimately have "settings_typed cap s1" and
      "import_members fs roots (sorted_map (id_Settings doc)) (new_report, after_tick dt rest w) = (rep1, s1)"
      using import_members_typed [OF fs(2,3) cap] by blast+
    then show ?thesis
      using that by (auto simp: applyImport_def importSettings_def importSchedule_def Let_def setting_domain_flag
          intro!: settings_typed_upsert split: if_splits option.splits)
  qed
  obtain f dt rest where t: "run_state tick w = (f, after_tick dt rest w)" by (rule tick_cases)
  show ?thesis
    using typed step [of dt rest]
    by (auto simp: Import_def run_tx_tick [OF t] Let_def State_Monad.bind_def split: option.splits prod.splits if_splits)
qed

text \<open>
  C34. The settings table is well typed. A table whose values have their documented type and range keeps them
  through a PATCH of the settings with any members, well-formed or not, a replacement of the schedule, an
  appended password and an import of a document, under any database fault; and over such a table the typed
  view is always readable: the read fails for a database fault only, and its values are in their ranges. The
  bound of the two limits of active tasks is the documented 2147483647, or any larger one, for all of them
  but the import, which bounds them by the width of the integer only. The roots and the working directory are
  absolute, and \<open>EvalSymlinks\<close> answers cleaned absolute paths.
\<close>

theorem settings_well_typed:
  assumes "settings_typed cap w" and "2147483647 \<le> cap"
    and "eval_clean fs (w_eng w)" and "\<And>wd. os_Getwd fs = Some wd \<Longrightarrow> IsAbs wd" and "\<forall>rt \<in> set roots. IsAbs rt"
  shows "settings_typed cap (snd (run_state (PutSettings patch) w)) \<and>
    settings_typed cap (snd (run_state (ReplaceSchedule enabled cells) w)) \<and>
    settings_typed cap (snd (run_state (AppendExtractPassword pw) w)) \<and>
    (9223372036854775807 \<le> cap \<longrightarrow> settings_typed cap (snd (run_state (Import fs roots rows_ok doc dry_run) w))) \<and>
    (case fst (run_state GetSettings w) of Inl err \<Rightarrow> err = SetStore SErrDB | Inr st \<Rightarrow> in_documented_range cap st)"
  using PutSettings_typed [OF assms(1,2)] ReplaceSchedule_typed [OF assms(1)] AppendExtractPassword_typed [OF assms(1)]
    Import_typed [OF assms(3-5) _ assms(1)] GetSettings_typed [OF assms(1,2)]
  by auto

definition demo_document :: import_document where
  "demo_document = \<lparr>id_Version = 1, id_Settings = [(''max_active_total'', AnyNum 2147483648), (''rss_interval_s'', AnyNum 60)],
     id_Enabled = True, id_Cells = replicate 168 1\<rparr>"

text \<open>An import stores a limit that a PATCH refuses as out of range.\<close>

lemma import_exceeds_patch:
  "canonicalSettingValue demo_files [] [''/data''] ''max_active_total'' (AnyNum 2147483648) = Inr (Json (JInt 2147483648)) \<and>
   canonicalSetting ''max_active_total'' \<lparr>rm_bytes = ''2147483648'', rm_value = Json (JInt 2147483648)\<rparr> =
     Inl (ErrSettingOutOfRange ''max_active_total'')"
  by (simp add: canonicalSettingValue_def canonicalSetting_def importJSONInt_def Trunc_def setting_key_defs int64_def)

theorem settings_well_typed_witness:
  "settings_typed 9223372036854775807
     (snd (run_state (Import demo_files [''/data''] True demo_document (Some False)) (demo_site [] [])))"
proof -
  have "settings_typed 9223372036854775807 (demo_site [] [])" by (simp add: settings_typed_def demo_site_def)
  moreover have "eval_clean demo_files (w_eng (demo_site [] []))" by (rule demo_eval_clean)
  moreover have "\<And>wd. os_Getwd demo_files = Some wd \<Longrightarrow> IsAbs wd" by (simp add: demo_files_def IsAbs_iff)
  moreover have "\<forall>rt \<in> set [''/data'']. IsAbs rt" by (simp add: IsAbs_iff)
  ultimately show ?thesis
    using settings_well_typed [of 9223372036854775807 "demo_site [] []" demo_files "[''/data'']"] by auto
qed

end
