(* ===== verification/Infohash.thy ===== *)
theory Infohash
  imports UriProps StoreProps
begin

section \<open>BitTorrent identity in the store\<close>

text \<open>
  \<open>src/internal/store/tasks_infohash.go\<close>: the pair of infohash columns, the lookup that treats either hash as
  the torrent, the write-back once metadata resolves, and the pause of a task whose metadata turns out to be
  a torrent that another live task holds. Transactions are those of the task store.
\<close>

datatype infohash_error =
    IhStore store_error | IhMalformed | IhRefused | ErrDuplicateInfohash

text \<open>A transaction whose body answers with an error of its own: \<open>None\<close> rolls back.\<close>

definition own_tx :: "('z store_scheme \<Rightarrow> ('e + 'a) \<times> 'z store_scheme option) \<Rightarrow> ('z store_scheme, store_error + ('e + 'a)) action" where
  "own_tx body = tx (\<lambda>s. case body s of
      (r, None) \<Rightarrow> (Rollback (Inr r), s) | (r, Some s') \<Rightarrow> (Commit r, s'))"

definition flat :: "(store_error \<Rightarrow> 'e) \<Rightarrow> store_error + ('e + 'a) \<Rightarrow> 'e + 'a" where
  "flat f r = (case r of Inl err \<Rightarrow> Inl (f err) | Inr x \<Rightarrow> x)"

definition errorCodeTorrentDuplicate :: string where "errorCodeTorrentDuplicate = ''torrent_duplicate''"
definition CodeTaskDuplicatePaused :: string where "CodeTaskDuplicatePaused = ''task.duplicate_paused''"
definition messageTaskDuplicatePaused :: string where
  "messageTaskDuplicatePaused = ''metadata resolved to a torrent another task already holds; paused without deleting anything''"

definition duplicatePauseFromStates :: "task_state list" where
  "duplicatePauseFromStates = [StateQueued, StateDownloading, StateChecking, StateSeeding, StateExtracting, StateMoving, StateError]"

subsection \<open>Lookups\<close>

text \<open>An empty argument never matches; a removed task holds nothing.\<close>

definition holds_infohash :: "string \<Rightarrow> string \<Rightarrow> task \<Rightarrow> bool" where
  "holds_infohash v1 v2 r \<longleftrightarrow>
     ((t_infohash_v1 r = Some v1 \<and> v1 \<noteq> '''') \<or> (t_infohash_v2 r = Some v2 \<and> v2 \<noteq> '''')) \<and> t_state r \<noteq> StateRemoved"

definition queryFindTaskByInfohash :: "string \<Rightarrow> string \<Rightarrow> task list \<Rightarrow> task option" where
  "queryFindTaskByInfohash v1 v2 rows = sql_find (holds_infohash v1 v2) rows"

definition queryTaskIDByEngineRef :: "string \<Rightarrow> string \<Rightarrow> task list \<Rightarrow> string option" where
  "queryTaskIDByEngineRef eng ref rows = map_option t_id
     (sql_find (\<lambda>r. t_engine r = eng \<and> t_engine_ref r = Some ref \<and> t_state r \<noteq> StateRemoved) rows)"

definition queryTaskInfohashes :: "string \<Rightarrow> task list \<Rightarrow> (string option \<times> string option) option" where
  "queryTaskInfohashes tid rows = map_option (\<lambda>r. (t_infohash_v1 r, t_infohash_v2 r)) (sql_find (\<lambda>r. t_id r = tid) rows)"

definition querySetTaskInfohashes :: "string option \<Rightarrow> string option \<Rightarrow> int \<Rightarrow> string \<Rightarrow> task list \<Rightarrow> task list \<times> nat" where
  "querySetTaskInfohashes v1 v2 now tid rows = sql_update (\<lambda>r. t_id r = tid)
     (\<lambda>r. r\<lparr>t_infohash_v1 := v1, t_infohash_v2 := v2, t_updated_at := now\<rparr>) rows"

definition queryOtherTaskByInfohash :: "string \<Rightarrow> string \<Rightarrow> string \<Rightarrow> task list \<Rightarrow> string option" where
  "queryOtherTaskByInfohash v1 v2 excludeID rows = map_option t_id
     (sql_find (\<lambda>r. holds_infohash v1 v2 r \<and> t_id r \<noteq> excludeID) rows)"

definition findOtherTaskByInfohash :: "string \<Rightarrow> string \<Rightarrow> string \<Rightarrow> 'z store_scheme \<Rightarrow> string option" where
  "findOtherTaskByInfohash excludeID v1 v2 s = queryOtherTaskByInfohash v1 v2 excludeID (s_tasks s)"

definition FindByInfohash :: "unicode \<Rightarrow> string \<Rightarrow> string \<Rightarrow> ('z store_scheme, infohash_error + task) action" where
  "FindByInfohash uc v1 v2 = (case (NormaliseInfohash uc v1, NormaliseInfohash uc v2) of
      (Some v1n, Some v2n) \<Rightarrow> do {
        r \<leftarrow> query (\<lambda>s. case queryFindTaskByInfohash v1n v2n (s_tasks s) of None \<Rightarrow> Inl SErrNotFound | Some t \<Rightarrow> Inr t);
        ret (case r of Inl err \<Rightarrow> Inl (IhStore err) | Inr t \<Rightarrow> Inr t)
      }
    | _ \<Rightarrow> ret (Inl IhMalformed))"

subsection \<open>Writing the pair\<close>

text \<open>The value a column takes: an empty argument keeps it, a different one is refused.\<close>

definition merge_hash :: "string option \<Rightarrow> string \<Rightarrow> string option" where
  "merge_hash current v =
     (if v = '''' then Some (textOrEmpty current)
      else if textOrEmpty current \<noteq> '''' \<and> textOrEmpty current \<noteq> v then None
      else Some v)"

text \<open>The partial unique indexes, as the statement that would break them sees them.\<close>

definition infohashes_unique :: "task list \<Rightarrow> bool" where
  "infohashes_unique rows \<longleftrightarrow> distinct (live_keys t_infohash_v1 rows) \<and> distinct (live_keys t_infohash_v2 rows)"

definition set_infohashes :: "string \<Rightarrow> string \<Rightarrow> string \<Rightarrow> 'z store_scheme \<Rightarrow> (infohash_error + unit) \<times> 'z store_scheme option" where
  "set_infohashes tid v1n v2n s = (case queryTaskInfohashes tid (s_tasks s) of
      None \<Rightarrow> (Inl (IhStore SErrNotFound), None)
    | Some (current1, current2) \<Rightarrow>
        (case (merge_hash current1 v1n, merge_hash current2 v2n) of
          (Some nextV1, Some nextV2) \<Rightarrow>
            if nextV1 = textOrEmpty current1 \<and> nextV2 = textOrEmpty current2 then (Inr (), None)
            else if findOtherTaskByInfohash tid nextV1 nextV2 s \<noteq> None then (Inl ErrDuplicateInfohash, None)
            else let rows = fst (querySetTaskInfohashes (nullableText nextV1) (nullableText nextV2) (s_now s) tid (s_tasks s)) in
              if \<not> infohashes_unique rows then (Inl ErrDuplicateInfohash, None)
              else (Inr (), Some (s\<lparr>s_tasks := rows\<rparr>))
        | _ \<Rightarrow> (Inl IhRefused, None)))"

definition SetInfohashes :: "unicode \<Rightarrow> string \<Rightarrow> string \<Rightarrow> string \<Rightarrow> ('z store_scheme, infohash_error + unit) action" where
  "SetInfohashes uc tid v1 v2 = (case (NormaliseInfohash uc v1, NormaliseInfohash uc v2) of
      (Some v1n, Some v2n) \<Rightarrow> do {
        r \<leftarrow> own_tx (set_infohashes tid v1n v2n);
        ret (flat IhStore r)
      }
    | _ \<Rightarrow> ret (Inl IhMalformed))"

subsection \<open>The late collision\<close>

definition duplicate_pause :: coded_pause where
  "duplicate_pause = \<lparr>cp_EventCode = CodeTaskDuplicatePaused, cp_EventMessage = messageTaskDuplicatePaused,
     cp_ErrorCode = errorCodeTorrentDuplicate, cp_ErrorMessage = ''another task already holds this torrent's identity'',
     cp_FromStates = duplicatePauseFromStates\<rparr>"

definition queryTaskErrorCode :: "string \<Rightarrow> task list \<Rightarrow> (task_state \<times> string option \<times> string option) option" where
  "queryTaskErrorCode tid rows =
     map_option (\<lambda>r. (t_state r, t_error_code r, t_error_message r)) (sql_find (\<lambda>r. t_id r = tid) rows)"

definition PauseDuplicate :: "string \<Rightarrow> ('z, unit) store_action" where
  "PauseDuplicate tid = do {
     c \<leftarrow> query (\<lambda>s. case queryTaskErrorCode tid (s_tasks s) of None \<Rightarrow> Inl SErrNotFound | Some row \<Rightarrow> Inr row);
     case c of
       Inl err \<Rightarrow> ret (Inl err)
     | Inr (st, code, _) \<Rightarrow>
         if st = StatePaused \<and> code = Some errorCodeTorrentDuplicate then ret (Inr ())
         else PauseWithCode tid duplicate_pause
   }"

text \<open>
  The landing of one resolution the engine reports: the answer says whether the task was paused, so that the
  caller stops the transfer too. A handle no live task carries is no error.
\<close>

definition ResolveInfohashes ::
  "unicode \<Rightarrow> string \<Rightarrow> string \<Rightarrow> string \<Rightarrow> string \<Rightarrow> ('z store_scheme, infohash_error + bool) action" where
  "ResolveInfohashes uc eng ref v1 v2 = (case (NormaliseInfohash uc v1, NormaliseInfohash uc v2) of
      (Some v1n, Some v2n) \<Rightarrow>
        if v1n = '''' \<and> v2n = '''' then ret (Inr False)
        else do {
          i \<leftarrow> query (\<lambda>s. Inr (queryTaskIDByEngineRef eng ref (s_tasks s)));
          case i of
            Inl err \<Rightarrow> ret (Inl (IhStore err))
          | Inr None \<Rightarrow> ret (Inr False)
          | Inr (Some tid) \<Rightarrow> do {
              r \<leftarrow> SetInfohashes uc tid v1n v2n;
              case r of
                Inr _ \<Rightarrow> ret (Inr False)
              | Inl (IhStore SErrNotFound) \<Rightarrow> ret (Inr False)
              | Inl ErrDuplicateInfohash \<Rightarrow> do {
                  p \<leftarrow> PauseDuplicate tid;
                  ret (case p of Inl err \<Rightarrow> Inl (IhStore err) | Inr _ \<Rightarrow> Inr True)
                }
              | Inl err \<Rightarrow> ret (Inl err)
            }
        }
    | _ \<Rightarrow> ret (Inl IhMalformed))"

subsection \<open>Uniqueness of live keys\<close>

text \<open>With distinct ids, an index is unique exactly when no two rows share a live key.\<close>

definition clash_free :: "(task \<Rightarrow> 'k option) \<Rightarrow> task \<Rightarrow> task \<Rightarrow> bool" where
  "clash_free k r r' \<longleftrightarrow> (t_state r \<noteq> StateRemoved \<longrightarrow> t_state r' \<noteq> StateRemoved \<longrightarrow> k r \<noteq> None \<longrightarrow> k r = k r' \<longrightarrow> t_id r = t_id r')"

lemma live_keys_member: "v \<in> set (live_keys k rows) \<longleftrightarrow> (\<exists>r \<in> set rows. t_state r \<noteq> StateRemoved \<and> k r = Some v)"
  by (induction rows) (auto simp: live_keys_def map_filter_simps split: option.splits)

lemma live_keys_Cons: "live_keys k (x # rows) = (if t_state x = StateRemoved then live_keys k rows
      else case k x of None \<Rightarrow> live_keys k rows | Some v \<Rightarrow> v # live_keys k rows)"
  by (simp add: live_keys_def map_filter_simps split: option.splits)

lemma live_keys_distinct:
  assumes "distinct (map t_id rows)"
  shows "distinct (live_keys k rows) \<longleftrightarrow> (\<forall>r \<in> set rows. \<forall>r' \<in> set rows. clash_free k r r')"
  using assms
proof (induction rows)
  case (Cons x rows)
  have ids: "t_id r \<noteq> t_id x" if "r \<in> set rows" for r
    using Cons.prems that by (metis distinct.simps(2) image_eqI list.set_map list.simps(9))
  have IH: "distinct (live_keys k rows) \<longleftrightarrow> (\<forall>r \<in> set rows. \<forall>r' \<in> set rows. clash_free k r r')"
    using Cons by simp
  have split: "(\<forall>r \<in> set (x # rows). \<forall>r' \<in> set (x # rows). clash_free k r r') \<longleftrightarrow>
      (\<forall>r \<in> set rows. clash_free k x r \<and> clash_free k r x) \<and> (\<forall>r \<in> set rows. \<forall>r' \<in> set rows. clash_free k r r')"
  proof -
    have "clash_free k x x" by (simp add: clash_free_def)
    then show ?thesis by (simp only: list.set ball_simps) blast
  qed
  show ?case
  proof (cases "t_state x = StateRemoved \<or> k x = None")
    case True
    then have "\<forall>r \<in> set rows. clash_free k x r \<and> clash_free k r x" by (auto simp: clash_free_def)
    with IH True split show ?thesis by (auto simp: live_keys_Cons)
  next
    case False
    then obtain v where v: "k x = Some v" "t_state x \<noteq> StateRemoved" by auto
    have "(\<forall>r \<in> set rows. clash_free k x r \<and> clash_free k r x) \<longleftrightarrow> v \<notin> set (live_keys k rows)"
      unfolding live_keys_member using v ids by (auto simp: clash_free_def)
    with IH v split show ?thesis by (simp add: live_keys_Cons)
  qed
qed (simp add: live_keys_def map_filter_simps)

subsection \<open>The write-back\<close>

lemma holds_infohash_iff: "holds_infohash v1 v2 r \<longleftrightarrow>
    t_state r \<noteq> StateRemoved \<and> (v1 \<noteq> '''' \<and> t_infohash_v1 r = Some v1 \<or> v2 \<noteq> '''' \<and> t_infohash_v2 r = Some v2)"
  by (auto simp: holds_infohash_def)

lemma other_None: "queryOtherTaskByInfohash v1 v2 tid rows = None \<longleftrightarrow>
    (\<forall>r \<in> set rows. t_id r \<noteq> tid \<longrightarrow> \<not> holds_infohash v1 v2 r)"
  by (auto simp: queryOtherTaskByInfohash_def sql_find_None_iff)

lemma live_keys_update:
  assumes ids: "distinct (map t_id rows)" and uniq: "distinct (live_keys k rows)"
    and keeps: "\<And>r. t_id (f r) = t_id r \<and> t_state (f r) = t_state r" and new: "\<And>r. k (f r) = w"
    and free: "\<And>r. r \<in> set rows \<Longrightarrow> t_id r \<noteq> tid \<Longrightarrow> t_state r \<noteq> StateRemoved \<Longrightarrow> w = None \<or> k r \<noteq> w"
  shows "distinct (live_keys k (map (\<lambda>r. if t_id r = tid then f r else r) rows))"
proof -
  let ?upd = "\<lambda>r. if t_id r = tid then f r else r"
  have same: "t_id (?upd r) = t_id r" "t_state (?upd r) = t_state r" for r using keeps by simp_all
  have "map t_id (map ?upd rows) = map t_id rows" using same by simp
  then have ids': "distinct (map t_id (map ?upd rows))" using ids by presburger
  have free': "clash_free k (?upd r) (?upd r')" if "r \<in> set rows" "r' \<in> set rows" for r r'
  proof -
    consider "t_id r = tid" "t_id r' = tid" | "t_id r = tid" "t_id r' \<noteq> tid" | "t_id r \<noteq> tid" "t_id r' = tid"
      | "t_id r \<noteq> tid" "t_id r' \<noteq> tid" by blast
    then show ?thesis
    proof cases
      case 1
      then show ?thesis by (simp add: clash_free_def keeps)
    next
      case 2
      then show ?thesis using free [OF that(2)] by (auto simp: clash_free_def keeps new)
    next
      case 3
      then show ?thesis using free [OF that(1)] by (auto simp: clash_free_def keeps new)
    next
      case 4
      then show ?thesis using uniq that unfolding live_keys_distinct [OF ids] by simp
    qed
  qed
  then show ?thesis unfolding live_keys_distinct [OF ids'] list.set_map ball_simps by blast
qed

text \<open>The check before the statement leaves nothing for the unique indexes to refuse.\<close>

lemma indexes_survive:
  assumes ids: "distinct (map t_id rows)" and uniq: "infohashes_unique rows"
    and none: "queryOtherTaskByInfohash v1 v2 tid rows = None"
  shows "infohashes_unique (fst (querySetTaskInfohashes (nullableText v1) (nullableText v2) now tid rows))"
proof -
  have free: "nullableText v1 = None \<or> t_infohash_v1 r \<noteq> nullableText v1" "nullableText v2 = None \<or> t_infohash_v2 r \<noteq> nullableText v2"
    if "r \<in> set rows" "t_id r \<noteq> tid" "t_state r \<noteq> StateRemoved" for r
    using none that unfolding other_None holds_infohash_iff nullableText_def by auto
  show ?thesis
    using uniq free unfolding infohashes_unique_def querySetTaskInfohashes_def fst_sql_update
    by (intro conjI live_keys_update [OF ids, where w = "nullableText v1"] live_keys_update [OF ids, where w = "nullableText v2"]) auto
qed

definition carries :: "string \<Rightarrow> string \<Rightarrow> string \<Rightarrow> task list \<Rightarrow> bool" where
  "carries tid h1 h2 rows \<longleftrightarrow> (\<forall>r \<in> set rows. t_id r = tid \<longrightarrow>
     (h1 \<noteq> '''' \<longrightarrow> t_infohash_v1 r = Some h1) \<and> (h2 \<noteq> '''' \<longrightarrow> t_infohash_v2 r = Some h2))"

lemma carries_write:
  assumes "h1 \<noteq> [] \<longrightarrow> n1 = h1" and "h2 \<noteq> [] \<longrightarrow> n2 = h2"
  shows "carries tid h1 h2 (fst (querySetTaskInfohashes (nullableText n1) (nullableText n2) now tid rows))"
proof -
  let ?f = "\<lambda>r. r\<lparr>t_infohash_v1 := nullableText n1, t_infohash_v2 := nullableText n2, t_updated_at := now\<rparr>"
  have "(h1 \<noteq> [] \<longrightarrow> t_infohash_v1 (?f r) = Some h1) \<and> (h2 \<noteq> [] \<longrightarrow> t_infohash_v2 (?f r) = Some h2)" for r
    using assms by (simp add: nullableText_def)
  note fields = this
  have "(h1 \<noteq> [] \<longrightarrow> t_infohash_v1 r = Some h1) \<and> (h2 \<noteq> [] \<longrightarrow> t_infohash_v2 r = Some h2)"
    if r: "r \<in> set (map (\<lambda>r. if t_id r = tid then ?f r else r) rows)" and id: "t_id r = tid" for r
  proof -
    from r obtain x where x: "r = (if t_id x = tid then ?f x else x)" by (simp only: set_map image_iff) blast
    have "r = ?f x" by (cases "t_id x = tid") (use x id in simp_all)
    with fields [of x] show ?thesis by (simp only:)
  qed
  then show ?thesis unfolding carries_def querySetTaskInfohashes_def fst_sql_update by blast
qed

text \<open>Only the row of one id is written.\<close>

definition only_row :: "string \<Rightarrow> task list \<Rightarrow> task list \<Rightarrow> bool" where
  "only_row tid rows rows' \<longleftrightarrow> (\<exists>f. (\<forall>r. t_id (f r) = t_id r) \<and> rows' = map (\<lambda>r. if t_id r = tid then f r else r) rows)"

lemma only_rowI: "(\<And>r. t_id (f r) = t_id r) \<Longrightarrow> only_row tid rows (map (\<lambda>r. if t_id r = tid then f r else r) rows)"
  unfolding only_row_def by blast

lemma only_row_refl [simp]: "only_row tid rows rows"
  using only_rowI [of "\<lambda>r. r" tid rows] by simp

lemma only_row_trans:
  assumes "only_row tid a b" and "only_row tid b c"
  shows "only_row tid a c"
proof -
  obtain f g where f: "\<forall>r. t_id (f r) = t_id r" "b = map (\<lambda>r. if t_id r = tid then f r else r) a"
    and g: "\<forall>r. t_id (g r) = t_id r" "c = map (\<lambda>r. if t_id r = tid then g r else r) b"
    using assms unfolding only_row_def by blast
  have "c = map (\<lambda>r. if t_id r = tid then g (f r) else r) a" unfolding f(2) g(2) by (simp add: f(1))
  then show ?thesis using only_rowI [of "\<lambda>r. g (f r)" tid a] f(1) g(1) by simp
qed

lemma merge_hash_eq:
  "merge_hash cur v = Some nxt \<Longrightarrow> nxt = textOrEmpty cur \<Longrightarrow> v \<noteq> '''' \<Longrightarrow> cur = Some v"
  "merge_hash cur v = Some nxt \<Longrightarrow> v \<noteq> '''' \<Longrightarrow> nxt = v"
  by (auto simp: merge_hash_def textOrEmpty_def split: if_splits option.splits)

text \<open>Another live task holds a reported hash; and a write that touches the identity of rows and nothing else of them.\<close>

definition taken :: "string \<Rightarrow> string \<Rightarrow> string \<Rightarrow> task list \<Rightarrow> bool" where
  "taken tid h1 h2 rows \<longleftrightarrow> list_ex (\<lambda>other. t_id other \<noteq> tid \<and> holds_infohash h1 h2 other) rows"

definition blank_identity :: "task \<Rightarrow> task" where
  "blank_identity r = r\<lparr>t_infohash_v1 := None, t_infohash_v2 := None, t_updated_at := 0\<rparr>"

definition identity_write :: "task list \<Rightarrow> task list \<Rightarrow> bool" where
  "identity_write rows rows' \<longleftrightarrow> map blank_identity rows' = map blank_identity rows"

definition live_id :: "string \<Rightarrow> task list \<Rightarrow> bool" where
  "live_id tid rows \<longleftrightarrow> (\<exists>r \<in> set rows. t_id r = tid \<and> t_state r \<noteq> StateRemoved)"

lemma merge_hash_kept: "merge_hash cur '''' = Some n \<Longrightarrow> n \<noteq> '''' \<Longrightarrow> cur = Some n"
  by (auto simp: merge_hash_def textOrEmpty_def split: option.splits)

lemma merge_hash_clash:
  assumes "merge_hash (k row) h = Some n" and "n \<noteq> ''''" and "k other = Some n" and "clash_free k row other"
    and "t_state row \<noteq> StateRemoved" and "t_state other \<noteq> StateRemoved" and "t_id other \<noteq> t_id row"
  shows "h \<noteq> '''' \<and> n = h"
proof (cases "h = ''''")
  case True
  then have "k row = Some n" using assms(1,2) merge_hash_kept by simp
  then show ?thesis using assms(3-7) by (simp add: clash_free_def)
next
  case False
  then show ?thesis using merge_hash_eq(2) [OF assms(1)] by simp
qed

text \<open>A clash of the merged pair is a clash of a reported hash: the hashes a live row has are its own.\<close>

lemma merged_taken:
  assumes ids: "distinct (map t_id rows)" and uniq: "infohashes_unique rows"
    and row: "row \<in> set rows" "t_id row = tid" "t_state row \<noteq> StateRemoved"
    and n: "merge_hash (t_infohash_v1 row) h1 = Some n1" "merge_hash (t_infohash_v2 row) h2 = Some n2"
    and other: "other \<in> set rows" "t_id other \<noteq> tid" "holds_infohash n1 n2 other"
  shows "taken tid h1 h2 rows"
proof -
  have clash: "clash_free t_infohash_v1 row other" "clash_free t_infohash_v2 row other"
    using uniq row other live_keys_distinct [OF ids] by (auto simp: infohashes_unique_def)
  have live: "t_state other \<noteq> StateRemoved" using other by (simp add: holds_infohash_def)
  have "h1 \<noteq> '''' \<and> n1 = h1" if "t_infohash_v1 other = Some n1" "n1 \<noteq> ''''"
    using merge_hash_clash [of t_infohash_v1 row, OF n(1)] that clash(1) row other(2) live by simp
  moreover have "h2 \<noteq> '''' \<and> n2 = h2" if "t_infohash_v2 other = Some n2" "n2 \<noteq> ''''"
    using merge_hash_clash [of t_infohash_v2 row, OF n(2)] that clash(2) row other(2) live by simp
  ultimately have "holds_infohash h1 h2 other" using other(3) by (auto simp: holds_infohash_def)
  with other(1,2) show ?thesis by (auto simp: taken_def list_ex_iff)
qed

text \<open>A live row that carries a pair is the only live one to hold a hash of it.\<close>

lemma carries_not_taken:
  assumes "constraints_ok s" and "carries tid h1 h2 (s_tasks s)" and "live_id tid (s_tasks s)"
  shows "\<not> taken tid h1 h2 (s_tasks s)"
proof
  assume "taken tid h1 h2 (s_tasks s)"
  then obtain other where other: "other \<in> set (s_tasks s)" "t_id other \<noteq> tid" "holds_infohash h1 h2 other"
    by (auto simp: taken_def list_ex_iff)
  obtain row where row: "row \<in> set (s_tasks s)" "t_id row = tid" "t_state row \<noteq> StateRemoved"
    using assms(3) by (auto simp: live_id_def)
  have "distinct (map t_id (s_tasks s))" "infohashes_unique (s_tasks s)"
    using assms(1) by (simp_all add: constraints_ok_def infohashes_unique_def)
  then have "clash_free t_infohash_v1 row other" "clash_free t_infohash_v2 row other"
    using row other live_keys_distinct by (auto simp: infohashes_unique_def)
  moreover have "(h1 \<noteq> '''' \<longrightarrow> t_infohash_v1 row = Some h1) \<and> (h2 \<noteq> '''' \<longrightarrow> t_infohash_v2 row = Some h2)"
    using assms(2) row unfolding carries_def by blast
  ultimately show False using other row by (auto simp: holds_infohash_def clash_free_def)
qed

lemma live_id_identity: "identity_write rows rows' \<Longrightarrow> live_id tid rows' = live_id tid rows"
proof -
  assume "identity_write rows rows'"
  then have "map (\<lambda>r. (t_id r, t_state r)) (map blank_identity rows') = map (\<lambda>r. (t_id r, t_state r)) (map blank_identity rows)"
    by (simp only: identity_write_def)
  then have "map (\<lambda>r. (t_id r, t_state r)) rows' = map (\<lambda>r. (t_id r, t_state r)) rows"
    by (simp add: blank_identity_def o_def)
  then have "(tid, st) \<in> set (map (\<lambda>r. (t_id r, t_state r)) rows') \<longleftrightarrow> (tid, st) \<in> set (map (\<lambda>r. (t_id r, t_state r)) rows)" for st
    by simp
  then show ?thesis unfolding live_id_def by (auto simp: image_iff) metis+
qed

lemma set_infohashes_spec:
  assumes ok: "constraints_ok s" and live: "live_id tid (s_tasks s)" and run: "set_infohashes tid h1 h2 s = (r, out)"
  shows "case out of
      Some s' \<Rightarrow> r = Inr () \<and> (\<exists>rows. s' = s\<lparr>s_tasks := rows\<rparr> \<and> carries tid h1 h2 rows \<and> only_row tid (s_tasks s) rows \<and>
        identity_write (s_tasks s) rows)
    | None \<Rightarrow> (case r of
        Inr _ \<Rightarrow> carries tid h1 h2 (s_tasks s)
      | Inl ErrDuplicateInfohash \<Rightarrow> taken tid h1 h2 (s_tasks s)
      | Inl (IhStore SErrNotFound) \<Rightarrow> carries tid h1 h2 (s_tasks s)
      | _ \<Rightarrow> True)"
proof (cases "sql_find (\<lambda>r. t_id r = tid) (s_tasks s)")
  case None
  then have "r = Inl (IhStore SErrNotFound)" "out = None" using run by (simp_all add: set_infohashes_def queryTaskInfohashes_def)
  moreover have "carries tid h1 h2 (s_tasks s)" using None by (auto simp: carries_def sql_find_None_iff)
  ultimately show ?thesis by simp
next
  case (Some row)
  have ids: "distinct (map t_id (s_tasks s))" and uniq: "infohashes_unique (s_tasks s)"
    using ok by (simp_all add: constraints_ok_def infohashes_unique_def)
  have only: "r' = row" if "r' \<in> set (s_tasks s)" "t_id r' = tid" for r'
    using that sql_find_SomeD [OF Some] ids by (metis sql_find_distinct option.inject)
  show ?thesis
  proof (cases "merge_hash (t_infohash_v1 row) h1 = None \<or> merge_hash (t_infohash_v2 row) h2 = None")
    case True
    then show ?thesis using run Some by (auto simp: set_infohashes_def queryTaskInfohashes_def split: option.splits)
  next
    case False
    then obtain n1 n2 where n: "merge_hash (t_infohash_v1 row) h1 = Some n1" "merge_hash (t_infohash_v2 row) h2 = Some n2" by auto
    let ?rows = "fst (querySetTaskInfohashes (nullableText n1) (nullableText n2) (s_now s) tid (s_tasks s))"
    consider "n1 = textOrEmpty (t_infohash_v1 row) \<and> n2 = textOrEmpty (t_infohash_v2 row)" "r = Inr ()" "out = None"
      | "queryOtherTaskByInfohash n1 n2 tid (s_tasks s) \<noteq> None" "r = Inl ErrDuplicateInfohash" "out = None"
      | "queryOtherTaskByInfohash n1 n2 tid (s_tasks s) = None" "r = Inr ()" "out = Some (s\<lparr>s_tasks := ?rows\<rparr>)"
      using run Some n indexes_survive [OF ids uniq, of n1 n2 tid "s_now s"]
      by (auto simp: set_infohashes_def queryTaskInfohashes_def findOtherTaskByInfohash_def Let_def split: if_splits)
    then show ?thesis
    proof cases
      case 1
      then have "h1 \<noteq> [] \<longrightarrow> t_infohash_v1 row = Some h1" "h2 \<noteq> [] \<longrightarrow> t_infohash_v2 row = Some h2"
        using n merge_hash_eq(1) by blast+
      then have "carries tid h1 h2 (s_tasks s)" using only unfolding carries_def by blast
      with 1 show ?thesis by simp
    next
      case 2
      then obtain other where "other \<in> set (s_tasks s)" "t_id other \<noteq> tid" "holds_infohash n1 n2 other"
        unfolding other_None by blast
      moreover have "row \<in> set (s_tasks s)" "t_id row = tid" "t_state row \<noteq> StateRemoved"
        using sql_find_SomeD [OF Some] live only by (auto simp: live_id_def)
      ultimately have "taken tid h1 h2 (s_tasks s)" using merged_taken [OF ids uniq _ _ _ n] by blast
      with 2 show ?thesis by simp
    next
      case 3
      have "carries tid h1 h2 ?rows"
      proof -
        have "h1 \<noteq> [] \<longrightarrow> n1 = h1" "h2 \<noteq> [] \<longrightarrow> n2 = h2" using merge_hash_eq(2) n by blast+
        then show ?thesis by (rule carries_write)
      qed
      moreover have "only_row tid (s_tasks s) ?rows"
        unfolding querySetTaskInfohashes_def fst_sql_update by (rule only_rowI) simp
      moreover have "identity_write (s_tasks s) ?rows"
        unfolding querySetTaskInfohashes_def fst_sql_update by (simp add: identity_write_def blank_identity_def)
      ultimately show ?thesis using 3 by auto
    qed
  qed
qed

lemma own_tx_cases:
  obtains (unchanged) dt rest r where "run_state (own_tx body) s = (r, after_tick dt rest s)"
      "r = Inl SErrDB \<or> (\<exists>x. r = Inr x \<and> body (after_tick dt rest s) = (x, None))"
  | (written) dt rest r x s' where "body (after_tick dt rest s) = (x, Some s')" "constraints_ok s'"
      "run_state (own_tx body) s = (r, s')" "r = Inl SErrDB \<or> r = Inr x"
proof -
  obtain f dt rest where t: "run_state tick s = (f, after_tick dt rest s)" by (rule tick_cases)
  obtain x out where body: "body (after_tick dt rest s) = (x, out)" by (meson surj_pair)
  show thesis
  proof (cases "f = FaultBefore \<or> out = None \<or> \<not> constraints_ok (the out)")
    case True
    then have "\<exists>r. run_state (own_tx body) s = (r, after_tick dt rest s) \<and> (r = Inl SErrDB \<or> (r = Inr x \<and> out = None))"
      using body by (cases out) (auto simp: own_tx_def run_tx_tick [OF t])
    then show thesis using unchanged body by blast
  next
    case False
    then obtain s' where s': "out = Some s'" "constraints_ok s'" "f \<noteq> FaultBefore" by auto
    then have "run_state (own_tx body) s = (if f = FaultAmbiguous then Inl SErrDB else Inr x, s')"
      using body by (simp add: own_tx_def run_tx_tick [OF t])
    moreover have "body (after_tick dt rest s) = (x, Some s')" using body s' by simp
    ultimately show thesis using s'(2) by (intro written [of dt rest x s']) (auto split: if_splits)
  qed
qed

lemma SetInfohashes_run:
  assumes ok: "constraints_ok s" and live: "live_id tid (s_tasks s)" and norm: "NormaliseInfohash uc v1 = Some h1" "NormaliseInfohash uc v2 = Some h2"
    and run: "run_state (SetInfohashes uc tid v1 v2) s = (r, s')"
  shows "constraints_ok s' \<and> only_row tid (s_tasks s) (s_tasks s') \<and> identity_write (s_tasks s) (s_tasks s') \<and>
    (case r of Inr _ \<Rightarrow> carries tid h1 h2 (s_tasks s')
     | Inl ErrDuplicateInfohash \<Rightarrow> s_tasks s' = s_tasks s \<and> taken tid h1 h2 (s_tasks s)
     | Inl (IhStore SErrNotFound) \<Rightarrow> carries tid h1 h2 (s_tasks s')
     | _ \<Rightarrow> True)"
proof (rule own_tx_cases [of "set_infohashes tid h1 h2" s])
  fix dt rest x
  assume t: "run_state (own_tx (set_infohashes tid h1 h2)) s = (x, after_tick dt rest s)"
    and or: "x = Inl SErrDB \<or> (\<exists>y. x = Inr y \<and> set_infohashes tid h1 h2 (after_tick dt rest s) = (y, None))"
  have "r = flat IhStore x" "s' = after_tick dt rest s" using run norm t by (auto simp: SetInfohashes_def)
  with or ok live show ?thesis
    using set_infohashes_spec [of "after_tick dt rest s" tid h1 h2 _ None] by (auto simp: flat_def identity_write_def split: sum.splits infohash_error.splits)
next
  fix dt rest x y t'
  assume body: "set_infohashes tid h1 h2 (after_tick dt rest s) = (y, Some t')" and ok': "constraints_ok t'"
    and t: "run_state (own_tx (set_infohashes tid h1 h2)) s = (x, t')" and x: "x = Inl SErrDB \<or> x = Inr y"
  have "r = flat IhStore x" "s' = t'" using run norm t by (auto simp: SetInfohashes_def)
  moreover have "y = Inr () \<and> (\<exists>rows. t' = (after_tick dt rest s)\<lparr>s_tasks := rows\<rparr> \<and> carries tid h1 h2 rows \<and> only_row tid (s_tasks s) rows \<and>
      identity_write (s_tasks s) rows)"
    using set_infohashes_spec [OF _ _ body] ok live by simp
  ultimately show ?thesis using ok' x by (auto simp: flat_def)
qed

subsection \<open>The late collision\<close>

definition paused_duplicate :: "string \<Rightarrow> task list \<Rightarrow> bool" where
  "paused_duplicate tid rows \<longleftrightarrow> (\<exists>r \<in> set rows. t_id r = tid \<and> t_state r = StatePaused \<and> t_error_code r = Some errorCodeTorrentDuplicate)"

definition pause_row :: "coded_pause \<Rightarrow> int \<Rightarrow> task \<Rightarrow> task" where
  "pause_row p now r = (if t_state r \<in> set (cp_FromStates p)
     then r\<lparr>t_state := StatePaused, t_error_code := nullableText (cp_ErrorCode p),
       t_error_message := nullableText (cp_ErrorMessage p), t_admission_pending := 0, t_updated_at := now\<rparr> else r)"

lemma pause_query: "fst (queryPauseTaskWithCode (nullableText (cp_ErrorCode p)) (nullableText (cp_ErrorMessage p)) now tid (cp_FromStates p) rows) =
    map (\<lambda>r. if t_id r = tid then pause_row p now r else r) rows"
  by (auto simp: queryPauseTaskWithCode_def pause_row_def)

definition pause_body :: "string \<Rightarrow> coded_pause \<Rightarrow> 'z store_scheme \<Rightarrow> unit tx_result \<times> 'z store_scheme" where
  "pause_body tid p s = (case queryTaskState tid (s_tasks s) of
      None \<Rightarrow> (Rollback (Inl SErrNotFound), s)
    | Some current \<Rightarrow>
        if current \<notin> set (cp_FromStates p) then (Rollback (Inl SErrTransitionConflict), s)
        else if \<not> transitionLegal current StatePaused then (Rollback (Inl SErrIllegalTransition), s)
        else if snd (queryPauseTaskWithCode (nullableText (cp_ErrorCode p)) (nullableText (cp_ErrorMessage p))
          (s_now s) tid (cp_FromStates p) (s_tasks s)) = 0 then (Rollback (Inl SErrTransitionConflict), s)
        else (Commit (), insertTaskEvent tid ''info'' (cp_EventCode p) (cp_EventMessage p) None (s_now s)
          (s\<lparr>s_tasks := map (\<lambda>r. if t_id r = tid then pause_row p (s_now s) r else r) (s_tasks s)\<rparr>)))"

lemma PauseWithCode_tx: "PauseWithCode tid p = ret (Inl SErrInput) \<or> PauseWithCode tid p = tx (pause_body tid p)"
proof -
  have eq: "(\<lambda>s :: 'z store_scheme. case queryTaskState tid (s_tasks s) of
      None \<Rightarrow> (Rollback (Inl SErrNotFound), s)
    | Some current \<Rightarrow>
        if current \<notin> set (cp_FromStates p) then (Rollback (Inl SErrTransitionConflict), s)
        else if \<not> transitionLegal current StatePaused then (Rollback (Inl SErrIllegalTransition), s)
        else let now = s_now s; (rows, affected) =
               queryPauseTaskWithCode (nullableText (cp_ErrorCode p)) (nullableText (cp_ErrorMessage p))
                 now tid (cp_FromStates p) (s_tasks s) in
          if affected = 0 then (Rollback (Inl SErrTransitionConflict), s)
          else (Commit (), insertTaskEvent tid ''info'' (cp_EventCode p) (cp_EventMessage p) None now
                 (s\<lparr>s_tasks := rows\<rparr>))) = pause_body tid p"
    (is "?body = _")
  proof
    show "?body s = pause_body tid p s" for s
      by (cases "queryTaskState tid (s_tasks s)") (simp_all add: pause_body_def Let_def case_prod_beta pause_query)
  qed
  show ?thesis unfolding PauseWithCode_def eq by simp
qed

lemma PauseWithCode_run:
  assumes ok: "constraints_ok s" and run: "run_state (PauseWithCode tid p) s = (r, s')"
  shows "constraints_ok s' \<and> only_row tid (s_tasks s) (s_tasks s') \<and>
    (r = Inr () \<longrightarrow> (\<exists>row \<in> set (s_tasks s'). t_id row = tid \<and> t_state row = StatePaused \<and> t_error_code row = nullableText (cp_ErrorCode p)))"
proof -
  obtain f dt rest where t: "run_state tick s = (f, after_tick dt rest s)" by (rule tick_cases)
  let ?s = "after_tick dt rest s"
  let ?rows = "map (\<lambda>r. if t_id r = tid then pause_row p (s_now ?s) r else r) (s_tasks s)"
  let ?new = "insertTaskEvent tid ''info'' (cp_EventCode p) (cp_EventMessage p) None (s_now ?s) (?s\<lparr>s_tasks := ?rows\<rparr>)"
  have ids: "t_id (pause_row p now r) = t_id r" for now r by (simp add: pause_row_def)
  have body: "(\<exists>x. pause_body tid p ?s = (Rollback (Inl x), ?s)) \<or>
      pause_body tid p ?s = (Commit (), ?new) \<and> (\<exists>st \<in> set (cp_FromStates p). queryTaskState tid (s_tasks s) = Some st)"
    by (auto simp: pause_body_def split: option.splits)
  have "(s' = s \<or> s' = ?s) \<and> r \<noteq> Inr () \<or> s' = ?new \<and> constraints_ok ?new \<and> (\<exists>st \<in> set (cp_FromStates p). queryTaskState tid (s_tasks s) = Some st)"
  proof -
    have "run_state (PauseWithCode tid p) s = run_state (ret (Inl SErrInput)) s \<or>
        run_state (PauseWithCode tid p) s = run_state (tx (pause_body tid p)) s"
      using PauseWithCode_tx [of tid p] by metis
    then show ?thesis
    proof
      assume "run_state (PauseWithCode tid p) s = run_state (tx (pause_body tid p)) s"
      with run have "run_state (tx (pause_body tid p)) s = (r, s')" by simp
      then show ?thesis using body by (auto simp: run_tx_tick [OF t] split: if_splits)
    qed (use run in auto)
  qed
  then consider "s' = s \<or> s' = ?s" "r \<noteq> Inr ()"
    | st where "s' = ?new" "constraints_ok ?new" "queryTaskState tid (s_tasks s) = Some st" "st \<in> set (cp_FromStates p)" by blast
  then show ?thesis
  proof cases
    case 2
    have only: "only_row tid (s_tasks s) (s_tasks s')" unfolding 2(1) by (simp add: only_rowI ids)
    from 2(3) obtain row where row: "row \<in> set (s_tasks s)" "t_id row = tid" "t_state row = st" by (rule queryTaskState_SomeD)
    then have "pause_row p (s_now ?s) row \<in> set (s_tasks s')" unfolding 2(1) by force
    moreover have "t_id (pause_row p (s_now ?s) row) = tid \<and> t_state (pause_row p (s_now ?s) row) = StatePaused \<and>
        t_error_code (pause_row p (s_now ?s) row) = nullableText (cp_ErrorCode p)"
      using row 2(4) by (simp add: pause_row_def)
    ultimately show ?thesis using only 2(1,2) by blast
  qed (use ok in auto)
qed

lemma PauseDuplicate_run:
  assumes ok: "constraints_ok s" and run: "run_state (PauseDuplicate tid) s = (r, s')"
  shows "constraints_ok s' \<and> only_row tid (s_tasks s) (s_tasks s') \<and> (r = Inr () \<longrightarrow> paused_duplicate tid (s_tasks s'))"
proof -
  obtain f dt rest where t: "run_state tick s = (f, after_tick dt rest s)" by (rule tick_cases)
  let ?s = "after_tick dt rest s"
  have ok': "constraints_ok ?s" using ok by simp
  have code: "nullableText (cp_ErrorCode duplicate_pause) = Some errorCodeTorrentDuplicate"
    by (simp add: duplicate_pause_def nullableText_def errorCodeTorrentDuplicate_def)
  consider "s' = ?s" "r \<noteq> Inr ()" | "s' = ?s" "paused_duplicate tid (s_tasks ?s)"
    | "run_state (PauseWithCode tid duplicate_pause) ?s = (r, s')"
    using run
    by (auto simp: PauseDuplicate_def query_def t queryTaskErrorCode_def paused_duplicate_def dest!: sql_find_SomeD
        split: if_splits option.splits)
  then show ?thesis
  proof cases
    case 3
    show ?thesis using PauseWithCode_run [OF ok' 3] by (auto simp: code paused_duplicate_def)
  qed (use ok in auto)
qed

subsection \<open>One landing\<close>

lemma NormaliseInfohash_again:
  assumes "NormaliseInfohash uc v = Some h"
  shows "NormaliseInfohash uc h = Some h"
proof (cases "h = ''''")
  case True
  have "TrimSpace [] = []" by (simp add: TrimSpace_def trim_with.simps spaces_bytes HasPrefix_def)
  with True show ?thesis by (simp add: NormaliseInfohash_def)
next
  case False
  then show ?thesis using NormaliseInfohash_result [OF assms] NormaliseInfohash_canonical by blast
qed

lemma only_row_other:
  assumes "only_row tid rows rows'" and "r \<in> set rows" and "t_id r \<noteq> tid"
  shows "r \<in> set rows'"
  using assms unfolding only_row_def by force

text \<open>
  C39. When an engine reports the hashes of a transfer, then whatever the database does, only the row of the
  task that owns the handle is written and the identity of no two live tasks ever coincides. An answer
  "not paused" means that the row carries both reported hashes (or that no live task has the handle), that
  nothing but its identity was written, so that its state is unchanged, and that no other live task holds a
  reported hash; an answer "paused" means that the row is paused with the code \<open>torrent_duplicate\<close>, and that
  another live task did hold a hash that was reported: the transfer is stopped exactly for a collision, and
  nothing is deleted.
\<close>

theorem ResolveInfohashes_correct:
  assumes ok: "constraints_ok s" and norm: "NormaliseInfohash uc v1 = Some h1" "NormaliseInfohash uc v2 = Some h2"
    and run: "run_state (ResolveInfohashes uc eng ref v1 v2) s = (r, s')"
  shows "constraints_ok s' \<and> (case queryTaskIDByEngineRef eng ref (s_tasks s) of
      None \<Rightarrow> s_tasks s' = s_tasks s \<and> r \<noteq> Inr True
    | Some tid \<Rightarrow> only_row tid (s_tasks s) (s_tasks s') \<and>
        (r = Inr False \<longrightarrow> carries tid h1 h2 (s_tasks s') \<and> identity_write (s_tasks s) (s_tasks s') \<and>
          \<not> taken tid h1 h2 (s_tasks s')) \<and>
        (r = Inr True \<longrightarrow> paused_duplicate tid (s_tasks s') \<and> taken tid h1 h2 (s_tasks s)))"
proof (cases "h1 = '''' \<and> h2 = ''''")
  case True
  then have "r = Inr False" "s' = s" using run norm by (auto simp: ResolveInfohashes_def)
  with True ok show ?thesis
    by (auto simp: carries_def identity_write_def taken_def holds_infohash_def list_ex_iff split: option.splits)
next
  case False
  obtain f dt rest where t: "run_state tick s = (f, after_tick dt rest s)" by (rule tick_cases)
  let ?s = "after_tick dt rest s"
  have ok': "constraints_ok ?s" using ok by simp
  note again = norm [THEN NormaliseInfohash_again]
  show ?thesis
  proof (cases "queryTaskIDByEngineRef eng ref (s_tasks s)")
    case None
    then have "s' = ?s \<and> r \<noteq> Inr True" using run norm False t by (auto simp: ResolveInfohashes_def query_def split: if_splits)
    with None ok' show ?thesis by simp
  next
    case (Some tid)
    then have live: "live_id tid (s_tasks s)"
      by (auto simp: queryTaskIDByEngineRef_def live_id_def dest!: sql_find_SomeD)
    show ?thesis
    proof (cases "f = FaultNone")
      case False': False
      then have "s' = ?s \<and> r = Inl (IhStore SErrDB)" using run norm False t by (auto simp: ResolveInfohashes_def query_def)
      with Some ok' show ?thesis by simp
    next
      case True
      obtain r1 s1 where set: "run_state (SetInfohashes uc tid h1 h2) ?s = (r1, s1)" by (meson surj_pair)
      have sr: "constraints_ok s1" "only_row tid (s_tasks s) (s_tasks s1)" "identity_write (s_tasks s) (s_tasks s1)"
          "r1 = Inr () \<or> r1 = Inl (IhStore SErrNotFound) \<Longrightarrow> carries tid h1 h2 (s_tasks s1)"
          "r1 = Inl ErrDuplicateInfohash \<Longrightarrow> taken tid h1 h2 (s_tasks s)"
        using SetInfohashes_run [OF ok' _ again set] live by auto
      from run norm False t True Some set have
        "(r1 = Inr () \<or> r1 = Inl (IhStore SErrNotFound)) \<and> r = Inr False \<and> s' = s1 \<or>
         (\<exists>p. r1 = Inl ErrDuplicateInfohash \<and> run_state (PauseDuplicate tid) s1 = (p, s') \<and> r = (case p of Inl err \<Rightarrow> Inl (IhStore err) | Inr _ \<Rightarrow> Inr True)) \<or>
         (\<exists>err. r = Inl err) \<and> s' = s1"
        by (auto simp: ResolveInfohashes_def query_def split: sum.splits infohash_error.splits store_error.splits prod.splits)
      then consider "r1 = Inr () \<or> r1 = Inl (IhStore SErrNotFound)" "r = Inr False" "s' = s1"
        | err where "r = Inl err" "s' = s1"
        | p where "r1 = Inl ErrDuplicateInfohash" "run_state (PauseDuplicate tid) s1 = (p, s')"
            "r = (case p of Inl err \<Rightarrow> Inl (IhStore err) | Inr _ \<Rightarrow> Inr True)" by blast
      then show ?thesis
      proof cases
        case 1
        then have "\<not> taken tid h1 h2 (s_tasks s1)"
          using carries_not_taken [OF sr(1) sr(4)] live_id_identity [OF sr(3)] live by blast
        with 1 sr Some show ?thesis by simp
      next
        case 3
        have "r \<noteq> Inr False \<and> (r = Inr True \<longrightarrow> p = Inr ())" using 3(3) by (cases p) auto
        then show ?thesis using Some PauseDuplicate_run [OF sr(1) 3(2)] only_row_trans [OF sr(2)] sr(5) [OF 3(1)] by auto
      qed (use sr Some in simp)
    qed
  qed
qed

definition demo_hash :: string where
  "demo_hash = ''abcdefabcdefabcdefabcdefabcdefabcdefabcd''"

definition demo_twins :: "task list" where
  "demo_twins = [(demo_task ''a'' StateDownloading)\<lparr>t_infohash_v1 := Some demo_hash\<rparr>,
     (demo_task ''b'' StateDownloading)\<lparr>t_engine_ref := Some ''h''\<rparr>]"

lemma ResolveInfohashes_correct_witness:
  "\<exists>s'. run_state (ResolveInfohashes example_uc ''aria2'' ''h'' demo_hash '''') (demo_store demo_twins []) = (Inr True, s') \<and>
     constraints_ok s' \<and> only_row ''b'' demo_twins (s_tasks s') \<and> paused_duplicate ''b'' (s_tasks s') \<and>
     taken ''b'' demo_hash '''' demo_twins"
proof -
  let ?s = "demo_store demo_twins []"
  have ok: "constraints_ok ?s"
    by (simp add: demo_simps demo_twins_def)
  have "fst (run_state (ResolveInfohashes example_uc ''aria2'' ''h'' demo_hash '''') ?s) = Inr True" by code_simp
  then obtain s' where run: "run_state (ResolveInfohashes example_uc ''aria2'' ''h'' demo_hash '''') ?s = (Inr True, s')"
    by (metis prod.collapse)
  have norm: "NormaliseInfohash example_uc demo_hash = Some demo_hash" "NormaliseInfohash example_uc '''' = Some ''''"
    by code_simp+
  have "queryTaskIDByEngineRef ''aria2'' ''h'' (s_tasks ?s) = Some ''b''" "s_tasks ?s = demo_twins" by code_simp+
  with ResolveInfohashes_correct [OF ok norm run] run show ?thesis by simp
qed

end
