(* ===== verification/Wp.thy ===== *)
theory Wp
  imports StoreProps
begin

section \<open>Weakest preconditions of actions\<close>

text \<open>
  \<open>wp m Q s\<close> says that the run of an action from a state ends in a result and a state with \<open>Q\<close>. Its rules
  follow the constructors of the monad (\<open>wp_rules\<close>), so that a property of a handler is the property of its
  calls. \<open>later\<close> relates a state to the one after the clock of a call, which is all that a read changes.
\<close>

named_theorems wp_rules \<open>weakest preconditions, by the form of an action\<close>

definition wp :: "('s, 'a) action \<Rightarrow> ('a \<Rightarrow> 's \<Rightarrow> bool) \<Rightarrow> 's \<Rightarrow> bool" where
  "wp m Q s = (case run_state m s of (r, s') \<Rightarrow> Q r s')"

text \<open>A call whose error ends the caller.\<close>

definition and_then :: "('s, 'e + 'a) action \<Rightarrow> ('a \<Rightarrow> ('s, 'e + 'b) action) \<Rightarrow> ('s, 'e + 'b) action" where
  "and_then m f = do { r \<leftarrow> m; case r of Inl err \<Rightarrow> ret (Inl err) | Inr x \<Rightarrow> f x }"

lemma wp_run: "wp m Q s \<Longrightarrow> run_state m s = (r, s') \<Longrightarrow> Q r s'"
  by (simp add: wp_def)

lemma wpI: "(\<And>r s'. run_state m s = (r, s') \<Longrightarrow> Q r s') \<Longrightarrow> wp m Q s"
  by (auto simp: wp_def split: prod.split)

lemma wp_mono: "wp m P s \<Longrightarrow> (\<And>r t. P r t \<Longrightarrow> Q r t) \<Longrightarrow> wp m Q s"
  by (auto simp: wp_def split: prod.splits)

lemma wp_conj: "wp m P s \<Longrightarrow> wp m Q s \<Longrightarrow> wp m (\<lambda>r t. P r t \<and> Q r t) s"
  by (auto simp: wp_def split: prod.splits)

lemma wp_ret [simp]: "wp (ret x) Q = Q x"
  by (simp add: wp_def fun_eq_iff)

lemma wp_reader [simp]: "wp (reader f) Q = (\<lambda>s. Q (f s) s)"
  by (simp add: wp_def fun_eq_iff)

lemma wp_modify [simp]: "wp (modify f) Q = (\<lambda>s. Q () (f s))"
  by (simp add: wp_def fun_eq_iff)

lemma wp_bind [simp]: "wp (State_Monad.bind m f) Q = wp m (\<lambda>x. wp (f x) Q)"
  by (simp add: wp_def State_Monad.bind_def fun_eq_iff split: prod.splits)

lemma wp_and_then [simp]:
  "wp (and_then m f) Q = wp m (\<lambda>r t. case r of Inl err \<Rightarrow> Q (Inl err) t | Inr x \<Rightarrow> wp (f x) Q t)"
  unfolding and_then_def wp_bind by (rule arg_cong [where f = "wp m"]) (auto split: sum.split intro!: ext)

lemma wp_and_thenI [wp_rules]:
  assumes "wp m (\<lambda>r t. case r of Inl err \<Rightarrow> Q (Inl err) t | Inr x \<Rightarrow> wp (f x) Q t) s"
  shows "wp (and_then m f) Q s"
  using assms by simp

text \<open>Going on from what a call is known to establish.\<close>

lemma wp_seq: "wp m P s \<Longrightarrow> (\<And>x t. P x t \<Longrightarrow> wp (f x) Q t) \<Longrightarrow> wp (State_Monad.bind m f) Q s"
  by (auto intro: wp_mono)

lemma wp_and_then_seq:
  assumes "wp m P s" and "\<And>err t. P (Inl err) t \<Longrightarrow> Q (Inl err) t" and "\<And>x t. P (Inr x) t \<Longrightarrow> wp (f x) Q t"
  shows "wp (and_then m f) Q s"
  using assms(1) unfolding wp_and_then by (rule wp_mono) (use assms(2,3) in \<open>auto split: sum.splits\<close>)

lemma run_and_then:
  assumes "run_state (and_then m f) s = (Inr y, s')"
  obtains x s1 where "run_state m s = (Inr x, s1)" and "run_state (f x) s1 = (Inr y, s')"
  using assms by (auto simp: and_then_def State_Monad.bind_def split: prod.splits sum.splits)

subsection \<open>Calls of the database\<close>

definition later :: "'z store_scheme \<Rightarrow> 'z store_scheme \<Rightarrow> bool" where
  "later s t \<longleftrightarrow> (\<exists>dt rest. t = after_tick dt rest s)"

lemma later_refl [intro]: "later s s"
  unfolding later_def by (rule exI [of _ 0], rule exI [of _ "s_sched s"]) (simp add: after_tick_def)

lemma later_trans: "later s t \<Longrightarrow> later t u \<Longrightarrow> later s u"
proof -
  assume "later s t" "later t u"
  then obtain d1 r1 d2 r2 where "t = after_tick d1 r1 s" "u = after_tick d2 r2 t" by (auto simp: later_def)
  then have "u = after_tick (d1 + d2) r2 s" by (simp add: after_tick_def)
  then show ?thesis by (auto simp: later_def)
qed

lemma later_tables: "later s t \<Longrightarrow> s_tasks t = s_tasks s \<and> s_events t = s_events s \<and> s_now s \<le> s_now t"
  by (auto simp: later_def after_tick_def)

lemma wp_query [wp_rules]:
  assumes "\<And>t. later s t \<Longrightarrow> Q (Inl SErrDB) t \<and> Q (q t) t"
  shows "wp (query q) Q s"
proof -
  obtain f dt rest where t: "run_state tick s = (f, after_tick dt rest s)" by (rule tick_cases)
  have "later s (after_tick dt rest s)" by (auto simp: later_def)
  with assms show ?thesis
    by (cases f) (simp_all add: query_def t wp_def)
qed

lemma wp_tx [wp_rules]:
  assumes "\<And>t. later s t \<Longrightarrow> Q (Inl SErrDB) t"
    and "\<And>t r u. later s t \<Longrightarrow> body t = (Rollback r, u) \<Longrightarrow> Q r t"
    and "\<And>t a u. later s t \<Longrightarrow> body t = (Commit a, u) \<Longrightarrow> constraints_ok u \<Longrightarrow> Q (Inr a) u \<and> Q (Inl SErrDB) u"
  shows "wp (tx body) Q s"
proof -
  obtain f dt rest where t: "run_state tick s = (f, after_tick dt rest s)" by (rule tick_cases)
  have l: "later s (after_tick dt rest s)" by (auto simp: later_def)
  obtain r u where b: "body (after_tick dt rest s) = (r, u)" by (cases "body (after_tick dt rest s)")
  then show ?thesis
    using assms(1) [OF l] assms(2) [OF l] assms(3) [OF l] by (cases r) (auto simp: wp_def run_tx_tick [OF t])
qed

text \<open>
  A call that only reads: what its result, when it has one, is known to satisfy. The rules have the form of
  the calls, so a reading handler is checked call by call.
\<close>

definition reads :: "('a \<Rightarrow> bool) \<Rightarrow> ('z store_scheme, 'e + 'a) action \<Rightarrow> 'z store_scheme \<Rightarrow> bool" where
  "reads P m s = wp m (\<lambda>r t. later s t \<and> (\<forall>x. r = Inr x \<longrightarrow> P x)) s"

lemma reads_ret [simp]: "reads P (ret r) s = (\<forall>x. r = Inr x \<longrightarrow> P x)"
  by (auto simp: reads_def)

lemma reads_mono: "reads P m s \<Longrightarrow> (\<And>x. P x \<Longrightarrow> Q x) \<Longrightarrow> reads Q m s"
  unfolding reads_def by (erule wp_mono) auto

lemma reads_and_then:
  assumes "reads P m s" and "\<And>x t. later s t \<Longrightarrow> P x \<Longrightarrow> reads Q (f x) t"
  shows "reads Q (and_then m f) s"
  unfolding reads_def
proof (rule wp_and_then_seq [OF assms(1) [unfolded reads_def]], goal_cases)
  case (2 x t)
  then have "reads Q (f x) t" using assms(2) by simp
  then show ?case
    unfolding reads_def by (rule wp_mono) (use 2 later_trans in auto)
qed simp

lemma reads_run:
  assumes "reads P m s" and "run_state m s = (r, t)"
  shows "later s t" "r = Inr x \<Longrightarrow> P x"
  using wp_run [OF assms(1) [unfolded reads_def] assms(2)] by auto

end
