(* ===== verification/Feeds.thy ===== *)
theory Feeds
  imports EngineApi StoreLists Wp "HOL-Library.Option_ord"
begin

section \<open>Feeds, items and rules in the store\<close>

text \<open>
  \<open>src/internal/store/feeds.go\<close> and \<open>rules.go\<close>: the tables of the feed reader and the operations on them.

  \<^item> The state is the world extended by five tables (\<open>press\<close>). Each operation is a transaction of the
    store's kind; \<open>press_unique\<close> and \<open>press_refs\<close> are the constraints of the schema, and a unique
    constraint that a write hits is the answer \<open>RssConflict\<close>.
  \<^item> The document of a rule is kept decoded; \<open>None\<close> is a text that does not decode.
  \<^item> A page token is the hash of the filter it was made for, the sort value and the id; a text that is no
    token is \<open>BadItemToken\<close>. The digest is an argument.
\<close>

subsection \<open>Rows\<close>

record feed =
  fd_id :: string
  fd_url :: string
  fd_title :: "string option"
  fd_enabled :: bool
  fd_refresh_interval_s :: int
  fd_item_cap :: int
  fd_priority :: int
  fd_etag :: "string option"
  fd_last_modified :: "string option"
  fd_ttl_minutes :: "int option"
  fd_last_fetch_at :: "int option"
  fd_last_success_at :: "int option"
  fd_next_fetch_at :: int
  fd_escalation_level :: int
  fd_disabled_till :: "int option"
  fd_last_error :: "string option"
  fd_created_at :: int
  fd_updated_at :: int

record feed_item =
  fi_id :: string
  fi_feed_id :: string
  fi_guid :: "string option"
  fi_identity :: string
  fi_title :: string
  fi_title_norm :: string
  fi_link :: "string option"
  fi_download_url :: "string option"
  fi_info_hash :: "string option"
  fi_size_bytes :: "int option"
  fi_published_at :: "int option"
  fi_read :: bool
  fi_first_seen_at :: int
  fi_raw_json :: "string option"
  fi_created_at :: int
  fi_updated_at :: int

record 'doc rule =
  ru_id :: string
  ru_name :: string
  ru_enabled :: bool
  ru_priority :: int
  ru_definition :: "'doc option"
  ru_last_match_at :: "int option"
  ru_created_at :: int
  ru_updated_at :: int

record rule_match =
  rm_id :: string
  rm_rule_id :: "string option"
  rm_feed_item_id :: "string option"
  rm_task_id :: "string option"
  rm_info_hash :: "string option"
  rm_content_key :: "string option"
  rm_title :: string
  rm_status :: string
  rm_reason :: "string option"
  rm_score :: int
  rm_matched_at :: int
  rm_created_at :: int
  rm_updated_at :: int

record seen_episode =
  se_rule_id :: string
  se_episode_key :: string
  se_seen_at :: int

record ('e, 'doc) press = "'e world" +
  pr_feeds :: "feed list"
  pr_items :: "feed_item list"
  pr_rules :: "'doc rule list"
  pr_matches :: "rule_match list"
  pr_seen :: "seen_episode list"

datatype rss_error = RssStore store_error | RssConflict | RssNotFound | RssStaleCursor | RssInput

type_synonym ('e, 'd, 'z, 'a) press_action = "(('e, 'd, 'z) press_scheme, rss_error + 'a) action"

subsection \<open>Constraints and transactions\<close>

definition press_unique :: "('e, 'd, 'z) press_scheme \<Rightarrow> bool" where
  "press_unique s \<longleftrightarrow>
     distinct (map fd_id (pr_feeds s)) \<and> distinct (map fd_url (pr_feeds s)) \<and>
     distinct (map fi_id (pr_items s)) \<and> distinct (map (\<lambda>i. (fi_feed_id i, fi_identity i)) (pr_items s)) \<and>
     distinct (map ru_id (pr_rules s)) \<and> distinct (map ru_name (pr_rules s)) \<and>
     distinct (map rm_id (pr_matches s)) \<and> distinct (List.map_filter rm_info_hash (pr_matches s)) \<and>
     distinct (map (\<lambda>e. (se_rule_id e, se_episode_key e)) (pr_seen s))"

definition refers :: "string option \<Rightarrow> string list \<Rightarrow> bool" where
  "refers r ids = (case r of None \<Rightarrow> True | Some i \<Rightarrow> i \<in> set ids)"

definition press_refs :: "('e, 'd, 'z) press_scheme \<Rightarrow> bool" where
  "press_refs s \<longleftrightarrow>
     list_all (\<lambda>i. fi_feed_id i \<in> set (map fd_id (pr_feeds s))) (pr_items s) \<and>
     list_all (\<lambda>m. refers (rm_rule_id m) (map ru_id (pr_rules s)) \<and> refers (rm_feed_item_id m) (map fi_id (pr_items s)) \<and>
       refers (rm_task_id m) (map t_id (s_tasks s))) (pr_matches s) \<and>
     list_all (\<lambda>e. se_rule_id e \<in> set (map ru_id (pr_rules s))) (pr_seen s)"

definition press_query ::
  "(('e, 'd, 'z) press_scheme \<Rightarrow> rss_error + 'a) \<Rightarrow> ('e, 'd, 'z, 'a) press_action" where
  "press_query q = do {
     r \<leftarrow> query (\<lambda>s. Inr (q s));
     ret (case r of Inl err \<Rightarrow> Inl (RssStore err) | Inr x \<Rightarrow> x)
   }"

text \<open>A write whose body answers a result and the new state, or ends early with an error.\<close>

definition press_tx ::
  "(('e, 'd, 'z) press_scheme \<Rightarrow> rss_error + ('a \<times> ('e, 'd, 'z) press_scheme)) \<Rightarrow> ('e, 'd, 'z, 'a) press_action" where
  "press_tx body = do {
     r \<leftarrow> tx (\<lambda>s. case body s of
        Inl err \<Rightarrow> (Rollback (Inr (Inl err)), s)
      | Inr (a, s') \<Rightarrow>
          if \<not> press_unique s' then (Rollback (Inr (Inl RssConflict)), s)
          else if \<not> press_refs s' then (Rollback (Inl SErrDB), s)
          else (Commit (Inr a), s'));
     ret (case r of Inl err \<Rightarrow> Inl (RssStore err) | Inr x \<Rightarrow> x)
   }"

lemma later_press:
  assumes "later s t"
  shows "pr_feeds t = pr_feeds s" "pr_items t = pr_items s" "pr_rules t = pr_rules s" "pr_matches t = pr_matches s"
    "pr_seen t = pr_seen s"
  using assms by (auto simp: later_def after_tick_def)

lemma wp_press_query [wp_rules]:
  assumes "\<And>t. later s t \<Longrightarrow> Q (Inl (RssStore SErrDB)) t \<and> Q (q t) t"
  shows "wp (press_query q) Q s"
  unfolding press_query_def wp_bind by (rule wp_query) (use assms in auto)

lemma reads_press_query:
  assumes "\<And>t x. later s t \<Longrightarrow> q t = Inr x \<Longrightarrow> P x"
  shows "reads P (press_query q) s"
  unfolding reads_def by (rule wp_press_query) (use assms in auto)

lemma wp_press_tx [wp_rules]:
  assumes "\<And>t err. later s t \<Longrightarrow> Q (Inl err) t"
    and "\<And>t a u. later s t \<Longrightarrow> body t = Inr (a, u) \<Longrightarrow> press_unique u \<Longrightarrow> press_refs u \<Longrightarrow>
      Q (Inr a) u \<and> Q (Inl (RssStore SErrDB)) u"
  shows "wp (press_tx body) Q s"
  unfolding press_tx_def wp_bind
  by (rule wp_tx) (use assms in \<open>auto split: sum.splits prod.splits if_splits\<close>)

text \<open>An \<open>UPDATE\<close> or \<open>DELETE\<close> that must address a row.\<close>

definition affecting :: "('a list \<times> nat) \<Rightarrow> ('a list \<Rightarrow> 's) \<Rightarrow> rss_error + (unit \<times> 's)" where
  "affecting r put = (if snd r = 0 then Inl RssNotFound else Inr ((), put (fst r)))"

subsection \<open>Feeds\<close>

definition unread_count :: "feed_item list \<Rightarrow> feed \<Rightarrow> nat" where
  "unread_count items f = length (filter (\<lambda>i. fi_feed_id i = fd_id f \<and> \<not> fi_read i) items)"

definition ListFeeds :: "('e, 'd, 'z, (feed \<times> nat) list) press_action" where
  "ListFeeds = press_query (\<lambda>s. Inr (map (\<lambda>f. (f, unread_count (pr_items s) f))
     (sort_key (\<lambda>f. (fd_title f, fd_id f)) (pr_feeds s))))"

definition FeedByID :: "string \<Rightarrow> ('e, 'd, 'z, feed \<times> nat) press_action" where
  "FeedByID fid = press_query (\<lambda>s. case sql_find (\<lambda>f. fd_id f = fid) (pr_feeds s) of
      None \<Rightarrow> Inl RssNotFound | Some f \<Rightarrow> Inr (f, unread_count (pr_items s) f))"

definition CreateFeed :: "feed \<Rightarrow> ('e, 'd, 'z, unit) press_action" where
  "CreateFeed f = press_tx (\<lambda>s. Inr ((), s\<lparr>pr_feeds := pr_feeds s @
     [f\<lparr>fd_etag := None, fd_last_modified := None, fd_ttl_minutes := None, fd_last_fetch_at := None,
        fd_last_success_at := None, fd_escalation_level := 0, fd_disabled_till := None, fd_last_error := None,
        fd_created_at := s_now s, fd_updated_at := s_now s\<rparr>]\<rparr>))"

definition queryUpdateFeed :: "feed \<Rightarrow> int \<Rightarrow> feed list \<Rightarrow> feed list \<times> nat" where
  "queryUpdateFeed f now = sql_update (\<lambda>r. fd_id r = fd_id f)
     (\<lambda>r. r\<lparr>fd_url := fd_url f, fd_title := fd_title f, fd_enabled := fd_enabled f,
        fd_refresh_interval_s := fd_refresh_interval_s f, fd_item_cap := fd_item_cap f,
        fd_priority := fd_priority f, fd_updated_at := now\<rparr>)"

definition UpdateFeed :: "feed \<Rightarrow> ('e, 'd, 'z, unit) press_action" where
  "UpdateFeed f = press_tx (\<lambda>s. affecting (queryUpdateFeed f (s_now s) (pr_feeds s)) (\<lambda>rows. s\<lparr>pr_feeds := rows\<rparr>))"

text \<open>\<open>ON DELETE SET NULL\<close>: a match forgets an item that is no longer stored.\<close>

definition null_gone :: "string list \<Rightarrow> rule_match list \<Rightarrow> rule_match list" where
  "null_gone ids ms = map (\<lambda>m. if refers (rm_feed_item_id m) ids then m else m\<lparr>rm_feed_item_id := None\<rparr>) ms"

text \<open>The items of a deleted feed go with it, and the matches keep a null reference to them.\<close>

definition DeleteFeed :: "string \<Rightarrow> ('e, 'd, 'z, unit) press_action" where
  "DeleteFeed fid = press_tx (\<lambda>s.
     affecting (sql_delete (\<lambda>f. fd_id f = fid) (pr_feeds s)) (\<lambda>rows. s\<lparr>
       pr_feeds := rows,
       pr_items := filter (\<lambda>i. fi_feed_id i \<noteq> fid) (pr_items s),
       pr_matches := null_gone (map fi_id (filter (\<lambda>i. fi_feed_id i \<noteq> fid) (pr_items s))) (pr_matches s)\<rparr>))"

definition is_due :: "int \<Rightarrow> feed \<Rightarrow> bool" where
  "is_due now f \<longleftrightarrow> fd_enabled f \<and> fd_next_fetch_at f \<le> now \<and>
     (case fd_disabled_till f of None \<Rightarrow> True | Some d \<Rightarrow> d \<le> now)"

definition queryDueFeeds :: "int \<Rightarrow> nat \<Rightarrow> feed list \<Rightarrow> feed list" where
  "queryDueFeeds now n rows = take n (sort_key (\<lambda>f. (fd_next_fetch_at f, fd_id f)) (filter (is_due now) rows))"

definition DueFeeds :: "int \<Rightarrow> int \<Rightarrow> ('e, 'd, 'z, feed list) press_action" where
  "DueFeeds now limit = (if limit < 1 then ret (Inr [])
     else press_query (\<lambda>s. Inr (queryDueFeeds now (nat limit) (pr_feeds s))))"

definition queryUpdateFeedFetchState :: "feed \<Rightarrow> int \<Rightarrow> feed list \<Rightarrow> feed list \<times> nat" where
  "queryUpdateFeedFetchState f now = sql_update (\<lambda>r. fd_id r = fd_id f)
     (\<lambda>r. r\<lparr>fd_etag := fd_etag f, fd_last_modified := fd_last_modified f, fd_ttl_minutes := fd_ttl_minutes f,
        fd_last_fetch_at := fd_last_fetch_at f, fd_last_success_at := fd_last_success_at f,
        fd_next_fetch_at := fd_next_fetch_at f, fd_escalation_level := fd_escalation_level f,
        fd_disabled_till := fd_disabled_till f, fd_last_error := fd_last_error f, fd_updated_at := now\<rparr>)"

definition UpdateFeedFetchState :: "feed \<Rightarrow> ('e, 'd, 'z, unit) press_action" where
  "UpdateFeedFetchState f = press_tx (\<lambda>s.
     affecting (queryUpdateFeedFetchState f (s_now s) (pr_feeds s)) (\<lambda>rows. s\<lparr>pr_feeds := rows\<rparr>))"

subsection \<open>Items\<close>

definition PrefixFeedItem :: string where "PrefixFeedItem = ''itm_''"

definition item_key :: "feed_item \<Rightarrow> string" where
  "item_key i = fi_feed_id i @ char_of (0 :: nat) # fi_identity i"

definition same_item :: "feed_item \<Rightarrow> feed_item \<Rightarrow> bool" where
  "same_item a b \<longleftrightarrow> fi_feed_id a = fi_feed_id b \<and> fi_identity a = fi_identity b"

text \<open>\<open>ON CONFLICT (feed_id, identity) DO UPDATE\<close>: only a title that changed is written.\<close>

definition queryUpsertFeedItem :: "feed_item \<Rightarrow> int \<Rightarrow> feed_item list \<Rightarrow> feed_item list" where
  "queryUpsertFeedItem i now rows =
     (if list_ex (same_item i) rows
      then map (\<lambda>r. if same_item i r \<and> fi_title r \<noteq> fi_title i then r\<lparr>fi_title := fi_title i, fi_updated_at := now\<rparr> else r) rows
      else rows @ [i\<lparr>fi_created_at := now, fi_updated_at := now\<rparr>])"

fun upsert_items ::
  "string list \<Rightarrow> int \<Rightarrow> feed_item list \<Rightarrow> string list \<Rightarrow> nat \<Rightarrow> ('e, 'd, 'z) press_scheme \<Rightarrow> nat \<times> ('e, 'd, 'z) press_scheme" where
  "upsert_items existing now [] seen inserted s = (inserted, s)"
| "upsert_items existing now (i # items) seen inserted s =
     (let (iid, s1) = (if fi_id i = '''' then NewID PrefixFeedItem s else (fi_id i, s));
          row = i\<lparr>fi_id := iid, fi_first_seen_at := (if fi_first_seen_at i = 0 then now else fi_first_seen_at i)\<rparr>;
          s2 = s1\<lparr>pr_items := queryUpsertFeedItem row now (pr_items s1)\<rparr>;
          k = item_key i in
      upsert_items existing now items (if k \<in> set seen then seen else k # seen)
        (if k \<notin> set seen \<and> k \<notin> set existing then Suc inserted else inserted) s2)"

definition UpsertFeedItems :: "feed_item list \<Rightarrow> int \<Rightarrow> ('e, 'd, 'z, nat) press_action" where
  "UpsertFeedItems items now = (if items = [] then ret (Inr 0)
     else press_tx (\<lambda>s. Inr (upsert_items
       (map item_key (filter (\<lambda>r. list_ex (\<lambda>i. same_item i r) items) (pr_items s))) now items [] 0 s)))"

definition feedItemSortKey :: "feed_item \<Rightarrow> int" where
  "feedItemSortKey i = (case fi_published_at i of None \<Rightarrow> fi_first_seen_at i | Some p \<Rightarrow> p)"

definition page_key :: "feed_item \<Rightarrow> int \<times> string" where
  "page_key i = (feedItemSortKey i, fi_id i)"

text \<open>\<open>ORDER BY COALESCE(published_at, first_seen_at) DESC, id DESC\<close>.\<close>

definition newest_first :: "feed_item list \<Rightarrow> feed_item list" where
  "newest_first rows = rev (sort_key page_key rows)"

definition queryTrimFeedItems :: "string \<Rightarrow> nat \<Rightarrow> feed_item list \<Rightarrow> feed_item list \<times> nat" where
  "queryTrimFeedItems fid cap rows =
     (let kept = map fi_id (take cap (newest_first (filter (\<lambda>i. fi_feed_id i = fid) rows))) in
      sql_delete (\<lambda>i. fi_feed_id i = fid \<and> fi_id i \<notin> set kept) rows)"

definition TrimFeedItems :: "string \<Rightarrow> int \<Rightarrow> ('e, 'd, 'z, nat) press_action" where
  "TrimFeedItems fid cap = (if cap \<le> 0 then ret (Inr 0)
     else press_tx (\<lambda>s. case queryTrimFeedItems fid (nat cap) (pr_items s) of
       (rows, n) \<Rightarrow> Inr (n, s\<lparr>pr_items := rows, pr_matches := null_gone (map fi_id rows) (pr_matches s)\<rparr>)))"

record item_filter =
  if_FeedIDs :: "string list"
  if_UnreadOnly :: bool
  if_Limit :: int

datatype item_token = NoItemToken | BadItemToken | ItemToken string int string

definition feedItemsDefaultLimit :: int where "feedItemsDefaultLimit = 50"
definition feedItemsMaxLimit :: int where "feedItemsMaxLimit = 200"

fun comma_joined :: "string list \<Rightarrow> string" where
  "comma_joined [] = ''''"
| "comma_joined [x] = x"
| "comma_joined (x # xs) = x @ CHR '','' # comma_joined xs"

definition feedItemFilterHash :: "(string \<Rightarrow> string) \<Rightarrow> item_filter \<Rightarrow> string" where
  "feedItemFilterHash sha f = sha (''feeds:'' @ comma_joined (sort (if_FeedIDs f)) @ char_of (0 :: nat) #
     ''unread:'' @ (if if_UnreadOnly f then ''true'' else ''false''))"

definition item_selected :: "item_filter \<Rightarrow> feed_item \<Rightarrow> bool" where
  "item_selected f i \<longleftrightarrow> (if_FeedIDs f = [] \<or> fi_feed_id i \<in> set (if_FeedIDs f)) \<and> (if_UnreadOnly f \<longrightarrow> \<not> fi_read i)"

fun decodeFeedItemCursor :: "item_token \<Rightarrow> (string \<times> int \<times> string) option" where
  "decodeFeedItemCursor (ItemToken h v i) = (if i = '''' then None else Some (h, v, i))"
| "decodeFeedItemCursor _ = None"

definition ListFeedItems ::
  "(string \<Rightarrow> string) \<Rightarrow> item_filter \<Rightarrow> item_token \<Rightarrow> ('e, 'd, 'z, feed_item list \<times> item_token \<times> nat) press_action" where
  "ListFeedItems sha f cursor =
     (let limit = (if if_Limit f = 0 then feedItemsDefaultLimit else if_Limit f);
          hash = feedItemFilterHash sha f in
      if limit < 1 \<or> feedItemsMaxLimit < limit then ret (Inl RssInput)
      else case (if cursor = NoItemToken then Some (hash, 0, '''') else decodeFeedItemCursor cursor) of
          None \<Rightarrow> ret (Inl RssStaleCursor)
        | Some (h, v, l) \<Rightarrow>
            if h \<noteq> hash then ret (Inl RssStaleCursor)
            else do {
              t \<leftarrow> press_query (\<lambda>s. Inr (length (filter (item_selected f) (pr_items s))));
              case t of Inl e \<Rightarrow> ret (Inl e) | Inr cnt \<Rightarrow> do {
                r \<leftarrow> press_query (\<lambda>s. Inr (take (nat limit + 1) (newest_first (filter
                  (\<lambda>i. item_selected f i \<and> (cursor = NoItemToken \<or> feedItemSortKey i < v \<or> (feedItemSortKey i = v \<and> fi_id i < l)))
                  (pr_items s)))));
                ret (case r of Inl e \<Rightarrow> Inl e | Inr items \<Rightarrow>
                  if length items \<le> nat limit then Inr (items, NoItemToken, cnt)
                  else (let page = take (nat limit) items in
                    Inr (page, ItemToken hash (feedItemSortKey (last page)) (fi_id (last page)), cnt)))
              }
            })"

definition querySetFeedItemsRead :: "bool \<Rightarrow> int \<Rightarrow> string \<Rightarrow> string list \<Rightarrow> feed_item list \<Rightarrow> feed_item list \<times> nat" where
  "querySetFeedItemsRead rd now fid ids = sql_update
     (\<lambda>i. fi_feed_id i = fid \<and> fi_read i \<noteq> rd \<and> fi_id i \<in> set ids) (\<lambda>i. i\<lparr>fi_read := rd, fi_updated_at := now\<rparr>)"

definition SetFeedItemsRead :: "string \<Rightarrow> string list \<Rightarrow> bool \<Rightarrow> int \<Rightarrow> ('e, 'd, 'z, nat) press_action" where
  "SetFeedItemsRead fid ids rd now = (if ids = [] then ret (Inr 0)
     else press_tx (\<lambda>s. case querySetFeedItemsRead rd now fid ids (pr_items s) of
       (rows, n) \<Rightarrow> Inr (n, s\<lparr>pr_items := rows\<rparr>)))"

definition MarkAllFeedItemsRead :: "string \<Rightarrow> int \<Rightarrow> ('e, 'd, 'z, nat) press_action" where
  "MarkAllFeedItemsRead fid now = press_tx (\<lambda>s.
     case sql_update (\<lambda>i. fi_feed_id i = fid \<and> \<not> fi_read i) (\<lambda>i. i\<lparr>fi_read := True, fi_updated_at := now\<rparr>) (pr_items s) of
       (rows, n) \<Rightarrow> Inr (n, s\<lparr>pr_items := rows\<rparr>))"

definition rule_order :: "'d rule list \<Rightarrow> 'd rule list" where
  "rule_order rows = sort_key (\<lambda>r. (ru_priority r, ru_name r)) rows"

text \<open>The rules of the matches of an item, as the join with \<open>rules\<close> lists them.\<close>

definition ListItemMatchedRules ::
  "string list \<Rightarrow> ('e, 'd, 'z, (string \<times> (string \<times> string) list) list) press_action" where
  "ListItemMatchedRules ids = (if ids = [] then ret (Inr [])
     else press_query (\<lambda>s. Inr (map (\<lambda>i. (i, concat (map (\<lambda>r. map (\<lambda>m. (ru_id r, ru_name r))
         (filter (\<lambda>m. rm_feed_item_id m = Some i \<and> rm_rule_id m = Some (ru_id r)) (pr_matches s))) (rule_order (pr_rules s)))))
       (filter (\<lambda>i. list_ex (\<lambda>m. rm_feed_item_id m = Some i \<and> rm_rule_id m \<noteq> None) (pr_matches s)) (remdups ids)))))"

subsection \<open>Rules\<close>

definition ListRules :: "bool \<Rightarrow> ('e, 'd, 'z, 'd rule list) press_action" where
  "ListRules enabledOnly = press_query (\<lambda>s. Inr (rule_order (filter (\<lambda>r. enabledOnly \<longrightarrow> ru_enabled r) (pr_rules s))))"

definition RuleByID :: "string \<Rightarrow> ('e, 'd, 'z, 'd rule) press_action" where
  "RuleByID rid = press_query (\<lambda>s. case sql_find (\<lambda>r. ru_id r = rid) (pr_rules s) of
      None \<Rightarrow> Inl RssNotFound | Some r \<Rightarrow> Inr r)"

definition RuleByName :: "string \<Rightarrow> ('e, 'd, 'z, 'd rule) press_action" where
  "RuleByName nm = press_query (\<lambda>s. case sql_find (\<lambda>r. ru_name r = nm) (pr_rules s) of
      None \<Rightarrow> Inl RssNotFound | Some r \<Rightarrow> Inr r)"

definition CreateRule :: "'d rule \<Rightarrow> ('e, 'd, 'z, unit) press_action" where
  "CreateRule r = press_tx (\<lambda>s. Inr ((), s\<lparr>pr_rules := pr_rules s @
     [r\<lparr>ru_last_match_at := None, ru_created_at := s_now s, ru_updated_at := s_now s\<rparr>]\<rparr>))"

definition queryUpdateRule :: "'d rule \<Rightarrow> int \<Rightarrow> 'd rule list \<Rightarrow> 'd rule list \<times> nat" where
  "queryUpdateRule r now = sql_update (\<lambda>x. ru_id x = ru_id r)
     (\<lambda>x. x\<lparr>ru_name := ru_name r, ru_enabled := ru_enabled r, ru_priority := ru_priority r,
        ru_definition := ru_definition r, ru_updated_at := now\<rparr>)"

definition UpdateRule :: "'d rule \<Rightarrow> ('e, 'd, 'z, unit) press_action" where
  "UpdateRule r = press_tx (\<lambda>s. affecting (queryUpdateRule r (s_now s) (pr_rules s)) (\<lambda>rows. s\<lparr>pr_rules := rows\<rparr>))"

definition DeleteRule :: "string \<Rightarrow> ('e, 'd, 'z, unit) press_action" where
  "DeleteRule rid = press_tx (\<lambda>s. affecting (sql_delete (\<lambda>r. ru_id r = rid) (pr_rules s)) (\<lambda>rows. s\<lparr>
     pr_rules := rows,
     pr_matches := map (\<lambda>m. if rm_rule_id m = Some rid then m\<lparr>rm_rule_id := None\<rparr> else m) (pr_matches s),
     pr_seen := filter (\<lambda>e. se_rule_id e \<noteq> rid) (pr_seen s)\<rparr>))"

text \<open>The watermark only moves forward, and \<open>updated_at\<close> moves with it only.\<close>

definition querySetRuleLastMatchAt :: "int \<Rightarrow> int \<Rightarrow> string \<Rightarrow> 'd rule list \<Rightarrow> 'd rule list \<times> nat" where
  "querySetRuleLastMatchAt at_ms now rid = sql_update (\<lambda>r. ru_id r = rid)
     (\<lambda>r. r\<lparr>ru_updated_at := (case ru_last_match_at r of None \<Rightarrow> now | Some l \<Rightarrow> if l < at_ms then now else ru_updated_at r),
        ru_last_match_at := Some (max (case ru_last_match_at r of None \<Rightarrow> at_ms | Some l \<Rightarrow> l) at_ms)\<rparr>)"

definition SetRuleLastMatchAt :: "string \<Rightarrow> int \<Rightarrow> ('e, 'd, 'z, unit) press_action" where
  "SetRuleLastMatchAt rid at_ms = press_tx (\<lambda>s.
     affecting (querySetRuleLastMatchAt at_ms (s_now s) rid (pr_rules s)) (\<lambda>rows. s\<lparr>pr_rules := rows\<rparr>))"

end
