(* ===== verification/Regex.thy ===== *)
theory Regex
  imports GoText
begin

section \<open>Regular expressions\<close>

text \<open>
  What the sources use of Go's \<open>regexp\<close>: a parsed pattern is a value of \<open>regex\<close>, a text is its runes, and
  \<open>matches\<close> lists the ends of all matches from a position with their captures, in the order of
  preference of a leftmost-first matcher, so that the first entry is the match Go reports. The parser of
  the pattern syntax and the folding of letters beyond ASCII are arguments (\<open>regexp_lib\<close>); the patterns
  that the sources fix are written out.
\<close>

datatype regex =
    Eps
  | Rune "nat \<Rightarrow> bool"
  | WordBoundary
  | Begin
  | End
  | Cat regex regex
  | Alt regex regex
  | Maybe regex
  | Star regex
  | Group nat regex

type_synonym captures = "(nat \<times> (nat \<times> nat)) list"

definition word_rune :: "nat \<Rightarrow> bool" where
  "word_rune r \<longleftrightarrow> (48 \<le> r \<and> r \<le> 57) \<or> (65 \<le> r \<and> r \<le> 90) \<or> r = 95 \<or> (97 \<le> r \<and> r \<le> 122)"

definition word_at :: "nat list \<Rightarrow> nat \<Rightarrow> bool" where
  "word_at w i \<longleftrightarrow> i < length w \<and> word_rune (w ! i)"

definition boundary :: "nat list \<Rightarrow> nat \<Rightarrow> bool" where
  "boundary w i \<longleftrightarrow> (0 < i \<and> word_at w (i - 1)) \<noteq> word_at w i"

text \<open>Greedy repetition; an iteration that consumes nothing ends it. The text bounds the iterations.\<close>

primrec stars ::
  "nat \<Rightarrow> (nat \<Rightarrow> captures \<Rightarrow> (nat \<times> captures) list) \<Rightarrow> nat \<Rightarrow> captures \<Rightarrow> (nat \<times> captures) list" where
  "stars 0 f i c = [(i, c)]"
| "stars (Suc n) f i c = concat (map (\<lambda>(j, d). if i < j then stars n f j d else []) (f i c)) @ [(i, c)]"

primrec matches :: "regex \<Rightarrow> nat list \<Rightarrow> nat \<Rightarrow> captures \<Rightarrow> (nat \<times> captures) list" where
  "matches Eps = (\<lambda>w i c. [(i, c)])"
| "matches (Rune p) = (\<lambda>w i c. if i < length w \<and> p (w ! i) then [(Suc i, c)] else [])"
| "matches WordBoundary = (\<lambda>w i c. if boundary w i then [(i, c)] else [])"
| "matches Begin = (\<lambda>w i c. if i = 0 then [(i, c)] else [])"
| "matches End = (\<lambda>w i c. if i = length w then [(i, c)] else [])"
| "matches (Cat r s) = (\<lambda>w i c. concat (map (\<lambda>(j, d). matches s w j d) (matches r w i c)))"
| "matches (Alt r s) = (\<lambda>w i c. matches r w i c @ matches s w i c)"
| "matches (Maybe r) = (\<lambda>w i c. matches r w i c @ [(i, c)])"
| "matches (Star r) = (\<lambda>w i c. stars (length w) (matches r w) i c)"
| "matches (Group k r) = (\<lambda>w i c. map (\<lambda>(j, d). (j, (k, (i, j)) # d)) (matches r w i c))"

text \<open>The leftmost match: its span in runes and its captures.\<close>

definition search :: "regex \<Rightarrow> nat list \<Rightarrow> (nat \<times> nat \<times> captures) option" where
  "search r w = (case List.find (\<lambda>i. matches r w i [] \<noteq> []) [0..<Suc (length w)] of
      None \<Rightarrow> None
    | Some i \<Rightarrow> (case hd (matches r w i []) of (j, c) \<Rightarrow> Some (i, j, c)))"

definition MatchString :: "regex \<Rightarrow> string \<Rightarrow> bool" where
  "MatchString r s \<longleftrightarrow> search r (runes s) \<noteq> None"

text \<open>The byte offset at which a rune of a string begins.\<close>

function widths :: "string \<Rightarrow> nat list" where
  "widths s = (if s = [] then [] else snd (DecodeRune s) # widths (drop (snd (DecodeRune s)) s))"
  by auto
termination
  by (relation "measure length") (auto simp: DecodeRune_width)

declare widths.simps [simp del]

definition byte_offset :: "string \<Rightarrow> nat \<Rightarrow> nat" where
  "byte_offset s i = sum_list (take i (widths s))"

definition FindStringIndex :: "regex \<Rightarrow> string \<Rightarrow> (nat \<times> nat) option" where
  "FindStringIndex r s = (case search r (runes s) of
      None \<Rightarrow> None | Some (i, j, c) \<Rightarrow> Some (byte_offset s i, byte_offset s j))"

text \<open>The text of a capture group, empty when the group took no part in the match.\<close>

definition group_text :: "string \<Rightarrow> captures \<Rightarrow> nat \<Rightarrow> string" where
  "group_text s c k = (case map_of c k of
      None \<Rightarrow> '''' | Some (i, j) \<Rightarrow> take (byte_offset s j - byte_offset s i) (drop (byte_offset s i) s))"

definition FindStringSubmatch :: "nat \<Rightarrow> regex \<Rightarrow> string \<Rightarrow> string list option" where
  "FindStringSubmatch n r s = (case search r (runes s) of
      None \<Rightarrow> None | Some (i, j, c) \<Rightarrow> Some (map (group_text s c) [1..<Suc n]))"

subsection \<open>Building patterns\<close>

definition digit :: "nat \<Rightarrow> bool" where "digit r \<longleftrightarrow> 48 \<le> r \<and> r \<le> 57"

definition cats :: "regex list \<Rightarrow> regex" where "cats rs = foldr Cat rs Eps"

text \<open>\<open>r{1,n}\<close> and \<open>r+\<close>.\<close>

primrec upto_times :: "nat \<Rightarrow> regex \<Rightarrow> regex" where
  "upto_times 0 r = Eps"
| "upto_times (Suc n) r = Maybe (Cat r (upto_times n r))"

definition one_to :: "nat \<Rightarrow> regex \<Rightarrow> regex" where "one_to n r = Cat r (upto_times (n - 1) r)"

definition exactly :: "nat \<Rightarrow> regex \<Rightarrow> regex" where "exactly n r = cats (replicate n r)"

definition plus :: "regex \<Rightarrow> regex" where "plus r = Cat r (Star r)"

text \<open>
  One literal rune, exact or under \<open>(?i)\<close>. Two ASCII letters fold with a letter beyond ASCII: the long s
  and the Kelvin sign.
\<close>

record regexp_lib = unicode +
  rx_fold :: "nat \<Rightarrow> nat \<Rightarrow> bool"
  rx_parse :: "string \<Rightarrow> regex option"

definition fold_rune :: "'z regexp_lib_scheme \<Rightarrow> nat \<Rightarrow> nat \<Rightarrow> bool" where
  "fold_rune lib a b \<longleftrightarrow>
     (let down = (\<lambda>r. if 65 \<le> r \<and> r \<le> 90 then r + 32 else if r = 0x17F then 115 else if r = 0x212A then 107 else r) in
      a = b \<or> (if down a < 128 \<or> down b < 128 then down a = down b else rx_fold lib a b))"

definition ci :: "char \<Rightarrow> regex" where
  "ci c = (let b = byte c in
     Rune (\<lambda>r. r = b \<or> (97 \<le> b \<and> b \<le> 122 \<and> r + 32 = b) \<or> (b = 115 \<and> r = 0x17F) \<or> (b = 107 \<and> r = 0x212A)))"

definition is_char :: "char \<Rightarrow> regex" where "is_char c = Rune (\<lambda>r. r = byte c)"

definition one_of :: "string \<Rightarrow> regex" where "one_of cs = Rune (\<lambda>r. r \<in> set (map byte cs))"

text \<open>\<open>.\<close> is any rune but a line feed.\<close>

definition dot :: regex where "dot = Rune (\<lambda>r. r \<noteq> 10)"

subsection \<open>The matcher\<close>

lemma stars_bounds:
  assumes f: "\<And>i c j d. (j, d) \<in> set (f i c) \<Longrightarrow> i \<le> j \<and> j \<le> max i n"
  shows "(j, d) \<in> set (stars k f i c) \<Longrightarrow> i \<le> j \<and> j \<le> max i n"
proof (induction k arbitrary: i c)
  case (Suc k)
  then consider "j = i" | a b where "(a, b) \<in> set (f i c)" "i < a" "(j, d) \<in> set (stars k f a b)"
    by (auto split: if_splits)
  then show ?case
  proof cases
    case 2
    with f [of a b i c] Suc.IH [of a b] show ?thesis by linarith
  qed simp
qed simp

text \<open>A match never runs backwards, and never past the text.\<close>

lemma matches_bounds:
  "(j, d) \<in> set (matches r w i c) \<Longrightarrow> i \<le> j \<and> j \<le> max i (length w)"
proof (induction r arbitrary: i j c d)
  case (Cat r s)
  then obtain k e where "(k, e) \<in> set (matches r w i c)" and "(j, d) \<in> set (matches s w k e)" by auto
  then have "i \<le> k" "k \<le> max i (length w)" "k \<le> j" "j \<le> max k (length w)"
    using Cat.IH(1) [of k e i c] Cat.IH(2) [of j d k e] by blast+
  then show ?case by linarith
next
  case (Star r)
  then show ?case using stars_bounds [of "matches r w" "length w" j d "length w" i c] by (simp del: max.bounded_iff)
next
  case (Alt r s)
  then show ?case by (simp only: matches.simps set_append Un_iff) blast
next
  case (Maybe r)
  then consider "(j, d) \<in> set (matches r w i c)" | "j = i" by auto
  then show ?case by cases (use Maybe.IH in blast, simp)
next
  case (Group k r)
  then obtain e where "(j, e) \<in> set (matches r w i c)" by auto
  then show ?case by (rule Group.IH)
qed (auto split: if_splits)

lemma find_append: "List.find P (xs @ ys) = (case List.find P xs of None \<Rightarrow> List.find P ys | Some x \<Rightarrow> Some x)"
  by (induction xs) auto

lemma first_start:
  "List.find P [0..<n] = Some i \<longleftrightarrow> i < n \<and> P i \<and> (\<forall>k < i. \<not> P k)"
proof (induction n arbitrary: i)
  case (Suc n)
  show ?case
  proof (cases "List.find P [0..<n]")
    case None
    then have "\<forall>k < n. \<not> P k" by (simp add: find_None_iff)
    moreover from None have "List.find P [0..<Suc n] = (if P n then Some n else None)"
      by (simp add: find_append)
    ultimately show ?thesis by (auto simp: less_Suc_eq)
  next
    case (Some a)
    then have "List.find P [0..<Suc n] = Some a" by (simp add: find_append)
    with Some Suc.IH [of a] Suc.IH [of i] show ?thesis by (auto simp: less_Suc_eq)
  qed
qed simp

lemma search_Some:
  assumes "search r w = Some (i, j, c)"
  shows "i \<le> j \<and> j \<le> length w \<and> (j, c) \<in> set (matches r w i []) \<and> (\<forall>k < i. matches r w k [] = [])"
proof -
  from assms obtain a where f: "List.find (\<lambda>i. matches r w i [] \<noteq> []) [0..<Suc (length w)] = Some a"
    by (auto simp only: search_def split: option.splits)
  with assms have a: "a = i" "hd (matches r w i []) = (j, c)" by (auto simp add: search_def split: prod.splits)
  from f have p: "i < Suc (length w)" "matches r w i [] \<noteq> []" "\<forall>k < i. matches r w k [] = []"
    unfolding first_start a(1) by simp_all
  then have "(j, c) \<in> set (matches r w i [])" using a(2) by (metis list.set_sel(1))
  with matches_bounds [OF this] p show ?thesis by simp
qed

lemma search_iff: "search r w \<noteq> None \<longleftrightarrow> (\<exists>i \<le> length w. matches r w i [] \<noteq> [])"
proof -
  have "search r w \<noteq> None \<longleftrightarrow> List.find (\<lambda>i. matches r w i [] \<noteq> []) [0..<Suc (length w)] \<noteq> None"
    by (simp add: search_def split: option.splits prod.splits)
  also have "\<dots> \<longleftrightarrow> (\<exists>i \<le> length w. matches r w i [] \<noteq> [])"
    unfolding find_None_iff by (auto simp: less_Suc_eq_le simp del: upt_Suc)
  finally show ?thesis .
qed

end
