(* ===== verification/RuleDoc.thy ===== *)
theory RuleDoc
  imports Regex
begin

section \<open>Rule documents\<close>

text \<open>
  \<open>src/internal/rss/ruledoc.go\<close> and \<open>episode.go\<close>: the document of a feed rule, its defaults and its
  validation, the patterns and sizes it carries, the filter of episodes and the key that identifies an
  episode in a title. A problem \<open>Validate\<close> reports is its location; the message is left out.
\<close>

record score_format =
  sf_Name :: string
  sf_Pattern :: string
  sf_Weight :: int

record score_spec =
  ss_Minimum :: int
  ss_Formats :: "score_format list"

record episode_spec =
  es_Smart :: bool
  es_Filter :: string
  es_AllowRepackProper :: "bool option"

record match_spec =
  ms_Mode :: string
  ms_CaseSensitive :: bool
  ms_Fields :: "string list"
  ms_AnyOf :: "string list"
  ms_NoneOf :: "string list"
  ms_MinSize :: string
  ms_MaxSize :: string
  ms_PublishedAfter :: string

record action_spec =
  as_Destination :: string
  as_Category :: string
  as_Tags :: "string list"
  as_Paused :: bool
  as_ContentLayout :: string
  as_Engine :: string

record throttle_spec =
  th_CooldownDays :: int
  th_MaxPerRun :: int

record rule_doc =
  rd_Name :: string
  rd_Enabled :: "bool option"
  rd_Priority :: int
  rd_Feeds :: "string list"
  rd_Match :: match_spec
  rd_Episode :: "episode_spec option"
  rd_Score :: "score_spec option"
  rd_Action :: action_spec
  rd_Throttle :: throttle_spec

text \<open>
  What else the documents need of the standard library: the value of a floating-point literal when it is a
  finite number, and the milliseconds of an RFC 3339 time.
\<close>

record rule_lib = regexp_lib +
  rl_float :: "string \<Rightarrow> rat option"
  rl_time :: "string \<Rightarrow> int option"

definition MatchModeWildcard :: string where "MatchModeWildcard = ''wildcard''"
definition MatchModeRegex :: string where "MatchModeRegex = ''regex''"
definition MatchModePlain :: string where "MatchModePlain = ''plain''"
definition matchFieldTitle :: string where "matchFieldTitle = ''title''"
definition contentLayouts :: "string list" where
  "contentLayouts = [''original'', ''subfolder'', ''no_subfolder'']"

definition maxPatternBytes :: nat where "maxPatternBytes = 1024"
definition maxScoreFormats :: nat where "maxScoreFormats = 32"

definition ApplyDefaults :: "rule_doc \<Rightarrow> rule_doc" where
  "ApplyDefaults d =
     (let m = rd_Match d;
          m1 = (if ms_Mode m = '''' then m\<lparr>ms_Mode := MatchModeWildcard\<rparr> else m);
          m2 = (if ms_Fields m1 = [] then m1\<lparr>ms_Fields := [matchFieldTitle]\<rparr> else m1) in
      d\<lparr>rd_Enabled := (case rd_Enabled d of None \<Rightarrow> Some True | e \<Rightarrow> e),
        rd_Match := m2,
        rd_Episode := map_option (\<lambda>e. case es_AllowRepackProper e of
            None \<Rightarrow> e\<lparr>es_AllowRepackProper := Some True\<rparr> | Some _ \<Rightarrow> e) (rd_Episode d)\<rparr>)"

subsection \<open>Patterns\<close>

text \<open>\<open>regexp.Compile\<close> refuses a text that is not UTF-8.\<close>

function valid_utf8 :: "string \<Rightarrow> bool" where
  "valid_utf8 s = (if s = [] then True
     else DecodeRune s \<noteq> (RuneError, 1) \<and> valid_utf8 (drop (snd (DecodeRune s)) s))"
  by auto
termination
  by (relation "measure length") (auto simp: DecodeRune_width)

declare valid_utf8.simps [simp del]

text \<open>A literal rune of a pattern, with or without \<open>(?i)\<close>.\<close>

definition literal :: "'z regexp_lib_scheme \<Rightarrow> bool \<Rightarrow> nat \<Rightarrow> regex" where
  "literal lib caseSensitive r = Rune (\<lambda>x. if caseSensitive then x = r else fold_rune lib r x)"

definition wildcard_rune :: "'z regexp_lib_scheme \<Rightarrow> bool \<Rightarrow> nat \<Rightarrow> regex" where
  "wildcard_rune lib cs r =
     (if r = byte (CHR ''*'') then Star dot else if r = byte (CHR ''?'') then dot else literal lib cs r)"

text \<open>
  The expression of an entry in a mode. The matcher recompiles it under \<open>(?i)\<close> unless the rule is case
  sensitive; for the modes whose text is quoted, that turns each literal into its folded one.
\<close>

definition compileMatchPattern :: "'z regexp_lib_scheme \<Rightarrow> bool \<Rightarrow> string \<Rightarrow> string \<Rightarrow> regex option" where
  "compileMatchPattern lib cs mode entry =
     (if mode = MatchModeRegex then
        (case rx_parse lib entry of None \<Rightarrow> None
         | Some r \<Rightarrow> if cs then Some r else rx_parse lib (''(?i)'' @ entry))
      else if mode = MatchModeWildcard then Some (cats (map (wildcard_rune lib cs) (runes entry)))
      else if valid_utf8 entry then Some (cats (map (literal lib cs) (runes entry)))
      else None)"

definition pattern_ok :: "'z regexp_lib_scheme \<Rightarrow> string \<Rightarrow> string \<Rightarrow> bool" where
  "pattern_ok lib mode entry \<longleftrightarrow>
     entry \<noteq> '''' \<and> length entry \<le> maxPatternBytes \<and> compileMatchPattern lib True mode entry \<noteq> None"

definition checkPattern :: "'z regexp_lib_scheme \<Rightarrow> string \<Rightarrow> string \<Rightarrow> string \<Rightarrow> string list" where
  "checkPattern lib location mode entry = (if pattern_ok lib mode entry then [] else [location])"

definition indexed :: "string \<Rightarrow> string \<Rightarrow> nat \<Rightarrow> string" where
  "indexed base suffix i = base @ ''['' @ format_nat i @ '']'' @ suffix"

definition check_entries :: "(string \<Rightarrow> 'a \<Rightarrow> string list) \<Rightarrow> string \<Rightarrow> string \<Rightarrow> 'a list \<Rightarrow> string list" where
  "check_entries check base suffix entries =
     concat (map (\<lambda>(i, e). check (indexed base suffix i) e) (zip [0..<length entries] entries))"

subsection \<open>Sizes\<close>

definition iecUnits :: "(string \<times> int) list" where
  "iecUnits = [(''eib'', 2 ^ 60), (''pib'', 2 ^ 50), (''tib'', 2 ^ 40), (''gib'', 2 ^ 30), (''mib'', 2 ^ 20),
     (''kib'', 2 ^ 10), (''b'', 1)]"

text \<open>The first unit that fits decides; a product of a double and a power of two is exact.\<close>

definition parseIECSize :: "'z rule_lib_scheme \<Rightarrow> string \<Rightarrow> int option" where
  "parseIECSize lib s =
     (let trimmed = ToLower (unicode.truncate lib) (TrimSpace s) in
      case List.find (\<lambda>(suffix, mult). HasSuffix trimmed suffix) iecUnits of
        None \<Rightarrow> None
      | Some (suffix, mult) \<Rightarrow>
          (case rl_float lib (TrimSpace (take (length trimmed - length suffix) trimmed)) of
             None \<Rightarrow> None
           | Some v \<Rightarrow> if 0 \<le> v \<and> v * of_int mult < 2 ^ 63 then Some (floor (v * of_int mult)) else None))"

subsection \<open>Episode filters\<close>

record episode_token =
  et_From :: int
  et_To :: int
  et_Open :: bool

record episode_filter =
  ef_Season :: int
  ef_Tokens :: "episode_token list"

definition IsZero :: "episode_filter \<Rightarrow> bool" where
  "IsZero f \<longleftrightarrow> ef_Season f = 0 \<and> ef_Tokens f = []"

definition stripLeadingZeros :: "string \<Rightarrow> string" where
  "stripLeadingZeros s =
     (let stripped = dropWhile (\<lambda>c. c = CHR ''0'') s in
      if stripped = '''' \<and> s \<noteq> '''' then ''0'' else stripped)"

text \<open>\<open>strconv.Atoi\<close> on a 64-bit platform.\<close>

abbreviation Atoi :: "string \<Rightarrow> int option" where "Atoi \<equiv> ParseInt64"

definition parseEpisodeToken :: "string \<Rightarrow> episode_token option" where
  "parseEpisodeToken token =
     (case Cut1 token CHR ''-'' of (from, to, ranged) \<Rightarrow>
        (case Atoi (stripLeadingZeros from) of
           None \<Rightarrow> None
         | Some a \<Rightarrow>
             if \<not> ranged then Some \<lparr>et_From = a, et_To = 0, et_Open = False\<rparr>
             else if to = '''' then Some \<lparr>et_From = a, et_To = - 1, et_Open = True\<rparr>
             else (case Atoi (stripLeadingZeros to) of
                None \<Rightarrow> None
              | Some b \<Rightarrow> if b < a then None else Some \<lparr>et_From = a, et_To = b, et_Open = False\<rparr>)))"

definition episodeFilterPattern :: regex where
  "episodeFilterPattern =
     cats [Begin, Group 1 (one_to 4 (Rune digit)), is_char CHR ''x'', Group 2 (Cat (Star dot) (is_char CHR '';'')), End]"

text \<open>\<open>None\<close> is the error.\<close>

definition ParseEpisodeFilter :: "string \<Rightarrow> episode_filter option" where
  "ParseEpisodeFilter s =
     (if s = '''' then Some \<lparr>ef_Season = 0, ef_Tokens = []\<rparr>
      else (case FindStringSubmatch 2 episodeFilterPattern s of
         Some [season, rest] \<Rightarrow>
           map_option (\<lambda>n. \<lparr>ef_Season = n,
             ef_Tokens = List.map_filter (\<lambda>t. if t = '''' then None else parseEpisodeToken t) (Split1 rest CHR '';'')\<rparr>)
             (Atoi (stripLeadingZeros season))
       | _ \<Rightarrow> None))"

subsection \<open>Validation\<close>

definition is_valid_mode :: "string \<Rightarrow> bool" where
  "is_valid_mode m \<longleftrightarrow> m \<in> set ['''', MatchModeWildcard, MatchModeRegex, MatchModePlain]"

definition check_sizes :: "'z rule_lib_scheme \<Rightarrow> match_spec \<Rightarrow> string list" where
  "check_sizes lib m =
     (if ms_MinSize m \<noteq> '''' \<and> parseIECSize lib (ms_MinSize m) = None then [''match.min_size''] else []) @
     (if ms_MaxSize m \<noteq> '''' \<and> parseIECSize lib (ms_MaxSize m) = None then [''match.max_size''] else []) @
     (if ms_MinSize m \<noteq> '''' \<and> ms_MaxSize m \<noteq> ''''
      then (case (parseIECSize lib (ms_MinSize m), parseIECSize lib (ms_MaxSize m)) of
              (Some a, Some b) \<Rightarrow> if b < a then [''match.max_size''] else []
            | _ \<Rightarrow> [])
      else [])"

definition check_filter :: "episode_spec option \<Rightarrow> string list" where
  "check_filter ep = (case ep of
      None \<Rightarrow> []
    | Some e \<Rightarrow> if es_Filter e = '''' then []
        else (case ParseEpisodeFilter (es_Filter e) of
           None \<Rightarrow> [''episode.filter'']
         | Some f \<Rightarrow> if IsZero f then [''episode.filter''] else []))"

definition check_score :: "'z rule_lib_scheme \<Rightarrow> score_spec option \<Rightarrow> string list" where
  "check_score lib sc = (case sc of
      None \<Rightarrow> []
    | Some s \<Rightarrow>
        (if maxScoreFormats < length (ss_Formats s) then [''score.formats''] else []) @
        check_entries (\<lambda>loc f. checkPattern lib loc MatchModeRegex (sf_Pattern f)) ''score.formats'' ''.pattern'' (ss_Formats s))"

definition Validate :: "'z rule_lib_scheme \<Rightarrow> rule_doc \<Rightarrow> string list" where
  "Validate lib d =
     (let m = rd_Match d in
      (if rd_Name d = '''' then [''name''] else []) @
      (if is_valid_mode (ms_Mode m) then [] else [''match.mode'']) @
      check_entries (\<lambda>loc f. if f = matchFieldTitle then [] else [loc]) ''match.fields'' '''' (ms_Fields m) @
      check_entries (\<lambda>loc. checkPattern lib loc (ms_Mode m)) ''match.any_of'' '''' (ms_AnyOf m) @
      check_entries (\<lambda>loc. checkPattern lib loc (ms_Mode m)) ''match.none_of'' '''' (ms_NoneOf m) @
      check_sizes lib m @
      (if ms_PublishedAfter m \<noteq> '''' \<and> rl_time lib (ms_PublishedAfter m) = None then [''match.published_after''] else []) @
      check_filter (rd_Episode d) @
      check_score lib (rd_Score d) @
      (if th_CooldownDays (rd_Throttle d) < 0 then [''throttle.cooldown_days''] else []) @
      (if th_MaxPerRun (rd_Throttle d) < 0 then [''throttle.max_per_run''] else []) @
      (if as_ContentLayout (rd_Action d) = '''' \<or> as_ContentLayout (rd_Action d) \<in> set contentLayouts then []
       else [''action.content_layout'']))"

subsection \<open>Episodes in titles\<close>

definition sep_class :: regex where "sep_class = Maybe (one_of '' -_.'')"

text \<open>\<open>(?:\D|\b)\<close> after a number, and \<open>(?:_|\b)\<close> around a key.\<close>

definition number_end :: regex where "number_end = Alt (Rune (\<lambda>r. \<not> digit r)) WordBoundary"
definition key_edge :: regex where "key_edge = Alt (is_char CHR ''_'') WordBoundary"
definition zero :: regex where "zero = Maybe (is_char CHR ''0'')"

definition partialPattern1 :: regex where
  "partialPattern1 = cats [WordBoundary, ci CHR ''s'', zero, Group 1 (one_to 4 (Rune digit)), sep_class, ci CHR ''e'',
     Group 2 (Cat zero (one_to 4 (Rune digit))), number_end]"

definition partialPattern2 :: regex where
  "partialPattern2 = cats [WordBoundary, Group 1 (one_to 4 (Rune digit)), ci CHR ''x'',
     Group 2 (Cat zero (one_to 4 (Rune digit))), number_end]"

definition date_sep :: regex where "date_sep = one_of ''.-''"
definition two :: regex where "two = one_to 2 (Rune digit)"
definition four :: regex where "four = exactly 4 (Rune digit)"

definition smartKeyPattern :: regex where
  "smartKeyPattern = cats [key_edge,
     Alt (cats [ci CHR ''s'', Group 1 (plus (Rune digit)), ci CHR ''e'', Group 2 (plus (Rune digit))])
    (Alt (cats [Group 3 (plus (Rune digit)), ci CHR ''x'', Group 4 (plus (Rune digit))])
    (Alt (Group 5 (cats [four, date_sep, two, date_sep, two]))
         (Group 6 (cats [two, date_sep, two, date_sep, four])))),
     key_edge]"

definition ParseSeasonEpisode :: "string \<Rightarrow> (int \<times> int) option" where
  "ParseSeasonEpisode title =
     (case (FindStringSubmatch 2 partialPattern1 title, FindStringSubmatch 2 partialPattern2 title) of
        (Some [s, e], _) \<Rightarrow> Some (case Atoi s of None \<Rightarrow> 0 | Some n \<Rightarrow> n, case Atoi e of None \<Rightarrow> 0 | Some n \<Rightarrow> n)
      | (_, Some [s, e]) \<Rightarrow> Some (case Atoi s of None \<Rightarrow> 0 | Some n \<Rightarrow> n, case Atoi e of None \<Rightarrow> 0 | Some n \<Rightarrow> n)
      | _ \<Rightarrow> None)"

definition digits_of :: "int \<Rightarrow> regex" where "digits_of n = cats (map is_char (Itoa n))"

definition singleEpisodePattern :: "int \<Rightarrow> int \<Rightarrow> regex" where
  "singleEpisodePattern season episode =
     cats [WordBoundary,
       Alt (cats [ci CHR ''s'', zero, digits_of season, sep_class, ci CHR ''e'', zero, digits_of episode])
           (cats [digits_of season, ci CHR ''x'', zero, digits_of episode]),
       number_end]"

definition tokenMatches :: "episode_filter \<Rightarrow> episode_token \<Rightarrow> string \<Rightarrow> bool" where
  "tokenMatches f t title =
     (if et_Open t then
        (case ParseSeasonEpisode title of None \<Rightarrow> False
         | Some (s, e) \<Rightarrow> ef_Season f < s \<or> (s = ef_Season f \<and> et_From t \<le> e))
      else if et_To t \<noteq> 0 then
        (case ParseSeasonEpisode title of None \<Rightarrow> False
         | Some (s, e) \<Rightarrow> s = ef_Season f \<and> et_From t \<le> e \<and> e \<le> et_To t)
      else MatchString (singleEpisodePattern (ef_Season f) (et_From t)) title)"

definition Match :: "episode_filter \<Rightarrow> string \<Rightarrow> bool" where
  "Match f title = (if ef_Season f = 0 \<and> ef_Tokens f = [] then True else list_ex (\<lambda>t. tokenMatches f t title) (ef_Tokens f))"

definition join_with :: "string \<Rightarrow> string list \<Rightarrow> string" where
  "join_with sep parts = (case parts of [] \<Rightarrow> '''' | p # ps \<Rightarrow> p @ concat (map (\<lambda>q. sep @ q) ps))"

definition SmartKey :: "string \<Rightarrow> string option" where
  "SmartKey title = map_option
     (\<lambda>groups. join_with ''x'' (map (\<lambda>g. case Atoi g of Some n \<Rightarrow> Itoa n | None \<Rightarrow> g) (filter (\<lambda>g. g \<noteq> '''') groups)))
     (FindStringSubmatch 6 smartKeyPattern title)"

text \<open>\<open>strings.Contains\<close>.\<close>

fun Contains :: "string \<Rightarrow> string \<Rightarrow> bool" where
  "Contains [] p = (p = [])"
| "Contains (c # cs) p = (HasPrefix (c # cs) p \<or> Contains cs p)"

definition RepackVariants :: "unicode \<Rightarrow> string \<Rightarrow> string \<Rightarrow> string list" where
  "RepackVariants u key title =
     (let upper = ToUpper u title in
      (if Contains upper ''REPACK'' then [key @ ''-REPACK''] else []) @
      (if Contains upper ''PROPER'' then [key @ ''-PROPER''] else []))"

end
