(* ===== verification/RuleMatch.thy ===== *)
theory RuleMatch
  imports Feeds RuleDoc Uri
begin

section \<open>Evaluating a rule\<close>

text \<open>
  \<open>src/internal/rss/match.go\<close>: a rule document prepared for one pass, the steps an item goes through, and
  the choice among the accepted candidates.

  \<^item> The questions about earlier grabs are an interface (\<open>rule_state\<close>): three actions, which may fail.
  \<^item> The detail of a rejection is the values its text prints.
  \<^item> Indexing past a slice is \<open>EvalPanic\<close>.
\<close>

subsection \<open>Decisions and candidates\<close>

definition ReasonCooldown :: string where "ReasonCooldown = ''cooldown''"
definition ReasonExcluded :: string where "ReasonExcluded = ''excluded''"
definition ReasonNoMatch :: string where "ReasonNoMatch = ''no_match''"
definition ReasonSize :: string where "ReasonSize = ''size''"
definition ReasonEpisodeFilter :: string where "ReasonEpisodeFilter = ''episode_filter''"
definition ReasonUnparseableEpisode :: string where "ReasonUnparseableEpisode = ''unparseable_episode''"
definition ReasonDuplicateEpisode :: string where "ReasonDuplicateEpisode = ''duplicate_episode''"
definition ReasonDuplicateInfoHash :: string where "ReasonDuplicateInfoHash = ''duplicate_infohash''"
definition ReasonAlreadyHave :: string where "ReasonAlreadyHave = ''already_have''"
definition ReasonBelowMinimumScore :: string where "ReasonBelowMinimumScore = ''below_minimum_score''"

datatype reason_detail =
    NoDetail | DCooldown int int | DExcluded nat string | DNoMatch nat string | DTooSmall int string
  | DTooLarge int string | DNoToken string | DNoKey | DSeenKey string | DHash string | DHave string int
  | DScore int int

record decision =
  de_ItemID :: string
  de_Matched :: bool
  de_Score :: int
  de_MatchedBy :: "string option"
  de_Reason :: string
  de_ReasonDetail :: reason_detail
  de_Highlight :: "nat \<times> nat"

record grab_candidate =
  ca_Item :: feed_item
  ca_FeedURL :: string
  ca_FeedPriority :: int
  ca_Score :: int
  ca_ContentKey :: string
  ca_EpisodeKey :: string
  ca_Engine :: string
  ca_Norm :: normalized
  ca_MatchedBy :: "string option"
  ca_stagedKeys :: "string list"

record feed_ref =
  fr_URL :: string
  fr_Priority :: int

datatype eval_error = EvalStore rss_error | EvalCompile string | EvalNoURL string | EvalPanic

record 's rule_state =
  HasInfoHash :: "string \<Rightarrow> ('s, rss_error + bool) action"
  SeenEpisode :: "string \<Rightarrow> string \<Rightarrow> ('s, rss_error + bool) action"
  BestScoreForContentKey :: "string \<Rightarrow> ('s, rss_error + int option) action"

definition asked :: "('s, rss_error + 'a) action \<Rightarrow> ('s, eval_error + 'a) action" where
  "asked m = do { r \<leftarrow> m; ret (case r of Inl err \<Rightarrow> Inl (EvalStore err) | Inr x \<Rightarrow> Inr x) }"

subsection \<open>Clauses\<close>

record clause =
  mc_raw :: string
  mc_parts :: "string list"
  mc_tokens :: "regex list"

text \<open>\<open>strings.Fields\<close>: the text before the next space, and what follows it.\<close>

definition at_space :: "string \<Rightarrow> bool" where
  "at_space s \<longleftrightarrow> list_ex (HasPrefix s) spaces"

fun cut_space :: "string \<Rightarrow> string \<times> string" where
  "cut_space [] = ([], [])"
| "cut_space (c # s) = (if at_space (c # s) then ([], c # s) else (case cut_space s of (w, rest) \<Rightarrow> (c # w, rest)))"

lemma cut_space_append: "cut_space s = (w, rest) \<Longrightarrow> s = w @ rest"
  by (induction s arbitrary: w rest) (auto split: if_splits prod.splits)

lemma trim_with_length: "length (trim_with es s) \<le> length s"
proof (induction es s rule: trim_with.induct)
  case (1 es s)
  then show ?case
    by (subst trim_with.simps) (auto split: option.splits intro: order_trans)
qed

lemma trim_spaces_no_space:
  assumes "trim_with spaces s \<noteq> []"
  shows "\<not> at_space (trim_with spaces s)"
proof -
  have "List.find (\<lambda>e. e \<noteq> [] \<and> HasPrefix (trim_with es s) e) es = None" for es s
  proof (induction es s rule: trim_with.induct)
    case (1 es s)
    then show ?case by (subst (1) trim_with.simps) (auto split: option.splits)
  qed
  then have "\<forall>x \<in> set spaces. x = [] \<or> \<not> HasPrefix (trim_with spaces s) x"
    by (auto simp: find_None_iff)
  moreover have "[] \<notin> set spaces" by (simp add: spaces_def EncodeRune_def)
  ultimately show ?thesis by (auto simp: at_space_def list_ex_iff)
qed

function Fields :: "string \<Rightarrow> string list" where
  "Fields s = (let t = trim_with spaces s in
     if t = '''' then [] else (case cut_space t of (w, rest) \<Rightarrow> w # Fields rest))"
  by auto
termination
proof (relation "measure length")
  fix s t w rest
  assume t: "t = trim_with spaces s" "t \<noteq> ''''" and cut: "(w, rest) = cut_space t"
  then have "\<not> at_space t" using trim_spaces_no_space by blast
  with cut t(2) have "w \<noteq> []" by (cases t) (auto split: prod.splits)
  with cut_space_append [of t w rest] cut have "length rest < length t" by auto
  then show "(rest, s) \<in> measure length" using trim_with_length [of spaces s] t(1) by simp
qed simp

declare Fields.simps [simp del]

definition compileClause :: "'z regexp_lib_scheme \<Rightarrow> string \<Rightarrow> string \<Rightarrow> bool \<Rightarrow> bool \<Rightarrow> clause option" where
  "compileClause lib mode entry caseSensitive tokenise =
     (let parts = (if tokenise \<and> mode \<noteq> MatchModeRegex then Fields entry else [entry]) in
      map_option (\<lambda>tokens. \<lparr>mc_raw = entry, mc_parts = parts, mc_tokens = tokens\<rparr>)
        (all_some (map (compileMatchPattern lib caseSensitive mode) parts)))"

subsection \<open>A prepared rule\<close>

definition millisPerDay :: int where "millisPerDay = 24 * 60 * 60 * 1000"

record rule_eval =
  re_doc :: rule_doc
  re_rule_id :: string
  re_last_match_at :: "int option"
  re_noneOf :: "clause list"
  re_anyOf :: "clause list"
  re_minSize :: "int option"
  re_maxSize :: "int option"
  re_publishedAfter :: "int option"
  re_filter :: "episode_filter option"
  re_smart :: bool
  re_allowRep :: bool
  re_scoreClauses :: "(regex \<times> int) list"
  re_scoreMinimum :: int
  re_cooldownMs :: int

text \<open>A bound of the document: absent, parsed, or an error that names its member.\<close>

definition bound :: "string \<Rightarrow> (string \<Rightarrow> int option) \<Rightarrow> string \<Rightarrow> eval_error + int option" where
  "bound member parse s = (if s = '''' then Inr None
     else (case parse s of None \<Rightarrow> Inl (EvalCompile member) | Some n \<Rightarrow> Inr (Some n)))"

definition eval_filter :: "episode_spec option \<Rightarrow> eval_error + episode_filter option" where
  "eval_filter ep = (case ep of
      None \<Rightarrow> Inr None
    | Some e \<Rightarrow> if es_Filter e = '''' then Inr None
        else (case ParseEpisodeFilter (es_Filter e) of
           None \<Rightarrow> Inl (EvalCompile ''episode.filter'')
         | Some f \<Rightarrow> if IsZero f then Inl (EvalCompile ''episode.filter'') else Inr (Some f)))"

definition newRuleEval :: "'z rule_lib_scheme \<Rightarrow> rule_doc \<Rightarrow> 'd rule \<Rightarrow> eval_error + rule_eval" where
  "newRuleEval lib doc rule =
     (let m = rd_Match doc;
          mode = (if ms_Mode m = '''' then MatchModeWildcard else ms_Mode m);
          fields = (if ms_Fields m = [] then [matchFieldTitle] else ms_Fields m);
          cs = ms_CaseSensitive m in
      if \<not> list_all (\<lambda>f. f = matchFieldTitle) fields then Inl (EvalCompile ''match.fields'')
      else case all_some (map (\<lambda>e. compileClause lib mode e cs False) (ms_NoneOf m)) of
        None \<Rightarrow> Inl (EvalCompile ''match.none_of'') | Some noneOf \<Rightarrow>
      case all_some (map (\<lambda>e. compileClause lib mode e cs True) (ms_AnyOf m)) of
        None \<Rightarrow> Inl (EvalCompile ''match.any_of'') | Some anyOf \<Rightarrow>
      case bound ''match.min_size'' (parseIECSize lib) (ms_MinSize m) of Inl e \<Rightarrow> Inl e | Inr minSize \<Rightarrow>
      case bound ''match.max_size'' (parseIECSize lib) (ms_MaxSize m) of Inl e \<Rightarrow> Inl e | Inr maxSize \<Rightarrow>
      case bound ''match.published_after'' (rl_time lib) (ms_PublishedAfter m) of Inl e \<Rightarrow> Inl e | Inr after \<Rightarrow>
      case eval_filter (rd_Episode doc) of Inl e \<Rightarrow> Inl e | Inr filt \<Rightarrow>
      case all_some (map (\<lambda>f. map_option (\<lambda>r. (r, sf_Weight f)) (rx_parse lib (''(?i)'' @ sf_Pattern f)))
          (case rd_Score doc of None \<Rightarrow> [] | Some s \<Rightarrow> ss_Formats s)) of
        None \<Rightarrow> Inl (EvalCompile ''score.formats'') | Some formats \<Rightarrow>
      Inr \<lparr>re_doc = doc\<lparr>rd_Match := m\<lparr>ms_Mode := mode, ms_Fields := fields\<rparr>\<rparr>,
        re_rule_id = ru_id rule, re_last_match_at = ru_last_match_at rule,
        re_noneOf = noneOf, re_anyOf = anyOf, re_minSize = minSize, re_maxSize = maxSize,
        re_publishedAfter = after, re_filter = filt,
        re_smart = (case rd_Episode doc of None \<Rightarrow> False | Some e \<Rightarrow> es_Smart e),
        re_allowRep = (case rd_Episode doc of None \<Rightarrow> False | Some e \<Rightarrow> es_AllowRepackProper e \<noteq> Some False),
        re_scoreClauses = formats,
        re_scoreMinimum = (case rd_Score doc of None \<Rightarrow> 0 | Some s \<Rightarrow> ss_Minimum s),
        re_cooldownMs = wrap64 (th_CooldownDays (rd_Throttle doc) * millisPerDay)\<rparr>)"

definition buildHaystack :: "feed_item \<Rightarrow> string list \<Rightarrow> string" where
  "buildHaystack item flds = join_with [chr 10] (map (\<lambda>_. fi_title item) (filter (\<lambda>f. f = matchFieldTitle) flds))"

definition matchAny :: "rule_eval \<Rightarrow> string \<Rightarrow> clause option" where
  "matchAny e haystack = List.find (\<lambda>c. list_all (\<lambda>t. MatchString t haystack) (mc_tokens c)) (re_anyOf e)"

text \<open>The entry with the fewest unmatched tokens, the earliest on a tie, and its first missing token.\<close>

fun closest_from :: "string \<Rightarrow> nat \<Rightarrow> (nat \<times> nat \<times> nat) option \<Rightarrow> clause list \<Rightarrow> (nat \<times> nat) option" where
  "closest_from hay i best [] = map_option snd best"
| "closest_from hay i best (c # cs) =
     (let misses = filter (\<lambda>j. \<not> MatchString (mc_tokens c ! j) hay) [0..<length (mc_tokens c)] in
      closest_from hay (Suc i)
        (if misses \<noteq> [] \<and> (case best of None \<Rightarrow> True | Some (fewest, _) \<Rightarrow> length misses < fewest)
         then Some (length misses, i, hd misses) else best) cs)"

definition closestMiss :: "rule_eval \<Rightarrow> string \<Rightarrow> nat \<times> nat" where
  "closestMiss e haystack = (case closest_from haystack 0 None (re_anyOf e) of None \<Rightarrow> (0, 0) | Some p \<Rightarrow> p)"

definition score :: "rule_eval \<Rightarrow> string \<Rightarrow> int" where
  "score e haystack = foldl (\<lambda>acc (r, weight). if MatchString r haystack then wrap64 (acc + weight) else acc) 0 (re_scoreClauses e)"

definition contentKeyFor :: "string \<Rightarrow> string \<Rightarrow> feed_item \<Rightarrow> string" where
  "contentKeyFor ruleID episodeKey item =
     (if episodeKey \<noteq> '''' then ''ep:'' @ ruleID @ '':'' @ episodeKey
      else (case fi_info_hash item of None \<Rightarrow> fi_identity item | Some h \<Rightarrow> if h \<noteq> '''' then h else fi_identity item))"

subsection \<open>The steps of an item\<close>

datatype 'a step = Dropped | Rejected string reason_detail | Passed 'a

definition excluded_by :: "rule_eval \<Rightarrow> string \<Rightarrow> nat option" where
  "excluded_by e haystack = List.find (\<lambda>i. MatchString (hd (mc_tokens (re_noneOf e ! i))) haystack) [0..<length (re_noneOf e)]"

definition size_step :: "rule_eval \<Rightarrow> feed_item \<Rightarrow> reason_detail option" where
  "size_step e item = (case fi_size_bytes item of
      None \<Rightarrow> None
    | Some n \<Rightarrow>
        if (case re_minSize e of None \<Rightarrow> False | Some lo \<Rightarrow> n < lo) then Some (DTooSmall n (ms_MinSize (rd_Match (re_doc e))))
        else if (case re_maxSize e of None \<Rightarrow> False | Some hi \<Rightarrow> hi < n) then Some (DTooLarge n (ms_MaxSize (rd_Match (re_doc e))))
        else None)"

definition in_cooldown :: "rule_eval \<Rightarrow> feed_item \<Rightarrow> bool" where
  "in_cooldown e item \<longleftrightarrow> 0 < re_cooldownMs e \<and> (case (re_last_match_at e, fi_published_at item) of
      (Some l, Some p) \<Rightarrow> p < wrap64 (l + re_cooldownMs e) | _ \<Rightarrow> False)"

definition before_floor :: "rule_eval \<Rightarrow> feed_item \<Rightarrow> bool" where
  "before_floor e item \<longleftrightarrow> (case (re_publishedAfter e, fi_published_at item) of
      (Some a, Some p) \<Rightarrow> p < a | _ \<Rightarrow> False)"

text \<open>Step 6: what matched and where, as \<open>any_of\<close> reports it; an entry without tokens is indexed past its end.\<close>

definition any_of_step :: "rule_eval \<Rightarrow> feed_item \<Rightarrow> string \<Rightarrow> eval_error + (string option \<times> (nat \<times> nat)) step" where
  "any_of_step e item haystack =
     (if re_anyOf e = [] then Inr (Passed (None, (0, 0)))
      else case matchAny e haystack of
        None \<Rightarrow> (case closestMiss e haystack of (i, j) \<Rightarrow>
          if i < length (re_anyOf e) \<and> j < length (mc_parts (re_anyOf e ! i))
          then Inr (Rejected ReasonNoMatch (DNoMatch i (mc_parts (re_anyOf e ! i) ! j)))
          else Inl EvalPanic)
      | Some c \<Rightarrow> (case mc_tokens c of
          [] \<Rightarrow> Inl EvalPanic
        | t # _ \<Rightarrow> Inr (Passed (Some (mc_raw c),
            case FindStringIndex t (fi_title item) of None \<Rightarrow> (0, 0) | Some loc \<Rightarrow> loc))))"

text \<open>Steps 2 to 8.\<close>

definition static_steps :: "rule_eval \<Rightarrow> feed_item \<Rightarrow> eval_error + (string option \<times> (nat \<times> nat)) step" where
  "static_steps e item =
     (let haystack = buildHaystack item (ms_Fields (rd_Match (re_doc e))) in
      if in_cooldown e item then
        Inr (Rejected ReasonCooldown (DCooldown (th_CooldownDays (rd_Throttle (re_doc e))) (the (re_last_match_at e))))
      else if before_floor e item then Inr Dropped
      else case excluded_by e haystack of
        Some i \<Rightarrow> Inr (Rejected ReasonExcluded (DExcluded i (mc_raw (re_noneOf e ! i))))
      | None \<Rightarrow> (case any_of_step e item haystack of
          Inr (Passed found) \<Rightarrow>
            (case size_step e item of
               Some d \<Rightarrow> Inr (Rejected ReasonSize d)
             | None \<Rightarrow>
                 if (case re_filter e of None \<Rightarrow> False | Some f \<Rightarrow> \<not> Match f (fi_title item))
                 then Inr (Rejected ReasonEpisodeFilter
                   (DNoToken (case rd_Episode (re_doc e) of None \<Rightarrow> '''' | Some ep \<Rightarrow> es_Filter ep)))
                 else Inr (Passed found))
        | other \<Rightarrow> other))"

text \<open>The variants that are not stored yet.\<close>

fun unseen :: "'s rule_state \<Rightarrow> string \<Rightarrow> string list \<Rightarrow> ('s, eval_error + string list) action" where
  "unseen st rid [] = ret (Inr [])"
| "unseen st rid (v # vs) = and_then (asked (SeenEpisode st rid v)) (\<lambda>seen.
     and_then (unseen st rid vs) (\<lambda>rest. ret (Inr (if seen then rest else v # rest))))"

text \<open>Step 9: the staged keys, the first of which is the key of the episode.\<close>

definition smart_step :: "unicode \<Rightarrow> 's rule_state \<Rightarrow> rule_eval \<Rightarrow> feed_item \<Rightarrow> ('s, eval_error + string list step) action" where
  "smart_step uc st e item =
     (if \<not> re_smart e then ret (Inr (Passed []))
      else case SmartKey (fi_title item) of
        None \<Rightarrow> ret (Inr (Rejected ReasonUnparseableEpisode DNoKey))
      | Some key \<Rightarrow> and_then (asked (SeenEpisode st (re_rule_id e) key)) (\<lambda>seen.
          if \<not> seen then ret (Inr (Passed [key]))
          else if \<not> re_allowRep e then ret (Inr (Rejected ReasonDuplicateEpisode (DSeenKey key)))
          else let variants = RepackVariants uc key (fi_title item) in
            if variants = [] then ret (Inr (Rejected ReasonDuplicateEpisode (DSeenKey key)))
            else and_then (unseen st (re_rule_id e) variants) (\<lambda>pending.
              ret (Inr (if pending = [] then Rejected ReasonDuplicateEpisode (DSeenKey (hd variants)) else Passed pending)))))"

text \<open>Step 10: the score of the item, or why it is already there.\<close>

definition hash_step :: "'s rule_state \<Rightarrow> feed_item \<Rightarrow> ('s, eval_error + bool) action" where
  "hash_step st item = (case fi_info_hash item of
      None \<Rightarrow> ret (Inr False)
    | Some h \<Rightarrow> if h = '''' then ret (Inr False) else asked (HasInfoHash st h))"

definition dedup_step :: "'s rule_state \<Rightarrow> feed_item \<Rightarrow> string \<Rightarrow> int \<Rightarrow> ('s, eval_error + unit step) action" where
  "dedup_step st item contentKey sc =
     and_then (hash_step st item) (\<lambda>dup.
       if dup then ret (Inr (Rejected ReasonDuplicateInfoHash (DHash (the (fi_info_hash item)))))
       else and_then (asked (BestScoreForContentKey st contentKey)) (\<lambda>best.
         ret (Inr (case best of
             None \<Rightarrow> Passed ()
           | Some b \<Rightarrow> if sc \<le> b then Rejected ReasonAlreadyHave (DHave contentKey b) else Passed ()))))"

definition rejected :: "string \<Rightarrow> int \<Rightarrow> string \<Rightarrow> reason_detail \<Rightarrow> decision" where
  "rejected iid sc reason detail = \<lparr>de_ItemID = iid, de_Matched = False, de_Score = sc, de_MatchedBy = None,
     de_Reason = reason, de_ReasonDetail = detail, de_Highlight = (0, 0)\<rparr>"

text \<open>Step 12: a link that no longer normalises or routes leaves without a decision.\<close>

definition collect_step ::
  "unicode \<Rightarrow> rule_eval \<Rightarrow> feed_item \<Rightarrow> feed_ref \<Rightarrow> string option \<times> (nat \<times> nat) \<Rightarrow> string list \<Rightarrow> string \<Rightarrow> int \<Rightarrow>
   eval_error + (decision \<times> grab_candidate) option" where
  "collect_step uc e item feed found staged contentKey sc = (case fi_download_url item of
      None \<Rightarrow> Inl (EvalNoURL (fi_identity item))
    | Some u \<Rightarrow> (case Normalize uc u of
        Inl _ \<Rightarrow> Inr None
      | Inr nz \<Rightarrow> (case Route nz None of
          None \<Rightarrow> Inr None
        | Some name \<Rightarrow> Inr (Some
            (\<lparr>de_ItemID = fi_id item, de_Matched = True, de_Score = sc, de_MatchedBy = fst found,
               de_Reason = '''', de_ReasonDetail = NoDetail, de_Highlight = snd found\<rparr>,
             \<lparr>ca_Item = item, ca_FeedURL = fr_URL feed, ca_FeedPriority = fr_Priority feed, ca_Score = sc,
               ca_ContentKey = contentKey, ca_EpisodeKey = (case staged of [] \<Rightarrow> '''' | k # _ \<Rightarrow> k),
               ca_Engine = name, ca_Norm = nz, ca_MatchedBy = fst found, ca_stagedKeys = staged\<rparr>)))))"

text \<open>One item: its decision, when it has one, and the candidate it became.\<close>

definition evaluateItem ::
  "unicode \<Rightarrow> 's rule_state \<Rightarrow> rule_eval \<Rightarrow> feed_item \<Rightarrow> feed_ref \<Rightarrow>
   ('s, eval_error + (decision option \<times> grab_candidate option)) action" where
  "evaluateItem uc st e item feed = (case static_steps e item of
      Inl err \<Rightarrow> ret (Inl err)
    | Inr Dropped \<Rightarrow> ret (Inr (None, None))
    | Inr (Rejected reason d) \<Rightarrow> ret (Inr (Some (rejected (fi_id item) 0 reason d), None))
    | Inr (Passed found) \<Rightarrow> and_then (smart_step uc st e item) (\<lambda>r. case r of
          Dropped \<Rightarrow> ret (Inr (None, None))
        | Rejected reason d \<Rightarrow> ret (Inr (Some (rejected (fi_id item) 0 reason d), None))
        | Passed staged \<Rightarrow>
            let sc = score e (buildHaystack item (ms_Fields (rd_Match (re_doc e))));
                contentKey = contentKeyFor (re_rule_id e) (case staged of [] \<Rightarrow> '''' | k # _ \<Rightarrow> k) item in
            and_then (dedup_step st item contentKey sc) (\<lambda>q. case q of
                Dropped \<Rightarrow> ret (Inr (None, None))
              | Rejected reason d \<Rightarrow> ret (Inr (Some (rejected (fi_id item) sc reason d), None))
              | Passed _ \<Rightarrow>
                  if sc < re_scoreMinimum e
                  then ret (Inr (Some (rejected (fi_id item) sc ReasonBelowMinimumScore (DScore sc (re_scoreMinimum e))), None))
                  else ret (case collect_step uc e item feed found staged contentKey sc of
                      Inl err \<Rightarrow> Inl err
                    | Inr None \<Rightarrow> Inr (None, None)
                    | Inr (Some (d, c)) \<Rightarrow> Inr (Some d, Some c)))))"

definition feed_of :: "(string \<times> feed_ref) list \<Rightarrow> string \<Rightarrow> feed_ref" where
  "feed_of feedByID fid = (case map_of feedByID fid of None \<Rightarrow> \<lparr>fr_URL = '''', fr_Priority = 0\<rparr> | Some f \<Rightarrow> f)"

fun evaluate_items ::
  "unicode \<Rightarrow> 's rule_state \<Rightarrow> rule_eval \<Rightarrow> string list \<Rightarrow> (string \<times> feed_ref) list \<Rightarrow> feed_item list \<Rightarrow>
   ('s, eval_error + (decision list \<times> grab_candidate list)) action" where
  "evaluate_items uc st e scope feedByID [] = ret (Inr ([], []))"
| "evaluate_items uc st e scope feedByID (item # items) =
     (let feed = feed_of feedByID (fi_feed_id item) in
      if scope \<noteq> [] \<and> fr_URL feed \<notin> set scope then evaluate_items uc st e scope feedByID items
      else and_then (evaluateItem uc st e item feed) (\<lambda>(d, c).
        and_then (evaluate_items uc st e scope feedByID items) (\<lambda>(ds, cs).
          ret (Inr ((case d of None \<Rightarrow> ds | Some x \<Rightarrow> x # ds), (case c of None \<Rightarrow> cs | Some x \<Rightarrow> x # cs))))))"

definition Evaluate ::
  "'z rule_lib_scheme \<Rightarrow> rule_doc \<Rightarrow> 'd rule \<Rightarrow> feed_item list \<Rightarrow> (string \<times> feed_ref) list \<Rightarrow> 's rule_state \<Rightarrow>
   ('s, eval_error + (decision list \<times> grab_candidate list)) action" where
  "Evaluate lib doc rule items feedByID st = (case newRuleEval lib doc rule of
      Inl err \<Rightarrow> ret (Inl err)
    | Inr e \<Rightarrow> evaluate_items (unicode.truncate lib) st e (rd_Feeds doc) feedByID items)"

subsection \<open>Choosing\<close>

definition published :: "grab_candidate \<Rightarrow> int" where
  "published c = (case fi_published_at (ca_Item c) of None \<Rightarrow> 0 | Some p \<Rightarrow> p)"

text \<open>The order of \<open>better\<close>: higher scores, then feeds of lower priority number, then newer items.\<close>

definition rank :: "grab_candidate \<Rightarrow> int \<times> int \<times> int" where
  "rank c = (- ca_Score c, ca_FeedPriority c, - published c)"

fun first_keys :: "string list \<Rightarrow> string list" where
  "first_keys [] = []"
| "first_keys (k # ks) = k # filter (\<lambda>x. x \<noteq> k) (first_keys ks)"

definition group_of :: "grab_candidate list \<Rightarrow> string \<Rightarrow> grab_candidate list" where
  "group_of cands k = sort_key rank (filter (\<lambda>c. ca_ContentKey c = k) cands)"

definition Resolve :: "grab_candidate list \<Rightarrow> grab_candidate list \<times> grab_candidate list" where
  "Resolve cands =
     (let order = first_keys (map ca_ContentKey cands) in
      (sort_key rank (map (\<lambda>k. hd (group_of cands k)) order), concat (map (\<lambda>k. tl (group_of cands k)) order)))"

end
