(* ===== verification/Grab.thy ===== *)
theory Grab
  imports RuleMatch
begin

section \<open>Committing the grabs of a rule\<close>

text \<open>
  \<open>src/internal/rss/grab.go\<close> and \<open>dryrun.go\<close>: the questions of the evaluation answered from the tables,
  the commit of the accepted candidates, the pass over one rule and over all rules, and the dry run.
  The path that creates a task (\<open>TaskCreator\<close>) is an argument: an action that answers an id or an error.
  Each statement outside an explicit transaction is a transaction of its own, so it meets its own fault.
\<close>

type_synonym ('e, 'z) rss_state = "('e, rule_doc, 'z) press_scheme"

record grab_request =
  gq_URI :: string
  gq_Destination :: string
  gq_Category :: string
  gq_Tags :: "string list"
  gq_Paused :: bool
  gq_ContentLayout :: string
  gq_Engine :: string
  gq_RuleID :: string
  gq_FeedItemID :: string

type_synonym ('e, 'z) task_creator = "grab_request \<Rightarrow> (('e, 'z) rss_state, string + string) action"

record commit_report =
  cr_Evaluated :: nat
  cr_Matched :: nat
  cr_CreatedTaskIDs :: "string list"
  cr_Fallbacks :: nat

definition matchQueued :: string where "matchQueued = ''queued''"
definition matchSent :: string where "matchSent = ''sent''"
definition matchFailed :: string where "matchFailed = ''failed''"
definition matchFallback :: string where "matchFallback = ''fallback''"

definition PrefixRuleMatch :: string where "PrefixRuleMatch = ''rma_''"

subsection \<open>The state of the database\<close>

definition holds_hash :: "string \<Rightarrow> task \<Rightarrow> bool" where
  "holds_hash hash r \<longleftrightarrow> t_state r \<noteq> StateRemoved \<and>
     ((length hash = 40 \<and> t_infohash_v1 r = Some hash) \<or> (length hash = 64 \<and> t_infohash_v2 r = Some hash))"

definition db_HasInfoHash :: "string \<Rightarrow> ('e, 'd, 'z, bool) press_action" where
  "db_HasInfoHash hash = and_then (press_query (\<lambda>s. Inr (list_ex (\<lambda>m. rm_info_hash m = Some hash) (pr_matches s))))
     (\<lambda>hit. if hit then ret (Inr True)
       else if length hash \<noteq> 40 \<and> length hash \<noteq> 64 then ret (Inr False)
       else press_query (\<lambda>s. Inr (list_ex (holds_hash hash) (s_tasks s))))"

definition db_SeenEpisode :: "string \<Rightarrow> string \<Rightarrow> ('e, 'd, 'z, bool) press_action" where
  "db_SeenEpisode ruleID key = press_query (\<lambda>s.
     Inr (list_ex (\<lambda>x. se_rule_id x = ruleID \<and> se_episode_key x = key) (pr_seen s)))"

definition sent_scores :: "string \<Rightarrow> rule_match list \<Rightarrow> int list" where
  "sent_scores key ms = map rm_score (filter (\<lambda>m. rm_content_key m = Some key \<and> rm_status m = matchSent) ms)"

definition db_BestScore :: "string \<Rightarrow> ('e, 'd, 'z, int option) press_action" where
  "db_BestScore key = press_query (\<lambda>s. Inr (case sent_scores key (pr_matches s) of
      [] \<Rightarrow> None | x # xs \<Rightarrow> Some (foldl max x xs)))"

definition dbState :: "('e, 'd, 'z) press_scheme rule_state" where
  "dbState = \<lparr>HasInfoHash = db_HasInfoHash, SeenEpisode = db_SeenEpisode, BestScoreForContentKey = db_BestScore\<rparr>"

definition StatelessState :: "'s rule_state" where
  "StatelessState = \<lparr>HasInfoHash = (\<lambda>_. ret (Inr False)), SeenEpisode = (\<lambda>_ _. ret (Inr False)),
     BestScoreForContentKey = (\<lambda>_. ret (Inr None))\<rparr>"

subsection \<open>Match rows\<close>

definition match_of :: "string \<Rightarrow> grab_candidate \<Rightarrow> rule_match \<Rightarrow> bool" where
  "match_of ruleID c m \<longleftrightarrow> rm_rule_id m = Some ruleID \<and> rm_feed_item_id m = Some (fi_id (ca_Item c))"

definition queryMoveMatch :: "string \<Rightarrow> string \<Rightarrow> grab_candidate \<Rightarrow> int \<Rightarrow> rule_match list \<Rightarrow> rule_match list \<times> nat" where
  "queryMoveMatch ruleID status c now = sql_update (match_of ruleID c)
     (\<lambda>m. m\<lparr>rm_status := status, rm_score := ca_Score c, rm_content_key := Some (ca_ContentKey c),
        rm_title := fi_title (ca_Item c), rm_reason := None, rm_task_id := None, rm_info_hash := None,
        rm_matched_at := now, rm_updated_at := now\<rparr>)"

definition new_match :: "string \<Rightarrow> string \<Rightarrow> string \<Rightarrow> grab_candidate \<Rightarrow> int \<Rightarrow> rule_match" where
  "new_match mid ruleID status c now = \<lparr>rm_id = mid, rm_rule_id = Some ruleID,
     rm_feed_item_id = Some (fi_id (ca_Item c)), rm_task_id = None, rm_info_hash = None,
     rm_content_key = Some (ca_ContentKey c), rm_title = fi_title (ca_Item c), rm_status = status,
     rm_reason = None, rm_score = ca_Score c, rm_matched_at = now, rm_created_at = now, rm_updated_at = now\<rparr>"

definition insert_match ::
  "string \<Rightarrow> string \<Rightarrow> grab_candidate \<Rightarrow> int \<Rightarrow> ('e, 'd, 'z) press_scheme \<Rightarrow> string \<times> ('e, 'd, 'z) press_scheme" where
  "insert_match ruleID status c now s = (case NewID PrefixRuleMatch s of
      (mid, s') \<Rightarrow> (mid, s'\<lparr>pr_matches := pr_matches s' @ [new_match mid ruleID status c now]\<rparr>))"

text \<open>\<open>upsertMatch\<close> in a transaction of its caller.\<close>

definition upsert_in_tx ::
  "string \<Rightarrow> string \<Rightarrow> grab_candidate \<Rightarrow> int \<Rightarrow> ('e, 'd, 'z) press_scheme \<Rightarrow> string \<times> ('e, 'd, 'z) press_scheme" where
  "upsert_in_tx ruleID status c now s = (case queryMoveMatch ruleID status c now (pr_matches s) of
      (rows, n) \<Rightarrow>
        if 0 < n then (case sql_find (match_of ruleID c) rows of
            Some m \<Rightarrow> (rm_id m, s\<lparr>pr_matches := rows\<rparr>)
          | None \<Rightarrow> ('''', s\<lparr>pr_matches := rows\<rparr>))
        else insert_match ruleID status c now s)"

text \<open>\<open>upsertMatch\<close> on the bare database: each statement stands alone.\<close>

definition upsertMatch :: "string \<Rightarrow> string \<Rightarrow> grab_candidate \<Rightarrow> int \<Rightarrow> ('e, 'd, 'z, string) press_action" where
  "upsertMatch ruleID status c now =
     and_then (press_tx (\<lambda>s. case queryMoveMatch ruleID status c now (pr_matches s) of
         (rows, n) \<Rightarrow> Inr (n, s\<lparr>pr_matches := rows\<rparr>)))
       (\<lambda>n. if 0 < n then press_query (\<lambda>s. case sql_find (match_of ruleID c) (pr_matches s) of
            None \<Rightarrow> Inl RssNotFound | Some m \<Rightarrow> Inr (rm_id m))
          else press_tx (\<lambda>s. Inr (insert_match ruleID status c now s)))"

definition queueMatch :: "string \<Rightarrow> grab_candidate \<Rightarrow> int \<Rightarrow> ('e, 'd, 'z, string) press_action" where
  "queueMatch ruleID c now = press_tx (\<lambda>s. Inr (upsert_in_tx ruleID matchQueued c now s))"

definition insert_seen :: "string \<Rightarrow> int \<Rightarrow> string \<Rightarrow> seen_episode list \<Rightarrow> seen_episode list" where
  "insert_seen ruleID now key rows =
     (if list_ex (\<lambda>x. se_rule_id x = ruleID \<and> se_episode_key x = key) rows then rows
      else rows @ [\<lparr>se_rule_id = ruleID, se_episode_key = key, se_seen_at = now\<rparr>])"

definition querySendMatch :: "string \<Rightarrow> string \<Rightarrow> grab_candidate \<Rightarrow> int \<Rightarrow> rule_match list \<Rightarrow> rule_match list \<times> nat" where
  "querySendMatch matchID taskID c now = sql_update (\<lambda>m. rm_id m = matchID)
     (\<lambda>m. m\<lparr>rm_status := matchSent, rm_task_id := Some taskID, rm_info_hash := fi_info_hash (ca_Item c), rm_updated_at := now\<rparr>)"

definition sendMatch :: "string \<Rightarrow> string \<Rightarrow> grab_candidate \<Rightarrow> string \<Rightarrow> int \<Rightarrow> ('e, 'd, 'z, unit) press_action" where
  "sendMatch matchID ruleID c taskID now = press_tx (\<lambda>s. Inr ((), s\<lparr>
     pr_matches := fst (querySendMatch matchID taskID c now (pr_matches s)),
     pr_seen := fold (insert_seen ruleID now) (ca_stagedKeys c) (pr_seen s)\<rparr>))"

definition failMatch :: "string \<Rightarrow> string \<Rightarrow> int \<Rightarrow> ('e, 'd, 'z, unit) press_action" where
  "failMatch matchID reason now = press_tx (\<lambda>s. Inr ((), s\<lparr>
     pr_matches := fst (sql_update (\<lambda>m. rm_id m = matchID)
       (\<lambda>m. m\<lparr>rm_status := matchFailed, rm_reason := Some reason, rm_updated_at := now\<rparr>) (pr_matches s))\<rparr>))"

subsection \<open>Commit\<close>

fun store_losers :: "string \<Rightarrow> int \<Rightarrow> grab_candidate list \<Rightarrow> ('e, 'd, 'z, unit) press_action" where
  "store_losers ruleID now [] = ret (Inr ())"
| "store_losers ruleID now (c # cs) = and_then (upsertMatch ruleID matchFallback c now) (\<lambda>_. store_losers ruleID now cs)"

definition request_of :: "rule_doc \<Rightarrow> string \<Rightarrow> grab_candidate \<Rightarrow> grab_request" where
  "request_of doc ruleID c = (let a = rd_Action doc in
     \<lparr>gq_URI = (case fi_download_url (ca_Item c) of None \<Rightarrow> '''' | Some u \<Rightarrow> u),
      gq_Destination = as_Destination a, gq_Category = as_Category a, gq_Tags = as_Tags a, gq_Paused = as_Paused a,
      gq_ContentLayout = as_ContentLayout a, gq_Engine = as_Engine a, gq_RuleID = ruleID,
      gq_FeedItemID = fi_id (ca_Item c)\<rparr>)"

text \<open>
  One winner: \<open>None\<close> is a refused hand-off, \<open>Some\<close> the id of the task. The row is queued before the
  hand-off, and moved after it.
\<close>

definition grab_one ::
  "rule_doc \<Rightarrow> string \<Rightarrow> ('e, 'z) task_creator \<Rightarrow> int \<Rightarrow> grab_candidate \<Rightarrow>
   ('e, rule_doc, 'z, string option) press_action" where
  "grab_one doc ruleID tc now c = and_then (queueMatch ruleID c now) (\<lambda>matchID. do {
     r \<leftarrow> tc (request_of doc ruleID c);
     case r of
       Inl reason \<Rightarrow> and_then (failMatch matchID reason now) (\<lambda>_. ret (Inr None))
     | Inr taskID \<Rightarrow> and_then (sendMatch matchID ruleID c taskID now) (\<lambda>_. ret (Inr (Some taskID)))
   })"

text \<open>The grabs so far: each with the candidate and its task. An error ends the loop and keeps them.\<close>

fun grab_winners ::
  "rule_doc \<Rightarrow> string \<Rightarrow> ('e, 'z) task_creator \<Rightarrow> int \<Rightarrow> grab_candidate list \<Rightarrow> (grab_candidate \<times> string) list \<Rightarrow>
   (('e, 'z) rss_state, rss_error option \<times> (grab_candidate \<times> string) list) action" where
  "grab_winners doc ruleID tc now [] got = ret (None, got)"
| "grab_winners doc ruleID tc now (c # cs) got =
     (if 0 < th_MaxPerRun (rd_Throttle doc) \<and> th_MaxPerRun (rd_Throttle doc) \<le> int (length got) then ret (None, got)
      else do {
        r \<leftarrow> grab_one doc ruleID tc now c;
        case r of
          Inl err \<Rightarrow> ret (Some err, got)
        | Inr None \<Rightarrow> grab_winners doc ruleID tc now cs got
        | Inr (Some taskID) \<Rightarrow> grab_winners doc ruleID tc now cs (got @ [(c, taskID)])
      })"

definition CommitGrabs ::
  "rule_doc \<Rightarrow> string \<Rightarrow> grab_candidate list \<Rightarrow> ('e, 'z) task_creator \<Rightarrow> int \<Rightarrow>
   (('e, 'z) rss_state, rss_error option \<times> commit_report) action" where
  "CommitGrabs doc ruleID cands tc now =
     (case Resolve cands of (winners, losers) \<Rightarrow>
      let report = \<lparr>cr_Evaluated = 0, cr_Matched = length cands, cr_CreatedTaskIDs = [], cr_Fallbacks = length losers\<rparr> in
      do {
        l \<leftarrow> store_losers ruleID now losers;
        case l of Inl err \<Rightarrow> ret (Some err, report) | Inr _ \<Rightarrow> do {
          r \<leftarrow> grab_winners doc ruleID tc now winners [];
          case r of (err, got) \<Rightarrow>
            let report' = report\<lparr>cr_CreatedTaskIDs := map snd got\<rparr> in
            if err \<noteq> None then ret (err, report')
            else if got = [] then ret (None, report')
            else do {
              w \<leftarrow> SetRuleLastMatchAt ruleID (published (fst (last got)));
              ret (case w of Inl e \<Rightarrow> Some e | Inr _ \<Rightarrow> None, report')
            }
        }
      })"

subsection \<open>The items of a pass\<close>

record dry_run_request =
  dq_Rule :: rule_doc
  dq_FeedIDs :: "string list"
  dq_Limit :: int
  dq_IgnoreState :: bool
  dq_Titles :: "string list"

definition dryRunPageLimit :: int where "dryRunPageLimit = 200"
definition dryRunDefaultLimit :: int where "dryRunDefaultLimit = 200"
definition dryRunMaxLimit :: int where "dryRunMaxLimit = 500"
definition dryRunMaxTitles :: nat where "dryRunMaxTitles = 50"

definition select_feeds :: "string list \<Rightarrow> string list \<Rightarrow> feed list \<Rightarrow> rss_error + feed list" where
  "select_feeds ids urls feeds =
     (if ids \<noteq> [] then
        (if list_all (\<lambda>i. list_ex (\<lambda>f. fd_id f = i) feeds) ids
         then Inr (map (\<lambda>i. the (sql_find (\<lambda>f. fd_id f = i) feeds)) (first_keys ids)) else Inl RssNotFound)
      else if urls \<noteq> [] then Inr (filter (\<lambda>f. fd_url f \<in> set urls) feeds)
      else Inr (filter fd_enabled feeds))"

definition dryRunFeeds :: "string list \<Rightarrow> string list \<Rightarrow> ('e, 'd, 'z, feed list) press_action" where
  "dryRunFeeds ids urls = and_then ListFeeds (\<lambda>feeds. ret (select_feeds ids urls (map fst feeds)))"

text \<open>
  The pages of a feed up to a number of items. A page that is followed by another is full, so what remains
  to be collected falls by its size.
\<close>

function newestFeedItems ::
  "(string \<Rightarrow> string) \<Rightarrow> string \<Rightarrow> int \<Rightarrow> item_token \<Rightarrow> ('e, 'd, 'z, feed_item list) press_action" where
  "newestFeedItems sha fid remaining cursor =
     (if remaining \<le> 0 then ret (Inr [])
      else and_then (ListFeedItems sha \<lparr>if_FeedIDs = [fid], if_UnreadOnly = False, if_Limit = min remaining dryRunPageLimit\<rparr> cursor)
        (\<lambda>(batch, next, _). if next = NoItemToken then ret (Inr batch)
          else and_then (newestFeedItems sha fid (remaining - min remaining dryRunPageLimit) next)
            (\<lambda>rest. ret (Inr (batch @ rest)))))"
  by auto
termination
  by (relation "measure (\<lambda>(_, _, n, _). nat n)") (auto simp: dryRunPageLimit_def)

declare newestFeedItems.simps [simp del]

fun items_of_feeds ::
  "(string \<Rightarrow> string) \<Rightarrow> int \<Rightarrow> feed list \<Rightarrow> ('e, 'd, 'z, feed_item list) press_action" where
  "items_of_feeds sha limit [] = ret (Inr [])"
| "items_of_feeds sha limit (f # fs) = and_then (newestFeedItems sha (fd_id f) limit NoItemToken) (\<lambda>batch.
     and_then (items_of_feeds sha limit fs) (\<lambda>rest. ret (Inr (batch @ rest))))"

definition merge_newest :: "feed_item list \<Rightarrow> feed_item list" where
  "merge_newest items = rev (sort_key page_key (rev items))"

definition feed_refs :: "feed list \<Rightarrow> (string \<times> feed_ref) list" where
  "feed_refs feeds = map (\<lambda>f. (fd_id f, \<lparr>fr_URL = fd_url f, fr_Priority = fd_priority f\<rparr>)) (rev feeds)"

subsection \<open>Passes\<close>

datatype run_error = RunStore rss_error | RunDecode | RunEval eval_error

definition maxInt :: int where "maxInt = 2 ^ 63 - 1"

definition storedRuleDoc :: "rule_doc rule \<Rightarrow> rule_doc option" where
  "storedRuleDoc r = map_option ApplyDefaults (ru_definition r)"

definition noted :: "(rss_error \<Rightarrow> 'x) \<Rightarrow> ('s, rss_error + 'a) action \<Rightarrow> ('s, 'x + 'a) action" where
  "noted f m = do { r \<leftarrow> m; ret (case r of Inl err \<Rightarrow> Inl (f err) | Inr x \<Rightarrow> Inr x) }"

definition evaluated :: "('s, eval_error + 'a) action \<Rightarrow> ('s, run_error + 'a) action" where
  "evaluated m = do { r \<leftarrow> m; ret (case r of Inl err \<Rightarrow> Inl (RunEval err) | Inr x \<Rightarrow> Inr x) }"

text \<open>The result of a pass: an error before the commit, or the report with the error of the commit.\<close>

definition RunRule ::
  "'y rule_lib_scheme \<Rightarrow> (string \<Rightarrow> string) \<Rightarrow> string \<Rightarrow> int \<Rightarrow> ('e, 'z) task_creator \<Rightarrow> int \<Rightarrow>
   (('e, 'z) rss_state, run_error + (rss_error option \<times> commit_report)) action" where
  "RunRule lib sha ruleID limit tc now =
     and_then (noted RunStore (RuleByID ruleID)) (\<lambda>rule.
       case storedRuleDoc rule of None \<Rightarrow> ret (Inl RunDecode) | Some doc \<Rightarrow>
       and_then (noted RunStore (dryRunFeeds [] (rd_Feeds doc))) (\<lambda>feeds.
       and_then (noted RunStore (items_of_feeds sha (if limit \<le> 0 then maxInt else limit) feeds)) (\<lambda>items.
       and_then (evaluated (Evaluate lib doc rule (merge_newest items) (feed_refs feeds) dbState)) (\<lambda>(decisions, cands). do {
         (err, report) \<leftarrow> CommitGrabs doc (ru_id rule) cands tc now;
         ret (Inr (err, report\<lparr>cr_Evaluated := length decisions\<rparr>))
       }))))"

text \<open>All enabled rules over the items of one feed; a rule that fails does not stop the others.\<close>

fun run_rules ::
  "'y rule_lib_scheme \<Rightarrow> feed \<Rightarrow> feed_item list \<Rightarrow> ('e, 'z) task_creator \<Rightarrow> int \<Rightarrow> rule_doc rule list \<Rightarrow>
   (('e, 'z) rss_state, run_error list) action" where
  "run_rules lib feed items tc now [] = ret []"
| "run_rules lib feed items tc now (rule # rules) = do {
     errs \<leftarrow> (case storedRuleDoc rule of None \<Rightarrow> ret [RunDecode] | Some doc \<Rightarrow> do {
       r \<leftarrow> Evaluate lib doc rule items (feed_refs [feed]) dbState;
       case r of Inl err \<Rightarrow> ret [RunEval err] | Inr (_, cands) \<Rightarrow> do {
         (err, _) \<leftarrow> CommitGrabs doc (ru_id rule) cands tc now;
         ret (case err of None \<Rightarrow> [] | Some e \<Rightarrow> [RunStore e])
       }
     });
     rest \<leftarrow> run_rules lib feed items tc now rules;
     ret (errs @ rest)
   }"

definition RunAllRules ::
  "'y rule_lib_scheme \<Rightarrow> (string \<Rightarrow> string) \<Rightarrow> string \<Rightarrow> ('e, 'z) task_creator \<Rightarrow> int \<Rightarrow>
   (('e, 'z) rss_state, run_error list) action" where
  "RunAllRules lib sha feedID tc now = do {
     r \<leftarrow> and_then (FeedByID feedID) (\<lambda>(feed, _). and_then (ListRules True) (\<lambda>rules.
       and_then (newestFeedItems sha feedID maxInt NoItemToken) (\<lambda>items. ret (Inr (feed, rules, items)))));
     case r of
       Inl err \<Rightarrow> ret [RunStore err]
     | Inr (feed, rules, items) \<Rightarrow> run_rules lib feed items tc now rules
   }"

subsection \<open>Dry run\<close>

record dry_run_item =
  di_FeedID :: "string option"
  di_Feed :: "string option"
  di_Title :: string
  di_PublishedAt :: "int option"
  di_DownloadURL :: "string option"
  di_Matched :: bool
  di_Score :: int
  di_MatchedBy :: "string option"
  di_Highlight :: "(nat \<times> nat) option"
  di_WouldDo :: "(string \<times> string \<times> string list \<times> bool) option"
  di_Reason :: string
  di_ReasonDetail :: reason_detail

text \<open>The items of the titles a panel tests; the digest of the synthetic magnet is an argument.\<close>

definition title_item :: "(string \<Rightarrow> string) \<Rightarrow> nat \<Rightarrow> string \<Rightarrow> feed_item" where
  "title_item sha1hex i title = (let iid = ''titles:'' @ format_nat i in
     \<lparr>fi_id = iid, fi_feed_id = '''', fi_guid = None, fi_identity = iid, fi_title = title, fi_title_norm = '''',
      fi_link = None, fi_download_url = Some (''magnet:?xt=urn:btih:'' @ sha1hex (format_nat i @ chr 0 # title)),
      fi_info_hash = None, fi_size_bytes = None, fi_published_at = None, fi_read = False, fi_first_seen_at = 0,
      fi_raw_json = None, fi_created_at = 0, fi_updated_at = 0\<rparr>)"

definition synthesizeTitleItems ::
  "(string \<Rightarrow> string) \<Rightarrow> string list \<Rightarrow> rule_doc \<Rightarrow> feed_item list \<times> (string \<times> feed_ref) list" where
  "synthesizeTitleItems sha1hex titles doc =
     (map (\<lambda>(i, t). title_item sha1hex i t) (zip [0..<length titles] titles),
      [('''', \<lparr>fr_URL = (case rd_Feeds doc of [] \<Rightarrow> '''' | u # _ \<Rightarrow> u), fr_Priority = 0\<rparr>)])"

definition dry_row :: "bool \<Rightarrow> rule_doc \<Rightarrow> feed list \<Rightarrow> feed_item list \<Rightarrow> decision \<Rightarrow> dry_run_item" where
  "dry_row titles doc feeds items d =
     (let item = (case sql_find (\<lambda>i. fi_id i = de_ItemID d) (rev items) of Some i \<Rightarrow> i | None \<Rightarrow> title_item (\<lambda>_. '''') 0 '''');
          name = (case sql_find (\<lambda>f. fd_id f = fi_feed_id item) feeds of
             None \<Rightarrow> '''' | Some f \<Rightarrow> (case fd_title f of None \<Rightarrow> fd_url f | Some t \<Rightarrow> t));
          a = rd_Action doc in
      \<lparr>di_FeedID = (if titles then None else Some (fi_feed_id item)),
       di_Feed = (if titles then None else Some name),
       di_Title = fi_title item,
       di_PublishedAt = fi_published_at item,
       di_DownloadURL = (if titles then None else Some (case fi_download_url item of None \<Rightarrow> '''' | Some u \<Rightarrow> u)),
       di_Matched = de_Matched d,
       di_Score = de_Score d,
       di_MatchedBy = (if de_Matched d then de_MatchedBy d else None),
       di_Highlight = (if de_Matched d \<and> fst (de_Highlight d) < snd (de_Highlight d) then Some (de_Highlight d) else None),
       di_WouldDo = (if de_Matched d then Some (as_Destination a, as_Category a, as_Tags a, as_Paused a) else None),
       di_Reason = (if de_Matched d then '''' else de_Reason d),
       di_ReasonDetail = (if de_Matched d then NoDetail else de_ReasonDetail d)\<rparr>)"

definition unsaved :: "rule_doc \<Rightarrow> rule_doc rule" where
  "unsaved doc = \<lparr>ru_id = '''', ru_name = rd_Name doc, ru_enabled = False, ru_priority = 0, ru_definition = None,
     ru_last_match_at = None, ru_created_at = 0, ru_updated_at = 0\<rparr>"

definition DryRun ::
  "'y rule_lib_scheme \<Rightarrow> (string \<Rightarrow> string) \<Rightarrow> (string \<Rightarrow> string) \<Rightarrow> dry_run_request \<Rightarrow>
   (('e, 'z) rss_state, run_error + dry_run_item list) action" where
  "DryRun lib sha sha1hex req =
     (let doc = ApplyDefaults (dq_Rule req);
          limit = (if dq_Limit req \<le> 0 then dryRunDefaultLimit else min (dq_Limit req) dryRunMaxLimit) in
      if dq_Titles req \<noteq> [] then
        (if dryRunMaxTitles < length (dq_Titles req) then ret (Inl (RunStore RssInput))
         else case synthesizeTitleItems sha1hex (dq_Titles req) doc of (items, refs) \<Rightarrow>
           and_then (evaluated (Evaluate lib doc (unsaved doc) items refs StatelessState)) (\<lambda>(decisions, _).
             ret (Inr (map (dry_row True doc [] items) decisions))))
      else and_then (noted RunStore (dryRunFeeds (dq_FeedIDs req) (rd_Feeds doc))) (\<lambda>feeds.
        and_then (noted RunStore (items_of_feeds sha limit feeds)) (\<lambda>batch.
        let items = merge_newest batch in
        and_then (evaluated (Evaluate lib doc (unsaved doc) items (feed_refs feeds)
            (if dq_IgnoreState req then StatelessState else dbState))) (\<lambda>(decisions, _).
          ret (Inr (map (dry_row False doc feeds items) decisions))))))"

end
