(* ===== verification/RuleProps.thy ===== *)
theory RuleProps
  imports Grab UriProps "HOL-Library.Sublist"
begin

section \<open>Properties of the feed rules\<close>

text \<open>
  The choice among candidates is a choice of the best of each group; an item the evaluation accepts is new
  in every respect the tables know; and a commit grabs within its limit, leaves its evidence before each
  hand-off, and records what it grabbed so that it is not accepted again.
\<close>

subsection \<open>Choosing\<close>

lemma set_first_keys [simp]: "set (first_keys ks) = set ks"
  by (induction ks) auto

lemma distinct_first_keys [simp]: "distinct (first_keys ks)"
  by (induction ks) auto

lemma mset_group_of: "mset (group_of cands k) = mset (filter (\<lambda>c. ca_ContentKey c = k) cands)"
  by (simp add: group_of_def)

lemma set_group_of [simp]: "set (group_of cands k) = {c \<in> set cands. ca_ContentKey c = k}"
  by (simp add: group_of_def)

lemma mset_groups:
  assumes "distinct ks"
  shows "mset (concat (map (\<lambda>k. group_of cands k) ks)) = mset (filter (\<lambda>c. ca_ContentKey c \<in> set ks) cands)"
  using assms
proof (induction ks)
  case (Cons k ks)
  then have "mset (filter (\<lambda>c. ca_ContentKey c = k) xs) + mset (filter (\<lambda>c. ca_ContentKey c \<in> set ks) xs) =
      mset (filter (\<lambda>c. ca_ContentKey c \<in> set (k # ks)) xs)" for xs
    by (induction xs) auto
  with Cons show ?case by (simp add: mset_group_of)
qed simp

lemma group_of_best:
  assumes "c \<in> set cands"
  shows "group_of cands (ca_ContentKey c) \<noteq> []" "rank (hd (group_of cands (ca_ContentKey c))) \<le> rank c"
proof -
  let ?g = "group_of cands (ca_ContentKey c)"
  have mem: "c \<in> set ?g" using assms by simp
  then show ne: "?g \<noteq> []" by force
  have "sorted (map rank ?g)" by (simp add: group_of_def)
  with ne mem show "rank (hd ?g) \<le> rank c" by (cases ?g) auto
qed

lemma hd_tl_groups:
  assumes "\<forall>k \<in> set ks. g k \<noteq> []"
  shows "mset (map (\<lambda>k. hd (g k)) ks) + mset (concat (map (\<lambda>k. tl (g k)) ks)) = mset (concat (map g ks))"
  using assms
proof (induction ks)
  case (Cons k ks)
  then have "mset (g k) = add_mset (hd (g k)) (mset (tl (g k)))" by (cases "g k") auto
  with Cons show ?case by (simp add: ac_simps)
qed simp

lemma Resolve_winners:
  assumes "Resolve cands = (winners, losers)"
  shows "mset winners + mset losers = mset cands" "distinct (map ca_ContentKey winners)"
    "sorted (map rank winners)" "ca_ContentKey ` set winners = ca_ContentKey ` set cands"
    "w \<in> set winners \<Longrightarrow> w = hd (group_of cands (ca_ContentKey w)) \<and> w \<in> set cands"
proof -
  let ?ks = "first_keys (map ca_ContentKey cands)"
  let ?w = "map (\<lambda>k. hd (group_of cands k)) ?ks"
  have w: "winners = sort_key rank ?w" "losers = concat (map (\<lambda>k. tl (group_of cands k)) ?ks)"
    using assms by (simp_all add: Resolve_def Let_def)
  have ne: "group_of cands k \<noteq> []" if "k \<in> set ?ks" for k
    using that group_of_best(1) by auto
  have key: "ca_ContentKey (hd (group_of cands k)) = k \<and> hd (group_of cands k) \<in> set cands" if "k \<in> set ?ks" for k
    using hd_in_set [OF ne [OF that]] by simp
  have "mset (concat (map (\<lambda>k. group_of cands k) ?ks)) = mset (filter (\<lambda>c. ca_ContentKey c \<in> set ?ks) cands)"
    by (rule mset_groups) simp
  also have "filter (\<lambda>c. ca_ContentKey c \<in> set ?ks) cands = cands" by (simp add: filter_id_conv)
  finally show "mset winners + mset losers = mset cands"
    using hd_tl_groups [of ?ks "group_of cands"] ne by (simp add: w)
  have "map ca_ContentKey ?w = ?ks"
    unfolding map_map by (rule map_idI) (use key in simp)
  then have "distinct (map ca_ContentKey ?w)" by simp
  then show "distinct (map ca_ContentKey winners)"
    unfolding w by (metis mset_eq_imp_distinct_iff mset_map mset_sort)
  show "sorted (map rank winners)" by (simp add: w)
  show "ca_ContentKey ` set winners = ca_ContentKey ` set cands"
    using key by (force simp: w image_iff)
  show "w \<in> set winners \<Longrightarrow> w = hd (group_of cands (ca_ContentKey w)) \<and> w \<in> set cands"
    using key by (auto simp: w)
qed

subsection \<open>Accepted items are new\<close>

definition known_hash :: "string \<Rightarrow> ('e, 'd, 'z) press_scheme \<Rightarrow> bool" where
  "known_hash h s \<longleftrightarrow> (\<exists>m \<in> set (pr_matches s). rm_info_hash m = Some h) \<or> (\<exists>r \<in> set (s_tasks s). holds_hash h r)"

definition stored_key :: "string \<Rightarrow> string \<Rightarrow> ('e, 'd, 'z) press_scheme \<Rightarrow> bool" where
  "stored_key rid k s \<longleftrightarrow> (\<exists>x \<in> set (pr_seen s). se_rule_id x = rid \<and> se_episode_key x = k)"

text \<open>What the smart filter lets pass are new keys, the first of which names the episode.\<close>

definition fresh_keys :: "('e, 'd, 'z) press_scheme \<Rightarrow> rule_eval \<Rightarrow> string list \<Rightarrow> bool" where
  "fresh_keys s e ks \<longleftrightarrow> (\<forall>k \<in> set ks. \<not> stored_key (re_rule_id e) k s) \<and> (re_smart e \<longrightarrow> ks \<noteq> [])"

definition fresh_content :: "('e, 'd, 'z) press_scheme \<Rightarrow> feed_item \<Rightarrow> string \<Rightarrow> int \<Rightarrow> bool" where
  "fresh_content s item key sc \<longleftrightarrow>
     (\<forall>h. fi_info_hash item = Some h \<longrightarrow> h \<noteq> '''' \<longrightarrow> \<not> known_hash h s) \<and>
     (\<forall>m \<in> set (pr_matches s). rm_content_key m = Some key \<longrightarrow> rm_status m = matchSent \<longrightarrow> rm_score m < sc)"

definition accepted :: "('e, 'd, 'z) press_scheme \<Rightarrow> rule_eval \<Rightarrow> feed_item \<Rightarrow> grab_candidate \<Rightarrow> bool" where
  "accepted s e item c \<longleftrightarrow>
     ca_Item c = item \<and> re_scoreMinimum e \<le> ca_Score c \<and>
     ca_EpisodeKey c = (case ca_stagedKeys c of [] \<Rightarrow> '''' | k # _ \<Rightarrow> k) \<and>
     ca_ContentKey c = contentKeyFor (re_rule_id e) (ca_EpisodeKey c) item \<and>
     fresh_keys s e (ca_stagedKeys c) \<and> fresh_content s item (ca_ContentKey c) (ca_Score c)"

lemma known_hash_later [simp]: "later s t \<Longrightarrow> known_hash h t = known_hash h s"
  by (simp add: known_hash_def later_press later_tables)

lemma stored_key_later [simp]: "later s t \<Longrightarrow> stored_key rid k t = stored_key rid k s"
  by (simp add: stored_key_def later_press)

lemma dbState_simps [simp]:
  "HasInfoHash dbState = db_HasInfoHash" "SeenEpisode dbState = db_SeenEpisode"
  "BestScoreForContentKey dbState = db_BestScore"
  by (simp_all add: dbState_def)

lemma fresh_later [simp]:
  assumes "later s t"
  shows "fresh_keys t e ks = fresh_keys s e ks" "fresh_content t item key sc = fresh_content s item key sc"
    "accepted t e item c = accepted s e item c"
  using assms by (simp_all add: fresh_keys_def fresh_content_def accepted_def later_press)

lemma reads_HasInfoHash: "reads (\<lambda>b. b \<or> \<not> known_hash h s) (db_HasInfoHash h) s"
  unfolding db_HasInfoHash_def
proof (rule reads_and_then [where P = "\<lambda>b. b \<or> (\<forall>m \<in> set (pr_matches s). rm_info_hash m \<noteq> Some h)"])
  fix b t assume t: "later s t" and b: "b \<or> (\<forall>m \<in> set (pr_matches s). rm_info_hash m \<noteq> Some h)"
  have "reads (\<lambda>b. b \<or> \<not> known_hash h s) (press_query (\<lambda>s. Inr (list_ex (holds_hash h) (s_tasks s)))) t" if "\<not> b"
  proof (rule reads_press_query)
    fix u x assume u: "later t u" and x: "Inr (list_ex (holds_hash h) (s_tasks u)) = (Inr x :: rss_error + bool)"
    have "s_tasks u = s_tasks s" using later_tables [OF t] later_tables [OF u] by simp
    then show "x \<or> \<not> known_hash h s" using x that b by (auto simp: known_hash_def list_ex_iff)
  qed
  then show "reads (\<lambda>b. b \<or> \<not> known_hash h s) (if b then ret (Inr True)
      else if length h \<noteq> 40 \<and> length h \<noteq> 64 then ret (Inr False)
      else press_query (\<lambda>s. Inr (list_ex (holds_hash h) (s_tasks s)))) t"
    using b by (auto simp: known_hash_def holds_hash_def)
qed (rule reads_press_query, auto simp: later_press list_ex_iff)

lemma reads_SeenEpisode: "reads (\<lambda>b. b = stored_key rid k s) (db_SeenEpisode rid k) s"
  unfolding db_SeenEpisode_def by (rule reads_press_query) (auto simp: later_press list_ex_iff stored_key_def)

lemma foldl_max: "x \<in> set (y # ys) \<Longrightarrow> (x :: int) \<le> foldl max y ys"
proof (induction ys arbitrary: x y)
  case (Cons z zs)
  then consider "x = y \<or> x = z" | "x \<in> set zs" by auto
  then show ?case
  proof cases
    case 1
    have "max y z \<le> foldl max (max y z) zs" by (rule Cons.IH) simp
    with 1 show ?thesis by auto
  next
    case 2
    then have "x \<le> foldl max (max y z) zs" by (intro Cons.IH) simp
    then show ?thesis by simp
  qed
qed simp

lemma reads_BestScore:
  "reads (\<lambda>b. \<forall>x \<in> set (sent_scores k (pr_matches s)). \<exists>m. b = Some m \<and> x \<le> m) (db_BestScore k) s"
  unfolding db_BestScore_def
proof (rule reads_press_query)
  fix t b
  assume "later s t" and "Inr (case sent_scores k (pr_matches t) of [] \<Rightarrow> None | x # xs \<Rightarrow> Some (foldl max x xs)) = (Inr b :: rss_error + int option)"
  then have b: "b = (case sent_scores k (pr_matches s) of [] \<Rightarrow> None | x # xs \<Rightarrow> Some (foldl max x xs))"
    by (simp add: later_press)
  show "\<forall>x \<in> set (sent_scores k (pr_matches s)). \<exists>m. b = Some m \<and> x \<le> m"
  proof (cases "sent_scores k (pr_matches s)")
    case (Cons y ys)
    then show ?thesis using b foldl_max [of _ y ys] by auto
  qed simp
qed

lemma reads_asked: "reads P m s \<Longrightarrow> reads P (asked m) s"
  unfolding reads_def asked_def wp_bind wp_ret by (erule wp_mono) (auto split: sum.splits)

lemma reads_unseen: "reads (\<lambda>ks. ks = filter (\<lambda>k. \<not> stored_key rid k s) vs) (unseen dbState rid vs) s"
proof (induction vs arbitrary: s)
  case (Cons v vs)
  show ?case
    unfolding unseen.simps
  proof (rule reads_and_then [where P = "\<lambda>b. b = stored_key rid v s"])
    fix b t assume "later s t" "b = stored_key rid v s"
    then show "reads (\<lambda>ks. ks = filter (\<lambda>k. \<not> stored_key rid k s) (v # vs))
        (and_then (unseen dbState rid vs) (\<lambda>rest. ret (Inr (if b then rest else v # rest)))) t"
      by (intro reads_and_then [OF Cons.IH]) auto
  qed (simp add: reads_asked reads_SeenEpisode)
qed simp

lemma reads_smart_step:
  "reads (\<lambda>r. \<forall>ks. r = Passed ks \<longrightarrow> fresh_keys s e ks) (smart_step uc dbState e item) s"
proof (cases "re_smart e \<and> SmartKey (fi_title item) \<noteq> None")
  case False
  then show ?thesis by (auto simp: smart_step_def fresh_keys_def split: option.split)
next
  case True
  then obtain key where key: "re_smart e" "SmartKey (fi_title item) = Some key" by auto
  let ?vs = "RepackVariants uc key (fi_title item)"
  let ?P = "\<lambda>r. \<forall>ks. r = Passed ks \<longrightarrow> fresh_keys s e ks"
  have "reads ?P (and_then (asked (SeenEpisode dbState (re_rule_id e) key)) (\<lambda>seen.
          if \<not> seen then ret (Inr (Passed [key]))
          else if \<not> re_allowRep e then ret (Inr (Rejected ReasonDuplicateEpisode (DSeenKey key)))
          else let variants = ?vs in
            if variants = [] then ret (Inr (Rejected ReasonDuplicateEpisode (DSeenKey key)))
            else and_then (unseen dbState (re_rule_id e) variants) (\<lambda>pending.
              ret (Inr (if pending = [] then Rejected ReasonDuplicateEpisode (DSeenKey (hd variants)) else Passed pending))))) s"
  proof (rule reads_and_then [where P = "\<lambda>b. b = stored_key (re_rule_id e) key s"])
    fix seen t assume t: "later s t" and seen: "seen = stored_key (re_rule_id e) key s"
    have "reads ?P (and_then (unseen dbState (re_rule_id e) ?vs) (\<lambda>pending.
        ret (Inr (if pending = [] then Rejected ReasonDuplicateEpisode (DSeenKey (hd ?vs)) else Passed pending)))) t"
      by (rule reads_and_then [OF reads_unseen]) (use t in \<open>auto simp: fresh_keys_def\<close>)
    then show "reads ?P (if \<not> seen then ret (Inr (Passed [key]))
          else if \<not> re_allowRep e then ret (Inr (Rejected ReasonDuplicateEpisode (DSeenKey key)))
          else let variants = ?vs in
            if variants = [] then ret (Inr (Rejected ReasonDuplicateEpisode (DSeenKey key)))
            else and_then (unseen dbState (re_rule_id e) variants) (\<lambda>pending.
              ret (Inr (if pending = [] then Rejected ReasonDuplicateEpisode (DSeenKey (hd variants)) else Passed pending)))) t"
      using seen by (simp add: Let_def fresh_keys_def)
  qed (simp add: reads_asked reads_SeenEpisode)
  then show ?thesis by (simp add: smart_step_def key)
qed

lemma reads_hash_step:
  "reads (\<lambda>dup. dup \<or> (\<forall>h. fi_info_hash item = Some h \<longrightarrow> h \<noteq> '''' \<longrightarrow> \<not> known_hash h s)) (hash_step dbState item) s"
proof (cases "fi_info_hash item")
  case (Some h)
  have "reads (\<lambda>b. b \<or> \<not> known_hash h s) (asked (HasInfoHash dbState h)) s"
    by (simp add: reads_asked reads_HasInfoHash)
  with Some show ?thesis by (simp add: hash_step_def)
qed (simp add: hash_step_def)

lemma reads_dedup_step:
  "reads (\<lambda>r. r = Passed () \<longrightarrow> fresh_content s item key sc) (dedup_step dbState item key sc) s"
  unfolding dedup_step_def
proof (rule reads_and_then [OF reads_hash_step])
  fix dup t
  assume t: "later s t" and dup: "dup \<or> (\<forall>h. fi_info_hash item = Some h \<longrightarrow> h \<noteq> '''' \<longrightarrow> \<not> known_hash h s)"
  have "reads (\<lambda>r. r = Passed () \<longrightarrow> fresh_content s item key sc)
      (and_then (asked (BestScoreForContentKey dbState key)) (\<lambda>best.
         ret (Inr (case best of None \<Rightarrow> Passed () | Some b \<Rightarrow> if sc \<le> b then Rejected ReasonAlreadyHave (DHave key b) else Passed ())))) t"
    if "\<not> dup"
  proof (rule reads_and_then [OF reads_asked, OF reads_BestScore [folded dbState_simps]])
    fix best u
    assume b: "\<forall>x \<in> set (sent_scores key (pr_matches t)). \<exists>m. best = Some m \<and> x \<le> m"
    have known: "\<exists>b. best = Some b \<and> rm_score m \<le> b"
      if "m \<in> set (pr_matches s)" "rm_content_key m = Some key" "rm_status m = matchSent" for m
      using that b t by (auto simp: sent_scores_def later_press)
    have "fresh_content s item key sc" if "best = None \<or> (\<exists>b. best = Some b \<and> b < sc)"
      using dup \<open>\<not> dup\<close> known that unfolding fresh_content_def by fastforce
    then show "reads (\<lambda>r. r = Passed () \<longrightarrow> fresh_content s item key sc)
      (ret (Inr (case best of None \<Rightarrow> Passed () | Some b \<Rightarrow> if sc \<le> b then Rejected ReasonAlreadyHave (DHave key b) else Passed ()))) u"
      by (auto split: option.splits if_splits)
  qed
  then show "reads (\<lambda>r. r = Passed () \<longrightarrow> fresh_content s item key sc)
      (if dup then ret (Inr (Rejected ReasonDuplicateInfoHash (DHash (the (fi_info_hash item)))))
       else and_then (asked (BestScoreForContentKey dbState key)) (\<lambda>best.
         ret (Inr (case best of None \<Rightarrow> Passed () | Some b \<Rightarrow> if sc \<le> b then Rejected ReasonAlreadyHave (DHave key b) else Passed ())))) t"
    by simp
qed

lemma collect_step_cand:
  assumes "collect_step uc e item feed found staged key sc = Inr (Some (d, c))"
  shows "ca_Item c = item" "ca_Score c = sc" "ca_ContentKey c = key" "ca_stagedKeys c = staged"
    "ca_EpisodeKey c = (case staged of [] \<Rightarrow> '''' | k # _ \<Rightarrow> k)" "de_Matched d" "de_ItemID d = fi_id item"
    "ca_FeedPriority c = fr_Priority feed"
  using assms by (auto simp: collect_step_def split: option.splits sum.splits)

text \<open>An accepted item is new, whatever the tables hold and the database does.\<close>

lemma reads_step_case:
  assumes "reads P d s" and "\<And>x y. r = Rejected x y \<Longrightarrow> reads P (f x y) s" and "\<And>x. r = Passed x \<Longrightarrow> reads P (g x) s"
  shows "reads P (case r of Dropped \<Rightarrow> d | Rejected x y \<Rightarrow> f x y | Passed x \<Rightarrow> g x) s"
  using assms by (cases r) auto

lemma reads_evaluateItem:
  "reads (\<lambda>r. \<forall>c. snd r = Some c \<longrightarrow> accepted s e item c) (evaluateItem uc dbState e item feed) s"
proof (cases "static_steps e item")
  case (Inr r)
  show ?thesis
    unfolding evaluateItem_def Inr sum.case Let_def
    by (intro reads_step_case reads_and_then [OF reads_smart_step] reads_and_then [OF reads_dedup_step])
      (auto simp: accepted_def collect_step_cand split: sum.splits option.splits)
qed (simp add: evaluateItem_def)

definition all_accepted ::
  "('e, 'd, 'z) press_scheme \<Rightarrow> rule_eval \<Rightarrow> feed_item list \<Rightarrow> grab_candidate list \<Rightarrow> bool" where
  "all_accepted s e items cs \<longleftrightarrow> subseq (map ca_Item cs) items \<and> (\<forall>c \<in> set cs. accepted s e (ca_Item c) c)"

lemma all_accepted_later [simp]: "later s t \<Longrightarrow> all_accepted t e items cs = all_accepted s e items cs"
  by (simp add: all_accepted_def)

lemma reads_evaluate_items:
  "reads (\<lambda>r. all_accepted s e items (snd r)) (evaluate_items uc dbState e scope feedByID items) s"
proof (induction items arbitrary: s)
  case Nil
  show ?case by (simp add: all_accepted_def)
next
  case (Cons item items)
  let ?feed = "feed_of feedByID (fi_feed_id item)"
  show ?case
  proof (cases "scope \<noteq> [] \<and> fr_URL ?feed \<notin> set scope")
    case True
    with Cons.IH [of s] show ?thesis
      by (auto simp: all_accepted_def elim!: reads_mono)
  next
    case False
    have "reads (\<lambda>r. all_accepted s e (item # items) (snd r))
        (and_then (evaluateItem uc dbState e item ?feed) (\<lambda>(d, c).
          and_then (evaluate_items uc dbState e scope feedByID items) (\<lambda>(ds, cs).
            ret (Inr ((case d of None \<Rightarrow> ds | Some x \<Rightarrow> x # ds), (case c of None \<Rightarrow> cs | Some x \<Rightarrow> x # cs)))))) s"
    proof (rule reads_and_then [OF reads_evaluateItem], goal_cases)
      case (1 r t)
      show ?case
        unfolding prod.case_eq_if
        by (rule reads_and_then [OF Cons.IH])
          (use 1 in \<open>cases "snd r"; cases "fst r"; auto simp: all_accepted_def accepted_def\<close>)
    qed
    with False show ?thesis by (auto simp: Let_def)
  qed
qed

subsection \<open>What a commit leaves\<close>

text \<open>The path that creates tasks writes no table of the feed reader.\<close>

definition creator_ok :: "('e, 'z) task_creator \<Rightarrow> bool" where
  "creator_ok tc \<longleftrightarrow> (\<forall>g s. wp (tc g) (\<lambda>r t. pr_matches t = pr_matches s \<and> pr_seen t = pr_seen s) s)"

text \<open>A change of the rows of one candidate only.\<close>

definition only_match :: "string \<Rightarrow> grab_candidate \<Rightarrow> ('e, 'd, 'z) press_scheme \<Rightarrow> ('e, 'd, 'z) press_scheme \<Rightarrow> bool" where
  "only_match rid c s t \<longleftrightarrow>
     (\<forall>m. \<not> match_of rid c m \<longrightarrow> (m \<in> set (pr_matches t) \<longleftrightarrow> m \<in> set (pr_matches s))) \<and> set (pr_seen s) \<subseteq> set (pr_seen t)"

lemma only_match_refl [simp]: "only_match rid c s s"
  by (simp add: only_match_def)

lemma only_match_trans: "only_match rid c s t \<Longrightarrow> only_match rid c t u \<Longrightarrow> only_match rid c s u"
  by (auto simp: only_match_def)

lemma only_match_later: "later s t \<Longrightarrow> only_match rid c s t"
  by (simp add: only_match_def later_press)

lemma in_map_if: "m \<in> set (map (\<lambda>r. if p r then f r else r) rows) \<longleftrightarrow> (m \<in> set rows \<and> \<not> p m) \<or> (\<exists>r \<in> set rows. p r \<and> m = f r)"
  by auto

definition match_row :: "string \<Rightarrow> grab_candidate \<Rightarrow> string \<Rightarrow> string \<Rightarrow> rule_match \<Rightarrow> bool" where
  "match_row rid c mid status m \<longleftrightarrow> rm_id m = mid \<and> match_of rid c m \<and> rm_status m = status \<and>
     rm_content_key m = Some (ca_ContentKey c) \<and> rm_score m = ca_Score c"

lemma upsert_in_tx_row:
  assumes "upsert_in_tx rid status c now s = (mid, t)"
  shows "only_match rid c s t" "\<exists>m \<in> set (pr_matches t). match_row rid c mid status m"
proof -
  let ?f = "\<lambda>m. m\<lparr>rm_status := status, rm_score := ca_Score c, rm_content_key := Some (ca_ContentKey c),
        rm_title := fi_title (ca_Item c), rm_reason := None, rm_task_id := None, rm_info_hash := None,
        rm_matched_at := now, rm_updated_at := now\<rparr>"
  let ?rows = "map (\<lambda>m. if match_of rid c m then ?f m else m) (pr_matches s)"
  have keep: "match_of rid c (?f m) = match_of rid c m" for m by (simp add: match_of_def)
  have "only_match rid c s t \<and> (\<exists>m \<in> set (pr_matches t). match_row rid c mid status m)"
  proof (cases "filter (match_of rid c) (pr_matches s) = []")
    case True
    then have "insert_match rid status c now s = (mid, t)"
      using assms by (simp add: upsert_in_tx_def queryMoveMatch_def sql_update_def)
    then show ?thesis
      by (auto simp: insert_match_def NewID_def only_match_def match_row_def match_of_def new_match_def)
  next
    case False
    then obtain r where r: "r \<in> set (pr_matches s)" "match_of rid c r" by (auto simp: filter_empty_conv)
    then have "?f r \<in> set ?rows" "match_of rid c (?f r)" by (auto simp: keep)
    then have "sql_find (match_of rid c) ?rows \<noteq> None" unfolding sql_find_None_iff by blast
    then obtain m where m: "sql_find (match_of rid c) ?rows = Some m" by blast
    then have t: "mid = rm_id m" "t = s\<lparr>pr_matches := ?rows\<rparr>"
      using assms False by (auto simp: upsert_in_tx_def queryMoveMatch_def sql_update_def split: if_splits)
    have rows_t: "pr_matches t = ?rows" by (simp add: t)
    have mr: "m \<in> set ?rows \<and> match_of rid c m" using sql_find_SomeD [OF m] .
    then obtain q where "m = ?f q" "match_of rid c q" unfolding in_map_if by blast
    then have "match_row rid c mid status m" by (simp add: match_row_def t keep)
    moreover have "m \<in> set (pr_matches t)" unfolding rows_t using mr by (rule conjunct1)
    moreover have "only_match rid c s t"
      unfolding only_match_def rows_t in_map_if using keep by (auto simp: t)
    ultimately show ?thesis by blast
  qed
  then show "only_match rid c s t" "\<exists>m \<in> set (pr_matches t). match_row rid c mid status m" by auto
qed

lemma wp_queueMatch:
  "wp (queueMatch rid c now) (\<lambda>r t. only_match rid c s t \<and> (\<forall>mid. r = Inr mid \<longrightarrow>
     distinct (map rm_id (pr_matches t)) \<and> (\<exists>m \<in> set (pr_matches t). match_row rid c mid matchQueued m))) s"
  unfolding queueMatch_def
proof (rule wp_press_tx)
  fix t a u
  assume t: "later s t" and b: "Inr (upsert_in_tx rid matchQueued c now t) = (Inr (a, u) :: rss_error + _)" and u: "press_unique u"
  then have up: "upsert_in_tx rid matchQueued c now t = (a, u)" by simp
  have "only_match rid c s u" using only_match_trans [OF only_match_later [OF t] upsert_in_tx_row(1) [OF up]] .
  then show "(only_match rid c s u \<and> (\<forall>mid. (Inr a :: rss_error + string) = Inr mid \<longrightarrow>
       distinct (map rm_id (pr_matches u)) \<and> (\<exists>m \<in> set (pr_matches u). match_row rid c mid matchQueued m))) \<and>
     (only_match rid c s u \<and> (\<forall>mid. (Inl (RssStore SErrDB) :: rss_error + string) = Inr mid \<longrightarrow>
       distinct (map rm_id (pr_matches u)) \<and> (\<exists>m \<in> set (pr_matches u). match_row rid c mid matchQueued m)))"
    using upsert_in_tx_row(2) [OF up] u by (simp add: press_unique_def)
qed (simp add: only_match_later)

text \<open>The row of a grab that was handed over, and the keys it staged.\<close>

definition recorded :: "string \<Rightarrow> grab_candidate \<Rightarrow> string \<Rightarrow> ('e, 'd, 'z) press_scheme \<Rightarrow> bool" where
  "recorded rid c tid s \<longleftrightarrow>
     (\<exists>m \<in> set (pr_matches s). match_row rid c (rm_id m) matchSent m \<and> rm_task_id m = Some tid \<and>
        rm_info_hash m = fi_info_hash (ca_Item c)) \<and>
     (\<forall>k \<in> set (ca_stagedKeys c). stored_key rid k s)"

lemma recorded_keep:
  assumes "recorded rid c tid s" and "only_match rid d s t" and "fi_id (ca_Item d) \<noteq> fi_id (ca_Item c)"
  shows "recorded rid c tid t"
proof -
  have "\<not> match_of rid d m" if "match_of rid c m" for m
    using that assms(3) by (auto simp: match_of_def)
  then show ?thesis
    using assms(1,2) unfolding recorded_def only_match_def match_row_def stored_key_def by blast
qed

lemma set_fold_insert_seen:
  "set rows \<subseteq> set (fold (insert_seen rid now) ks rows) \<and>
   (\<forall>k \<in> set ks. \<exists>x \<in> set (fold (insert_seen rid now) ks rows). se_rule_id x = rid \<and> se_episode_key x = k)"
proof (induction ks arbitrary: rows)
  case (Cons k ks)
  have "set rows \<subseteq> set (insert_seen rid now k rows)" "\<exists>x \<in> set (insert_seen rid now k rows). se_rule_id x = rid \<and> se_episode_key x = k"
    by (auto simp: insert_seen_def list_ex_iff)
  then show ?case using Cons.IH [of "insert_seen rid now k rows"] by (simp only: fold_Cons comp_apply) force
qed simp

lemma only_match_update:
  assumes u: "pr_matches u = map (\<lambda>m. if rm_id m = mid then f m else m) (pr_matches s)" "set (pr_seen s) \<subseteq> set (pr_seen u)"
    and m: "match_row rid c mid status m" "m \<in> set (pr_matches s)" "distinct (map rm_id (pr_matches s))"
    and keep: "\<And>r. match_of rid c (f r) = match_of rid c r"
  shows "only_match rid c s u"
  unfolding only_match_def
proof (intro conjI allI impI)
  fix r assume r: "\<not> match_of rid c r"
  have only: "q = m" if "q \<in> set (pr_matches s)" "rm_id q = mid" for q
    using that m by (auto simp: match_row_def distinct_map inj_on_def)
  have mm: "match_of rid c m" using m by (simp add: match_row_def)
  show "r \<in> set (pr_matches u) \<longleftrightarrow> r \<in> set (pr_matches s)"
    unfolding u in_map_if using only r mm keep by blast
qed (rule u(2))

lemma wp_sendMatch:
  assumes "match_row rid c mid status m" and "m \<in> set (pr_matches s)" and "distinct (map rm_id (pr_matches s))"
  shows "wp (sendMatch mid rid c tid now) (\<lambda>r t. only_match rid c s t \<and> (r = Inr () \<longrightarrow> recorded rid c tid t)) s"
  unfolding sendMatch_def
proof (rule wp_press_tx)
  fix t a u
  assume t: "later s t"
    and b: "Inr ((), t\<lparr>pr_matches := fst (querySendMatch mid tid c now (pr_matches t)),
       pr_seen := fold (insert_seen rid now) (ca_stagedKeys c) (pr_seen t)\<rparr>) = (Inr (a, u) :: rss_error + _)"
  let ?f = "\<lambda>m. m\<lparr>rm_status := matchSent, rm_task_id := Some tid, rm_info_hash := fi_info_hash (ca_Item c), rm_updated_at := now\<rparr>"
  have u: "pr_matches u = map (\<lambda>m. if rm_id m = mid then ?f m else m) (pr_matches s)"
      "pr_seen u = fold (insert_seen rid now) (ca_stagedKeys c) (pr_seen s)"
    using b t by (auto simp: querySendMatch_def sql_update_def later_press)
  have "?f m \<in> set (pr_matches u)"
    unfolding u in_map_if using assms(1,2) by (auto simp: match_row_def)
  moreover have "match_row rid c (rm_id (?f m)) matchSent (?f m)"
    using assms(1) by (simp add: match_row_def match_of_def)
  ultimately have "recorded rid c tid u"
    using set_fold_insert_seen [of "pr_seen s" rid now "ca_stagedKeys c"]
    unfolding recorded_def stored_key_def u(2) by force
  moreover have "only_match rid c s u"
    by (rule only_match_update [OF u(1) _ assms])
      (use set_fold_insert_seen [of "pr_seen s" rid now "ca_stagedKeys c"] in \<open>auto simp: match_of_def u(2)\<close>)
  ultimately show "(only_match rid c s u \<and> ((Inr a :: rss_error + unit) = Inr () \<longrightarrow> recorded rid c tid u)) \<and>
      (only_match rid c s u \<and> ((Inl (RssStore SErrDB) :: rss_error + unit) = Inr () \<longrightarrow> recorded rid c tid u))"
    by simp
qed (simp add: only_match_later)

lemma wp_failMatch:
  assumes "match_row rid c mid status m" and "m \<in> set (pr_matches s)" and "distinct (map rm_id (pr_matches s))"
  shows "wp (failMatch mid reason now) (\<lambda>r t. only_match rid c s t) s"
  unfolding failMatch_def
proof (rule wp_press_tx)
  fix t a u
  assume t: "later s t"
    and b: "Inr ((), t\<lparr>pr_matches := fst (sql_update (\<lambda>m. rm_id m = mid)
       (\<lambda>m. m\<lparr>rm_status := matchFailed, rm_reason := Some reason, rm_updated_at := now\<rparr>) (pr_matches t))\<rparr>) = (Inr (a, u) :: rss_error + _)"
  let ?f = "\<lambda>m. m\<lparr>rm_status := matchFailed, rm_reason := Some reason, rm_updated_at := now\<rparr>"
  have u: "pr_matches u = map (\<lambda>m. if rm_id m = mid then ?f m else m) (pr_matches s)" "pr_seen u = pr_seen s"
    using b t by (auto simp: sql_update_def later_press)
  have "only_match rid c s u"
    by (rule only_match_update [OF u(1) _ assms]) (simp_all add: match_of_def u(2))
  then show "only_match rid c s u \<and> only_match rid c s u" by simp
qed (simp add: only_match_later)

lemma wp_grab_one:
  assumes tc: "creator_ok tc"
  shows "wp (grab_one doc rid tc now c) (\<lambda>r t. only_match rid c s t \<and> (\<forall>tid. r = Inr (Some tid) \<longrightarrow> recorded rid c tid t)) s"
  unfolding grab_one_def
proof (rule wp_and_then_seq [OF wp_queueMatch], goal_cases)
  case (2 mid t)
  then obtain m where m: "match_row rid c mid matchQueued m" "m \<in> set (pr_matches t)" "distinct (map rm_id (pr_matches t))"
    by auto
  have call: "wp (tc (request_of doc rid c)) (\<lambda>r u. pr_matches u = pr_matches t \<and> pr_seen u = pr_seen t) t"
    using tc by (simp add: creator_ok_def)
  show ?case
  proof (rule wp_seq [OF call], goal_cases)
    case u: (1 x u)
    then have m': "match_row rid c mid matchQueued m" "m \<in> set (pr_matches u)" "distinct (map rm_id (pr_matches u))"
      and su: "only_match rid c s u"
      using m 2 by (simp_all add: only_match_def)
    show ?case
    proof (cases x)
      case (Inl reason)
      show ?thesis
        unfolding Inl sum.case
        by (rule wp_and_then_seq [OF wp_failMatch [OF m']]) (auto intro: only_match_trans [OF su])
    next
      case (Inr tid)
      show ?thesis
        unfolding Inr sum.case
        by (rule wp_and_then_seq [OF wp_sendMatch [OF m']]) (auto intro: only_match_trans [OF su])
    qed
  qed
qed simp

lemma wp_grab_winners:
  assumes tc: "creator_ok tc" and "distinct (map (fi_id \<circ> ca_Item) (map fst got @ cs))"
    and "\<forall>(c, tid) \<in> set got. recorded rid c tid s"
  shows "wp (grab_winners doc rid tc now cs got)
    (\<lambda>(err, got') t. set (map fst got') \<subseteq> set (map fst got @ cs) \<and> (\<forall>(c, tid) \<in> set got'. recorded rid c tid t)) s"
  using assms(2,3)
proof (induction cs arbitrary: got s)
  case (Cons c cs)
  show ?case
  proof (cases "0 < th_MaxPerRun (rd_Throttle doc) \<and> th_MaxPerRun (rd_Throttle doc) \<le> int (length got)")
    case True
    then show ?thesis using Cons.prems by auto
  next
    case False
    then show ?thesis
      unfolding grab_winners.simps if_not_P [OF False]
    proof (intro wp_seq [OF wp_grab_one [OF tc]], goal_cases)
      case r: (1 r t)
      have kept: "\<forall>(d, tid) \<in> set got. recorded rid d tid t"
      proof (intro ballI, clarify)
        fix d tid assume d: "(d, tid) \<in> set got"
        then have "fi_id (ca_Item c) \<noteq> fi_id (ca_Item d)" using Cons.prems(1) by force
        then show "recorded rid d tid t" using Cons.prems(2) d r recorded_keep by blast
      qed
      show ?case
      proof (cases r)
        case (Inl err)
        then show ?thesis using kept by auto
      next
        case (Inr q)
        show ?thesis
        proof (cases q)
          case None
          have "wp (grab_winners doc rid tc now cs got)
            (\<lambda>(err, got') t. set (map fst got') \<subseteq> set (map fst got @ cs) \<and> (\<forall>(c, tid) \<in> set got'. recorded rid c tid t)) t"
            by (rule Cons.IH [OF _ kept]) (use Cons.prems in auto)
          then show ?thesis unfolding Inr None sum.case option.case by (rule wp_mono) auto
        next
          case (Some tid)
          have "wp (grab_winners doc rid tc now cs (got @ [(c, tid)]))
            (\<lambda>(err, got') t. set (map fst got') \<subseteq> set (map fst (got @ [(c, tid)]) @ cs) \<and>
               (\<forall>(c, tid) \<in> set got'. recorded rid c tid t)) t"
            by (rule Cons.IH) (use Cons.prems kept r Inr Some in auto)
          then show ?thesis unfolding Inr Some sum.case option.case by (rule wp_mono) auto
        qed
      qed
    qed
  qed
qed auto

lemma recorded_SetRuleLastMatchAt:
  "wp (SetRuleLastMatchAt rid at_ms) (\<lambda>r t. pr_matches t = pr_matches s \<and> pr_seen t = pr_seen s) s"
  unfolding SetRuleLastMatchAt_def by (rule wp_press_tx) (auto simp: affecting_def later_press split: if_splits)

lemma wp_store_losers:
  "wp (store_losers rid now cs) (\<lambda>r t. True) s"
  by (simp add: wp_def split: prod.split)

lemma wp_CommitGrabs:
  assumes "creator_ok tc" and "distinct (map (fi_id \<circ> ca_Item) cands)"
  shows "wp (CommitGrabs doc rid cands tc now) (\<lambda>(err, report) t. \<exists>got. map snd got = cr_CreatedTaskIDs report \<and>
     fst ` set got \<subseteq> set cands \<and> (\<forall>(c, tid) \<in> set got. recorded rid c tid t)) s"
proof -
  obtain winners losers where R: "Resolve cands = (winners, losers)" by fastforce
  let ?rep = "\<lparr>cr_Evaluated = 0, cr_Matched = length cands, cr_CreatedTaskIDs = [], cr_Fallbacks = length losers\<rparr>"
  let ?Q = "\<lambda>(err, report) t. \<exists>got. map snd got = cr_CreatedTaskIDs report \<and>
     fst ` set got \<subseteq> set cands \<and> (\<forall>(c, tid) \<in> set got. recorded rid c tid t)"
  note W = Resolve_winners [OF R]
  have "mset (map (fi_id \<circ> ca_Item) winners) + mset (map (fi_id \<circ> ca_Item) losers) = mset (map (fi_id \<circ> ca_Item) cands)"
    using W(1) by (metis mset_map image_mset_union)
  then have "distinct (map (fi_id \<circ> ca_Item) winners @ map (fi_id \<circ> ca_Item) losers)"
    using assms(2) by (metis mset_append mset_eq_imp_distinct_iff)
  then have dist: "distinct (map (fi_id \<circ> ca_Item) winners)" by simp
  have sub: "set winners \<subseteq> set cands" using W(1) by (metis mset_subset_eq_add_left set_mset_mono set_mset_mset)
  have fin: "?Q (None, ?rep\<lparr>cr_CreatedTaskIDs := map snd got\<rparr>) t \<and> ?Q (Some err, ?rep\<lparr>cr_CreatedTaskIDs := map snd got\<rparr>) t"
    if "set (map fst got) \<subseteq> set winners" "\<forall>(c, tid) \<in> set got. recorded rid c tid t" for got t err
    using that sub by (auto intro!: exI [of _ got])
  show ?thesis
    unfolding CommitGrabs_def R prod.case Let_def
  proof (rule wp_seq [OF wp_store_losers], goal_cases)
    case (1 l t)
    show ?case
    proof (cases l)
      case (Inl err)
      then show ?thesis by (auto intro!: exI [of _ "[]"])
    next
      case (Inr u)
      have "wp (grab_winners doc rid tc now winners [])
          (\<lambda>(err, got') t. set (map fst got') \<subseteq> set winners \<and> (\<forall>(c, tid) \<in> set got'. recorded rid c tid t)) t"
        using wp_grab_winners [OF assms(1), of "[]" winners rid t doc now] dist by simp
      then show ?thesis
        unfolding Inr sum.case
      proof (rule wp_seq, goal_cases)
        case (1 r u)
        then obtain err got where r: "r = (err, got)" "set (map fst got) \<subseteq> set winners" "\<forall>(c, tid) \<in> set got. recorded rid c tid u"
          by (cases r) auto
        have "wp (SetRuleLastMatchAt rid at_ms) (\<lambda>w t. ?Q (case w of Inl e \<Rightarrow> Some e | Inr _ \<Rightarrow> None, ?rep\<lparr>cr_CreatedTaskIDs := map snd got\<rparr>) t) u" for at_ms
        proof (rule wp_mono [OF recorded_SetRuleLastMatchAt])
          fix w t assume "pr_matches t = pr_matches u \<and> pr_seen t = pr_seen u"
          then have "\<forall>(c, tid) \<in> set got. recorded rid c tid t"
            using r(3) by (auto simp: recorded_def stored_key_def)
          then show "?Q (case w of Inl e \<Rightarrow> Some e | Inr _ \<Rightarrow> None, ?rep\<lparr>cr_CreatedTaskIDs := map snd got\<rparr>) t"
            using fin [OF r(2)] by (cases w) auto
        qed
        then show ?case
          unfolding r(1) prod.case using fin [OF r(2,3)] by (cases err) auto
      qed
    qed
  qed
qed

text \<open>Two handlers that go on alike from what their first call can answer run alike.\<close>

lemma run_bind_cong:
  assumes "\<And>x t. run_state m s = (x, t) \<Longrightarrow> run_state (f x) t = run_state (g x) t"
  shows "run_state (State_Monad.bind m f) s = run_state (State_Monad.bind m g) s"
  using assms by (simp add: State_Monad.bind_def split: prod.splits)

lemma run_and_then_cong:
  assumes "\<And>x t. run_state m s = (Inr x, t) \<Longrightarrow> run_state (f x) t = run_state (g x) t"
  shows "run_state (and_then m f) s = run_state (and_then m g) s"
  unfolding and_then_def by (rule run_bind_cong) (use assms in \<open>auto split: sum.split\<close>)

text \<open>The creation path, asked only when the row that announces the hand-off is committed.\<close>

definition evidence :: "grab_request \<Rightarrow> ('e, 'd, 'z) press_scheme \<Rightarrow> bool" where
  "evidence g s \<longleftrightarrow> list_ex (\<lambda>m. rm_rule_id m = Some (gq_RuleID g) \<and> rm_feed_item_id m = Some (gq_FeedItemID g) \<and>
     rm_status m = matchQueued) (pr_matches s)"

definition checked :: "('e, 'z) task_creator \<Rightarrow> ('e, 'z) task_creator \<Rightarrow> ('e, 'z) task_creator" where
  "checked otherwise tc g = do { ok \<leftarrow> reader (evidence g); if ok then tc g else otherwise g }"

lemma grab_one_checked:
  "run_state (grab_one doc rid (checked x tc) now c) s = run_state (grab_one doc rid tc now c) s"
  unfolding grab_one_def
proof (rule run_and_then_cong)
  fix mid t assume "run_state (queueMatch rid c now) s = (Inr mid, t)"
  from wp_run [OF wp_queueMatch this] have "evidence (request_of doc rid c) t"
    by (auto simp: evidence_def request_of_def match_row_def match_of_def list_ex_iff Let_def)
  then have "run_state (checked x tc (request_of doc rid c)) t = run_state (tc (request_of doc rid c)) t"
    by (simp add: checked_def)
  then show "run_state (State_Monad.bind (checked x tc (request_of doc rid c)) (\<lambda>r. case r of
       Inl reason \<Rightarrow> and_then (failMatch mid reason now) (\<lambda>_. ret (Inr None))
     | Inr taskID \<Rightarrow> and_then (sendMatch mid rid c taskID now) (\<lambda>_. ret (Inr (Some taskID))))) t =
    run_state (State_Monad.bind (tc (request_of doc rid c)) (\<lambda>r. case r of
       Inl reason \<Rightarrow> and_then (failMatch mid reason now) (\<lambda>_. ret (Inr None))
     | Inr taskID \<Rightarrow> and_then (sendMatch mid rid c taskID now) (\<lambda>_. ret (Inr (Some taskID))))) t"
    by (simp add: State_Monad.bind_def)
qed

lemma grab_winners_checked:
  "run_state (grab_winners doc rid (checked x tc) now cs got) s = run_state (grab_winners doc rid tc now cs got) s"
proof (induction cs arbitrary: got s)
  case (Cons c cs)
  have "run_state (State_Monad.bind (grab_one doc rid (checked x tc) now c) (\<lambda>r. case r of
       Inl err \<Rightarrow> ret (Some err, got) | Inr None \<Rightarrow> grab_winners doc rid (checked x tc) now cs got
     | Inr (Some taskID) \<Rightarrow> grab_winners doc rid (checked x tc) now cs (got @ [(c, taskID)]))) s =
    run_state (State_Monad.bind (grab_one doc rid tc now c) (\<lambda>r. case r of
       Inl err \<Rightarrow> ret (Some err, got) | Inr None \<Rightarrow> grab_winners doc rid (checked x tc) now cs got
     | Inr (Some taskID) \<Rightarrow> grab_winners doc rid (checked x tc) now cs (got @ [(c, taskID)]))) s"
    by (simp add: State_Monad.bind_def grab_one_checked)
  also have "\<dots> = run_state (State_Monad.bind (grab_one doc rid tc now c) (\<lambda>r. case r of
       Inl err \<Rightarrow> ret (Some err, got) | Inr None \<Rightarrow> grab_winners doc rid tc now cs got
     | Inr (Some taskID) \<Rightarrow> grab_winners doc rid tc now cs (got @ [(c, taskID)]))) s"
    by (rule run_bind_cong) (auto simp: Cons.IH split: sum.split option.split)
  finally show ?case by simp
qed simp

lemma grab_winners_bounded:
  assumes "0 < th_MaxPerRun (rd_Throttle doc)" and "int (length got) \<le> th_MaxPerRun (rd_Throttle doc)"
  shows "wp (grab_winners doc rid tc now cs got) (\<lambda>(err, got') t. int (length got') \<le> th_MaxPerRun (rd_Throttle doc)) s"
  using assms(2)
proof (induction cs arbitrary: got s)
  case (Cons c cs)
  show ?case
  proof (cases "th_MaxPerRun (rd_Throttle doc) \<le> int (length got)")
    case True
    then show ?thesis using Cons.prems assms(1) by simp
  next
    case False
    then have here: "\<not> (0 < th_MaxPerRun (rd_Throttle doc) \<and> th_MaxPerRun (rd_Throttle doc) \<le> int (length got))" by simp
    show ?thesis
      unfolding grab_winners.simps if_not_P [OF here]
    proof (rule wp_seq [where P = "\<lambda>_ _. True"], goal_cases)
      case (2 r t)
      then show ?case
        using Cons.IH [of got t] Cons.IH [of "got @ [(c, the (projr r))]" t] Cons.prems False
        by (cases r) (auto split: option.split)
    qed (simp add: wp_def split: prod.split)
  qed
qed simp

subsection \<open>Claims\<close>

text \<open>
  C22. The choice among the accepted items of a run keeps every item and takes the best: winners and losers
  together are the candidates, each content has exactly one winner, no candidate for that content ranks
  before it (score, then priority of the feed, then the newer item), and the winners stand in that order, so
  a cap on the grabs spends its slots on the best.
\<close>

theorem Resolve_correct:
  "case Resolve cands of (winners, losers) \<Rightarrow>
     mset winners + mset losers = mset cands \<and>
     distinct (map ca_ContentKey winners) \<and> ca_ContentKey ` set winners = ca_ContentKey ` set cands \<and>
     sorted (map rank winners) \<and>
     {(w, c) \<in> set winners \<times> set cands. ca_ContentKey c = ca_ContentKey w} \<subseteq> {(w, c). rank w \<le> rank c}"
proof -
  obtain winners losers where R: "Resolve cands = (winners, losers)" by fastforce
  note W = Resolve_winners [OF R]
  have "rank w \<le> rank c" if "w \<in> set winners" "c \<in> set cands" "ca_ContentKey c = ca_ContentKey w" for w c
    using W(5) [OF that(1)] group_of_best(2) [OF that(2)] that(3) by simp
  with W R show ?thesis by auto
qed

text \<open>
  C21. An evaluation accepts only what is new. Whatever the tables hold and the database does, every
  candidate of a pass comes from the items it was given, in their order; its info-hash is on no match and on
  no live task; none of the episode keys it stages is stored for the rule; every grab of the same content
  that was sent scored less; and its own score reaches the minimum of the rule.
\<close>

theorem Evaluate_accepts_new:
  assumes "run_state (Evaluate lib doc rule items feedByID dbState) s = (Inr (decisions, cands), t)"
  shows "later s t \<and> subseq (map ca_Item cands) items \<and> (\<exists>e. newRuleEval lib doc rule = Inr e \<and>
     (\<forall>c \<in> set cands. re_scoreMinimum e \<le> ca_Score c \<and> fresh_keys s e (ca_stagedKeys c) \<and>
        fresh_content s (ca_Item c) (ca_ContentKey c) (ca_Score c)))"
proof (cases "newRuleEval lib doc rule")
  case (Inl err)
  with assms show ?thesis by (simp add: Evaluate_def)
next
  case (Inr e)
  with assms have run: "run_state (evaluate_items (unicode.truncate lib) dbState e (rd_Feeds doc) feedByID items) s =
      (Inr (decisions, cands), t)"
    by (simp add: Evaluate_def)
  note A = reads_run [OF reads_evaluate_items run]
  then show ?thesis using Inr by (auto simp: all_accepted_def accepted_def)
qed

text \<open>
  C20. The hand-off of a grab is announced and bounded. The creation path is called only when the row of the
  item is committed as queued, so that a crash in between leaves it as evidence: a path that would do
  anything else without that row makes no difference. And a rule with a cap creates at most that many tasks.
\<close>

theorem CommitGrabs_announced_bounded:
  "run_state (CommitGrabs doc rid cands (checked otherwise tc) now) s = run_state (CommitGrabs doc rid cands tc now) s \<and>
   (th_MaxPerRun (rd_Throttle doc) \<le> 0 \<or>
    int (length (cr_CreatedTaskIDs (snd (fst (run_state (CommitGrabs doc rid cands tc now) s))))) \<le> th_MaxPerRun (rd_Throttle doc))"
proof -
  obtain winners losers where R: "Resolve cands = (winners, losers)" by fastforce
  have "run_state (CommitGrabs doc rid cands (checked otherwise tc) now) s = run_state (CommitGrabs doc rid cands tc now) s"
    unfolding CommitGrabs_def R prod.case Let_def
    by (rule run_bind_cong) (auto simp: State_Monad.bind_def grab_winners_checked split: sum.split)
  moreover have "wp (CommitGrabs doc rid cands tc now)
      (\<lambda>r t. int (length (cr_CreatedTaskIDs (snd r))) \<le> th_MaxPerRun (rd_Throttle doc)) s"
    if "0 < th_MaxPerRun (rd_Throttle doc)"
    unfolding CommitGrabs_def R prod.case Let_def
  proof (rule wp_seq [OF wp_store_losers], goal_cases)
    case (1 l t)
    have g: "wp (grab_winners doc rid tc now winners []) (\<lambda>(err, got') t. int (length got') \<le> th_MaxPerRun (rd_Throttle doc)) u" for u
      by (rule grab_winners_bounded) (use that in auto)
    show ?case
    proof (cases l)
      case (Inr x)
      show ?thesis
        unfolding Inr sum.case
      proof (rule wp_seq [OF g], goal_cases)
        case (1 r u)
        then obtain err got where r: "r = (err, got)" "int (length got) \<le> th_MaxPerRun (rd_Throttle doc)" by (cases r) auto
        have "wp (SetRuleLastMatchAt rid a) (\<lambda>_ _. int (length got) \<le> th_MaxPerRun (rd_Throttle doc)) u" for a
          using r(2) by (simp add: wp_def split: prod.split)
        then show ?case unfolding r(1) prod.case using r(2) by (cases err) auto
      qed
    qed (use that in simp)
  qed
  ultimately show ?thesis
    using wp_run [of "CommitGrabs doc rid cands tc now" _ s] by (cases "run_state (CommitGrabs doc rid cands tc now) s") fastforce
qed

subsection \<open>Concrete runs\<close>

definition demo_lib :: rule_lib where
  "demo_lib = \<lparr>uc_lower = (\<lambda>r. r), uc_upper = (\<lambda>r. r), rx_fold = (=), rx_parse = (\<lambda>_. None),
     rl_float = (\<lambda>_. None), rl_time = (\<lambda>_. None)\<rparr>"

definition demo_doc :: "string list \<Rightarrow> rule_doc" where
  "demo_doc anyOf = \<lparr>rd_Name = ''r'', rd_Enabled = None, rd_Priority = 0, rd_Feeds = [],
     rd_Match = \<lparr>ms_Mode = MatchModeWildcard, ms_CaseSensitive = True, ms_Fields = [], ms_AnyOf = anyOf, ms_NoneOf = [],
       ms_MinSize = '''', ms_MaxSize = '''', ms_PublishedAfter = ''''\<rparr>,
     rd_Episode = Some \<lparr>es_Smart = True, es_Filter = '''', es_AllowRepackProper = None\<rparr>, rd_Score = None,
     rd_Action = \<lparr>as_Destination = '''', as_Category = '''', as_Tags = [], as_Paused = False,
       as_ContentLayout = '''', as_Engine = ''''\<rparr>,
     rd_Throttle = \<lparr>th_CooldownDays = 0, th_MaxPerRun = 0\<rparr>\<rparr>"

definition demo_item :: "string \<Rightarrow> string \<Rightarrow> feed_item" where
  "demo_item i title = \<lparr>fi_id = i, fi_feed_id = ''f'', fi_guid = None, fi_identity = i, fi_title = title,
     fi_title_norm = title, fi_link = None, fi_download_url = Some ''http://h/a'', fi_info_hash = None, fi_size_bytes = None,
     fi_published_at = Some 5, fi_read = False, fi_first_seen_at = 5, fi_raw_json = None, fi_created_at = 0, fi_updated_at = 0\<rparr>"

definition demo_feed :: feed where
  "demo_feed = \<lparr>fd_id = ''f'', fd_url = ''http://h'', fd_title = None, fd_enabled = True, fd_refresh_interval_s = 0,
     fd_item_cap = 50, fd_priority = 0, fd_etag = None, fd_last_modified = None, fd_ttl_minutes = None,
     fd_last_fetch_at = None, fd_last_success_at = None, fd_next_fetch_at = 0, fd_escalation_level = 0,
     fd_disabled_till = None, fd_last_error = None, fd_created_at = 0, fd_updated_at = 0\<rparr>"

definition demo_rule :: "string list \<Rightarrow> rule_doc rule" where
  "demo_rule anyOf = \<lparr>ru_id = ''r'', ru_name = ''r'', ru_enabled = True, ru_priority = 0,
     ru_definition = Some (demo_doc anyOf), ru_last_match_at = None, ru_created_at = 0, ru_updated_at = 0\<rparr>"

definition demo_press :: "string list \<Rightarrow> feed_item list \<Rightarrow> (string list, rule_doc) press" where
  "demo_press anyOf items = \<lparr>s_tasks = [demo_task ''t'' StateQueued], s_events = [], s_files = [], s_trackers = [], s_now = 100,
     s_sched = [], s_ulid = (\<lambda>n. replicate n CHR ''a''), s_nid = 0, s_hook = False, s_hooked = [], w_eng = [],
     w_calls = [], w_lease = NewRegistry, w_deadline = None, pr_feeds = [demo_feed], pr_items = items,
     pr_rules = [demo_rule anyOf], pr_matches = [], pr_seen = []\<rparr>"

text \<open>A creation path that logs the items it is asked for.\<close>

definition demo_creator :: "(string list, unit) task_creator" where
  "demo_creator g = do { modify (\<lambda>s. s\<lparr>w_eng := w_eng s @ [gq_FeedItemID g]\<rparr>); ret (Inr ''t'') }"

definition demo_pass :: "((string list, unit) rss_state, run_error list) action" where
  "demo_pass = RunAllRules demo_lib (\<lambda>s. s) ''f'' demo_creator 100"

text \<open>
  A title that is a REPACK when it is first seen stages the plain key only, and the items of a feed are
  evaluated again on every pass: the second pass grabs the same item as the variant.
\<close>

lemma repack_grabbed_twice:
  "w_eng (snd (run_state (do { _ \<leftarrow> demo_pass; demo_pass }) (demo_press [] [demo_item ''i'' ''S1E5 REPACK'']))) = [''i'', ''i'']"
  by code_simp

definition blank_rule :: rule_eval where
  "blank_rule = \<lparr>re_doc = (demo_doc ['' ''])\<lparr>rd_Match := (rd_Match (demo_doc ['' '']))\<lparr>ms_Mode := MatchModeWildcard, ms_Fields := [matchFieldTitle]\<rparr>\<rparr>,
     re_rule_id = ''r'', re_last_match_at = None, re_noneOf = [],
     re_anyOf = [\<lparr>mc_raw = '' '', mc_parts = [], mc_tokens = []\<rparr>], re_minSize = None, re_maxSize = None,
     re_publishedAfter = None, re_filter = None, re_smart = True, re_allowRep = True, re_scoreClauses = [],
     re_scoreMinimum = 0, re_cooldownMs = 0\<rparr>"

lemma blank_rule: "newRuleEval demo_lib (demo_doc ['' '']) (demo_rule ['' '']) = Inr blank_rule"
proof -
  have "trim_with spaces '' '' = ''''" by code_simp
  then have "Fields '' '' = []" by (subst Fields.simps) simp
  then show ?thesis
    by (simp add: newRuleEval_def demo_lib_def demo_doc_def demo_rule_def compileClause_def Let_def MatchModeWildcard_def
        MatchModeRegex_def bound_def eval_filter_def blank_rule_def wrap64_def millisPerDay_def)
qed

text \<open>
  An \<open>any_of\<close> entry of spaces passes the validation, has no tokens, matches everything, and is indexed past
  its end.
\<close>

lemma blank_entry_panics:
  "Validate demo_lib (demo_doc ['' '']) = [] \<and>
   fst (run_state (Evaluate demo_lib (demo_doc ['' '']) (demo_rule ['' '']) [demo_item ''i'' ''S1E5''] (feed_refs [demo_feed]) dbState) s)
     = Inl EvalPanic"
proof
  show "Validate demo_lib (demo_doc ['' '']) = []"
    by (simp add: Validate_def demo_doc_def is_valid_mode_def check_entries_def checkPattern_def pattern_ok_def maxPatternBytes_def
        compileMatchPattern_def MatchModeWildcard_def MatchModeRegex_def check_sizes_def check_filter_def check_score_def Let_def)
  have scope: "rd_Feeds (demo_doc ['' '']) = []" by (simp add: demo_doc_def)
  have "static_steps blank_rule (demo_item ''i'' ''S1E5'') = Inl EvalPanic"
    by (simp add: static_steps_def in_cooldown_def before_floor_def excluded_by_def any_of_step_def matchAny_def blank_rule_def
        demo_item_def Let_def)
  then show "fst (run_state (Evaluate demo_lib (demo_doc ['' '']) (demo_rule ['' '']) [demo_item ''i'' ''S1E5''] (feed_refs [demo_feed]) dbState) s)
     = Inl EvalPanic"
    using scope by (simp add: Evaluate_def blank_rule evaluateItem_def and_then_def Let_def)
qed

lemma demo_creator_ok: "creator_ok demo_creator"
  by (simp add: creator_ok_def demo_creator_def)

definition demo_evaluate :: "((string list, unit) rss_state, eval_error + (decision list \<times> grab_candidate list)) action" where
  "demo_evaluate = Evaluate demo_lib (demo_doc []) (demo_rule []) [demo_item ''i'' ''S1E5''] (feed_refs [demo_feed]) dbState"

theorem Evaluate_accepts_new_witness:
  "\<exists>ds c t. run_state demo_evaluate (demo_press [] []) = (Inr (ds, [c]), t) \<and> subseq (map ca_Item [c]) [demo_item ''i'' ''S1E5'']"
proof -
  have "(case fst (run_state demo_evaluate (demo_press [] [])) of Inl _ \<Rightarrow> False | Inr (ds, cs) \<Rightarrow> length cs = 1)"
    by code_simp
  then obtain ds c t where run: "run_state demo_evaluate (demo_press [] []) = (Inr (ds, [c]), t)"
    by (cases "run_state demo_evaluate (demo_press [] [])") (auto simp: length_Suc_conv split: sum.splits)
  from Evaluate_accepts_new [OF run [unfolded demo_evaluate_def]] run show ?thesis by blast
qed

end
