(* ===== verification/Regrab.thy ===== *)
theory Regrab
  imports RuleProps
begin

text \<open>
  A grab is not repeated. The theory shows which rows a commit of grabs can write, describes what may happen
  between a grab and a later evaluation, and proves that the row and the keys of a grab stay and keep barring
  what was grabbed.
\<close>

subsection \<open>The rows a commit can write\<close>

text \<open>A commit for a rule writes no row but those of the rule and of its candidates' items.\<close>

definition spared :: "string \<Rightarrow> grab_candidate list \<Rightarrow> ('e, 'd, 'z) press_scheme \<Rightarrow> ('e, 'd, 'z) press_scheme \<Rightarrow> bool" where
  "spared rid cs s t \<longleftrightarrow>
     (\<forall>m. \<not> list_ex (\<lambda>c. match_of rid c m) cs \<longrightarrow> m \<in> set (pr_matches s) \<longrightarrow> m \<in> set (pr_matches t)) \<and>
     set (pr_seen s) \<subseteq> set (pr_seen t)"

lemma spared_refl [simp]: "spared rid cs s s"
  by (simp add: spared_def)

lemma spared_trans: "spared rid cs s t \<Longrightarrow> spared rid cs t u \<Longrightarrow> spared rid cs s u"
  by (auto simp: spared_def)

lemma spared_same: "pr_matches t = pr_matches s \<Longrightarrow> pr_seen t = pr_seen s \<Longrightarrow> spared rid cs s t"
  by (simp add: spared_def)

lemma spared_only: "only_match rid c s t \<Longrightarrow> c \<in> set cs \<Longrightarrow> spared rid cs s t"
  by (auto simp: spared_def only_match_def list_ex_iff)

lemma wp_upsertMatch: "wp (upsertMatch rid status c now) (\<lambda>r t. only_match rid c s t) s"
  unfolding upsertMatch_def
proof (rule wp_and_then_seq)
  show "wp (press_tx (\<lambda>s. case queryMoveMatch rid status c now (pr_matches s) of (rows, n) \<Rightarrow>
      Inr (n, s\<lparr>pr_matches := rows\<rparr>))) (\<lambda>r t. only_match rid c s t) s"
  proof (rule wp_press_tx)
    fix t a u
    assume t: "later s t" and b: "(case queryMoveMatch rid status c now (pr_matches t) of (rows, n) \<Rightarrow>
      Inr (n, t\<lparr>pr_matches := rows\<rparr>)) = (Inr (a, u) :: rss_error + _)"
    have "only_match rid c t u"
      using b unfolding only_match_def
      by (auto simp: queryMoveMatch_def sql_update_def in_map_if match_of_def)
    then show "only_match rid c s u \<and> only_match rid c s u"
      using only_match_trans [OF only_match_later [OF t]] by blast
  qed (simp_all add: only_match_later)
next
  fix n :: nat and t
  assume n: "only_match rid c s t"
  show "wp (if 0 < n then press_query (\<lambda>s. case sql_find (match_of rid c) (pr_matches s) of
            None \<Rightarrow> Inl RssNotFound | Some m \<Rightarrow> Inr (rm_id m))
          else press_tx (\<lambda>s. Inr (insert_match rid status c now s))) (\<lambda>r t. only_match rid c s t) t"
  proof (cases "0 < n")
    case True
    then show ?thesis
      using n by (auto intro!: wp_press_query intro: only_match_trans only_match_later)
  next
    case False
    have "wp (press_tx (\<lambda>s. Inr (insert_match rid status c now s))) (\<lambda>r t. only_match rid c s t) t"
    proof (rule wp_press_tx)
      fix v a u
      assume v: "later t v" and b: "Inr (insert_match rid status c now v) = (Inr (a, u) :: rss_error + _)"
      have "only_match rid c v u"
        using b by (auto simp: insert_match_def NewID_def only_match_def match_of_def new_match_def)
      then show "only_match rid c s u \<and> only_match rid c s u"
        using only_match_trans [OF only_match_trans [OF n only_match_later [OF v]]] by blast
    qed (use n in \<open>auto intro: only_match_trans only_match_later\<close>)
    with False show ?thesis by simp
  qed
qed simp

lemma wp_store_losers_spared:
  "set cs \<subseteq> set all \<Longrightarrow> wp (store_losers rid now cs) (\<lambda>r t. spared rid all s t) s"
proof (induction cs arbitrary: s)
  case (Cons c cs)
  show ?case
    unfolding store_losers.simps
  proof (rule wp_and_then_seq [OF wp_upsertMatch], goal_cases)
    case (2 x t)
    then have st: "spared rid all s t" using Cons.prems by (auto intro: spared_only)
    have "wp (store_losers rid now cs) (\<lambda>r u. spared rid all t u) t" using Cons by simp
    then show ?case by (rule wp_mono) (rule spared_trans [OF st])
  qed (use Cons.prems in \<open>auto intro: spared_only\<close>)
qed simp

lemma wp_grab_winners_spared:
  assumes tc: "creator_ok tc"
  shows "set cs \<subseteq> set all \<Longrightarrow> wp (grab_winners doc rid tc now cs got) (\<lambda>r t. spared rid all s t) s"
proof (induction cs arbitrary: got s)
  case (Cons c cs)
  have "wp (grab_one doc rid tc now c) (\<lambda>r t. spared rid all s t) s"
    by (rule wp_mono [OF wp_grab_one [OF tc]]) (use Cons.prems in \<open>auto intro: spared_only\<close>)
  then have "wp (State_Monad.bind (grab_one doc rid tc now c) (\<lambda>r. case r of
       Inl err \<Rightarrow> ret (Some err, got) | Inr None \<Rightarrow> grab_winners doc rid tc now cs got
     | Inr (Some taskID) \<Rightarrow> grab_winners doc rid tc now cs (got @ [(c, taskID)]))) (\<lambda>r t. spared rid all s t) s"
  proof (rule wp_seq, goal_cases)
    case (1 r t)
    have "wp (grab_winners doc rid tc now cs g) (\<lambda>r u. spared rid all s u) t" for g
      by (rule wp_mono [OF Cons.IH]) (use Cons.prems 1 spared_trans in auto)
    then show ?case using 1 by (cases r) (auto split: option.split)
  qed
  then show ?case by simp
qed simp

lemma wp_CommitGrabs_spared:
  assumes "creator_ok tc"
  shows "wp (CommitGrabs doc rid cands tc now) (\<lambda>r t. spared rid cands s t) s"
proof -
  obtain winners losers where R: "Resolve cands = (winners, losers)" by fastforce
  have sub: "set winners \<subseteq> set cands" "set losers \<subseteq> set cands"
    using Resolve_winners(1) [OF R] by (metis set_mset_mset set_mset_union Un_upper1, metis set_mset_mset set_mset_union Un_upper2)
  show ?thesis
    unfolding CommitGrabs_def R prod.case Let_def
  proof (rule wp_seq [OF wp_store_losers_spared [OF sub(2)]], goal_cases)
    case l: (1 l t)
    show ?case
    proof (cases l)
      case (Inr x)
      show ?thesis
        unfolding Inr sum.case
      proof (rule wp_seq [OF wp_grab_winners_spared [OF assms sub(1)]], goal_cases)
        case (1 r u)
        then have su: "spared rid cands s u" using l spared_trans by blast
        have "wp (SetRuleLastMatchAt rid a) (\<lambda>w v. spared rid cands s v) u" for a
          by (rule wp_mono [OF recorded_SetRuleLastMatchAt]) (use su spared_trans spared_same in blast)
        then show ?case using su by (auto split: prod.split)
      qed
    qed (use l in simp)
  qed
qed

subsection \<open>What can come between\<close>

text \<open>
  What can come between: grabs of any rule, as \<open>allowed\<close> says, and everything else that leaves the rows of
  the matches and the keys of the rule in place. The references of a match row may be cleared, which is what
  the foreign keys do when a rule, an item or a task is deleted.
\<close>

definition unlinked :: "rule_match \<Rightarrow> rule_match \<Rightarrow> bool" where
  "unlinked m m' \<longleftrightarrow> rm_rule_id m' \<in> {None, rm_rule_id m} \<and> rm_feed_item_id m' \<in> {None, rm_feed_item_id m} \<and>
     rm_task_id m' \<in> {None, rm_task_id m} \<and>
     m' = m\<lparr>rm_rule_id := rm_rule_id m', rm_feed_item_id := rm_feed_item_id m', rm_task_id := rm_task_id m'\<rparr>"

inductive reader_runs ::
  "string \<Rightarrow> (string \<Rightarrow> grab_candidate list \<Rightarrow> bool) \<Rightarrow> ('e, 'z) rss_state \<Rightarrow> ('e, 'z) rss_state \<Rightarrow> bool"
  for rid :: string and allowed :: "string \<Rightarrow> grab_candidate list \<Rightarrow> bool" and s :: "('e, 'z) rss_state" where
  start: "reader_runs rid allowed s s"
| grabs: "reader_runs rid allowed s t \<Longrightarrow> creator_ok tc \<Longrightarrow> allowed rid' cands \<Longrightarrow>
    run_state (CommitGrabs doc rid' cands tc now) t = (r, u) \<Longrightarrow> reader_runs rid allowed s u"
| elsewhere: "reader_runs rid allowed s t \<Longrightarrow> \<forall>m \<in> set (pr_matches t). \<exists>m' \<in> set (pr_matches u). unlinked m m' \<Longrightarrow>
    {x \<in> set (pr_seen t). se_rule_id x = rid} \<subseteq> set (pr_seen u) \<Longrightarrow> reader_runs rid allowed s u"

text \<open>The bar that a grab leaves: its row, which its references may have left, with the content, the score and the hash.\<close>

definition bar_row :: "string \<Rightarrow> grab_candidate \<Rightarrow> rule_match \<Rightarrow> bool" where
  "bar_row rid c m \<longleftrightarrow> rm_rule_id m \<in> {None, Some rid} \<and> rm_feed_item_id m \<in> {None, Some (fi_id (ca_Item c))} \<and>
     rm_status m = matchSent \<and> rm_content_key m = Some (ca_ContentKey c) \<and> rm_score m = ca_Score c \<and>
     rm_info_hash m = fi_info_hash (ca_Item c)"

lemma bar_row_unlinked: "bar_row rid c m \<Longrightarrow> unlinked m m' \<Longrightarrow> bar_row rid c m'"
  unfolding unlinked_def bar_row_def by (cases m; cases m') auto

lemma recorded_bar: "recorded rid c tid s \<Longrightarrow> \<exists>m \<in> set (pr_matches s). bar_row rid c m"
  by (auto simp: recorded_def match_row_def match_of_def bar_row_def)

definition other_grab :: "string \<Rightarrow> grab_candidate \<Rightarrow> string \<Rightarrow> grab_candidate list \<Rightarrow> bool" where
  "other_grab rid c rid' cands \<longleftrightarrow> rid' \<noteq> rid \<or> fi_id (ca_Item c) \<notin> (fi_id \<circ> ca_Item) ` set cands"

lemma other_grab_keeps: "other_grab rid c rid' cands \<Longrightarrow> bar_row rid c m \<Longrightarrow> \<not> list_ex (\<lambda>d. match_of rid' d m) cands"
  by (auto simp: other_grab_def bar_row_def match_of_def list_ex_iff image_iff)

lemma reader_runs_bar:
  assumes "reader_runs rid (other_grab rid c) s t" and "\<exists>m \<in> set (pr_matches s). bar_row rid c m"
  shows "\<exists>m \<in> set (pr_matches t). bar_row rid c m"
  using assms
proof induction
  case (grabs t tc rid' cands doc now r u)
  then show ?case
    using wp_run [OF wp_CommitGrabs_spared [OF grabs.hyps(2)] grabs.hyps(4)] other_grab_keeps unfolding spared_def by blast
qed (use bar_row_unlinked in blast)+

lemma reader_runs_keys:
  assumes "reader_runs rid allowed s t" and "stored_key rid k s"
  shows "stored_key rid k t"
  using assms
proof induction
  case (grabs t tc rid' cands doc now r u)
  then show ?case
    using wp_run [OF wp_CommitGrabs_spared [OF grabs.hyps(2)] grabs.hyps(4)] unfolding spared_def stored_key_def by blast
qed (auto simp: stored_key_def)

text \<open>An evaluation of a rule, in a state, accepts a candidate.\<close>

definition accepts :: "('e, 'd, 'z) press_scheme \<Rightarrow> string \<Rightarrow> grab_candidate \<Rightarrow> bool" where
  "accepts s rid c \<longleftrightarrow> (\<exists>uc e item feed d t. re_rule_id e = rid \<and>
     run_state (evaluateItem uc dbState e item feed) s = (Inr (d, Some c), t))"

lemma accepts_accepted: "accepts s rid c \<Longrightarrow> \<exists>e. re_rule_id e = rid \<and> accepted s e (ca_Item c) c"
  unfolding accepts_def using reads_run(2) [OF reads_evaluateItem _ refl]
  by (metis accepted_def option.simps(5) snd_conv)

lemma bar_row_bars:
  assumes "accepts s rid' c'" and "m \<in> set (pr_matches s)" and "bar_row rid c m"
  shows "ca_ContentKey c' = ca_ContentKey c \<longrightarrow> ca_Score c < ca_Score c'"
    and "fi_info_hash (ca_Item c) = Some h \<Longrightarrow> h \<noteq> '''' \<Longrightarrow> fi_info_hash (ca_Item c') \<noteq> Some h"
  using accepts_accepted [OF assms(1)] assms(2,3)
  by (auto simp: accepted_def fresh_content_def bar_row_def known_hash_def)

subsection \<open>The claim\<close>

text \<open>
  C19. A grab is not repeated. When the path that creates tasks leaves the reader's tables alone, then
  whatever it answers and the database does, every task a commit reports is recorded with its item, its
  score and its episode keys. From then on, however many grabs of whatever rules follow and whatever else
  happens that keeps the match rows (up to cleared references) and the keys of the rule: no evaluation of the
  rule accepts a candidate that stages one of the keys again; and, as long as the rule makes no further grab
  of the same item, which would rewrite its row, no evaluation of any rule accepts a candidate for the same
  content unless it scores more, nor one with the same info-hash.
\<close>

theorem CommitGrabs_no_regrab:
  assumes "creator_ok tc" and "distinct (map (fi_id \<circ> ca_Item) cands)"
    and "run_state (CommitGrabs doc rid cands tc now) s = ((err, report), t)"
  shows "\<exists>got. map snd got = cr_CreatedTaskIDs report \<and> fst ` set got \<subseteq> set cands \<and>
    (\<forall>(c, tid) \<in> set got. recorded rid c tid t \<and>
      (\<forall>allowed u c'. reader_runs rid allowed t u \<longrightarrow> accepts u rid c' \<longrightarrow>
         set (ca_stagedKeys c') \<inter> set (ca_stagedKeys c) = {}) \<and>
      (\<forall>u rid' c'. reader_runs rid (other_grab rid c) t u \<longrightarrow> accepts u rid' c' \<longrightarrow>
         (ca_ContentKey c' = ca_ContentKey c \<longrightarrow> ca_Score c < ca_Score c') \<and>
         (\<forall>h. fi_info_hash (ca_Item c) = Some h \<longrightarrow> h \<noteq> '''' \<longrightarrow> fi_info_hash (ca_Item c') \<noteq> Some h)))"
proof -
  obtain got where got: "map snd got = cr_CreatedTaskIDs report" "fst ` set got \<subseteq> set cands"
      "\<forall>(c, tid) \<in> set got. recorded rid c tid t"
    using wp_run [OF wp_CommitGrabs [OF assms(1,2)] assms(3)] by auto
  have "set (ca_stagedKeys c') \<inter> set (ca_stagedKeys c) = {}"
    if rc: "recorded rid c tid t" and runs: "reader_runs rid allowed t u" and acc: "accepts u rid c'" for c tid allowed u c'
  proof -
    have "stored_key rid k u" if "k \<in> set (ca_stagedKeys c)" for k
      using reader_runs_keys [OF runs] rc that by (simp add: recorded_def)
    then show ?thesis using accepts_accepted [OF acc] by (auto simp: accepted_def fresh_keys_def)
  qed
  moreover have "(ca_ContentKey c' = ca_ContentKey c \<longrightarrow> ca_Score c < ca_Score c') \<and>
       (\<forall>h. fi_info_hash (ca_Item c) = Some h \<longrightarrow> h \<noteq> '''' \<longrightarrow> fi_info_hash (ca_Item c') \<noteq> Some h)"
    if rc: "recorded rid c tid t" and runs: "reader_runs rid (other_grab rid c) t u" and acc: "accepts u rid' c'" for c tid u rid' c'
    using reader_runs_bar [OF runs recorded_bar [OF rc]] bar_row_bars [OF acc] by blast
  ultimately show ?thesis using got by (intro exI [of _ got]) blast
qed

subsection \<open>A concrete run\<close>

definition demo_cand :: grab_candidate where
  "demo_cand = \<lparr>ca_Item = demo_item ''i'' ''S1E5'', ca_FeedURL = ''http://h'', ca_FeedPriority = 0, ca_Score = 0,
     ca_ContentKey = ''ep:r:1x5'', ca_EpisodeKey = ''1x5'', ca_Engine = NameAria2,
     ca_Norm = of_kind KindHTTP ''http://h/a'', ca_MatchedBy = None, ca_stagedKeys = [''1x5'']\<rparr>"

definition demo_stored :: "(string list, rule_doc) press" where
  "demo_stored = (demo_press [] [demo_item ''i'' ''S1E5'', demo_item ''j'' ''S1E6''])
     \<lparr>pr_rules := [demo_rule [], (demo_rule [])\<lparr>ru_id := ''q'', ru_name := ''q''\<rparr>]\<rparr>"

definition demo_commit :: "string \<Rightarrow> grab_candidate \<Rightarrow> ((string list, unit) rss_state, rss_error option \<times> commit_report) action" where
  "demo_commit rid c = CommitGrabs (demo_doc []) rid [c] demo_creator 100"

text \<open>A grab of another rule for another item.\<close>

definition demo_other :: grab_candidate where
  "demo_other = demo_cand\<lparr>ca_Item := demo_item ''j'' ''S1E6'', ca_ContentKey := ''ep:q:1x6'', ca_EpisodeKey := ''1x6'',
     ca_stagedKeys := [''1x6'']\<rparr>"

lemma demo_accepts: "accepts demo_stored ''r'' demo_cand"
proof -
  have "(case newRuleEval demo_lib (demo_doc []) (demo_rule []) of Inl _ \<Rightarrow> False | Inr e \<Rightarrow> re_rule_id e = ''r'' \<and>
     (case fst (run_state (evaluateItem (unicode.truncate demo_lib) dbState e (demo_item ''i'' ''S1E5'')
        (feed_of (feed_refs [demo_feed]) ''f'')) demo_stored) of
        Inr (d, Some c) \<Rightarrow> c = demo_cand | _ \<Rightarrow> False))"
    by code_simp
  then show ?thesis
    unfolding accepts_def
    by (auto split: sum.splits option.splits prod.splits) (metis prod.collapse)
qed

theorem CommitGrabs_no_regrab_witness:
  "\<exists>t u :: (string list, rule_doc) press. accepts demo_stored ''r'' demo_cand \<and> recorded ''r'' demo_cand ''t'' t \<and>
     reader_runs ''r'' (other_grab ''r'' demo_cand) t u \<and> map rm_rule_id (pr_matches u) = [Some ''r'', Some ''q''] \<and>
     \<not> accepts u ''r'' demo_cand"
proof -
  have "fst (run_state (demo_commit ''r'' demo_cand) demo_stored) =
      (None, \<lparr>cr_Evaluated = 0, cr_Matched = 1, cr_CreatedTaskIDs = [''t''], cr_Fallbacks = 0\<rparr>)"
    by code_simp
  then obtain t where run: "run_state (demo_commit ''r'' demo_cand) demo_stored =
      ((None, \<lparr>cr_Evaluated = 0, cr_Matched = 1, cr_CreatedTaskIDs = [''t''], cr_Fallbacks = 0\<rparr>), t)"
    by (metis prod.collapse)
  obtain r u where nxt: "run_state (demo_commit ''q'' demo_other) t = (r, u)" by fastforce
  have "map rm_rule_id (pr_matches (snd (run_state (demo_commit ''q'' demo_other)
      (snd (run_state (demo_commit ''r'' demo_cand) demo_stored))))) = [Some ''r'', Some ''q'']"
    by code_simp
  then have rows: "map rm_rule_id (pr_matches u) = [Some ''r'', Some ''q'']" by (simp add: run nxt)
  have "other_grab ''r'' demo_cand ''q'' [demo_other]" by (simp add: other_grab_def)
  then have runs: "reader_runs ''r'' (other_grab ''r'' demo_cand) t u"
    by (rule reader_runs.grabs [OF reader_runs.start demo_creator_ok _ nxt [unfolded demo_commit_def]])
  have distinct: "distinct (map (fi_id \<circ> ca_Item) [demo_cand])" by simp
  from CommitGrabs_no_regrab [OF demo_creator_ok distinct run [unfolded demo_commit_def]] obtain got where
    got: "map snd got = [''t'']" "fst ` set got \<subseteq> {demo_cand}"
      "\<forall>(c, tid) \<in> set got. recorded ''r'' c tid t \<and> (\<forall>u rid' c'. reader_runs ''r'' (other_grab ''r'' c) t u \<longrightarrow>
         accepts u rid' c' \<longrightarrow> ca_ContentKey c' = ca_ContentKey c \<longrightarrow> ca_Score c < ca_Score c')"
    by (elim exE conjE) (auto simp: split_beta)
  then have "(demo_cand, ''t'') \<in> set got" by (cases got) auto
  with got(3) have "recorded ''r'' demo_cand ''t'' t" "\<not> accepts u ''r'' demo_cand" using runs by fastforce+
  with demo_accepts runs rows show ?thesis by (intro exI [of _ t] exI [of _ u] conjI)
qed

end
