(* ===== verification/Jobs.thy ===== *)
theory Jobs
  imports Wp
begin

section \<open>Background jobs\<close>

text \<open>
  The durable queue of \<open>store/jobs.go\<close>, the worker pool of \<open>jobs/worker.go\<close>, and every other writer of the
  table: the cron entry of \<open>jobs/cron.go\<close>, the extract and move jobs of \<open>jobs/postprocess.go\<close>, which reset
  rows of earlier runs, the webhook jobs of \<open>jobs/handlers_notify.go\<close>, the search jobs of \<open>store/search.go\<close>,
  the prune of \<open>store/maintenance.go\<close> and the cascade of a deleted task. A statement is a transaction over
  the table of jobs, with the faults of the database. A handler is a parameter: what it answers decides the
  outcome of a job, and a panic of it is an answer too (\<open>runSafely\<close>).

  The pool is a step relation: the goroutines of the pool claim and settle in any order, other code enqueues
  and prunes meanwhile, and the process may end at any point and boot again.
\<close>

subsection \<open>The table\<close>

datatype job_state = JobPending | JobRunning | JobDone | JobFailed

record job =
  jb_id :: string
  jb_kind :: string
  jb_task_id :: "string option"
  jb_payload :: string
  jb_state :: job_state
  jb_attempts :: int
  jb_max_attempts :: int
  jb_run_after :: int
  jb_locked_at :: "int option"
  jb_last_error :: "string option"
  jb_created_at :: int
  jb_updated_at :: int

record job_store = store +
  s_jobs :: "job list"

definition PrefixJob :: string where "PrefixJob = ''job_''"

definition backoffBaseDelayMS :: int where "backoffBaseDelayMS = 5000"
definition backoffMaxDelayMS :: int where "backoffMaxDelayMS = 600000"
definition backoffMaxShift :: int where "backoffMaxShift = 7"

definition Backoff :: "int \<Rightarrow> int \<Rightarrow> int" where
  "Backoff now attempts0 =
     (let attempts = (if attempts0 < 0 then 0 else attempts0) in
      if backoffMaxShift \<le> attempts then wrap64 (now + backoffMaxDelayMS)
      else wrap64 (now + wrap64 (push_bit (nat attempts) backoffBaseDelayMS)))"

text \<open>The primary key, and the foreign key to the tasks.\<close>

definition jobs_ok :: "'z job_store_scheme \<Rightarrow> bool" where
  "jobs_ok s \<longleftrightarrow> distinct (map jb_id (s_jobs s)) \<and>
     list_all (\<lambda>j. case jb_task_id j of None \<Rightarrow> True | Some t \<Rightarrow> t \<in> set (map t_id (s_tasks s))) (s_jobs s)"

definition jobs_tx ::
  "('z job_store_scheme \<Rightarrow> 'a tx_result \<times> 'z job_store_scheme) \<Rightarrow> ('z job_store_scheme, store_error + 'a) action" where
  "jobs_tx body = tx (\<lambda>s. case body s of
      (Commit a, s') \<Rightarrow> if jobs_ok s' then (Commit a, s') else (Rollback (Inl SErrDB), s)
    | (Rollback r, s') \<Rightarrow> (Rollback r, s'))"

text \<open>The payload is handed over as the text it is marshalled to.\<close>

definition queryEnqueueJob :: "string \<Rightarrow> string \<Rightarrow> string option \<Rightarrow> string \<Rightarrow> int \<Rightarrow> int \<Rightarrow> job" where
  "queryEnqueueJob jid kind taskID payload runAfter now =
     \<lparr>jb_id = jid, jb_kind = kind, jb_task_id = taskID, jb_payload = payload, jb_state = JobPending, jb_attempts = 0,
      jb_max_attempts = 5, jb_run_after = runAfter, jb_locked_at = None, jb_last_error = None,
      jb_created_at = now, jb_updated_at = now\<rparr>"

definition EnqueueJob ::
  "string \<Rightarrow> string option \<Rightarrow> string \<Rightarrow> int \<Rightarrow> ('z job_store_scheme, store_error + string) action" where
  "EnqueueJob kind taskID payload runAfter = do {
     now \<leftarrow> reader s_now;
     jobs_tx (\<lambda>s. case NewID PrefixJob s of
       (jid, s') \<Rightarrow> (Commit jid, s'\<lparr>s_jobs := s_jobs s' @ [queryEnqueueJob jid kind taskID payload runAfter now]\<rparr>))
   }"

text \<open>
  The subquery of the claim: the oldest eligible row. Among rows due at the same time the index on state and
  run_after yields the one inserted first.
\<close>

definition eligible :: "int \<Rightarrow> job \<Rightarrow> bool" where
  "eligible now j \<longleftrightarrow> jb_state j = JobPending \<and> jb_run_after j \<le> now"

definition oldest_eligible :: "int \<Rightarrow> job list \<Rightarrow> job option" where
  "oldest_eligible now rows = (case sort_key jb_run_after (filter (eligible now) rows) of [] \<Rightarrow> None | j # _ \<Rightarrow> Some j)"

definition queryClaimJob :: "int \<Rightarrow> job list \<Rightarrow> (job \<times> job list) option" where
  "queryClaimJob now rows = (case oldest_eligible now rows of
      None \<Rightarrow> None
    | Some j \<Rightarrow>
        let j' = j\<lparr>jb_state := JobRunning, jb_locked_at := Some now, jb_attempts := jb_attempts j + 1, jb_updated_at := now\<rparr> in
        Some (j', map (\<lambda>r. if jb_id r = jb_id j then j' else r) rows))"

text \<open>The columns that the claim returns.\<close>

record claimed =
  cj_id :: string
  cj_kind :: string
  cj_task_id :: "string option"
  cj_payload :: string
  cj_attempts :: int
  cj_max_attempts :: int

definition returning :: "job \<Rightarrow> claimed" where
  "returning j = \<lparr>cj_id = jb_id j, cj_kind = jb_kind j, cj_task_id = jb_task_id j, cj_payload = jb_payload j,
     cj_attempts = jb_attempts j, cj_max_attempts = jb_max_attempts j\<rparr>"

definition ClaimJob :: "int \<Rightarrow> ('z job_store_scheme, store_error + claimed) action" where
  "ClaimJob now = jobs_tx (\<lambda>s. case queryClaimJob now (s_jobs s) of
      None \<Rightarrow> (Rollback (Inl SErrNotFound), s)
    | Some (j, rows) \<Rightarrow> (Commit (returning j), s\<lparr>s_jobs := rows\<rparr>))"

definition queryCompleteJob :: "int \<Rightarrow> job \<Rightarrow> job" where
  "queryCompleteJob now j = j\<lparr>jb_state := JobDone, jb_updated_at := now\<rparr>"

definition queryRescheduleJob :: "string \<Rightarrow> int \<Rightarrow> int \<Rightarrow> job \<Rightarrow> job" where
  "queryRescheduleJob err runAfter now j = j\<lparr>jb_state := JobPending, jb_locked_at := None, jb_last_error := Some err,
     jb_run_after := runAfter, jb_updated_at := now\<rparr>"

definition queryFailJob :: "string \<Rightarrow> int \<Rightarrow> job \<Rightarrow> job" where
  "queryFailJob err now j = j\<lparr>jb_state := JobFailed, jb_last_error := Some err, jb_updated_at := now\<rparr>"

definition write_job :: "string \<Rightarrow> (job \<Rightarrow> job) \<Rightarrow> ('z job_store_scheme, store_error + unit) action" where
  "write_job jid f = jobs_tx (\<lambda>s. (Commit (), s\<lparr>s_jobs := fst (sql_update (\<lambda>j. jb_id j = jid) f (s_jobs s))\<rparr>))"

definition CompleteJob :: "string \<Rightarrow> int \<Rightarrow> ('z job_store_scheme, store_error + unit) action" where
  "CompleteJob jid now = write_job jid (queryCompleteJob now)"

definition FailJob :: "string \<Rightarrow> int \<Rightarrow> int \<Rightarrow> string \<Rightarrow> int \<Rightarrow> ('z job_store_scheme, store_error + unit) action" where
  "FailJob jid attempts maxAttempts lastErr now =
     (if maxAttempts \<le> attempts then write_job jid (queryFailJob lastErr now)
      else write_job jid (queryRescheduleJob lastErr (Backoff now attempts) now))"

definition queryRecoverRunningJobs :: "job \<Rightarrow> job" where
  "queryRecoverRunningJobs j = j\<lparr>jb_state := JobPending, jb_locked_at := None\<rparr>"

definition RecoverRunningJobs :: "('z job_store_scheme, store_error + nat) action" where
  "RecoverRunningJobs = jobs_tx (\<lambda>s. case sql_update (\<lambda>j. jb_state j = JobRunning) queryRecoverRunningJobs (s_jobs s) of
      (rows, n) \<Rightarrow> (Commit n, s\<lparr>s_jobs := rows\<rparr>))"

definition doneJobsRetention :: int where "doneJobsRetention = 7 * 24 * 60 * 60 * 1000"

definition PruneDoneJobs :: "int \<Rightarrow> ('z job_store_scheme, store_error + nat) action" where
  "PruneDoneJobs now = jobs_tx (\<lambda>s.
     case sql_delete (\<lambda>j. jb_state j = JobDone \<and> jb_updated_at j < now - doneJobsRetention) (s_jobs s) of
      (rows, n) \<Rightarrow> (Commit n, s\<lparr>s_jobs := rows\<rparr>))"

text \<open>The cron entry: one pending job of a kind at a time, errors only logged.\<close>

definition enqueueOnce :: "string \<Rightarrow> ('z job_store_scheme, unit) action" where
  "enqueueOnce kind = do {
     r \<leftarrow> query (\<lambda>s. Inr (length (filter (\<lambda>j. jb_kind j = kind \<and> jb_state j = JobPending) (s_jobs s))));
     case r of
       Inl err \<Rightarrow> ret ()
     | Inr pending \<Rightarrow>
         if 0 < pending then ret ()
         else do {
           now \<leftarrow> reader s_now;
           _ \<leftarrow> EnqueueJob kind None ''{}'' now;
           ret ()
         }
   }"

text \<open>
  The post-processing chain. A job of an earlier run of the task is reset, and one is created when there is
  none. For an extract job these are two statements, for a move job one transaction.
\<close>

definition JobKindExtract :: string where "JobKindExtract = ''extract''"
definition JobKindMove :: string where "JobKindMove = ''move''"
definition JobKindWebhook :: string where "JobKindWebhook = ''webhook''"
definition JobKindSearch :: string where "JobKindSearch = ''search''"

definition rearmed :: "int \<Rightarrow> job \<Rightarrow> job" where
  "rearmed now j = j\<lparr>jb_state := JobPending, jb_attempts := 0, jb_locked_at := None, jb_last_error := None,
     jb_run_after := now, jb_updated_at := now\<rparr>"

definition insert_unless ::
  "(job \<Rightarrow> bool) \<Rightarrow> string \<Rightarrow> string option \<Rightarrow> string \<Rightarrow> int \<Rightarrow> 'z job_store_scheme \<Rightarrow> 'z job_store_scheme" where
  "insert_unless known kind taskID payload now s = (case NewID PrefixJob s of (jid, s') \<Rightarrow>
     if list_ex known (s_jobs s') then s'
     else s'\<lparr>s_jobs := s_jobs s' @ [queryEnqueueJob jid kind taskID payload now now]\<rparr>)"

definition of_task :: "string \<Rightarrow> string \<Rightarrow> job \<Rightarrow> bool" where
  "of_task kind taskID j \<longleftrightarrow> jb_kind j = kind \<and> jb_task_id j = Some taskID"

definition reset_extract :: "string \<Rightarrow> int \<Rightarrow> ('z job_store_scheme, store_error + unit) action" where
  "reset_extract taskID now = jobs_tx (\<lambda>s. (Commit (), s\<lparr>s_jobs := fst (sql_update
     (\<lambda>j. of_task JobKindExtract taskID j \<and> jb_state j = JobFailed) (rearmed now) (s_jobs s))\<rparr>))"

definition insert_extract :: "string \<Rightarrow> string \<Rightarrow> int \<Rightarrow> ('z job_store_scheme, store_error + unit) action" where
  "insert_extract taskID payload now = jobs_tx (\<lambda>s.
     (Commit (), insert_unless (of_task JobKindExtract taskID) JobKindExtract (Some taskID) payload now s))"

definition enqueueExtract :: "string \<Rightarrow> string \<Rightarrow> ('z job_store_scheme, store_error + unit) action" where
  "enqueueExtract taskID payload = do {
     now \<leftarrow> reader s_now;
     and_then (reset_extract taskID now) (\<lambda>_. insert_extract taskID payload now)
   }"

definition write_move :: "string \<Rightarrow> string \<Rightarrow> int \<Rightarrow> ('z job_store_scheme, store_error + unit) action" where
  "write_move taskID payload now = jobs_tx (\<lambda>s. (Commit (),
     insert_unless (of_task JobKindMove taskID) JobKindMove (Some taskID) payload now (s\<lparr>s_jobs := fst (sql_update
       (\<lambda>j. of_task JobKindMove taskID j \<and>
          (jb_state j = JobDone \<or> jb_state j = JobFailed \<or> jb_state j = JobPending \<and> jb_payload j \<noteq> payload))
       (\<lambda>j. (rearmed now j)\<lparr>jb_payload := payload\<rparr>) (s_jobs s))\<rparr>)))"

definition enqueueMove :: "string \<Rightarrow> string \<Rightarrow> ('z job_store_scheme, store_error + unit) action" where
  "enqueueMove taskID payload = do { now \<leftarrow> reader s_now; write_move taskID payload now }"

definition queryEnqueueWebhook :: "string \<Rightarrow> int \<Rightarrow> ('z job_store_scheme, store_error + unit) action" where
  "queryEnqueueWebhook payload now = jobs_tx (\<lambda>s.
     (Commit (), insert_unless (\<lambda>j. jb_kind j = JobKindWebhook \<and> jb_payload j = payload) JobKindWebhook None payload now s))"

definition EnqueueSearchJob :: "string \<Rightarrow> int \<Rightarrow> ('z job_store_scheme, store_error + string) action" where
  "EnqueueSearchJob payload runAfter = do {
     now \<leftarrow> reader s_now;
     jobs_tx (\<lambda>s. case NewID PrefixJob s of
       (jid, s') \<Rightarrow> (Commit jid, s'\<lparr>s_jobs := s_jobs s' @
          [(queryEnqueueJob jid JobKindSearch None payload runAfter now)\<lparr>jb_max_attempts := 1\<rparr>]\<rparr>))
   }"

text \<open>\<open>json_extract\<close> of the database reads the id of the search from a payload.\<close>

definition DeleteSearchQueueRow ::
  "(string \<Rightarrow> string option) \<Rightarrow> string \<Rightarrow> ('z job_store_scheme, store_error + unit) action" where
  "DeleteSearchQueueRow json_extract searchJobID = jobs_tx (\<lambda>s. (Commit (), s\<lparr>s_jobs := fst (sql_delete
     (\<lambda>j. jb_kind j = JobKindSearch \<and> json_extract (jb_payload j) = Some searchJobID) (s_jobs s))\<rparr>))"

text \<open>\<open>ON DELETE CASCADE\<close>: the jobs of a deleted task.\<close>

definition drop_jobs_of :: "string \<Rightarrow> ('z job_store_scheme, store_error + unit) action" where
  "drop_jobs_of taskID = jobs_tx (\<lambda>s. (Commit (), s\<lparr>s_jobs := fst (sql_delete (\<lambda>j. jb_task_id j = Some taskID) (s_jobs s))\<rparr>))"

subsection \<open>Running a job\<close>

datatype handler_result = HandlerDone | HandlerError string | HandlerPanic string

definition errNoHandler :: string where "errNoHandler = ''jobs: no handler registered for kind''"

definition quoted :: "string \<Rightarrow> string" where "quoted k = CHR 0x22 # k @ [CHR 0x22]"

definition runSafely :: "string \<Rightarrow> handler_result \<Rightarrow> string option" where
  "runSafely kind r = (case r of
      HandlerDone \<Rightarrow> None
    | HandlerError err \<Rightarrow> Some err
    | HandlerPanic p \<Rightarrow> Some (''jobs: handler for kind '' @ quoted kind @ '' panicked: '' @ p))"

text \<open>The write of an outcome is detached from the context of the pool, and its error only logged.\<close>

definition fail_claimed :: "claimed \<Rightarrow> int \<Rightarrow> string \<Rightarrow> ('z job_store_scheme, unit) action" where
  "fail_claimed j attempts cause = do {
     now \<leftarrow> reader s_now;
     _ \<leftarrow> FailJob (cj_id j) attempts (cj_max_attempts j) cause now;
     ret ()
   }"

text \<open>\<open>None\<close>: no handler is registered for the kind.\<close>

definition settle :: "claimed \<Rightarrow> handler_result option \<Rightarrow> ('z job_store_scheme, unit) action" where
  "settle j outcome = (case outcome of
      None \<Rightarrow> fail_claimed j (cj_max_attempts j) (errNoHandler @ '' '' @ quoted (cj_kind j))
    | Some r \<Rightarrow> (case runSafely (cj_kind j) r of
        Some err \<Rightarrow> fail_claimed j (cj_attempts j) err
      | None \<Rightarrow> do {
          now \<leftarrow> reader s_now;
          _ \<leftarrow> CompleteJob (cj_id j) now;
          ret ()
        }))"

definition execute ::
  "(string \<Rightarrow> (claimed \<Rightarrow> ('z job_store_scheme, handler_result) action) option) \<Rightarrow> claimed \<Rightarrow>
   ('z job_store_scheme, unit) action" where
  "execute handlers j = (case handlers (cj_kind j) of
      None \<Rightarrow> settle j None
    | Some h \<Rightarrow> do { r \<leftarrow> h j; settle j (Some r) })"

text \<open>One pass of the loop of a worker: whether it found a job, which it then ran.\<close>

definition claim_pass ::
  "(string \<Rightarrow> (claimed \<Rightarrow> ('z job_store_scheme, handler_result) action) option) \<Rightarrow> ('z job_store_scheme, bool) action" where
  "claim_pass handlers = do {
     now \<leftarrow> reader s_now;
     r \<leftarrow> ClaimJob now;
     case r of Inl err \<Rightarrow> ret False | Inr j \<Rightarrow> do { _ \<leftarrow> execute handlers j; ret True }
   }"

subsection \<open>The pool\<close>

text \<open>The statements with which the rest of the program writes the table.\<close>

datatype job_write =
    WEnqueue string "string option" string int
  | WResetExtract string int
  | WInsertExtract string string int
  | WMove string string int
  | WWebhook string int
  | WSearch string int
  | WSearchGone "string \<Rightarrow> string option" string
  | WTaskGone string
  | WPrune int

fun run_write :: "job_write \<Rightarrow> ('z job_store_scheme, unit) action" where
  "run_write (WEnqueue kind taskID payload runAfter) = do { _ \<leftarrow> EnqueueJob kind taskID payload runAfter; ret () }"
| "run_write (WResetExtract taskID now) = do { _ \<leftarrow> reset_extract taskID now; ret () }"
| "run_write (WInsertExtract taskID payload now) = do { _ \<leftarrow> insert_extract taskID payload now; ret () }"
| "run_write (WMove taskID payload now) = do { _ \<leftarrow> write_move taskID payload now; ret () }"
| "run_write (WWebhook payload now) = do { _ \<leftarrow> queryEnqueueWebhook payload now; ret () }"
| "run_write (WSearch payload runAfter) = do { _ \<leftarrow> EnqueueSearchJob payload runAfter; ret () }"
| "run_write (WSearchGone json_extract searchJobID) = do { _ \<leftarrow> DeleteSearchQueueRow json_extract searchJobID; ret () }"
| "run_write (WTaskGone taskID) = do { _ \<leftarrow> drop_jobs_of taskID; ret () }"
| "run_write (WPrune now) = do { _ \<leftarrow> PruneDoneJobs now; ret () }"

text \<open>
  The hands of the pool: what each goroutine is running. \<open>po_boots\<close> counts the boots, and \<open>po_runs\<close> how often
  a job was handed to a worker since it was enqueued or last reset; both belong to the statements only.
\<close>

record 'z pool =
  po_db :: "'z job_store_scheme"
  po_hands :: "claimed option list"
  po_boots :: nat
  po_runs :: "string \<Rightarrow> nat"

definition in_hands :: "claimed option list \<Rightarrow> claimed list" where
  "in_hands hands = List.map_filter id hands"

text \<open>The jobs that a write of the rest of the program created or reset.\<close>

definition renewed :: "job list \<Rightarrow> job list \<Rightarrow> string \<Rightarrow> bool" where
  "renewed rows rows' i \<longleftrightarrow> list_ex (\<lambda>j. jb_id j = i \<and> j \<notin> set rows) rows'"

text \<open>The id that the next insert takes is one that no worker has in hands: what the ULID package promises.\<close>

definition fresh_job_id :: "'z pool \<Rightarrow> bool" where
  "fresh_job_id p \<longleftrightarrow> PrefixJob @ s_ulid (po_db p) (s_nid (po_db p)) \<notin> cj_id ` set (in_hands (po_hands p))"

inductive pool_step :: "'z pool \<Rightarrow> 'z pool \<Rightarrow> bool" where
  claim: "i < length (po_hands p) \<Longrightarrow> po_hands p ! i = None \<Longrightarrow> run_state (ClaimJob now) (po_db p) = (Inr j, db) \<Longrightarrow>
    pool_step p (p\<lparr>po_db := db, po_hands := (po_hands p)[i := Some j], po_runs := (po_runs p)(cj_id j := Suc (po_runs p (cj_id j)))\<rparr>)"
| idle: "run_state (ClaimJob now) (po_db p) = (Inl err, db) \<Longrightarrow> pool_step p (p\<lparr>po_db := db\<rparr>)"
| settled: "i < length (po_hands p) \<Longrightarrow> po_hands p ! i = Some j \<Longrightarrow> run_state (settle j outcome) (po_db p) = (u, db) \<Longrightarrow>
    pool_step p (p\<lparr>po_db := db, po_hands := (po_hands p)[i := None]\<rparr>)"
| written: "fresh_job_id p \<Longrightarrow> run_state (run_write c) (po_db p) = (u, db) \<Longrightarrow>
    pool_step p (p\<lparr>po_db := db, po_runs := (\<lambda>i. if renewed (s_jobs (po_db p)) (s_jobs db) i then 0 else po_runs p i)\<rparr>)"
| elsewhere: "s_jobs db = s_jobs (po_db p) \<Longrightarrow> pool_step p (p\<lparr>po_db := db\<rparr>)"
| boot: "run_state RecoverRunningJobs (po_db p) = (r, db) \<Longrightarrow>
    pool_step p (p\<lparr>po_db := db, po_hands := replicate n None, po_boots := Suc (po_boots p)\<rparr>)"

inductive_cases pool_stepE: "pool_step p q"

text \<open>The first boot: idle workers over a table, perhaps empty, of jobs that were never tried.\<close>

definition pool_start :: "'z pool \<Rightarrow> bool" where
  "pool_start p \<longleftrightarrow> po_boots p = 0 \<and> in_hands (po_hands p) = [] \<and> po_runs p = (\<lambda>_. 0) \<and>
     distinct (map jb_id (s_jobs (po_db p))) \<and>
     list_all (\<lambda>j. jb_state j = JobPending \<and> jb_attempts j = 0 \<and> 0 < jb_max_attempts j) (s_jobs (po_db p))"

end
