(* ===== verification/JobsProps.thy ===== *)
theory JobsProps
  imports Jobs
begin

section \<open>The pool runs each job once at a time\<close>

subsection \<open>What the statements do to the table\<close>

lemma wp_jobs_tx [wp_rules]:
  assumes "\<And>t. later s t \<Longrightarrow> Q (Inl SErrDB) t"
    and "\<And>t r u. later s t \<Longrightarrow> body t = (Rollback r, u) \<Longrightarrow> Q r t"
    and "\<And>t a u. later s t \<Longrightarrow> body t = (Commit a, u) \<Longrightarrow> jobs_ok u \<Longrightarrow> Q (Inr a) u \<and> Q (Inl SErrDB) u"
  shows "wp (jobs_tx body) Q s"
  unfolding jobs_tx_def by (rule wp_tx) (use assms in \<open>auto split: prod.splits tx_result.splits if_splits\<close>)

lemma later_jobs: "later s t \<Longrightarrow> s_jobs t = s_jobs s"
  by (auto simp: later_def after_tick_def)

definition row_write :: "string \<Rightarrow> (job \<Rightarrow> job) \<Rightarrow> job list \<Rightarrow> job list" where
  "row_write jid f rows = map (\<lambda>r. if jb_id r = jid then f r else r) rows"

definition claim_row :: "int \<Rightarrow> job \<Rightarrow> job" where
  "claim_row now j = j\<lparr>jb_state := JobRunning, jb_locked_at := Some now, jb_attempts := jb_attempts j + 1, jb_updated_at := now\<rparr>"

lemma oldest_eligible_SomeD: "oldest_eligible now rows = Some j \<Longrightarrow> j \<in> set rows \<and> eligible now j"
proof -
  assume "oldest_eligible now rows = Some j"
  then have "j \<in> set (sort_key jb_run_after (filter (eligible now) rows))"
    by (auto simp: oldest_eligible_def simp del: set_sort split: list.splits)
  then show ?thesis by simp
qed

lemma wp_ClaimJob:
  "wp (ClaimJob now) (\<lambda>r t.
     (case r of
        Inr c \<Rightarrow> \<exists>j \<in> set (s_jobs s). eligible now j \<and> c = returning (claim_row now j) \<and>
          s_jobs t = map (\<lambda>r. if jb_id r = jb_id j then claim_row now j else r) (s_jobs s)
      | Inl err \<Rightarrow> s_jobs t = s_jobs s \<or> (\<exists>j \<in> set (s_jobs s). eligible now j \<and>
          s_jobs t = map (\<lambda>r. if jb_id r = jb_id j then claim_row now j else r) (s_jobs s)))) s"
  unfolding ClaimJob_def
proof (rule wp_jobs_tx, goal_cases)
  case (3 t a u)
  then obtain j where "oldest_eligible now (s_jobs s) = Some j" "a = returning (claim_row now j)"
    "s_jobs u = map (\<lambda>r. if jb_id r = jb_id j then claim_row now j else r) (s_jobs s)"
    by (auto simp: queryClaimJob_def later_jobs claim_row_def Let_def split: option.splits)
  with oldest_eligible_SomeD [of now "s_jobs s" j] show ?case by auto
qed (auto simp: later_jobs split: option.splits)

lemma wp_write_job:
  "wp (write_job jid f) (\<lambda>r t. s_jobs t = s_jobs s \<or> s_jobs t = row_write jid f (s_jobs s)) s"
  unfolding write_job_def by (rule wp_jobs_tx) (auto simp: later_jobs row_write_def)

text \<open>A settled job is done, or it failed, or it waits again with attempts left.\<close>

definition outcome_row :: "claimed \<Rightarrow> job \<Rightarrow> job \<Rightarrow> bool" where
  "outcome_row c r r' \<longleftrightarrow> jb_id r' = jb_id r \<and> jb_attempts r' = jb_attempts r \<and> jb_max_attempts r' = jb_max_attempts r \<and>
     (jb_state r' = JobPending \<longrightarrow> cj_attempts c < cj_max_attempts c)"

lemma wp_settle:
  "wp (settle c outcome) (\<lambda>r t. s_jobs t = s_jobs s \<or>
     (\<exists>f. (\<forall>r. outcome_row c r (f r) \<and> jb_state (f r) \<noteq> JobRunning) \<and> s_jobs t = row_write (cj_id c) f (s_jobs s))) s"
proof -
  have w: "wp (write_job jid f) (\<lambda>r t. s_jobs t = s_jobs s \<or>
     (\<exists>f. (\<forall>r. outcome_row c r (f r) \<and> jb_state (f r) \<noteq> JobRunning) \<and> s_jobs t = row_write jid f (s_jobs s))) s"
    if "\<And>r. outcome_row c r (f r) \<and> jb_state (f r) \<noteq> JobRunning" for jid f
    using wp_write_job by (rule wp_mono) (use that in blast)
  have "outcome_row c r (queryFailJob err now r) \<and> jb_state (queryFailJob err now r) \<noteq> JobRunning"
    "outcome_row c r (queryCompleteJob now r) \<and> jb_state (queryCompleteJob now r) \<noteq> JobRunning"
    "cj_attempts c < cj_max_attempts c \<Longrightarrow>
      outcome_row c r (queryRescheduleJob err later_ms now r) \<and> jb_state (queryRescheduleJob err later_ms now r) \<noteq> JobRunning"
    for err later_ms now r
    by (simp_all add: outcome_row_def queryFailJob_def queryCompleteJob_def queryRescheduleJob_def)
  note w [OF this(1)] w [OF this(2)] w [OF this(3)]
  then show ?thesis
    unfolding settle_def fail_claimed_def FailJob_def CompleteJob_def
    by (simp split: option.split)
qed

lemma wp_Recover:
  "wp RecoverRunningJobs (\<lambda>r t. s_jobs t = s_jobs s \<or>
     s_jobs t = map (\<lambda>r. if jb_state r = JobRunning then queryRecoverRunningJobs r else r) (s_jobs s)) s"
  unfolding RecoverRunningJobs_def by (rule wp_jobs_tx) (auto simp: later_jobs sql_update_def)

subsection \<open>The invariant\<close>

definition row_ok :: "nat \<Rightarrow> job \<Rightarrow> bool" where
  "row_ok boots r \<longleftrightarrow> 0 < jb_max_attempts r \<and> jb_attempts r \<le> jb_max_attempts r + int boots \<and>
     (jb_state r = JobPending \<longrightarrow> jb_attempts r < jb_max_attempts r + int boots)"

definition held_row :: "claimed \<Rightarrow> job \<Rightarrow> bool" where
  "held_row c r \<longleftrightarrow> jb_state r = JobRunning \<and> cj_attempts c = jb_attempts r \<and> cj_max_attempts c = jb_max_attempts r"

definition hands_ok :: "claimed list \<Rightarrow> job list \<Rightarrow> bool" where
  "hands_ok cs rows \<longleftrightarrow> distinct (map cj_id cs) \<and>
     (\<forall>c \<in> set cs. \<forall>r \<in> set rows. jb_id r = cj_id c \<longrightarrow> held_row c r)"

definition pool_inv :: "'z pool \<Rightarrow> bool" where
  "pool_inv p \<longleftrightarrow> distinct (map jb_id (s_jobs (po_db p))) \<and> (\<forall>r \<in> set (s_jobs (po_db p)). row_ok (po_boots p) r) \<and>
     hands_ok (in_hands (po_hands p)) (s_jobs (po_db p)) \<and>
     (\<forall>r \<in> set (s_jobs (po_db p)). int (po_runs p (jb_id r)) \<le> jb_attempts r)"

lemma in_hands_append: "in_hands (as @ bs) = in_hands as @ in_hands bs"
  by (simp add: in_hands_def List.map_filter_def)

lemma in_hands_simps [simp]: "in_hands [] = []" "in_hands (None # bs) = in_hands bs" "in_hands (Some c # bs) = c # in_hands bs"
    "in_hands (replicate n None) = []"
  by (simp_all add: in_hands_def List.map_filter_def)

lemma in_hands_update:
  assumes "i < length hands"
  obtains as bs where "in_hands (hands[i := x]) = in_hands as @ in_hands [x] @ in_hands bs"
    and "in_hands hands = in_hands as @ in_hands [hands ! i] @ in_hands bs"
proof
  have "hands = take i hands @ [hands ! i] @ drop (Suc i) hands" using id_take_nth_drop [OF assms] by simp
  then show "in_hands hands = in_hands (take i hands) @ in_hands [hands ! i] @ in_hands (drop (Suc i) hands)"
    by (metis in_hands_append)
  show "in_hands (hands[i := x]) = in_hands (take i hands) @ in_hands [x] @ in_hands (drop (Suc i) hands)"
    using assms by (simp add: upd_conv_take_nth_drop flip: in_hands_append)
qed

lemma hands_ok_mset: "mset cs = mset cs' \<Longrightarrow> hands_ok cs rows \<longleftrightarrow> hands_ok cs' rows"
  unfolding hands_ok_def by (metis (no_types) mset_eq_setD mset_map mset_eq_imp_distinct_iff)

lemma hands_ok_Cons: "hands_ok (c # cs) rows \<longleftrightarrow>
    cj_id c \<notin> cj_id ` set cs \<and> hands_ok cs rows \<and> (\<forall>r \<in> set rows. jb_id r = cj_id c \<longrightarrow> held_row c r)"
  by (auto simp: hands_ok_def)

lemma hands_ok_rows:
  assumes "hands_ok cs rows" and "\<And>c r'. c \<in> set cs \<Longrightarrow> r' \<in> set rows' \<Longrightarrow> jb_id r' = cj_id c \<Longrightarrow> r' \<in> set rows"
  shows "hands_ok cs rows'"
  using assms by (auto simp: hands_ok_def)

lemma claim_table:
  assumes rows: "distinct (map jb_id rows)" "\<forall>r \<in> set rows. row_ok boots r" "hands_ok cs rows"
    and j: "j \<in> set rows" "eligible now j" and rows': "rows' = map (\<lambda>r. if jb_id r = jb_id j then claim_row now j else r) rows"
  shows "distinct (map jb_id rows')" "\<forall>r \<in> set rows'. row_ok boots r" "hands_ok (returning (claim_row now j) # cs) rows'"
proof -
  show "distinct (map jb_id rows')"
    using rows(1) by (simp add: rows' claim_row_def comp_def if_distrib [of jb_id] cong: if_cong)
  show "\<forall>r \<in> set rows'. row_ok boots r"
    using rows(2) j by (auto simp: rows' row_ok_def claim_row_def eligible_def)
  have free: "jb_id j \<noteq> cj_id c" if "c \<in> set cs" for c
    using rows(3) j that by (auto simp: hands_ok_def held_row_def eligible_def)
  have "hands_ok cs rows'"
    using rows(3) free by (intro hands_ok_rows [OF rows(3)]) (auto simp: rows' claim_row_def split: if_splits)
  then show "hands_ok (returning (claim_row now j) # cs) rows'"
    using free by (auto simp: hands_ok_Cons held_row_def returning_def rows' claim_row_def split: if_splits)
qed

lemma settle_table:
  assumes rows: "distinct (map jb_id rows)" "\<forall>r \<in> set rows. row_ok boots r" "hands_ok (c # cs) rows"
    and f: "\<forall>r. outcome_row c r (f r)" and rows': "rows' = row_write (cj_id c) f rows"
  shows "distinct (map jb_id rows')" "\<forall>r \<in> set rows'. row_ok boots r" "hands_ok cs rows'"
proof -
  have f': "jb_id (f r) = jb_id r" "jb_attempts (f r) = jb_attempts r" "jb_max_attempts (f r) = jb_max_attempts r"
      "jb_state (f r) = JobPending \<Longrightarrow> cj_attempts c < cj_max_attempts c" for r
    using f by (simp_all add: outcome_row_def)
  have "map jb_id rows' = map jb_id rows" by (simp add: rows' row_write_def f'(1) comp_def if_distrib [of jb_id])
  with rows(1) show "distinct (map jb_id rows')" by simp
  show "\<forall>r \<in> set rows'. row_ok boots r"
  proof
    fix r' assume "r' \<in> set rows'"
    then obtain r where r: "r \<in> set rows" "r' = (if jb_id r = cj_id c then f r else r)" by (auto simp: rows' row_write_def)
    have "row_ok boots r" "jb_id r = cj_id c \<Longrightarrow> held_row c r" using rows(2,3) r(1) by (auto simp: hands_ok_Cons)
    with r(2) f'(2,3,4) [of r] show "row_ok boots r'" by (cases "jb_state (f r)") (simp_all add: row_ok_def held_row_def split: if_splits)
  qed
  show "hands_ok cs rows'"
  proof (rule hands_ok_rows [of cs rows])
    fix d r' assume "d \<in> set cs" "r' \<in> set rows'" "jb_id r' = cj_id d"
    moreover have "cj_id d \<noteq> cj_id c" using rows(3) \<open>d \<in> set cs\<close> unfolding hands_ok_Cons by (metis imageI)
    ultimately show "r' \<in> set rows" by (auto simp: rows' row_write_def f'(1) split: if_splits)
  qed (use rows(3) in \<open>simp add: hands_ok_Cons\<close>)
qed

lemma pool_inv_intro:
  assumes "distinct (map jb_id (s_jobs (po_db q)))" "\<forall>r \<in> set (s_jobs (po_db q)). row_ok (po_boots q) r"
    "hands_ok (in_hands (po_hands q)) (s_jobs (po_db q))" "\<forall>r \<in> set (s_jobs (po_db q)). int (po_runs q (jb_id r)) \<le> jb_attempts r"
  shows "pool_inv q"
  using assms unfolding pool_inv_def by blast

lemma runs_claimed:
  assumes "distinct (map jb_id rows)" "\<forall>r \<in> set rows. int (runs (jb_id r)) \<le> jb_attempts r" "j \<in> set rows"
    and "r' \<in> set (map (\<lambda>r. if jb_id r = jb_id j then claim_row now j else r) rows)"
  shows "int ((runs(jb_id j := Suc (runs (jb_id j)))) (jb_id r')) \<le> jb_attempts r'" "int (runs (jb_id r')) \<le> jb_attempts r'"
  using assms(2-4) by (auto simp: claim_row_def split: if_splits)

lemma inv_claim:
  assumes "pool_inv p" "i < length (po_hands p)" "po_hands p ! i = None" "run_state (ClaimJob now) (po_db p) = (Inr c, db)"
  shows "pool_inv (p\<lparr>po_db := db, po_hands := (po_hands p)[i := Some c], po_runs := (po_runs p)(cj_id c := Suc (po_runs p (cj_id c)))\<rparr>)"
proof (rule pool_inv_intro, goal_cases)
  note inv = assms(1) [unfolded pool_inv_def]
  obtain j where j: "j \<in> set (s_jobs (po_db p))" "eligible now j" "c = returning (claim_row now j)"
      "s_jobs db = map (\<lambda>r. if jb_id r = jb_id j then claim_row now j else r) (s_jobs (po_db p))"
    using wp_run [OF wp_ClaimJob assms(4)] by auto
  obtain as bs where h: "in_hands ((po_hands p)[i := Some c]) = in_hands as @ [c] @ in_hands bs"
      "in_hands (po_hands p) = in_hands as @ in_hands bs"
    using in_hands_update [OF assms(2), of "Some c"] assms(3) by auto
  have front: "hands_ok (in_hands as @ [c] @ in_hands bs) rows = hands_ok (c # in_hands as @ in_hands bs) rows" for rows
    by (rule hands_ok_mset) simp
  have "hands_ok (in_hands as @ in_hands bs) (s_jobs (po_db p))" using inv h(2) by simp
  note table = claim_table [OF _ _ this j(1,2,4), of "po_boots p"]
  have rows: "distinct (map jb_id (s_jobs db))" "\<forall>r \<in> set (s_jobs db). row_ok (po_boots p) r"
    by (rule table; use inv in blast)+
  have held: "hands_ok (in_hands as @ [c] @ in_hands bs) (s_jobs db)"
    unfolding front unfolding j(3) by (rule table; use inv in blast)
  { case 1 show ?case using rows(1) by simp }
  { case 2 show ?case using rows(2) by simp }
  { case 3 show ?case using held by (simp add: h(1)) }
  { case 4
    have "cj_id c = jb_id j" by (simp add: j(3) returning_def claim_row_def)
    then show ?case using runs_claimed(1) [of "s_jobs (po_db p)" "po_runs p" j _ now] inv j(1,4) by simp }
qed

lemma pool_inv_idle:
  assumes "pool_inv p" "run_state (ClaimJob now) (po_db p) = (Inl err, db)"
  shows "pool_inv (p\<lparr>po_db := db\<rparr>)"
proof -
  note inv = assms(1) [unfolded pool_inv_def]
  from wp_run [OF wp_ClaimJob assms(2)] consider "s_jobs db = s_jobs (po_db p)" |
    j where "j \<in> set (s_jobs (po_db p))" "eligible now j"
      "s_jobs db = map (\<lambda>r. if jb_id r = jb_id j then claim_row now j else r) (s_jobs (po_db p))"
    by auto
  then show ?thesis
  proof cases
    case 2
    from inv have held: "hands_ok (in_hands (po_hands p)) (s_jobs (po_db p))" by blast
    note table = claim_table [OF _ _ held 2, of "po_boots p"]
    have "distinct (map jb_id (s_jobs db))" "\<forall>r \<in> set (s_jobs db). row_ok (po_boots p) r"
      "hands_ok (returning (claim_row now j) # in_hands (po_hands p)) (s_jobs db)"
      by (rule table; use inv in blast)+
    moreover have "\<forall>r \<in> set (s_jobs db). int (po_runs p (jb_id r)) \<le> jb_attempts r"
      using runs_claimed(2) [of "s_jobs (po_db p)" "po_runs p" j _ now] inv 2 by simp
    ultimately show ?thesis by (intro pool_inv_intro) (simp_all add: hands_ok_Cons)
  qed (use inv in \<open>simp add: pool_inv_def\<close>)
qed

lemma inv_settled:
  assumes "pool_inv p" "i < length (po_hands p)" "po_hands p ! i = Some c" "run_state (settle c outcome) (po_db p) = (u, db)"
  shows "pool_inv (p\<lparr>po_db := db, po_hands := (po_hands p)[i := None]\<rparr>)"
proof -
  note inv = assms(1) [unfolded pool_inv_def]
  obtain as bs where h: "in_hands ((po_hands p)[i := None]) = in_hands as @ in_hands bs"
      "in_hands (po_hands p) = in_hands as @ c # in_hands bs"
    using in_hands_update [OF assms(2), of None] assms(3) by auto
  have held: "hands_ok (c # in_hands as @ in_hands bs) (s_jobs (po_db p))"
    using inv hands_ok_mset [of "in_hands as @ c # in_hands bs" "c # in_hands as @ in_hands bs"] unfolding h(2) by simp
  from wp_run [OF wp_settle assms(4)] consider "s_jobs db = s_jobs (po_db p)" |
    f where "\<forall>r. outcome_row c r (f r)" "s_jobs db = row_write (cj_id c) f (s_jobs (po_db p))"
    by blast
  then show ?thesis
  proof cases
    case 1
    moreover have "hands_ok (in_hands as @ in_hands bs) (s_jobs (po_db p))" using held unfolding hands_ok_Cons by blast
    ultimately show ?thesis using inv by (simp add: pool_inv_def h(1))
  next
    case 2
    note table = settle_table [OF _ _ held 2, of "po_boots p"]
    have "distinct (map jb_id (s_jobs db))" "\<forall>r \<in> set (s_jobs db). row_ok (po_boots p) r"
      "hands_ok (in_hands as @ in_hands bs) (s_jobs db)"
      by (rule table; use inv in blast)+
    moreover have "int (po_runs p (jb_id r')) \<le> jb_attempts r'" if in_db: "r' \<in> set (s_jobs db)" for r'
    proof -
      obtain r where r: "r \<in> set (s_jobs (po_db p))" "r' = (if jb_id r = cj_id c then f r else r)"
        using in_db by (auto simp: 2(2) row_write_def)
      have "jb_id (f r) = jb_id r" "jb_attempts (f r) = jb_attempts r" using 2(1) by (simp_all add: outcome_row_def)
      then have "jb_id r' = jb_id r" "jb_attempts r' = jb_attempts r" using r(2) by (simp_all split: if_splits)
      with inv r(1) show ?thesis by simp
    qed
    ultimately show ?thesis by (intro pool_inv_intro) (simp_all add: h(1))
  qed
qed

text \<open>
  What a write of the rest of the program does to the table: it leaves rows as they are, drops some, adds
  jobs that were never tried under an unused id, and resets jobs that are not running.
\<close>

definition outside :: "claimed list \<Rightarrow> job list \<Rightarrow> job list \<Rightarrow> bool" where
  "outside cs rows rows' \<longleftrightarrow> distinct (map jb_id rows') \<and>
     (\<forall>j \<in> set rows'. j \<in> set rows \<or> (jb_state j = JobPending \<and> jb_attempts j = 0 \<and>
        ((\<exists>r \<in> set rows. jb_id r = jb_id j \<and> jb_state r \<noteq> JobRunning \<and> jb_max_attempts j = jb_max_attempts r) \<or>
         (jb_id j \<notin> cj_id ` set cs \<and> 0 < jb_max_attempts j))))"

lemma outside_refl: "distinct (map jb_id rows) \<Longrightarrow> outside cs rows rows"
  by (simp add: outside_def)

lemma wp_jobs_write:
  assumes "distinct (map jb_id (s_jobs s))"
    and rows: "\<And>t j. later s t \<Longrightarrow> j \<in> set (s_jobs (u t)) \<Longrightarrow> j \<in> set (s_jobs s) \<or> (jb_state j = JobPending \<and> jb_attempts j = 0 \<and>
        ((\<exists>r \<in> set (s_jobs s). jb_id r = jb_id j \<and> jb_state r \<noteq> JobRunning \<and> jb_max_attempts j = jb_max_attempts r) \<or>
         (jb_id j \<notin> cj_id ` set cs \<and> 0 < jb_max_attempts j)))"
  shows "wp (jobs_tx (\<lambda>t. (Commit (x t), u t))) (\<lambda>_ t. outside cs (s_jobs s) (s_jobs t)) s"
proof (rule wp_jobs_tx, goal_cases)
  case (3 t a v)
  then have "outside cs (s_jobs s) (s_jobs v)"
    using rows [of t] unfolding outside_def by (simp add: jobs_ok_def)
  then show ?case by simp
qed (use assms(1) in \<open>simp_all add: later_jobs outside_refl\<close>)

lemma later_ids: "later s t \<Longrightarrow> s_ulid t = s_ulid s \<and> s_nid t = s_nid s"
  by (auto simp: later_def after_tick_def)

lemma insert_unless_rows:
  "j \<in> set (s_jobs (insert_unless known kind taskID payload now s)) \<Longrightarrow> j \<in> set (s_jobs s) \<or>
     (jb_state j = JobPending \<and> jb_attempts j = 0 \<and> jb_id j = PrefixJob @ s_ulid s (s_nid s) \<and> 0 < jb_max_attempts j)"
  by (auto simp: insert_unless_def NewID_def queryEnqueueJob_def split: if_splits)

lemma wp_run_write:
  assumes start: "distinct (map jb_id (s_jobs s))" and fresh: "PrefixJob @ s_ulid s (s_nid s) \<notin> cj_id ` set cs"
  shows "wp (run_write c) (\<lambda>_ t. outside cs (s_jobs s) (s_jobs t)) s"
proof -
  note tx_write = wp_jobs_write [OF start, where cs = cs]
  have new: "wp (jobs_tx (\<lambda>t. case NewID PrefixJob t of
       (jid, t') \<Rightarrow> (Commit jid, t'\<lparr>s_jobs := s_jobs t' @ [g jid]\<rparr>))) (\<lambda>_ t. outside cs (s_jobs s) (s_jobs t)) s"
    if "\<And>jid. jb_id (g jid) = jid \<and> jb_state (g jid) = JobPending \<and> jb_attempts (g jid) = 0 \<and> 0 < jb_max_attempts (g jid)" for g
    unfolding NewID_def prod.case
    by (rule tx_write) (use that fresh in \<open>auto simp: later_jobs later_ids\<close>)
  have once: "wp (jobs_tx (\<lambda>t. (Commit (), insert_unless known kind taskID payload now (v t)))) (\<lambda>_ t. outside cs (s_jobs s) (s_jobs t)) s"
    if kept: "\<And>t j. later s t \<Longrightarrow> j \<in> set (s_jobs (v t)) \<Longrightarrow> j \<in> set (s_jobs s) \<or> (jb_state j = JobPending \<and> jb_attempts j = 0 \<and>
        (\<exists>r \<in> set (s_jobs s). jb_id r = jb_id j \<and> jb_state r \<noteq> JobRunning \<and> jb_max_attempts j = jb_max_attempts r))"
      and ids: "\<And>t. s_ulid (v t) = s_ulid t \<and> s_nid (v t) = s_nid t" for known kind taskID payload now v
  proof (rule tx_write, goal_cases)
    case (1 t j)
    from insert_unless_rows [OF 1(2)] consider "j \<in> set (s_jobs (v t))" |
      "jb_state j = JobPending" "jb_attempts j = 0" "jb_id j = PrefixJob @ s_ulid s (s_nid s)" "0 < jb_max_attempts j"
      using later_ids [OF 1(1)] ids [of t] by auto
    then show ?case using kept [OF 1(1)] fresh by cases auto
  qed
  have dropped: "wp (jobs_tx (\<lambda>t. (Commit (x t), t\<lparr>s_jobs := fst (sql_delete q (s_jobs t))\<rparr>))) (\<lambda>_ t. outside cs (s_jobs s) (s_jobs t)) s"
    for x :: "'a job_store_scheme \<Rightarrow> 'x" and q
    by (rule tx_write) (auto simp: later_jobs sql_delete_def)
  show ?thesis
  proof (cases c)
    case (WResetExtract tid now)
    show ?thesis
      unfolding WResetExtract run_write.simps reset_extract_def wp_bind wp_ret
      by (rule tx_write) (auto simp: later_jobs rearmed_def split: if_splits)
  next
    case (WMove tid payload now)
    show ?thesis
      unfolding WMove run_write.simps write_move_def wp_bind wp_ret
      by (rule once) (auto simp: later_jobs rearmed_def split: if_splits)
  next
    case (WPrune now)
    show ?thesis
      unfolding WPrune run_write.simps PruneDoneJobs_def wp_bind wp_ret
      using dropped [of _ "\<lambda>j. jb_state j = JobDone \<and> jb_updated_at j < now - doneJobsRetention"]
      by (simp add: case_prod_beta)
  qed (auto simp: EnqueueJob_def EnqueueSearchJob_def insert_extract_def queryEnqueueWebhook_def DeleteSearchQueueRow_def
      drop_jobs_of_def queryEnqueueJob_def intro!: new once dropped simp: later_jobs)
qed

lemma inv_write:
  assumes "pool_inv p" "fresh_job_id p" "run_state (run_write c) (po_db p) = (u, db)"
  shows "pool_inv (p\<lparr>po_db := db, po_runs := (\<lambda>i. if renewed (s_jobs (po_db p)) (s_jobs db) i then 0 else po_runs p i)\<rparr>)"
proof -
  note inv = assms(1) [unfolded pool_inv_def]
  have out: "outside (in_hands (po_hands p)) (s_jobs (po_db p)) (s_jobs db)"
    by (rule wp_run [OF wp_run_write assms(3)]) (use inv assms(2) in \<open>auto simp: fresh_job_id_def\<close>)
  have new: "jb_state r = JobPending \<and> jb_attempts r = 0 \<and> 0 < jb_max_attempts r \<and> jb_id r \<notin> cj_id ` set (in_hands (po_hands p))"
    if "r \<in> set (s_jobs db)" "r \<notin> set (s_jobs (po_db p))" for r
  proof -
    have "(\<exists>r0 \<in> set (s_jobs (po_db p)). jb_id r0 = jb_id r \<and> jb_state r0 \<noteq> JobRunning \<and> jb_max_attempts r = jb_max_attempts r0) \<or>
        (jb_id r \<notin> cj_id ` set (in_hands (po_hands p)) \<and> 0 < jb_max_attempts r)" and "jb_state r = JobPending" "jb_attempts r = 0"
      using out that unfolding outside_def by blast+
    moreover have "0 < jb_max_attempts r0 \<and> jb_id r0 \<notin> cj_id ` set (in_hands (po_hands p))"
      if "r0 \<in> set (s_jobs (po_db p))" "jb_state r0 \<noteq> JobRunning" for r0
      using inv that unfolding row_ok_def hands_ok_def held_row_def by blast
    ultimately show ?thesis by metis
  qed
  have "row_ok (po_boots p) r" if "r \<in> set (s_jobs db)" for r
    using inv new [OF that] by (cases "r \<in> set (s_jobs (po_db p))") (simp_all add: row_ok_def)
  moreover have "hands_ok (in_hands (po_hands p)) (s_jobs db)"
    by (rule hands_ok_rows [of _ "s_jobs (po_db p)"]) (use inv new in \<open>blast, force\<close>)
  moreover have "int (if renewed (s_jobs (po_db p)) (s_jobs db) (jb_id r) then 0 else po_runs p (jb_id r)) \<le> jb_attempts r"
    if r: "r \<in> set (s_jobs db)" for r
  proof (cases "r \<in> set (s_jobs (po_db p))")
    case True
    have "0 \<le> jb_attempts r" "int (po_runs p (jb_id r)) \<le> jb_attempts r" using inv True by force+
    then show ?thesis by simp
  next
    case False
    with r have "renewed (s_jobs (po_db p)) (s_jobs db) (jb_id r)" by (auto simp: renewed_def list_ex_iff)
    with new [OF r False] show ?thesis by simp
  qed
  ultimately show ?thesis using out by (intro pool_inv_intro) (simp_all add: outside_def)
qed

lemma inv_boot:
  assumes "pool_inv p" "run_state RecoverRunningJobs (po_db p) = (u, db)"
  shows "pool_inv (p\<lparr>po_db := db, po_hands := replicate n None, po_boots := Suc (po_boots p)\<rparr>)"
proof -
  note inv = assms(1) [unfolded pool_inv_def]
  from wp_run [OF wp_Recover assms(2)] have table:
    "s_jobs db = s_jobs (po_db p) \<or>
     s_jobs db = map (\<lambda>r. if jb_state r = JobRunning then queryRecoverRunningJobs r else r) (s_jobs (po_db p))" .
  moreover have "map jb_id (map (\<lambda>r. if jb_state r = JobRunning then queryRecoverRunningJobs r else r) rows) = map jb_id rows" for rows
    by (auto simp: queryRecoverRunningJobs_def)
  ultimately have "map jb_id (s_jobs db) = map jb_id (s_jobs (po_db p))" by metis
  moreover have "row_ok (Suc (po_boots p)) r' \<and> int (po_runs p (jb_id r')) \<le> jb_attempts r'" if "r' \<in> set (s_jobs db)" for r'
  proof -
    obtain r where r: "r \<in> set (s_jobs (po_db p))" "r' = r \<or> (jb_state r = JobRunning \<and> r' = queryRecoverRunningJobs r)"
      using table \<open>r' \<in> set (s_jobs db)\<close> by (auto split: if_splits)
    have "row_ok (po_boots p) r" "int (po_runs p (jb_id r)) \<le> jb_attempts r" using inv r(1) by blast+
    with r(2) show ?thesis by (auto simp: row_ok_def queryRecoverRunningJobs_def)
  qed
  ultimately show ?thesis using inv by (intro pool_inv_intro) (simp_all add: hands_ok_def)
qed

lemma pool_inv_step: "pool_step p q \<Longrightarrow> pool_inv p \<Longrightarrow> pool_inv q"
  by (induction rule: pool_step.induct)
    (blast intro: inv_claim pool_inv_idle inv_settled inv_write inv_boot, blast intro: pool_inv_idle, blast intro: inv_settled,
     blast intro: inv_write, simp add: pool_inv_def, blast intro: inv_boot)

lemma pool_inv_start: "pool_start p \<Longrightarrow> pool_inv p"
  by (auto simp: pool_start_def pool_inv_def hands_ok_def row_ok_def list_all_iff)

lemma pool_inv_reachable: "pool_step\<^sup>*\<^sup>* p q \<Longrightarrow> pool_start p \<Longrightarrow> pool_inv q"
  by (induction rule: rtranclp_induct) (auto intro: pool_inv_start pool_inv_step)

lemma in_hands_nth: "i < length hands \<Longrightarrow> hands ! i = Some c \<Longrightarrow> c \<in> set (in_hands hands)"
  by (rule in_hands_update [of i hands None]) auto

lemma hands_distinct:
  assumes "distinct (map cj_id (in_hands hands))" and "i < j" "j < length hands" "hands ! i = Some c" "hands ! j = Some d"
  shows "cj_id c \<noteq> cj_id d"
proof (rule in_hands_update [of i hands None])
  fix as bs assume "in_hands (hands[i := None]) = in_hands as @ in_hands [None] @ in_hands bs"
    "in_hands hands = in_hands as @ in_hands [hands ! i] @ in_hands bs"
  moreover have "d \<in> set (in_hands (hands[i := None]))" using assms(2,3,5) by (intro in_hands_nth [of j]) auto
  ultimately show ?thesis using assms(1,4) by auto
qed (use assms(2,3) in simp)

text \<open>
  C28. However the workers of the pool and the statements with which the rest of the program enqueues, resets
  and deletes jobs interleave, whatever the database and the handlers answer, and however often the process
  is restarted, no job is run by two workers at a time: the jobs in the hands of two
  workers differ, and the row of a job that is being run, while it exists, is marked as running, with the
  number of the attempt its worker was given.
\<close>

theorem one_runner:
  assumes "pool_start p" and "pool_step\<^sup>*\<^sup>* p q"
    and "i < length (po_hands q)" and "po_hands q ! i = Some c"
  shows "(\<forall>j d. j < length (po_hands q) \<longrightarrow> j \<noteq> i \<longrightarrow> po_hands q ! j = Some d \<longrightarrow> cj_id d \<noteq> cj_id c) \<and>
    (\<forall>r \<in> set (s_jobs (po_db q)). jb_id r = cj_id c \<longrightarrow> jb_state r = JobRunning \<and> jb_attempts r = cj_attempts c)"
proof -
  have inv: "hands_ok (in_hands (po_hands q)) (s_jobs (po_db q))"
    using pool_inv_reachable [OF assms(2,1)] by (simp add: pool_inv_def)
  have "cj_id d \<noteq> cj_id c" if "j < length (po_hands q)" "j \<noteq> i" "po_hands q ! j = Some d" for j d
    using inv hands_distinct [of "po_hands q" i j c d] hands_distinct [of "po_hands q" j i d c] that assms(3,4)
    by (cases "i < j") (auto simp: hands_ok_def)
  moreover have "c \<in> set (in_hands (po_hands q))" using assms(3,4) by (rule in_hands_nth)
  ultimately show ?thesis using inv by (auto simp: hands_ok_def held_row_def)
qed

text \<open>
  C29. The tries of a job are bounded. From when a job was enqueued, or was last reset by the post-processing
  chain, it is handed to a worker at most \<open>max_attempts\<close> times, and once more for every boot of the process;
  its counter never runs behind the workers, and a job that waits to run has a try left. Without a restart
  a job that always fails, or whose handler always panics, is run \<open>max_attempts\<close> times at most.
\<close>

theorem attempts_bounded:
  assumes "pool_start p" and "pool_step\<^sup>*\<^sup>* p q" and "r \<in> set (s_jobs (po_db q))"
  shows "int (po_runs q (jb_id r)) \<le> jb_attempts r \<and> jb_attempts r \<le> jb_max_attempts r + int (po_boots q) \<and>
    (jb_state r = JobPending \<longrightarrow> jb_attempts r < jb_max_attempts r + int (po_boots q))"
  using pool_inv_reachable [OF assms(2,1)] assms(3) by (simp add: pool_inv_def row_ok_def)

subsection \<open>One pass of a worker\<close>

text \<open>The ladder of the retries, with the bound it is meant to have.\<close>

lemma Backoff_ladder:
  assumes "0 \<le> attempts" and "0 \<le> now" "now < 2 ^ 62"
  shows "Backoff now attempts = now + min 600000 (5000 * 2 ^ nat attempts)"
proof (cases "attempts < 7")
  case True
  then have "nat attempts \<in> {0, 1, 2, 3, 4, 5, 6}" using assms(1) by (auto simp: nat_less_iff)
  then show ?thesis
    using True assms
    by (auto simp: Backoff_def backoffMaxShift_def backoffBaseDelayMS_def push_bit_eq_mult int64_def)
next
  case False
  then have "(2 :: int) ^ 7 \<le> 2 ^ nat attempts" by (intro power_increasing) auto
  then show ?thesis using False assms by (simp add: Backoff_def backoffMaxShift_def backoffMaxDelayMS_def int64_def)
qed

text \<open>The row of a job that was claimed at a time and answered.\<close>

definition settled_row :: "int \<Rightarrow> handler_result option \<Rightarrow> job \<Rightarrow> job" where
  "settled_row now answer j =
     (let failed = (\<lambda>err. j\<lparr>jb_state := JobFailed, jb_last_error := Some err, jb_updated_at := now\<rparr>);
          retried = (\<lambda>err. if jb_attempts j < jb_max_attempts j
            then j\<lparr>jb_state := JobPending, jb_locked_at := None, jb_last_error := Some err,
                   jb_run_after := now + min 600000 (5000 * 2 ^ nat (jb_attempts j)), jb_updated_at := now\<rparr>
            else failed err) in
      case answer of
        None \<Rightarrow> failed (errNoHandler @ '' '' @ quoted (jb_kind j))
      | Some HandlerDone \<Rightarrow> j\<lparr>jb_state := JobDone, jb_updated_at := now\<rparr>
      | Some r \<Rightarrow> retried (the (runSafely (jb_kind j) r)))"

lemma run_jobs_tx_ok:
  assumes "s_sched s = []" "constraints_ok s" and "body s = (Commit a, s')" "jobs_ok s'"
    and "\<exists>rows. s' = s\<lparr>s_jobs := rows\<rparr>"
  shows "run_state (jobs_tx body) s = (Inr a, s')"
proof -
  obtain rows where s': "s' = s\<lparr>s_jobs := rows\<rparr>" using assms(5) ..
  have "constraints_ok s'" using assms(2) by (simp add: s' constraints_ok_def)
  then show ?thesis using assms(1,3,4) by (simp add: jobs_tx_def tx_def tick_def)
qed

lemma jobs_ok_rows:
  assumes "jobs_ok s" and "map jb_id rows = map jb_id (s_jobs s)" "map jb_task_id rows = map jb_task_id (s_jobs s)"
  shows "jobs_ok (s\<lparr>s_jobs := rows\<rparr>)"
proof -
  have "jb_task_id ` set rows = jb_task_id ` set (s_jobs s)" using arg_cong [OF assms(3), of set] by simp
  then have "(\<forall>t \<in> jb_task_id ` set rows. P t) = (\<forall>t \<in> jb_task_id ` set (s_jobs s). P t)" for P by simp
  then have "list_all (\<lambda>x. P (jb_task_id x)) rows = list_all (\<lambda>x. P (jb_task_id x)) (s_jobs s)" for P
    by (simp add: list_all_iff)
  note this [of "\<lambda>t. case t of None \<Rightarrow> True | Some t \<Rightarrow> t \<in> set (map t_id (s_tasks s))"]
  with assms(1,2) show ?thesis by (simp add: jobs_ok_def cong: option.case_cong)
qed

lemma run_write_job:
  assumes "s_sched s = []" "constraints_ok s" "jobs_ok s" and "\<And>r. jb_id (f r) = jb_id r \<and> jb_task_id (f r) = jb_task_id r"
  shows "run_state (write_job jid f) s = (Inr (), s\<lparr>s_jobs := row_write jid f (s_jobs s)\<rparr>)"
  unfolding write_job_def
  by (rule run_jobs_tx_ok) (use assms in \<open>auto simp: row_write_def intro!: jobs_ok_rows\<close>)

lemma sorted_head: "sort_key f xs = y # ys \<Longrightarrow> y \<in> set xs \<and> (\<forall>x \<in> set xs. f y \<le> f x)"
proof -
  assume "sort_key f xs = y # ys"
  then have "set xs = set (y # ys)" "sorted (map f (y # ys))" by (metis set_sort, metis sorted_sort_key)
  then show ?thesis by auto
qed

lemma oldest_eligible_cases:
  obtains (none) "oldest_eligible now rows = None" "\<forall>r \<in> set rows. \<not> eligible now r"
  | (some) j where "oldest_eligible now rows = Some j" "j \<in> set rows" "eligible now j"
      "\<forall>r \<in> set rows. eligible now r \<longrightarrow> jb_run_after j \<le> jb_run_after r"
proof (cases "sort_key jb_run_after (filter (eligible now) rows)")
  case Nil
  then have "filter (eligible now) rows = []" by (metis length_0_conv length_sort)
  with Nil none show ?thesis by (auto simp: oldest_eligible_def filter_empty_conv)
next
  case (Cons j js)
  with some sorted_head [OF Cons] show ?thesis by (auto simp: oldest_eligible_def)
qed

lemma row_write_twice:
  assumes "distinct (map jb_id rows)" "j \<in> set rows" "\<And>r. jb_id (g r) = jb_id r"
  shows "row_write (jb_id j) f (row_write (jb_id j) g rows) = map (\<lambda>r. if jb_id r = jb_id j then f (g j) else r) rows"
proof -
  have "r = j" if "r \<in> set rows" "jb_id r = jb_id j" for r
    using assms(1,2) that by (meson distinct_map inj_onD)
  then show ?thesis using assms(3) by (auto simp: row_write_def)
qed

text \<open>
  C30. What one pass of a worker does when the database works: without a job that is due it changes nothing;
  otherwise it takes the job that is due for the longest time, runs its handler, and leaves that row, and
  no other, done, failed for good (no attempt left, or no handler), or waiting for the delay of the ladder
  \<open>min(600000, 5000 * 2^attempts)\<close> milliseconds. A panic counts as an error.
\<close>

theorem claim_pass_correct:
  assumes "s_sched s = []" "constraints_ok s" "jobs_ok s" and "0 \<le> s_now s" "s_now s < 2 ^ 62"
    and "\<forall>r \<in> set (s_jobs s). 0 \<le> jb_attempts r"
  shows "if \<exists>r \<in> set (s_jobs s). eligible (s_now s) r
    then \<exists>j \<in> set (s_jobs s). eligible (s_now s) j \<and>
      (\<forall>r \<in> set (s_jobs s). eligible (s_now s) r \<longrightarrow> jb_run_after j \<le> jb_run_after r) \<and>
      run_state (claim_pass (\<lambda>kind. map_option (\<lambda>answer _. ret answer) (answers kind))) s =
        (True, s\<lparr>s_jobs := map (\<lambda>r. if jb_id r = jb_id j
            then settled_row (s_now s) (answers (jb_kind j)) (claim_row (s_now s) j) else r) (s_jobs s)\<rparr>)
    else run_state (claim_pass (\<lambda>kind. map_option (\<lambda>answer _. ret answer) (answers kind))) s = (False, s)"
proof (cases rule: oldest_eligible_cases [of "s_now s" "s_jobs s"])
  case none
  have "run_state (ClaimJob (s_now s)) s = (Inl SErrNotFound, s)"
    using assms(1) none(1) by (simp add: ClaimJob_def jobs_tx_def tx_def tick_def queryClaimJob_def)
  with none(2) show ?thesis by (auto simp: claim_pass_def)
next
  case (some j)
  define c where "c = returning (claim_row (s_now s) j)"
  define s1 where "s1 = s\<lparr>s_jobs := row_write (jb_id j) (\<lambda>_. claim_row (s_now s) j) (s_jobs s)\<rparr>"
  have same: "r = j" if "r \<in> set (s_jobs s)" "jb_id r = jb_id j" for r
    using assms(3) some(2) that by (auto simp: jobs_ok_def dest!: distinct_map [THEN iffD1] inj_onD)
  then have rows: "map g (row_write (jb_id j) (\<lambda>_. claim_row (s_now s) j) (s_jobs s)) = map g (s_jobs s)"
    if "g (claim_row (s_now s) j) = g j" for g :: "job \<Rightarrow> 'x"
    using that by (auto simp: row_write_def)
  have ok1: "s_sched s1 = []" "constraints_ok s1" "jobs_ok s1"
    using assms(1,2) jobs_ok_rows [OF assms(3), of "s_jobs s1"] rows [of jb_id] rows [of jb_task_id]
    by (simp_all add: s1_def constraints_ok_def claim_row_def)
  have claim: "run_state (ClaimJob (s_now s)) s = (Inr c, s1)"
    unfolding ClaimJob_def
    by (rule run_jobs_tx_ok [OF assms(1,2) _ ok1(3)])
      (simp_all add: queryClaimJob_def some(1) c_def s1_def row_write_def claim_row_def Let_def exI [of _ "s_jobs s1"])
  have settled: "run_state (settle c (answers (jb_kind j))) s1 =
      ((), s\<lparr>s_jobs := map (\<lambda>r. if jb_id r = jb_id j
        then settled_row (s_now s) (answers (jb_kind j)) (claim_row (s_now s) j) else r) (s_jobs s)\<rparr>)"
  proof -
    have written: "run_state (write_job (jb_id j) f) s1 = (Inr (), s\<lparr>s_jobs := map (\<lambda>r. if jb_id r = jb_id j
        then f (claim_row (s_now s) j) else r) (s_jobs s)\<rparr>)"
      if "\<And>r. jb_id (f r) = jb_id r \<and> jb_task_id (f r) = jb_task_id r" for f
      using run_write_job [OF ok1 that] same
      by (auto simp: s1_def row_write_def claim_row_def intro!: arg_cong [where f = "\<lambda>x. s\<lparr>s_jobs := x\<rparr>"])
    have tries: "0 \<le> jb_attempts j + 1" using assms(6) some(2) by auto
    note simps = settle_def fail_claimed_def FailJob_def CompleteJob_def settled_row_def runSafely_def
      queryFailJob_def queryCompleteJob_def queryRescheduleJob_def Let_def Backoff_ladder [OF tries assms(4,5)]
    have fields: "cj_id c = jb_id j" "cj_kind c = jb_kind j" "cj_attempts c = jb_attempts j + 1"
      "cj_max_attempts c = jb_max_attempts j" "s_now s1 = s_now s" "jb_kind (claim_row (s_now s) j) = jb_kind j"
      "jb_attempts (claim_row (s_now s) j) = jb_attempts j + 1" "jb_max_attempts (claim_row (s_now s) j) = jb_max_attempts j"
      by (simp_all add: c_def returning_def claim_row_def s1_def)
    show ?thesis
      by (cases "answers (jb_kind j)") (auto simp: simps fields written split: handler_result.split)
  qed
  have "run_state (claim_pass (\<lambda>kind. map_option (\<lambda>answer _. ret answer) (answers kind))) s =
        (True, s\<lparr>s_jobs := map (\<lambda>r. if jb_id r = jb_id j
            then settled_row (s_now s) (answers (jb_kind j)) (claim_row (s_now s) j) else r) (s_jobs s)\<rparr>)"
    using settled
    by (cases "answers (jb_kind j)")
      (auto simp: claim_pass_def claim execute_def c_def returning_def claim_row_def)
  with some(2,3,4) show ?thesis by auto
qed

subsection \<open>Concrete runs\<close>

definition demo_job :: "string \<Rightarrow> int \<Rightarrow> int \<Rightarrow> job" where
  "demo_job i tries at_ms = (queryEnqueueJob i ''move'' None ''{}'' at_ms 0)\<lparr>jb_attempts := tries\<rparr>"

definition demo_jobs :: "(db_fault \<times> nat) list \<Rightarrow> job list \<Rightarrow> job_store" where
  "demo_jobs sched rows = \<lparr>s_tasks = [], s_events = [], s_files = [], s_trackers = [], s_now = 100,
     s_sched = sched, s_ulid = (\<lambda>n. replicate n CHR ''a''), s_nid = 0, s_hook = False, s_hooked = [], s_jobs = rows\<rparr>"

theorem claim_pass_correct_witness:
  "\<exists>u. run_state (claim_pass (\<lambda>_. Some (\<lambda>_. ret (HandlerError ''x'')))) (demo_jobs [] [demo_job ''a'' 0 50]) = (True, u)"
proof -
  have "eligible (s_now (demo_jobs [] [demo_job ''a'' 0 50])) (demo_job ''a'' 0 50)"
    by (simp add: demo_jobs_def demo_job_def eligible_def queryEnqueueJob_def)
  then show ?thesis
    using claim_pass_correct [of "demo_jobs [] [demo_job ''a'' 0 50]" "\<lambda>_. Some (HandlerError ''x'')"]
    by (auto simp: demo_jobs_def demo_job_def queryEnqueueJob_def constraints_ok_def jobs_ok_def live_keys_def split: if_splits)
qed

definition demo_pool :: "job list \<Rightarrow> claimed option list \<Rightarrow> nat \<Rightarrow> unit pool" where
  "demo_pool rows hands boots = \<lparr>po_db = demo_jobs [] rows, po_hands = hands, po_boots = boots,
     po_runs = (\<lambda>i. if list_ex (\<lambda>c. cj_id c = i) (in_hands hands) then 1 else 0)\<rparr>"

definition demo_claimed :: "string \<Rightarrow> claimed" where
  "demo_claimed i = returning (claim_row 100 (demo_job i 0 50))"

lemmas demo_simps = demo_pool_def demo_jobs_def demo_job_def queryEnqueueJob_def demo_claimed_def returning_def claim_row_def

lemma demo_start: "pool_start (demo_pool [demo_job ''a'' 0 50, demo_job ''b'' 0 50] [None, None] 0)"
  by (simp add: pool_start_def demo_simps)

lemma demo_claim:
  assumes "i < length hands" "hands ! i = None"
    and "run_state (ClaimJob 100) (demo_jobs [] rows) = (Inr c, demo_jobs [] rows')"
    and "\<not> list_ex (\<lambda>d. cj_id d = cj_id c) (in_hands hands)"
  shows "pool_step (demo_pool rows hands n) (demo_pool rows' (hands[i := Some c]) n)"
proof -
  obtain as bs where h: "in_hands (hands[i := Some c]) = in_hands as @ in_hands [Some c] @ in_hands bs"
      "in_hands hands = in_hands as @ in_hands [hands ! i] @ in_hands bs"
    using in_hands_update [OF assms(1)] by blast
  have "(\<lambda>k. if list_ex (\<lambda>d. cj_id d = k) (in_hands (hands[i := Some c])) then 1 else 0) =
      (\<lambda>k. if list_ex (\<lambda>d. cj_id d = k) (in_hands hands) then 1 else 0)(cj_id c := Suc 0)"
    using assms(2,4) unfolding h by (auto simp: fun_eq_iff)
  then show ?thesis
    using pool_step.claim [of i "demo_pool rows hands n" 100 c "demo_jobs [] rows'"] assms by (simp add: demo_pool_def)
qed

lemma demo_first:
  "pool_step (demo_pool [demo_job ''a'' 0 50, demo_job ''b'' 0 50] [None, None] 0)
     (demo_pool [claim_row 100 (demo_job ''a'' 0 50), demo_job ''b'' 0 50] ([None, None][0 := Some (demo_claimed ''a'')]) 0)"
  by (rule demo_claim)
    (simp add: demo_simps ClaimJob_def jobs_tx_def tx_def tick_def queryClaimJob_def oldest_eligible_def eligible_def
        jobs_ok_def constraints_ok_def live_keys_def Let_def)+

lemma demo_second:
  "pool_step (demo_pool [claim_row 100 (demo_job ''a'' 0 50), demo_job ''b'' 0 50] [Some (demo_claimed ''a''), None] 0)
     (demo_pool [claim_row 100 (demo_job ''a'' 0 50), claim_row 100 (demo_job ''b'' 0 50)]
        ([Some (demo_claimed ''a''), None][1 := Some (demo_claimed ''b'')]) 0)"
  by (rule demo_claim)
    (simp add: demo_simps ClaimJob_def jobs_tx_def tx_def tick_def queryClaimJob_def oldest_eligible_def eligible_def
        jobs_ok_def constraints_ok_def live_keys_def Let_def)+

theorem one_runner_witness: "cj_id (demo_claimed ''b'') \<noteq> cj_id (demo_claimed ''a'')"
proof -
  have "pool_step\<^sup>*\<^sup>* (demo_pool [demo_job ''a'' 0 50, demo_job ''b'' 0 50] [None, None] 0) (demo_pool [claim_row 100 (demo_job ''a'' 0 50), claim_row 100 (demo_job ''b'' 0 50)]
        [Some (demo_claimed ''a''), Some (demo_claimed ''b'')] 0)"
    using demo_first [simplified] demo_second [simplified] by (meson converse_rtranclp_into_rtranclp rtranclp.rtrancl_refl)
  from one_runner [OF demo_start this, of 0 "demo_claimed ''a''"] show ?thesis by (auto simp: demo_pool_def)
qed

text \<open>
  The boot puts a job back whatever its number of tries: a job whose run ends the process is tried again
  after every boot, past its \<open>max_attempts\<close>.
\<close>

definition poison :: "int \<Rightarrow> job_state \<Rightarrow> job" where
  "poison tries st = (demo_job ''a'' tries 50)\<lparr>jb_max_attempts := 1, jb_state := st\<rparr>"

lemma poison_boot:
  "\<exists>db. run_state RecoverRunningJobs (demo_jobs [] [poison 1 JobRunning]) = (Inr 1, db) \<and> s_jobs db = [poison 1 JobPending]"
  by (simp add: demo_simps poison_def RecoverRunningJobs_def jobs_tx_def tx_def tick_def sql_update_def
      queryRecoverRunningJobs_def jobs_ok_def constraints_ok_def live_keys_def)

lemma poison_claimed:
  "\<exists>c db r. run_state (ClaimJob 100) (demo_jobs [] [poison 1 JobPending]) = (Inr c, db) \<and> s_jobs db = [r] \<and>
     jb_max_attempts r < jb_attempts r"
  by (simp add: demo_simps poison_def ClaimJob_def jobs_tx_def tx_def tick_def queryClaimJob_def oldest_eligible_def eligible_def
      jobs_ok_def constraints_ok_def live_keys_def Let_def)

theorem attempts_bounded_witness: "jb_attempts (claim_row 100 (demo_job ''a'' 0 50)) \<le> 5"
proof -
  have "pool_step\<^sup>*\<^sup>* (demo_pool [demo_job ''a'' 0 50, demo_job ''b'' 0 50] [None, None] 0)
      (demo_pool [claim_row 100 (demo_job ''a'' 0 50), demo_job ''b'' 0 50] [Some (demo_claimed ''a''), None] 0)"
    using demo_first [simplified] by (meson converse_rtranclp_into_rtranclp rtranclp.rtrancl_refl)
  from attempts_bounded [OF demo_start this, of "claim_row 100 (demo_job ''a'' 0 50)"] show ?thesis
    by (simp add: demo_simps)
qed

end
