(* ===== verification/Spec2Isabelle.thy ===== *)
theory Spec2Isabelle
  imports Ownership SyncHub ActionProps Preflight SettingsImport Infohash Regrab JobsProps
begin

text \<open>
  \<^bold>\<open>A verification development for dl-tool.\<close>

  dl-tool is a download manager: a Go server that keeps its tasks in a SQL database, hands them to external
  daemons (aria2, qBittorrent, yt-dlp), and publishes their state to browsers. The development models its
  core: the state machine and the store of the tasks, the controllers that move tasks between the database
  and the daemons, the operator's actions, and the publication of changes.

  \<^bold>\<open>The parts and how they interact.\<close>

  \<^item> \<open>Prelude\<close>: the state monad of the model, the relation \<open>state_io_rel\<close> between the states before and after a
    call with its rules (\<open>io_intros\<close>, locale \<open>step_rel\<close>), tables as lists (\<open>sql_update\<close>, \<open>sql_find\<close>), 64-bit
    arithmetic (\<open>wrap64\<close>), and the decimal printing and parsing of Go.
  \<^item> \<open>TaskState\<close> (\<open>store/tasks.go\<close>, \<open>engine/engine.go\<close>): the ten states, the table of transitions and its
    reachability. \<open>Selection\<close>: the JSON document of a file selection, encoder and decoder.
  \<^item> \<open>TaskStore\<close> (\<open>store/tasks.go\<close>, \<open>store/events.go\<close>, \<open>store/models.go\<close>): every method of the task store as a
    transaction over the tables of tasks, events, files and trackers. One SQL statement is one definition
    (\<open>query...\<close>); a transaction commits, rolls back or meets a fault of the database before or after its
    commit (\<open>db_fault\<close>), and time passes with each call. \<open>StoreLaws\<close> states what every store call promises as
    the locale \<open>store_rel\<close> and interprets it on the schema constraints, the audit trail, the admission mark
    and the frame of a row; \<open>StoreProps\<close> and \<open>StoreLists\<close> hold the functional properties of the operations.
  \<^item> \<open>TaskLease\<close> (\<open>engine/registry.go\<close>): the lease one task operation holds at a time, as an inductive step
    relation over the heap of entries, with its invariant.
  \<^item> \<open>DiskSpace\<close> (\<open>fsx/space.go\<close>): free space, reservations and floors, with Go's path cleaning.
  \<^item> \<open>EngineApi\<close> (\<open>engine/engine.go\<close>): a daemon as a record of functions over an unknown state, the trace of its
    calls, and the requests and intents both controllers send. The locale \<open>engine_rel\<close> extends \<open>store_rel\<close>:
    what is promised of every store write is promised of all that the controllers do.
  \<^item> \<open>Admission\<close>, \<open>AdmissionProps\<close> (\<open>engine/admission.go\<close>): the pass that releases queued tasks within two
    limits and the disk-space reservation. \<open>Reconcile\<close> (\<open>engine/reconcile.go\<close>): the sweep that writes the
    daemons' state back and re-submits what they lost. \<open>Ownership\<close>: neither touches a foreign transfer.
  \<^item> \<open>SafePath\<close> (\<open>fsx/safepath.go\<close>, \<open>fsx/delete.go\<close>): containment of destinations and the executor that unlinks.
  \<^item> \<open>TaskActions\<close>, \<open>ActionProps\<close> (\<open>api/tasks_actions.go\<close>, \<open>api/tasks_delete.go\<close>): bulk actions and removal.
  \<^item> \<open>SyncRing\<close> (\<open>sync/ring.go\<close>, \<open>sync/delta.go\<close>) and \<open>SyncHub\<close> (\<open>sync/hub.go\<close>, the seed of \<open>api/sse.go\<close>): the diff of
    snapshots, the ring of deltas, and the hub that fans them out, as a step relation with its clients.
  \<^item> \<open>Settings\<close> (\<open>store/settings.go\<close>): the settings rows with their typed view and validation, the extraction
    passwords and the 24x7 grid, as transactions on the world extended by these tables. \<open>SettingsImport\<close>
    (\<open>api/settings_export.go\<close>): the import of the scalar members and of the grid.
  \<^item> \<open>Governor\<close>, \<open>GovernorProps\<close> (\<open>engine/bandwidth.go\<close>, \<open>jobs/cron.go\<close>) and \<open>ScheduleApi\<close>
    (\<open>api/settings_schedule.go\<close>): the precedence chain of limits, the three modes of the schedule with parking
    and release, the minute tick, and the handlers of the grid.
  \<^item> \<open>Ssrf\<close> (\<open>secure/ssrf.go\<close>): the guard of outbound fetches over 32 and 128 bit addresses, Go's address parser,
    and a fetch with its redirects. \<open>Preflight\<close> (\<open>secure/preflight.go\<close>): the check of a submitted link before a
    daemon fetches it, and redaction.
  \<^item> \<open>GoText\<close>, \<open>GoUrl\<close>: Go's strings as bytes, UTF-8, hex, base32 and base64, and its URLs with their escaping,
    written out because the classification rests on them. \<open>Uri\<close>, \<open>UriProps\<close> (\<open>uri/normalize.go\<close>,
    \<open>uri/magnet.go\<close>, \<open>uri/obfuscated.go\<close>, \<open>engine/router.go\<close>): what a pasted link is, the identity it carries, and
    the engine it goes to. \<open>Infohash\<close> (\<open>store/tasks_infohash.go\<close>): that identity in the store.
  \<^item> The feed reader, on the store extended by its tables (\<open>press\<close>). \<open>Feeds\<close> (\<open>store/feeds.go\<close>,
    \<open>store/rules.go\<close>): feeds, items, rules and their statements. \<open>Regex\<close>: Go's regular expressions by
    derivatives. \<open>RuleDoc\<close> (\<open>rss/ruledoc.go\<close>, \<open>rss/episode.go\<close>): rule documents, their validation, episode
    filters and keys. \<open>RuleMatch\<close> (\<open>rss/match.go\<close>): the ladder an item climbs, and the choice among the accepted.
    \<open>Grab\<close> (\<open>rss/grab.go\<close>, \<open>rss/dryrun.go\<close>): the tables behind an evaluation, the commit of grabs, runs and dry
    runs. \<open>Wp\<close> holds the weakest preconditions with which \<open>RuleProps\<close> and \<open>Regrab\<close> reason about them.
  \<^item> \<open>Jobs\<close>, \<open>JobsProps\<close> (\<open>store/jobs.go\<close>, \<open>jobs/worker.go\<close>, and the writers of the table in \<open>jobs/cron.go\<close>,
    \<open>jobs/postprocess.go\<close>, \<open>jobs/handlers_notify.go\<close>, \<open>store/search.go\<close>, \<open>store/maintenance.go\<close>): the durable queue,
    and its workers as a step relation in which the other writers, faults and restarts come between.

  The state of the model is one record: the store, extended by the daemons' state, the trace of outside
  calls, the lease table and a deadline (\<open>world\<close>). Every handler is an action on it. Goroutines that run
  between the steps of a handler are an argument (\<open>env\<close>, \<open>others\<close>), arbitrary but for the contract they share.

  \<^bold>\<open>What the lemmas show.\<close> The rules of \<open>store_rel\<close> and \<open>engine_rel\<close> carry invariants through all handlers:
  the append-only audit trail, in which every edge of the transition table a task takes has an event of its
  own, and the mark that stands on queued rows only. Functional
  lemmas give each store operation on every branch. Safety of the controllers: limits are respected, an
  engine is contacted only for a candidate that passed the gates, limits and selections land before a
  transfer starts, foreign transfers are spared, a No Download hour pauses and sends no rate, only validated paths are unlinked and only after the engine
  let go. A link is fetched from admitted addresses only. A grab is announced, recorded and not repeated; a job
  has one runner and a bounded number of runs. Exclusion and hand-off of the lease. The hub and the ring refine a broadcast of snapshots.

  \<^bold>\<open>Bounds and termination.\<close> Every definition is total. No fuel is used: the searches through parent
  directories recurse on the length of the path (\<open>climb\<close>, \<open>resolveExisting\<close>), the loops over rows and ids on
  their lists. Sizes of the source (\<open>RingDepth\<close> 300, \<open>maxActionIDs\<close> 500) are the source's. Arithmetic on bytes
  wraps at 64 bits where Go's does.

  \<^bold>\<open>Parameters.\<close> Daemons, the file system, the kernel's space figures, the ULID generator, the settings rows
  and the faults and delays of the database are arguments. Nothing is assumed of them beyond what a theorem
  states.

  \<^bold>\<open>Not modelled.\<close> HTTP framing, log lines and tickers; the SQL engine beneath the statements; the adapters of
  the daemons (RPC and JSON mapping); PATCH, creation and listing of tasks; users; the fetching and parsing of
  feeds and the ladder of their polls; search; the handlers of background jobs (moving, extracting,
  notifying) and the decision that one is owed; the export of settings and the import of its rows;
  configuration and secrets; categories, tags, notification channels and watch folders; the web interface.
\<close>

end
